(* ===== verification/Prelude.thy ===== *)
theory Prelude
  imports Main "HOL-Library.Word" "HOL-Library.Finite_Map"
begin

unbundle bit_operations_syntax

text \<open>
  Shared vocabulary of the development.

  \<^item> Go's machine integers: \<open>byte\<close>, \<open>u32\<close> and \<open>u64\<close> are words of their width; the signed types
    \<open>int32\<close> and \<open>int64\<close> are integers, every operation that can leave the range being
    followed by \<open>wrap32\<close> or \<open>wrap64\<close>; \<open>in_i32\<close> and \<open>in_i64\<close> are the ranges.
  \<^item> Go's \<open>string\<close> is a sequence of bytes: HOL's \<open>string\<close>, converted from and to \<open>[]byte\<close> by
    \<open>str_of\<close> and \<open>bytes_of\<close>.
  \<^item> Go's \<open>error\<close>: the sentinels of \<open>errors.go\<close> as constructors. An error built by
    \<open>fmt.Errorf("%w: text", sentinel)\<close> is its sentinel: the text is for people and no code
    branches on it. \<open>Retryable\<close> is the wrapper of \<open>retry.go\<close>, \<open>Joined\<close> an error with two
    \<open>%w\<close> operands, \<open>EnvErr\<close> an error that the environment hands in.
  \<^item> A function with results \<open>(a, error)\<close> is of type \<open>'a res\<close>, \<open>Inl\<close> being the error. A method
    that mutates its receiver and returns an \<open>error\<close> gives the new receiver in both cases.
\<close>

section \<open>Machine integers\<close>

type_synonym byte = "8 word"
type_synonym u32 = "32 word"
type_synonym u64 = "64 word"
type_synonym i32 = int
type_synonym i64 = int

definition MaxInt32 :: int where
  "MaxInt32 = 2147483647"

definition MaxInt64 :: int where
  "MaxInt64 = 9223372036854775807"

definition MinInt64 :: int where
  "MinInt64 = - 9223372036854775808"

definition MaxUint32 :: int where
  "MaxUint32 = 4294967295"

definition wrap64 :: "int \<Rightarrow> i64" where
  "wrap64 x = signed_take_bit 63 x"

definition wrap32 :: "int \<Rightarrow> i32" where
  "wrap32 x = signed_take_bit 31 x"

definition in_i64 :: "int \<Rightarrow> bool" where
  "in_i64 x \<longleftrightarrow> MinInt64 \<le> x \<and> x \<le> MaxInt64"

definition in_i32 :: "int \<Rightarrow> bool" where
  "in_i32 x \<longleftrightarrow> - MaxInt32 - 1 \<le> x \<and> x \<le> MaxInt32"

text \<open>Go's integer division truncates towards zero.\<close>

definition go_div :: "int \<Rightarrow> int \<Rightarrow> int" where
  "go_div a b = sgn a * sgn b * (\<bar>a\<bar> div \<bar>b\<bar>)"

definition go_mod :: "int \<Rightarrow> int \<Rightarrow> int" where
  "go_mod a b = a - b * go_div a b"

named_theorems limits \<open>values of the numeric limits of the language and of the program\<close>

lemmas go_limits [limits] = MaxInt32_def MaxInt64_def MinInt64_def MaxUint32_def

lemma wrap64_id [simp]: "in_i64 x \<Longrightarrow> wrap64 x = x"
  by (simp add: wrap64_def in_i64_def limits signed_take_bit_int_eq_self)

lemma wrap32_id [simp]: "in_i32 x \<Longrightarrow> wrap32 x = x"
  by (simp add: wrap32_def in_i32_def limits signed_take_bit_int_eq_self)

lemma wrap64_range [simp, intro]: "in_i64 (wrap64 x)"
  using signed_take_bit_int_less_exp [of 63 x] signed_take_bit_int_greater_eq_minus_exp [of 63 x]
  by (simp add: wrap64_def in_i64_def limits)

lemma go_div_pos: "0 \<le> a \<Longrightarrow> 0 < b \<Longrightarrow> go_div a b = a div b"
  by (cases "a = 0") (auto simp: go_div_def)

lemma go_mod_pos: "0 \<le> a \<Longrightarrow> 0 < b \<Longrightarrow> go_mod a b = a mod b"
  by (simp add: go_mod_def go_div_pos minus_mult_div_eq_mod)

section \<open>Strings and bytes\<close>

definition str_of :: "byte list \<Rightarrow> string" where
  "str_of bs = map (\<lambda>b. char_of (unat b)) bs"

definition bytes_of :: "string \<Rightarrow> byte list" where
  "bytes_of s = map (\<lambda>c. word_of_nat (of_char c)) s"

lemma length_str_of [simp]: "length (str_of bs) = length bs"
  by (simp add: str_of_def)

lemma length_bytes_of [simp]: "length (bytes_of s) = length s"
  by (simp add: bytes_of_def)

lemma str_of_Nil_iff [simp]: "str_of bs = [] \<longleftrightarrow> bs = []"
  by (simp add: str_of_def)

lemma bytes_of_Nil_iff [simp]: "bytes_of s = [] \<longleftrightarrow> s = []"
  by (simp add: bytes_of_def)

lemma str_of_bytes_of [simp]: "str_of (bytes_of s) = s"
proof -
  have "char_of (unat (word_of_nat (of_char c) :: byte)) = c" for c
    using nat_of_char_less_256 [of c] by (simp add: unat_of_nat)
  then show ?thesis
    by (simp add: str_of_def bytes_of_def map_idI)
qed

lemma bytes_of_str_of [simp]: "bytes_of (str_of bs) = bs"
proof -
  have "word_of_nat (of_char (char_of (unat b))) = b" for b :: byte
    using unsigned_less [of b, where 'a = nat] by simp
  then show ?thesis
    by (simp add: str_of_def bytes_of_def map_idI)
qed

section \<open>Errors and results\<close>

datatype (plugins only: code size) error =
    ErrMalformedFraming | ErrTruncatedStream | ErrNonCanonicalVarint | ErrVarintOverflow
  | ErrUnsafeDestination | ErrDestinationExists | ErrOversizedPart | ErrTooManyParts
  | ErrTooManyActiveHeaders | ErrUnsupportedDirective | ErrInvalidMediaState
  | ErrInvalidProtobuf | ErrUnsupportedURL | ErrInvalidContentType | ErrResponseTooLarge
  | ErrLiveUnsupported | ErrResumeUnsupported | ErrCheckpointInvalid | ErrMissingConfig
  | ErrDownloadFailed | ErrRedirect | ErrUnsafeRedirect | ErrRedirectLoop | ErrRedirectBudget
  | ErrInvalidContextState | ErrEventSink | ErrTooManyAttempts | ErrRoundsExhausted
  | ErrExcessivePolicyBackoff | ErrSabrError | ErrReloadPlayerResponse | ErrSabrRecoveryBudget
  | ErrReloadBudget | ErrRefreshBudget | ErrReloadRejected | ErrRefreshRejected
  | SabrErrorSignal string i32 | ReloadPlayerSignal string
  | EOF | ErrShortWrite | EnvErr nat | Retryable error | Joined error error

type_synonym 'a res = "error + 'a"

definition bind_res :: "'a res \<Rightarrow> ('a \<Rightarrow> 'b res) \<Rightarrow> 'b res" where
  "bind_res m f = (case m of Inl e \<Rightarrow> Inl e | Inr x \<Rightarrow> f x)"

text \<open>\<open>if c { return err }\<close> in front of the rest of a function.\<close>

definition guard_res :: "bool \<Rightarrow> error \<Rightarrow> 'a res \<Rightarrow> 'a res" where
  "guard_res bad e k = (if bad then Inl e else k)"

lemma bind_res_simps [simp]: "bind_res (Inl e) f = Inl e" "bind_res (Inr x) f = f x"
  by (simp_all add: bind_res_def)

lemma bind_res_Inr_iff: "bind_res m f = Inr y \<longleftrightarrow> (\<exists>x. m = Inr x \<and> f x = Inr y)"
  by (cases m) auto

lemma bind_res_Inl_iff: "bind_res m f = Inl e \<longleftrightarrow> m = Inl e \<or> (\<exists>x. m = Inr x \<and> f x = Inl e)"
  by (cases m) auto

lemma guard_res_Inr_iff [simp]: "guard_res bad e k = Inr y \<longleftrightarrow> \<not> bad \<and> k = Inr y"
  by (simp add: guard_res_def)

lemma guard_res_simps [simp]: "guard_res True e k = Inl e" "guard_res False e k = k"
  by (simp_all add: guard_res_def)

section \<open>Lists and slices\<close>

lemma drop_append_exact [simp]: "length xs = n \<Longrightarrow> drop n (xs @ ys) = ys"
  by simp

lemma take_append_exact [simp]: "length xs = n \<Longrightarrow> take n (xs @ ys) = xs"
  by simp

end
