(* ===== verification/GoUrl.thy ===== *)
theory GoUrl
  imports GoStrings
begin

text \<open>
  The part of Go's \<open>net/url\<close> that the program uses: \<open>Parse\<close>, \<open>Hostname\<close>, \<open>Port\<close> and \<open>EscapedPath\<close>.
  Two outcomes that no caller can tell apart are merged. A host with a square bracket is a parse
  error (the library accepts it only around an IPv6 address, whose colons the callers reject with the
  same error), and the user information in front of an \<open>@\<close> is kept as it is written.
\<close>

section \<open>Escaping\<close>

datatype encoding = encodePath | encodeHost | encodeFragment

definition is_alnum :: "char \<Rightarrow> bool" where
  "is_alnum c \<longleftrightarrow> (let n = (of_char c :: nat) in
     (97 \<le> n \<and> n \<le> 122) \<or> (65 \<le> n \<and> n \<le> 90) \<or> (48 \<le> n \<and> n \<le> 57))"

definition shouldEscape :: "char \<Rightarrow> encoding \<Rightarrow> bool" where
  "shouldEscape c mode =
     (if is_alnum c then False
      else if mode = encodeHost \<and> c \<in> set (''!$&'' @ [CHR 0x27] @ ''()*+,;=:[]<>'' @ [CHR 0x22]) then False
      else if c \<in> set ''-_.~'' then False
      else if c \<in> set ''$&+,/:;=?@'' \<and> mode = encodePath then c = CHR ''?''
      else if c \<in> set ''$&+,/:;=?@'' \<and> mode = encodeFragment then False
      else if mode = encodeFragment \<and> c \<in> set ''!()*'' then False
      else True)"

definition unhex :: "char \<Rightarrow> nat option" where
  "unhex c = (let n = (of_char c :: nat) in
     if 48 \<le> n \<and> n \<le> 57 then Some (n - 48)
     else if 97 \<le> n \<and> n \<le> 102 then Some (n - 97 + 10)
     else if 65 \<le> n \<and> n \<le> 70 then Some (n - 65 + 10)
     else None)"

text \<open>\<open>None\<close> is an \<open>EscapeError\<close> or \<open>InvalidHostError\<close>.\<close>

function unescape :: "encoding \<Rightarrow> string \<Rightarrow> string option" where
  "unescape mode [] = Some []"
| "unescape mode (c # s) =
     (if c = CHR ''%'' then
        (case s of
           h # l # rest \<Rightarrow>
             (case (unhex h, unhex l) of
                (Some a, Some b) \<Rightarrow>
                  if mode = encodeHost \<and> a < 8 \<and> [c, h, l] \<noteq> ''%25'' then None
                  else map_option (\<lambda>t. char_of (16 * a + b) # t) (unescape mode rest)
              | _ \<Rightarrow> None)
         | _ \<Rightarrow> None)
      else if mode = encodeHost \<and> (of_char c :: nat) < 128 \<and> shouldEscape c mode then None
      else map_option (\<lambda>t. c # t) (unescape mode s))"
  by pat_completeness auto
termination
  by (relation "measure (\<lambda>(mode, s). length s)") auto

definition upperhex :: "nat \<Rightarrow> char" where
  "upperhex n = (if n < 10 then char_of (48 + n) else char_of (55 + n))"

fun escape :: "encoding \<Rightarrow> string \<Rightarrow> string" where
  "escape mode [] = []"
| "escape mode (c # s) =
     (if shouldEscape c mode
      then [CHR ''%'', upperhex (of_char c div 16), upperhex (of_char c mod 16)] @ escape mode s
      else c # escape mode s)"

definition validEncoded :: "string \<Rightarrow> encoding \<Rightarrow> bool" where
  "validEncoded s mode =
     list_all (\<lambda>c. c \<in> set (''!$&'' @ [CHR 0x27] @ ''()*+,;=:@[]%'') \<or> \<not> shouldEscape c mode) s"

section \<open>URLs\<close>

record URL =
  url_Scheme :: string
  url_Opaque :: string
  url_User :: "string option"
  url_Host :: string
  url_Path :: string
  url_RawPath :: string
  url_RawQuery :: string
  url_Fragment :: string

definition zeroURL :: URL where
  "zeroURL = \<lparr>url_Scheme = [], url_Opaque = [], url_User = None, url_Host = [], url_Path = [],
     url_RawPath = [], url_RawQuery = [], url_Fragment = []\<rparr>"

definition is_letter :: "char \<Rightarrow> bool" where
  "is_letter c \<longleftrightarrow> (let n = (of_char c :: nat) in (97 \<le> n \<and> n \<le> 122) \<or> (65 \<le> n \<and> n \<le> 90))"

text \<open>\<open>getScheme\<close> from position \<open>i\<close> on, with the bytes before it in \<open>pre\<close>.\<close>

fun scheme_loop :: "string \<Rightarrow> string \<Rightarrow> (string \<times> string) option" where
  "scheme_loop pre [] = Some ([], pre)"
| "scheme_loop pre (c # s) =
     (if is_letter c then scheme_loop (pre @ [c]) s
      else if is_alnum c \<or> c \<in> set ''+-.'' then
        (if pre = [] then Some ([], pre @ c # s) else scheme_loop (pre @ [c]) s)
      else if c = CHR '':'' then (if pre = [] then None else Some (pre, s))
      else Some ([], pre @ c # s))"

definition getScheme :: "string \<Rightarrow> (string \<times> string) option" where
  "getScheme raw = scheme_loop [] raw"

fun validOptionalPort :: "string \<Rightarrow> bool" where
  "validOptionalPort [] = True"
| "validOptionalPort (c # s) =
     (c = CHR '':'' \<and> list_all (\<lambda>d. 48 \<le> (of_char d :: nat) \<and> (of_char d :: nat) \<le> 57) s)"

definition parseHost :: "string \<Rightarrow> string option" where
  "parseHost host =
     (if Contains host ''['' then None
      else (case LastIndexByte host (CHR '':'') of
              Some i \<Rightarrow> if \<not> validOptionalPort (drop i host) then None else unescape encodeHost host
            | None \<Rightarrow> unescape encodeHost host))"

definition parseAuthority :: "string \<Rightarrow> (string option \<times> string) option" where
  "parseAuthority authority =
     (case LastIndexByte authority (CHR ''@'') of
        None \<Rightarrow> map_option (\<lambda>host. (None, host)) (parseHost authority)
      | Some i \<Rightarrow>
          map_option (\<lambda>host. (Some (take i authority), host)) (parseHost (drop (i + 1) authority)))"

definition setPath :: "URL \<Rightarrow> string \<Rightarrow> URL option" where
  "setPath u p =
     (case unescape encodePath p of
        None \<Rightarrow> None
      | Some path \<Rightarrow>
          Some (u\<lparr>url_Path := path,
                  url_RawPath := (if p = escape encodePath path then [] else p)\<rparr>))"

definition is_ctl :: "char \<Rightarrow> bool" where
  "is_ctl c \<longleftrightarrow> (of_char c :: nat) < 32 \<or> (of_char c :: nat) = 127"

definition split_query :: "string \<Rightarrow> string \<times> string" where
  "split_query rest =
     (if HasSuffix rest ''?'' \<and> CountByte rest (CHR ''?'') = 1
      then (take (length rest - 1) rest, []) else Cut rest (CHR ''?''))"

definition parse_hierarchical :: "URL \<Rightarrow> string \<Rightarrow> URL option" where
  "parse_hierarchical u rest =
     (if (url_Scheme u \<noteq> [] \<or> \<not> HasPrefix rest ''///'') \<and> HasPrefix rest ''//'' then
        let authority = drop 2 rest;
            (authority, rest) =
              (case Index authority ''/'' of
                 Some i \<Rightarrow> (take i authority, drop i authority)
               | None \<Rightarrow> (authority, []))
        in (case parseAuthority authority of
              None \<Rightarrow> None
            | Some (user, host) \<Rightarrow> setPath (u\<lparr>url_User := user, url_Host := host\<rparr>) rest)
      else setPath u rest)"

definition parse_url :: "string \<Rightarrow> URL option" where
  "parse_url raw =
     (if list_ex is_ctl raw then None
      else if raw = ''*'' then Some (zeroURL\<lparr>url_Path := ''*''\<rparr>)
      else (case getScheme raw of
              None \<Rightarrow> None
            | Some (scheme, rest) \<Rightarrow>
                let (rest, query) = split_query rest;
                    u = zeroURL\<lparr>url_Scheme := ToLower scheme, url_RawQuery := query\<rparr>
                in if \<not> HasPrefix rest ''/'' \<and> scheme \<noteq> [] then Some (u\<lparr>url_Opaque := rest\<rparr>)
                   else if \<not> HasPrefix rest ''/'' \<and> Contains (fst (Cut rest (CHR ''/''))) '':''
                        then None
                   else parse_hierarchical u rest))"

definition url_Parse :: "string \<Rightarrow> URL option" where
  "url_Parse raw =
     (let (u, frag) = Cut raw (CHR ''#'')
      in (case parse_url u of
            None \<Rightarrow> None
          | Some url \<Rightarrow>
              if frag = [] then Some url
              else map_option (\<lambda>f. url\<lparr>url_Fragment := f\<rparr>) (unescape encodeFragment frag)))"

definition EscapedPath :: "URL \<Rightarrow> string" where
  "EscapedPath u =
     (if url_RawPath u \<noteq> [] \<and> validEncoded (url_RawPath u) encodePath \<and>
         unescape encodePath (url_RawPath u) = Some (url_Path u) then url_RawPath u
      else if url_Path u = ''*'' then ''*''
      else escape encodePath (url_Path u))"

definition splitHostPort :: "string \<Rightarrow> string \<times> string" where
  "splitHostPort hostPort =
     (let (host, port) =
            (case LastIndexByte hostPort (CHR '':'') of
               Some i \<Rightarrow>
                 if validOptionalPort (drop i hostPort) then (take i hostPort, drop (i + 1) hostPort)
                 else (hostPort, [])
             | None \<Rightarrow> (hostPort, []));
          host = (if HasPrefix host ''['' \<and> HasSuffix host '']''
                  then take (length host - 2) (drop 1 host) else host)
      in (host, port))"

definition Hostname :: "URL \<Rightarrow> string" where
  "Hostname u = fst (splitHostPort (url_Host u))"

definition url_Port :: "URL \<Rightarrow> string" where
  "url_Port u = snd (splitHostPort (url_Host u))"

section \<open>The shape of an accepted URL\<close>

lemma scheme_loop_Some:
  "scheme_loop pre s = Some (scheme, rest) \<Longrightarrow> scheme \<noteq> [] \<Longrightarrow>
     \<exists>t. scheme = pre @ t \<and> s = t @ CHR '':'' # rest \<and> set t \<inter> set '':#?'' = {}"
proof (induction pre s rule: scheme_loop.induct)
  case (2 pre c s)
  have lexical: "is_letter c \<or> is_alnum c \<or> c \<in> set ''+-.'' \<Longrightarrow> c \<notin> set '':#?''"
    by (auto simp: is_letter_def is_alnum_def)
  show ?case
  proof (cases "is_letter c \<or> ((is_alnum c \<or> c \<in> set ''+-.'') \<and> pre \<noteq> [])")
    case True
    then obtain t where "scheme = (pre @ [c]) @ t" "s = t @ CHR '':'' # rest" "set t \<inter> set '':#?'' = {}"
      using 2 by (auto split: if_splits)
    then show ?thesis
      using True lexical by (intro exI [of _ "c # t"]) auto
  next
    case False
    then show ?thesis
      using "2.prems" by (auto split: if_splits)
  qed
qed simp

lemma split_query_shape:
  assumes "split_query rest = (path, query)"
  shows "CHR ''?'' \<notin> set path \<and> (rest = path \<or> (\<exists>q. rest = path @ CHR ''?'' # q))"
proof (cases "HasSuffix rest ''?'' \<and> CountByte rest (CHR ''?'') = 1")
  case True
  then obtain t where t: "rest = t @ ''?''" using HasSuffixE by blast
  have "CountByte (xs @ ys) c = CountByte xs c + CountByte ys c" for xs ys c
    by (induction xs) auto
  then have "CountByte t (CHR ''?'') = 0" using True t by simp
  then show ?thesis
    using assms True t by (auto simp: split_query_def CountByte_0_iff)
next
  case False
  then show ?thesis
    using assms Cut_split [of rest "CHR ''?''" path query] by (auto simp: split_query_def)
qed

lemma Index_char_Some:
  "Index s [c] = Some i \<Longrightarrow> c \<notin> set (take i s) \<and> i < length s \<and> s ! i = c"
  by (induction s arbitrary: i) (auto simp: HasPrefix_def split: if_splits)

lemma Index_char_None: "Index s [c] = None \<Longrightarrow> c \<notin> set s"
  by (induction s) (auto simp: HasPrefix_def split: if_splits)

text \<open>The path that follows an authority is empty or begins with a slash.\<close>

lemma parse_hierarchical_authority:
  assumes "parse_hierarchical u rest = Some v" and "url_Scheme u \<noteq> []" and "url_Host u = []"
    and "url_Host v \<noteq> []"
  shows "\<exists>authority path. rest = ''//'' @ authority @ path \<and> CHR ''/'' \<notin> set authority \<and>
    (path = [] \<or> hd path = CHR ''/'') \<and> parseAuthority authority = Some (url_User v, url_Host v)"
proof (cases "HasPrefix rest ''//''")
  case True
  then obtain a where a: "rest = ''//'' @ a" using HasPrefixE by blast
  define b p where "b = (case Index a ''/'' of Some i \<Rightarrow> take i a | None \<Rightarrow> a)"
    and "p = (case Index a ''/'' of Some i \<Rightarrow> drop i a | None \<Rightarrow> [])"
  then have bp: "a = b @ p" "CHR ''/'' \<notin> set b" "p = [] \<or> hd p = CHR ''/''"
    using Index_char_Some [of a "CHR ''/''"] Index_char_None [of a "CHR ''/''"]
    by (auto split: option.splits simp: hd_drop_conv_nth)
  have "parseAuthority b = Some (url_User v, url_Host v)"
    using assms True a
    by (auto simp: parse_hierarchical_def b_def setPath_def split: option.splits)
  with a bp show ?thesis by blast
next
  case False
  then show ?thesis
    using assms by (auto simp: parse_hierarchical_def setPath_def split: option.splits if_splits)
qed

lemma parse_hierarchical_scheme:
  "parse_hierarchical u rest = Some v \<Longrightarrow> url_Scheme v = url_Scheme u"
  by (auto simp: parse_hierarchical_def setPath_def Let_def
      split: option.splits if_splits prod.splits)

lemma parse_url_hierarchical:
  assumes "parse_url base = Some u" and "url_Scheme u \<noteq> []" and "url_Host u \<noteq> []"
  obtains scheme rest path query where "getScheme base = Some (scheme, rest)"
    "split_query rest = (path, query)" "scheme \<noteq> []" "HasPrefix path ''/''" "url_Scheme u = ToLower scheme"
    "parse_hierarchical (zeroURL\<lparr>url_Scheme := ToLower scheme, url_RawQuery := query\<rparr>) path = Some u"
    "\<not> list_ex is_ctl base" "base = scheme @ CHR '':'' # rest" "set scheme \<inter> set '':#?'' = {}"
proof -
  obtain scheme rest where g: "getScheme base = Some (scheme, rest)"
    using assms(1,2) by (auto simp: parse_url_def zeroURL_def split: if_splits option.splits)
  obtain path query where q: "split_query rest = (path, query)" by fastforce
  let ?u = "zeroURL\<lparr>url_Scheme := ToLower scheme, url_RawQuery := query\<rparr>"
  have h: "parse_hierarchical ?u path = Some u" "\<not> list_ex is_ctl base"
      "scheme = [] \<or> HasPrefix path ''/''"
    using assms g q by (auto simp: parse_url_def zeroURL_def Let_def split: if_splits)
  have "url_Scheme u = ToLower scheme"
    using parse_hierarchical_scheme [OF h(1)] by simp
  moreover have "scheme \<noteq> []"
    using calculation assms(2) by auto
  moreover have "base = scheme @ CHR '':'' # rest" "set scheme \<inter> set '':#?'' = {}"
    using scheme_loop_Some [OF g [unfolded getScheme_def]] calculation(2) by auto
  ultimately show thesis
    using g q h that by blast
qed

lemma unescape_nonempty: "unescape mode s = Some [] \<Longrightarrow> s = []"
  by (cases s) (auto split: if_splits list.splits option.splits)

lemma url_Parse_authority:
  assumes "url_Parse raw = Some u" and "url_Scheme u \<noteq> []" and "url_Host u \<noteq> []" and "url_Fragment u = []"
  shows "\<exists>scheme authority tail. raw = scheme @ ''://'' @ authority @ tail \<and>
    ToLower scheme = url_Scheme u \<and> CHR '':'' \<notin> set scheme \<and>
    set authority \<inter> set ''/?#'' = {} \<and> (tail = [] \<or> hd tail \<in> set ''/?#'') \<and>
    parseAuthority authority = Some (url_User u, url_Host u)"
proof -
  obtain base frag where cut: "Cut raw (CHR ''#'') = (base, frag)" by fastforce
  have b: "CHR ''#'' \<notin> set base" "raw = base @ CHR ''#'' # frag \<or> raw = base"
    using Cut_split [OF cut] by auto
  have p: "parse_url base = Some u"
    using assms(1,4) cut unescape_nonempty [of encodeFragment frag]
    by (auto simp: url_Parse_def split: option.splits if_splits)
  obtain scheme rest path query where q: "split_query rest = (path, query)"
    and s: "base = scheme @ CHR '':'' # rest" "set scheme \<inter> set '':#?'' = {}"
    and h: "parse_hierarchical (zeroURL\<lparr>url_Scheme := ToLower scheme, url_RawQuery := query\<rparr>) path
        = Some u" "url_Scheme u = ToLower scheme"
    using parse_url_hierarchical [OF p assms(2,3)] by metis
  obtain authority tail where a: "path = ''//'' @ authority @ tail" "CHR ''/'' \<notin> set authority"
      "tail = [] \<or> hd tail = CHR ''/''" "parseAuthority authority = Some (url_User u, url_Host u)"
    using parse_hierarchical_authority [OF h(1)] h(2) assms(2,3) by (auto simp: zeroURL_def)
  have r: "CHR ''?'' \<notin> set path" "rest = path \<or> (\<exists>q. rest = path @ CHR ''?'' # q)"
    using split_query_shape [OF q] by auto
  have "\<exists>t. raw = scheme @ ''://'' @ authority @ tail @ t \<and> (t = [] \<or> hd t \<in> set ''?#'')"
    using b s r a(1) by auto
  then obtain t where t: "raw = scheme @ ''://'' @ authority @ tail @ t" "t = [] \<or> hd t \<in> set ''?#''"
    by blast
  have "set authority \<inter> set ''/?#'' = {}"
    using a(1,2) b(1) s(1) r by auto
  moreover have "tail @ t = [] \<or> hd (tail @ t) \<in> set ''/?#''"
    using t(2) a(3) by (cases tail) auto
  ultimately show ?thesis
    using t(1) h(2) s(2) a(4) by (intro exI [of _ scheme] exI [of _ authority] exI [of _ "tail @ t"]) auto
qed

end
