(* ===== verification/Bounds.thy ===== *)
theory Bounds
  imports Prelude
begin

text \<open>
  The resource bounds of \<open>bounds.go\<close> and the UMP part identifiers of \<open>parts.go\<close>, with the
  classification of parts into handled and rejected ones. Byte bounds that Go compares with
  \<open>int64\<close> values are integers, bounds on lengths and counts are naturals.
\<close>

section \<open>Resource bounds\<close>

definition MaxResponseBytes :: int where "MaxResponseBytes = 8589934592"
definition MaxRoundBytes :: int where "MaxRoundBytes = 67108864"
definition MaxParts :: nat where "MaxParts = 10000"
definition MaxActiveHeaders :: nat where "MaxActiveHeaders = 8"
definition MaxPartPayload :: int where "MaxPartPayload = MaxRoundBytes"
definition MaxMediaBytes :: int where "MaxMediaBytes = MaxResponseBytes"
definition MaxRounds :: nat where "MaxRounds = 64"
definition MaxProtobufFieldBytes :: nat where "MaxProtobufFieldBytes = 16777216"
definition MaxProtobufFields :: nat where "MaxProtobufFields = 256"
definition MaxPlaybackCookieBytes :: nat where "MaxPlaybackCookieBytes = 4096"
definition MaxPolicyBackoffMs :: int where "MaxPolicyBackoffMs = 30000"
definition MaxSabrContexts :: nat where "MaxSabrContexts = 64"
definition MaxSabrContextValueBytes :: nat where "MaxSabrContextValueBytes = 16384"
definition MaxSabrContextValueBytesTotal :: int where "MaxSabrContextValueBytesTotal = 262144"
definition MaxSabrContextPolicyOps :: int where "MaxSabrContextPolicyOps = 192"
definition MaxRedirectURLBytes :: nat where "MaxRedirectURLBytes = 4096"
definition MaxDirectiveRedirects :: nat where "MaxDirectiveRedirects = 8"
definition MaxSabrErrorTypeBytes :: nat where "MaxSabrErrorTypeBytes = 256"
definition MaxReloadTokenBytes :: nat where "MaxReloadTokenBytes = 4096"
definition MaxSabrErrorRecoveries :: int where "MaxSabrErrorRecoveries = 3"
definition MaxReloadAttempts :: int where "MaxReloadAttempts = 2"
definition MaxSabrRefreshAttempts :: int where "MaxSabrRefreshAttempts = 2"

lemmas ump_limits [limits] =
  MaxResponseBytes_def MaxRoundBytes_def MaxParts_def MaxActiveHeaders_def MaxPartPayload_def
  MaxMediaBytes_def MaxRounds_def MaxProtobufFieldBytes_def MaxProtobufFields_def
  MaxPlaybackCookieBytes_def MaxPolicyBackoffMs_def MaxSabrContexts_def
  MaxSabrContextValueBytes_def MaxSabrContextValueBytesTotal_def MaxSabrContextPolicyOps_def
  MaxRedirectURLBytes_def MaxDirectiveRedirects_def MaxSabrErrorTypeBytes_def
  MaxReloadTokenBytes_def MaxSabrErrorRecoveries_def MaxReloadAttempts_def
  MaxSabrRefreshAttempts_def

section \<open>UMP part identifiers\<close>

definition PartMediaHeader :: int where "PartMediaHeader = 20"
definition PartMedia :: int where "PartMedia = 21"
definition PartMediaEnd :: int where "PartMediaEnd = 22"
definition PartNextRequestPolicy :: int where "PartNextRequestPolicy = 35"
definition PartFormatInitializationMetadata :: int where "PartFormatInitializationMetadata = 42"
definition PartSABRRedirect :: int where "PartSABRRedirect = 43"
definition PartSABRError :: int where "PartSABRError = 44"
definition PartReloadPlayerResponse :: int where "PartReloadPlayerResponse = 46"
definition PartLiveMetadata :: int where "PartLiveMetadata = 31"
definition PartSABRContextUpdate :: int where "PartSABRContextUpdate = 57"
definition PartStreamProtectionStatus :: int where "PartStreamProtectionStatus = 58"
definition PartSABRContextSendingPolicy :: int where "PartSABRContextSendingPolicy = 59"
definition PartEndOfTrack :: int where "PartEndOfTrack = 62"

named_theorems part_ids \<open>values of the UMP part identifiers\<close>

lemmas ump_part_ids [part_ids] =
  PartMediaHeader_def PartMedia_def PartMediaEnd_def PartNextRequestPolicy_def
  PartFormatInitializationMetadata_def PartSABRRedirect_def PartSABRError_def
  PartReloadPlayerResponse_def PartLiveMetadata_def PartSABRContextUpdate_def
  PartStreamProtectionStatus_def PartSABRContextSendingPolicy_def PartEndOfTrack_def

definition isBenignSkippedPart :: "int \<Rightarrow> bool" where
  "isBenignSkippedPart partType = False"

definition isHandledPart :: "int \<Rightarrow> bool" where
  "isHandledPart partType =
     (if partType \<in> {PartMediaHeader, PartMedia, PartMediaEnd, PartFormatInitializationMetadata,
        PartNextRequestPolicy, PartEndOfTrack, PartSABRRedirect, PartSABRContextUpdate,
        PartSABRContextSendingPolicy, PartSABRError, PartReloadPlayerResponse} then True
      else isBenignSkippedPart partType)"

definition isCriticalUnsupportedPart :: "int \<Rightarrow> bool" where
  "isCriticalUnsupportedPart partType =
     (if partType \<in> {PartLiveMetadata, PartStreamProtectionStatus} then True
      else \<not> isHandledPart partType)"

text \<open>The two classifications of \<open>parts.go\<close> are complementary.\<close>

lemma isCriticalUnsupportedPart_iff:
  "isCriticalUnsupportedPart t \<longleftrightarrow> \<not> isHandledPart t"
  by (auto simp: isCriticalUnsupportedPart_def isHandledPart_def isBenignSkippedPart_def part_ids)

end
