(* ===== verification/Request.thy ===== *)
theory Request
  imports GoUrl Bounds
begin

text \<open>
  The requests of the SABR engine: the trusted-host policy and the request URL of \<open>request.go\<close>, the
  protected headers of \<open>headers.go\<close>, and the redirect tracker at the end of \<open>context_state.go\<close>. An
  \<open>http.Header\<close> is a finite map; ranging over the caller's map is a fold over a list of its entries
  in some order. The lemmas tie the checks on the parsed URL back to the bytes of the URL that is
  sent, and bound the redirects that a download can follow.
\<close>

section \<open>Endpoints\<close>

definition ValidateSABRURL :: "string \<Rightarrow> URL res" where
  "ValidateSABRURL raw =
     (case url_Parse raw of
        None \<Rightarrow> Inl ErrUnsupportedURL
      | Some parsed \<Rightarrow>
          if url_Scheme parsed \<noteq> ''https'' \<or> url_Host parsed = [] then Inl ErrUnsupportedURL
          else if url_User parsed \<noteq> None \<or> url_Fragment parsed \<noteq> [] then Inl ErrUnsupportedURL
          else let escapedPath = ToLower (EscapedPath parsed)
          in if Contains escapedPath ''%00'' \<or> Contains escapedPath ''%2f'' \<or>
                Contains escapedPath ''%5c'' then Inl ErrUnsupportedURL
          else if HasPrefix (url_Path parsed) ''//'' \<or> Contains (url_Path parsed) [CHR 0x5C]
               then Inl ErrUnsupportedURL
          else let host = ToLower (TrimSuffix (Hostname parsed) ''.'')
          in if url_Port parsed \<noteq> [] then Inl ErrUnsupportedURL
          else if HasSuffix (url_Host parsed) '':'' \<or> CountByte (url_Host parsed) (CHR '':'') > 0
               then Inl ErrUnsupportedURL
          else if host \<noteq> ''googlevideo.com'' \<and> \<not> HasSuffix host ''.googlevideo.com''
               then Inl ErrUnsupportedURL
          else Inr parsed)"

fun digits :: "nat \<Rightarrow> string" where
  "digits n = (if n < 10 then [char_of (48 + n)] else digits (n div 10) @ [char_of (48 + n mod 10)])"

declare digits.simps [simp del]

definition Itoa :: "int \<Rightarrow> string" where
  "Itoa i = (if i < 0 then CHR ''-'' # digits (nat (- i)) else digits (nat i))"

definition requestURL :: "string \<Rightarrow> int \<Rightarrow> string res" where
  "requestURL serverURL requestNumber =
     bind_res (ValidateSABRURL serverURL) (\<lambda>_.
       let separator = (if \<not> Contains serverURL ''?'' then ''?'' else ''&'')
       in Inr (serverURL @ separator @ ''rn='' @ Itoa requestNumber))"

section \<open>Headers\<close>

type_synonym http_header = "(string, string list) fmap"

definition valid_header_byte :: "char \<Rightarrow> bool" where
  "valid_header_byte c \<longleftrightarrow> is_alnum c \<or> c \<in> set (''!#$%&'' @ [CHR 0x27] @ ''*+-.^_'' @ [CHR 0x60] @ ''|~'')"

definition upper_byte :: "char \<Rightarrow> char" where
  "upper_byte c = (let n = (of_char c :: nat) in if 97 \<le> n \<and> n \<le> 122 then char_of (n - 32) else c)"

fun canonical_loop :: "bool \<Rightarrow> string \<Rightarrow> string" where
  "canonical_loop up [] = []"
| "canonical_loop up (c # s) =
     (let d = (if up then upper_byte c else lower_byte c) in d # canonical_loop (d = CHR ''-'') s)"

definition CanonicalHeaderKey :: "string \<Rightarrow> string" where
  "CanonicalHeaderKey s = (if list_all valid_header_byte s then canonical_loop True s else s)"

definition sabrProtectedHeaders :: "string list" where
  "sabrProtectedHeaders =
     [''Accept'', ''Accept-Encoding'', ''Accept-Language'', ''Authorization'', ''Connection'',
      ''Content-Length'', ''Content-Type'', ''Cookie'', ''Host'', ''Proxy-Authorization'', ''Te'',
      ''Trailer'', ''Transfer-Encoding'', ''Upgrade'', ''User-Agent'', ''X-Goog-Visitor-Id'']"

definition isSABRProtectedHeader :: "string \<Rightarrow> bool" where
  "isSABRProtectedHeader name \<longleftrightarrow> CanonicalHeaderKey name \<in> set sabrProtectedHeaders"

definition header_values :: "http_header \<Rightarrow> string \<Rightarrow> string list" where
  "header_values h key = (case fmlookup h key of None \<Rightarrow> [] | Some vs \<Rightarrow> vs)"

definition header_Set :: "http_header \<Rightarrow> string \<Rightarrow> string \<Rightarrow> http_header" where
  "header_Set h key v = fmupd (CanonicalHeaderKey key) [v] h"

definition header_Add :: "http_header \<Rightarrow> string \<Rightarrow> string \<Rightarrow> http_header" where
  "header_Add h key v =
     fmupd (CanonicalHeaderKey key) (header_values h (CanonicalHeaderKey key) @ [v]) h"

record http_request =
  req_URL :: string
  req_Header :: http_header
  req_Body :: "byte list"
  req_ContentLength :: i64

text \<open>\<open>http.NewRequestWithContext\<close> fails when the target does not parse; \<open>EnvErr 0\<close> stands for it.\<close>

definition newSABRRequest ::
    "string \<Rightarrow> int \<Rightarrow> byte list \<Rightarrow> string \<Rightarrow> string \<Rightarrow> http_request res" where
  "newSABRRequest serverURL requestNumber body userAgent acceptLanguage =
     bind_res (requestURL serverURL requestNumber) (\<lambda>target.
       if url_Parse target = None then Inl (EnvErr 0)
       else let h = fmempty;
                h = header_Set h ''Content-Type'' ''application/x-protobuf'';
                h = header_Set h ''Accept'' ''application/vnd.yt-ump'';
                h = header_Set h ''Accept-Encoding'' ''identity'';
                h = (if userAgent \<noteq> [] then header_Set h ''User-Agent'' userAgent else h);
                h = (if acceptLanguage \<noteq> [] then header_Set h ''Accept-Language'' acceptLanguage else h)
            in Inr \<lparr>req_URL = target, req_Header = h, req_Body = body,
                    req_ContentLength = int (length body)\<rparr>)"

definition add_values :: "string \<Rightarrow> string list \<Rightarrow> http_header \<Rightarrow> http_header" where
  "add_values key vs h = fold (\<lambda>v h. if v = [] then h else header_Add h key v) vs h"

definition applySABRCallerHeaders ::
    "http_request \<Rightarrow> (string \<times> string list) list \<Rightarrow> http_request" where
  "applySABRCallerHeaders request caller =
     request\<lparr>req_Header :=
       fold (\<lambda>(key, vs) h.
               if isSABRProtectedHeader key then h else add_values (CanonicalHeaderKey key) vs h)
            caller (req_Header request)\<rparr>"

section \<open>The redirect tracker\<close>

definition sabrRedirectLoopKey :: "string \<Rightarrow> string res" where
  "sabrRedirectLoopKey raw =
     (case ValidateSABRURL raw of
        Inl _ \<Rightarrow> Inl ErrUnsafeRedirect
      | Inr _ \<Rightarrow>
          (case Index raw ''://'' of
             None \<Rightarrow> Inl ErrUnsafeRedirect
           | Some schemeSep \<Rightarrow>
               let scheme = ToLower (take schemeSep raw);
                   afterScheme = drop (schemeSep + 3) raw;
                   authority = takeWhile (\<lambda>c. c \<notin> set ''/?'') afterScheme;
                   remainder = dropWhile (\<lambda>c. c \<notin> set ''/?'') afterScheme;
                   host = ToLower (TrimRightByte authority (CHR ''.''))
               in if host = [] then Inl ErrUnsafeRedirect
                  else Inr (scheme @ ''://'' @ host @ remainder)))"

record redirectTracker =
  rt_seen :: "string set"
  rt_count :: nat

definition newRedirectTracker :: "string \<Rightarrow> redirectTracker" where
  "newRedirectTracker initialURL =
     (let tracker = \<lparr>rt_seen = {}, rt_count = 0\<rparr>
      in if initialURL = [] then tracker
         else (case sabrRedirectLoopKey initialURL of
                 Inl _ \<Rightarrow> tracker
               | Inr key \<Rightarrow> tracker\<lparr>rt_seen := {key}\<rparr>))"

definition tracker_validate :: "redirectTracker \<Rightarrow> string \<Rightarrow> unit res" where
  "tracker_validate tracker rawURL =
     bind_res (sabrRedirectLoopKey rawURL) (\<lambda>key.
       if key \<in> rt_seen tracker then Inl ErrRedirectLoop
       else if rt_count tracker \<ge> MaxDirectiveRedirects then Inl ErrRedirectBudget
       else Inr ())"

definition tracker_record :: "redirectTracker \<Rightarrow> string \<Rightarrow> redirectTracker" where
  "tracker_record tracker rawURL =
     (if rawURL = [] then tracker
      else (case sabrRedirectLoopKey rawURL of
              Inl _ \<Rightarrow> tracker
            | Inr key \<Rightarrow> tracker\<lparr>rt_seen := insert key (rt_seen tracker),
                                 rt_count := rt_count tracker + 1\<rparr>))"

section \<open>The endpoint policy\<close>

lemma unhex_less: "unhex c = Some n \<Longrightarrow> n < 16"
  by (auto simp: unhex_def Let_def split: if_splits)

text \<open>Escapes in a host stand for bytes outside ASCII or for a percent sign.\<close>

lemma unescape_host_ascii:
  "unescape encodeHost s = Some t \<Longrightarrow> c \<in> set t \<Longrightarrow> (of_char c :: nat) < 128 \<Longrightarrow>
     c \<in> set s \<or> c = CHR ''%''"
proof (induction encodeHost s arbitrary: t rule: unescape.induct)
  case (2 d s)
  show ?case
  proof (cases "d = CHR ''%''")
    case True
    then obtain h l rest a b t' where s: "s = h # l # rest" and h: "unhex h = Some a" "unhex l = Some b"
      and u: "unescape encodeHost rest = Some t'" "t = char_of (16 * a + b) # t'"
      and ok: "8 \<le> a \<or> [d, h, l] = ''%25''"
      using 2(3) by (auto split: list.splits option.splits if_splits)
    have "16 * a + b < 256"
      using h unhex_less [of h a] unhex_less [of l b] by auto
    moreover have "[d, h, l] = ''%25'' \<Longrightarrow> 16 * a + b = 37"
      using h by (auto simp: unhex_def)
    moreover have "char_of (37 :: nat) = CHR ''%''" by code_simp
    ultimately have "c = char_of (16 * a + b) \<Longrightarrow> c = CHR ''%''"
      using ok 2(5) by auto
    then show ?thesis
      using 2 s h u ok True by auto
  next
    case False
    then show ?thesis
      using 2 by (auto split: if_splits)
  qed
qed simp

lemma unescape_host_keeps:
  "unescape encodeHost s = Some t \<Longrightarrow> c \<in> set s \<Longrightarrow> c \<noteq> CHR ''%'' \<Longrightarrow> \<not> is_alnum c \<Longrightarrow> c \<in> set t"
proof (induction encodeHost s arbitrary: t rule: unescape.induct)
  case (2 d s)
  show ?case
  proof (cases "d = CHR ''%''")
    case True
    then obtain h l rest a b t' where s: "s = h # l # rest" and h: "unhex h = Some a" "unhex l = Some b"
      and u: "unescape encodeHost rest = Some t'" "t = char_of (16 * a + b) # t'"
      and ok: "8 \<le> a \<or> [d, h, l] = ''%25''"
      using 2(3) by (auto split: list.splits option.splits if_splits)
    have "c \<noteq> h" "c \<noteq> l"
      using h 2(6) by (auto simp: unhex_def is_alnum_def Let_def split: if_splits)
    then show ?thesis
      using 2 s h u ok True by auto
  next
    case False
    then show ?thesis
      using 2 by (auto split: if_splits)
  qed
qed simp

lemma parseHost_Some:
  assumes "parseHost a = Some host"
  shows "unescape encodeHost a = Some host" "CHR ''['' \<notin> set a" "CHR ''['' \<notin> set host"
proof -
  show u: "unescape encodeHost a = Some host" and n: "CHR ''['' \<notin> set a"
    using assms by (auto simp: parseHost_def Contains_char_iff split: if_splits option.splits)
  show "CHR ''['' \<notin> set host"
    using unescape_host_ascii [OF u, of "CHR ''[''"] n by auto
qed

lemma parseAuthority_no_user:
  assumes "parseAuthority a = Some (None, host)"
  shows "CHR ''@'' \<notin> set a" "parseHost a = Some host"
  using assms
  by (auto simp: parseAuthority_def LastIndexByte_None_iff [symmetric] split: option.splits)

lemma Hostname_plain:
  "CHR '':'' \<notin> set (url_Host u) \<Longrightarrow> CHR ''['' \<notin> set (url_Host u) \<Longrightarrow> Hostname u = url_Host u"
  using LastIndexByte_None_iff [of "url_Host u" "CHR '':''"] HasPrefixE [of "url_Host u" "''[''"]
  by (auto simp: Hostname_def splitHostPort_def Let_def)

definition trusted_host :: "string \<Rightarrow> bool" where
  "trusted_host host \<longleftrightarrow>
     (let h = ToLower (TrimSuffix host ''.'') in h = ''googlevideo.com'' \<or> HasSuffix h ''.googlevideo.com'')"

lemma ValidateSABRURL_fields:
  assumes "ValidateSABRURL raw = Inr u"
  shows "url_Parse raw = Some u" "url_Scheme u = ''https''" "url_Host u \<noteq> []" "url_User u = None"
    "url_Fragment u = []" "CHR '':'' \<notin> set (url_Host u)"
    "\<not> HasPrefix (url_Path u) ''//''" "CHR 0x5C \<notin> set (url_Path u)"
    "ToLower (TrimSuffix (Hostname u) ''.'') = ''googlevideo.com'' \<or>
     HasSuffix (ToLower (TrimSuffix (Hostname u) ''.'')) ''.googlevideo.com''"
  using assms
  by (auto simp: ValidateSABRURL_def Let_def Contains_char_iff CountByte_0_iff
      split: option.splits if_splits)

lemma ValidateSABRURL_shape:
  assumes "ValidateSABRURL raw = Inr u"
  obtains scheme authority tail where
    "raw = scheme @ ''://'' @ authority @ tail" "ToLower scheme = ''https''" "CHR '':'' \<notin> set scheme"
    "set authority \<inter> set ''/?#@['' = {}" "tail = [] \<or> hd tail \<in> set ''/?#''"
    "unescape encodeHost authority = Some (url_Host u)" "trusted_host (url_Host u)"
proof -
  note f = ValidateSABRURL_fields [OF assms]
  have "url_Scheme u \<noteq> []" using f(2) by simp
  from url_Parse_authority [OF f(1) this f(3,5)] obtain scheme authority tail where
    s: "raw = scheme @ ''://'' @ authority @ tail" "ToLower scheme = url_Scheme u"
      "CHR '':'' \<notin> set scheme" "set authority \<inter> set ''/?#'' = {}"
      "tail = [] \<or> hd tail \<in> set ''/?#''" "parseAuthority authority = Some (url_User u, url_Host u)"
    by blast
  have a: "CHR ''@'' \<notin> set authority" "parseHost authority = Some (url_Host u)"
    using parseAuthority_no_user s(6) f(4) by auto
  note h = parseHost_Some [OF a(2)]
  have "trusted_host (url_Host u)"
    using f(9) Hostname_plain [OF f(6) h(3)] by (simp add: trusted_host_def Let_def)
  with s f(2) a(1) h(1,2) that show thesis by auto
qed

lemma Index_append_sep:
  assumes "CHR '':'' \<notin> set s"
  shows "Index (s @ ''://'' @ t) ''://'' = Some (length s)"
  using assms by (induction s) (auto simp: HasPrefix_def)

lemma ToLower_Nil_iff [simp]: "ToLower s = [] \<longleftrightarrow> s = []"
  by (cases s) (auto simp: ToLower.simps [of "_ # _"])

lemma trusted_host_not_dots: "set host \<subseteq> {CHR ''.''} \<Longrightarrow> \<not> trusted_host host"
proof
  assume dots: "set host \<subseteq> {CHR ''.''}" and "trusted_host host"
  let ?h = "TrimSuffix host ''.''"
  have h: "set ?h \<subseteq> {CHR ''.''}"
    using dots by (auto simp: TrimSuffix_def dest: in_set_takeD)
  then have "ascii ?h"
    by (auto simp: ascii_def list_all_iff)
  then have "set (ToLower ?h) \<subseteq> {CHR ''.''}"
    using h by (auto simp: ToLower_ascii lower_byte_def)
  moreover have "CHR ''m'' \<in> set (ToLower ?h)"
    using \<open>trusted_host host\<close> HasSuffixE [of "ToLower ?h" "''.googlevideo.com''"]
    by (auto simp: trusted_host_def Let_def)
  ultimately show False by auto
qed

lemma unescape_dots: "set s \<subseteq> {CHR ''.''} \<Longrightarrow> unescape encodeHost s = Some s"
  by (induction s) (auto simp: shouldEscape_def)

lemma TrimRightByte_Nil_iff: "TrimRightByte s c = [] \<longleftrightarrow> set s \<subseteq> {c}"
  by (auto simp: TrimRightByte_def dropWhile_eq_Nil_conv)

text \<open>Every valid endpoint has a loop key.\<close>

lemma sabrRedirectLoopKey_total:
  assumes "ValidateSABRURL raw = Inr u"
  shows "\<exists>key. sabrRedirectLoopKey raw = Inr key"
proof -
  obtain scheme authority tail where
    s: "raw = scheme @ ''://'' @ authority @ tail" "CHR '':'' \<notin> set scheme"
      "set authority \<inter> set ''/?#@['' = {}" "tail = [] \<or> hd tail \<in> set ''/?#''"
      "unescape encodeHost authority = Some (url_Host u)" "trusted_host (url_Host u)"
    using ValidateSABRURL_shape [OF assms] by metis
  let ?a = "takeWhile (\<lambda>c. c \<notin> set ''/?'') (authority @ tail)"
  have "\<not> set authority \<subseteq> {CHR ''.''}"
    using s(5,6) trusted_host_not_dots [of authority] unescape_dots [of authority] by auto
  moreover have "\<exists>t. ?a = authority @ t"
    using s(3) by (induction authority) auto
  ultimately have "TrimRightByte ?a (CHR ''.'') \<noteq> []"
    by (auto simp: TrimRightByte_Nil_iff)
  moreover have "Index raw ''://'' = Some (length scheme)"
    unfolding s(1) by (rule Index_append_sep [OF s(2)])
  ultimately show ?thesis
    using assms s(1) by (auto simp: sabrRedirectLoopKey_def Let_def)
qed

section \<open>The request goes to the validated endpoint\<close>

lemma takeWhile_append_absent: "c \<in> set s \<Longrightarrow> takeWhile (\<lambda>x. x \<noteq> c) (s @ t) = takeWhile (\<lambda>x. x \<noteq> c) s"
  by (induction s) auto

lemma split_query_fst: "fst (split_query rest) = takeWhile (\<lambda>x. x \<noteq> CHR ''?'') rest"
proof -
  obtain path query where q: "split_query rest = (path, query)" by fastforce
  from split_query_shape [OF q] have "takeWhile (\<lambda>x. x \<noteq> CHR ''?'') rest = path"
    by (auto simp: takeWhile_append takeWhile_eq_all_conv)
  with q show ?thesis by simp
qed

lemma scheme_loop_append:
  "scheme_loop pre s = Some (scheme, rest) \<Longrightarrow> scheme \<noteq> [] \<Longrightarrow>
     scheme_loop pre (s @ t) = Some (scheme, rest @ t)"
  by (induction pre s rule: scheme_loop.induct) (auto split: if_splits)

lemma setPath_query:
  "setPath (u\<lparr>url_RawQuery := q\<rparr>) p = map_option (\<lambda>v. v\<lparr>url_RawQuery := q\<rparr>) (setPath u p)"
  by (cases u) (simp add: setPath_def split: option.split)

lemma parse_hierarchical_query:
  "parse_hierarchical (u\<lparr>url_RawQuery := q\<rparr>) rest =
     map_option (\<lambda>v. v\<lparr>url_RawQuery := q\<rparr>) (parse_hierarchical u rest)"
proof -
  have "setPath (u\<lparr>url_RawQuery := q, url_User := a, url_Host := b\<rparr>) p =
      map_option (\<lambda>v. v\<lparr>url_RawQuery := q\<rparr>) (setPath (u\<lparr>url_User := a, url_Host := b\<rparr>) p)" for a b p
    using setPath_query [where u = "u\<lparr>url_User := a, url_Host := b\<rparr>" and q = q and p = p] by (cases u) simp
  then show ?thesis
    by (simp add: parse_hierarchical_def setPath_query Let_def split: prod.split option.split)
qed

lemma parse_url_append_query:
  assumes "parse_url base = Some u" and "url_Scheme u \<noteq> []" and "url_Host u \<noteq> []"
    and "CHR ''?'' \<in> set base \<or> hd t = CHR ''?''" and "t \<noteq> []" and "\<not> list_ex is_ctl t"
  shows "\<exists>q. parse_url (base @ t) = Some (u\<lparr>url_RawQuery := q\<rparr>)"
proof -
  obtain scheme rest path query where g: "getScheme base = Some (scheme, rest)"
    and q: "split_query rest = (path, query)" and sch: "scheme \<noteq> []" "HasPrefix path ''/''"
    and h: "parse_hierarchical (zeroURL\<lparr>url_Scheme := ToLower scheme, url_RawQuery := query\<rparr>) path
        = Some u" "\<not> list_ex is_ctl base"
    and b: "base = scheme @ CHR '':'' # rest" "set scheme \<inter> set '':#?'' = {}"
    using parse_url_hierarchical [OF assms(1-3)] by metis
  obtain path' query' where q': "split_query (rest @ t) = (path', query')" by fastforce
  have "takeWhile (\<lambda>x. x \<noteq> CHR ''?'') (rest @ t) = takeWhile (\<lambda>x. x \<noteq> CHR ''?'') rest"
  proof (cases "CHR ''?'' \<in> set rest")
    case True
    then show ?thesis by (rule takeWhile_append_absent)
  next
    case False
    then have "hd t = CHR ''?''" using assms(4) b by auto
    then obtain t' where "t = CHR ''?'' # t'" using assms(5) by (cases t) auto
    then show ?thesis using False by (simp add: takeWhile_tail)
  qed
  then have "path' = path"
    using split_query_fst [of rest] split_query_fst [of "rest @ t"] q q' by simp
  moreover have "parse_hierarchical (zeroURL\<lparr>url_Scheme := ToLower scheme, url_RawQuery := query'\<rparr>) path
      = Some (u\<lparr>url_RawQuery := query'\<rparr>)"
    using parse_hierarchical_query
      [where u = "zeroURL\<lparr>url_Scheme := ToLower scheme, url_RawQuery := query\<rparr>" and q = query'
        and rest = path] h(1)
    by simp
  moreover have "getScheme (base @ t) = Some (scheme, rest @ t)"
    using g scheme_loop_append [of "[]" base scheme rest t] sch(1) by (simp add: getScheme_def)
  moreover have "base @ t \<noteq> ''*''"
    using b(1) sch(1) assms(5) by (cases scheme) auto
  ultimately show ?thesis
    using q' sch h(2) assms(6) by (auto simp: parse_url_def Let_def)
qed

text \<open>What \<open>ValidateSABRURL\<close> checks of a parsed URL does not involve its query.\<close>

lemma ValidateSABRURL_query:
  assumes "ValidateSABRURL raw = Inr u" and "url_Parse raw' = Some (u\<lparr>url_RawQuery := q\<rparr>)"
  shows "ValidateSABRURL raw' = Inr (u\<lparr>url_RawQuery := q\<rparr>)"
proof -
  have "EscapedPath (u\<lparr>url_RawQuery := q\<rparr>) = EscapedPath u" "Hostname (u\<lparr>url_RawQuery := q\<rparr>) = Hostname u"
    "url_Port (u\<lparr>url_RawQuery := q\<rparr>) = url_Port u"
    by (simp_all add: EscapedPath_def Hostname_def url_Port_def)
  then show ?thesis
    using assms by (auto simp: ValidateSABRURL_def Let_def split: option.splits if_splits)
qed

lemma Itoa_plain: "c \<in> set (Itoa n) \<Longrightarrow> c = CHR ''-'' \<or> (48 \<le> (of_char c :: nat) \<and> (of_char c :: nat) \<le> 57)"
proof -
  have "c \<in> set (digits k) \<Longrightarrow> 48 \<le> (of_char c :: nat) \<and> (of_char c :: nat) \<le> 57" for k
  proof (induction k rule: digits.induct)
    case (1 k)
    have "k mod 10 < 10" by simp
    then show ?case
      using 1 by (subst (asm) digits.simps) (auto split: if_splits)
  qed
  then show "c \<in> set (Itoa n) \<Longrightarrow> ?thesis"
    by (auto simp: Itoa_def split: if_splits)
qed

lemma requestURL_endpoint:
  assumes v: "ValidateSABRURL server = Inr u" and h: "CHR ''#'' \<notin> set server"
  shows "\<exists>t q. requestURL server n = Inr t \<and> ValidateSABRURL t = Inr (u\<lparr>url_RawQuery := q\<rparr>)"
proof -
  define sep where "sep = (if \<not> Contains server ''?'' then ''?'' else ''&'')"
  let ?t = "sep @ ''rn='' @ Itoa n"
  note f = ValidateSABRURL_fields [OF v]
  have p: "parse_url server = Some u"
    using f(1) h by (auto simp: url_Parse_def Cut_absent split: option.splits)
  have "CHR ''#'' \<notin> set (Itoa n)" "\<not> list_ex is_ctl (Itoa n)"
    using Itoa_plain [of "CHR ''#''" n] Itoa_plain [of _ n] by (force simp: list_ex_iff is_ctl_def)+
  then have plain: "CHR ''#'' \<notin> set ?t" "\<not> list_ex is_ctl ?t"
    by (auto simp: sep_def is_ctl_def)
  have "CHR ''?'' \<in> set server \<or> hd ?t = CHR ''?''"
    by (auto simp: sep_def Contains_char_iff)
  then obtain q where "parse_url (server @ ?t) = Some (u\<lparr>url_RawQuery := q\<rparr>)"
    using parse_url_append_query [OF p _ f(3), of ?t] f(2) plain by (auto simp: sep_def)
  then have "url_Parse (server @ ?t) = Some (u\<lparr>url_RawQuery := q\<rparr>)"
    using h plain by (simp add: url_Parse_def Cut_absent)
  with v show ?thesis
    by (auto simp: requestURL_def sep_def [symmetric] dest: ValidateSABRURL_query)
qed

section \<open>Caller headers\<close>

lemma header_Add_lookup:
  "k \<noteq> CanonicalHeaderKey key \<Longrightarrow> fmlookup (header_Add h key v) k = fmlookup h k"
  by (simp add: header_Add_def)

lemma add_values_lookup:
  "k \<noteq> CanonicalHeaderKey key \<Longrightarrow> fmlookup (add_values key vs h) k = fmlookup h k"
  unfolding add_values_def by (induction vs arbitrary: h) (simp_all add: header_Add_lookup)

lemma letter_case_idem [simp]:
  "upper_byte (upper_byte c) = upper_byte c" "lower_byte (lower_byte c) = lower_byte c"
  "valid_header_byte c \<Longrightarrow> valid_header_byte (upper_byte c)"
  "valid_header_byte c \<Longrightarrow> valid_header_byte (lower_byte c)"
  by (auto simp: upper_byte_def lower_byte_def valid_header_byte_def is_alnum_def Let_def)

lemma canonical_loop_idem: "canonical_loop up (canonical_loop up s) = canonical_loop up s"
  by (induction up s rule: canonical_loop.induct) (auto simp: Let_def)

lemma CanonicalHeaderKey_idem [simp]: "CanonicalHeaderKey (CanonicalHeaderKey s) = CanonicalHeaderKey s"
proof -
  have "list_all valid_header_byte s \<Longrightarrow> list_all valid_header_byte (canonical_loop up s)" for up
    by (induction up s rule: canonical_loop.induct) (auto simp: Let_def)
  then show ?thesis
    by (simp add: CanonicalHeaderKey_def canonical_loop_idem)
qed

lemma fold_headers_lookup:
  assumes "k \<in> set sabrProtectedHeaders"
  shows "fmlookup (fold (\<lambda>(key, vs) h. if isSABRProtectedHeader key then h
      else add_values (CanonicalHeaderKey key) vs h) caller h) k = fmlookup h k"
proof (induction caller arbitrary: h)
  case (Cons kv caller)
  obtain key vs where kv: "kv = (key, vs)" by fastforce
  have "\<not> isSABRProtectedHeader key \<Longrightarrow> k \<noteq> CanonicalHeaderKey (CanonicalHeaderKey key)"
    using assms by (auto simp: isSABRProtectedHeader_def)
  then show ?case
    using Cons.IH kv by (simp add: add_values_lookup)
qed simp

section \<open>Redirect chains\<close>

text \<open>
  A download follows a redirect by validating it against the tracker and then recording it;
  \<open>redirected t us\<close> holds of the trackers reached by following \<open>us\<close>.
\<close>

definition loop_key :: "string \<Rightarrow> string" where
  "loop_key u = (case sabrRedirectLoopKey u of Inl _ \<Rightarrow> [] | Inr k \<Rightarrow> k)"

inductive redirected :: "string \<Rightarrow> redirectTracker \<Rightarrow> string list \<Rightarrow> bool" for start where
  initial: "redirected start (newRedirectTracker start) []"
| follow: "redirected start t us \<Longrightarrow> tracker_validate t u = Inr () \<Longrightarrow>
    redirected start (tracker_record t u) (us @ [u])"

inductive_cases redirected_snocE: "redirected start t (us @ [u])"

lemma tracker_validate_Inr:
  "tracker_validate t u = Inr () \<longleftrightarrow>
     (\<exists>k. sabrRedirectLoopKey u = Inr k \<and> k \<notin> rt_seen t \<and> rt_count t < MaxDirectiveRedirects)"
  by (auto simp: tracker_validate_def bind_res_Inr_iff)

lemma sabrRedirectLoopKey_Nil: "sabrRedirectLoopKey [] = Inl ErrUnsafeRedirect"
  by code_simp

lemma tracker_record_key:
  "sabrRedirectLoopKey u = Inr k \<Longrightarrow>
     tracker_record t u = t\<lparr>rt_seen := insert k (rt_seen t), rt_count := rt_count t + 1\<rparr>"
  by (auto simp: tracker_record_def sabrRedirectLoopKey_Nil)

lemma redirected_invariant:
  assumes "redirected start t us"
  shows "rt_count t = length us \<and> length us \<le> MaxDirectiveRedirects \<and>
    set (map loop_key us) \<subseteq> rt_seen t \<and> distinct (map loop_key us) \<and>
    (\<forall>u \<in> set us. sabrRedirectLoopKey u = Inr (loop_key u)) \<and>
    (\<forall>k. sabrRedirectLoopKey start = Inr k \<longrightarrow> k \<in> rt_seen t \<and> k \<notin> set (map loop_key us))"
  using assms
proof (induction rule: redirected.induct)
  case initial
  then show ?case
    by (auto simp: newRedirectTracker_def sabrRedirectLoopKey_Nil Let_def split: sum.splits)
next
  case (follow t us u)
  from follow.hyps(2) obtain k where
    k: "sabrRedirectLoopKey u = Inr k" "k \<notin> rt_seen t" "rt_count t < MaxDirectiveRedirects"
    by (auto simp: tracker_validate_Inr)
  have "loop_key u = k" using k(1) by (simp add: loop_key_def)
  with follow.IH k show ?case
    by (auto simp: tracker_record_key [OF k(1)])
qed

section \<open>Properties\<close>

text \<open>
  An endpoint is accepted only if its bytes are an \<open>https\<close> scheme, \<open>://\<close> and an authority that ends
  at the first \<open>/\<close>, \<open>?\<close> or \<open>#\<close>, without user information, port or brackets, and the host the
  authority denotes is, up to letter case and one trailing dot, \<open>googlevideo.com\<close> or ends in
  \<open>.googlevideo.com\<close>.
\<close>

theorem accepted_endpoint_is_trusted:
  assumes "ValidateSABRURL raw = Inr u"
  shows "\<exists>scheme authority tail. raw = scheme @ ''://'' @ authority @ tail \<and>
    ToLower scheme = ''https'' \<and> set authority \<inter> set ''/?#@[:'' = {} \<and>
    (tail = [] \<or> hd tail \<in> set ''/?#'') \<and> unescape encodeHost authority = Some (url_Host u) \<and>
    trusted_host (url_Host u)"
proof -
  obtain scheme authority tail where
    s: "raw = scheme @ ''://'' @ authority @ tail" "ToLower scheme = ''https''" "CHR '':'' \<notin> set scheme"
    "set authority \<inter> set ''/?#@['' = {}" "tail = [] \<or> hd tail \<in> set ''/?#''"
    "unescape encodeHost authority = Some (url_Host u)" "trusted_host (url_Host u)"
    using ValidateSABRURL_shape [OF assms] by metis
  moreover have "CHR '':'' \<notin> set authority"
    using unescape_host_keeps [OF s(6), of "CHR '':''"] ValidateSABRURL_fields(6) [OF assms]
    by (auto simp: is_alnum_def)
  ultimately show ?thesis
    by (intro exI [of _ scheme] exI [of _ authority] exI [of _ tail]) simp
qed

theorem accepted_endpoint_is_trusted_witness:
  "\<exists>u. ValidateSABRURL ''https://rr3.googlevideo.com/videoplayback?n=1'' = Inr u \<and>
     trusted_host (url_Host u)"
proof -
  let ?raw = "''https://rr3.googlevideo.com/videoplayback?n=1''"
  have "\<exists>u. ValidateSABRURL ?raw = Inr u"
    by (rule exI [of _ "zeroURL\<lparr>url_Scheme := ''https'', url_Host := ''rr3.googlevideo.com'',
      url_Path := ''/videoplayback'', url_RawQuery := ''n=1''\<rparr>"]) code_simp
  then show ?thesis
    using accepted_endpoint_is_trusted [of ?raw] by blast
qed

text \<open>
  Numbering a request does not move it: for an accepted endpoint without \<open>#\<close>, \<open>requestURL\<close> succeeds,
  its result is accepted again, and it differs from the endpoint at most in the query.
\<close>

theorem requestURL_keeps_endpoint:
  assumes "ValidateSABRURL server = Inr u" and "CHR ''#'' \<notin> set server"
  shows "\<exists>t q. requestURL server n = Inr t \<and> ValidateSABRURL t = Inr (u\<lparr>url_RawQuery := q\<rparr>)"
  using assms by (rule requestURL_endpoint)

theorem requestURL_keeps_endpoint_witness:
  "\<exists>t q. requestURL ''https://rr3.googlevideo.com/v'' 4 = Inr t \<and>
     ValidateSABRURL t = Inr (zeroURL\<lparr>url_Scheme := ''https'', url_Host := ''rr3.googlevideo.com'',
       url_Path := ''/v'', url_RawQuery := q\<rparr>)"
proof -
  let ?u = "zeroURL\<lparr>url_Scheme := ''https'', url_Host := ''rr3.googlevideo.com'', url_Path := ''/v''\<rparr>"
  have "ValidateSABRURL ''https://rr3.googlevideo.com/v'' = Inr ?u"
    by code_simp
  from requestURL_keeps_endpoint [OF this, of 4] show ?thesis
    by simp
qed

text \<open>
  Caller-supplied headers never change a protected header of the request, under any spelling of
  its name.
\<close>

theorem protected_headers_untouched:
  assumes "isSABRProtectedHeader name"
  shows "header_values (req_Header (applySABRCallerHeaders request caller)) (CanonicalHeaderKey name) =
    header_values (req_Header request) (CanonicalHeaderKey name)"
  using assms [unfolded isSABRProtectedHeader_def]
  by (simp add: applySABRCallerHeaders_def header_values_def fold_headers_lookup)

theorem protected_headers_untouched_witness:
  "isSABRProtectedHeader ''cookie'' \<and>
   header_values (req_Header (applySABRCallerHeaders
     \<lparr>req_URL = [], req_Header = fmempty, req_Body = [], req_ContentLength = 0\<rparr>
     [(''COOKIE'', [''a=b'']), (''X-Test'', [''1''])])) ''Cookie'' = []"
proof -
  have "isSABRProtectedHeader ''cookie''" "CanonicalHeaderKey ''cookie'' = ''Cookie''"
    by code_simp+
  with protected_headers_untouched [of "''cookie''"] show ?thesis
    by (simp add: header_values_def)
qed

text \<open>
  C23. A chain of followed redirects is finite and free of loops: at most \<open>MaxDirectiveRedirects\<close>
  endpoints, no two with the same loop key, none with the key of the first endpoint, and the
  tracker has counted them all.
\<close>

theorem redirect_chain_bounded_and_loop_free:
  assumes "redirected start t us"
  shows "rt_count t = length us \<and> length us \<le> MaxDirectiveRedirects \<and> distinct (map loop_key us) \<and>
    (\<forall>u \<in> set us. sabrRedirectLoopKey u \<noteq> sabrRedirectLoopKey start)"
  using redirected_invariant [OF assms] by force

theorem redirect_chain_bounded_and_loop_free_witness:
  "\<exists>t. redirected ''https://a.googlevideo.com/v'' t [''https://b.googlevideo.com/v''] \<and> rt_count t = 1"
proof -
  let ?start = "''https://a.googlevideo.com/v''" and ?u = "''https://b.googlevideo.com/v''"
  have "sabrRedirectLoopKey ?start = Inr ?start" "sabrRedirectLoopKey ?u = Inr ?u"
    by code_simp+
  then have "tracker_validate (newRedirectTracker ?start) ?u = Inr ()"
    by (simp add: tracker_validate_Inr newRedirectTracker_def limits)
  from redirected.follow [OF redirected.initial this] obtain t where "redirected ?start t [?u]"
    by auto
  with redirect_chain_bounded_and_loop_free [OF this] show ?thesis
    by auto
qed

text \<open>
  The host policy lowers letters by Unicode rules before it compares, so a host whose \<open>i\<close> is
  U+0130 (bytes C4 B0), which is a different host name on the wire, passes as \<open>googlevideo.com\<close>.
\<close>

theorem dotted_capital_i_host_is_accepted:
  "ValidateSABRURL (''https://googlev'' @ [CHR 0xC4, CHR 0xB0] @ ''deo.com/v'') =
     Inr (zeroURL\<lparr>url_Scheme := ''https'', url_Host := ''googlev'' @ [CHR 0xC4, CHR 0xB0] @ ''deo.com'',
       url_Path := ''/v''\<rparr>)"
  by code_simp

end
