(* ===== verification/Integers.thy ===== *)
theory Integers
  imports Bounds
begin

text \<open>
  Checked conversions and arithmetic: \<open>integers.go\<close>, and the overflow-aware helpers of
  \<open>proto.go\<close> (\<open>mulInt64\<close>, \<open>addInt64\<close>, \<open>ceilMulDiv\<close>, \<open>ceilMillisFromTicks\<close>). The 128-bit
  product of \<open>math/bits\<close> is modelled on words; \<open>bits.Div64\<close> panics when the quotient does not
  fit, which is \<open>None\<close> here. The lemmas show that the helpers compute the exact value or report
  that it is out of range, and that the panic is unreachable.
\<close>

section \<open>Conversions\<close>

definition int32FromUint64 :: "u64 \<Rightarrow> i32 res" where
  "int32FromUint64 v = (if uint v > MaxInt32 then Inl ErrVarintOverflow else Inr (uint v))"

definition int64FromUint64 :: "u64 \<Rightarrow> i64 res" where
  "int64FromUint64 v = (if uint v > MaxInt64 then Inl ErrVarintOverflow else Inr (uint v))"

definition uint32FromUint64 :: "u64 \<Rightarrow> u32 res" where
  "uint32FromUint64 v = (if uint v > MaxUint32 then Inl ErrVarintOverflow else Inr (ucast v))"

definition int32SegmentIndex :: "u64 \<Rightarrow> i32 res" where
  "int32SegmentIndex sequence =
     (if uint sequence > MaxInt32 then Inl ErrVarintOverflow else Inr (uint sequence))"

definition expectedDurationMs :: "i64 \<Rightarrow> i64 res" where
  "expectedDurationMs durationSec =
     (if durationSec \<le> 0 \<or> durationSec > go_div MaxInt64 1000 then Inl ErrMissingConfig
      else Inr (wrap64 (durationSec * 1000)))"

lemma expectedDurationMs_exact:
  "expectedDurationMs d = Inr ms \<Longrightarrow> ms = d * 1000 \<and> 0 < ms \<and> in_i64 ms"
proof -
  assume "expectedDurationMs d = Inr ms"
  then have d: "0 < d" "d \<le> MaxInt64 div 1000" and ms: "ms = wrap64 (d * 1000)"
    by (auto simp: expectedDurationMs_def go_div_pos limits split: if_splits)
  then have "in_i64 (d * 1000)"
    by (simp add: in_i64_def limits)
  with d ms show ?thesis
    by simp
qed

section \<open>128-bit helpers of \<open>math/bits\<close>\<close>

definition bits_Mul64 :: "u64 \<Rightarrow> u64 \<Rightarrow> u64 \<times> u64" where
  "bits_Mul64 x y = (word_of_int (uint x * uint y div 2 ^ 64), x * y)"

definition bits_Add64 :: "u64 \<Rightarrow> u64 \<Rightarrow> u64 \<Rightarrow> u64 \<times> u64" where
  "bits_Add64 x y carry = (x + y + carry, if uint x + uint y + uint carry \<ge> 2 ^ 64 then 1 else 0)"

definition bits_Div64 :: "u64 \<Rightarrow> u64 \<Rightarrow> u64 \<Rightarrow> (u64 \<times> u64) option" where
  "bits_Div64 hi lo y =
     (if y = 0 \<or> y \<le> hi then None
      else let n = uint hi * 2 ^ 64 + uint lo
           in Some (word_of_int (n div uint y), word_of_int (n mod uint y)))"

section \<open>Overflow-aware arithmetic\<close>

definition mulInt64 :: "i64 \<Rightarrow> i64 \<Rightarrow> i64 \<times> bool" where
  "mulInt64 a b =
     (if a = 0 \<or> b = 0 then (0, True)
      else if a > go_div MaxInt64 b then (0, False)
      else (wrap64 (a * b), True))"

definition addInt64 :: "i64 \<Rightarrow> i64 \<Rightarrow> i64 \<times> bool" where
  "addInt64 a b =
     (if b > 0 \<and> a > MaxInt64 - b then (0, False)
      else if b < 0 \<and> a < MinInt64 - b then (0, False)
      else (wrap64 (a + b), True))"

definition ceilMulDiv :: "i64 \<Rightarrow> i64 \<Rightarrow> i64 \<Rightarrow> (i64 \<times> bool) option" where
  "ceilMulDiv a b divisor =
     (if a \<le> 0 \<or> b \<le> 0 \<or> divisor \<le> 0 then Some (0, False)
      else let (hi, lo) = bits_Mul64 (word_of_int a) (word_of_int b);
               (lo, carry) = bits_Add64 lo (word_of_int divisor - 1) 0;
               (hi, _) = bits_Add64 hi 0 carry
           in (case bits_Div64 hi lo (word_of_int divisor) of
                 None \<Rightarrow> None
               | Some (quot, _) \<Rightarrow>
                   Some (if uint quot > MaxInt64 then (0, False) else (uint quot, True))))"

definition ceilMillisFromTicks :: "i64 \<Rightarrow> i64 \<Rightarrow> (i64 \<times> bool) option" where
  "ceilMillisFromTicks ticks timescale =
     (if ticks \<le> 0 \<or> timescale \<le> 0 then Some (0, False)
      else let quot = go_div ticks timescale;
               remainder = go_mod ticks timescale;
               (base, ok) = mulInt64 quot 1000
           in if \<not> ok then Some (0, False)
              else if remainder = 0 then Some (base, True)
              else (case ceilMulDiv remainder 1000 timescale of
                      None \<Rightarrow> None
                    | Some (fraction, ok) \<Rightarrow>
                        Some (if \<not> ok then (0, False) else addInt64 base fraction)))"

section \<open>Exactness\<close>

lemma le_div_iff_int: "0 < (b::int) \<Longrightarrow> a \<le> m div b \<longleftrightarrow> a * b \<le> m"
proof
  assume b: "0 < b" and "a \<le> m div b"
  then have "a * b \<le> m div b * b" by simp
  also have "\<dots> \<le> m" using b pos_mod_sign [OF b, of m] div_mult_mod_eq [of m b] by linarith
  finally show "a * b \<le> m" .
next
  assume b: "0 < b" and "a * b \<le> m"
  then have "a * b div b \<le> m div b" by (intro zdiv_mono1)
  with b show "a \<le> m div b" by simp
qed

lemma div_less_iff_int: "0 < (b::int) \<Longrightarrow> m div b < a \<longleftrightarrow> m < a * b"
  by (meson le_div_iff_int not_le)

lemma addInt64_exact:
  assumes "in_i64 a" "in_i64 b"
  shows "addInt64 a b = (if in_i64 (a + b) then (a + b, True) else (0, False))"
  using assms by (auto simp: addInt64_def in_i64_def limits)

lemma mulInt64_exact:
  assumes "0 \<le> a" "0 \<le> b"
  shows "mulInt64 a b = (if in_i64 (a * b) then (a * b, True) else (0, False))"
proof (cases "a = 0 \<or> b = 0")
  case True
  then show ?thesis
    by (auto simp: mulInt64_def in_i64_def limits)
next
  case False
  with assms have pos: "0 < a" "0 < b" by auto
  then have nonneg: "0 \<le> a * b" by simp
  have "go_div MaxInt64 b = MaxInt64 div b"
    using pos by (simp add: go_div_pos limits)
  then have "a > go_div MaxInt64 b \<longleftrightarrow> \<not> in_i64 (a * b)"
    using le_div_iff_int [OF pos(2), of a MaxInt64] nonneg
    by (simp only: in_i64_def limits) linarith
  with False show ?thesis
    by (simp add: mulInt64_def)
qed

lemma uint64_bounds: "0 \<le> uint (x::u64)" "uint x < 18446744073709551616"
  using uint_lt2p [of x] by simp_all

text \<open>The two-word product and sum denote the mathematical ones.\<close>

lemma bits_Mul64_exact:
  assumes "bits_Mul64 x y = (hi, lo)"
  shows "uint hi * 18446744073709551616 + uint lo = uint x * uint y"
proof -
  let ?M = "18446744073709551616 :: int"
  have "uint x * uint y < ?M * ?M"
    using uint64_bounds by (intro mult_strict_mono) auto
  then have "uint x * uint y div ?M < ?M"
    by (simp add: div_less_iff_int)
  then have "uint hi = uint x * uint y div ?M"
    using assms mult_nonneg_nonneg [OF uint64_bounds(1) uint64_bounds(1), of x y]
    by (auto simp: bits_Mul64_def uint_word_of_int pos_imp_zdiv_nonneg_iff intro!: mod_pos_pos_trivial)
  moreover have "uint lo = uint x * uint y mod ?M"
    using assms by (auto simp: bits_Mul64_def uint_word_ariths)
  ultimately show ?thesis
    by simp
qed

lemma bits_Add64_exact:
  "bits_Add64 x y 0 = (s, c) \<Longrightarrow> uint c * 18446744073709551616 + uint s = uint x + uint y"
  by (auto simp: bits_Add64_def uint_plus_if' split: if_splits)

lemma bits_Add64_carry:
  assumes "bits_Add64 x 0 c = (s, d)" and "uint x + uint c < 18446744073709551616"
  shows "uint s = uint x + uint c"
  using assms by (auto simp: bits_Add64_def uint_plus_if' split: if_splits)

lemma bits_Div64_exact:
  assumes "uint hi * 18446744073709551616 + uint lo = n" and "0 < uint y"
    and "n < 18446744073709551616 * uint y"
  shows "\<exists>r. bits_Div64 hi lo y = Some (word_of_int (n div uint y), r)"
proof -
  have "uint hi * 18446744073709551616 < uint y * 18446744073709551616"
    using assms uint64_bounds [of lo] by (simp only: mult.commute)
  then have "uint hi < uint y"
    by simp
  with assms show ?thesis
    by (auto simp: bits_Div64_def Let_def word_le_def word_less_def)
qed

lemma ceilMulDiv_exact:
  fixes a b d :: int
  assumes a: "0 < a" "a \<le> MaxInt64" and b: "0 < b" "b \<le> MaxInt64" and d: "0 < d" "d \<le> MaxInt64"
    and fits: "a * b + d - 1 < 18446744073709551616 * d"
  shows "ceilMulDiv a b d =
    Some (if (a * b + d - 1) div d > MaxInt64 then (0, False) else ((a * b + d - 1) div d, True))"
proof -
  let ?M = "18446744073709551616 :: int"
  define x y z :: u64 where xyz: "x = word_of_int a" "y = word_of_int b" "z = word_of_int d"
  have u: "uint x = a" "uint y = b" "uint z = d" "uint (z - 1) = d - 1"
    using a b d by (simp_all add: xyz limits uint_word_of_int uint_sub_if')
  obtain h l where m: "bits_Mul64 x y = (h, l)" by fastforce
  obtain l' c where s: "bits_Add64 l (z - 1) 0 = (l', c)" by fastforce
  obtain h' c' where t: "bits_Add64 h 0 c = (h', c')" by fastforce
  have p: "uint h * ?M + uint l = a * b"
    using bits_Mul64_exact [OF m] u by simp
  have q: "uint c * ?M + uint l' = uint l + (d - 1)"
    using bits_Add64_exact [OF s] u by simp
  have sum: "(uint h + uint c) * ?M + uint l' = a * b + d - 1"
    using p q by (simp add: algebra_simps)
  have "(uint h + uint c) * ?M < d * ?M"
    using sum fits uint64_bounds [of l'] by (simp only: mult.commute)
  then have "uint h + uint c < ?M"
    using d by (simp add: limits)
  then have hc: "uint h' = uint h + uint c"
    using bits_Add64_carry [OF t] by simp
  have n: "uint h' * ?M + uint l' = a * b + d - 1"
    using sum hc by simp
  obtain r where dv: "bits_Div64 h' l' z = Some (word_of_int ((a * b + d - 1) div d), r)"
    using bits_Div64_exact [OF n, of z] u d fits by auto
  have "0 < a * b"
    using a b by simp
  then have "0 \<le> (a * b + d - 1) div d" "(a * b + d - 1) div d < ?M"
    using d fits by (simp_all add: pos_imp_zdiv_nonneg_iff div_less_iff_int)
  then have "uint (word_of_int ((a * b + d - 1) div d) :: u64) = (a * b + d - 1) div d"
    by (simp add: uint_word_of_int)
  with a b d m s t dv show ?thesis
    by (simp add: ceilMulDiv_def xyz Let_def)
qed

text \<open>
  The duration of a time range in milliseconds, rounded up: the exact value whenever it is an
  \<open>int64\<close>, and otherwise the failure indication. In particular \<open>bits.Div64\<close> never panics here.
\<close>

lemma ceilMillisFromTicks_exact:
  assumes t: "0 < t" "t \<le> MaxInt64" and s: "0 < s" "s \<le> MaxInt64"
  shows "ceilMillisFromTicks t s =
    Some (let ms = (t * 1000 + s - 1) div s in if in_i64 ms then (ms, True) else (0, False))"
proof -
  define q r where qr: "q = t div s" "r = t mod s"
  have eq: "t = q * s + r"
    by (simp add: qr)
  have q: "0 \<le> q" and r: "0 \<le> r" "r < s"
    using t s by (simp_all add: qr pos_imp_zdiv_nonneg_iff)
  define f where "f = (r * 1000 + s - 1) div s"
  have "t * 1000 = r * 1000 + q * 1000 * s"
    by (simp add: eq algebra_simps)
  then have "(t * 1000 + s - 1) div s = (r * 1000 + s - 1 + q * 1000 * s) div s"
    by (simp add: algebra_simps)
  also have "\<dots> = f + q * 1000"
    using s by (simp add: f_def)
  finally have total: "(t * 1000 + s - 1) div s = q * 1000 + f" by simp
  have f: "0 \<le> f" "f < 1001"
    using r s by (simp_all add: f_def pos_imp_zdiv_nonneg_iff div_less_iff_int)
  have mul: "mulInt64 q 1000 = (if in_i64 (q * 1000) then (q * 1000, True) else (0, False))"
    using q by (simp add: mulInt64_exact)
  have cm: "r \<noteq> 0 \<Longrightarrow> ceilMulDiv r 1000 s = Some (f, True)"
    using r s f ceilMulDiv_exact [of r 1000 s] by (simp add: f_def limits)
  have add: "in_i64 (q * 1000) \<Longrightarrow>
      addInt64 (q * 1000) f = (if in_i64 (q * 1000 + f) then (q * 1000 + f, True) else (0, False))"
    using f by (intro addInt64_exact) (simp_all add: in_i64_def limits)
  have f0: "r = 0 \<Longrightarrow> f = 0"
    using s by (simp add: f_def div_pos_pos_trivial)
  have big: "\<not> in_i64 (q * 1000) \<Longrightarrow> \<not> in_i64 (q * 1000 + f)"
    using q f by (simp add: in_i64_def limits)
  show ?thesis
    using t s mul cm add f0 big total
    by (auto simp: ceilMillisFromTicks_def Let_def go_div_pos go_mod_pos simp flip: qr)
qed

end
