(* ===== verification/Wire.thy ===== *)
theory Wire
  imports Integers
begin

unbundle bit_operations_syntax

text \<open>
  The protobuf wire format of \<open>wire.go\<close>: base-128 varints, the encoder's append operations, and
  \<open>fieldReader\<close>, the cursor with a sticky error from which every message parser of the package
  reads. \<open>field_loop\<close> is the \<open>for { num, wireType, ok := reader.next(); ... }\<close> loop that the
  parsers share; it takes the \<open>switch\<close> of the message as a step function.

  The lemmas show that reader and writer of varints are inverse, that the reader accepts only the
  shortest spelling, that a cursor never runs past its data, and (in the locale
  \<open>wire_message\<close>) that reading the fields a writer appended drives the step function with exactly
  these fields.
\<close>

section \<open>Varints\<close>

definition wireVarint :: nat where "wireVarint = 0"
definition wireBytes :: nat where "wireBytes = 2"
definition maxProtobufVarintBytes :: nat where "maxProtobufVarintBytes = 10"

lemmas wire_consts [limits] = wireVarint_def wireBytes_def maxProtobufVarintBytes_def

definition isCanonicalProtobufVarint :: "u64 \<Rightarrow> nat \<Rightarrow> bool" where
  "isCanonicalProtobufVarint v sz =
     (if sz = 1 then True else push_bit (7 * (sz - 1)) 1 \<le> v)"

function read_varint_loop :: "byte list \<Rightarrow> nat \<Rightarrow> u64 \<Rightarrow> nat \<Rightarrow> (u64 \<times> nat) res" where
  "read_varint_loop data i v shift =
     (if i \<ge> maxProtobufVarintBytes then Inl ErrVarintOverflow
      else if i \<ge> length data then Inl ErrTruncatedStream
      else let b = data ! i
           in if i = maxProtobufVarintBytes - 1 \<and> b > 1 then Inl ErrVarintOverflow
              else let v = v OR push_bit shift (ucast (b AND 0x7F))
                   in if b < 0x80 then
                        (if \<not> isCanonicalProtobufVarint v (i + 1) then Inl ErrNonCanonicalVarint
                         else Inr (v, i + 1))
                      else if shift + 7 \<ge> 64 then Inl ErrVarintOverflow
                      else read_varint_loop data (i + 1) v (shift + 7))"
  by pat_completeness auto
termination
  by (relation "measure (\<lambda>(data, i, v, shift). maxProtobufVarintBytes - i)") auto

declare read_varint_loop.simps [simp del]

definition readProtobufVarint :: "byte list \<Rightarrow> (u64 \<times> nat) res" where
  "readProtobufVarint data =
     (if data = [] then Inl ErrTruncatedStream else read_varint_loop data 0 0 0)"

definition readProtobufUint32 :: "byte list \<Rightarrow> u32 res" where
  "readProtobufUint32 data =
     bind_res (readProtobufVarint data) (\<lambda>(v, _).
       if uint v > MaxUint32 then Inl ErrVarintOverflow else Inr (ucast v))"

section \<open>Append operations\<close>

function appendU64 :: "byte list \<Rightarrow> u64 \<Rightarrow> byte list" where
  "appendU64 buf v =
     (if v \<ge> 0x80 then appendU64 (buf @ [ucast v OR 0x80]) (drop_bit 7 v) else buf @ [ucast v])"
  by pat_completeness auto
termination
proof (relation "measure (\<lambda>(buf, v). unat v)")
  fix buf :: "byte list" and v :: u64
  assume "v \<ge> 0x80"
  then have "128 \<le> unat v" by (simp add: word_le_nat_alt)
  then show "((buf @ [ucast v OR 0x80], drop_bit 7 v), buf, v) \<in> measure (\<lambda>(buf, v). unat v)"
    by (simp add: unat_drop_bit_eq drop_bit_eq_div unat_div)
qed simp

declare appendU64.simps [simp del]

definition appendKey :: "byte list \<Rightarrow> u64 \<Rightarrow> byte list" where
  "appendKey buf key = appendU64 buf key"

definition appendProtobufVarint :: "byte list \<Rightarrow> u64 \<Rightarrow> u64 \<Rightarrow> byte list" where
  "appendProtobufVarint buf field v =
     appendU64 (appendKey buf (push_bit 3 field OR word_of_nat wireVarint)) v"

definition appendProtobufBytes :: "byte list \<Rightarrow> u64 \<Rightarrow> byte list \<Rightarrow> byte list" where
  "appendProtobufBytes buf field v =
     appendU64 (appendKey buf (push_bit 3 field OR word_of_nat wireBytes))
       (word_of_nat (length v)) @ v"

section \<open>The field cursor\<close>

record fieldReader =
  fr_data :: "byte list"
  fr_offset :: nat
  fr_fields :: nat
  fr_err :: "error option"

definition newFieldReader :: "byte list \<Rightarrow> fieldReader" where
  "newFieldReader bs = \<lparr>fr_data = bs, fr_offset = 0, fr_fields = 0, fr_err = None\<rparr>"

definition next_field :: "fieldReader \<Rightarrow> fieldReader \<times> (u64 \<times> nat) option" where
  "next_field r =
     (if fr_err r \<noteq> None \<or> fr_offset r \<ge> length (fr_data r) then (r, None)
      else let r = r\<lparr>fr_fields := fr_fields r + 1\<rparr>
           in if fr_fields r > MaxProtobufFields then (r\<lparr>fr_err := Some ErrInvalidProtobuf\<rparr>, None)
              else (case readProtobufVarint (drop (fr_offset r) (fr_data r)) of
                      Inl e \<Rightarrow> (r\<lparr>fr_err := Some e\<rparr>, None)
                    | Inr (key, n) \<Rightarrow>
                        let r = r\<lparr>fr_offset := fr_offset r + n\<rparr>;
                            num = drop_bit 3 key;
                            wireType = unat (key AND 0x7)
                        in if num = 0 \<or> uint num > MaxUint32
                           then (r\<lparr>fr_err := Some ErrInvalidProtobuf\<rparr>, None)
                           else (r, Some (num, wireType))))"

definition read_varint :: "fieldReader \<Rightarrow> fieldReader \<times> u64" where
  "read_varint r =
     (case readProtobufVarint (drop (fr_offset r) (fr_data r)) of
        Inl e \<Rightarrow> (r\<lparr>fr_err := Some e\<rparr>, 0)
      | Inr (v, n) \<Rightarrow> (r\<lparr>fr_offset := fr_offset r + n\<rparr>, v))"

definition read_uint32 :: "fieldReader \<Rightarrow> fieldReader \<times> u32" where
  "read_uint32 r =
     (let (r, v) = read_varint r
      in if fr_err r \<noteq> None then (r, 0)
         else if uint v > MaxUint32 then (r\<lparr>fr_err := Some ErrVarintOverflow\<rparr>, 0)
         else (r, ucast v))"

definition read_bytes :: "fieldReader \<Rightarrow> fieldReader \<times> byte list" where
  "read_bytes r =
     (case readProtobufVarint (drop (fr_offset r) (fr_data r)) of
        Inl e \<Rightarrow> (r\<lparr>fr_err := Some e\<rparr>, [])
      | Inr (len, n) \<Rightarrow>
          let r = r\<lparr>fr_offset := fr_offset r + n\<rparr>
          in if unat len > MaxProtobufFieldBytes \<or> unat len > length (fr_data r) - fr_offset r
             then (r\<lparr>fr_err := Some ErrInvalidProtobuf\<rparr>, [])
             else (r\<lparr>fr_offset := fr_offset r + unat len\<rparr>, take (unat len) (drop (fr_offset r) (fr_data r))))"

definition read_string :: "fieldReader \<Rightarrow> fieldReader \<times> string" where
  "read_string r = (let (r, bs) = read_bytes r in (r, str_of bs))"

definition skip_field :: "fieldReader \<Rightarrow> u64 \<Rightarrow> nat \<Rightarrow> fieldReader" where
  "skip_field r num wireType =
     (if wireType = wireVarint then
        (case readProtobufVarint (drop (fr_offset r) (fr_data r)) of
           Inl e \<Rightarrow> r\<lparr>fr_err := Some e\<rparr>
         | Inr (_, n) \<Rightarrow> r\<lparr>fr_offset := fr_offset r + n\<rparr>)
      else if wireType = wireBytes then fst (read_bytes r)
      else r\<lparr>fr_err := Some ErrInvalidProtobuf\<rparr>)"

section \<open>The field loop of a message parser\<close>

text \<open>
  One iteration asks for the next field and hands it to the message's step, which either returns
  from the parser with an error or goes on. No operation of the cursor changes \<open>fields\<close> except
  \<open>next\<close>; the loop states this by carrying the count over, which bounds it by
  \<open>MaxProtobufFields\<close> rounds for every step.
\<close>

type_synonym 's step = "u64 \<Rightarrow> nat \<Rightarrow> fieldReader \<Rightarrow> 's \<Rightarrow> (fieldReader \<times> 's) res"

lemma next_field_fields:
  "next_field r = (r', Some x) \<Longrightarrow> fr_fields r' = fr_fields r + 1 \<and> fr_fields r' \<le> MaxProtobufFields"
  by (auto simp: next_field_def Let_def split: if_splits sum.splits prod.splits)

function field_loop :: "'s step \<Rightarrow> fieldReader \<Rightarrow> 's \<Rightarrow> (fieldReader \<times> 's) res" where
  "field_loop step r s =
     (case next_field r of
        (r', None) \<Rightarrow> Inr (r', s)
      | (r', Some (num, wireType)) \<Rightarrow>
          (case step num wireType r' s of
             Inl e \<Rightarrow> Inl e
           | Inr (r'', s') \<Rightarrow> field_loop step (r''\<lparr>fr_fields := fr_fields r'\<rparr>) s'))"
  by pat_completeness auto
termination
  by (relation "measure (\<lambda>(step, r, s). MaxProtobufFields + 1 - fr_fields r)")
    (auto dest!: next_field_fields [OF sym])

declare field_loop.simps [simp del]

text \<open>A parser runs the loop on a fresh cursor and returns the sticky error, if any, at the end.\<close>

definition parse_fields :: "'s step \<Rightarrow> byte list \<Rightarrow> 's \<Rightarrow> 's res" where
  "parse_fields step bs s =
     bind_res (field_loop step (newFieldReader bs) s) (\<lambda>(r, s).
       case fr_err r of Some e \<Rightarrow> Inl e | None \<Rightarrow> Inr s)"

section \<open>Varint round trip\<close>

lemma unat_drop_bit7_less: "v \<ge> (0x80 :: u64) \<Longrightarrow> unat (drop_bit 7 v) < unat v"
proof -
  assume "v \<ge> 0x80"
  then have "128 \<le> unat v" by (simp add: word_le_nat_alt)
  then show ?thesis
    by (simp add: unat_drop_bit_eq drop_bit_eq_div unat_div)
qed

lemma appendU64_append: "appendU64 buf v = buf @ appendU64 [] v"
proof (induction v arbitrary: buf rule: measure_induct_rule [where f = unat])
  case (less v)
  show ?case
  proof (cases "v \<ge> 0x80")
    case True
    have "appendU64 b v = b @ [ucast v OR 0x80] @ appendU64 [] (drop_bit 7 v)" for b
      using True less [OF unat_drop_bit7_less [OF True], of "b @ [ucast v OR 0x80]"]
      by (simp add: appendU64.simps [of b v])
    from this [of buf] this [of "[]"] show ?thesis by simp
  next
    case False
    then show ?thesis
      by (simp add: appendU64.simps [of _ v])
  qed
qed

lemma appendU64_Nil:
  "appendU64 [] v =
     (if v \<ge> 0x80 then (ucast v OR 0x80) # appendU64 [] (drop_bit 7 v) else [ucast v])"
  by (subst appendU64.simps) (simp add: appendU64_append [of "[_]"])

lemma appendU64_nonempty [simp]: "appendU64 [] v \<noteq> []"
  by (subst appendU64_Nil) simp

text \<open>Seven bits at a time: the low group and the rest of a value.\<close>

lemma or_push_bit_step:
  "(acc OR push_bit k (take_bit 7 w)) OR push_bit (k + 7) (drop_bit 7 w) = acc OR push_bit k (w :: u64)"
proof (rule bit_eqI)
  fix n
  have "\<not> n - k < 7 \<Longrightarrow> 7 + (n - (k + 7)) = n - k" by simp
  then show "bit ((acc OR push_bit k (take_bit 7 w)) OR push_bit (k + 7) (drop_bit 7 w)) n \<longleftrightarrow>
      bit (acc OR push_bit k w) n"
    by (cases "n - k < 7") (auto simp: bit_simps)
qed

lemma low_group: "ucast ((ucast w OR 0x80 :: byte) AND 0x7F) = take_bit 7 (w :: u64)"
  "ucast ((ucast w :: byte) AND 0x7F) = take_bit 7 w"
proof -
  have m: "(x AND 0x7F :: byte) = take_bit 7 x" for x
    by (simp add: take_bit_eq_mask mask_eq_exp_minus_1)
  show "ucast ((ucast w OR 0x80 :: byte) AND 0x7F) = take_bit 7 (w :: u64)"
    unfolding m by (rule bit_eqI) (auto simp: bit_simps take_bit_or)
  show "ucast ((ucast w :: byte) AND 0x7F) = take_bit 7 w"
    unfolding m by (rule bit_eqI) (auto simp: bit_simps)
qed

lemma cont_byte: "\<not> (ucast (w :: u64) OR 0x80 :: byte) < 0x80"
proof -
  have "(0x80 :: byte) \<le> ucast w OR 0x80"
    by (metis le_word_or1)
  then show ?thesis by simp
qed

lemma last_byte:
  assumes "\<not> (0x80 :: u64) \<le> w"
  shows "(ucast w :: byte) < 0x80" "take_bit 7 w = w" "uint (ucast w :: byte) = uint w"
proof -
  have u: "uint w < 128"
    using assms by (simp add: word_le_def)
  then show "uint (ucast w :: byte) = uint w"
    by (simp add: unsigned_ucast_eq take_bit_int_eq_self)
  then show "(ucast w :: byte) < 0x80"
    using u by (simp add: word_less_def)
  show "take_bit 7 w = w"
    using u by (intro word_uint_eqI) (simp add: unsigned_take_bit_eq take_bit_int_eq_self)
qed

lemma uint_push_bit_1: "k < 64 \<Longrightarrow> uint (push_bit k 1 :: u64) = 2 ^ k"
proof -
  assume k: "k < 64"
  then have "(2 :: int) ^ k < 2 ^ 64"
    by (intro power_strict_increasing) simp_all
  then show ?thesis
    using k unsigned_push_bit_eq [of k "1 :: u64", where 'a = int]
    by (simp only: push_bit_eq_mult [of k "uint 1"]) (simp add: take_bit_int_eq_self)
qed

lemma push_bit_1_le:
  assumes "w \<noteq> 0" and "take_bit (64 - k) w = w" and "k < 64"
  shows "push_bit k 1 \<le> (acc OR push_bit k w :: u64)"
proof -
  have "uint w < 2 ^ (64 - k)"
    using assms(2) take_bit_int_less_exp [of "64 - k" "uint w"]
    by (metis unsigned_take_bit_eq)
  then have "uint w * 2 ^ k < 2 ^ (64 - k) * 2 ^ k"
    by simp
  then have "uint w * 2 ^ k < 2 ^ 64"
    using assms(3) by (simp flip: power_add)
  then have "uint (push_bit k w) = uint w * 2 ^ k"
    using unsigned_push_bit_eq [of k w, where 'a = int]
    by (simp only: push_bit_eq_mult [of k "uint w"]) (simp add: take_bit_int_eq_self)
  moreover have "uint (push_bit k 1 :: u64) = 2 ^ k"
    using assms(3) by (rule uint_push_bit_1)
  moreover have "1 \<le> uint w"
    using assms(1) uint_0_iff [of w] uint_ge_0 [of w] by linarith
  ultimately have "push_bit k 1 \<le> push_bit k w"
    by (simp add: word_le_def)
  also have "\<dots> \<le> acc OR push_bit k w"
    by (metis le_word_or1)
  finally show ?thesis .
qed

lemma read_varint_loop_append:
  assumes "take_bit (64 - 7 * i) w = w" and "i \<le> 9" and "i = 0 \<or> w \<noteq> 0" and "length pre = i"
  shows "read_varint_loop (pre @ appendU64 [] w @ rest) i acc (7 * i) =
    Inr (acc OR push_bit (7 * i) w, i + length (appendU64 [] w))"
  using assms
proof (induction w arbitrary: i acc pre rule: measure_induct_rule [where f = unat])
  case (less w)
  have idx: "(pre @ appendU64 [] w @ rest) ! i = hd (appendU64 [] w)"
    using less.prems by (simp add: nth_append hd_conv_nth)
  show ?case
  proof (cases "w \<ge> 0x80")
    case True
    then have w: "128 \<le> uint w"
      by (simp add: word_le_def)
    have "uint w < 2 ^ (64 - 7 * i)"
      using less.prems(1) take_bit_int_less_exp [of "64 - 7 * i" "uint w"]
      by (metis unsigned_take_bit_eq)
    with w less.prems(2) have i: "i \<le> 8"
      by (cases "i = 9") auto
    define d where "d = drop_bit 7 w"
    have nz: "d \<noteq> 0"
    proof
      assume "d = 0"
      then have "uint w div 128 = 0"
        by (simp add: d_def drop_bit_eq_div uint_div flip: uint_0_iff)
      with w show False by linarith
    qed
    have fits: "take_bit (64 - 7 * Suc i) d = d"
      using less.prems(1) drop_bit_take_bit [of 7 "64 - 7 * i" w] by (simp add: d_def)
    let ?acc = "acc OR push_bit (7 * i) (take_bit 7 w)"
    have "read_varint_loop ((pre @ [ucast w OR 0x80]) @ appendU64 [] d @ rest) (Suc i) ?acc (7 * Suc i)
        = Inr (?acc OR push_bit (7 * Suc i) d, Suc i + length (appendU64 [] d))"
      using True nz fits i less.prems(4) unfolding d_def
      by (intro less.IH unat_drop_bit7_less) auto
    moreover have "?acc OR push_bit (7 * Suc i) d = acc OR push_bit (7 * i) w"
      using or_push_bit_step [of acc "7 * i" w] by (simp add: d_def add.commute)
    ultimately show ?thesis
      using True i idx cont_byte [of w] less.prems(4)
      by (simp add: read_varint_loop.simps [of _ i] appendU64_Nil [of w] maxProtobufVarintBytes_def
          low_group Let_def d_def add.commute)
  next
    case False
    have "isCanonicalProtobufVarint (acc OR push_bit (7 * i) w) (i + 1)"
      using less.prems push_bit_1_le [of w "7 * i" acc] by (auto simp: isCanonicalProtobufVarint_def)
    moreover have "i = 9 \<Longrightarrow> \<not> (ucast w :: byte) > 1"
    proof -
      assume "i = 9"
      then have "take_bit 1 w = w"
        using less.prems(1) by simp
      then have "uint w = take_bit 1 (uint w)"
        by (metis unsigned_take_bit_eq)
      then have "uint w < 2"
        using take_bit_int_less_exp [of 1 "uint w"] by simp
      then show ?thesis
        using last_byte(3) [OF False] by (simp add: word_less_def)
    qed
    ultimately show ?thesis
      using False less.prems last_byte [OF False] idx
      by (simp add: read_varint_loop.simps [of _ i] appendU64_Nil [of w] maxProtobufVarintBytes_def
          low_group Let_def)
  qed
qed

theorem readProtobufVarint_append:
  "readProtobufVarint (appendU64 [] v @ rest) = Inr (v, length (appendU64 [] v))"
  using read_varint_loop_append [of 0 v "[]" rest 0]
  by (simp add: readProtobufVarint_def take_bit_word_eq_self)

lemma read_varint_loop_size:
  "read_varint_loop bs i acc shift = Inr (v, n) \<Longrightarrow>
     i < n \<and> n \<le> length bs \<and> n \<le> maxProtobufVarintBytes"
proof (induction bs i acc shift rule: read_varint_loop.induct)
  case (1 bs i acc shift)
  then show ?case
    by (subst (asm) (2) read_varint_loop.simps) (fastforce simp: Let_def split: if_splits)
qed

lemma readProtobufVarint_size: "readProtobufVarint bs = Inr (v, n) \<Longrightarrow> 1 \<le> n \<and> n \<le> length bs"
  by (auto simp: readProtobufVarint_def dest: read_varint_loop_size split: if_splits)

lemma length_appendU64: "1 \<le> length (appendU64 [] v)" "length (appendU64 [] v) \<le> 10"
  using readProtobufVarint_append [of v "[]"]
  by (auto simp: readProtobufVarint_def maxProtobufVarintBytes_def Suc_le_eq
      dest: read_varint_loop_size split: if_splits)

section \<open>Only the shortest spelling is accepted\<close>

lemma byte_low7: "(b AND 0x7F :: byte) = take_bit 7 b"
  by (simp add: take_bit_eq_mask mask_eq_exp_minus_1)

lemma bit_0x80: "bit (0x80 :: int) n \<longleftrightarrow> n = 7"
proof -
  have "(0x80 :: int) = 2 ^ 7" by simp
  then show ?thesis
    by (simp only: bit_exp_iff) auto
qed

lemma byte_split:
  assumes "\<not> b < (0x80 :: byte)"
  shows "b = take_bit 7 b OR 0x80"
proof -
  have "uint b < 256" using uint_lt2p [of b] by simp
  moreover have "128 \<le> uint b" using assms by (simp add: word_less_def)
  ultimately have "uint b div 128 = 1" by simp
  then have "bit (uint b) 7"
    by (simp add: bit_iff_odd)
  then have "bit b 7"
    by (simp add: bit_uint_iff)
  then show ?thesis
    by (intro bit_eqI) (auto simp: bit_or_iff bit_take_bit_iff bit_0x80)
qed

lemma ucast_ucast_same: "ucast (ucast (b :: byte) :: u64) = b"
  by (rule bit_eqI) (simp add: bit_simps)

lemma not_push_bit_1_le:
  assumes "take_bit k (acc :: u64) = acc" and "k < 64"
  shows "\<not> push_bit k 1 \<le> acc"
proof -
  have "uint acc < 2 ^ k"
    using assms(1) take_bit_int_less_exp [of k "uint acc"] by (metis unsigned_take_bit_eq)
  moreover have "uint (push_bit k 1 :: u64) = 2 ^ k"
    using assms(2) by (rule uint_push_bit_1)
  ultimately show ?thesis
    by (simp add: word_le_def)
qed

lemma byte_small: "b < (0x80 :: byte) \<Longrightarrow> take_bit 7 b = b"
  by (intro word_uint_eqI) (simp add: unsigned_take_bit_eq take_bit_int_eq_self word_less_def)

lemma appendU64_cont:
  assumes b: "\<not> b < (0x80 :: byte)" and w: "w \<noteq> 0" and fits: "take_bit 57 w = w"
  shows "appendU64 [] (ucast (take_bit 7 b) OR push_bit 7 w) = b # appendU64 [] w"
proof -
  let ?x = "ucast (take_bit 7 b) OR push_bit 7 w :: u64"
  have "push_bit 7 1 \<le> ?x"
    using push_bit_1_le [of w 7] w fits by simp
  then have ge: "0x80 \<le> ?x" by simp
  have bw: "bit w n \<Longrightarrow> n < 57" for n
    using fits by (metis bit_take_bit_iff)
  have "drop_bit 7 ?x = w"
    by (rule bit_eqI) (auto simp: bit_simps dest: bw)
  moreover have "ucast ?x = take_bit 7 b OR push_bit 7 (ucast w :: byte)"
    by (rule bit_eqI) (auto simp: bit_simps)
  then have "(ucast ?x OR 0x80 :: byte) = take_bit 7 b OR 0x80"
    by (intro bit_eqI) (auto simp: bit_or_iff bit_take_bit_iff bit_push_bit_iff bit_0x80)
  ultimately show ?thesis
    using ge byte_split [OF b] by (subst appendU64_Nil) simp
qed

lemma read_varint_loop_canonical:
  assumes "read_varint_loop bs i acc (7 * i) = Inr (v, n)" and "take_bit (7 * i) acc = acc"
  shows "\<exists>w. v = acc OR push_bit (7 * i) w \<and> take_bit (64 - 7 * i) w = w \<and>
    take n bs = take i bs @ appendU64 [] w \<and> (0 < i \<longrightarrow> w \<noteq> 0)"
  using assms
proof (induction "10 - i" arbitrary: i acc)
  case 0
  then show ?case by (simp add: read_varint_loop.simps maxProtobufVarintBytes_def)
next
  case (Suc k)
  let ?b = "bs ! i" and ?acc = "acc OR push_bit (7 * i) (ucast (take_bit 7 (bs ! i)))"
  have i: "i < 10" "i < length bs" "\<not> (i = 9 \<and> ?b > 1)"
    using Suc.prems(1) by (auto simp: read_varint_loop.simps [of _ i] maxProtobufVarintBytes_def
      split: if_splits)
  have tk: "take (Suc i) bs = take i bs @ [?b]"
    using i by (simp add: take_Suc_conv_app_nth)
  show ?case
  proof (cases "?b < 0x80")
    case True
    then have r: "v = ?acc" "n = i + 1" "isCanonicalProtobufVarint ?acc (i + 1)"
      using Suc.prems(1) i by (auto simp: read_varint_loop.simps [of _ i] maxProtobufVarintBytes_def
        byte_low7 Let_def split: if_splits)
    let ?w = "ucast ?b :: u64"
    have u: "uint ?w < 128" "take_bit 7 ?b = ?b"
      using True by (simp_all add: word_less_def byte_small unsigned_ucast_eq take_bit_int_eq_self)
    have "appendU64 [] ?w = [?b]"
      using u by (subst appendU64_Nil) (simp add: word_le_def ucast_ucast_same)
    moreover have "take_bit (64 - 7 * i) ?w = ?w"
    proof -
      have "uint ?w < 2 ^ (64 - 7 * i)"
      proof (cases "i = 9")
        case True
        then show ?thesis
          using i(3) by (simp add: word_less_def unsigned_ucast_eq take_bit_int_eq_self)
      next
        case False
        then have "(2 :: int) ^ 7 \<le> 2 ^ (64 - 7 * i)"
          using i by (intro power_increasing) auto
        then show ?thesis using u by simp
      qed
      then show ?thesis
        by (intro word_uint_eqI) (simp add: unsigned_take_bit_eq take_bit_int_eq_self)
    qed
    moreover have "?w \<noteq> 0" if "0 < i"
    proof
      assume "?w = 0"
      then have "?acc = acc" using u by simp
      then have "push_bit (7 * i) 1 \<le> acc" using r(3) that by (simp add: isCanonicalProtobufVarint_def)
      with Suc.prems(2) i show False
        using not_push_bit_1_le [of "7 * i" acc] by simp
    qed
    ultimately show ?thesis
      using r u tk by (intro exI [of _ ?w]) simp
  next
    case False
    then have i9: "i < 9" and r: "read_varint_loop bs (Suc i) ?acc (7 * Suc i) = Inr (v, n)"
      using Suc.prems(1) i
      by (auto simp: read_varint_loop.simps [of _ i] maxProtobufVarintBytes_def
        byte_low7 Let_def add.commute split: if_splits)
    have "take_bit (7 * Suc i) ?acc = ?acc"
    proof -
      have "bit acc m \<Longrightarrow> m < 7 * i" for m
        using Suc.prems(2) by (metis bit_take_bit_iff)
      then show ?thesis
        by (intro bit_eqI) (fastforce simp: bit_simps)
    qed
    moreover have "k = 10 - Suc i" using Suc.hyps(2) by simp
    ultimately obtain w where
      w: "v = ?acc OR push_bit (7 * Suc i) w" "take_bit (64 - 7 * Suc i) w = w"
        "take n bs = take (Suc i) bs @ appendU64 [] w" "w \<noteq> 0"
      using Suc.hyps(1) [of "Suc i" ?acc] r by blast
    let ?w = "ucast (take_bit 7 ?b) OR push_bit 7 w"
    have bw: "bit w m \<Longrightarrow> m < 64 - 7 * Suc i" for m
      using w(2) by (metis bit_take_bit_iff)
    have "take_bit 57 w = w"
      by (rule bit_eqI) (auto simp: bit_simps dest: bw)
    then have "appendU64 [] ?w = ?b # appendU64 [] w"
      using False w by (intro appendU64_cont) auto
    moreover have "v = acc OR push_bit (7 * i) ?w"
      using w(1) by (simp add: push_bit_or or.assoc add.commute)
    moreover have "take_bit (64 - 7 * i) ?w = ?w"
      using i9 by (intro bit_eqI) (auto simp: bit_simps dest: bw)
    moreover have "?w \<noteq> 0"
    proof
      assume "?w = 0"
      then have "drop_bit 7 ?w = 0" by simp
      moreover have "drop_bit 7 ?w = w"
        by (rule bit_eqI) (auto simp: bit_simps dest: bw)
      ultimately show False using w(4) by simp
    qed
    ultimately show ?thesis
      using w tk by (intro exI [of _ ?w]) simp
  qed
qed

lemma readProtobufVarint_canonical:
  "readProtobufVarint bs = Inr (v, n) \<Longrightarrow> take n bs = appendU64 [] v"
  using read_varint_loop_canonical [of bs 0 0 v n]
  by (auto simp: readProtobufVarint_def split: if_splits)

lemma readProtobufVarint_iff:
  "readProtobufVarint bs = Inr (v, n) \<longleftrightarrow>
     n = length (appendU64 [] v) \<and> take n bs = appendU64 [] v"
proof
  assume r: "readProtobufVarint bs = Inr (v, n)"
  then have t: "take n bs = appendU64 [] v"
    by (rule readProtobufVarint_canonical)
  moreover have "length (take n bs) = n"
    using readProtobufVarint_size [OF r] by simp
  ultimately show "n = length (appendU64 [] v) \<and> take n bs = appendU64 [] v"
    by simp
next
  assume "n = length (appendU64 [] v) \<and> take n bs = appendU64 [] v"
  then show "readProtobufVarint bs = Inr (v, n)"
    using readProtobufVarint_append [of v "drop n bs"] by (metis append_take_drop_id)
qed

section \<open>The cursor stays inside its data\<close>

definition cursor_ok :: "fieldReader \<Rightarrow> bool" where
  "cursor_ok r \<longleftrightarrow> fr_offset r \<le> length (fr_data r)"

lemma cursor_ok_new [simp]: "cursor_ok (newFieldReader bs)"
  by (simp add: cursor_ok_def newFieldReader_def)

lemma cursor_ok_err [simp]: "cursor_ok (r\<lparr>fr_err := e\<rparr>) = cursor_ok r"
  by (simp add: cursor_ok_def)

named_theorems cursor \<open>every cursor operation keeps the data, the field count and the bounds\<close>

lemma next_field_cursor [cursor]:
  "next_field r = (r', x) \<Longrightarrow> cursor_ok r \<Longrightarrow> cursor_ok r' \<and> fr_data r' = fr_data r"
  by (auto simp: next_field_def cursor_ok_def Let_def
      dest!: readProtobufVarint_size split: if_splits sum.splits prod.splits)

lemma read_varint_cursor [cursor]:
  "read_varint r = (r', v) \<Longrightarrow> cursor_ok r \<Longrightarrow>
     cursor_ok r' \<and> fr_data r' = fr_data r \<and> fr_fields r' = fr_fields r"
  by (auto simp: read_varint_def cursor_ok_def
      dest!: readProtobufVarint_size split: sum.splits)

lemma read_uint32_cursor [cursor]:
  "read_uint32 r = (r', v) \<Longrightarrow> cursor_ok r \<Longrightarrow>
     cursor_ok r' \<and> fr_data r' = fr_data r \<and> fr_fields r' = fr_fields r"
  by (auto simp: read_uint32_def Let_def dest!: read_varint_cursor split: if_splits prod.splits)

lemma read_bytes_cursor [cursor]:
  "read_bytes r = (r', v) \<Longrightarrow> cursor_ok r \<Longrightarrow>
     cursor_ok r' \<and> fr_data r' = fr_data r \<and> fr_fields r' = fr_fields r"
  by (auto simp: read_bytes_def cursor_ok_def Let_def
      dest!: readProtobufVarint_size split: if_splits sum.splits)

lemma skip_field_cursor [cursor]:
  "cursor_ok r \<Longrightarrow>
     cursor_ok (skip_field r num wt) \<and> fr_data (skip_field r num wt) = fr_data r \<and>
     fr_fields (skip_field r num wt) = fr_fields r"
  using read_bytes_cursor [of r "fst (read_bytes r)" "snd (read_bytes r)"]
  by (auto simp: skip_field_def cursor_ok_def dest!: readProtobufVarint_size
      split: if_splits sum.splits)

section \<open>Properties\<close>

text \<open>
  The protobuf varint reader accepts exactly the bytes the writer produces: it returns \<open>v\<close>
  having consumed \<open>n\<close> bytes if and only if the first \<open>n\<close> bytes are the writer's encoding of \<open>v\<close>, of
  at most ten bytes. In particular no over-long spelling and no value beyond 64 bits is accepted.
\<close>

theorem protobuf_varint_reader_inverts_writer:
  "readProtobufVarint bs = Inr (v, n) \<longleftrightarrow>
     n \<le> maxProtobufVarintBytes \<and> n = length (appendU64 [] v) \<and> take n bs = appendU64 [] v"
  using length_appendU64 [of v] by (auto simp: readProtobufVarint_iff maxProtobufVarintBytes_def)

end
