(* ===== verification/WireFields.thy ===== *)
theory WireFields
  imports Wire
begin

unbundle bit_operations_syntax

text \<open>
  A message as a list of fields. \<open>tokens\<close> splits a byte string into its fields, without any cursor,
  sticky error or state of a parser. The locale \<open>wire_message\<close> is the interface between \<open>wire.go\<close>
  and the message parsers: a parser provides its \<open>switch\<close> as a step on the cursor and, as \<open>act\<close>, what
  the step does to the parser's state for a decoded field; the law is that the step reads exactly
  the payload of its field and that no failure to read is forgotten. For every such parser the
  accepted inputs are then exactly the byte strings whose fields \<open>act\<close> accepts one after the
  other, and what a writer appended is read back.
\<close>

section \<open>Fields\<close>

datatype wfield = FVarint u64 u64 | FBytes u64 "byte list"

definition read_payload :: "u64 \<Rightarrow> nat \<Rightarrow> byte list \<Rightarrow> (wfield \<times> nat) res" where
  "read_payload num wireType bs =
     (if wireType = wireVarint then
        bind_res (readProtobufVarint bs) (\<lambda>(v, m). Inr (FVarint num v, m))
      else if wireType = wireBytes then
        bind_res (readProtobufVarint bs) (\<lambda>(len, m).
          if unat len > MaxProtobufFieldBytes \<or> unat len > length bs - m
          then Inl ErrInvalidProtobuf
          else Inr (FBytes num (take (unat len) (drop m bs)), m + unat len))
      else Inl ErrInvalidProtobuf)"

definition read_token :: "byte list \<Rightarrow> (wfield \<times> nat) res" where
  "read_token bs =
     bind_res (readProtobufVarint bs) (\<lambda>(key, n).
       let num = drop_bit 3 key
       in if num = 0 \<or> uint num > MaxUint32 then Inl ErrInvalidProtobuf
          else bind_res (read_payload num (unat (key AND 0x7)) (drop n bs)) (\<lambda>(f, m).
                 Inr (f, n + m)))"

function tokens :: "nat \<Rightarrow> byte list \<Rightarrow> wfield list res" where
  "tokens k bs =
     (if bs = [] then Inr []
      else if k + 1 > MaxProtobufFields then Inl ErrInvalidProtobuf
      else bind_res (read_token bs) (\<lambda>(f, n).
             bind_res (tokens (k + 1) (drop n bs)) (\<lambda>fs. Inr (f # fs))))"
  by pat_completeness auto
termination
  by (relation "measure (\<lambda>(k, bs). MaxProtobufFields - k)") auto

declare tokens.simps [simp del]

fun fold_res :: "('a \<Rightarrow> 's \<Rightarrow> 's res) \<Rightarrow> 'a list \<Rightarrow> 's \<Rightarrow> 's res" where
  "fold_res f [] s = Inr s"
| "fold_res f (x # xs) s = bind_res (f x s) (fold_res f xs)"

lemma fold_res_append:
  "fold_res f (xs @ ys) s = bind_res (fold_res f xs s) (fold_res f ys)"
  by (induction xs arbitrary: s) (auto simp: bind_res_def split: sum.splits)

lemma fold_res_invariant:
  assumes "\<And>x s s'. x \<in> set xs \<Longrightarrow> P s \<Longrightarrow> f x s = Inr s' \<Longrightarrow> P s'"
    and "P s" and "fold_res f xs s = Inr s'"
  shows "P s'"
  using assms
proof (induction xs arbitrary: s)
  case (Cons x xs)
  from Cons.prems(3) obtain t where "f x s = Inr t" "fold_res f xs t = Inr s'"
    by (auto simp: bind_res_Inr_iff)
  with Cons show ?case
    by (metis list.set_intros(1) list.set_intros(2))
qed simp

lemma read_bytes_payload:
  assumes "fr_err r = None" and "cursor_ok r"
  shows "case read_payload num wireBytes (drop (fr_offset r) (fr_data r)) of
      Inl e \<Rightarrow> \<exists>r' bs. read_bytes r = (r', bs) \<and> fr_err r' \<noteq> None
    | Inr (f, m) \<Rightarrow> \<exists>bs. f = FBytes num bs \<and>
        read_bytes r = (r\<lparr>fr_offset := fr_offset r + m\<rparr>, bs)"
  using assms
  by (auto simp: read_payload_def read_bytes_def limits Let_def bind_res_def cursor_ok_def add.commute
      add.left_commute split: sum.splits if_splits dest!: readProtobufVarint_size)

lemma next_field_None:
  assumes "fr_err r = None" and "next_field r = (r1, None)"
  shows "(r1 = r \<and> fr_offset r \<ge> length (fr_data r)) \<or>
    (fr_err r1 \<noteq> None \<and> (\<exists>e. tokens (fr_fields r) (drop (fr_offset r) (fr_data r)) = Inl e))"
  using assms
  by (subst tokens.simps)
    (auto simp: next_field_def read_token_def Let_def split: if_splits sum.splits prod.splits)

lemma next_field_Some:
  assumes "next_field r = (r1, Some (num, wt))"
  defines "bs \<equiv> drop (fr_offset r) (fr_data r)"
  shows "\<exists>n. r1 = r\<lparr>fr_fields := fr_fields r + 1, fr_offset := fr_offset r + n\<rparr> \<and>
    tokens (fr_fields r) bs =
      bind_res (read_payload num wt (drop n bs)) (\<lambda>(f, m).
        bind_res (tokens (fr_fields r + 1) (drop (n + m) bs)) (\<lambda>fs. Inr (f # fs)))"
proof -
  from assms(1) obtain key n where key: "readProtobufVarint bs = Inr (key, n)"
    and r1: "r1 = r\<lparr>fr_fields := fr_fields r + 1, fr_offset := fr_offset r + n\<rparr>"
    and num: "num = drop_bit 3 key" "wt = unat (key AND 0x7)" "\<not> (num = 0 \<or> uint num > MaxUint32)"
    and ne: "bs \<noteq> []" "\<not> fr_fields r + 1 > MaxProtobufFields"
    by (auto simp: bs_def next_field_def Let_def split: if_splits sum.splits prod.splits)
  have "read_token bs =
      bind_res (read_payload num wt (drop n bs)) (\<lambda>(f, m). Inr (f, n + m))"
    using key num by (simp add: read_token_def)
  then have "tokens (fr_fields r) bs =
      bind_res (read_payload num wt (drop n bs)) (\<lambda>(f, m).
        bind_res (tokens (fr_fields r + 1) (drop (n + m) bs)) (\<lambda>fs. Inr (f # fs)))"
    using ne by (subst tokens.simps) (auto simp: bind_res_def split: sum.splits)
  with r1 show ?thesis by blast
qed

lemma read_payload_size: "read_payload num wt bs = Inr (f, m) \<Longrightarrow> m \<le> length bs"
  by (auto simp: read_payload_def bind_res_Inr_iff dest!: readProtobufVarint_size split: if_splits)

section \<open>The interface of a message parser\<close>

locale wire_message =
  fixes step :: "'s step" and act :: "wfield \<Rightarrow> 's \<Rightarrow> 's res"
  assumes varint_ok:
      "fr_err r = None \<Longrightarrow> readProtobufVarint (drop (fr_offset r) (fr_data r)) = Inr (v, n) \<Longrightarrow>
       act (FVarint num v) s = Inr s' \<Longrightarrow>
       step num wireVarint r s = Inr (r\<lparr>fr_offset := fr_offset r + n\<rparr>, s')"
    and varint_rejected:
      "fr_err r = None \<Longrightarrow> readProtobufVarint (drop (fr_offset r) (fr_data r)) = Inr (v, n) \<Longrightarrow>
       act (FVarint num v) s = Inl e \<Longrightarrow> step num wireVarint r s = Inr (r', s') \<Longrightarrow>
       fr_err r' \<noteq> None"
    and varint_malformed:
      "readProtobufVarint (drop (fr_offset r) (fr_data r)) = Inl e \<Longrightarrow>
       step num wireVarint r s = Inr (r', s') \<Longrightarrow> fr_err r' \<noteq> None"
    and bytes_ok:
      "fr_err r = None \<Longrightarrow> read_bytes r = (r', bs) \<Longrightarrow> fr_err r' = None \<Longrightarrow>
       act (FBytes num bs) s = Inr s' \<Longrightarrow> step num wireBytes r s = Inr (r', s')"
    and bytes_rejected:
      "fr_err r = None \<Longrightarrow> read_bytes r = (r', bs) \<Longrightarrow> fr_err r' = None \<Longrightarrow>
       act (FBytes num bs) s = Inl e \<Longrightarrow> step num wireBytes r s = Inr (r'', s') \<Longrightarrow>
       fr_err r'' \<noteq> None"
    and bytes_malformed:
      "read_bytes r = (r', bs) \<Longrightarrow> fr_err r' \<noteq> None \<Longrightarrow>
       step num wireBytes r s = Inr (r'', s') \<Longrightarrow> fr_err r'' \<noteq> None"
    and other_wire_type:
      "wt \<noteq> wireVarint \<Longrightarrow> wt \<noteq> wireBytes \<Longrightarrow> step num wt r s = Inr (r', s') \<Longrightarrow>
       fr_err r' \<noteq> None"
begin

lemma stops_on_error:
  "fr_err r \<noteq> None \<Longrightarrow> field_loop step r s = Inr (r, s)"
  by (subst field_loop.simps) (auto simp: next_field_def)

lemma loop_fails:
  assumes "next_field r = (r1, Some (num, wt))"
    and "\<And>r' s'. step num wt r1 s = Inr (r', s') \<Longrightarrow> fr_err r' \<noteq> None"
  shows "\<not> (\<exists>r'. field_loop step r s = Inr (r', s') \<and> fr_err r' = None)"
  using assms by (subst field_loop.simps) (auto simp: stops_on_error split: sum.splits)

lemma loop_continues:
  assumes "next_field r = (r1, Some (num, wt))" and "step num wt r1 s = Inr (r2, s2)"
  shows "field_loop step r s = field_loop step (r2\<lparr>fr_fields := fr_fields r1\<rparr>) s2"
  using assms by (subst field_loop.simps) simp

text \<open>One field: the step and \<open>act\<close> agree on whether the parser goes on, and with which state.\<close>

lemma step_on_payload:
  assumes "fr_err r = None" and "cursor_ok r"
    and "read_payload num wt (drop (fr_offset r) (fr_data r)) = Inr (f, m)" and "act f s = Inr s'"
  shows "step num wt r s = Inr (r\<lparr>fr_offset := fr_offset r + m\<rparr>, s')"
  using assms read_bytes_payload [of r num]
  by (auto simp: read_payload_def bind_res_Inr_iff split: if_splits intro: varint_ok bytes_ok)

lemma step_on_rejected_payload:
  assumes "fr_err r = None" and "cursor_ok r"
    and "read_payload num wt (drop (fr_offset r) (fr_data r)) = Inr (f, m)" and "act f s = Inl e"
    and "step num wt r s = Inr (r', s')"
  shows "fr_err r' \<noteq> None"
proof (cases "wt = wireVarint")
  case True
  with assms show ?thesis
    by (auto simp: read_payload_def bind_res_Inr_iff dest: varint_rejected)
next
  case False
  with assms(3) have wt: "wt = wireBytes"
    by (auto simp: read_payload_def split: if_splits)
  with assms read_bytes_payload [of r num] obtain bs where
    "f = FBytes num bs" "read_bytes r = (r\<lparr>fr_offset := fr_offset r + m\<rparr>, bs)"
    by auto
  with assms wt bytes_rejected [of r _ bs num s e r' s'] show ?thesis
    by simp
qed

lemma step_on_bad_payload:
  assumes "fr_err r = None" and "cursor_ok r"
    and "read_payload num wt (drop (fr_offset r) (fr_data r)) = Inl e"
    and "step num wt r s = Inr (r', s')"
  shows "fr_err r' \<noteq> None"
proof -
  consider "wt = wireVarint" | "wt = wireBytes" | "wt \<noteq> wireVarint" "wt \<noteq> wireBytes" by blast
  then show ?thesis
  proof cases
    case 1
    with assms show ?thesis
      by (auto simp: read_payload_def bind_res_Inl_iff dest: varint_malformed)
  next
    case 2
    with assms read_bytes_payload [of r num] show ?thesis
      by (auto dest: bytes_malformed)
  next
    case 3
    with assms show ?thesis
      by (blast dest: other_wire_type)
  qed
qed

lemma loop_accepts_iff:
  assumes "fr_err r = None" and "cursor_ok r"
  shows "(\<exists>r'. field_loop step r s = Inr (r', s') \<and> fr_err r' = None) \<longleftrightarrow>
    (\<exists>fs. tokens (fr_fields r) (drop (fr_offset r) (fr_data r)) = Inr fs \<and>
      fold_res act fs s = Inr s')"
  using assms
proof (induction "MaxProtobufFields + 1 - fr_fields r" arbitrary: r s rule: less_induct)
  case less
  let ?bs = "drop (fr_offset r) (fr_data r)"
  show ?case
  proof (cases "next_field r")
    case (Pair r1 x)
    show ?thesis
    proof (cases x)
      case None
      from next_field_None [OF less.prems(1) Pair [unfolded None]] show ?thesis
        using Pair None less.prems
        by (auto simp: field_loop.simps [of step r s] tokens.simps [of _ "[]"])
    next
      case (Some nw)
      obtain num wt where nw: "nw = (num, wt)" by fastforce
      note nf = Pair [unfolded Some nw]
      from next_field_Some [OF nf] obtain n where
        r1: "r1 = r\<lparr>fr_fields := fr_fields r + 1, fr_offset := fr_offset r + n\<rparr>"
        and tok: "tokens (fr_fields r) ?bs =
          bind_res (read_payload num wt (drop n ?bs)) (\<lambda>(f, m).
            bind_res (tokens (fr_fields r + 1) (drop (n + m) ?bs)) (\<lambda>fs. Inr (f # fs)))"
        by blast
      have ok: "fr_err r1 = None" "cursor_ok r1"
        using less.prems r1 next_field_cursor [OF nf] by simp_all
      have bs1: "drop (fr_offset r1) (fr_data r1) = drop n ?bs"
        by (simp add: r1 add.commute)
      show ?thesis
      proof (cases "read_payload num wt (drop n ?bs)")
        case (Inl e)
        then have "\<not> (\<exists>r'. field_loop step r s = Inr (r', s') \<and> fr_err r' = None)"
          using bs1 step_on_bad_payload [OF ok] by (intro loop_fails [OF nf]) simp
        with Inl tok show ?thesis by simp
      next
        case (Inr fm)
        obtain f m where fm: "fm = (f, m)" by fastforce
        show ?thesis
        proof (cases "act f s")
          case (Inl e)
          then have "\<not> (\<exists>r'. field_loop step r s = Inr (r', s') \<and> fr_err r' = None)"
            using bs1 Inr fm step_on_rejected_payload [OF ok] by (intro loop_fails [OF nf]) simp
          with Inl Inr fm tok show ?thesis by (auto simp: bind_res_Inr_iff)
        next
          case act: (Inr s1)
          let ?r2 = "r1\<lparr>fr_offset := fr_offset r1 + m\<rparr>"
          have st: "step num wt r1 s = Inr (?r2, s1)"
            using step_on_payload [OF ok] bs1 Inr fm act by simp
          have "m \<le> length (drop n ?bs)"
            using Inr fm by (blast intro: read_payload_size)
          then have ok2: "fr_err ?r2 = None" "cursor_ok ?r2"
            using ok by (simp_all add: cursor_ok_def r1)
          have "?r2\<lparr>fr_fields := fr_fields r1\<rparr> = ?r2" by (cases r1) simp
          with loop_continues [OF nf st] have cont: "field_loop step r s = field_loop step ?r2 s1"
            by (simp only:)
          have view: "drop (fr_offset ?r2) (fr_data ?r2) = drop (n + m) ?bs"
              "fr_fields ?r2 = fr_fields r + 1"
            by (simp_all add: r1 add.commute add.left_commute)
          have "MaxProtobufFields + 1 - fr_fields ?r2 < MaxProtobufFields + 1 - fr_fields r"
            using next_field_fields [OF nf] by auto
          from less.hyps [OF this ok2, of s1] show ?thesis
            unfolding cont view using tok Inr fm act by (auto simp: bind_res_Inr_iff)
        qed
      qed
    qed
  qed
qed

theorem parse_accepts_iff:
  "parse_fields step bs s = Inr s' \<longleftrightarrow> (\<exists>fs. tokens 0 bs = Inr fs \<and> fold_res act fs s = Inr s')"
proof -
  have "parse_fields step bs s = Inr s' \<longleftrightarrow>
      (\<exists>r'. field_loop step (newFieldReader bs) s = Inr (r', s') \<and> fr_err r' = None)"
    by (auto simp: parse_fields_def bind_res_Inr_iff split: option.splits)
  also have "\<dots> \<longleftrightarrow> (\<exists>fs. tokens 0 bs = Inr fs \<and> fold_res act fs s = Inr s')"
    using loop_accepts_iff [of "newFieldReader bs" s s'] by (simp add: newFieldReader_def cursor_ok_def)
  finally show ?thesis .
qed

end

section \<open>Writing and reading back\<close>

fun append_field :: "byte list \<Rightarrow> wfield \<Rightarrow> byte list" where
  "append_field buf (FVarint num v) = appendProtobufVarint buf num v"
| "append_field buf (FBytes num bs) = appendProtobufBytes buf num bs"

definition encode_fields :: "wfield list \<Rightarrow> byte list" where
  "encode_fields fs = foldl append_field [] fs"

text \<open>The fields that a reader accepts: a field number of at most 32 bits, a bounded payload.\<close>

fun field_ok :: "wfield \<Rightarrow> bool" where
  "field_ok (FVarint num v) \<longleftrightarrow> num \<noteq> 0 \<and> uint num \<le> MaxUint32"
| "field_ok (FBytes num bs) \<longleftrightarrow> num \<noteq> 0 \<and> uint num \<le> MaxUint32 \<and> length bs \<le> MaxProtobufFieldBytes"

lemma append_field_append: "append_field buf f = buf @ append_field [] f"
  by (cases f)
    (simp_all add: appendProtobufVarint_def appendProtobufBytes_def appendKey_def
      appendU64_append [of "appendU64 _ _"] appendU64_append [of buf] appendU64_append [of "_ @ _"])

lemma foldl_append_field: "foldl append_field buf fs = buf @ concat (map (append_field []) fs)"
proof (induction fs arbitrary: buf)
  case (Cons f fs)
  then show ?case
    by (simp add: append_field_append [of buf f])
qed simp

lemma encode_fields_concat: "encode_fields fs = concat (map (append_field []) fs)"
  by (simp add: encode_fields_def foldl_append_field)

lemma key_parts:
  assumes "uint num \<le> MaxUint32"
  shows "drop_bit 3 (push_bit 3 num OR word_of_nat wireVarint :: u64) = num"
    and "drop_bit 3 (push_bit 3 num OR word_of_nat wireBytes :: u64) = num"
    and "unat ((push_bit 3 num OR word_of_nat wireVarint :: u64) AND 0x7) = wireVarint"
    and "unat ((push_bit 3 num OR word_of_nat wireBytes :: u64) AND 0x7) = wireBytes"
proof -
  have "take_bit 61 num = num"
    using assms by (intro word_uint_eqI) (simp add: unsigned_take_bit_eq take_bit_int_eq_self limits)
  then have "bit num n \<Longrightarrow> n < 61" for n
    by (metis bit_take_bit_iff)
  then have d: "drop_bit 3 (push_bit 3 num) = num"
    by (intro bit_eqI) (fastforce simp: bit_simps)
  have m: "x AND 7 = take_bit 3 x" for x :: u64
    by (simp add: take_bit_eq_mask mask_eq_exp_minus_1)
  have t: "take_bit 3 (push_bit 3 num) = 0"
    by (simp add: take_bit_push_bit)
  show "drop_bit 3 (push_bit 3 num OR word_of_nat wireVarint :: u64) = num"
    and "drop_bit 3 (push_bit 3 num OR word_of_nat wireBytes :: u64) = num"
    using d by (simp_all add: drop_bit_or wireVarint_def wireBytes_def)
  show "unat ((push_bit 3 num OR word_of_nat wireVarint :: u64) AND 0x7) = wireVarint"
    and "unat ((push_bit 3 num OR word_of_nat wireBytes :: u64) AND 0x7) = wireBytes"
    unfolding m using t by (simp_all add: take_bit_or wireVarint_def wireBytes_def)
qed

lemma read_token_encode:
  assumes "field_ok f"
  shows "read_token (append_field [] f @ rest) = Inr (f, length (append_field [] f))"
proof (cases f)
  case (FVarint num v)
  define key :: u64 where "key = push_bit 3 num OR word_of_nat wireVarint"
  have "drop_bit 3 key = num" "unat (key AND 0x7) = wireVarint"
    using FVarint assms key_parts by (simp_all add: key_def)
  then show ?thesis
    using FVarint assms
    by (simp add: appendProtobufVarint_def appendKey_def appendU64_append [of "appendU64 _ _"]
        read_token_def readProtobufVarint_append read_payload_def flip: key_def)
next
  case (FBytes num bs)
  define key :: u64 where "key = push_bit 3 num OR word_of_nat wireBytes"
  have "drop_bit 3 key = num" "unat (key AND 0x7) = wireBytes"
    using FBytes assms key_parts by (simp_all add: key_def)
  moreover have "unat (word_of_nat (length bs) :: u64) = length bs" "wireBytes \<noteq> wireVarint"
    using FBytes assms by (simp_all add: unat_of_nat limits)
  ultimately show ?thesis
    using FBytes assms
    by (simp add: appendProtobufBytes_def appendKey_def appendU64_append [of "appendU64 _ _"]
        read_token_def readProtobufVarint_append read_payload_def flip: key_def)
qed

theorem tokens_encode:
  assumes "\<forall>f \<in> set fs. field_ok f" and "k + length fs \<le> MaxProtobufFields"
  shows "tokens k (encode_fields fs) = Inr fs"
  using assms
proof (induction fs arbitrary: k)
  case Nil
  then show ?case
    by (simp add: tokens.simps encode_fields_def)
next
  case (Cons f fs)
  have "append_field [] f \<noteq> []"
    by (cases f) (simp_all add: appendProtobufVarint_def appendProtobufBytes_def appendKey_def
      appendU64_append [of "appendU64 _ _"])
  with Cons show ?case
    by (subst tokens.simps) (simp add: encode_fields_concat read_token_encode)
qed

context wire_message
begin

text \<open>A parser that accepts the fields one after the other reads them from what a writer appended.\<close>

lemma parse_encoded:
  assumes "\<forall>f \<in> set fs. field_ok f" and "length fs \<le> MaxProtobufFields"
    and "fold_res act fs s = Inr s'"
  shows "parse_fields step (encode_fields fs) s = Inr s'"
  using assms tokens_encode [of fs 0] by (simp add: parse_accepts_iff)

end

end
