(* ===== verification/Proto.thy ===== *)
theory Proto
  imports WireFields
begin

text \<open>
  The protobuf messages of \<open>proto.go\<close> with the checks of \<open>validate.go\<close> and the constructors of
  \<open>integers.go\<close>: the records, their \<open>marshal\<close> methods, and the \<open>unmarshal\<close> functions as steps of the
  field loop. Each parser is an instance of the locale \<open>wire_message\<close>; with it, reading back what was
  written is a computation on lists of fields.
\<close>

section \<open>Messages\<close>

record FormatID =
  fid_Itag :: i32
  fid_LastModified :: u64
  fid_XTags :: string

record ClientInfo =
  ci_ClientName :: i32
  ci_ClientVersion :: string
  ci_OSName :: string
  ci_OSVersion :: string
  ci_DeviceMake :: string
  ci_DeviceModel :: string
  ci_AcceptLanguage :: string

record TimeRange =
  tr_StartTicks :: i64
  tr_DurationTicks :: i64
  tr_Timescale :: i32

record MediaHeader =
  mh_HeaderID :: u32
  mh_Itag :: i32
  mh_IsInitSeg :: bool
  mh_SequenceNumber :: u64
  mh_DurationMs :: i64
  mh_FormatID :: FormatID
  mh_ContentLength :: i64
  mh_TimeRange :: TimeRange

record FormatInitializationMetadata =
  fim_VideoID :: string
  fim_FormatID :: FormatID

record BufferedRange =
  br_FormatID :: FormatID
  br_StartTimeMs :: i64
  br_DurationMs :: i64
  br_StartSegmentIndex :: i32
  br_EndSegmentIndex :: i32
  br_TimeRange :: TimeRange

text \<open>Go's zero values.\<close>

definition zeroFormatID :: FormatID where
  "zeroFormatID = \<lparr>fid_Itag = 0, fid_LastModified = 0, fid_XTags = []\<rparr>"

definition zeroTimeRange :: TimeRange where
  "zeroTimeRange = \<lparr>tr_StartTicks = 0, tr_DurationTicks = 0, tr_Timescale = 0\<rparr>"

definition zeroMediaHeader :: MediaHeader where
  "zeroMediaHeader = \<lparr>mh_HeaderID = 0, mh_Itag = 0, mh_IsInitSeg = False, mh_SequenceNumber = 0,
     mh_DurationMs = 0, mh_FormatID = zeroFormatID, mh_ContentLength = 0,
     mh_TimeRange = zeroTimeRange\<rparr>"

definition zeroFormatInit :: FormatInitializationMetadata where
  "zeroFormatInit = \<lparr>fim_VideoID = [], fim_FormatID = zeroFormatID\<rparr>"

section \<open>Field numbers\<close>

abbreviation fFormatItag :: u64 where "fFormatItag \<equiv> 1"
abbreviation fFormatLastModified :: u64 where "fFormatLastModified \<equiv> 2"
abbreviation fFormatXTags :: u64 where "fFormatXTags \<equiv> 3"
abbreviation fAbrStatePlayerTimeMs :: u64 where "fAbrStatePlayerTimeMs \<equiv> 28"
abbreviation fAbrStateEnabledTracks :: u64 where "fAbrStateEnabledTracks \<equiv> 40"
abbreviation fAbrStateDrcEnabled :: u64 where "fAbrStateDrcEnabled \<equiv> 46"
abbreviation fAbrStateAudioTrackID :: u64 where "fAbrStateAudioTrackID \<equiv> 69"
abbreviation fClientInfoDeviceMake :: u64 where "fClientInfoDeviceMake \<equiv> 12"
abbreviation fClientInfoDeviceModel :: u64 where "fClientInfoDeviceModel \<equiv> 13"
abbreviation fClientInfoClientName :: u64 where "fClientInfoClientName \<equiv> 16"
abbreviation fClientInfoClientVersion :: u64 where "fClientInfoClientVersion \<equiv> 17"
abbreviation fClientInfoOSName :: u64 where "fClientInfoOSName \<equiv> 18"
abbreviation fClientInfoOSVersion :: u64 where "fClientInfoOSVersion \<equiv> 19"
abbreviation fClientInfoAcceptLanguage :: u64 where "fClientInfoAcceptLanguage \<equiv> 21"
abbreviation fStreamerCtxClientInfo :: u64 where "fStreamerCtxClientInfo \<equiv> 1"
abbreviation fStreamerCtxPOToken :: u64 where "fStreamerCtxPOToken \<equiv> 2"
abbreviation fStreamerCtxPlaybackCookie :: u64 where "fStreamerCtxPlaybackCookie \<equiv> 3"
abbreviation fStreamerCtxSabrContexts :: u64 where "fStreamerCtxSabrContexts \<equiv> 5"
abbreviation fStreamerCtxUnsentSabrContexts :: u64 where "fStreamerCtxUnsentSabrContexts \<equiv> 6"
abbreviation fAbrClientState :: u64 where "fAbrClientState \<equiv> 1"
abbreviation fAbrSelectedFormats :: u64 where "fAbrSelectedFormats \<equiv> 2"
abbreviation fAbrBufferedRanges :: u64 where "fAbrBufferedRanges \<equiv> 3"
abbreviation fAbrUstreamerConfig :: u64 where "fAbrUstreamerConfig \<equiv> 5"
abbreviation fAbrPreferredAudioFormats :: u64 where "fAbrPreferredAudioFormats \<equiv> 16"
abbreviation fAbrPreferredVideoFormats :: u64 where "fAbrPreferredVideoFormats \<equiv> 17"
abbreviation fAbrStreamerContext :: u64 where "fAbrStreamerContext \<equiv> 19"
abbreviation fBufferedFormatID :: u64 where "fBufferedFormatID \<equiv> 1"
abbreviation fBufferedStartTimeMs :: u64 where "fBufferedStartTimeMs \<equiv> 2"
abbreviation fBufferedDurationMs :: u64 where "fBufferedDurationMs \<equiv> 3"
abbreviation fBufferedStartSegmentIndex :: u64 where "fBufferedStartSegmentIndex \<equiv> 4"
abbreviation fBufferedEndSegmentIndex :: u64 where "fBufferedEndSegmentIndex \<equiv> 5"
abbreviation fBufferedTimeRange :: u64 where "fBufferedTimeRange \<equiv> 6"
abbreviation fFormatInitVideoID :: u64 where "fFormatInitVideoID \<equiv> 1"
abbreviation fFormatInitFormatID :: u64 where "fFormatInitFormatID \<equiv> 2"
abbreviation fMediaHdrHeaderID :: u64 where "fMediaHdrHeaderID \<equiv> 1"
abbreviation fMediaHdrItag :: u64 where "fMediaHdrItag \<equiv> 3"
abbreviation fMediaHdrIsInitSeg :: u64 where "fMediaHdrIsInitSeg \<equiv> 8"
abbreviation fMediaHdrSequenceNum :: u64 where "fMediaHdrSequenceNum \<equiv> 9"
abbreviation fMediaHdrDurationMs :: u64 where "fMediaHdrDurationMs \<equiv> 12"
abbreviation fMediaHdrFormatID :: u64 where "fMediaHdrFormatID \<equiv> 13"
abbreviation fMediaHdrContentLength :: u64 where "fMediaHdrContentLength \<equiv> 14"
abbreviation fMediaHdrTimeRange :: u64 where "fMediaHdrTimeRange \<equiv> 15"
abbreviation fTimeRangeStartTicks :: u64 where "fTimeRangeStartTicks \<equiv> 1"
abbreviation fTimeRangeDurationTicks :: u64 where "fTimeRangeDurationTicks \<equiv> 2"
abbreviation fTimeRangeTimescale :: u64 where "fTimeRangeTimescale \<equiv> 3"

section \<open>Validation\<close>

definition validateFormatIDWire :: "FormatID \<Rightarrow> unit res" where
  "validateFormatIDWire f = (if fid_Itag f \<le> 0 then Inl ErrMissingConfig else Inr ())"

definition validateClientInfoWire :: "ClientInfo \<Rightarrow> unit res" where
  "validateClientInfoWire info = (if ci_ClientName info \<le> 0 then Inl ErrMissingConfig else Inr ())"

definition validateTimeRangeWire :: "TimeRange \<Rightarrow> unit res" where
  "validateTimeRangeWire tr =
     (if tr_StartTicks tr < 0 \<or> tr_DurationTicks tr < 0 then Inl ErrInvalidMediaState
      else if tr_Timescale tr < 0 then Inl ErrVarintOverflow
      else Inr ())"

definition validateBufferedRange :: "BufferedRange \<Rightarrow> unit res" where
  "validateBufferedRange br =
     bind_res (validateFormatIDWire (br_FormatID br)) (\<lambda>_.
       if br_StartTimeMs br < 0 \<or> br_DurationMs br < 0 then Inl ErrInvalidMediaState
       else if br_StartSegmentIndex br < 0 \<or> br_EndSegmentIndex br < 0 then Inl ErrVarintOverflow
       else bind_res (int32SegmentIndex (word_of_int (br_StartSegmentIndex br))) (\<lambda>_.
            bind_res (int32SegmentIndex (word_of_int (br_EndSegmentIndex br))) (\<lambda>_.
              validateTimeRangeWire (br_TimeRange br))))"

definition formatIdentityConflicts :: "FormatID \<Rightarrow> FormatID \<Rightarrow> unit res" where
  "formatIdentityConflicts configured observed =
     (if fid_Itag observed \<noteq> 0 \<and> fid_Itag observed \<noteq> fid_Itag configured
        then Inl ErrInvalidMediaState
      else if fid_LastModified configured \<noteq> 0 \<and> fid_LastModified observed \<noteq> 0 \<and>
        fid_LastModified observed \<noteq> fid_LastModified configured then Inl ErrInvalidMediaState
      else if fid_XTags configured \<noteq> [] \<and> fid_XTags observed \<noteq> [] \<and>
        fid_XTags observed \<noteq> fid_XTags configured then Inl ErrInvalidMediaState
      else Inr ())"

definition headerItag :: "MediaHeader \<Rightarrow> i32" where
  "headerItag h = (if fid_Itag (mh_FormatID h) \<noteq> 0 then fid_Itag (mh_FormatID h) else mh_Itag h)"

definition headerRepresentationID :: "MediaHeader \<Rightarrow> FormatID" where
  "headerRepresentationID h =
     (if fid_Itag (mh_FormatID h) \<noteq> 0 \<or> fid_LastModified (mh_FormatID h) \<noteq> 0 \<or>
         fid_XTags (mh_FormatID h) \<noteq> [] then mh_FormatID h
      else zeroFormatID\<lparr>fid_Itag := mh_Itag h\<rparr>)"

definition formatIDFromItag :: "i64 \<Rightarrow> i64 \<Rightarrow> string \<Rightarrow> FormatID res" where
  "formatIDFromItag itag lastModified xtags =
     (if itag \<le> 0 \<or> itag > MaxInt32 then Inl ErrMissingConfig
      else if lastModified < 0 then Inl ErrMissingConfig
      else if lastModified > MaxInt64 then Inl ErrVarintOverflow
      else Inr \<lparr>fid_Itag = wrap32 itag, fid_LastModified = word_of_int lastModified,
                fid_XTags = xtags\<rparr>)"

definition clientInfoFromID :: "i64 \<Rightarrow> string \<Rightarrow> ClientInfo res" where
  "clientInfoFromID clientID version =
     (if clientID \<le> 0 \<or> clientID > MaxInt32 then Inl ErrMissingConfig
      else Inr \<lparr>ci_ClientName = wrap32 clientID, ci_ClientVersion = version, ci_OSName = [],
                ci_OSVersion = [], ci_DeviceMake = [], ci_DeviceModel = [],
                ci_AcceptLanguage = []\<rparr>)"

text \<open>
  \<open>bits.Div64\<close> cannot panic for a header: see \<open>effectiveDurationMs_exact\<close>; the branch for it is
  never taken.
\<close>

definition effectiveDurationMs :: "MediaHeader \<Rightarrow> i64" where
  "effectiveDurationMs h =
     (if mh_DurationMs h > 0 then mh_DurationMs h
      else if tr_DurationTicks (mh_TimeRange h) \<le> 0 \<or> tr_Timescale (mh_TimeRange h) \<le> 0 then 0
      else (case ceilMillisFromTicks (tr_DurationTicks (mh_TimeRange h))
                   (tr_Timescale (mh_TimeRange h)) of
              None \<Rightarrow> 0
            | Some (duration, ok) \<Rightarrow> if \<not> ok then 0 else duration))"

section \<open>Marshalling\<close>

definition marshalFormatID :: "FormatID \<Rightarrow> byte list" where
  "marshalFormatID f =
     (let buf = appendProtobufVarint [] fFormatItag (word_of_int (fid_Itag f));
          buf = (if fid_LastModified f \<noteq> 0
                 then appendProtobufVarint buf fFormatLastModified (fid_LastModified f) else buf);
          buf = (if fid_XTags f \<noteq> []
                 then appendProtobufBytes buf fFormatXTags (bytes_of (fid_XTags f)) else buf)
      in buf)"

definition marshalClientInfo :: "ClientInfo \<Rightarrow> byte list" where
  "marshalClientInfo info =
     (let buf = [];
          buf = (if ci_DeviceMake info \<noteq> []
                 then appendProtobufBytes buf fClientInfoDeviceMake (bytes_of (ci_DeviceMake info))
                 else buf);
          buf = (if ci_DeviceModel info \<noteq> []
                 then appendProtobufBytes buf fClientInfoDeviceModel (bytes_of (ci_DeviceModel info))
                 else buf);
          buf = (if ci_ClientName info \<noteq> 0
                 then appendProtobufVarint buf fClientInfoClientName
                        (word_of_int (ci_ClientName info))
                 else buf);
          buf = (if ci_ClientVersion info \<noteq> []
                 then appendProtobufBytes buf fClientInfoClientVersion
                        (bytes_of (ci_ClientVersion info))
                 else buf);
          buf = (if ci_OSName info \<noteq> []
                 then appendProtobufBytes buf fClientInfoOSName (bytes_of (ci_OSName info))
                 else buf);
          buf = (if ci_OSVersion info \<noteq> []
                 then appendProtobufBytes buf fClientInfoOSVersion (bytes_of (ci_OSVersion info))
                 else buf);
          buf = (if ci_AcceptLanguage info \<noteq> []
                 then appendProtobufBytes buf fClientInfoAcceptLanguage
                        (bytes_of (ci_AcceptLanguage info))
                 else buf)
      in buf)"

definition marshalTimeRange :: "TimeRange \<Rightarrow> byte list res" where
  "marshalTimeRange tr =
     bind_res (validateTimeRangeWire tr) (\<lambda>_.
       let buf = [];
           buf = (if tr_StartTicks tr \<noteq> 0
                  then appendProtobufVarint buf fTimeRangeStartTicks (word_of_int (tr_StartTicks tr))
                  else buf);
           buf = (if tr_DurationTicks tr \<noteq> 0
                  then appendProtobufVarint buf fTimeRangeDurationTicks
                         (word_of_int (tr_DurationTicks tr))
                  else buf);
           buf = (if tr_Timescale tr \<noteq> 0
                  then appendProtobufVarint buf fTimeRangeTimescale (word_of_int (tr_Timescale tr))
                  else buf)
       in Inr buf)"

definition marshalBufferedRange :: "BufferedRange \<Rightarrow> byte list res" where
  "marshalBufferedRange br =
     bind_res (validateBufferedRange br) (\<lambda>_.
       let buf = appendProtobufBytes [] fBufferedFormatID (marshalFormatID (br_FormatID br));
           buf = appendProtobufVarint buf fBufferedStartTimeMs (word_of_int (br_StartTimeMs br));
           buf = appendProtobufVarint buf fBufferedDurationMs (word_of_int (br_DurationMs br));
           buf = appendProtobufVarint buf fBufferedStartSegmentIndex
                   (word_of_int (br_StartSegmentIndex br));
           buf = appendProtobufVarint buf fBufferedEndSegmentIndex
                   (word_of_int (br_EndSegmentIndex br));
           tr = br_TimeRange br
       in if tr_Timescale tr \<noteq> 0 \<or> tr_DurationTicks tr \<noteq> 0 \<or> tr_StartTicks tr \<noteq> 0
          then bind_res (marshalTimeRange tr) (\<lambda>timeRange.
                 Inr (appendProtobufBytes buf fBufferedTimeRange timeRange))
          else Inr buf)"

definition marshalMediaHeader :: "MediaHeader \<Rightarrow> byte list" where
  "marshalMediaHeader h =
     (let buf = appendProtobufVarint [] fMediaHdrHeaderID (ucast (mh_HeaderID h));
          buf = (if mh_Itag h \<noteq> 0
                 then appendProtobufVarint buf fMediaHdrItag (word_of_int (mh_Itag h)) else buf);
          buf = (if mh_IsInitSeg h then appendProtobufVarint buf fMediaHdrIsInitSeg 1 else buf);
          buf = (if mh_SequenceNumber h \<noteq> 0
                 then appendProtobufVarint buf fMediaHdrSequenceNum (mh_SequenceNumber h)
                 else buf);
          buf = (if mh_DurationMs h \<noteq> 0
                 then appendProtobufVarint buf fMediaHdrDurationMs (word_of_int (mh_DurationMs h))
                 else buf);
          buf = (if fid_Itag (mh_FormatID h) \<noteq> 0 \<or> fid_LastModified (mh_FormatID h) \<noteq> 0 \<or>
                    fid_XTags (mh_FormatID h) \<noteq> []
                 then appendProtobufBytes buf fMediaHdrFormatID (marshalFormatID (mh_FormatID h))
                 else buf);
          buf = (if mh_ContentLength h \<noteq> 0
                 then appendProtobufVarint buf fMediaHdrContentLength
                        (word_of_int (mh_ContentLength h))
                 else buf)
      in buf)"

section \<open>Unmarshalling\<close>

text \<open>
  Reading a payload and returning from the parser when the cursor failed, as in
  \<open>raw := reader.varint(); if reader.err != nil { return reader.err }\<close>.
\<close>

definition checked_varint :: "fieldReader \<Rightarrow> (fieldReader \<times> u64) res" where
  "checked_varint r =
     (let (r, v) = read_varint r in case fr_err r of Some e \<Rightarrow> Inl e | None \<Rightarrow> Inr (r, v))"

definition checked_bytes :: "fieldReader \<Rightarrow> (fieldReader \<times> byte list) res" where
  "checked_bytes r =
     (let (r, bs) = read_bytes r in case fr_err r of Some e \<Rightarrow> Inl e | None \<Rightarrow> Inr (r, bs))"

definition formatID_step :: "FormatID step" where
  "formatID_step num wireType r f =
     (if num = fFormatItag \<and> wireType = wireVarint then
        bind_res (checked_varint r) (\<lambda>(r, v).
        bind_res (int32FromUint64 v) (\<lambda>itag. Inr (r, f\<lparr>fid_Itag := itag\<rparr>)))
      else if num = fFormatLastModified \<and> wireType = wireVarint then
        (let (r, v) = read_varint r in Inr (r, f\<lparr>fid_LastModified := v\<rparr>))
      else if num = fFormatXTags \<and> wireType = wireBytes then
        (let (r, x) = read_string r in Inr (r, f\<lparr>fid_XTags := x\<rparr>))
      else Inr (skip_field r num wireType, f))"

definition unmarshalFormatID :: "byte list \<Rightarrow> FormatID res" where
  "unmarshalFormatID bs = parse_fields formatID_step bs zeroFormatID"

definition timeRange_step :: "TimeRange step" where
  "timeRange_step num wireType r tr =
     (if num = fTimeRangeStartTicks \<and> wireType = wireVarint then
        bind_res (checked_varint r) (\<lambda>(r, v).
        bind_res (int64FromUint64 v) (\<lambda>ticks. Inr (r, tr\<lparr>tr_StartTicks := ticks\<rparr>)))
      else if num = fTimeRangeDurationTicks \<and> wireType = wireVarint then
        bind_res (checked_varint r) (\<lambda>(r, v).
        bind_res (int64FromUint64 v) (\<lambda>ticks. Inr (r, tr\<lparr>tr_DurationTicks := ticks\<rparr>)))
      else if num = fTimeRangeTimescale \<and> wireType = wireVarint then
        bind_res (checked_varint r) (\<lambda>(r, v).
        bind_res (int32FromUint64 v) (\<lambda>scale. Inr (r, tr\<lparr>tr_Timescale := scale\<rparr>)))
      else Inr (skip_field r num wireType, tr))"

definition unmarshalTimeRange :: "byte list \<Rightarrow> TimeRange res" where
  "unmarshalTimeRange bs = parse_fields timeRange_step bs zeroTimeRange"

definition mediaHeader_step :: "MediaHeader step" where
  "mediaHeader_step num wireType r h =
     (if num = fMediaHdrHeaderID \<and> wireType = wireVarint then
        (let (r, v) = read_uint32 r in Inr (r, h\<lparr>mh_HeaderID := v\<rparr>))
      else if num = fMediaHdrItag \<and> wireType = wireVarint then
        bind_res (checked_varint r) (\<lambda>(r, v).
        bind_res (int32FromUint64 v) (\<lambda>itag. Inr (r, h\<lparr>mh_Itag := itag\<rparr>)))
      else if num = fMediaHdrIsInitSeg \<and> wireType = wireVarint then
        (let (r, v) = read_varint r in Inr (r, h\<lparr>mh_IsInitSeg := (v \<noteq> 0)\<rparr>))
      else if num = fMediaHdrSequenceNum \<and> wireType = wireVarint then
        (let (r, v) = read_varint r in Inr (r, h\<lparr>mh_SequenceNumber := v\<rparr>))
      else if num = fMediaHdrDurationMs \<and> wireType = wireVarint then
        bind_res (checked_varint r) (\<lambda>(r, v).
        bind_res (int64FromUint64 v) (\<lambda>duration. Inr (r, h\<lparr>mh_DurationMs := duration\<rparr>)))
      else if num = fMediaHdrFormatID \<and> wireType = wireBytes then
        (let (r, bs) = read_bytes r in
         bind_res (unmarshalFormatID bs) (\<lambda>f. Inr (r, h\<lparr>mh_FormatID := f\<rparr>)))
      else if num = fMediaHdrContentLength \<and> wireType = wireVarint then
        bind_res (checked_varint r) (\<lambda>(r, v).
        bind_res (int64FromUint64 v) (\<lambda>len. Inr (r, h\<lparr>mh_ContentLength := len\<rparr>)))
      else if num = fMediaHdrTimeRange \<and> wireType = wireBytes then
        (let (r, bs) = read_bytes r in
         bind_res (unmarshalTimeRange bs) (\<lambda>tr. Inr (r, h\<lparr>mh_TimeRange := tr\<rparr>)))
      else Inr (skip_field r num wireType, h))"

definition unmarshalMediaHeader :: "byte list \<Rightarrow> MediaHeader res" where
  "unmarshalMediaHeader bs = parse_fields mediaHeader_step bs zeroMediaHeader"

definition formatInit_step :: "FormatInitializationMetadata step" where
  "formatInit_step num wireType r m =
     (if num = fFormatInitVideoID \<and> wireType = wireBytes then
        (let (r, x) = read_string r in Inr (r, m\<lparr>fim_VideoID := x\<rparr>))
      else if num = fFormatInitFormatID \<and> wireType = wireBytes then
        (let (r, bs) = read_bytes r in
         bind_res (unmarshalFormatID bs) (\<lambda>f. Inr (r, m\<lparr>fim_FormatID := f\<rparr>)))
      else Inr (skip_field r num wireType, m))"

definition unmarshalFormatInitializationMetadata ::
    "byte list \<Rightarrow> FormatInitializationMetadata res" where
  "unmarshalFormatInitializationMetadata bs = parse_fields formatInit_step bs zeroFormatInit"

section \<open>What a decoded field does\<close>

fun formatID_act :: "wfield \<Rightarrow> FormatID \<Rightarrow> FormatID res" where
  "formatID_act (FVarint num v) f =
     (if num = fFormatItag then bind_res (int32FromUint64 v) (\<lambda>itag. Inr (f\<lparr>fid_Itag := itag\<rparr>))
      else if num = fFormatLastModified then Inr (f\<lparr>fid_LastModified := v\<rparr>)
      else Inr f)"
| "formatID_act (FBytes num bs) f =
     (if num = fFormatXTags then Inr (f\<lparr>fid_XTags := str_of bs\<rparr>) else Inr f)"

lemma wire_types_differ [simp]: "wireBytes \<noteq> wireVarint" "wireVarint \<noteq> wireBytes"
  by (simp_all add: wireVarint_def wireBytes_def)

named_theorems reading \<open>what the cursor operations do with a well-formed or a malformed payload\<close>

lemma read_varint_ok [reading]:
  "readProtobufVarint (drop (fr_offset r) (fr_data r)) = Inr (v, n) \<Longrightarrow>
     read_varint r = (r\<lparr>fr_offset := fr_offset r + n\<rparr>, v)"
  by (simp add: read_varint_def)

lemma read_varint_err [reading]:
  "readProtobufVarint (drop (fr_offset r) (fr_data r)) = Inl e \<Longrightarrow>
     read_varint r = (r\<lparr>fr_err := Some e\<rparr>, 0)"
  by (simp add: read_varint_def)

lemma skip_varint_ok [reading]:
  "readProtobufVarint (drop (fr_offset r) (fr_data r)) = Inr (v, n) \<Longrightarrow>
     skip_field r num wireVarint = r\<lparr>fr_offset := fr_offset r + n\<rparr>"
  by (simp add: skip_field_def)

lemma skip_varint_err [reading]:
  "readProtobufVarint (drop (fr_offset r) (fr_data r)) = Inl e \<Longrightarrow>
     skip_field r num wireVarint = r\<lparr>fr_err := Some e\<rparr>"
  by (simp add: skip_field_def)

lemma skip_bytes [reading]:
  "read_bytes r = (r', bs) \<Longrightarrow> skip_field r num wireBytes = r'"
  by (simp add: skip_field_def)

lemma skip_other [reading]:
  "wt \<noteq> wireVarint \<Longrightarrow> wt \<noteq> wireBytes \<Longrightarrow> fr_err (skip_field r num wt) = Some ErrInvalidProtobuf"
  by (simp add: skip_field_def)

lemmas reading_defs = checked_varint_def checked_bytes_def read_string_def read_uint32_def

interpretation format_id: wire_message formatID_step formatID_act
  by unfold_locales
    (auto simp: formatID_step_def reading reading_defs bind_res_Inl_iff bind_res_Inr_iff split: if_splits)

fun timeRange_act :: "wfield \<Rightarrow> TimeRange \<Rightarrow> TimeRange res" where
  "timeRange_act (FVarint num v) tr =
     (if num = fTimeRangeStartTicks then
        bind_res (int64FromUint64 v) (\<lambda>t. Inr (tr\<lparr>tr_StartTicks := t\<rparr>))
      else if num = fTimeRangeDurationTicks then
        bind_res (int64FromUint64 v) (\<lambda>t. Inr (tr\<lparr>tr_DurationTicks := t\<rparr>))
      else if num = fTimeRangeTimescale then
        bind_res (int32FromUint64 v) (\<lambda>t. Inr (tr\<lparr>tr_Timescale := t\<rparr>))
      else Inr tr)"
| "timeRange_act (FBytes num bs) tr = Inr tr"

interpretation time_range: wire_message timeRange_step timeRange_act
  by unfold_locales
    (auto simp: timeRange_step_def reading reading_defs bind_res_Inl_iff bind_res_Inr_iff split: if_splits)

fun mediaHeader_act :: "wfield \<Rightarrow> MediaHeader \<Rightarrow> MediaHeader res" where
  "mediaHeader_act (FVarint num v) h =
     (if num = fMediaHdrHeaderID then
        (if uint v > MaxUint32 then Inl ErrVarintOverflow else Inr (h\<lparr>mh_HeaderID := ucast v\<rparr>))
      else if num = fMediaHdrItag then
        bind_res (int32FromUint64 v) (\<lambda>x. Inr (h\<lparr>mh_Itag := x\<rparr>))
      else if num = fMediaHdrIsInitSeg then Inr (h\<lparr>mh_IsInitSeg := (v \<noteq> 0)\<rparr>)
      else if num = fMediaHdrSequenceNum then Inr (h\<lparr>mh_SequenceNumber := v\<rparr>)
      else if num = fMediaHdrDurationMs then
        bind_res (int64FromUint64 v) (\<lambda>x. Inr (h\<lparr>mh_DurationMs := x\<rparr>))
      else if num = fMediaHdrContentLength then
        bind_res (int64FromUint64 v) (\<lambda>x. Inr (h\<lparr>mh_ContentLength := x\<rparr>))
      else Inr h)"
| "mediaHeader_act (FBytes num bs) h =
     (if num = fMediaHdrFormatID then
        bind_res (unmarshalFormatID bs) (\<lambda>f. Inr (h\<lparr>mh_FormatID := f\<rparr>))
      else if num = fMediaHdrTimeRange then
        bind_res (unmarshalTimeRange bs) (\<lambda>tr. Inr (h\<lparr>mh_TimeRange := tr\<rparr>))
      else Inr h)"

interpretation media_header: wire_message mediaHeader_step mediaHeader_act
  by unfold_locales
    (auto simp: mediaHeader_step_def reading reading_defs bind_res_Inl_iff bind_res_Inr_iff
      split: if_splits prod.splits)

fun formatInit_act ::
    "wfield \<Rightarrow> FormatInitializationMetadata \<Rightarrow> FormatInitializationMetadata res" where
  "formatInit_act (FVarint num v) m = Inr m"
| "formatInit_act (FBytes num bs) m =
     (if num = fFormatInitVideoID then Inr (m\<lparr>fim_VideoID := str_of bs\<rparr>)
      else if num = fFormatInitFormatID then
        bind_res (unmarshalFormatID bs) (\<lambda>f. Inr (m\<lparr>fim_FormatID := f\<rparr>))
      else Inr m)"

interpretation format_init: wire_message formatInit_step formatInit_act
  by unfold_locales
    (auto simp: formatInit_step_def reading reading_defs bind_res_Inl_iff bind_res_Inr_iff
      split: if_splits prod.splits)

section \<open>Round trips\<close>

text \<open>Optional appends as lists of fields.\<close>

named_theorems append_fields \<open>turn a chain of (conditional) appends into one list of fields\<close>

lemma append_fold [append_fields]:
  "appendProtobufVarint buf num v = foldl append_field buf [FVarint num v]"
  "appendProtobufBytes buf num bs = foldl append_field buf [FBytes num bs]"
  "(if c then foldl append_field buf fs else buf) = foldl append_field buf (if c then fs else [])"
  "foldl append_field (foldl append_field buf fs) gs = foldl append_field buf (fs @ gs)"
  by simp_all

text \<open>The identity of an encoding as the wire can carry it.\<close>

definition format_ok :: "FormatID \<Rightarrow> bool" where
  "format_ok f \<longleftrightarrow> 0 \<le> fid_Itag f \<and> fid_Itag f \<le> MaxInt32 \<and> length (fid_XTags f) \<le> 4096"

definition format_fields :: "FormatID \<Rightarrow> wfield list" where
  "format_fields f =
     [FVarint fFormatItag (word_of_int (fid_Itag f))] @
     (if fid_LastModified f \<noteq> 0 then [FVarint fFormatLastModified (fid_LastModified f)] else []) @
     (if fid_XTags f \<noteq> [] then [FBytes fFormatXTags (bytes_of (fid_XTags f))] else [])"

lemma marshalFormatID_fields: "marshalFormatID f = encode_fields (format_fields f)"
  unfolding marshalFormatID_def format_fields_def encode_fields_def append_fields Let_def by simp

lemma int32FromUint64_of_int:
  "0 \<le> i \<Longrightarrow> i \<le> MaxInt32 \<Longrightarrow> int32FromUint64 (word_of_int i) = Inr i"
  by (simp add: int32FromUint64_def uint_word_of_int limits)

lemma int64FromUint64_of_int:
  "0 \<le> i \<Longrightarrow> i \<le> MaxInt64 \<Longrightarrow> int64FromUint64 (word_of_int i) = Inr i"
  by (simp add: int64FromUint64_def uint_word_of_int limits)

theorem unmarshal_marshal_FormatID:
  assumes "format_ok f"
  shows "unmarshalFormatID (marshalFormatID f) = Inr f"
  unfolding unmarshalFormatID_def marshalFormatID_fields using assms
  by (intro format_id.parse_encoded)
    (auto simp: format_fields_def format_ok_def zeroFormatID_def int32FromUint64_of_int limits)

definition time_range_ok :: "TimeRange \<Rightarrow> bool" where
  "time_range_ok tr \<longleftrightarrow> 0 \<le> tr_StartTicks tr \<and> tr_StartTicks tr \<le> MaxInt64 \<and>
     0 \<le> tr_DurationTicks tr \<and> tr_DurationTicks tr \<le> MaxInt64 \<and>
     0 \<le> tr_Timescale tr \<and> tr_Timescale tr \<le> MaxInt32"

definition time_range_fields :: "TimeRange \<Rightarrow> wfield list" where
  "time_range_fields tr =
     (if tr_StartTicks tr \<noteq> 0
      then [FVarint fTimeRangeStartTicks (word_of_int (tr_StartTicks tr))] else []) @
     (if tr_DurationTicks tr \<noteq> 0
      then [FVarint fTimeRangeDurationTicks (word_of_int (tr_DurationTicks tr))] else []) @
     (if tr_Timescale tr \<noteq> 0
      then [FVarint fTimeRangeTimescale (word_of_int (tr_Timescale tr))] else [])"

lemma marshalTimeRange_fields:
  "time_range_ok tr \<Longrightarrow> marshalTimeRange tr = Inr (encode_fields (time_range_fields tr))"
  unfolding marshalTimeRange_def time_range_fields_def encode_fields_def append_fields Let_def
  by (simp add: validateTimeRangeWire_def time_range_ok_def)

lemma unmarshal_marshal_TimeRange:
  assumes "time_range_ok tr"
  shows "bind_res (marshalTimeRange tr) unmarshalTimeRange = Inr tr"
proof -
  have "fold_res timeRange_act (time_range_fields tr) zeroTimeRange = Inr tr"
    using assms
    by (simp add: time_range_fields_def time_range_ok_def zeroTimeRange_def
        int32FromUint64_of_int int64FromUint64_of_int)
  then have "parse_fields timeRange_step (encode_fields (time_range_fields tr)) zeroTimeRange = Inr tr"
    by (intro time_range.parse_encoded) (auto simp: time_range_fields_def limits)
  then show ?thesis
    using assms by (simp add: marshalTimeRange_fields unmarshalTimeRange_def)
qed

lemma length_append_field:
  "length (append_field [] (FVarint num v)) \<le> 20"
  "length (append_field [] (FBytes num bs)) \<le> 20 + length bs"
  using length_appendU64(2) [of "push_bit 3 num OR word_of_nat wireVarint"]
    length_appendU64(2) [of "push_bit 3 num OR word_of_nat wireBytes"]
    length_appendU64(2) [of v] length_appendU64(2) [of "word_of_nat (length bs)"]
  by (simp_all add: appendProtobufVarint_def appendProtobufBytes_def appendKey_def
      appendU64_append [of "appendU64 _ _"] del: append_field.simps add: append_field.simps)

lemma length_marshalFormatID: "length (marshalFormatID f) \<le> 60 + length (fid_XTags f)"
proof -
  have "length (marshalFormatID f) = sum_list (map (\<lambda>w. length (append_field [] w)) (format_fields f))"
    by (simp add: marshalFormatID_fields encode_fields_concat length_concat o_def)
  then show ?thesis
    using length_append_field(1) [of fFormatItag "word_of_int (fid_Itag f)"]
      length_append_field(1) [of fFormatLastModified "fid_LastModified f"]
      length_append_field(2) [of fFormatXTags "bytes_of (fid_XTags f)"]
    by (simp add: format_fields_def del: append_field.simps)
qed

text \<open>Headers as the wire can carry them; \<open>marshalMediaHeader\<close> has no field for the time range.\<close>

definition media_header_ok :: "MediaHeader \<Rightarrow> bool" where
  "media_header_ok h \<longleftrightarrow> 0 \<le> mh_Itag h \<and> mh_Itag h \<le> MaxInt32 \<and>
     0 \<le> mh_DurationMs h \<and> mh_DurationMs h \<le> MaxInt64 \<and>
     0 \<le> mh_ContentLength h \<and> mh_ContentLength h \<le> MaxInt64 \<and>
     format_ok (mh_FormatID h) \<and> mh_TimeRange h = zeroTimeRange"

definition media_header_fields :: "MediaHeader \<Rightarrow> wfield list" where
  "media_header_fields h =
     [FVarint fMediaHdrHeaderID (ucast (mh_HeaderID h))] @
     (if mh_Itag h \<noteq> 0 then [FVarint fMediaHdrItag (word_of_int (mh_Itag h))] else []) @
     (if mh_IsInitSeg h then [FVarint fMediaHdrIsInitSeg 1] else []) @
     (if mh_SequenceNumber h \<noteq> 0 then [FVarint fMediaHdrSequenceNum (mh_SequenceNumber h)] else []) @
     (if mh_DurationMs h \<noteq> 0
      then [FVarint fMediaHdrDurationMs (word_of_int (mh_DurationMs h))] else []) @
     (if mh_FormatID h \<noteq> zeroFormatID
      then [FBytes fMediaHdrFormatID (marshalFormatID (mh_FormatID h))] else []) @
     (if mh_ContentLength h \<noteq> 0
      then [FVarint fMediaHdrContentLength (word_of_int (mh_ContentLength h))] else [])"

lemma zeroFormatID_iff:
  "fid_Itag f \<noteq> 0 \<or> fid_LastModified f \<noteq> 0 \<or> fid_XTags f \<noteq> [] \<longleftrightarrow> f \<noteq> zeroFormatID"
  by (cases f) (auto simp: zeroFormatID_def)

lemma marshalMediaHeader_fields: "marshalMediaHeader h = encode_fields (media_header_fields h)"
  unfolding marshalMediaHeader_def media_header_fields_def encode_fields_def append_fields Let_def
    zeroFormatID_iff
  by simp

lemma ucast_u32_u64: "ucast (ucast (w :: u32) :: u64) = w"
  by (rule bit_eqI) (simp add: bit_simps)

theorem unmarshal_marshal_MediaHeader:
  assumes "media_header_ok h"
  shows "unmarshalMediaHeader (marshalMediaHeader h) = Inr h"
proof -
  have "length (marshalFormatID (mh_FormatID h)) \<le> MaxProtobufFieldBytes"
    using assms length_marshalFormatID [of "mh_FormatID h"]
    by (simp add: media_header_ok_def format_ok_def limits)
  then have "\<forall>f \<in> set (media_header_fields h). field_ok f"
    and "length (media_header_fields h) \<le> MaxProtobufFields"
    by (auto simp: media_header_fields_def limits)
  moreover have "uint (ucast (mh_HeaderID h) :: u64) \<le> MaxUint32"
    using uint_lt2p [of "mh_HeaderID h"] by (simp add: unsigned_ucast_eq limits take_bit_int_eq_self)
  then have "fold_res mediaHeader_act (media_header_fields h) zeroMediaHeader = Inr h"
    using assms
    by (cases h) (simp add: media_header_fields_def media_header_ok_def zeroMediaHeader_def
        int32FromUint64_of_int int64FromUint64_of_int unmarshal_marshal_FormatID ucast_u32_u64)
  ultimately show ?thesis
    unfolding unmarshalMediaHeader_def marshalMediaHeader_fields by (rule media_header.parse_encoded)
qed

section \<open>Durations\<close>

text \<open>
  The duration of a segment: the explicit one, else the exact ceiling of its ticks in
  milliseconds, or zero when there is none or it does not fit an \<open>int64\<close>.
\<close>

lemma effectiveDurationMs_exact:
  assumes "time_range_ok (mh_TimeRange h)" and "mh_DurationMs h \<le> 0"
  shows "effectiveDurationMs h =
    (let t = tr_DurationTicks (mh_TimeRange h); s = tr_Timescale (mh_TimeRange h);
         ms = (t * 1000 + s - 1) div s
     in if 0 < t \<and> 0 < s \<and> ms \<le> MaxInt64 then ms else 0)"
proof -
  let ?t = "tr_DurationTicks (mh_TimeRange h)" and ?s = "tr_Timescale (mh_TimeRange h)"
  let ?ms = "(?t * 1000 + ?s - 1) div ?s"
  have ms: "0 < ?t \<Longrightarrow> 0 < ?s \<Longrightarrow> in_i64 ?ms \<longleftrightarrow> ?ms \<le> MaxInt64"
    using pos_imp_zdiv_nonneg_iff [of ?s "?t * 1000 + ?s - 1"] by (auto simp: in_i64_def limits)
  have "0 < ?t \<Longrightarrow> 0 < ?s \<Longrightarrow>
      ceilMillisFromTicks ?t ?s = Some (if ?ms \<le> MaxInt64 then (?ms, True) else (0, False))"
    using assms ms ceilMillisFromTicks_exact [of ?t ?s]
    by (simp add: time_range_ok_def limits Let_def)
  then show ?thesis
    using assms(2) by (auto simp: effectiveDurationMs_def Let_def)
qed

section \<open>Properties\<close>

text \<open>
  A media header that is written and parsed again is unchanged, for every header the wire can
  carry: non-negative numbers in their ranges, a bounded \<open>xtags\<close> string and, as the writer has no
  field for it, no time range.
\<close>

theorem media_header_roundtrip:
  assumes "media_header_ok h"
  shows "unmarshalMediaHeader (marshalMediaHeader h) = Inr h"
  using assms by (rule unmarshal_marshal_MediaHeader)

theorem media_header_roundtrip_witness:
  "let h = zeroMediaHeader\<lparr>mh_HeaderID := 7, mh_Itag := 140, mh_SequenceNumber := 3,
     mh_DurationMs := 5000, mh_ContentLength := 1000,
     mh_FormatID := \<lparr>fid_Itag = 140, fid_LastModified = 99, fid_XTags = ''a''\<rparr>\<rparr>
   in media_header_ok h \<and> unmarshalMediaHeader (marshalMediaHeader h) = Inr h"
proof -
  let ?h = "zeroMediaHeader\<lparr>mh_HeaderID := 7, mh_Itag := 140, mh_SequenceNumber := 3,
     mh_DurationMs := 5000, mh_ContentLength := 1000,
     mh_FormatID := \<lparr>fid_Itag = 140, fid_LastModified = 99, fid_XTags = ''a''\<rparr>\<rparr>"
  have "media_header_ok ?h"
    by (simp add: media_header_ok_def format_ok_def zeroMediaHeader_def limits)
  with media_header_roundtrip [of ?h] show ?thesis
    by (simp add: Let_def)
qed

text \<open>
  The duration of a segment without an explicit duration is the exact ceiling, in
  milliseconds, of its ticks over its timescale, and zero when either is missing or the result is
  not an \<open>int64\<close>; \<open>bits.Div64\<close> does not panic on the way.
\<close>

theorem segment_duration_exact:
  assumes "time_range_ok (mh_TimeRange h)" and "mh_DurationMs h \<le> 0"
  shows "effectiveDurationMs h =
    (let t = tr_DurationTicks (mh_TimeRange h); s = tr_Timescale (mh_TimeRange h);
         ms = (t * 1000 + s - 1) div s
     in if 0 < t \<and> 0 < s \<and> ms \<le> MaxInt64 then ms else 0)"
  using assms by (rule effectiveDurationMs_exact)

theorem segment_duration_exact_witness:
  "effectiveDurationMs
     (zeroMediaHeader\<lparr>mh_TimeRange := \<lparr>tr_StartTicks = 0, tr_DurationTicks = 1001, tr_Timescale = 30\<rparr>\<rparr>)
   = 33367"
  by (subst segment_duration_exact)
    (simp_all add: time_range_ok_def zeroMediaHeader_def limits Let_def)

end
