(* ===== verification/Digest.thy ===== *)
theory Digest
  imports Sha256
begin

text \<open>
  Digests as text: \<open>encoding/hex\<close> and the digest functions of \<open>checkpoint.go\<close>. A digest is the
  list of its 32 bytes. The lemmas show that decoding inverts encoding, so that a digest that was
  saved is the digest that is compared later.
\<close>

section \<open>Hexadecimal text\<close>

definition hex_digit :: "nat \<Rightarrow> char" where
  "hex_digit n = char_of (if n < 10 then 48 + n else 87 + n)"

definition hex_EncodeToString :: "byte list \<Rightarrow> string" where
  "hex_EncodeToString bs = concat (map (\<lambda>b. [hex_digit (unat b div 16), hex_digit (unat b mod 16)]) bs)"

definition from_hex :: "char \<Rightarrow> nat option" where
  "from_hex c =
     (let n = (of_char c :: nat)
      in if 48 \<le> n \<and> n \<le> 57 then Some (n - 48)
         else if 97 \<le> n \<and> n \<le> 102 then Some (n - 87)
         else if 65 \<le> n \<and> n \<le> 70 then Some (n - 55)
         else None)"

text \<open>\<open>None\<close> is an error: a byte that is no digit, or an odd length.\<close>

fun hex_DecodeString :: "string \<Rightarrow> byte list option" where
  "hex_DecodeString [] = Some []"
| "hex_DecodeString [c] = None"
| "hex_DecodeString (c # d # s) =
     (case (from_hex c, from_hex d) of
        (Some x, Some y) \<Rightarrow> map_option (\<lambda>bs. word_of_nat (16 * x + y) # bs) (hex_DecodeString s)
      | _ \<Rightarrow> None)"

section \<open>Digests\<close>

definition maxCheckpointDigestHexBytes :: nat where "maxCheckpointDigestHexBytes = 64"

definition encodeDigest :: "byte list \<Rightarrow> string" where
  "encodeDigest digest = hex_EncodeToString digest"

definition decodeDigest :: "string \<Rightarrow> byte list res" where
  "decodeDigest encoded =
     (if length encoded \<noteq> maxCheckpointDigestHexBytes then Inl ErrCheckpointInvalid
      else (case hex_DecodeString encoded of
              None \<Rightarrow> Inl ErrCheckpointInvalid
            | Some raw \<Rightarrow> if length raw \<noteq> 32 then Inl ErrCheckpointInvalid else Inr raw))"

definition hashUstreamerConfig :: "byte list \<Rightarrow> string" where
  "hashUstreamerConfig config = hex_EncodeToString (Sum256 config)"

section \<open>Decoding inverts encoding\<close>

lemma from_hex_digit: "n < 16 \<Longrightarrow> from_hex (hex_digit n) = Some n"
  by (simp add: from_hex_def hex_digit_def Let_def)

lemma length_hex_EncodeToString [simp]: "length (hex_EncodeToString bs) = 2 * length bs"
  by (induction bs) (simp_all add: hex_EncodeToString_def)

lemma hex_Decode_Encode [simp]: "hex_DecodeString (hex_EncodeToString bs) = Some bs"
proof (induction bs)
  case (Cons b bs)
  have "unat b div 16 < 16"
    using unsigned_less [of b, where 'a = nat] by (simp add: less_mult_imp_div_less)
  moreover have "word_of_nat (16 * (unat b div 16) + unat b mod 16) = b"
    by simp
  ultimately show ?case
    using Cons by (simp add: hex_EncodeToString_def from_hex_digit)
qed (simp add: hex_EncodeToString_def)

lemma decode_encodeDigest: "length d = 32 \<Longrightarrow> decodeDigest (encodeDigest d) = Inr d"
  by (simp add: decodeDigest_def encodeDigest_def maxCheckpointDigestHexBytes_def)

lemma decodeDigest_length: "decodeDigest s = Inr d \<Longrightarrow> length d = 32"
  by (auto simp: decodeDigest_def split: if_splits option.splits)

lemma hashUstreamerConfig_eq_iff: "hashUstreamerConfig a = hashUstreamerConfig b \<longleftrightarrow> Sum256 a = Sum256 b"
  unfolding hashUstreamerConfig_def by (metis hex_Decode_Encode option.inject)

lemma hashUstreamerConfig_text: "decodeDigest (hashUstreamerConfig c) = Inr (Sum256 c)"
  by (simp add: hashUstreamerConfig_def decode_encodeDigest [unfolded encodeDigest_def])

end
