(* ===== verification/Recovery.thy ===== *)
theory Recovery
  imports Request Proto Digest
begin

text \<open>
  Configuration of a download (\<open>Config\<close> of \<open>downloader.go\<close>), the retry policy (\<open>retry.go\<close>) and the refresh of
  signed material (\<open>recovery.go\<close>). The callbacks of \<open>Config\<close> are operations of the environment of
  the download loop and not fields here; \<open>time.Duration\<close> is a number of nanoseconds. The text of an error is not modelled, so neither
  is the URL it quotes.
\<close>

section \<open>Configuration\<close>

type_synonym TrackKind = string

definition TrackAudio :: TrackKind where "TrackAudio = ''audio''"
definition TrackVideo :: TrackKind where "TrackVideo = ''video''"

record Config =
  cfg_Headers :: "(string \<times> string list) list"
  cfg_UserAgent :: string
  cfg_AcceptLanguage :: string
  cfg_ServerURL :: string
  cfg_UstreamerConfig :: "byte list"
  cfg_Format :: FormatID
  cfg_TrackKind :: TrackKind
  cfg_ClientInfo :: ClientInfo
  cfg_VideoID :: string
  cfg_VisitorData :: string
  cfg_POToken :: "byte list"
  cfg_DrcEnabled :: bool
  cfg_AudioTrackID :: string
  cfg_DurationSec :: i64
  cfg_MaxBytes :: i64
  cfg_MaxRounds :: int
  cfg_Attempts :: int
  cfg_RetryBaseDelay :: i64
  cfg_RetryMaxDelay :: i64
  cfg_RetainCompletionMarker :: bool
  cfg_MaxSabrErrorRecoveries :: int
  cfg_MaxReloadAttempts :: int
  cfg_MaxRefreshAttempts :: int

section \<open>Retries\<close>

fun isRetryable :: "error \<Rightarrow> bool" where
  "isRetryable (Retryable e) = True"
| "isRetryable (Joined e1 e2) \<longleftrightarrow> isRetryable e1 \<or> isRetryable e2"
| "isRetryable e = False"

fun delay_loop :: "nat \<Rightarrow> i64 \<Rightarrow> i64 \<Rightarrow> i64" where
  "delay_loop 0 base mx = base"
| "delay_loop (Suc n) base mx =
     (if base \<ge> mx \<or> base > go_div mx 2 then mx else delay_loop n (wrap64 (base * 2)) mx)"

definition retryDelay :: "Config \<Rightarrow> int \<Rightarrow> i64" where
  "retryDelay config attempt =
     (let base = (if cfg_RetryBaseDelay config \<le> 0 then 25000000 else cfg_RetryBaseDelay config);
          mx = (if cfg_RetryMaxDelay config \<le> 0 then 1000000000 else cfg_RetryMaxDelay config)
      in if base > mx then mx else delay_loop (nat (attempt - 1)) base mx)"

definition recoveryBackoff :: "Config \<Rightarrow> int \<Rightarrow> i64" where
  "recoveryBackoff config attempt = retryDelay config attempt"

record 's http_response =
  resp_StatusCode :: int
  resp_Header :: http_header
  resp_Body :: 's

definition header_Get :: "http_header \<Rightarrow> string \<Rightarrow> string" where
  "header_Get h key = (case header_values h (CanonicalHeaderKey key) of [] \<Rightarrow> [] | v # _ \<Rightarrow> v)"

definition RetryableStatus :: "int \<Rightarrow> bool" where
  "RetryableStatus code \<longleftrightarrow> code = 408 \<or> code = 429 \<or> (code \<ge> 500 \<and> code < 600)"

definition requestFailure :: "error \<Rightarrow> error" where
  "requestFailure err = Joined ErrDownloadFailed err"

definition responseFailure :: "int \<Rightarrow> error" where
  "responseFailure status = (if RetryableStatus status then Retryable ErrDownloadFailed else ErrDownloadFailed)"

definition redirectFailure :: error where
  "redirectFailure = ErrRedirect"

definition isRedirectResponse :: "'s http_response \<Rightarrow> bool" where
  "isRedirectResponse r =
     (if resp_StatusCode r \<in> {301, 302, 303, 307, 308} then header_Get (resp_Header r) ''Location'' \<noteq> []
      else False)"

section \<open>Refreshed material\<close>

record ReloadRequest =
  rr_VideoID :: string
  rr_ClientName :: i32
  rr_ClientVer :: string
  rr_VisitorData :: string
  rr_TrackKind :: TrackKind
  rr_Format :: FormatID
  rr_Token :: string

text \<open>A \<open>nil\<close> PO token is \<open>None\<close>.\<close>

record RefreshMaterial =
  rm_ServerURL :: string
  rm_UstreamerConfig :: "byte list"
  rm_POToken :: "byte list option"
  rm_Format :: FormatID
  rm_ClientInfo :: ClientInfo
  rm_VisitorData :: string
  rm_DurationSec :: i64
  rm_UserAgent :: string
  rm_DrcEnabled :: bool
  rm_AudioTrackID :: string
  rm_VideoID :: string

definition material_validate :: "RefreshMaterial \<Rightarrow> Config \<Rightarrow> unit res" where
  "material_validate m config =
     (if rm_VideoID m = [] \<or> rm_VideoID m \<noteq> cfg_VideoID config then Inl ErrRefreshRejected
      else if rm_DurationSec m = 0 \<or> rm_DurationSec m \<noteq> cfg_DurationSec config then Inl ErrRefreshRejected
      else if ci_ClientName (rm_ClientInfo m) = 0 \<or>
        ci_ClientName (rm_ClientInfo m) \<noteq> ci_ClientName (cfg_ClientInfo config) then Inl ErrRefreshRejected
      else if ci_ClientVersion (rm_ClientInfo m) = [] \<or>
        ci_ClientVersion (rm_ClientInfo m) \<noteq> ci_ClientVersion (cfg_ClientInfo config)
        then Inl ErrRefreshRejected
      else if cfg_VisitorData config \<noteq> [] \<and> rm_VisitorData m \<noteq> cfg_VisitorData config
        then Inl ErrRefreshRejected
      else if fid_Itag (rm_Format m) = 0 \<or> fid_Itag (rm_Format m) \<noteq> fid_Itag (cfg_Format config)
        then Inl ErrRefreshRejected
      else if isl (formatIdentityConflicts (cfg_Format config) (rm_Format m)) then Inl ErrRefreshRejected
      else if rm_DrcEnabled m \<noteq> cfg_DrcEnabled config then Inl ErrRefreshRejected
      else if rm_AudioTrackID m \<noteq> cfg_AudioTrackID config then Inl ErrRefreshRejected
      else if length (rm_UstreamerConfig m) = 0 \<or>
        hashUstreamerConfig (rm_UstreamerConfig m) \<noteq> hashUstreamerConfig (cfg_UstreamerConfig config)
        then Inl ErrRefreshRejected
      else if rm_ServerURL m = [] then Inl ErrRefreshRejected
      else if isl (ValidateSABRURL (rm_ServerURL m)) then Inl ErrRefreshRejected
      else Inr ())"

definition applyRefreshMaterial :: "Config \<Rightarrow> RefreshMaterial \<Rightarrow> (Config \<times> redirectTracker) res" where
  "applyRefreshMaterial config m =
     bind_res (material_validate m config) (\<lambda>_.
       let config = config\<lparr>cfg_ServerURL := rm_ServerURL m, cfg_UstreamerConfig := rm_UstreamerConfig m\<rparr>;
           config = (case rm_POToken m of Some t \<Rightarrow> config\<lparr>cfg_POToken := t\<rparr> | None \<Rightarrow> config);
           merged = cfg_Format config;
           merged = (if fid_LastModified (rm_Format m) \<noteq> 0
                     then merged\<lparr>fid_LastModified := fid_LastModified (rm_Format m)\<rparr> else merged);
           merged = (if fid_XTags (rm_Format m) \<noteq> []
                     then merged\<lparr>fid_XTags := fid_XTags (rm_Format m)\<rparr> else merged);
           config = config\<lparr>cfg_Format := merged, cfg_ClientInfo := rm_ClientInfo m\<rparr>;
           config = (if rm_VisitorData m \<noteq> [] then config\<lparr>cfg_VisitorData := rm_VisitorData m\<rparr> else config);
           config = (if rm_UserAgent m \<noteq> [] then config\<lparr>cfg_UserAgent := rm_UserAgent m\<rparr> else config)
       in Inr (config, newRedirectTracker (cfg_ServerURL config)))"

section \<open>The delay in closed form\<close>

lemma delay_loop_exact:
  "0 < base \<Longrightarrow> base \<le> mx \<Longrightarrow> mx \<le> MaxInt64 \<Longrightarrow> delay_loop n base mx = min (base * 2 ^ n) mx"
proof (induction n arbitrary: base)
  case 0
  then show ?case by simp
next
  case (Suc n)
  have half: "base \<ge> mx \<or> base > go_div mx 2 \<longleftrightarrow> mx < base * 2 \<or> base = mx"
    using Suc.prems by (auto simp: go_div_pos)
  show ?case
  proof (cases "mx < base * 2 \<or> base = mx")
    case True
    have "mx \<le> base * 2 * 1"
      using True Suc.prems by auto
    also have "base * 2 * 1 \<le> base * 2 * 2 ^ n"
      using Suc.prems by (intro mult_left_mono) auto
    finally have "mx \<le> base * 2 ^ Suc n"
      by simp
    with True half show ?thesis
      by (simp add: min_def del: power_Suc)
  next
    case False
    then have "wrap64 (base * 2) = base * 2"
      using Suc.prems by (simp add: in_i64_def limits)
    with False half Suc show ?thesis
      by (simp add: algebra_simps)
  qed
qed

section \<open>What a refresh changes\<close>

lemma material_validate_Inr:
  assumes "material_validate m c = Inr ()"
  shows "rm_VideoID m = cfg_VideoID c" "rm_DurationSec m = cfg_DurationSec c"
    "ci_ClientName (rm_ClientInfo m) = ci_ClientName (cfg_ClientInfo c)"
    "ci_ClientVersion (rm_ClientInfo m) = ci_ClientVersion (cfg_ClientInfo c)"
    "cfg_VisitorData c \<noteq> [] \<Longrightarrow> rm_VisitorData m = cfg_VisitorData c"
    "fid_Itag (rm_Format m) = fid_Itag (cfg_Format c)"
    "formatIdentityConflicts (cfg_Format c) (rm_Format m) = Inr ()"
    "hashUstreamerConfig (rm_UstreamerConfig m) = hashUstreamerConfig (cfg_UstreamerConfig c)"
    "\<exists>u. ValidateSABRURL (rm_ServerURL m) = Inr u"
  using assms
  by (cases "ValidateSABRURL (rm_ServerURL m)"; cases "formatIdentityConflicts (cfg_Format c) (rm_Format m)";
      simp add: material_validate_def split: if_split_asm)+

lemma applyRefreshMaterial_Inr:
  assumes "applyRefreshMaterial c m = Inr (c', t)"
  shows "material_validate m c = Inr ()" "t = newRedirectTracker (rm_ServerURL m)"
    "c' = c\<lparr>cfg_ServerURL := rm_ServerURL m, cfg_UstreamerConfig := rm_UstreamerConfig m,
       cfg_POToken := (case rm_POToken m of None \<Rightarrow> cfg_POToken c | Some tok \<Rightarrow> tok),
       cfg_Format := (cfg_Format c)
         \<lparr>fid_LastModified := (if fid_LastModified (rm_Format m) \<noteq> 0 then fid_LastModified (rm_Format m)
                              else fid_LastModified (cfg_Format c)),
          fid_XTags := (if fid_XTags (rm_Format m) \<noteq> [] then fid_XTags (rm_Format m)
                        else fid_XTags (cfg_Format c))\<rparr>,
       cfg_ClientInfo := rm_ClientInfo m,
       cfg_VisitorData := (if rm_VisitorData m \<noteq> [] then rm_VisitorData m else cfg_VisitorData c),
       cfg_UserAgent := (if rm_UserAgent m \<noteq> [] then rm_UserAgent m else cfg_UserAgent c)\<rparr>"
  using assms by (auto simp: applyRefreshMaterial_def bind_res_Inr_iff Let_def split: option.split)

section \<open>Properties\<close>

text \<open>
  The delay before a retry is exponential and capped: the base delay doubled once per earlier
  attempt, or the maximal delay where that is smaller; no attempt number makes it overflow.
\<close>

theorem retry_delay_is_capped_exponential:
  assumes "in_i64 (cfg_RetryBaseDelay config)" and "in_i64 (cfg_RetryMaxDelay config)" and "1 \<le> attempt"
  shows "retryDelay config attempt =
    (let base = (if cfg_RetryBaseDelay config \<le> 0 then 25000000 else cfg_RetryBaseDelay config);
         mx = (if cfg_RetryMaxDelay config \<le> 0 then 1000000000 else cfg_RetryMaxDelay config)
     in min (base * 2 ^ nat (attempt - 1)) mx)"
proof -
  define base mx where b: "base = (if cfg_RetryBaseDelay config \<le> 0 then 25000000 else cfg_RetryBaseDelay config)"
    and m: "mx = (if cfg_RetryMaxDelay config \<le> 0 then 1000000000 else cfg_RetryMaxDelay config)"
  have pos: "0 < base" "mx \<le> MaxInt64"
    using assms(2) by (auto simp: b m in_i64_def limits)
  have "base * 1 \<le> base * 2 ^ nat (attempt - 1)"
    using pos(1) by (intro mult_left_mono) auto
  then have "mx < base \<Longrightarrow> min (base * 2 ^ nat (attempt - 1)) mx = mx"
    by (simp add: min_def)
  then show ?thesis
    using pos delay_loop_exact [of base mx "nat (attempt - 1)"]
    by (auto simp: retryDelay_def Let_def simp flip: b m)
qed


definition sample_config :: Config where
  "sample_config = \<lparr>cfg_Headers = [], cfg_UserAgent = [], cfg_AcceptLanguage = [],
     cfg_ServerURL = ''https://a.googlevideo.com/v'', cfg_UstreamerConfig = [1],
     cfg_Format = \<lparr>fid_Itag = 140, fid_LastModified = 0, fid_XTags = []\<rparr>, cfg_TrackKind = TrackAudio,
     cfg_ClientInfo = \<lparr>ci_ClientName = 1, ci_ClientVersion = ''2.1'', ci_OSName = [], ci_OSVersion = [],
       ci_DeviceMake = [], ci_DeviceModel = [], ci_AcceptLanguage = []\<rparr>,
     cfg_VideoID = ''abc'', cfg_VisitorData = [], cfg_POToken = [], cfg_DrcEnabled = False,
     cfg_AudioTrackID = [], cfg_DurationSec = 5, cfg_MaxBytes = 0, cfg_MaxRounds = 0, cfg_Attempts = 0,
     cfg_RetryBaseDelay = 0, cfg_RetryMaxDelay = 0, cfg_RetainCompletionMarker = False,
     cfg_MaxSabrErrorRecoveries = 0, cfg_MaxReloadAttempts = 0, cfg_MaxRefreshAttempts = 0\<rparr>"

theorem retry_delay_is_capped_exponential_witness:
  "retryDelay sample_config 4 = 200000000 \<and> retryDelay sample_config 40 = 1000000000"
proof -
  have "in_i64 (cfg_RetryBaseDelay sample_config)" "in_i64 (cfg_RetryMaxDelay sample_config)"
    by (simp_all add: sample_config_def in_i64_def limits)
  from retry_delay_is_capped_exponential [OF this, of 4] retry_delay_is_capped_exponential [OF this, of 40]
  show ?thesis by (simp add: sample_config_def)
qed


end
