(* ===== verification/Varint.thy ===== *)
theory Varint
  imports Integers
begin

unbundle bit_operations_syntax

text \<open>
  The variable-length integers of UMP framing, \<open>varint.go\<close>: the length is announced by the
  leading one bits of the first byte, the remaining bytes follow in little-endian order. The decoder
  re-encodes what it read and rejects any other spelling of the value. The lemmas show that
  encoder and decoder are inverse on values below \<open>2 ^ 32\<close>, that nothing else is accepted, and that
  the encoding is prefix-free.
\<close>

section \<open>Encoder and decoder\<close>

fun ump_size_loop :: "byte \<Rightarrow> nat \<Rightarrow> nat \<Rightarrow> nat" where
  "ump_size_loop prefix 0 sz = sz"
| "ump_size_loop prefix (Suc i) sz =
     (if prefix AND push_bit (Suc i) 1 = 0 then sz else ump_size_loop prefix i (sz + 1))"

definition umpVarintSize :: "byte \<Rightarrow> nat" where
  "umpVarintSize prefix = (let sz = ump_size_loop prefix 7 1 in if sz > 5 then 5 else sz)"

definition encodeUMPVarint :: "u64 \<Rightarrow> byte list \<times> nat" where
  "encodeUMPVarint v =
     (if v \<le> 0x7F then ([ucast v], 1)
      else if v \<le> 0x3FFF then
        ([ucast (0x80 OR (v AND 0x3F)), ucast (drop_bit 6 v)], 2)
      else if v \<le> 0x1FFFFF then
        ([ucast (0xC0 OR (v AND 0x1F)), ucast (drop_bit 5 v AND 0xFF), ucast (drop_bit 13 v)], 3)
      else if v \<le> 0x0FFFFFFF then
        ([ucast (0xE0 OR (v AND 0x0F)), ucast (drop_bit 4 v AND 0xFF),
          ucast (drop_bit 12 v AND 0xFF), ucast (drop_bit 20 v)], 4)
      else
        ([0xF0, ucast v, ucast (drop_bit 8 v), ucast (drop_bit 16 v), ucast (drop_bit 24 v)], 5))"

fun ump_value_loop :: "byte list \<Rightarrow> nat \<Rightarrow> u64 \<Rightarrow> u64" where
  "ump_value_loop [] shift v = v"
| "ump_value_loop (b # bs) shift v = ump_value_loop bs (shift + 8) (v OR push_bit shift (ucast b))"

definition ump_value :: "byte list \<Rightarrow> nat \<Rightarrow> u64" where
  "ump_value data sz =
     (if sz = 5 then ump_value_loop (take 4 (drop 1 data)) 0 0
      else ump_value_loop (take (sz - 1) (drop 1 data)) (8 - sz)
             (ucast (hd data AND (push_bit (8 - sz) 1 - 1))))"

definition readUMPVarint :: "byte list \<Rightarrow> (u64 \<times> nat) res" where
  "readUMPVarint data =
     (case data of
        [] \<Rightarrow> Inl ErrTruncatedStream
      | prefix # _ \<Rightarrow>
          let sz = umpVarintSize prefix
          in if length data < sz then Inl ErrTruncatedStream
             else if sz = 5 \<and> prefix AND 0x07 \<noteq> 0 then Inl ErrNonCanonicalVarint
             else let v = ump_value data sz; (encoded, encSize) = encodeUMPVarint v
                  in if encSize \<noteq> sz then Inl ErrNonCanonicalVarint
                     else if take sz data \<noteq> take sz encoded then Inl ErrNonCanonicalVarint
                     else Inr (v, sz))"

section \<open>Sizes\<close>

lemma ump_size_loop_bit:
  "ump_size_loop b (Suc i) sz = (if bit b (Suc i) then ump_size_loop b i (sz + 1) else sz)"
  using bit_iff_and_push_bit_not_eq_0 [of b "Suc i"] by simp

lemma umpVarintSize_bits:
  "umpVarintSize b =
     (if \<not> bit b 7 then 1 else if \<not> bit b 6 then 2 else if \<not> bit b 5 then 3
      else if \<not> bit b 4 then 4 else 5)"
  by (simp add: umpVarintSize_def numeral_eq_Suc Let_def ump_size_loop_bit del: ump_size_loop.simps(2))

lemma umpVarintSize_range: "1 \<le> umpVarintSize b" "umpVarintSize b \<le> 5"
  by (simp_all add: umpVarintSize_bits)

lemma encodeUMPVarint_length: "length (fst (encodeUMPVarint v)) = snd (encodeUMPVarint v)"
  by (simp add: encodeUMPVarint_def)

lemma encodeUMPVarint_size: "1 \<le> snd (encodeUMPVarint v)" "snd (encodeUMPVarint v) \<le> 5"
  by (simp_all add: encodeUMPVarint_def)

section \<open>Round trip\<close>

lemma uint_mask_le: "uint (mask n :: u64) \<le> mask n"
proof -
  have "uint (mask n :: u64) = take_bit 64 (mask n)"
    unfolding of_int_mask_eq [symmetric, where 'a = u64] by (simp add: unsigned_of_int)
  also have "\<dots> \<le> mask n"
    by (rule take_bit_int_less_eq_self_iff [THEN iffD2]) simp
  finally show ?thesis .
qed

lemma take_bit_self_of_le_mask:
  assumes "v \<le> mask n"
  shows "take_bit n v = (v :: u64)"
proof (rule word_uint_eqI)
  have "uint v \<le> mask n"
    using assms uint_mask_le [of n] by (simp add: word_le_def)
  then show "uint (take_bit n v) = uint v"
    by (simp add: unsigned_take_bit_eq mask_eq_exp_minus_1 take_bit_int_eq_self)
qed

lemma masks64:
  "(0x7F :: u64) = mask 7" "(0x3FFF :: u64) = mask 14" "(0x1FFFFF :: u64) = mask 21"
  "(0x0FFFFFFF :: u64) = mask 28" "(0x3F :: u64) = mask 6" "(0x1F :: u64) = mask 5"
  "(0x0F :: u64) = mask 4" "(0xFF :: u64) = mask 8"
  by (simp_all add: mask_eq_exp_minus_1)

text \<open>A byte read back as a word keeps the low eight bits; consecutive groups of bits join up.\<close>

lemma ucast_ucast_byte: "ucast (ucast w :: byte) = take_bit 8 (w :: u64)"
  by (rule bit_eqI) (simp add: bit_simps)

lemma or_take_bit_step:
  "take_bit k v OR push_bit k (take_bit m (drop_bit k v)) = take_bit (k + m) (v :: u64)"
  by (rule bit_eqI) (auto simp: bit_simps)

lemma low_bits_of_prefix:
  assumes "k \<le> 8" and "take_bit k hi = 0"
  shows "ucast (take_bit k (ucast (hi OR take_bit k v) :: byte)) = take_bit k (v :: u64)"
  using assms by (simp add: unsigned_take_bit_eq ucast_ucast_byte take_bit_or min_def)

lemma prefix_sizes:
  "umpVarintSize (ucast (take_bit 7 v :: u64)) = 1"
  "umpVarintSize (ucast (0x80 OR take_bit 6 v :: u64)) = 2"
  "umpVarintSize (ucast (0xC0 OR take_bit 5 v :: u64)) = 3"
  "umpVarintSize (ucast (0xE0 OR take_bit 4 v :: u64)) = 4"
  "umpVarintSize 0xF0 = 5"
  by (simp_all add: umpVarintSize_bits bit_simps)

lemma byte_masks:
  "x AND 127 = take_bit 7 (x :: byte)" "x AND 63 = take_bit 6 x" "x AND 31 = take_bit 5 x"
  "x AND 15 = take_bit 4 x"
  by (simp_all add: take_bit_eq_mask mask_eq_exp_minus_1)

text \<open>The encoder's groups, with the masks written as truncations.\<close>

lemma encodeUMPVarint_groups:
  "encodeUMPVarint v =
     (if v \<le> mask 7 then ([ucast (take_bit 7 v)], 1)
      else if v \<le> mask 14 then ([ucast (0x80 OR take_bit 6 v), ucast (drop_bit 6 v)], 2)
      else if v \<le> mask 21 then
        ([ucast (0xC0 OR take_bit 5 v), ucast (drop_bit 5 v), ucast (drop_bit 13 v)], 3)
      else if v \<le> mask 28 then
        ([ucast (0xE0 OR take_bit 4 v), ucast (drop_bit 4 v), ucast (drop_bit 12 v),
          ucast (drop_bit 20 v)], 4)
      else ([0xF0, ucast v, ucast (drop_bit 8 v), ucast (drop_bit 16 v), ucast (drop_bit 24 v)], 5))"
proof -
  have "ucast (take_bit 8 w) = (ucast w :: byte)" for w :: u64
    by (rule bit_eqI) (simp add: bit_simps)
  then show ?thesis
    unfolding encodeUMPVarint_def masks64
    by (simp add: take_bit_self_of_le_mask flip: take_bit_eq_mask)
qed

lemma ump_value_encode:
  assumes "v \<le> mask 32" and "encodeUMPVarint v = (bs, sz)"
  shows "ump_value (bs @ rest) sz = v"
proof -
  have step: "take_bit k v OR push_bit k (take_bit 8 (drop_bit k v)) = take_bit (k + 8) v" for k
    by (rule or_take_bit_step)
  have one: "ucast (take_bit 7 (ucast v :: byte)) = take_bit 7 v"
    by (rule bit_eqI) (auto simp: bit_simps)
  show ?thesis
    using assms
    by (auto simp: encodeUMPVarint_groups ump_value_def byte_masks low_bits_of_prefix one
        ucast_ucast_byte step [of 4] step [of 5] step [of 6] step [of 8] step [of 12] step [of 13]
        step [of 16] step [of 20] step [of 24] take_bit_self_of_le_mask
        split: if_splits)
qed

lemma readUMPVarint_encode:
  assumes "v \<le> mask 32"
  shows "readUMPVarint (fst (encodeUMPVarint v) @ rest) = Inr (v, snd (encodeUMPVarint v))"
proof -
  obtain bs sz where e: "encodeUMPVarint v = (bs, sz)" by fastforce
  then have len: "length bs = sz" and "bs \<noteq> []"
    using encodeUMPVarint_length [of v] encodeUMPVarint_size [of v] by auto
  then obtain b bs' where bs: "bs = b # bs'" by (cases bs) auto
  have sz: "umpVarintSize b = sz" and ok: "\<not> (sz = 5 \<and> b AND 0x07 \<noteq> 0)"
    using e bs by (auto simp: encodeUMPVarint_groups prefix_sizes split: if_splits)
  have "ump_value (b # bs' @ rest) sz = v"
    using ump_value_encode [OF assms e, of rest] bs by simp
  with e bs len sz ok show ?thesis
    by (auto simp: readUMPVarint_def Let_def)
qed

lemma le_mask32_of_take_bit: "take_bit 32 v = v \<Longrightarrow> (v :: u64) \<le> mask 32"
proof -
  assume v: "take_bit 32 v = v"
  have "uint v = take_bit 32 (uint v)"
    by (subst v [symmetric]) (simp add: unsigned_take_bit_eq)
  then have "uint v < 4294967296"
    using take_bit_int_less_exp [of 32 "uint v"] by simp
  then show ?thesis
    by (simp add: word_le_def mask_eq_exp_minus_1)
qed

lemma bit_byte_less: "bit (b :: byte) n \<Longrightarrow> n < 8"
  using bit_imp_le_length [of b n] by simp

lemma take_bit_32_group:
  "k \<le> 24 \<Longrightarrow> take_bit 32 (push_bit k (ucast (b :: byte) :: u64)) = push_bit k (ucast b)"
  by (rule bit_eqI) (auto simp: bit_simps dest: bit_byte_less)

lemma ump_value_5_le:
  assumes "5 \<le> length data"
  shows "ump_value data 5 \<le> mask 32"
proof -
  obtain a b c d e rest where "data = a # b # c # d # e # rest"
    using assms by (auto simp: Suc_le_length_iff numeral_eq_Suc)
  then have "take_bit 32 (ump_value data 5) = ump_value data 5"
    using take_bit_32_group [of 0 b]
    by (simp add: ump_value_def take_bit_or take_bit_32_group)
  then show ?thesis
    by (rule le_mask32_of_take_bit)
qed

lemma readUMPVarint_Inr:
  assumes "readUMPVarint data = Inr (v, n)"
  shows "v \<le> mask 32" "n = snd (encodeUMPVarint v)" "\<exists>rest. data = fst (encodeUMPVarint v) @ rest"
proof -
  obtain enc sz where e: "encodeUMPVarint v = (enc, sz)" by fastforce
  then have len: "length enc = sz"
    using encodeUMPVarint_length [of v] by simp
  have d: "n = sz" "sz \<le> length data" "take sz data = enc" "ump_value data sz = v"
    using assms e len
    by (auto simp: readUMPVarint_def Let_def split: list.splits if_splits prod.splits)
  show "n = snd (encodeUMPVarint v)"
    using d e by simp
  show "\<exists>rest. data = fst (encodeUMPVarint v) @ rest"
    using d e by (metis append_take_drop_id fst_conv)
  show "v \<le> mask 32"
  proof (cases "sz = 5")
    case True
    then show ?thesis
      using d ump_value_5_le [of data] by simp
  next
    case False
    with e have "v \<le> mask 28"
      by (auto simp: encodeUMPVarint_groups mask_eq_exp_minus_1 word_le_def split: if_splits)
    then show ?thesis
      by (simp add: mask_eq_exp_minus_1 word_le_def)
  qed
qed

theorem readUMPVarint_iff:
  "readUMPVarint data = Inr (v, n) \<longleftrightarrow>
     v \<le> mask 32 \<and> n = snd (encodeUMPVarint v) \<and> (\<exists>rest. data = fst (encodeUMPVarint v) @ rest)"
  using readUMPVarint_Inr readUMPVarint_encode by metis

lemma readUMPVarint_size: "readUMPVarint bs = Inr (v, n) \<Longrightarrow> 1 \<le> n \<and> n \<le> length bs"
  using encodeUMPVarint_length [of v] encodeUMPVarint_size [of v]
  by (auto simp: readUMPVarint_iff)

section \<open>Properties\<close>

text \<open>
  The UMP varint reader accepts exactly the canonical encodings of the values below \<open>2 ^ 32\<close>,
  whatever follows them, and consumes the whole encoding, one to five bytes; everything else is an
  error.
\<close>

theorem ump_varint_reader_inverts_encoder:
  "readUMPVarint bs = Inr (v, n) \<longleftrightarrow>
     uint v < 2 ^ 32 \<and> 1 \<le> n \<and> n \<le> 5 \<and> encodeUMPVarint v = (take n bs, n)"
proof -
  have "uint v < 2 ^ 32 \<longleftrightarrow> v \<le> mask 32"
    by (simp add: word_le_def mask_eq_exp_minus_1) linarith
  moreover have "fst (encodeUMPVarint v) = take n bs"
    if "n = snd (encodeUMPVarint v)" "bs = fst (encodeUMPVarint v) @ rest" for rest
    using that encodeUMPVarint_length [of v] by simp
  moreover have "bs = take n bs @ drop n bs" by simp
  ultimately show ?thesis
    unfolding readUMPVarint_iff using encodeUMPVarint_size [of v]
    by (metis prod.collapse fst_conv snd_conv)
qed

end
