(* ===== verification/Assembler.thy ===== *)
theory Assembler
  imports Proto Varint Sha256
begin

text \<open>
  The track assembler of \<open>assembler.go\<close>: the state machine that turns the media parts of responses into the
  bytes of one track. Its file and its commit callback belong to the environment: a world \<open>'w\<close> and the
  operations of \<open>track_env\<close> on it. A method returns the assembler as it leaves it, also after an
  error, because the code mutates in place before it fails; the builders of open segments, which
  are shared by pointer, are the values of the map \<open>active\<close>.
\<close>

section \<open>State\<close>

type_synonym segmentDigest = "byte list"

record segmentBuilder =
  sb_header :: MediaHeader
  sb_data :: "byte list"
  sb_ended :: bool
  sb_selected :: bool

record 'w trackAssembler =
  ta_format :: FormatID
  ta_expectedDurationMs :: i64
  ta_file :: 'w
  ta_remaining :: i64
  ta_initWritten :: bool
  ta_initDigest :: segmentDigest
  ta_initLength :: i64
  ta_formatVerified :: bool
  ta_nextSequence :: u64
  ta_hasSequence :: bool
  ta_cumulativeMs :: i64
  ta_bufferedRanges :: "BufferedRange list"
  ta_active :: "(u32, segmentBuilder) fmap"
  ta_writtenSequences :: "(u64, segmentDigest) fmap"
  ta_segmentLengths :: "(u64, i64) fmap"
  ta_totalWritten :: i64
  ta_endOfTrackDone :: bool

text \<open>
  \<open>te_write\<close> is \<open>file.Write\<close> (bytes written, error), \<open>te_sync\<close> is \<open>file.Sync\<close>, and \<open>te_onCommit\<close> the callback,
  a closure over the assembler, if one is set.
\<close>

record 'w track_env =
  te_write :: "'w \<Rightarrow> byte list \<Rightarrow> 'w \<times> nat \<times> error option"
  te_sync :: "'w \<Rightarrow> 'w \<times> error option"
  te_onCommit :: "('w trackAssembler \<Rightarrow> 'w \<times> error option) option"

definition newTrackAssembler :: "FormatID \<Rightarrow> i64 \<Rightarrow> 'w \<Rightarrow> i64 \<Rightarrow> 'w trackAssembler" where
  "newTrackAssembler format expected file remaining =
     \<lparr>ta_format = format, ta_expectedDurationMs = expected, ta_file = file, ta_remaining = remaining,
      ta_initWritten = False, ta_initDigest = replicate 32 0, ta_initLength = 0,
      ta_formatVerified = False, ta_nextSequence = 0, ta_hasSequence = False, ta_cumulativeMs = 0,
      ta_bufferedRanges = [], ta_active = fmempty, ta_writtenSequences = fmempty,
      ta_segmentLengths = fmempty, ta_totalWritten = 0, ta_endOfTrackDone = False\<rparr>"

section \<open>Headers\<close>

definition validateMediaHeader :: "MediaHeader \<Rightarrow> unit res" where
  "validateMediaHeader h =
     (if mh_HeaderID h = 0 then Inl ErrInvalidMediaState
      else let itag = headerItag h
           in if itag = 0 then Inl ErrInvalidMediaState
              else if itag < 0 then Inl ErrVarintOverflow
              else if mh_ContentLength h < 0 then Inl ErrVarintOverflow
              else if mh_DurationMs h < 0 then Inl ErrVarintOverflow
              else Inr ())"

definition mediaHeaderPrefix :: "byte list \<Rightarrow> (u32 \<times> byte list) res" where
  "mediaHeaderPrefix payload =
     bind_res (readUMPVarint payload) (\<lambda>(v, n).
     bind_res (uint32FromUint64 v) (\<lambda>headerID. Inr (headerID, drop n payload)))"

definition mediaHeaderOnly :: "byte list \<Rightarrow> u32 res" where
  "mediaHeaderOnly payload =
     bind_res (readUMPVarint payload) (\<lambda>(v, n).
       if n \<noteq> length payload then Inl ErrInvalidMediaState else uint32FromUint64 v)"

definition hashSegment :: "byte list \<Rightarrow> segmentDigest" where
  "hashSegment bs = Sum256 bs"

definition isSelectedHeader :: "'w trackAssembler \<Rightarrow> MediaHeader \<Rightarrow> bool" where
  "isSelectedHeader a h =
     (let itag = headerItag h in if itag = 0 then False else itag = fid_Itag (ta_format a))"

section \<open>Writing\<close>

definition writeBytes :: "'w track_env \<Rightarrow> 'w trackAssembler \<Rightarrow> byte list \<Rightarrow> 'w trackAssembler \<times> error option" where
  "writeBytes env a bs =
     (if bs = [] then (a, None)
      else let (w, written, err) = te_write env (ta_file a) bs; a = a\<lparr>ta_file := w\<rparr>
           in (case err of
                 Some e \<Rightarrow> (a, Some e)
               | None \<Rightarrow>
                   if written \<noteq> length bs then (a, Some ErrShortWrite)
                   else (a\<lparr>ta_totalWritten := ta_totalWritten a + int written,
                           ta_remaining := ta_remaining a - int written\<rparr>, None)))"

definition commitProgress :: "'w track_env \<Rightarrow> 'w trackAssembler \<Rightarrow> 'w trackAssembler \<times> error option" where
  "commitProgress env a =
     (case te_onCommit env of
        None \<Rightarrow> (a, None)
      | Some onCommit \<Rightarrow>
          (case te_sync env (ta_file a) of
             (w, Some e) \<Rightarrow> (a\<lparr>ta_file := w\<rparr>, Some ErrDownloadFailed)
           | (w, None) \<Rightarrow>
               let a = a\<lparr>ta_file := w\<rparr>; (w, err) = onCommit a in (a\<lparr>ta_file := w\<rparr>, err)))"

section \<open>Parts\<close>

definition consumeFormatInit :: "'w trackAssembler \<Rightarrow> byte list \<Rightarrow> 'w trackAssembler \<times> error option" where
  "consumeFormatInit a payload =
     (case unmarshalFormatInitializationMetadata payload of
        Inl e \<Rightarrow> (a, Some e)
      | Inr meta \<Rightarrow>
          if fid_Itag (fim_FormatID meta) \<noteq> fid_Itag (ta_format a) then (a, None)
          else (case formatIdentityConflicts (ta_format a) (fim_FormatID meta) of
                  Inl e \<Rightarrow> (a, Some e)
                | Inr _ \<Rightarrow> (a\<lparr>ta_formatVerified := True\<rparr>, None)))"

text \<open>The sequence check of a selected media segment; it may start the sequence.\<close>

definition checkSequence :: "'w trackAssembler \<Rightarrow> MediaHeader \<Rightarrow> 'w trackAssembler res" where
  "checkSequence a h =
     (if fmlookup (ta_writtenSequences a) (mh_SequenceNumber h) \<noteq> None then Inr a
      else if ta_hasSequence a then
        (if mh_SequenceNumber h \<noteq> ta_nextSequence a then Inl ErrInvalidMediaState else Inr a)
      else if mh_SequenceNumber h \<noteq> 0 then Inl ErrInvalidMediaState
      else Inr (a\<lparr>ta_hasSequence := True, ta_nextSequence := 0\<rparr>))"

definition consumeHeader :: "'w trackAssembler \<Rightarrow> byte list \<Rightarrow> 'w trackAssembler \<times> error option" where
  "consumeHeader a payload =
     (case unmarshalMediaHeader payload of
        Inl e \<Rightarrow> (a, Some e)
      | Inr header \<Rightarrow>
          (case validateMediaHeader header of
             Inl e \<Rightarrow> (a, Some e)
           | Inr _ \<Rightarrow>
               if fmlookup (ta_active a) (mh_HeaderID header) \<noteq> None then (a, Some ErrInvalidMediaState)
               else let selected = isSelectedHeader a header
               in (case (if selected
                         then formatIdentityConflicts (ta_format a) (headerRepresentationID header)
                         else Inr ()) of
                     Inl e \<Rightarrow> (a, Some e)
                   | Inr _ \<Rightarrow>
                       if fcard (fmdom (ta_active a)) \<ge> MaxActiveHeaders then (a, Some ErrTooManyActiveHeaders)
                       else (case (if selected \<and> \<not> mh_IsInitSeg header then checkSequence a header
                                   else Inr a) of
                               Inl e \<Rightarrow> (a, Some e)
                             | Inr a \<Rightarrow>
                                 (a\<lparr>ta_active := fmupd (mh_HeaderID header)
                                     \<lparr>sb_header = header, sb_data = [], sb_ended = False,
                                      sb_selected = selected\<rparr> (ta_active a)\<rparr>, None)))))"

definition consumeMedia :: "'w trackAssembler \<Rightarrow> byte list \<Rightarrow> 'w trackAssembler \<times> error option" where
  "consumeMedia a payload =
     (case mediaHeaderPrefix payload of
        Inl e \<Rightarrow> (a, Some e)
      | Inr (headerID, rest) \<Rightarrow>
          (case fmlookup (ta_active a) headerID of
             None \<Rightarrow> (a, Some ErrInvalidMediaState)
           | Some segment \<Rightarrow>
               if sb_ended segment then (a, Some ErrInvalidMediaState)
               else if int (length (sb_data segment)) + int (length rest) > MaxMediaBytes
                    then (a, Some ErrOversizedPart)
               else (a\<lparr>ta_active := fmupd headerID (segment\<lparr>sb_data := sb_data segment @ rest\<rparr>)
                       (ta_active a)\<rparr>, None)))"

definition deleteActive :: "'w trackAssembler \<Rightarrow> u32 \<Rightarrow> 'w trackAssembler" where
  "deleteActive a headerID = a\<lparr>ta_active := fmdrop headerID (ta_active a)\<rparr>"

definition finalizeInit ::
    "'w track_env \<Rightarrow> 'w trackAssembler \<Rightarrow> u32 \<Rightarrow> byte list \<Rightarrow> 'w trackAssembler \<times> error option" where
  "finalizeInit env a headerID bs =
     (let digest = hashSegment bs
      in if ta_initWritten a then
           (if digest = ta_initDigest a \<and> int (length bs) = ta_initLength a
            then (deleteActive a headerID, None) else (a, Some ErrInvalidMediaState))
         else if ta_remaining a < int (length bs) then (a, Some ErrResponseTooLarge)
         else (case writeBytes env a bs of
                 (a, Some e) \<Rightarrow> (a, Some e)
               | (a, None) \<Rightarrow>
                   commitProgress env
                     (deleteActive (a\<lparr>ta_initWritten := True, ta_initDigest := digest,
                                      ta_initLength := int (length bs)\<rparr>) headerID)))"

definition finalizeMedia ::
    "'w track_env \<Rightarrow> 'w trackAssembler \<Rightarrow> u32 \<Rightarrow> MediaHeader \<Rightarrow> byte list \<Rightarrow>
      'w trackAssembler \<times> error option" where
  "finalizeMedia env a headerID header bs =
     (let digest = hashSegment bs
      in (case fmlookup (ta_writtenSequences a) (mh_SequenceNumber header) of
            Some prior \<Rightarrow>
              if prior \<noteq> digest then (a, Some ErrInvalidMediaState) else (deleteActive a headerID, None)
          | None \<Rightarrow>
              if ta_remaining a < int (length bs) then (a, Some ErrResponseTooLarge)
              else if \<not> ta_initWritten a then (a, Some ErrInvalidMediaState)
              else (case writeBytes env a bs of
                      (a, Some e) \<Rightarrow> (a, Some e)
                    | (a, None) \<Rightarrow>
                        let duration = effectiveDurationMs header
                        in (case int32SegmentIndex (mh_SequenceNumber header) of
                              Inl e \<Rightarrow> (a, Some e)
                            | Inr idx \<Rightarrow>
                                let cumulative = wrap64 (ta_cumulativeMs a + duration);
                                    range = \<lparr>br_FormatID = ta_format a,
                                      br_StartTimeMs = wrap64 (cumulative - duration),
                                      br_DurationMs = duration, br_StartSegmentIndex = idx,
                                      br_EndSegmentIndex = idx, br_TimeRange = mh_TimeRange header\<rparr>
                                in commitProgress env
                                     (deleteActive (a\<lparr>ta_cumulativeMs := cumulative,
                                        ta_bufferedRanges := ta_bufferedRanges a @ [range],
                                        ta_writtenSequences :=
                                          fmupd (mh_SequenceNumber header) digest (ta_writtenSequences a),
                                        ta_segmentLengths :=
                                          fmupd (mh_SequenceNumber header) (int (length bs))
                                            (ta_segmentLengths a),
                                        ta_nextSequence := mh_SequenceNumber header + 1,
                                        ta_hasSequence := True\<rparr>) headerID)))))"

definition finalizeSegment ::
    "'w track_env \<Rightarrow> 'w trackAssembler \<Rightarrow> byte list \<Rightarrow> 'w trackAssembler \<times> error option" where
  "finalizeSegment env a payload =
     (case mediaHeaderOnly payload of
        Inl e \<Rightarrow> (a, Some e)
      | Inr headerID \<Rightarrow>
          (case fmlookup (ta_active a) headerID of
             None \<Rightarrow> (a, Some ErrInvalidMediaState)
           | Some segment \<Rightarrow>
               if sb_ended segment then (a, Some ErrInvalidMediaState)
               else let a = a\<lparr>ta_active := fmupd headerID (segment\<lparr>sb_ended := True\<rparr>) (ta_active a)\<rparr>;
                        header = sb_header segment
               in if mh_ContentLength header > 0 \<and> int (length (sb_data segment)) \<noteq> mh_ContentLength header
                    then (a, Some ErrInvalidMediaState)
               else if \<not> sb_selected segment then (deleteActive a headerID, None)
               else if \<not> ta_formatVerified a then (a, Some ErrInvalidMediaState)
               else if \<not> mh_IsInitSeg header \<and> effectiveDurationMs header \<le> 0
                    then (a, Some ErrInvalidMediaState)
               else if mh_IsInitSeg header then finalizeInit env a headerID (sb_data segment)
               else finalizeMedia env a headerID header (sb_data segment)))"

text \<open>Parts are passed as type and payload.\<close>

definition assembler_consumePart ::
    "'w track_env \<Rightarrow> 'w trackAssembler \<Rightarrow> int \<Rightarrow> byte list \<Rightarrow> 'w trackAssembler \<times> error option" where
  "assembler_consumePart env a typ payload =
     (if isCriticalUnsupportedPart typ then (a, Some ErrUnsupportedDirective)
      else if \<not> isHandledPart typ then (a, Some ErrUnsupportedDirective)
      else if typ = PartFormatInitializationMetadata then consumeFormatInit a payload
      else if typ = PartMediaHeader then consumeHeader a payload
      else if typ = PartMedia then consumeMedia a payload
      else if typ = PartMediaEnd then finalizeSegment env a payload
      else (a, None))"

definition finishResponse :: "'w trackAssembler \<Rightarrow> unit res" where
  "finishResponse a = (if fmdom (ta_active a) \<noteq> {||} then Inl ErrTruncatedStream else Inr ())"

section \<open>Completion\<close>

definition trackComplete :: "'w trackAssembler \<Rightarrow> bool" where
  "trackComplete a =
     (if ta_endOfTrackDone a then True
      else if ta_expectedDurationMs a \<le> 0 then False
      else ta_initWritten a \<and> fmdom (ta_writtenSequences a) \<noteq> {||} \<and>
        ta_cumulativeMs a \<ge> ta_expectedDurationMs a)"

definition canCompleteByEndOfTrack :: "'w trackAssembler \<Rightarrow> bool" where
  "canCompleteByEndOfTrack a \<longleftrightarrow>
     ta_formatVerified a \<and> ta_initWritten a \<and> fmdom (ta_writtenSequences a) \<noteq> {||}"

definition applyEndOfTrackCompletion ::
    "'w track_env \<Rightarrow> 'w trackAssembler \<Rightarrow> 'w trackAssembler \<times> error option" where
  "applyEndOfTrackCompletion env a =
     (if \<not> canCompleteByEndOfTrack a then (a, Some ErrInvalidMediaState)
      else commitProgress env (a\<lparr>ta_endOfTrackDone := True\<rparr>))"

definition playbackState :: "'w trackAssembler \<Rightarrow> i64 \<times> BufferedRange list \<times> bool" where
  "playbackState a = (ta_cumulativeMs a, ta_bufferedRanges a, ta_formatVerified a)"

end
