(* ===== verification/TrackLog.thy ===== *)
theory TrackLog
  imports Assembler
begin

text \<open>
  What the assembler promises. The abstract state of a track is a log: the initialisation segment, if it has
  been written, and the media segments in order. \<open>assembled\<close> relates an assembler to its log: the
  file holds exactly the logged bytes, digests, lengths, buffered ranges and counters are those
  of the log, and the segments are numbered from zero without gaps. The locale \<open>track_world\<close> is what
  the assembler relies on: a successful write appends, and neither syncing nor the commit callback
  touches the track file. Under it every part either extends the log by at most one segment or leaves
  it alone.
\<close>

section \<open>The log of a track\<close>

record seg =
  seg_data :: "byte list"
  seg_ms :: i64
  seg_range :: TimeRange

definition log_bytes :: "byte list option \<Rightarrow> seg list \<Rightarrow> byte list" where
  "log_bytes init segs = (case init of None \<Rightarrow> [] | Some d \<Rightarrow> d) @ concat (map seg_data segs)"

definition log_ms :: "seg list \<Rightarrow> i64" where
  "log_ms segs = wrap64 (sum_list (map seg_ms segs))"

definition log_ranges :: "FormatID \<Rightarrow> seg list \<Rightarrow> BufferedRange list" where
  "log_ranges format segs =
     map (\<lambda>i. \<lparr>br_FormatID = format, br_StartTimeMs = log_ms (take i segs),
       br_DurationMs = seg_ms (segs ! i), br_StartSegmentIndex = int i, br_EndSegmentIndex = int i,
       br_TimeRange = seg_range (segs ! i)\<rparr>) [0..<length segs]"

definition log_table :: "(seg \<Rightarrow> 'b) \<Rightarrow> seg list \<Rightarrow> u64 \<Rightarrow> 'b option" where
  "log_table f segs k = (if unat k < length segs then Some (f (segs ! unat k)) else None)"

definition assembled ::
    "('w \<Rightarrow> byte list) \<Rightarrow> int \<Rightarrow> 'w trackAssembler \<Rightarrow> byte list option \<Rightarrow> seg list \<Rightarrow> bool" where
  "assembled content budget a init segs \<longleftrightarrow>
     content (ta_file a) = log_bytes init segs \<and>
     ta_initWritten a = (init \<noteq> None) \<and>
     (\<forall>d. init = Some d \<longrightarrow> ta_initDigest a = hashSegment d \<and> ta_initLength a = int (length d)) \<and>
     (segs \<noteq> [] \<longrightarrow> init \<noteq> None) \<and>
     fmlookup (ta_writtenSequences a) = log_table (\<lambda>s. hashSegment (seg_data s)) segs \<and>
     fmlookup (ta_segmentLengths a) = log_table (\<lambda>s. int (length (seg_data s))) segs \<and>
     (if ta_hasSequence a then ta_nextSequence a = word_of_nat (length segs) else segs = []) \<and>
     ta_cumulativeMs a = log_ms segs \<and>
     ta_bufferedRanges a = log_ranges (ta_format a) segs \<and>
     ta_totalWritten a = int (length (log_bytes init segs)) \<and>
     ta_remaining a = budget - ta_totalWritten a \<and> 0 \<le> ta_remaining a \<and>
     list_all (\<lambda>s. 0 < seg_ms s) segs \<and>
     int (length segs) \<le> MaxInt32 + 1"

text \<open>The open media segments of the track are the next one of the log or repetitions of old ones.\<close>

definition open_ok :: "'w trackAssembler \<Rightarrow> seg list \<Rightarrow> bool" where
  "open_ok a segs \<longleftrightarrow>
     (\<forall>h b. fmlookup (ta_active a) h = Some b \<longrightarrow> sb_selected b \<longrightarrow> \<not> mh_IsInitSeg (sb_header b) \<longrightarrow>
        unat (mh_SequenceNumber (sb_header b)) \<le> length segs)"

section \<open>Facts about logs\<close>

lemma log_bytes_init: "log_bytes (Some d) [] = d" "log_bytes None [] = []"
  by (simp_all add: log_bytes_def)

lemma log_bytes_snoc: "log_bytes init (segs @ [s]) = log_bytes init segs @ seg_data s"
  by (simp add: log_bytes_def)

lemma wrap64_add: "wrap64 (wrap64 x + y) = wrap64 (x + y)"
proof -
  have "take_bit 64 (take_bit 64 z + y) = take_bit 64 (z + y)" for z :: int
    by (simp add: take_bit_eq_mod mod_simps)
  from this [of "x + 9223372036854775808"] show ?thesis
    by (simp add: wrap64_def signed_take_bit_eq_take_bit_shift algebra_simps)
qed

lemma log_ms_snoc: "log_ms (segs @ [s]) = wrap64 (log_ms segs + seg_ms s)"
  by (simp add: log_ms_def wrap64_add)

lemma log_ms_back: "wrap64 (log_ms (segs @ [s]) - seg_ms s) = log_ms segs"
  using wrap64_add [of "sum_list (map seg_ms segs) + seg_ms s" "- seg_ms s"]
  by (simp add: log_ms_def)

lemma log_ranges_snoc:
  "log_ranges format (segs @ [s]) = log_ranges format segs @
     [\<lparr>br_FormatID = format, br_StartTimeMs = log_ms segs, br_DurationMs = seg_ms s,
       br_StartSegmentIndex = int (length segs), br_EndSegmentIndex = int (length segs),
       br_TimeRange = seg_range s\<rparr>]"
  by (simp add: log_ranges_def nth_append)

lemma log_table_snoc:
  assumes "unat k = length segs"
  shows "log_table f (segs @ [s]) = (log_table f segs)(k \<mapsto> f s)"
proof
  fix j
  show "log_table f (segs @ [s]) j = ((log_table f segs)(k \<mapsto> f s)) j"
    using assms by (cases "j = k") (auto simp: log_table_def nth_append less_Suc_eq word_unat_eq_iff)
qed

lemma log_table_None_iff: "log_table f segs k = None \<longleftrightarrow> length segs \<le> unat k"
  by (auto simp: log_table_def)

lemma fmlookup_upd: "fmlookup (fmupd k v m) = (fmlookup m)(k \<mapsto> v)"
  by (rule ext) simp

lemma finalizeSegment_cases:
  assumes "finalizeSegment env a payload = (a', e)"
  obtains (same) "ta_file a' = ta_file a" "e \<noteq> None"
  | (other) h b a1 where "fmlookup (ta_active a) h = Some b"
      "a1 = a\<lparr>ta_active := fmupd h (b\<lparr>sb_ended := True\<rparr>) (ta_active a)\<rparr>" "a' = deleteActive a1 h" "e = None"
  | (init) h b a1 where "fmlookup (ta_active a) h = Some b"
      "a1 = a\<lparr>ta_active := fmupd h (b\<lparr>sb_ended := True\<rparr>) (ta_active a)\<rparr>"
      "finalizeInit env a1 h (sb_data b) = (a', e)"
  | (media) h b a1 where "fmlookup (ta_active a) h = Some b"
      "a1 = a\<lparr>ta_active := fmupd h (b\<lparr>sb_ended := True\<rparr>) (ta_active a)\<rparr>"
      "sb_selected b" "\<not> mh_IsInitSeg (sb_header b)" "0 < effectiveDurationMs (sb_header b)"
      "finalizeMedia env a1 h (sb_header b) (sb_data b) = (a', e)"
proof (cases "\<exists>h b. mediaHeaderOnly payload = Inr h \<and> fmlookup (ta_active a) h = Some b \<and> \<not> sb_ended b")
  case True
  then obtain h b where b: "mediaHeaderOnly payload = Inr h" "fmlookup (ta_active a) h = Some b" "\<not> sb_ended b"
    by blast
  define a1 where "a1 = a\<lparr>ta_active := fmupd h (b\<lparr>sb_ended := True\<rparr>) (ta_active a)\<rparr>"
  have eq: "finalizeSegment env a payload =
      (if mh_ContentLength (sb_header b) > 0 \<and> int (length (sb_data b)) \<noteq> mh_ContentLength (sb_header b)
       then (a1, Some ErrInvalidMediaState)
       else if \<not> sb_selected b then (deleteActive a1 h, None)
       else if \<not> ta_formatVerified a1 then (a1, Some ErrInvalidMediaState)
       else if \<not> mh_IsInitSeg (sb_header b) \<and> effectiveDurationMs (sb_header b) \<le> 0
       then (a1, Some ErrInvalidMediaState)
       else if mh_IsInitSeg (sb_header b) then finalizeInit env a1 h (sb_data b)
       else finalizeMedia env a1 h (sb_header b) (sb_data b))"
    using b by (simp add: finalizeSegment_def Let_def a1_def)
  have "ta_file a1 = ta_file a" by (simp add: a1_def)
  then have "(ta_file a' = ta_file a \<and> e \<noteq> None) \<or> (a' = deleteActive a1 h \<and> e = None) \<or>
    finalizeInit env a1 h (sb_data b) = (a', e) \<or>
    (sb_selected b \<and> \<not> mh_IsInitSeg (sb_header b) \<and> 0 < effectiveDurationMs (sb_header b) \<and>
      finalizeMedia env a1 h (sb_header b) (sb_data b) = (a', e))"
    using assms(1)[unfolded eq] by (simp split: if_split_asm) blast+
  then consider "ta_file a' = ta_file a" "e \<noteq> None" | "a' = deleteActive a1 h" "e = None"
    | "finalizeInit env a1 h (sb_data b) = (a', e)"
    | "sb_selected b" "\<not> mh_IsInitSeg (sb_header b)" "0 < effectiveDurationMs (sb_header b)"
      "finalizeMedia env a1 h (sb_header b) (sb_data b) = (a', e)"
    by blast
  then show thesis
  proof cases
    case 1
    then show thesis by (rule same)
  next
    case 2
    then show thesis by (rule other [OF b(2) a1_def])
  next
    case 3
    then show thesis by (rule init [OF b(2) a1_def])
  next
    case 4
    then show thesis by (rule media [OF b(2) a1_def])
  qed
next
  case False
  then have "a' = a \<and> e \<noteq> None"
    using assms by (auto simp: finalizeSegment_def split: sum.splits option.splits if_splits)
  then show thesis
    by (intro same) auto
qed

section \<open>The contract of the environment\<close>

locale track_world =
  fixes env :: "'w track_env" and content :: "'w \<Rightarrow> byte list"
  assumes write_appends:
      "te_write env w bs = (w', n, None) \<Longrightarrow> n = length bs \<Longrightarrow> content w' = content w @ bs"
    and sync_keeps: "te_sync env w = (w', e) \<Longrightarrow> content w' = content w"
    and commit_keeps: "te_onCommit env = Some f \<Longrightarrow> f a = (w', e) \<Longrightarrow> content w' = content (ta_file a)"
begin

lemma commitProgress_frame:
  assumes "commitProgress env a = (a', e)"
  shows "\<exists>w. a' = a\<lparr>ta_file := w\<rparr> \<and> content w = content (ta_file a)"
proof (cases "te_onCommit env")
  case None
  with assms show ?thesis
    by (intro exI [of _ "ta_file a"]) (simp add: commitProgress_def)
next
  case (Some f)
  obtain w e1 where s: "te_sync env (ta_file a) = (w, e1)" by fastforce
  obtain w2 e2 where f: "f (a\<lparr>ta_file := w\<rparr>) = (w2, e2)" by fastforce
  show ?thesis
    using assms Some s f sync_keeps [OF s] commit_keeps [OF Some f]
    by (cases e1) (auto simp: commitProgress_def Let_def)
qed

lemma assembled_file:
  "content w = content (ta_file a) \<Longrightarrow>
     assembled content budget (a\<lparr>ta_file := w\<rparr>) init segs = assembled content budget a init segs"
  by (simp add: assembled_def)

lemma open_ok_file [simp]: "open_ok (a\<lparr>ta_file := w\<rparr>) segs = open_ok a segs"
  by (simp add: open_ok_def)

lemma commitProgress_keeps:
  assumes "commitProgress env a = (a', e)" and "assembled content budget a init segs" and "open_ok a segs"
  shows "assembled content budget a' init segs \<and> open_ok a' segs"
  using commitProgress_frame [OF assms(1)] assms(2,3) by (auto simp: assembled_file)

lemma writeBytes_ok:
  assumes "writeBytes env a bs = (a', None)"
  shows "\<exists>w. content w = content (ta_file a) @ bs \<and>
    a' = a\<lparr>ta_file := w, ta_totalWritten := ta_totalWritten a + int (length bs),
           ta_remaining := ta_remaining a - int (length bs)\<rparr>"
proof (cases "bs = []")
  case True
  with assms show ?thesis
    by (intro exI [of _ "ta_file a"]) (simp add: writeBytes_def)
next
  case False
  obtain w n e where w: "te_write env (ta_file a) bs = (w, n, e)" by (metis prod_cases3)
  with assms False have "e = None" "n = length bs"
    by (auto simp: writeBytes_def Let_def split: option.splits if_splits)
  with assms False w write_appends [of "ta_file a" bs w n] show ?thesis
    by (intro exI [of _ w]) (simp add: writeBytes_def)
qed

lemma open_ok_delete: "open_ok a segs \<Longrightarrow> open_ok (deleteActive a h) segs"
  by (auto simp: open_ok_def deleteActive_def)

lemma assembled_active: "assembled content budget (a\<lparr>ta_active := m\<rparr>) init segs = assembled content budget a init segs"
  by (simp add: assembled_def)

lemma assembled_delete: "assembled content budget (deleteActive a h) init segs = assembled content budget a init segs"
  by (simp add: deleteActive_def assembled_active)

section \<open>One part\<close>

lemma consumeFormatInit_keeps:
  assumes "consumeFormatInit a payload = (a', e)" and "assembled content budget a init segs" and "open_ok a segs"
  shows "assembled content budget a' init segs \<and> open_ok a' segs"
  using assms by (auto simp: consumeFormatInit_def assembled_def open_ok_def split: sum.splits if_splits)

lemma checkSequence_keeps:
  assumes "checkSequence a h = Inr a'" and "assembled content budget a init segs" and "open_ok a segs"
  shows "assembled content budget a' init segs \<and> open_ok a' segs \<and> ta_active a' = ta_active a \<and>
    unat (mh_SequenceNumber h) \<le> length segs"
proof -
  have len: "unat (word_of_nat (length segs) :: u64) = length segs"
    using assms(2) by (simp add: assembled_def unat_of_nat limits)
  show ?thesis
    using assms len
    by (auto simp: checkSequence_def assembled_def open_ok_def log_table_def split: if_splits)
qed

lemma consumeHeader_keeps:
  assumes "consumeHeader a payload = (a', e)" and "assembled content budget a init segs" and "open_ok a segs"
  shows "assembled content budget a' init segs \<and> open_ok a' segs"
proof (cases "a' = a")
  case False
  with assms(1) obtain header where header: "unmarshalMediaHeader payload = Inr header"
    by (auto simp: consumeHeader_def split: sum.splits)
  define sel c where sel: "sel = isSelectedHeader a header"
    and c_def: "c = (if sel \<and> \<not> mh_IsInitSeg header then checkSequence a header else Inr a)"
  obtain a1 where c: "c = Inr a1"
    and a': "a' = a1\<lparr>ta_active := fmupd (mh_HeaderID header)
      \<lparr>sb_header = header, sb_data = [], sb_ended = False, sb_selected = sel\<rparr> (ta_active a1)\<rparr>"
    using assms(1) False header
    by (cases c) (auto simp: consumeHeader_def Let_def simp flip: sel c_def split: sum.splits if_splits)
  have "assembled content budget a1 init segs \<and> open_ok a1 segs \<and>
      (sel \<and> \<not> mh_IsInitSeg header \<longrightarrow> unat (mh_SequenceNumber header) \<le> length segs)"
    using c checkSequence_keeps [OF _ assms(2,3)] assms(2,3) by (auto simp: c_def split: if_splits)
  then show ?thesis
    unfolding a' by (auto simp: assembled_active open_ok_def)
qed (use assms in simp)

lemma consumeMedia_keeps:
  assumes "consumeMedia a payload = (a', e)" and "assembled content budget a init segs" and "open_ok a segs"
  shows "assembled content budget a' init segs \<and> open_ok a' segs"
  using assms
  by (auto simp: consumeMedia_def assembled_active open_ok_def split: sum.splits if_splits option.splits)

text \<open>
  Whatever the outcome of ending a segment, the file is untouched or has seen one write, and a commit is only
  tried on an assembler that already has the longer log.
\<close>

definition touched :: "'w \<Rightarrow> byte list \<Rightarrow> 'w \<Rightarrow> bool" where
  "touched w bs w' \<longleftrightarrow> w' = w \<or> (\<exists>n e. te_write env w bs = (w', n, e))"

lemma writeBytes_touched: "writeBytes env a bs = (a', e) \<Longrightarrow> touched (ta_file a) bs (ta_file a')"
  by (auto simp: writeBytes_def touched_def Let_def split: if_splits prod.splits option.splits)

text \<open>Writing the initialisation segment starts the log.\<close>

lemma finalizeInit_outcome:
  assumes fin: "finalizeInit env a h bs = (a', e)" and a: "assembled content budget a init segs" "open_ok a segs"
  shows "(touched (ta_file a) bs (ta_file a') \<and> (e = None \<longrightarrow> a' = deleteActive a h \<and> init \<noteq> None)) \<or>
    (init = None \<and> (\<exists>a1. touched (ta_file a) bs (ta_file a1) \<and> assembled content budget a1 (Some bs) segs \<and>
       open_ok a1 segs \<and> commitProgress env a1 = (a', e)))"
proof (cases "\<not> ta_initWritten a \<and> int (length bs) \<le> ta_remaining a \<and> snd (writeBytes env a bs) = None")
  case True
  then obtain a1 where w: "writeBytes env a bs = (a1, None)"
    by (metis prod.collapse)
  define a2 where "a2 = deleteActive (a1\<lparr>ta_initWritten := True, ta_initDigest := hashSegment bs,
      ta_initLength := int (length bs)\<rparr>) h"
  have i: "init = None" "segs = []"
    using True a by (auto simp: assembled_def)
  from writeBytes_ok [OF w] obtain x where x: "content x = content (ta_file a) @ bs"
    "a1 = a\<lparr>ta_file := x, ta_totalWritten := ta_totalWritten a + int (length bs),
           ta_remaining := ta_remaining a - int (length bs)\<rparr>"
    by blast
  have "assembled content budget a2 (Some bs) segs"
    unfolding a2_def assembled_delete using a(1) x i True by (simp add: assembled_def log_bytes_init)
  moreover have "open_ok a2 segs"
    unfolding a2_def using a(2) x(2) by (intro open_ok_delete) (simp add: open_ok_def)
  moreover have "commitProgress env a2 = (a', e)"
    using fin True w by (simp add: finalizeInit_def a2_def)
  moreover have "touched (ta_file a) bs (ta_file a2)"
    using writeBytes_touched [OF w] by (simp add: a2_def deleteActive_def)
  ultimately show ?thesis
    using i(1) by blast
next
  case False
  then show ?thesis
    using fin a(1) writeBytes_touched [of a bs]
    by (auto simp: finalizeInit_def Let_def deleteActive_def touched_def assembled_def
        split: if_splits prod.splits option.splits)
qed

lemma finalizeInit_keeps:
  assumes "finalizeInit env a h bs = (a', None)" and "assembled content budget a init segs" and "open_ok a segs"
  shows "\<exists>init'. assembled content budget a' init' segs \<and> open_ok a' segs \<and>
    (init \<noteq> None \<longrightarrow> init' = init) \<and> (init = None \<longrightarrow> init' = Some bs)"
  using finalizeInit_outcome [OF assms] assms(2,3) commitProgress_keeps
  by (auto simp: assembled_delete open_ok_delete)

text \<open>A media segment is either a repetition, which changes nothing, or the next one of the log.\<close>

lemma finalizeMedia_outcome:
  assumes m: "finalizeMedia env a h header bs = (a', e)"
    and a: "assembled content budget a init segs" "open_ok a segs"
    and seq: "unat (mh_SequenceNumber header) \<le> length segs" and dur: "0 < effectiveDurationMs header"
  defines "s \<equiv> \<lparr>seg_data = bs, seg_ms = effectiveDurationMs header, seg_range = mh_TimeRange header\<rparr>"
  shows "(touched (ta_file a) bs (ta_file a') \<and> (e = None \<longrightarrow> a' = deleteActive a h)) \<or>
    (\<exists>a1. touched (ta_file a) bs (ta_file a1) \<and> assembled content budget a1 init (segs @ [s]) \<and>
       open_ok a1 (segs @ [s]) \<and> commitProgress env a1 = (a', e))"
proof (cases "fmlookup (ta_writtenSequences a) (mh_SequenceNumber header) = None \<and>
    int (length bs) \<le> ta_remaining a \<and> ta_initWritten a \<and> snd (writeBytes env a bs) = None \<and>
    \<not> isl (int32SegmentIndex (mh_SequenceNumber header))")
  case True
  then have k: "unat (mh_SequenceNumber header) = length segs"
    using a(1) seq by (simp add: assembled_def log_table_None_iff)
  from True obtain a1 idx where w: "writeBytes env a bs = (a1, None)"
    and idx: "int32SegmentIndex (mh_SequenceNumber header) = Inr idx"
    by (metis prod.collapse sum.collapse(2))
  define a2 where "a2 = deleteActive (a1\<lparr>ta_cumulativeMs := wrap64 (ta_cumulativeMs a1 + effectiveDurationMs header),
    ta_bufferedRanges := ta_bufferedRanges a1 @ [\<lparr>br_FormatID = ta_format a1,
      br_StartTimeMs = wrap64 (wrap64 (ta_cumulativeMs a1 + effectiveDurationMs header) - effectiveDurationMs header),
      br_DurationMs = effectiveDurationMs header, br_StartSegmentIndex = idx,
      br_EndSegmentIndex = idx, br_TimeRange = mh_TimeRange header\<rparr>],
    ta_writtenSequences := fmupd (mh_SequenceNumber header) (hashSegment bs) (ta_writtenSequences a1),
    ta_segmentLengths := fmupd (mh_SequenceNumber header) (int (length bs)) (ta_segmentLengths a1),
    ta_nextSequence := mh_SequenceNumber header + 1, ta_hasSequence := True\<rparr>) h"
  have c: "commitProgress env a2 = (a', e)"
    using m True w idx by (simp add: finalizeMedia_def a2_def Let_def)
  from writeBytes_ok [OF w] obtain x where x: "content x = content (ta_file a) @ bs"
    "a1 = a\<lparr>ta_file := x, ta_totalWritten := ta_totalWritten a + int (length bs),
           ta_remaining := ta_remaining a - int (length bs)\<rparr>"
    by blast
  have "uint (mh_SequenceNumber header) = int (length segs)"
    by (simp flip: k)
  then have len: "int (length segs) \<le> MaxInt32" and idx': "idx = int (length segs)"
    using idx by (auto simp: int32SegmentIndex_def split: if_splits)
  have next_seq: "mh_SequenceNumber header + 1 = word_of_nat (length segs + 1)"
    by (simp flip: k)
  have "assembled content budget a2 init (segs @ [s])"
    unfolding a2_def assembled_delete using a(1) x True dur len idx' next_seq log_ms_back [of segs s]
    by (simp add: assembled_def log_bytes_snoc log_ms_snoc log_ranges_snoc log_table_snoc [OF k] fmlookup_upd s_def)
  moreover have "open_ok a2 (segs @ [s])"
    unfolding a2_def using a(2) x(2) by (intro open_ok_delete) (fastforce simp: open_ok_def)
  moreover have "touched (ta_file a) bs (ta_file a2)"
    using writeBytes_touched [OF w] by (simp add: a2_def deleteActive_def)
  ultimately show ?thesis
    using c by blast
next
  case False
  then show ?thesis
    using m writeBytes_touched [of a bs]
    by (auto simp: finalizeMedia_def Let_def deleteActive_def touched_def
        split: if_splits prod.splits option.splits sum.splits)
qed

lemma finalizeMedia_keeps:
  assumes "finalizeMedia env a h header bs = (a', None)"
    and "assembled content budget a init segs" and "open_ok a segs"
    and "unat (mh_SequenceNumber header) \<le> length segs" and "0 < effectiveDurationMs header"
  defines "s \<equiv> \<lparr>seg_data = bs, seg_ms = effectiveDurationMs header, seg_range = mh_TimeRange header\<rparr>"
  shows "\<exists>ext. (ext = [] \<or> ext = [s]) \<and> assembled content budget a' init (segs @ ext) \<and>
    open_ok a' (segs @ ext)"
proof -
  from finalizeMedia_outcome [OF assms(1-5)] consider "a' = deleteActive a h"
    | a1 where "assembled content budget a1 init (segs @ [s])" "open_ok a1 (segs @ [s])"
        "commitProgress env a1 = (a', None)"
    unfolding s_def by blast
  then show ?thesis
  proof cases
    case 1
    then show ?thesis
      using assms(2,3) by (intro exI [of _ "[]"]) (simp add: assembled_delete open_ok_delete)
  next
    case (2 a1)
    then show ?thesis
      using commitProgress_keeps [OF 2(3,1,2)] by blast
  qed
qed

lemma end_marked:
  assumes "assembled content budget a init segs" and "open_ok a segs" and "fmlookup (ta_active a) h = Some b"
  defines "a1 \<equiv> a\<lparr>ta_active := fmupd h (b\<lparr>sb_ended := True\<rparr>) (ta_active a)\<rparr>"
  shows "assembled content budget a1 init segs" and "open_ok a1 segs" and "ta_file a1 = ta_file a"
    and "sb_selected b \<Longrightarrow> \<not> mh_IsInitSeg (sb_header b) \<Longrightarrow> unat (mh_SequenceNumber (sb_header b)) \<le> length segs"
  using assms by (auto simp: assembled_active open_ok_def)

lemma finalizeSegment_keeps:
  assumes "finalizeSegment env a payload = (a', None)"
    and a: "assembled content budget a init segs" "open_ok a segs"
  shows "\<exists>init' ext. assembled content budget a' init' (segs @ ext) \<and> open_ok a' (segs @ ext) \<and>
    (init \<noteq> None \<longrightarrow> init' = init) \<and> length ext \<le> 1"
  using assms(1)
proof (cases rule: finalizeSegment_cases)
  case (other h b a1)
  note m = end_marked [OF a other(1), folded other(2)]
  show ?thesis
    using m other(3) by (intro exI [of _ init] exI [of _ "[]"]) (simp add: assembled_delete open_ok_delete)
next
  case (init h b a1)
  note m = end_marked [OF a init(1), folded init(2)]
  from finalizeInit_keeps [OF init(3) m(1,2)] show ?thesis
    by (metis append_Nil2 list.size(3) zero_le_one)
next
  case (media h b a1)
  note m = end_marked [OF a media(1), folded media(2)]
  from finalizeMedia_keeps [OF media(6) m(1,2) m(4) [OF media(3,4)] media(5)] show ?thesis
    by (metis length_Cons list.size(3) One_nat_def le_SucI order_refl zero_le_one)
qed simp

text \<open>The same for every outcome, as far as the file and the commit callback are concerned.\<close>

lemma finalizeSegment_outcome:
  assumes "finalizeSegment env a payload = (a', e)"
    and a: "assembled content budget a init segs" "open_ok a segs"
  shows "\<exists>bs. touched (ta_file a) bs (ta_file a') \<or>
    (\<exists>a1 init' segs'. touched (ta_file a) bs (ta_file a1) \<and> assembled content budget a1 init' segs' \<and>
       commitProgress env a1 = (a', e))"
  using assms(1)
proof (cases rule: finalizeSegment_cases)
  case same
  then show ?thesis by (simp add: touched_def)
next
  case (other h b a1)
  then show ?thesis by (simp add: touched_def deleteActive_def)
next
  case (init h b a1)
  note m = end_marked [OF a init(1), folded init(2)]
  from finalizeInit_outcome [OF init(3) m(1,2)] show ?thesis
    unfolding m(3) by blast
next
  case (media h b a1)
  note m = end_marked [OF a media(1), folded media(2)]
  from finalizeMedia_outcome [OF media(6) m(1,2) m(4) [OF media(3,4)] media(5)] show ?thesis
    unfolding m(3) by blast
qed

lemma consumePart_outcome:
  assumes "assembler_consumePart env a t payload = (a', e)"
    and "assembled content budget a init segs" and "open_ok a segs"
  shows "\<exists>bs. touched (ta_file a) bs (ta_file a') \<or>
    (\<exists>a1 init' segs'. touched (ta_file a) bs (ta_file a1) \<and> assembled content budget a1 init' segs' \<and>
       commitProgress env a1 = (a', e))"
proof -
  have "ta_file a' = ta_file a" if "consumeFormatInit a payload = (a', e)"
    using that by (auto simp: consumeFormatInit_def split: sum.splits if_splits)
  moreover have "ta_file a' = ta_file a" if "consumeHeader a payload = (a', e)"
    using that by (auto simp: consumeHeader_def checkSequence_def Let_def split: sum.splits if_splits)
  moreover have "ta_file a' = ta_file a" if "consumeMedia a payload = (a', e)"
    using that by (auto simp: consumeMedia_def split: sum.splits if_splits option.splits)
  moreover have "touched (ta_file a) [] (ta_file a)"
    by (simp add: touched_def)
  ultimately show ?thesis
    using assms(1) finalizeSegment_outcome [OF _ assms(2,3)]
    unfolding assembler_consumePart_def by (metis Pair_inject)
qed

lemma consumePart_keeps:
  assumes "assembler_consumePart env a typ payload = (a', None)"
    and "assembled content budget a init segs" and "open_ok a segs"
  shows "\<exists>init' ext. assembled content budget a' init' (segs @ ext) \<and> open_ok a' (segs @ ext) \<and>
    (init \<noteq> None \<longrightarrow> init' = init) \<and> length ext \<le> 1"
proof -
  have keep: ?thesis if "assembled content budget a' init segs \<and> open_ok a' segs"
    using that by (intro exI [of _ init] exI [of _ "[]"]) simp
  show ?thesis
    using assms(1) keep assms(2,3) consumeFormatInit_keeps [OF _ assms(2,3)]
      consumeHeader_keeps [OF _ assms(2,3)] consumeMedia_keeps [OF _ assms(2,3)]
      finalizeSegment_keeps [OF _ assms(2,3)]
    by (auto simp: assembler_consumePart_def split: if_splits)
qed

lemma applyEndOfTrack_keeps:
  assumes "applyEndOfTrackCompletion env a = (a', e)" and "assembled content budget a init segs"
    and "open_ok a segs"
  shows "assembled content budget a' init segs \<and> open_ok a' segs"
proof (cases "canCompleteByEndOfTrack a")
  case True
  have "assembled content budget (a\<lparr>ta_endOfTrackDone := True\<rparr>) init segs"
    "open_ok (a\<lparr>ta_endOfTrackDone := True\<rparr>) segs"
    using assms(2,3) by (simp_all add: assembled_def open_ok_def)
  with assms(1) True show ?thesis
    by (auto simp: applyEndOfTrackCompletion_def dest: commitProgress_keeps)
qed (use assms in \<open>simp add: applyEndOfTrackCompletion_def\<close>)

lemma new_assembled:
  "content w = [] \<Longrightarrow> 0 \<le> budget \<Longrightarrow>
     assembled content budget (newTrackAssembler format expected w budget) None [] \<and>
     open_ok (newTrackAssembler format expected w budget) []"
  by (auto simp: newTrackAssembler_def assembled_def open_ok_def log_bytes_def log_table_def log_ms_def
      log_ranges_def limits wrap64_def)

end

section \<open>Runs\<close>

text \<open>The states an assembler reaches from \<open>start\<close> by parts and completions that succeed.\<close>

inductive track_run :: "'w track_env \<Rightarrow> 'w trackAssembler \<Rightarrow> 'w trackAssembler \<Rightarrow> bool" for env start where
  run_start: "track_run env start start"
| run_part: "track_run env start a \<Longrightarrow> assembler_consumePart env a typ payload = (a', None) \<Longrightarrow>
    track_run env start a'"
| run_end: "track_run env start a \<Longrightarrow> applyEndOfTrackCompletion env a = (a', None) \<Longrightarrow>
    track_run env start a'"

context track_world
begin

lemma run_assembled:
  assumes "track_run env start a" and "assembled content budget start init segs" and "open_ok start segs"
  shows "\<exists>init' ext. assembled content budget a init' (segs @ ext) \<and> open_ok a (segs @ ext) \<and>
    (init \<noteq> None \<longrightarrow> init' = init)"
  using assms
proof (induction rule: track_run.induct)
  case run_start
  then show ?case
    by (intro exI [of _ init] exI [of _ "[]"]) simp
next
  case (run_part a t payload a')
  then obtain i1 e1 where 1: "assembled content budget a i1 (segs @ e1)" "open_ok a (segs @ e1)"
      "init \<noteq> None \<longrightarrow> i1 = init"
    by blast
  from consumePart_keeps [OF run_part.hyps(2) 1(1,2)] obtain i2 e2 where
    "assembled content budget a' i2 ((segs @ e1) @ e2)" "open_ok a' ((segs @ e1) @ e2)"
    "i1 \<noteq> None \<longrightarrow> i2 = i1"
    by blast
  with 1(3) show ?case
    by (intro exI [of _ i2] exI [of _ "e1 @ e2"]) auto
next
  case (run_end a a')
  then obtain i1 e1 where "assembled content budget a i1 (segs @ e1)" "open_ok a (segs @ e1)"
      "init \<noteq> None \<longrightarrow> i1 = init"
    by blast
  with applyEndOfTrack_keeps [OF run_end.hyps(2)] show ?case by blast
qed

end

section \<open>The track file\<close>

text \<open>
  The file of a download: its bytes, the fate of the coming calls, \<open>None\<close> for one that succeeds and
  \<open>Some (n, e)\<close> for one that fails with the error \<open>EnvErr e\<close> (a write after \<open>n\<close> bytes), and what the commit callback has
  saved elsewhere. After the list all calls succeed.
\<close>

record 's os_file =
  of_content :: "byte list"
  of_faults :: "(nat \<times> nat) option list"
  of_saved :: 's

definition os_Write :: "'s os_file \<Rightarrow> byte list \<Rightarrow> 's os_file \<times> nat \<times> error option" where
  "os_Write f bs =
     (case of_faults f of
        Some (n, e) # fs \<Rightarrow>
          (f\<lparr>of_content := of_content f @ take n bs, of_faults := fs\<rparr>, min n (length bs), Some (EnvErr e))
      | fs \<Rightarrow> (f\<lparr>of_content := of_content f @ bs, of_faults := tl fs\<rparr>, length bs, None))"

definition os_Sync :: "'s os_file \<Rightarrow> 's os_file \<times> error option" where
  "os_Sync f =
     (case of_faults f of
        Some (n, e) # fs \<Rightarrow> (f\<lparr>of_faults := fs\<rparr>, Some (EnvErr e))
      | fs \<Rightarrow> (f\<lparr>of_faults := tl fs\<rparr>, None))"

text \<open>
  The callback \<open>save\<close> sees the assembler and the fate of its own calls; it may save or fail, but has no
  handle on the file.
\<close>

definition file_env ::
    "('s os_file trackAssembler \<Rightarrow> (nat \<times> nat) option \<Rightarrow> 's \<times> error option) option \<Rightarrow> 's os_file track_env" where
  "file_env save = \<lparr>te_write = os_Write, te_sync = os_Sync,
     te_onCommit = map_option (\<lambda>f a.
       let fs = of_faults (ta_file a); (s, e) = f a (case fs of [] \<Rightarrow> None | fate # _ \<Rightarrow> fate)
       in ((ta_file a)\<lparr>of_faults := tl fs, of_saved := s\<rparr>, e)) save\<rparr>"

interpretation disk: track_world "file_env save" of_content
  by unfold_locales
    (auto simp: file_env_def os_Write_def os_Sync_def Let_def split: list.splits option.splits prod.splits)

section \<open>A sample track\<close>

fun consume_all :: "'w track_env \<Rightarrow> 'w trackAssembler \<Rightarrow> (int \<times> byte list) list \<Rightarrow> 'w trackAssembler option" where
  "consume_all env a [] = Some a"
| "consume_all env a ((t, payload) # ps) =
     (case assembler_consumePart env a t payload of
        (a, None) \<Rightarrow> consume_all env a ps
      | (a, Some e) \<Rightarrow> None)"

lemma consume_all_run:
  "track_run env start a \<Longrightarrow> consume_all env a ps = Some a' \<Longrightarrow> track_run env start a'"
  by (induction env a ps rule: consume_all.induct)
    (auto split: prod.splits option.splits intro: track_run.intros)

definition sample_format :: FormatID where
  "sample_format = \<lparr>fid_Itag = 140, fid_LastModified = 0, fid_XTags = []\<rparr>"

definition sample_header :: "u32 \<Rightarrow> bool \<Rightarrow> MediaHeader" where
  "sample_header h init = zeroMediaHeader\<lparr>mh_HeaderID := h, mh_Itag := 140, mh_IsInitSeg := init,
     mh_DurationMs := 5000\<rparr>"

definition sample_parts :: "(int \<times> byte list) list" where
  "sample_parts =
     [(PartFormatInitializationMetadata, encode_fields [FBytes fFormatInitFormatID (marshalFormatID sample_format)]),
      (PartMediaHeader, marshalMediaHeader (sample_header 1 True)), (PartMedia, [1, 10, 11]), (PartMediaEnd, [1]),
      (PartMediaHeader, marshalMediaHeader (sample_header 2 False)), (PartMedia, [2, 20]), (PartMedia, [2, 21]),
      (PartMediaEnd, [2])]"

lemma sample_decodes:
  "unmarshalMediaHeader (marshalMediaHeader (sample_header h init)) = Inr (sample_header h init)"
  "unmarshalFormatInitializationMetadata (encode_fields [FBytes fFormatInitFormatID (marshalFormatID sample_format)])
     = Inr \<lparr>fim_VideoID = [], fim_FormatID = sample_format\<rparr>"
proof -
  show "unmarshalMediaHeader (marshalMediaHeader (sample_header h init)) = Inr (sample_header h init)"
    by (rule unmarshal_marshal_MediaHeader)
      (simp add: media_header_ok_def format_ok_def sample_header_def zeroMediaHeader_def zeroFormatID_def limits)
  have "unmarshalFormatID (marshalFormatID sample_format) = Inr sample_format"
    by (rule unmarshal_marshal_FormatID) (simp add: format_ok_def sample_format_def limits)
  then have "fold_res formatInit_act [FBytes fFormatInitFormatID (marshalFormatID sample_format)] zeroFormatInit
     = Inr \<lparr>fim_VideoID = [], fim_FormatID = sample_format\<rparr>"
    by (simp add: zeroFormatInit_def)
  moreover have "length (marshalFormatID sample_format) \<le> MaxProtobufFieldBytes"
    using length_marshalFormatID [of sample_format] by (simp add: sample_format_def limits)
  ultimately show "unmarshalFormatInitializationMetadata (encode_fields [FBytes fFormatInitFormatID (marshalFormatID sample_format)])
     = Inr \<lparr>fim_VideoID = [], fim_FormatID = sample_format\<rparr>"
    unfolding unmarshalFormatInitializationMetadata_def by (intro format_init.parse_encoded) (simp_all add: limits)
qed

lemma sample_varints:
  "mediaHeaderPrefix [1, 10, 11] = Inr (1, [10, 11])" "mediaHeaderOnly [1] = Inr 1"
  "mediaHeaderPrefix [2, 20] = Inr (2, [20])" "mediaHeaderPrefix [2, 21] = Inr (2, [21])" "mediaHeaderOnly [2] = Inr 2"
  "mediaHeaderPrefix [1] = Inr (1, [])"
  by code_simp+

lemma sample_fields:
  "fid_Itag sample_format = 140" "fid_XTags sample_format = []" "fid_LastModified sample_format = 0"
  "mh_HeaderID (sample_header h init) = h" "mh_IsInitSeg (sample_header h init) = init"
  "mh_SequenceNumber (sample_header h init) = 0" "mh_ContentLength (sample_header h init) = 0"
  "headerItag (sample_header h init) = 140" "effectiveDurationMs (sample_header h init) = 5000"
  "h \<noteq> 0 \<Longrightarrow> validateMediaHeader (sample_header h init) = Inr ()"
  "formatIdentityConflicts sample_format (headerRepresentationID (sample_header h init)) = Inr ()"
  "formatIdentityConflicts sample_format sample_format = Inr ()"
  by (simp_all add: sample_format_def sample_header_def zeroMediaHeader_def headerItag_def zeroFormatID_def
      effectiveDurationMs_def validateMediaHeader_def formatIdentityConflicts_def headerRepresentationID_def)

lemma sample_run:
  "\<exists>a. consume_all (file_env None)
      (newTrackAssembler sample_format 5000 \<lparr>of_content = [], of_faults = [], of_saved = ()\<rparr> 100) sample_parts
      = Some a \<and> of_content (ta_file a) = [10, 11, 20, 21] \<and> trackComplete a"
  by (simp add: sample_parts_def newTrackAssembler_def assembler_consumePart_def isCriticalUnsupportedPart_def
      isHandledPart_def isBenignSkippedPart_def part_ids consumeFormatInit_def consumeHeader_def consumeMedia_def
      finalizeSegment_def finalizeInit_def finalizeMedia_def sample_decodes sample_varints
      sample_fields isSelectedHeader_def limits checkSequence_def Let_def deleteActive_def
      writeBytes_def commitProgress_def file_env_def os_Write_def int32SegmentIndex_def trackComplete_def wrap64_def fcard.rep_eq)
section \<open>Properties\<close>

text \<open>
  C4. Whatever parts a server sends, in whatever order, and wherever the file fails: after every
  run of accepted parts and completions the track file is the initialisation segment followed by the
  media segments 0, 1, 2, ... without a gap, a repetition or a foreign byte; the digests, lengths,
  buffered ranges and the playback position the assembler reports are those of these segments, and
  the file is within its byte budget.
\<close>

theorem track_file_is_the_segment_log:
  assumes "track_run (file_env save)
      (newTrackAssembler format expected \<lparr>of_content = [], of_faults = faults, of_saved = s\<rparr> budget) a"
    and "0 \<le> budget"
  shows "\<exists>init segs. assembled of_content budget a init segs \<and>
    of_content (ta_file a) = (case init of None \<Rightarrow> [] | Some d \<Rightarrow> d) @ concat (map seg_data segs) \<and>
    int (length (of_content (ta_file a))) \<le> budget"
proof -
  have new: "assembled of_content budget (newTrackAssembler format expected
        \<lparr>of_content = [], of_faults = faults, of_saved = s\<rparr> budget) None []"
    "open_ok (newTrackAssembler format expected
        \<lparr>of_content = [], of_faults = faults, of_saved = s\<rparr> budget) []"
    using disk.new_assembled [of "\<lparr>of_content = [], of_faults = faults, of_saved = s\<rparr>" budget] assms(2)
    by simp_all
  from disk.run_assembled [OF assms(1) new] obtain init segs where
    "assembled of_content budget a init segs" by auto
  then show ?thesis
    by (intro exI [of _ init] exI [of _ segs]) (simp add: assembled_def log_bytes_def)
qed

theorem track_file_is_the_segment_log_witness:
  "\<exists>a init segs. assembled of_content 100 (a :: unit os_file trackAssembler) init segs \<and>
     of_content (ta_file a) = [10, 11, 20, 21] \<and> trackComplete a"
proof -
  obtain a where a: "consume_all (file_env None)
      (newTrackAssembler sample_format 5000 \<lparr>of_content = [], of_faults = [], of_saved = ()\<rparr> 100) sample_parts
      = Some a" "of_content (ta_file a) = [10, 11, 20, 21]" "trackComplete a"
    using sample_run by blast
  from track_file_is_the_segment_log [OF consume_all_run [OF run_start a(1)]] a(2,3) show ?thesis
    by auto
qed

text \<open>
  C21. A segment that was already committed is never written twice. When it is offered again, the part that
  ends it leaves the file and everything the assembler reports unchanged; it succeeds exactly
  when the repetition has the recorded digest, and otherwise is an invalid media state.
\<close>

theorem repeated_segment_is_not_written:
  assumes "mediaHeaderOnly payload = Inr h" and "fmlookup (ta_active a) h = Some b"
    and "\<not> sb_ended b" and "sb_selected b" and "\<not> mh_IsInitSeg (sb_header b)"
    and "fmlookup (ta_writtenSequences a) (mh_SequenceNumber (sb_header b)) = Some d"
    and "finalizeSegment env a payload = (a', e)"
  shows "a' = a\<lparr>ta_active := ta_active a'\<rparr> \<and>
    (e = None \<longleftrightarrow> hashSegment (sb_data b) = d \<and> ta_formatVerified a \<and>
       0 < effectiveDurationMs (sb_header b) \<and>
       (0 < mh_ContentLength (sb_header b) \<longrightarrow> int (length (sb_data b)) = mh_ContentLength (sb_header b))) \<and>
    (e \<noteq> None \<longrightarrow> e = Some ErrInvalidMediaState)"
  using assms
  by (auto simp: finalizeSegment_def Let_def finalizeMedia_def deleteActive_def split: if_split_asm)

theorem repeated_segment_is_not_written_witness:
  "\<exists>a'. finalizeSegment (file_env None)
      ((newTrackAssembler sample_format 5000 \<lparr>of_content = [20], of_faults = [], of_saved = ()\<rparr> 100)
        \<lparr>ta_formatVerified := True, ta_writtenSequences := fmupd 0 (hashSegment [20]) fmempty,
         ta_active := fmupd 2 \<lparr>sb_header = sample_header 2 False, sb_data = [20], sb_ended = False,
           sb_selected = True\<rparr> fmempty\<rparr>) [2] = (a', None) \<and> of_content (ta_file a') = [20]"
proof -
  let ?a = "(newTrackAssembler sample_format 5000 \<lparr>of_content = [20], of_faults = [], of_saved = ()\<rparr> 100)
        \<lparr>ta_formatVerified := True, ta_writtenSequences := fmupd 0 (hashSegment [20]) fmempty,
         ta_active := fmupd 2 \<lparr>sb_header = sample_header 2 False, sb_data = [20], sb_ended = False,
           sb_selected = True\<rparr> fmempty\<rparr>"
  obtain a' e where f: "finalizeSegment (file_env None) ?a [2] = (a', e)" by fastforce
  have "a' = ?a\<lparr>ta_active := ta_active a'\<rparr> \<and> e = None"
    using repeated_segment_is_not_written [OF sample_varints(5) _ _ _ _ _ f]
    by (simp add: sample_fields)
  then have "ta_file a' = ta_file ?a \<and> e = None"
    by (metis trackAssembler.select_convs(3) trackAssembler.surjective trackAssembler.update_convs(13))
  with f show ?thesis
    by (simp add: newTrackAssembler_def)
qed

end
