(* ===== verification/Checkpoint.thy ===== *)
theory Checkpoint
  imports Recovery TrackLog
begin

text \<open>
  Durable progress of a track, \<open>checkpoint.go\<close>: what is recorded (\<open>snapshotCheckpoint\<close>), what a record must
  satisfy (\<open>validateCheckpoint\<close>), how an assembler is rebuilt from it (\<open>restoreCheckpoint\<close>) after the recorded
  digests were compared with the bytes of the partial file (\<open>verifyCheckpointPartBytes\<close>), and the completion
  marker of a published track. Files are the lists of their bytes; the JSON text of a record and the
  file system calls around it are not modelled here.
\<close>

section \<open>Records\<close>

definition checkpointVersion :: int where "checkpointVersion = 1"
definition MaxCheckpointSegments :: nat where "MaxCheckpointSegments = 8192"
definition maxCheckpointVideoIDBytes :: nat where "maxCheckpointVideoIDBytes = 128"
definition maxCheckpointClientVerBytes :: nat where "maxCheckpointClientVerBytes = 128"
definition maxCheckpointXTagsBytes :: nat where "maxCheckpointXTagsBytes = 512"
definition maxCheckpointAudioTrackBytes :: nat where "maxCheckpointAudioTrackBytes = 128"

lemmas checkpoint_limits [limits] =
  checkpointVersion_def MaxCheckpointSegments_def maxCheckpointVideoIDBytes_def
  maxCheckpointClientVerBytes_def maxCheckpointXTagsBytes_def maxCheckpointAudioTrackBytes_def
  maxCheckpointDigestHexBytes_def

record sabrCheckpointSegment =
  cps_Sequence :: u64
  cps_Digest :: string
  cps_DurationMs :: i64
  cps_StartTimeMs :: i64
  cps_Length :: i64
  cps_StartTicks :: i64
  cps_DurationTicks :: i64
  cps_Timescale :: i32

record sabrCheckpoint =
  cp_Version :: int
  cp_VideoID :: string
  cp_ClientName :: i32
  cp_ClientVersion :: string
  cp_TrackKind :: string
  cp_Itag :: i32
  cp_LastModified :: u64
  cp_XTags :: string
  cp_DurationSec :: i64
  cp_UstreamerSHA256 :: string
  cp_AudioTrackID :: string
  cp_DrcEnabled :: bool
  cp_InitWritten :: bool
  cp_InitDigest :: string
  cp_InitLength :: i64
  cp_FormatVerified :: bool
  cp_EndOfTrack :: bool
  cp_NextSequence :: u64
  cp_HasSequence :: bool
  cp_CumulativeMs :: i64
  cp_TotalWritten :: i64
  cp_Segments :: "sabrCheckpointSegment list"

record checkpointIdentity =
  cid_VideoID :: string
  cid_ClientName :: i32
  cid_ClientVersion :: string
  cid_TrackKind :: TrackKind
  cid_Format :: FormatID
  cid_DurationSec :: i64
  cid_UstreamerSHA256 :: string
  cid_AudioTrackID :: string
  cid_DrcEnabled :: bool

definition validateResumeVideoID :: "string \<Rightarrow> unit res" where
  "validateResumeVideoID videoID =
     (if videoID = [] then Inl ErrMissingConfig
      else if length videoID > maxCheckpointVideoIDBytes \<or>
        ContainsAny videoID [CHR 0x00, CHR 0x0D, CHR 0x0A] then Inl ErrMissingConfig
      else Inr ())"

definition identityFromConfig :: "Config \<Rightarrow> checkpointIdentity" where
  "identityFromConfig config =
     \<lparr>cid_VideoID = cfg_VideoID config, cid_ClientName = ci_ClientName (cfg_ClientInfo config),
      cid_ClientVersion = ci_ClientVersion (cfg_ClientInfo config), cid_TrackKind = cfg_TrackKind config,
      cid_Format = cfg_Format config, cid_DurationSec = cfg_DurationSec config,
      cid_UstreamerSHA256 = hashUstreamerConfig (cfg_UstreamerConfig config),
      cid_AudioTrackID = cfg_AudioTrackID config, cid_DrcEnabled = cfg_DrcEnabled config\<rparr>"

definition matches :: "checkpointIdentity \<Rightarrow> sabrCheckpoint \<Rightarrow> bool" where
  "matches i s \<longleftrightarrow>
     cp_VideoID s = cid_VideoID i \<and> cp_ClientName s = cid_ClientName i \<and>
     cp_ClientVersion s = cid_ClientVersion i \<and> cp_TrackKind s = cid_TrackKind i \<and>
     cp_Itag s = fid_Itag (cid_Format i) \<and> cp_LastModified s = fid_LastModified (cid_Format i) \<and>
     cp_XTags s = fid_XTags (cid_Format i) \<and> cp_DurationSec s = cid_DurationSec i \<and>
     cp_UstreamerSHA256 s = cid_UstreamerSHA256 i \<and> cp_AudioTrackID s = cid_AudioTrackID i \<and>
     cp_DrcEnabled s = cid_DrcEnabled i"

definition baseCheckpoint :: "checkpointIdentity \<Rightarrow> sabrCheckpoint" where
  "baseCheckpoint i =
     \<lparr>cp_Version = checkpointVersion, cp_VideoID = cid_VideoID i, cp_ClientName = cid_ClientName i,
      cp_ClientVersion = cid_ClientVersion i, cp_TrackKind = cid_TrackKind i,
      cp_Itag = fid_Itag (cid_Format i), cp_LastModified = fid_LastModified (cid_Format i),
      cp_XTags = fid_XTags (cid_Format i), cp_DurationSec = cid_DurationSec i,
      cp_UstreamerSHA256 = cid_UstreamerSHA256 i, cp_AudioTrackID = cid_AudioTrackID i,
      cp_DrcEnabled = cid_DrcEnabled i, cp_InitWritten = False, cp_InitDigest = [], cp_InitLength = 0,
      cp_FormatVerified = False, cp_EndOfTrack = False, cp_NextSequence = 0, cp_HasSequence = False,
      cp_CumulativeMs = 0, cp_TotalWritten = 0, cp_Segments = []\<rparr>"

section \<open>Validation\<close>

definition identity_ok :: "sabrCheckpoint \<Rightarrow> bool" where
  "identity_ok s \<longleftrightarrow>
     \<not> (cp_VideoID s = [] \<or> cp_ClientName s = 0 \<or> cp_ClientVersion s = [] \<or> cp_Itag s = 0 \<or>
        cp_DurationSec s \<le> 0) \<and>
     \<not> (cp_TrackKind s \<noteq> TrackAudio \<and> cp_TrackKind s \<noteq> TrackVideo) \<and>
     \<not> (cp_UstreamerSHA256 s = [] \<or> length (cp_UstreamerSHA256 s) \<noteq> maxCheckpointDigestHexBytes) \<and>
     hex_DecodeString (cp_UstreamerSHA256 s) \<noteq> None \<and>
     \<not> (length (cp_VideoID s) > maxCheckpointVideoIDBytes \<or>
        length (cp_ClientVersion s) > maxCheckpointClientVerBytes \<or>
        length (cp_XTags s) > maxCheckpointXTagsBytes \<or>
        length (cp_AudioTrackID s) > maxCheckpointAudioTrackBytes \<or>
        ContainsAny (cp_VideoID s) [CHR 0x00, CHR 0x0D, CHR 0x0A])"

text \<open>The loop over the segments; its result is the time and the bytes they account for.\<close>

fun segments_loop ::
    "nat \<Rightarrow> u64 set \<Rightarrow> i64 \<Rightarrow> i64 \<Rightarrow> sabrCheckpointSegment list \<Rightarrow> (i64 \<times> i64) res" where
  "segments_loop index seen cumulative accounted [] = Inr (cumulative, accounted)"
| "segments_loop index seen cumulative accounted (segment # rest) =
     (if cps_Sequence segment \<noteq> word_of_nat index then Inl ErrCheckpointInvalid
      else if cps_Length segment \<le> 0 \<or> cps_DurationMs segment \<le> 0 \<or> cps_StartTimeMs segment < 0
        then Inl ErrCheckpointInvalid
      else bind_res (decodeDigest (cps_Digest segment)) (\<lambda>_.
        if cps_Sequence segment \<in> seen then Inl ErrCheckpointInvalid
        else let seen = insert (cps_Sequence segment) seen
        in if cps_StartTimeMs segment \<noteq> cumulative then Inl ErrCheckpointInvalid
        else let (next_ms, ok) = addInt64 cumulative (cps_DurationMs segment)
        in if \<not> ok then Inl ErrCheckpointInvalid
        else let (bytes, ok) = addInt64 accounted (cps_Length segment)
        in if \<not> ok then Inl ErrCheckpointInvalid
        else segments_loop (Suc index) seen next_ms bytes rest))"

definition validateCheckpoint :: "sabrCheckpoint \<Rightarrow> unit res" where
  "validateCheckpoint s =
     (if cp_Version s \<noteq> checkpointVersion then Inl ErrCheckpointInvalid
      else if \<not> identity_ok s then Inl ErrCheckpointInvalid
      else if length (cp_Segments s) > MaxCheckpointSegments then Inl ErrCheckpointInvalid
      else if cp_TotalWritten s < 0 \<or> cp_CumulativeMs s < 0 \<or> cp_InitLength s < 0
        then Inl ErrCheckpointInvalid
      else if cp_TotalWritten s > MaxMediaBytes then Inl ErrCheckpointInvalid
      else bind_res
        (if cp_InitWritten s then
           (if cp_InitLength s \<le> 0 \<or> cp_InitDigest s = [] then Inl ErrCheckpointInvalid
            else bind_res (decodeDigest (cp_InitDigest s)) (\<lambda>_. Inr (cp_InitLength s)))
         else if cp_InitLength s \<noteq> 0 \<or> cp_InitDigest s \<noteq> [] \<or> cp_Segments s \<noteq> [] \<or> cp_EndOfTrack s
           then Inl ErrCheckpointInvalid
         else Inr 0) (\<lambda>accounted.
      bind_res (segments_loop 0 {} 0 accounted (cp_Segments s)) (\<lambda>(cumulative, accounted).
        if accounted \<noteq> cp_TotalWritten s then Inl ErrCheckpointInvalid
        else if cumulative \<noteq> cp_CumulativeMs s then Inl ErrCheckpointInvalid
        else if cp_HasSequence s \<and>
          (cp_Segments s = [] \<or> cp_NextSequence s \<noteq> word_of_nat (length (cp_Segments s)))
          then Inl ErrCheckpointInvalid
        else if \<not> cp_HasSequence s \<and> (cp_NextSequence s \<noteq> 0 \<or> cp_Segments s \<noteq> [])
          then Inl ErrCheckpointInvalid
        else if cp_Segments s \<noteq> [] \<and> \<not> cp_FormatVerified s then Inl ErrCheckpointInvalid
        else if cp_EndOfTrack s \<and> (\<not> cp_InitWritten s \<or> cp_Segments s = [] \<or> \<not> cp_FormatVerified s)
          then Inl ErrCheckpointInvalid
        else Inr ())))"

section \<open>Snapshots\<close>

fun snapshot_segments ::
    "'w trackAssembler \<Rightarrow> BufferedRange list \<Rightarrow> sabrCheckpointSegment list res" where
  "snapshot_segments a [] = Inr []"
| "snapshot_segments a (buffered # rest) =
     (let sequence = word_of_int (br_StartSegmentIndex buffered)
      in (case fmlookup (ta_writtenSequences a) sequence of
            None \<Rightarrow> Inl ErrCheckpointInvalid
          | Some digest \<Rightarrow>
              bind_res (snapshot_segments a rest) (\<lambda>segments.
                Inr (\<lparr>cps_Sequence = sequence, cps_Digest = encodeDigest digest,
                      cps_DurationMs = br_DurationMs buffered, cps_StartTimeMs = br_StartTimeMs buffered,
                      cps_Length = (case fmlookup (ta_segmentLengths a) sequence of None \<Rightarrow> 0 | Some n \<Rightarrow> n),
                      cps_StartTicks = tr_StartTicks (br_TimeRange buffered),
                      cps_DurationTicks = tr_DurationTicks (br_TimeRange buffered),
                      cps_Timescale = tr_Timescale (br_TimeRange buffered)\<rparr> # segments))))"

definition snapshotCheckpoint :: "'w trackAssembler \<Rightarrow> checkpointIdentity \<Rightarrow> sabrCheckpoint res" where
  "snapshotCheckpoint a identity =
     (let s = (baseCheckpoint identity)
            \<lparr>cp_InitWritten := ta_initWritten a, cp_InitDigest := encodeDigest (ta_initDigest a),
             cp_InitLength := ta_initLength a, cp_FormatVerified := ta_formatVerified a,
             cp_EndOfTrack := ta_endOfTrackDone a, cp_NextSequence := ta_nextSequence a,
             cp_HasSequence := ta_hasSequence a, cp_CumulativeMs := ta_cumulativeMs a,
             cp_TotalWritten := ta_totalWritten a\<rparr>
      in if length (ta_bufferedRanges a) > MaxCheckpointSegments then Inl ErrCheckpointInvalid
         else bind_res (snapshot_segments a (ta_bufferedRanges a)) (\<lambda>segments.
           let s = s\<lparr>cp_Segments := segments\<rparr>;
               s = (if \<not> cp_InitWritten s then s\<lparr>cp_InitDigest := [], cp_InitLength := 0\<rparr> else s)
           in bind_res (validateCheckpoint s) (\<lambda>_. Inr s)))"

section \<open>Restoring\<close>

fun restore_segments ::
    "'w trackAssembler \<Rightarrow> sabrCheckpointSegment list \<Rightarrow> 'w trackAssembler \<times> error option" where
  "restore_segments a [] = (a, None)"
| "restore_segments a (segment # rest) =
     (case decodeDigest (cps_Digest segment) of
        Inl e \<Rightarrow> (a, Some e)
      | Inr digest \<Rightarrow>
          let a = a\<lparr>ta_writtenSequences := fmupd (cps_Sequence segment) digest (ta_writtenSequences a),
                    ta_segmentLengths := fmupd (cps_Sequence segment) (cps_Length segment) (ta_segmentLengths a)\<rparr>
          in (case int32SegmentIndex (cps_Sequence segment) of
                Inl e \<Rightarrow> (a, Some e)
              | Inr startIndex \<Rightarrow>
                  restore_segments
                    (a\<lparr>ta_bufferedRanges := ta_bufferedRanges a @
                       [\<lparr>br_FormatID = ta_format a, br_StartTimeMs = cps_StartTimeMs segment,
                         br_DurationMs = cps_DurationMs segment, br_StartSegmentIndex = startIndex,
                         br_EndSegmentIndex = startIndex,
                         br_TimeRange = \<lparr>tr_StartTicks = cps_StartTicks segment,
                           tr_DurationTicks = cps_DurationTicks segment,
                           tr_Timescale = cps_Timescale segment\<rparr>\<rparr>]\<rparr>) rest))"

definition restoreCheckpoint ::
    "'w trackAssembler \<Rightarrow> sabrCheckpoint \<Rightarrow> i64 \<Rightarrow> 'w trackAssembler \<times> error option" where
  "restoreCheckpoint a s remaining =
     (case validateCheckpoint s of
        Inl e \<Rightarrow> (a, Some e)
      | Inr _ \<Rightarrow>
          if cp_TotalWritten s > remaining then (a, Some ErrCheckpointInvalid)
          else let a = a\<lparr>ta_initWritten := cp_InitWritten s, ta_initLength := cp_InitLength s\<rparr>
          in (case (if cp_InitWritten s then decodeDigest (cp_InitDigest s) else Inr (ta_initDigest a)) of
                Inl e \<Rightarrow> (a, Some e)
              | Inr digest \<Rightarrow>
                  restore_segments
                    (a\<lparr>ta_initDigest := digest, ta_formatVerified := cp_FormatVerified s,
                       ta_endOfTrackDone := cp_EndOfTrack s, ta_nextSequence := cp_NextSequence s,
                       ta_hasSequence := cp_HasSequence s, ta_cumulativeMs := cp_CumulativeMs s,
                       ta_totalWritten := cp_TotalWritten s, ta_remaining := remaining - cp_TotalWritten s,
                       ta_bufferedRanges := [], ta_writtenSequences := fmempty,
                       ta_segmentLengths := fmempty\<rparr>) (cp_Segments s)))"

section \<open>The bytes of the partial file\<close>

text \<open>\<open>content\<close> is what is left to read; a chunk is consumed by reading it.\<close>

definition verifyPartChunk :: "byte list \<Rightarrow> i64 \<Rightarrow> string \<Rightarrow> byte list res" where
  "verifyPartChunk content len wantDigest =
     (if len \<le> 0 then Inl ErrCheckpointInvalid
      else bind_res (decodeDigest wantDigest) (\<lambda>want.
        let chunk = take (nat len) content
        in if int (length chunk) \<noteq> len then Inl ErrCheckpointInvalid
           else if Sum256 chunk \<noteq> want then Inl ErrCheckpointInvalid
           else Inr (drop (nat len) content)))"

fun verify_segments :: "byte list \<Rightarrow> sabrCheckpointSegment list \<Rightarrow> unit res" where
  "verify_segments content [] = Inr ()"
| "verify_segments content (segment # rest) =
     (case verifyPartChunk content (cps_Length segment) (cps_Digest segment) of
        Inl e \<Rightarrow> Inl ErrCheckpointInvalid
      | Inr content \<Rightarrow> verify_segments content rest)"

text \<open>The partial file is absent (\<open>None\<close>) or a regular file with some bytes.\<close>

definition verifyCheckpointPartBytes :: "byte list option \<Rightarrow> sabrCheckpoint \<Rightarrow> unit res" where
  "verifyCheckpointPartBytes part s =
     bind_res (validateCheckpoint s) (\<lambda>_.
       (case part of
          None \<Rightarrow> Inl ErrCheckpointInvalid
        | Some content \<Rightarrow>
            if int (length content) < cp_TotalWritten s then Inl ErrCheckpointInvalid
            else bind_res
              (if cp_InitWritten s then verifyPartChunk content (cp_InitLength s) (cp_InitDigest s)
               else Inr content) (\<lambda>content. verify_segments content (cp_Segments s))))"

text \<open>\<open>openResumePart\<close> on these files: the bytes of the file as it is opened, at its end.\<close>

definition openResumePart :: "byte list option \<Rightarrow> i64 \<Rightarrow> byte list res" where
  "openResumePart part offset =
     (let content = (case part of None \<Rightarrow> [] | Some bs \<Rightarrow> bs);
          content = (if offset = 0 then [] else content)
      in if offset > 0 then
           (if int (length content) < offset then Inl ErrCheckpointInvalid
            else Inr (take (nat offset) content))
         else Inr content)"

section \<open>Records and logs\<close>

text \<open>
  \<open>records segs cs ss\<close>: the entries \<open>cs\<close> describe the segments \<open>ss\<close> that follow \<open>segs\<close> in a log.
\<close>

definition describes :: "seg list \<Rightarrow> sabrCheckpointSegment \<Rightarrow> seg \<Rightarrow> bool" where
  "describes segs c s \<longleftrightarrow>
     cps_Sequence c = word_of_nat (length segs) \<and> decodeDigest (cps_Digest c) = Inr (hashSegment (seg_data s)) \<and>
     cps_DurationMs c = seg_ms s \<and> cps_StartTimeMs c = log_ms segs \<and>
     cps_Length c = int (length (seg_data s)) \<and>
     \<lparr>tr_StartTicks = cps_StartTicks c, tr_DurationTicks = cps_DurationTicks c,
       tr_Timescale = cps_Timescale c\<rparr> = seg_range s"

fun records :: "seg list \<Rightarrow> sabrCheckpointSegment list \<Rightarrow> seg list \<Rightarrow> bool" where
  "records segs [] [] = True"
| "records segs (c # cs) (s # ss) \<longleftrightarrow> describes segs c s \<and> records (segs @ [s]) cs ss"
| "records segs _ _ = False"

lemma records_length: "records segs cs ss \<Longrightarrow> length cs = length ss"
  by (induction segs cs ss rule: records.induct) auto

text \<open>The tables of an assembler that has the segments \<open>segs\<close>.\<close>

definition tables :: "'w trackAssembler \<Rightarrow> seg list \<Rightarrow> bool" where
  "tables a segs \<longleftrightarrow>
     fmlookup (ta_writtenSequences a) = log_table (\<lambda>s. hashSegment (seg_data s)) segs \<and>
     fmlookup (ta_segmentLengths a) = log_table (\<lambda>s. int (length (seg_data s))) segs \<and>
     ta_bufferedRanges a = log_ranges (ta_format a) segs"

definition same_rest :: "'w trackAssembler \<Rightarrow> 'w trackAssembler \<Rightarrow> bool" where
  "same_rest a a' \<longleftrightarrow> a' = a\<lparr>ta_writtenSequences := ta_writtenSequences a',
     ta_segmentLengths := ta_segmentLengths a', ta_bufferedRanges := ta_bufferedRanges a'\<rparr>"

lemma same_rest_trans: "same_rest a b \<Longrightarrow> same_rest b c \<Longrightarrow> same_rest a c"
  by (cases a; cases b; cases c) (simp add: same_rest_def)

lemma restore_segments_records:
  assumes "records segs cs ss" and "tables a segs" and "int (length segs + length ss) \<le> MaxInt32 + 1"
  shows "\<exists>a'. restore_segments a cs = (a', None) \<and> tables a' (segs @ ss) \<and> same_rest a a'"
  using assms
proof (induction segs cs ss arbitrary: a rule: records.induct)
  case (1 segs)
  then show ?case
    by (simp add: same_rest_def)
next
  case (2 segs c cs s ss)
  let ?k = "word_of_nat (length segs) :: u64"
  define a1 where "a1 = a\<lparr>ta_writtenSequences := fmupd ?k (hashSegment (seg_data s)) (ta_writtenSequences a),
    ta_segmentLengths := fmupd ?k (int (length (seg_data s))) (ta_segmentLengths a),
    ta_bufferedRanges := ta_bufferedRanges a @
      [\<lparr>br_FormatID = ta_format a, br_StartTimeMs = log_ms segs, br_DurationMs = seg_ms s,
        br_StartSegmentIndex = int (length segs), br_EndSegmentIndex = int (length segs),
        br_TimeRange = seg_range s\<rparr>]\<rparr>"
  have d: "describes segs c s" and r: "records (segs @ [s]) cs ss"
    using "2.prems"(1) by simp_all
  have k: "unat ?k = length segs" "int32SegmentIndex ?k = Inr (int (length segs))"
    using "2.prems"(3) by (simp_all add: unat_of_nat int32SegmentIndex_def limits unsigned_of_nat take_bit_nat_eq_self)
  have tables: "tables a1 (segs @ [s])"
    using "2.prems"(2)
    by (simp add: tables_def a1_def log_ranges_snoc log_table_snoc [OF k(1)] fmlookup_upd)
  have "restore_segments a (c # cs) = restore_segments a1 cs"
    using d k(2) by (simp add: describes_def a1_def Let_def)
  moreover obtain a' where "restore_segments a1 cs = (a', None)" "tables a' ((segs @ [s]) @ ss)" "same_rest a1 a'"
    using "2.IH" [OF r tables] "2.prems"(3) by auto
  moreover have "same_rest a a1"
    by (simp add: same_rest_def a1_def)
  ultimately show ?case
    by (intro exI [of _ a']) (auto simp del: restore_segments.simps intro: same_rest_trans)
qed simp_all

lemma snapshot_segments_records:
  assumes "tables a (segs @ ss)" and "int (length segs + length ss) \<le> MaxInt32 + 1"
  shows "\<exists>cs. snapshot_segments a (drop (length segs) (log_ranges f (segs @ ss))) = Inr cs \<and> records segs cs ss"
  using assms
proof (induction ss arbitrary: segs)
  case Nil
  then show ?case
    by (simp add: log_ranges_def)
next
  case (Cons s ss)
  let ?all = "segs @ s # ss"
  let ?k = "word_of_nat (length segs) :: u64"
  have k: "unat ?k = length segs"
    using Cons.prems(2) by (simp add: unat_of_nat limits)
  have drop: "drop (length segs) (log_ranges f ?all) =
      (log_ranges f ?all ! length segs) # drop (length (segs @ [s])) (log_ranges f ((segs @ [s]) @ ss))"
    by (subst Cons_nth_drop_Suc [symmetric]) (simp_all add: log_ranges_def del: upt_Suc)
  have b: "log_ranges f ?all ! length segs =
      \<lparr>br_FormatID = f, br_StartTimeMs = log_ms segs, br_DurationMs = seg_ms s,
       br_StartSegmentIndex = int (length segs), br_EndSegmentIndex = int (length segs),
       br_TimeRange = seg_range s\<rparr>"
    by (simp add: log_ranges_def nth_append)
  have look: "fmlookup (ta_writtenSequences a) ?k = Some (hashSegment (seg_data s))"
    "fmlookup (ta_segmentLengths a) ?k = Some (int (length (seg_data s)))"
    using Cons.prems(1) k by (simp_all add: tables_def log_table_def nth_append)
  obtain cs where cs: "snapshot_segments a (drop (length (segs @ [s])) (log_ranges f ((segs @ [s]) @ ss))) = Inr cs"
    "records (segs @ [s]) cs ss"
    using Cons.IH [of "segs @ [s]"] Cons.prems by auto
  show ?case
    unfolding drop using cs look
    by (simp add: b describes_def decode_encodeDigest hashSegment_def)
qed

text \<open>A list of entries that passes both loops describes the chunks of the file.\<close>

lemma verified_records:
  assumes "segments_loop (length segs) seen (log_ms segs) acc cs = Inr (ms, bytes)"
    and "verify_segments content cs = Inr ()" and "0 \<le> acc"
  shows "\<exists>ss. records segs cs ss \<and> ms = log_ms (segs @ ss) \<and> list_all (\<lambda>s. 0 < seg_ms s) ss \<and>
    bytes = acc + int (length (concat (map seg_data ss))) \<and>
    concat (map seg_data ss) = take (length (concat (map seg_data ss))) content"
  using assms
proof (induction cs arbitrary: segs seen acc content)
  case Nil
  then show ?case
    by (intro exI [of _ "[]"]) simp
next
  case (Cons c cs)
  define n where "n = nat (cps_Length c)"
  define s where "s = \<lparr>seg_data = take n content, seg_ms = cps_DurationMs c,
    seg_range = \<lparr>tr_StartTicks = cps_StartTicks c, tr_DurationTicks = cps_DurationTicks c,
      tr_Timescale = cps_Timescale c\<rparr>\<rparr>"
  obtain w where w: "decodeDigest (cps_Digest c) = Inr w" "0 < cps_Length c"
      "int (length (take n content)) = cps_Length c" "Sum256 (take n content) = w"
    and rest: "verify_segments (drop n content) cs = Inr ()"
    using Cons.prems(2)
    by (auto simp: verifyPartChunk_def bind_res_Inr_iff Let_def n_def split: sum.splits if_splits)
  obtain ms1 ok1 acc1 ok2 where
    m1: "addInt64 (log_ms segs) (cps_DurationMs c) = (ms1, ok1)" and
    m2: "addInt64 acc (cps_Length c) = (acc1, ok2)"
    by fastforce
  have loop: "cps_Sequence c = word_of_nat (length segs)" "0 < cps_DurationMs c"
      "cps_StartTimeMs c = log_ms segs" "ok1" "ok2"
      "segments_loop (Suc (length segs)) (insert (cps_Sequence c) seen) ms1 acc1 cs = Inr (ms, bytes)"
    using Cons.prems(1) w(1,2) m1 m2 by (auto simp: Let_def split: if_splits)
  have ms1: "ms1 = log_ms (segs @ [s])"
    using m1 loop(2,4) by (auto simp: addInt64_def log_ms_snoc s_def split: if_splits)
  have acc1: "acc1 = acc + cps_Length c" "0 \<le> acc1"
    using m2 loop(5) w(2) Cons.prems(3) by (auto simp: addInt64_def in_i64_def limits split: if_splits)
  have "segments_loop (length (segs @ [s])) (insert (cps_Sequence c) seen) (log_ms (segs @ [s])) acc1 cs =
      Inr (ms, bytes)"
    using loop(6) ms1 by simp
  from Cons.IH [OF this rest acc1(2)] obtain ss where ss: "records (segs @ [s]) cs ss"
      "ms = log_ms ((segs @ [s]) @ ss)" "list_all (\<lambda>s. 0 < seg_ms s) ss"
      "bytes = acc1 + int (length (concat (map seg_data ss)))"
      "concat (map seg_data ss) = take (length (concat (map seg_data ss))) (drop n content)"
    by blast
  have "length (take n content) = n"
    using w(2,3) by (simp add: n_def)
  then have "take (n + length (concat (map seg_data ss))) content = take n content @ concat (map seg_data ss)"
    using ss(5) by (simp add: take_add)
  moreover have "describes segs c s"
    using w loop(1,3) by (simp add: describes_def s_def hashSegment_def)
  moreover have "int n = cps_Length c"
    using w(2) by (simp add: n_def)
  ultimately show ?case
    using ss loop(2) acc1(1) \<open>length (take n content) = n\<close>
    by (intro exI [of _ "s # ss"]) (auto simp: s_def)
qed

lemma records_verify:
  assumes "records segs cs ss" and "list_all (\<lambda>s. seg_data s \<noteq> []) ss"
  shows "verify_segments (concat (map seg_data ss) @ junk) cs = Inr ()"
  using assms
  by (induction segs cs ss rule: records.induct)
    (simp_all add: describes_def verifyPartChunk_def hashSegment_def Let_def)

section \<open>Restoring from verified bytes\<close>

lemma validateCheckpoint_Inr:
  assumes "validateCheckpoint s = Inr ()"
  defines "acc \<equiv> (if cp_InitWritten s then cp_InitLength s else 0)"
  shows "segments_loop 0 {} 0 acc (cp_Segments s) = Inr (cp_CumulativeMs s, cp_TotalWritten s)"
    and "0 \<le> acc" and "length (cp_Segments s) \<le> MaxCheckpointSegments"
    and "cp_InitWritten s \<Longrightarrow> 0 < cp_InitLength s \<and> (\<exists>d. decodeDigest (cp_InitDigest s) = Inr d)"
    and "\<not> cp_InitWritten s \<Longrightarrow> cp_InitLength s = 0 \<and> cp_Segments s = [] \<and> \<not> cp_EndOfTrack s"
    and "cp_HasSequence s \<Longrightarrow> cp_NextSequence s = word_of_nat (length (cp_Segments s))"
    and "\<not> cp_HasSequence s \<Longrightarrow> cp_NextSequence s = 0 \<and> cp_Segments s = []"
  using assms(1)
  by (auto simp: validateCheckpoint_def acc_def bind_res_Inr_iff split: if_split_asm)

lemma restored_assembled:
  assumes v: "validateCheckpoint st = Inr ()" and fits: "cp_TotalWritten st \<le> budget"
    and rec: "records [] (cp_Segments st) segs" and ms: "list_all (\<lambda>s. 0 < seg_ms s) segs"
    and cum: "cp_CumulativeMs st = log_ms segs"
    and init: "if cp_InitWritten st
      then init = Some d \<and> decodeDigest (cp_InitDigest st) = Inr (hashSegment d) \<and>
        cp_InitLength st = int (length d)
      else init = None"
    and bytes: "content w = log_bytes init segs" "cp_TotalWritten st = int (length (log_bytes init segs))"
  shows "\<exists>a'. restoreCheckpoint (newTrackAssembler format expected w budget) st budget = (a', None) \<and>
    assembled content budget a' init segs \<and> open_ok a' segs \<and> ta_file a' = w \<and> ta_format a' = format \<and>
    ta_formatVerified a' = cp_FormatVerified st \<and> ta_endOfTrackDone a' = cp_EndOfTrack st \<and>
    ta_hasSequence a' = cp_HasSequence st \<and> ta_nextSequence a' = cp_NextSequence st \<and>
    ta_expectedDurationMs a' = expected \<and> ta_active a' = fmempty"
proof -
  note v' = validateCheckpoint_Inr [OF v]
  have len: "length (cp_Segments st) = length segs"
    using records_length [OF rec] .
  obtain dig where dig: "(if cp_InitWritten st then decodeDigest (cp_InitDigest st) else Inr (replicate 32 0)) = Inr dig"
    using init by (cases "cp_InitWritten st") auto
  define a1 where "a1 = (newTrackAssembler format expected w budget)
      \<lparr>ta_initWritten := cp_InitWritten st, ta_initLength := cp_InitLength st,
       ta_initDigest := dig, ta_formatVerified := cp_FormatVerified st,
       ta_endOfTrackDone := cp_EndOfTrack st, ta_nextSequence := cp_NextSequence st,
       ta_hasSequence := cp_HasSequence st, ta_cumulativeMs := cp_CumulativeMs st,
       ta_totalWritten := cp_TotalWritten st, ta_remaining := budget - cp_TotalWritten st,
       ta_bufferedRanges := [], ta_writtenSequences := fmempty, ta_segmentLengths := fmempty\<rparr>"
  have restore: "restoreCheckpoint (newTrackAssembler format expected w budget) st budget =
      restore_segments a1 (cp_Segments st)"
    using v fits dig by (auto simp: restoreCheckpoint_def a1_def newTrackAssembler_def Let_def split: if_splits)
  have "tables a1 []"
    by (auto simp: tables_def a1_def log_table_def log_ranges_def)
  moreover have bound: "int (length segs) \<le> MaxInt32 + 1"
    using v'(3) len by (simp add: limits)
  ultimately obtain a' where a': "restore_segments a1 (cp_Segments st) = (a', None)" "tables a' segs" "same_rest a1 a'"
    using restore_segments_records [OF rec, of a1] by auto
  have rest: "a' = a1\<lparr>ta_writtenSequences := ta_writtenSequences a',
     ta_segmentLengths := ta_segmentLengths a', ta_bufferedRanges := ta_bufferedRanges a'\<rparr>"
    using a'(3) by (simp add: same_rest_def)
  have fields: "ta_file a' = w" "ta_format a' = format" "ta_initWritten a' = cp_InitWritten st"
      "ta_initLength a' = cp_InitLength st" "ta_initDigest a' = dig" "ta_active a' = fmempty"
      "ta_formatVerified a' = cp_FormatVerified st" "ta_endOfTrackDone a' = cp_EndOfTrack st"
      "ta_hasSequence a' = cp_HasSequence st" "ta_nextSequence a' = cp_NextSequence st"
      "ta_cumulativeMs a' = cp_CumulativeMs st" "ta_totalWritten a' = cp_TotalWritten st"
      "ta_remaining a' = budget - cp_TotalWritten st" "ta_expectedDurationMs a' = expected"
    by (subst rest; simp add: a1_def newTrackAssembler_def)+
  have "assembled content budget a' init segs"
    using fields a'(2) bytes init dig v'(5,6,7) ms cum bound fits len
    by (auto simp: assembled_def tables_def split: if_splits)
  moreover have "open_ok a' segs"
    using fields by (simp add: open_ok_def)
  ultimately show ?thesis
    using restore a'(1) fields by simp
qed

lemma log_ms_Nil [simp]: "log_ms [] = 0"
  by (simp add: log_ms_def wrap64_def)

lemma verified_log:
  assumes "verifyCheckpointPartBytes (Some bytes) st = Inr ()"
  shows "\<exists>init segs d. records [] (cp_Segments st) segs \<and> list_all (\<lambda>s. 0 < seg_ms s) segs \<and>
    cp_CumulativeMs st = log_ms segs \<and>
    (if cp_InitWritten st
      then init = Some d \<and> decodeDigest (cp_InitDigest st) = Inr (hashSegment d) \<and> cp_InitLength st = int (length d)
      else init = None) \<and>
    cp_TotalWritten st = int (length (log_bytes init segs)) \<and>
    log_bytes init segs = take (nat (cp_TotalWritten st)) bytes \<and> validateCheckpoint st = Inr ()"
proof -
  have v: "validateCheckpoint st = Inr ()"
    using assms by (auto simp: verifyCheckpointPartBytes_def bind_res_Inr_iff)
  note v' = validateCheckpoint_Inr [OF v]
  define acc where "acc = (if cp_InitWritten st then cp_InitLength st else 0)"
  define rest where "rest = drop (nat acc) bytes"
  define d where "d = take (nat acc) bytes"
  have init: "cp_InitWritten st \<Longrightarrow> decodeDigest (cp_InitDigest st) = Inr (hashSegment d) \<and>
      cp_InitLength st = int (length d)"
    and segs: "verify_segments rest (cp_Segments st) = Inr ()"
    using assms
    by (auto simp: verifyCheckpointPartBytes_def verifyPartChunk_def bind_res_Inr_iff Let_def acc_def rest_def d_def
        hashSegment_def split: if_splits)
  obtain ss where ss: "records [] (cp_Segments st) ss" "cp_CumulativeMs st = log_ms ss"
      "list_all (\<lambda>s. 0 < seg_ms s) ss"
      "cp_TotalWritten st = acc + int (length (concat (map seg_data ss)))"
      "concat (map seg_data ss) = take (length (concat (map seg_data ss))) rest"
    using verified_records [of "[]" "{}" acc "cp_Segments st"] v'(1,2) segs by (auto simp: acc_def)
  have acc: "int (length d) = acc" "0 \<le> acc"
    using init v'(2) by (auto simp: acc_def d_def)
  define i where "i = (if cp_InitWritten st then Some d else None)"
  have log: "log_bytes i ss = d @ concat (map seg_data ss)"
    using acc by (auto simp: i_def log_bytes_def acc_def split: if_splits)
  have "nat (cp_TotalWritten st) = nat acc + length (concat (map seg_data ss))"
    using ss(4) acc(2) by (simp add: nat_add_distrib)
  then have "take (nat (cp_TotalWritten st)) bytes = log_bytes i ss"
    using ss(5) by (simp add: log take_add d_def rest_def)
  moreover have "cp_TotalWritten st = int (length (log_bytes i ss))"
    using ss(4) acc by (simp add: log)
  ultimately show ?thesis
    using ss(1-3) init v
    by (intro exI [of _ i] exI [of _ ss] exI [of _ d]) (simp add: i_def)
qed

lemma openResumePart_take:
  "0 \<le> offset \<Longrightarrow> offset \<le> int (length bs) \<Longrightarrow> openResumePart (Some bs) offset = Inr (take (nat offset) bs)"
  by (auto simp: openResumePart_def)

lemma segments_loop_lengths:
  "segments_loop i seen ms acc cs = Inr r \<Longrightarrow> list_all (\<lambda>c. 0 < cps_Length c) cs"
  by (induction i seen ms acc cs arbitrary: r rule: segments_loop.induct)
    (auto simp: Let_def bind_res_Inr_iff split: if_splits prod.splits)

lemma records_nonempty:
  "records segs cs ss \<Longrightarrow> list_all (\<lambda>c. 0 < cps_Length c) cs \<Longrightarrow> list_all (\<lambda>s. seg_data s \<noteq> []) ss"
  by (induction segs cs ss rule: records.induct) (auto simp: describes_def)

section \<open>Snapshots describe the file\<close>

lemma snapshotCheckpoint_Inr:
  assumes "assembled content budget a init segs" and "snapshotCheckpoint a i = Inr st"
  shows "records [] (cp_Segments st) segs" and "validateCheckpoint st = Inr ()" and "matches i st"
    and "cp_CumulativeMs st = log_ms segs" and "cp_TotalWritten st = int (length (log_bytes init segs))"
    and "cp_InitWritten st = (init \<noteq> None)"
    and "\<And>d. init = Some d \<Longrightarrow> decodeDigest (cp_InitDigest st) = Inr (hashSegment d) \<and>
      cp_InitLength st = int (length d)"
    and "cp_FormatVerified st = ta_formatVerified a" and "cp_EndOfTrack st = ta_endOfTrackDone a"
    and "cp_HasSequence st = ta_hasSequence a" and "cp_NextSequence st = ta_nextSequence a"
proof -
  have tables: "tables a segs" and bound: "int (length segs) \<le> MaxInt32 + 1"
    and ranges: "ta_bufferedRanges a = log_ranges (ta_format a) segs"
    using assms(1) by (simp_all add: assembled_def tables_def)
  obtain cs where cs: "snapshot_segments a (log_ranges (ta_format a) segs) = Inr cs" "records [] cs segs"
    using snapshot_segments_records [of a "[]" segs "ta_format a"] tables bound by auto
  define s where "s = (baseCheckpoint i)
            \<lparr>cp_InitWritten := ta_initWritten a,
             cp_InitDigest := (if ta_initWritten a then encodeDigest (ta_initDigest a) else []),
             cp_InitLength := (if ta_initWritten a then ta_initLength a else 0),
             cp_FormatVerified := ta_formatVerified a,
             cp_EndOfTrack := ta_endOfTrackDone a, cp_NextSequence := ta_nextSequence a,
             cp_HasSequence := ta_hasSequence a, cp_CumulativeMs := ta_cumulativeMs a,
             cp_TotalWritten := ta_totalWritten a, cp_Segments := cs\<rparr>"
  have st: "st = s" "validateCheckpoint s = Inr ()"
    using assms(2) cs(1) unfolding snapshotCheckpoint_def ranges s_def
    by (auto simp: Let_def bind_res_Inr_iff baseCheckpoint_def split: if_splits)
  show "records [] (cp_Segments st) segs" "validateCheckpoint st = Inr ()" "matches i st"
    using cs(2) st by (simp_all add: s_def matches_def baseCheckpoint_def)
  show "cp_CumulativeMs st = log_ms segs" "cp_TotalWritten st = int (length (log_bytes init segs))"
    "cp_InitWritten st = (init \<noteq> None)"
    using assms(1) st(1) by (simp_all add: s_def assembled_def)
  show "decodeDigest (cp_InitDigest st) = Inr (hashSegment d) \<and> cp_InitLength st = int (length d)"
    if "init = Some d" for d
    using that assms(1) st(1) by (simp add: s_def assembled_def decode_encodeDigest hashSegment_def)
  show "cp_FormatVerified st = ta_formatVerified a" "cp_EndOfTrack st = ta_endOfTrackDone a"
    "cp_HasSequence st = ta_hasSequence a" "cp_NextSequence st = ta_nextSequence a"
    using st(1) by (simp_all add: s_def)
qed

text \<open>A checkpoint verifies against any file that begins with the log it records.\<close>

lemma recorded_verifies:
  assumes rec: "records [] (cp_Segments st) segs" and valid: "validateCheckpoint st = Inr ()"
    and total: "cp_TotalWritten st = int (length (log_bytes init segs))" and init: "cp_InitWritten st = (init \<noteq> None)"
    and digest: "\<And>d. init = Some d \<Longrightarrow> decodeDigest (cp_InitDigest st) = Inr (hashSegment d) \<and>
      cp_InitLength st = int (length d)"
  shows "verifyCheckpointPartBytes (Some (log_bytes init segs @ tail)) st = Inr ()"
proof -
  note v = validateCheckpoint_Inr [OF valid]
  have data: "list_all (\<lambda>s. seg_data s \<noteq> []) segs"
    using records_nonempty [OF rec segments_loop_lengths [OF v(1)]] .
  show ?thesis
  proof (cases init)
    case None
    then show ?thesis
      using valid total init records_verify [OF rec data]
      by (simp add: verifyCheckpointPartBytes_def log_bytes_def)
  next
    case (Some d)
    then have "verifyPartChunk (log_bytes init segs @ tail) (cp_InitLength st) (cp_InitDigest st) =
        Inr (concat (map seg_data segs) @ tail)"
      using init digest [OF Some] v(4)
      by (simp add: verifyPartChunk_def log_bytes_def hashSegment_def)
    then show ?thesis
      using valid total init Some records_verify [OF rec data]
      by (simp add: verifyCheckpointPartBytes_def)
  qed
qed

lemma snapshot_verifies:
  assumes a: "assembled content budget a init segs" and snap: "snapshotCheckpoint a i = Inr st"
  shows "verifyCheckpointPartBytes (Some (content (ta_file a) @ tail)) st = Inr ()"
proof -
  note s = snapshotCheckpoint_Inr [OF a snap]
  have "content (ta_file a) = log_bytes init segs"
    using a by (simp add: assembled_def)
  with recorded_verifies [OF s(1,2,5,6,7)] show ?thesis by simp
qed

section \<open>When a snapshot is possible\<close>

lemma log_ms_exact: "0 \<le> sum_list (map seg_ms segs) \<Longrightarrow> sum_list (map seg_ms segs) \<le> MaxInt64 \<Longrightarrow>
    log_ms segs = sum_list (map seg_ms segs)"
  by (simp add: log_ms_def in_i64_def limits)

lemma sum_ms_nonneg: "list_all (\<lambda>s. 0 < seg_ms s) segs \<Longrightarrow> 0 \<le> sum_list (map seg_ms segs)"
  by (induction segs) auto

lemma records_loop:
  assumes "records segs cs ss" and "seen \<subseteq> {k. unat k < length segs}"
    and "list_all (\<lambda>s. 0 < seg_ms s) (segs @ ss)" and "list_all (\<lambda>s. seg_data s \<noteq> []) ss"
    and "sum_list (map seg_ms (segs @ ss)) \<le> MaxInt64"
    and "0 \<le> acc" and "acc + int (length (concat (map seg_data ss))) \<le> MaxInt64"
    and "int (length (segs @ ss)) \<le> MaxInt32 + 1"
  shows "segments_loop (length segs) seen (log_ms segs) acc cs =
    Inr (log_ms (segs @ ss), acc + int (length (concat (map seg_data ss))))"
  using assms
proof (induction segs cs ss arbitrary: seen acc rule: records.induct)
  case (2 segs c cs s ss)
  let ?k = "word_of_nat (length segs) :: u64"
  have d: "describes segs c s" and r: "records (segs @ [s]) cs ss"
    using "2.prems"(1) by simp_all
  have k: "unat ?k = length segs"
    using "2.prems"(8) by (simp add: unat_of_nat limits)
  have pos: "0 \<le> sum_list (map seg_ms segs)" "0 < seg_ms s" "0 \<le> sum_list (map seg_ms ss)" "seg_data s \<noteq> []"
    using "2.prems"(3,4) sum_ms_nonneg by auto
  have exact: "log_ms segs = sum_list (map seg_ms segs)" "log_ms (segs @ [s]) = log_ms segs + seg_ms s"
    using "2.prems"(5) pos by (simp_all add: log_ms_exact)
  have m1: "addInt64 (log_ms segs) (seg_ms s) = (log_ms (segs @ [s]), True)"
    using exact pos "2.prems"(5) by (simp add: addInt64_def in_i64_def limits)
  have m2: "addInt64 acc (int (length (seg_data s))) = (acc + int (length (seg_data s)), True)"
    using "2.prems"(6,7) by (auto simp: addInt64_def in_i64_def limits)
  have "?k \<notin> seen"
    using "2.prems"(2) k by auto
  moreover have "0 \<le> log_ms segs"
    using exact(1) pos(1) by simp
  ultimately have "segments_loop (length segs) seen (log_ms segs) acc (c # cs) =
      segments_loop (length (segs @ [s])) (insert ?k seen) (log_ms (segs @ [s])) (acc + int (length (seg_data s))) cs"
    using d m1 m2 pos by (simp add: describes_def Let_def)
  also have "\<dots> = Inr (log_ms ((segs @ [s]) @ ss),
      acc + int (length (seg_data s)) + int (length (concat (map seg_data ss))))"
    by (rule "2.IH" [OF r]) (use "2.prems" k in auto)
  finally show ?case by simp
qed simp_all

lemma snapshot_possible:
  assumes a: "assembled content budget a init segs" and budget: "budget \<le> MaxMediaBytes"
    and small: "length segs \<le> MaxCheckpointSegments"
    and data: "list_all (\<lambda>s. seg_data s \<noteq> []) segs" "init \<noteq> Some []"
    and ms: "sum_list (map seg_ms segs) \<le> MaxInt64"
    and seq: "ta_hasSequence a \<longleftrightarrow> segs \<noteq> []" "\<not> ta_hasSequence a \<longrightarrow> ta_nextSequence a = 0"
    and ver: "segs \<noteq> [] \<longrightarrow> ta_formatVerified a" "ta_endOfTrackDone a \<longrightarrow> segs \<noteq> []"
    and ident: "identity_ok (baseCheckpoint i)"
  shows "\<exists>st. snapshotCheckpoint a i = Inr st"
proof -
  have tables: "tables a segs" and bound: "int (length segs) \<le> MaxInt32 + 1"
    and ranges: "ta_bufferedRanges a = log_ranges (ta_format a) segs"
    using a by (simp_all add: assembled_def tables_def)
  obtain cs where cs: "snapshot_segments a (log_ranges (ta_format a) segs) = Inr cs" "records [] cs segs"
    using snapshot_segments_records [of a "[]" segs "ta_format a"] tables bound by auto
  define s where "s = (baseCheckpoint i)
            \<lparr>cp_InitWritten := ta_initWritten a,
             cp_InitDigest := (if ta_initWritten a then encodeDigest (ta_initDigest a) else []),
             cp_InitLength := (if ta_initWritten a then ta_initLength a else 0),
             cp_FormatVerified := ta_formatVerified a,
             cp_EndOfTrack := ta_endOfTrackDone a, cp_NextSequence := ta_nextSequence a,
             cp_HasSequence := ta_hasSequence a, cp_CumulativeMs := ta_cumulativeMs a,
             cp_TotalWritten := ta_totalWritten a, cp_Segments := cs\<rparr>"
  define acc where "acc = (case init of None \<Rightarrow> 0 | Some d \<Rightarrow> int (length d))"
  have total: "ta_totalWritten a = acc + int (length (concat (map seg_data segs)))"
    "ta_totalWritten a \<le> MaxMediaBytes"
    using a budget by (auto simp: assembled_def acc_def log_bytes_def split: option.splits)
  have pos: "0 \<le> log_ms segs"
    using ms a sum_ms_nonneg [of segs] by (simp add: assembled_def log_ms_exact)
  have loop: "segments_loop 0 {} 0 acc cs = Inr (ta_cumulativeMs a, ta_totalWritten a)"
    using records_loop [OF cs(2), of "{}" acc] a data(1) ms total bound
    by (simp add: assembled_def acc_def limits split: option.splits)
  have len: "length cs = length segs"
    using records_length [OF cs(2)] .
  have "validateCheckpoint s = Inr ()"
  proof (cases init)
    case None
    then have "\<not> ta_initWritten a" "segs = []"
      using a by (auto simp: assembled_def)
    then show ?thesis
      using loop len None seq ver ident total pos a
      by (auto simp: validateCheckpoint_def s_def acc_def assembled_def identity_ok_def baseCheckpoint_def limits)
  next
    case (Some d)
    then have "ta_initWritten a" "ta_initLength a = int (length d)" "ta_initDigest a = hashSegment d" "d \<noteq> []"
      using a data(2) by (auto simp: assembled_def)
    moreover have "decodeDigest (encodeDigest (hashSegment d)) = Inr (hashSegment d)" "encodeDigest (hashSegment d) \<noteq> []"
      using decode_encodeDigest [of "hashSegment d"] length_hex_EncodeToString [of "hashSegment d"]
      by (auto simp: hashSegment_def encodeDigest_def simp flip: length_greater_0_conv
          simp del: length_hex_EncodeToString)
    ultimately show ?thesis
      using loop len Some seq ver ident total pos small a
      by (auto simp: validateCheckpoint_def s_def acc_def assembled_def identity_ok_def baseCheckpoint_def limits)
  qed
  moreover have "length (log_ranges (ta_format a) segs) \<le> MaxCheckpointSegments"
    using small by (simp add: log_ranges_def)
  ultimately have "snapshotCheckpoint a i = Inr s"
    using cs(1) unfolding snapshotCheckpoint_def ranges s_def
    by (auto simp: Let_def baseCheckpoint_def)
  then show ?thesis ..
qed

end
