(* ===== verification/Directives.thy ===== *)
theory Directives
  imports Proto Request
begin

text \<open>
  The parsers of the control parts: \<open>directives.go\<close>, and the next-request policy with the playback
  cookie of \<open>control.go\<close>. The local variables of a parser (the directive under construction and its
  \<open>seen\<close> flags) are the state of the field loop, a record that extends the directive. Every parser
  is an instance of the locale \<open>wire_message\<close>; the lemmas state what an accepted directive
  satisfies. \<open>parseSabrContextSendingPolicy\<close> advances the counter \<open>*ops\<close>; the new value is part of its
  result (after an error nobody reads the counter again).
\<close>

section \<open>Field numbers and enumerations\<close>

abbreviation fSabrRedirectURL :: u64 where "fSabrRedirectURL \<equiv> 1"
abbreviation fSabrContextType :: u64 where "fSabrContextType \<equiv> 1"
abbreviation fSabrContextScope :: u64 where "fSabrContextScope \<equiv> 2"
abbreviation fSabrContextValue :: u64 where "fSabrContextValue \<equiv> 3"
abbreviation fSabrContextSendByDefault :: u64 where "fSabrContextSendByDefault \<equiv> 4"
abbreviation fSabrContextWritePolicy :: u64 where "fSabrContextWritePolicy \<equiv> 5"
abbreviation fSabrSendingPolicyStart :: u64 where "fSabrSendingPolicyStart \<equiv> 1"
abbreviation fSabrSendingPolicyStop :: u64 where "fSabrSendingPolicyStop \<equiv> 2"
abbreviation fSabrSendingPolicyDiscard :: u64 where "fSabrSendingPolicyDiscard \<equiv> 3"
abbreviation fStreamerSabrContextType :: u64 where "fStreamerSabrContextType \<equiv> 1"
abbreviation fStreamerSabrContextValue :: u64 where "fStreamerSabrContextValue \<equiv> 2"
abbreviation fSabrErrorType :: u64 where "fSabrErrorType \<equiv> 1"
abbreviation fSabrErrorCode :: u64 where "fSabrErrorCode \<equiv> 2"
abbreviation fReloadPlaybackContextParams :: u64 where "fReloadPlaybackContextParams \<equiv> 1"
abbreviation fReloadPlaybackParamsToken :: u64 where "fReloadPlaybackParamsToken \<equiv> 1"
abbreviation fPolicyBackoffTimeMs :: u64 where "fPolicyBackoffTimeMs \<equiv> 4"
abbreviation fPolicyPlaybackCookie :: u64 where "fPolicyPlaybackCookie \<equiv> 7"
abbreviation fPlaybackCookieField1 :: u64 where "fPlaybackCookieField1 \<equiv> 1"
abbreviation fPlaybackCookieField2 :: u64 where "fPlaybackCookieField2 \<equiv> 2"
abbreviation fPlaybackCookieFormatID :: u64 where "fPlaybackCookieFormatID \<equiv> 7"
abbreviation fPlaybackCookieAltFmtID :: u64 where "fPlaybackCookieAltFmtID \<equiv> 8"

abbreviation SabrContextScopeUnknown :: i32 where "SabrContextScopeUnknown \<equiv> 0"
abbreviation SabrContextScopeContentAds :: i32 where "SabrContextScopeContentAds \<equiv> 4"
abbreviation SabrContextWriteUnspecified :: i32 where "SabrContextWriteUnspecified \<equiv> 0"
abbreviation SabrContextWriteKeepExisting :: i32 where "SabrContextWriteKeepExisting \<equiv> 2"

section \<open>Integers and text on the wire\<close>

definition protoInt32FromVarint :: "u64 \<Rightarrow> i32 res" where
  "protoInt32FromVarint v = Inr (wrap32 (uint v))"

definition bumpCount :: "int \<Rightarrow> int \<Rightarrow> int \<Rightarrow> int res" where
  "bumpCount dst n limit =
     (if n < 0 \<or> limit < 0 then Inl ErrInvalidContextState
      else if n > limit - dst then Inl ErrInvalidContextState
      else Inr (dst + n))"

function packed_loop :: "byte list \<Rightarrow> int \<Rightarrow> i32 list \<Rightarrow> (i32 list \<times> int) res" where
  "packed_loop bs ops acc =
     (if bs = [] then Inr (acc, ops)
      else bind_res (bumpCount ops 1 MaxSabrContextPolicyOps) (\<lambda>ops.
           case readProtobufVarint bs of
             Inl e \<Rightarrow> Inl e
           | Inr (raw, n) \<Rightarrow>
               bind_res (protoInt32FromVarint raw) (\<lambda>v. packed_loop (drop n bs) ops (acc @ [v]))))"
  by pat_completeness auto
termination
  by (relation "measure (\<lambda>(bs, ops, acc). length bs)")
    (auto dest!: readProtobufVarint_size)

declare packed_loop.simps [simp del]

definition decodePackedProtoInt32 :: "byte list \<Rightarrow> int \<Rightarrow> (i32 list \<times> int) res" where
  "decodePackedProtoInt32 bs ops = packed_loop bs ops []"

definition readRepeatedProtoInt32 ::
    "fieldReader \<Rightarrow> nat \<Rightarrow> int \<Rightarrow> (fieldReader \<times> i32 list \<times> int) res" where
  "readRepeatedProtoInt32 r wireType ops =
     (if wireType = wireVarint then
        bind_res (bumpCount ops 1 MaxSabrContextPolicyOps) (\<lambda>ops.
        bind_res (checked_varint r) (\<lambda>(r, raw).
        bind_res (protoInt32FromVarint raw) (\<lambda>v. Inr (r, [v], ops))))
      else if wireType = wireBytes then
        bind_res (checked_bytes r) (\<lambda>(r, packed).
        bind_res (decodePackedProtoInt32 packed ops) (\<lambda>(vs, ops). Inr (r, vs, ops)))
      else Inl ErrInvalidProtobuf)"

text \<open>\<open>utf8.Valid\<close>.\<close>

definition cont_byte_in :: "byte \<Rightarrow> byte \<Rightarrow> byte \<Rightarrow> bool" where
  "cont_byte_in lo hi b \<longleftrightarrow> lo \<le> b \<and> b \<le> hi"

fun utf8_Valid :: "byte list \<Rightarrow> bool" where
  "utf8_Valid [] = True"
| "utf8_Valid (a # s) =
     (if a < 0x80 then utf8_Valid s
      else if cont_byte_in 0xC2 0xDF a then
        (case s of b # s' \<Rightarrow> cont_byte_in 0x80 0xBF b \<and> utf8_Valid s' | _ \<Rightarrow> False)
      else if cont_byte_in 0xE0 0xEF a then
        (case s of
           b # c # s' \<Rightarrow>
             cont_byte_in (if a = 0xE0 then 0xA0 else 0x80) (if a = 0xED then 0x9F else 0xBF) b \<and>
             cont_byte_in 0x80 0xBF c \<and> utf8_Valid s'
         | _ \<Rightarrow> False)
      else if cont_byte_in 0xF0 0xF4 a then
        (case s of
           b # c # d # s' \<Rightarrow>
             cont_byte_in (if a = 0xF0 then 0x90 else 0x80) (if a = 0xF4 then 0x8F else 0xBF) b \<and>
             cont_byte_in 0x80 0xBF c \<and> cont_byte_in 0x80 0xBF d \<and> utf8_Valid s'
         | _ \<Rightarrow> False)
      else False)"

section \<open>SABR_REDIRECT\<close>

record sabrRedirectDirective =
  srd_URL :: string

record redirect_parser = sabrRedirectDirective +
  seenURL :: bool

definition redirect_step :: "redirect_parser step" where
  "redirect_step num wireType r d =
     (if num = fSabrRedirectURL then
        (if wireType \<noteq> wireBytes then Inl ErrInvalidProtobuf
         else if seenURL d then Inl ErrInvalidProtobuf
         else bind_res (checked_bytes r) (\<lambda>(r, raw).
                if raw = [] then Inl ErrUnsafeRedirect
                else if length raw > MaxRedirectURLBytes then Inl ErrUnsafeRedirect
                else Inr (r, d\<lparr>seenURL := True, srd_URL := str_of raw\<rparr>)))
      else Inr (skip_field r num wireType, d))"

definition parseSabrRedirect :: "byte list \<Rightarrow> sabrRedirectDirective res" where
  "parseSabrRedirect payload =
     bind_res (parse_fields redirect_step payload \<lparr>srd_URL = [], seenURL = False\<rparr>) (\<lambda>d.
       if \<not> seenURL d then Inl ErrUnsafeRedirect
       else (case ValidateSABRURL (srd_URL d) of
               Inl _ \<Rightarrow> Inl ErrUnsafeRedirect
             | Inr _ \<Rightarrow> Inr (sabrRedirectDirective.truncate d)))"

section \<open>SABR_CONTEXT_UPDATE\<close>

record sabrContextUpdateDirective =
  scu_Type :: i32
  scu_Scope :: i32
  scu_Value :: "byte list"
  scu_SendByDefault :: bool
  scu_WritePolicy :: i32

record update_parser = sabrContextUpdateDirective +
  seenType :: bool
  seenScope :: bool
  seenValue :: bool
  seenSend :: bool
  seenPolicy :: bool

definition update_step :: "update_parser step" where
  "update_step num wireType r d =
     (if num = fSabrContextType then
        (if wireType \<noteq> wireVarint then Inl ErrInvalidProtobuf
         else if seenType d then Inl ErrInvalidProtobuf
         else bind_res (checked_varint r) (\<lambda>(r, raw).
              bind_res (protoInt32FromVarint raw) (\<lambda>v.
                Inr (r, d\<lparr>seenType := True, scu_Type := v\<rparr>))))
      else if num = fSabrContextScope then
        (if wireType \<noteq> wireVarint then Inl ErrInvalidProtobuf
         else if seenScope d then Inl ErrInvalidProtobuf
         else bind_res (checked_varint r) (\<lambda>(r, raw).
              bind_res (protoInt32FromVarint raw) (\<lambda>v.
                if v < SabrContextScopeUnknown \<or> v > SabrContextScopeContentAds
                then Inl ErrInvalidContextState
                else Inr (r, d\<lparr>seenScope := True, scu_Scope := v\<rparr>))))
      else if num = fSabrContextValue then
        (if wireType \<noteq> wireBytes then Inl ErrInvalidProtobuf
         else if seenValue d then Inl ErrInvalidProtobuf
         else bind_res (checked_bytes r) (\<lambda>(r, raw).
                if raw = [] then Inl ErrInvalidContextState
                else if length raw > MaxSabrContextValueBytes then Inl ErrInvalidContextState
                else Inr (r, d\<lparr>seenValue := True, scu_Value := raw\<rparr>)))
      else if num = fSabrContextSendByDefault then
        (if wireType \<noteq> wireVarint then Inl ErrInvalidProtobuf
         else if seenSend d then Inl ErrInvalidProtobuf
         else let (r, v) = read_varint r
              in Inr (r, d\<lparr>seenSend := True, scu_SendByDefault := (v \<noteq> 0)\<rparr>))
      else if num = fSabrContextWritePolicy then
        (if wireType \<noteq> wireVarint then Inl ErrInvalidProtobuf
         else if seenPolicy d then Inl ErrInvalidProtobuf
         else bind_res (checked_varint r) (\<lambda>(r, raw).
              bind_res (protoInt32FromVarint raw) (\<lambda>v.
                if v < SabrContextWriteUnspecified \<or> v > SabrContextWriteKeepExisting
                then Inl ErrInvalidContextState
                else Inr (r, d\<lparr>seenPolicy := True, scu_WritePolicy := v\<rparr>))))
      else Inr (skip_field r num wireType, d))"

definition zeroUpdate :: update_parser where
  "zeroUpdate = \<lparr>scu_Type = 0, scu_Scope = 0, scu_Value = [], scu_SendByDefault = False,
     scu_WritePolicy = 0, seenType = False, seenScope = False, seenValue = False,
     seenSend = False, seenPolicy = False\<rparr>"

definition parseSabrContextUpdate :: "byte list \<Rightarrow> sabrContextUpdateDirective res" where
  "parseSabrContextUpdate payload =
     bind_res (parse_fields update_step payload zeroUpdate) (\<lambda>d.
       if \<not> seenType d \<or> scu_Type d \<le> 0 then Inl ErrInvalidContextState
       else if \<not> seenValue d then Inl ErrInvalidContextState
       else Inr (sabrContextUpdateDirective.truncate d))"

section \<open>SABR_CONTEXT_SENDING_POLICY\<close>

record sabrContextSendingPolicyDirective =
  ssp_Start :: "i32 list"
  ssp_Stop :: "i32 list"
  ssp_Discard :: "i32 list"

record policy_parser = sabrContextSendingPolicyDirective +
  ops_count :: int

definition policy_step :: "policy_parser step" where
  "policy_step num wireType r d =
     (if num = fSabrSendingPolicyStart then
        bind_res (readRepeatedProtoInt32 r wireType (ops_count d)) (\<lambda>(r, vs, ops).
          Inr (r, d\<lparr>ssp_Start := ssp_Start d @ vs, ops_count := ops\<rparr>))
      else if num = fSabrSendingPolicyStop then
        bind_res (readRepeatedProtoInt32 r wireType (ops_count d)) (\<lambda>(r, vs, ops).
          Inr (r, d\<lparr>ssp_Stop := ssp_Stop d @ vs, ops_count := ops\<rparr>))
      else if num = fSabrSendingPolicyDiscard then
        bind_res (readRepeatedProtoInt32 r wireType (ops_count d)) (\<lambda>(r, vs, ops).
          Inr (r, d\<lparr>ssp_Discard := ssp_Discard d @ vs, ops_count := ops\<rparr>))
      else Inr (skip_field r num wireType, d))"

definition parseSabrContextSendingPolicy ::
    "byte list \<Rightarrow> int \<Rightarrow> (sabrContextSendingPolicyDirective \<times> int) res" where
  "parseSabrContextSendingPolicy payload ops =
     bind_res (parse_fields policy_step payload
         \<lparr>ssp_Start = [], ssp_Stop = [], ssp_Discard = [], ops_count = ops\<rparr>) (\<lambda>d.
       if list_ex (\<lambda>v. v \<le> 0) (ssp_Start d @ ssp_Stop d @ ssp_Discard d)
       then Inl ErrInvalidContextState
       else Inr (sabrContextSendingPolicyDirective.truncate d, ops_count d))"

section \<open>SABR_ERROR\<close>

record sabrErrorDirective =
  sed_Type :: string
  sed_Code :: i32

record error_parser = sabrErrorDirective +
  seenErrType :: bool
  seenCode :: bool

definition error_step :: "error_parser step" where
  "error_step num wireType r d =
     (if num = fSabrErrorType then
        (if wireType \<noteq> wireBytes then Inl ErrInvalidProtobuf
         else if seenErrType d then Inl ErrInvalidProtobuf
         else bind_res (checked_bytes r) (\<lambda>(r, raw).
                if raw = [] then Inl ErrInvalidProtobuf
                else if length raw > MaxSabrErrorTypeBytes then Inl ErrInvalidProtobuf
                else Inr (r, d\<lparr>seenErrType := True, sed_Type := str_of raw\<rparr>)))
      else if num = fSabrErrorCode then
        (if wireType \<noteq> wireVarint then Inl ErrInvalidProtobuf
         else if seenCode d then Inl ErrInvalidProtobuf
         else bind_res (checked_varint r) (\<lambda>(r, raw).
              bind_res (protoInt32FromVarint raw) (\<lambda>v.
                Inr (r, d\<lparr>seenCode := True, sed_Code := v\<rparr>))))
      else Inr (skip_field r num wireType, d))"

definition parseSabrError :: "byte list \<Rightarrow> sabrErrorDirective res" where
  "parseSabrError payload =
     bind_res (parse_fields error_step payload
         \<lparr>sed_Type = [], sed_Code = 0, seenErrType = False, seenCode = False\<rparr>) (\<lambda>d.
       if \<not> seenErrType d \<or> \<not> seenCode d then Inl ErrInvalidProtobuf
       else Inr (sabrErrorDirective.truncate d))"

section \<open>RELOAD_PLAYER_RESPONSE\<close>

record reloadPlayerDirective =
  rpd_Token :: string

record token_parser =
  tp_token :: string
  seenToken :: bool

definition token_step :: "token_parser step" where
  "token_step num wireType r d =
     (if num = fReloadPlaybackParamsToken then
        (if wireType \<noteq> wireBytes then Inl ErrInvalidProtobuf
         else if seenToken d then Inl ErrInvalidProtobuf
         else bind_res (checked_bytes r) (\<lambda>(r, raw).
                if raw = [] then Inl ErrInvalidProtobuf
                else if length raw > MaxReloadTokenBytes then Inl ErrInvalidProtobuf
                else if \<not> utf8_Valid raw then Inl ErrInvalidProtobuf
                else Inr (r, d\<lparr>seenToken := True, tp_token := str_of raw\<rparr>)))
      else Inr (skip_field r num wireType, d))"

definition parseReloadPlaybackParams :: "byte list \<Rightarrow> string res" where
  "parseReloadPlaybackParams payload =
     bind_res (parse_fields token_step payload \<lparr>tp_token = [], seenToken = False\<rparr>) (\<lambda>d.
       if \<not> seenToken d \<or> tp_token d = [] then Inl ErrInvalidProtobuf else Inr (tp_token d))"

record reload_parser = reloadPlayerDirective +
  seenParams :: bool

definition reload_step :: "reload_parser step" where
  "reload_step num wireType r d =
     (if num = fReloadPlaybackContextParams then
        (if wireType \<noteq> wireBytes then Inl ErrInvalidProtobuf
         else if seenParams d then Inl ErrInvalidProtobuf
         else bind_res (checked_bytes r) (\<lambda>(r, raw).
              bind_res (parseReloadPlaybackParams raw) (\<lambda>token.
                Inr (r, d\<lparr>seenParams := True, rpd_Token := token\<rparr>))))
      else Inr (skip_field r num wireType, d))"

definition parseReloadPlayerResponse :: "byte list \<Rightarrow> reloadPlayerDirective res" where
  "parseReloadPlayerResponse payload =
     bind_res (parse_fields reload_step payload \<lparr>rpd_Token = [], seenParams = False\<rparr>) (\<lambda>d.
       if \<not> seenParams d \<or> rpd_Token d = [] then Inl ErrInvalidProtobuf
       else Inr (reloadPlayerDirective.truncate d))"

section \<open>NEXT_REQUEST_POLICY\<close>

text \<open>The flags of \<open>validateEmbeddedFormatID\<close>.\<close>

record embedded_parser =
  seenItag :: bool
  seenLastModified :: bool
  seenXTags :: bool

definition embedded_step :: "embedded_parser step" where
  "embedded_step num wireType r d =
     (if num = fFormatItag then
        (if wireType \<noteq> wireVarint then Inl ErrInvalidProtobuf
         else if seenItag d then Inl ErrInvalidProtobuf
         else Inr (fst (read_varint r), d\<lparr>seenItag := True\<rparr>))
      else if num = fFormatLastModified then
        (if wireType \<noteq> wireVarint then Inl ErrInvalidProtobuf
         else if seenLastModified d then Inl ErrInvalidProtobuf
         else Inr (fst (read_varint r), d\<lparr>seenLastModified := True\<rparr>))
      else if num = fFormatXTags then
        (if wireType \<noteq> wireBytes then Inl ErrInvalidProtobuf
         else if seenXTags d then Inl ErrInvalidProtobuf
         else Inr (fst (read_bytes r), d\<lparr>seenXTags := True\<rparr>))
      else Inr (skip_field r num wireType, d))"

definition validateEmbeddedFormatID :: "byte list \<Rightarrow> unit res" where
  "validateEmbeddedFormatID bs =
     bind_res (parse_fields embedded_step bs
       \<lparr>seenItag = False, seenLastModified = False, seenXTags = False\<rparr>) (\<lambda>_. Inr ())"

record cookie_parser =
  seenField1 :: bool
  seenField2 :: bool
  seenField7 :: bool
  seenField8 :: bool

definition cookie_step :: "cookie_parser step" where
  "cookie_step num wireType r d =
     (if num = fPlaybackCookieField1 then
        (if wireType \<noteq> wireVarint then Inl ErrInvalidProtobuf
         else if seenField1 d then Inl ErrInvalidProtobuf
         else Inr (fst (read_varint r), d\<lparr>seenField1 := True\<rparr>))
      else if num = fPlaybackCookieField2 then
        (if wireType \<noteq> wireVarint then Inl ErrInvalidProtobuf
         else if seenField2 d then Inl ErrInvalidProtobuf
         else Inr (fst (read_varint r), d\<lparr>seenField2 := True\<rparr>))
      else if num = fPlaybackCookieFormatID then
        (if wireType \<noteq> wireBytes then Inl ErrInvalidProtobuf
         else if seenField7 d then Inl ErrInvalidProtobuf
         else let (r, bs) = read_bytes r
              in bind_res (validateEmbeddedFormatID bs) (\<lambda>_. Inr (r, d\<lparr>seenField7 := True\<rparr>)))
      else if num = fPlaybackCookieAltFmtID then
        (if wireType \<noteq> wireBytes then Inl ErrInvalidProtobuf
         else if seenField8 d then Inl ErrInvalidProtobuf
         else let (r, bs) = read_bytes r
              in bind_res (validateEmbeddedFormatID bs) (\<lambda>_. Inr (r, d\<lparr>seenField8 := True\<rparr>)))
      else Inr (skip_field r num wireType, d))"

definition validatePlaybackCookie :: "byte list \<Rightarrow> unit res" where
  "validatePlaybackCookie bs =
     (if bs = [] then Inl ErrInvalidMediaState
      else if length bs > MaxPlaybackCookieBytes then Inl ErrInvalidMediaState
      else bind_res (parse_fields cookie_step bs
        \<lparr>seenField1 = False, seenField2 = False, seenField7 = False, seenField8 = False\<rparr>)
        (\<lambda>_. Inr ()))"

text \<open>The named results of \<open>parseNextRequestPolicy\<close>; a cookie with \<open>hasCookie\<close> is \<open>Some\<close>.\<close>

record nextRequestPolicy =
  nrp_backoffMs :: i64
  nrp_cookie :: "byte list option"

record next_policy_parser = nextRequestPolicy +
  seenBackoff :: bool
  seenCookie :: bool

definition next_policy_step :: "next_policy_parser step" where
  "next_policy_step num wireType r d =
     (if num = fPolicyBackoffTimeMs then
        (if wireType \<noteq> wireVarint then Inl ErrInvalidProtobuf
         else if seenBackoff d then Inl ErrInvalidProtobuf
         else bind_res (checked_varint r) (\<lambda>(r, raw).
              bind_res (int32FromUint64 raw) (\<lambda>v.
                if v < 0 then Inl ErrInvalidMediaState
                else if v > MaxPolicyBackoffMs then Inl ErrExcessivePolicyBackoff
                else Inr (r, d\<lparr>seenBackoff := True, nrp_backoffMs := v\<rparr>))))
      else if num = fPolicyPlaybackCookie then
        (if wireType \<noteq> wireBytes then Inl ErrInvalidProtobuf
         else if seenCookie d then Inl ErrInvalidProtobuf
         else bind_res (checked_bytes r) (\<lambda>(r, raw).
              bind_res (validatePlaybackCookie raw) (\<lambda>_.
                Inr (r, d\<lparr>seenCookie := True, nrp_cookie := Some raw\<rparr>))))
      else Inr (skip_field r num wireType, d))"

definition parseNextRequestPolicy :: "byte list \<Rightarrow> nextRequestPolicy res" where
  "parseNextRequestPolicy payload =
     bind_res (parse_fields next_policy_step payload
       \<lparr>nrp_backoffMs = 0, nrp_cookie = None, seenBackoff = False, seenCookie = False\<rparr>) (\<lambda>d.
       Inr (nextRequestPolicy.truncate d))"

section \<open>What a decoded field does\<close>

fun redirect_act :: "wfield \<Rightarrow> redirect_parser \<Rightarrow> redirect_parser res" where
  "redirect_act (FVarint num v) d = (if num = fSabrRedirectURL then Inl ErrInvalidProtobuf else Inr d)"
| "redirect_act (FBytes num bs) d =
     (if num = fSabrRedirectURL then
        (if seenURL d then Inl ErrInvalidProtobuf
         else if bs = [] \<or> length bs > MaxRedirectURLBytes then Inl ErrUnsafeRedirect
         else Inr (d\<lparr>seenURL := True, srd_URL := str_of bs\<rparr>))
      else Inr d)"

interpretation redirect: wire_message redirect_step redirect_act
  by unfold_locales
    (auto simp: redirect_step_def reading reading_defs bind_res_Inl_iff bind_res_Inr_iff split: if_splits)

fun update_act :: "wfield \<Rightarrow> update_parser \<Rightarrow> update_parser res" where
  "update_act (FVarint num v) d =
     (if num = fSabrContextType then
        (if seenType d then Inl ErrInvalidProtobuf
         else Inr (d\<lparr>seenType := True, scu_Type := wrap32 (uint v)\<rparr>))
      else if num = fSabrContextScope then
        (if seenScope d then Inl ErrInvalidProtobuf
         else if wrap32 (uint v) < SabrContextScopeUnknown \<or> wrap32 (uint v) > SabrContextScopeContentAds
         then Inl ErrInvalidContextState
         else Inr (d\<lparr>seenScope := True, scu_Scope := wrap32 (uint v)\<rparr>))
      else if num = fSabrContextValue then Inl ErrInvalidProtobuf
      else if num = fSabrContextSendByDefault then
        (if seenSend d then Inl ErrInvalidProtobuf
         else Inr (d\<lparr>seenSend := True, scu_SendByDefault := (v \<noteq> 0)\<rparr>))
      else if num = fSabrContextWritePolicy then
        (if seenPolicy d then Inl ErrInvalidProtobuf
         else if wrap32 (uint v) < SabrContextWriteUnspecified \<or>
           wrap32 (uint v) > SabrContextWriteKeepExisting then Inl ErrInvalidContextState
         else Inr (d\<lparr>seenPolicy := True, scu_WritePolicy := wrap32 (uint v)\<rparr>))
      else Inr d)"
| "update_act (FBytes num bs) d =
     (if num = fSabrContextValue then
        (if seenValue d then Inl ErrInvalidProtobuf
         else if bs = [] \<or> length bs > MaxSabrContextValueBytes then Inl ErrInvalidContextState
         else Inr (d\<lparr>seenValue := True, scu_Value := bs\<rparr>))
      else if num \<in> {fSabrContextType, fSabrContextScope, fSabrContextSendByDefault,
        fSabrContextWritePolicy} then Inl ErrInvalidProtobuf
      else Inr d)"

interpretation update: wire_message update_step update_act
  by unfold_locales
    (auto simp: update_step_def reading reading_defs bind_res_Inl_iff bind_res_Inr_iff
      protoInt32FromVarint_def split: if_splits)

fun policy_act :: "wfield \<Rightarrow> policy_parser \<Rightarrow> policy_parser res" where
  "policy_act (FVarint num v) d =
     (if num \<in> {fSabrSendingPolicyStart, fSabrSendingPolicyStop, fSabrSendingPolicyDiscard} then
        bind_res (bumpCount (ops_count d) 1 MaxSabrContextPolicyOps) (\<lambda>ops.
          let x = [wrap32 (uint v)]; d = d\<lparr>ops_count := ops\<rparr>
          in Inr (if num = fSabrSendingPolicyStart then d\<lparr>ssp_Start := ssp_Start d @ x\<rparr>
                  else if num = fSabrSendingPolicyStop then d\<lparr>ssp_Stop := ssp_Stop d @ x\<rparr>
                  else d\<lparr>ssp_Discard := ssp_Discard d @ x\<rparr>))
      else Inr d)"
| "policy_act (FBytes num bs) d =
     (if num \<in> {fSabrSendingPolicyStart, fSabrSendingPolicyStop, fSabrSendingPolicyDiscard} then
        bind_res (decodePackedProtoInt32 bs (ops_count d)) (\<lambda>(x, ops).
          let d = d\<lparr>ops_count := ops\<rparr>
          in Inr (if num = fSabrSendingPolicyStart then d\<lparr>ssp_Start := ssp_Start d @ x\<rparr>
                  else if num = fSabrSendingPolicyStop then d\<lparr>ssp_Stop := ssp_Stop d @ x\<rparr>
                  else d\<lparr>ssp_Discard := ssp_Discard d @ x\<rparr>))
      else Inr d)"

interpretation policy: wire_message policy_step policy_act
  by unfold_locales
    (auto simp: policy_step_def readRepeatedProtoInt32_def reading reading_defs bind_res_Inl_iff
      bind_res_Inr_iff protoInt32FromVarint_def Let_def split: if_splits prod.splits)

fun error_act :: "wfield \<Rightarrow> error_parser \<Rightarrow> error_parser res" where
  "error_act (FVarint num v) d =
     (if num = fSabrErrorType then Inl ErrInvalidProtobuf
      else if num = fSabrErrorCode then
        (if seenCode d then Inl ErrInvalidProtobuf
         else Inr (d\<lparr>seenCode := True, sed_Code := wrap32 (uint v)\<rparr>))
      else Inr d)"
| "error_act (FBytes num bs) d =
     (if num = fSabrErrorType then
        (if seenErrType d then Inl ErrInvalidProtobuf
         else if bs = [] \<or> length bs > MaxSabrErrorTypeBytes then Inl ErrInvalidProtobuf
         else Inr (d\<lparr>seenErrType := True, sed_Type := str_of bs\<rparr>))
      else if num = fSabrErrorCode then Inl ErrInvalidProtobuf
      else Inr d)"

interpretation sabr_error: wire_message error_step error_act
  by unfold_locales
    (auto simp: error_step_def reading reading_defs bind_res_Inl_iff bind_res_Inr_iff
      protoInt32FromVarint_def split: if_splits)

fun token_act :: "wfield \<Rightarrow> token_parser \<Rightarrow> token_parser res" where
  "token_act (FVarint num v) d =
     (if num = fReloadPlaybackParamsToken then Inl ErrInvalidProtobuf else Inr d)"
| "token_act (FBytes num bs) d =
     (if num = fReloadPlaybackParamsToken then
        (if seenToken d then Inl ErrInvalidProtobuf
         else if bs = [] \<or> length bs > MaxReloadTokenBytes \<or> \<not> utf8_Valid bs then Inl ErrInvalidProtobuf
         else Inr (d\<lparr>seenToken := True, tp_token := str_of bs\<rparr>))
      else Inr d)"

interpretation reload_token: wire_message token_step token_act
  by unfold_locales
    (auto simp: token_step_def reading reading_defs bind_res_Inl_iff bind_res_Inr_iff split: if_splits)

fun reload_act :: "wfield \<Rightarrow> reload_parser \<Rightarrow> reload_parser res" where
  "reload_act (FVarint num v) d =
     (if num = fReloadPlaybackContextParams then Inl ErrInvalidProtobuf else Inr d)"
| "reload_act (FBytes num bs) d =
     (if num = fReloadPlaybackContextParams then
        (if seenParams d then Inl ErrInvalidProtobuf
         else bind_res (parseReloadPlaybackParams bs) (\<lambda>token.
                Inr (d\<lparr>seenParams := True, rpd_Token := token\<rparr>)))
      else Inr d)"

interpretation reload: wire_message reload_step reload_act
  by unfold_locales
    (auto simp: reload_step_def reading reading_defs bind_res_Inl_iff bind_res_Inr_iff split: if_splits)

fun embedded_act :: "wfield \<Rightarrow> embedded_parser \<Rightarrow> embedded_parser res" where
  "embedded_act (FVarint num v) d =
     (if num = fFormatItag then
        (if seenItag d then Inl ErrInvalidProtobuf else Inr (d\<lparr>seenItag := True\<rparr>))
      else if num = fFormatLastModified then
        (if seenLastModified d then Inl ErrInvalidProtobuf else Inr (d\<lparr>seenLastModified := True\<rparr>))
      else if num = fFormatXTags then Inl ErrInvalidProtobuf
      else Inr d)"
| "embedded_act (FBytes num bs) d =
     (if num \<in> {fFormatItag, fFormatLastModified} then Inl ErrInvalidProtobuf
      else if num = fFormatXTags then
        (if seenXTags d then Inl ErrInvalidProtobuf else Inr (d\<lparr>seenXTags := True\<rparr>))
      else Inr d)"

interpretation embedded: wire_message embedded_step embedded_act
  by unfold_locales
    (auto simp: embedded_step_def reading reading_defs bind_res_Inl_iff bind_res_Inr_iff split: if_splits)

fun cookie_act :: "wfield \<Rightarrow> cookie_parser \<Rightarrow> cookie_parser res" where
  "cookie_act (FVarint num v) d =
     (if num = fPlaybackCookieField1 then
        (if seenField1 d then Inl ErrInvalidProtobuf else Inr (d\<lparr>seenField1 := True\<rparr>))
      else if num = fPlaybackCookieField2 then
        (if seenField2 d then Inl ErrInvalidProtobuf else Inr (d\<lparr>seenField2 := True\<rparr>))
      else if num \<in> {fPlaybackCookieFormatID, fPlaybackCookieAltFmtID} then Inl ErrInvalidProtobuf
      else Inr d)"
| "cookie_act (FBytes num bs) d =
     (if num \<in> {fPlaybackCookieField1, fPlaybackCookieField2} then Inl ErrInvalidProtobuf
      else if num = fPlaybackCookieFormatID then
        (if seenField7 d then Inl ErrInvalidProtobuf
         else bind_res (validateEmbeddedFormatID bs) (\<lambda>_. Inr (d\<lparr>seenField7 := True\<rparr>)))
      else if num = fPlaybackCookieAltFmtID then
        (if seenField8 d then Inl ErrInvalidProtobuf
         else bind_res (validateEmbeddedFormatID bs) (\<lambda>_. Inr (d\<lparr>seenField8 := True\<rparr>)))
      else Inr d)"

interpretation cookie: wire_message cookie_step cookie_act
  by unfold_locales
    (auto simp: cookie_step_def reading reading_defs bind_res_Inl_iff bind_res_Inr_iff
      split: if_splits prod.splits)

fun next_policy_act :: "wfield \<Rightarrow> next_policy_parser \<Rightarrow> next_policy_parser res" where
  "next_policy_act (FVarint num v) d =
     (if num = fPolicyBackoffTimeMs then
        (if seenBackoff d then Inl ErrInvalidProtobuf
         else bind_res (int32FromUint64 v) (\<lambda>v.
           if v < 0 then Inl ErrInvalidMediaState
           else if v > MaxPolicyBackoffMs then Inl ErrExcessivePolicyBackoff
           else Inr (d\<lparr>seenBackoff := True, nrp_backoffMs := v\<rparr>)))
      else if num = fPolicyPlaybackCookie then Inl ErrInvalidProtobuf
      else Inr d)"
| "next_policy_act (FBytes num bs) d =
     (if num = fPolicyBackoffTimeMs then Inl ErrInvalidProtobuf
      else if num = fPolicyPlaybackCookie then
        (if seenCookie d then Inl ErrInvalidProtobuf
         else bind_res (validatePlaybackCookie bs) (\<lambda>_.
           Inr (d\<lparr>seenCookie := True, nrp_cookie := Some bs\<rparr>)))
      else Inr d)"

interpretation next_policy: wire_message next_policy_step next_policy_act
  by unfold_locales
    (auto simp: next_policy_step_def reading reading_defs bind_res_Inl_iff bind_res_Inr_iff
      split: if_splits)

section \<open>What an accepted directive satisfies\<close>

lemma wrap32_range: "in_i32 (wrap32 x)"
  using signed_take_bit_int_less_exp [of 31 x] signed_take_bit_int_greater_eq_minus_exp [of 31 x]
  by (simp add: wrap32_def in_i32_def limits)

definition update_ok :: "sabrContextUpdateDirective \<Rightarrow> bool" where
  "update_ok d \<longleftrightarrow> 0 < scu_Type d \<and> scu_Type d \<le> MaxInt32 \<and> scu_Value d \<noteq> [] \<and>
     length (scu_Value d) \<le> MaxSabrContextValueBytes \<and> 0 \<le> scu_Scope d \<and> scu_Scope d \<le> 4 \<and>
     0 \<le> scu_WritePolicy d \<and> scu_WritePolicy d \<le> 2"

lemma parseSabrContextUpdate_ok:
  assumes "parseSabrContextUpdate payload = Inr d"
  shows "update_ok d"
proof -
  let ?P = "\<lambda>d :: update_parser. scu_Type d \<le> MaxInt32 \<and>
    (seenValue d \<longrightarrow> scu_Value d \<noteq> [] \<and> length (scu_Value d) \<le> MaxSabrContextValueBytes) \<and>
    0 \<le> scu_Scope d \<and> scu_Scope d \<le> 4 \<and> 0 \<le> scu_WritePolicy d \<and> scu_WritePolicy d \<le> 2"
  obtain fs s where fs: "fold_res update_act fs zeroUpdate = Inr s" "seenType s" "0 < scu_Type s"
      "seenValue s" "d = sabrContextUpdateDirective.truncate s"
    using assms
    by (auto simp: parseSabrContextUpdate_def bind_res_Inr_iff update.parse_accepts_iff split: if_splits)
  have step: "?P s'" if "?P s" "update_act f s = Inr s'" for f s s'
    using that wrap32_range
    by (cases f) (auto simp: in_i32_def split: if_splits)
  have "?P s"
    by (rule fold_res_invariant [OF step _ fs(1)]) (auto simp: zeroUpdate_def limits)
  with fs show ?thesis
    by (simp add: update_ok_def sabrContextUpdateDirective.truncate_def)
qed

lemma parseSabrRedirect_ok:
  assumes "parseSabrRedirect payload = Inr d"
  shows "\<exists>u. ValidateSABRURL (srd_URL d) = Inr u"
  using assms
  by (auto simp: parseSabrRedirect_def bind_res_Inr_iff sabrRedirectDirective.truncate_def
      split: if_splits sum.splits)

lemma parseNextRequestPolicy_ok:
  assumes "parseNextRequestPolicy payload = Inr p"
  shows "0 \<le> nrp_backoffMs p \<and> nrp_backoffMs p \<le> MaxPolicyBackoffMs \<and>
    (\<forall>c. nrp_cookie p = Some c \<longrightarrow> c \<noteq> [] \<and> length c \<le> MaxPlaybackCookieBytes)"
proof -
  let ?P = "\<lambda>p :: next_policy_parser. 0 \<le> nrp_backoffMs p \<and> nrp_backoffMs p \<le> MaxPolicyBackoffMs \<and>
    (\<forall>c. nrp_cookie p = Some c \<longrightarrow> c \<noteq> [] \<and> length c \<le> MaxPlaybackCookieBytes)"
  obtain fs s where fs: "fold_res next_policy_act fs \<lparr>nrp_backoffMs = 0, nrp_cookie = None,
      seenBackoff = False, seenCookie = False\<rparr> = Inr s" "p = nextRequestPolicy.truncate s"
    using assms by (auto simp: parseNextRequestPolicy_def bind_res_Inr_iff next_policy.parse_accepts_iff)
  have step: "?P s'" if "?P s" "next_policy_act f s = Inr s'" for f s s'
    using that
    by (cases f) (auto simp: bind_res_Inr_iff validatePlaybackCookie_def split: if_splits)
  have "?P s"
    by (rule fold_res_invariant [OF step _ fs(1)]) (auto simp: limits)
  with fs show ?thesis
    by (simp add: nextRequestPolicy.truncate_def)
qed

lemma bumpCount_Inr: "bumpCount dst 1 MaxSabrContextPolicyOps = Inr x \<longleftrightarrow>
    x = dst + 1 \<and> x \<le> MaxSabrContextPolicyOps"
  by (auto simp: bumpCount_def limits)

lemma packed_loop_ops:
  "packed_loop bs ops acc = Inr (vs, ops') \<Longrightarrow> ops \<le> MaxSabrContextPolicyOps \<Longrightarrow>
     ops' + int (length acc) = ops + int (length vs) \<and> ops' \<le> MaxSabrContextPolicyOps"
proof (induction bs ops acc rule: packed_loop.induct)
  case (1 bs ops acc)
  show ?case
  proof (cases "bs = []")
    case True
    with 1 show ?thesis by (simp add: packed_loop.simps)
  next
    case False
    with 1 obtain raw n where r: "readProtobufVarint bs = Inr (raw, n)"
      and b: "bumpCount ops 1 MaxSabrContextPolicyOps = Inr (ops + 1)" "ops + 1 \<le> MaxSabrContextPolicyOps"
      and p: "packed_loop (drop n bs) (ops + 1) (acc @ [wrap32 (uint raw)]) = Inr (vs, ops')"
      by (subst (asm) (3) packed_loop.simps)
        (auto simp: bind_res_Inr_iff bumpCount_Inr protoInt32FromVarint_def split: sum.splits)
    from 1(1) [OF False r refl p b(2)] show ?thesis
      by simp
  qed
qed

text \<open>The operations of a policy are all counted, against one budget for the response.\<close>

definition policy_size :: "'a sabrContextSendingPolicyDirective_scheme \<Rightarrow> int" where
  "policy_size d = int (length (ssp_Start d) + length (ssp_Stop d) + length (ssp_Discard d))"

lemma policy_act_ops:
  assumes "policy_act f d = Inr d'" and "ops_count d \<le> MaxSabrContextPolicyOps"
  shows "ops_count d' - policy_size d' = ops_count d - policy_size d \<and>
    ops_count d' \<le> MaxSabrContextPolicyOps"
proof (cases f)
  case (FVarint num v)
  with assms show ?thesis
    by (auto simp: bind_res_Inr_iff bumpCount_Inr policy_size_def Let_def split: if_splits)
next
  case (FBytes num bs)
  with assms show ?thesis
    by (auto simp: bind_res_Inr_iff decodePackedProtoInt32_def policy_size_def Let_def
        split: if_splits dest!: packed_loop_ops)
qed

lemma parseSabrContextSendingPolicy_ok:
  assumes "parseSabrContextSendingPolicy payload ops = Inr (d, ops')" and "ops \<le> MaxSabrContextPolicyOps"
  shows "ops' = ops + policy_size d \<and> ops' \<le> MaxSabrContextPolicyOps \<and>
    list_all (\<lambda>v. 0 < v) (ssp_Start d @ ssp_Stop d @ ssp_Discard d)"
proof -
  let ?init = "\<lparr>ssp_Start = [], ssp_Stop = [], ssp_Discard = [], ops_count = ops\<rparr>"
  obtain fs s where fs: "fold_res policy_act fs ?init = Inr s"
    and d: "\<not> list_ex (\<lambda>v. v \<le> 0) (ssp_Start s @ ssp_Stop s @ ssp_Discard s)"
      "d = sabrContextSendingPolicyDirective.truncate s" "ops' = ops_count s"
    using assms(1)
    by (auto simp: parseSabrContextSendingPolicy_def bind_res_Inr_iff policy.parse_accepts_iff
        split: if_splits)
  have "ops_count s - policy_size s = ops \<and> ops_count s \<le> MaxSabrContextPolicyOps"
    by (rule fold_res_invariant [where f = policy_act and xs = fs, OF _ _ fs])
      (use assms(2) policy_act_ops in \<open>auto simp: policy_size_def\<close>)
  with d show ?thesis
    by (auto simp: sabrContextSendingPolicyDirective.truncate_def policy_size_def list_all_iff
        list_ex_iff not_le)
qed

lemma parseSabrError_ok:
  assumes "parseSabrError payload = Inr d"
  shows "sed_Type d \<noteq> [] \<and> length (sed_Type d) \<le> MaxSabrErrorTypeBytes \<and> in_i32 (sed_Code d)"
proof -
  let ?init = "\<lparr>sed_Type = [], sed_Code = 0, seenErrType = False, seenCode = False\<rparr>"
  let ?P = "\<lambda>d :: error_parser. in_i32 (sed_Code d) \<and>
    (seenErrType d \<longrightarrow> sed_Type d \<noteq> [] \<and> length (sed_Type d) \<le> MaxSabrErrorTypeBytes)"
  obtain fs s where fs: "fold_res error_act fs ?init = Inr s" "seenErrType s"
      "d = sabrErrorDirective.truncate s"
    using assms
    by (auto simp: parseSabrError_def bind_res_Inr_iff sabr_error.parse_accepts_iff split: if_splits)
  have step: "?P s'" if "?P s" "error_act f s = Inr s'" for f s s'
    using that by (cases f) (auto simp: wrap32_range split: if_splits)
  have "?P s"
    by (rule fold_res_invariant [OF step _ fs(1)]) (auto simp: in_i32_def limits)
  with fs show ?thesis
    by (simp add: sabrErrorDirective.truncate_def)
qed

lemma parseReloadPlaybackParams_ok:
  assumes "parseReloadPlaybackParams payload = Inr token"
  shows "token \<noteq> [] \<and> length token \<le> MaxReloadTokenBytes \<and> utf8_Valid (bytes_of token)"
proof -
  let ?P = "\<lambda>d. tp_token d \<noteq> [] \<longrightarrow>
    length (tp_token d) \<le> MaxReloadTokenBytes \<and> utf8_Valid (bytes_of (tp_token d))"
  obtain fs s where fs: "fold_res token_act fs \<lparr>tp_token = [], seenToken = False\<rparr> = Inr s"
      "tp_token s \<noteq> []" "token = tp_token s"
    using assms
    by (auto simp: parseReloadPlaybackParams_def bind_res_Inr_iff reload_token.parse_accepts_iff
        split: if_splits)
  have step: "?P s'" if "?P s" "token_act f s = Inr s'" for f s s'
    using that by (cases f) (auto split: if_splits)
  have "?P s"
    by (rule fold_res_invariant [OF step _ fs(1)]) auto
  with fs show ?thesis by simp
qed

lemma parseReloadPlayerResponse_ok:
  assumes "parseReloadPlayerResponse payload = Inr d"
  shows "rpd_Token d \<noteq> [] \<and> length (rpd_Token d) \<le> MaxReloadTokenBytes \<and> utf8_Valid (bytes_of (rpd_Token d))"
proof -
  let ?P = "\<lambda>d :: reload_parser. rpd_Token d \<noteq> [] \<longrightarrow>
    length (rpd_Token d) \<le> MaxReloadTokenBytes \<and> utf8_Valid (bytes_of (rpd_Token d))"
  obtain fs s where fs: "fold_res reload_act fs \<lparr>rpd_Token = [], seenParams = False\<rparr> = Inr s"
      "rpd_Token s \<noteq> []" "d = reloadPlayerDirective.truncate s"
    using assms
    by (auto simp: parseReloadPlayerResponse_def bind_res_Inr_iff reload.parse_accepts_iff split: if_splits)
  have step: "?P s'" if "?P s" "reload_act f s = Inr s'" for f s s'
    using that by (cases f) (auto simp: bind_res_Inr_iff split: if_splits dest!: parseReloadPlaybackParams_ok)
  have "?P s"
    by (rule fold_res_invariant [OF step _ fs(1)]) auto
  with fs show ?thesis by (simp add: reloadPlayerDirective.truncate_def)
qed

section \<open>Properties\<close>

text \<open>
  The context-sending policy: whatever the spelling of the repeated fields (single or packed), every
  operation of an accepted policy is counted once against the response's budget, the budget is
  not exceeded, and every type is positive.
\<close>

theorem sending_policy_within_budget:
  assumes "parseSabrContextSendingPolicy payload ops = Inr (d, ops')" and "ops \<le> MaxSabrContextPolicyOps"
  shows "ops' = ops + int (length (ssp_Start d) + length (ssp_Stop d) + length (ssp_Discard d)) \<and>
    ops' \<le> MaxSabrContextPolicyOps \<and>
    list_all (\<lambda>v. 0 < v) (ssp_Start d @ ssp_Stop d @ ssp_Discard d)"
  using parseSabrContextSendingPolicy_ok [OF assms] by (simp add: policy_size_def)

theorem sending_policy_within_budget_witness:
  "\<exists>d. parseSabrContextSendingPolicy (encode_fields [FVarint 1 5, FVarint 1 6, FVarint 2 7]) 3 = Inr (d, 6) \<and>
     ssp_Start d = [5, 6] \<and> list_all (\<lambda>v. 0 < v) (ssp_Start d @ ssp_Stop d @ ssp_Discard d)"
proof -
  let ?d = "\<lparr>ssp_Start = [5, 6], ssp_Stop = [7], ssp_Discard = []\<rparr>"
  have "parse_fields policy_step (encode_fields [FVarint 1 5, FVarint 1 6, FVarint 2 7])
      \<lparr>ssp_Start = [], ssp_Stop = [], ssp_Discard = [], ops_count = 3\<rparr> =
      Inr \<lparr>ssp_Start = [5, 6], ssp_Stop = [7], ssp_Discard = [], ops_count = 6\<rparr>"
    by (rule policy.parse_encoded) (simp_all add: bumpCount_def wrap32_def Let_def limits)
  then have p: "parseSabrContextSendingPolicy (encode_fields [FVarint 1 5, FVarint 1 6, FVarint 2 7]) 3 =
      Inr (?d, 6)"
    by (simp add: parseSabrContextSendingPolicy_def sabrContextSendingPolicyDirective.truncate_def)
  with sending_policy_within_budget [OF p] show ?thesis
    by (simp add: limits)
qed

text \<open>
  An accepted reload token is not empty, bounded, and valid UTF-8, so that embedding it in a JSON
  request cannot change it.
\<close>

theorem reload_token_is_bounded_utf8:
  assumes "parseReloadPlayerResponse payload = Inr d"
  shows "rpd_Token d \<noteq> [] \<and> length (rpd_Token d) \<le> MaxReloadTokenBytes \<and>
    utf8_Valid (bytes_of (rpd_Token d))"
  using assms by (rule parseReloadPlayerResponse_ok)

theorem reload_token_is_bounded_utf8_witness:
  "parseReloadPlayerResponse (encode_fields [FBytes 1 (encode_fields [FBytes 1 (bytes_of ''ab'')])]) =
     Inr \<lparr>rpd_Token = ''ab''\<rparr> \<and> utf8_Valid (bytes_of ''ab'')"
proof -
  let ?params = "encode_fields [FBytes 1 (bytes_of ''ab'')]"
  have "utf8_Valid (bytes_of ''ab'')" by code_simp
  then have "parse_fields token_step ?params \<lparr>tp_token = [], seenToken = False\<rparr> =
      Inr \<lparr>tp_token = ''ab'', seenToken = True\<rparr>"
    by (intro reload_token.parse_encoded) (simp_all add: limits)
  then have token: "parseReloadPlaybackParams ?params = Inr ''ab''"
    by (simp add: parseReloadPlaybackParams_def)
  have "length ?params \<le> MaxProtobufFieldBytes"
    using length_append_field(2) [of 1 "bytes_of ''ab''"] by (simp add: encode_fields_def limits)
  then have "parse_fields reload_step (encode_fields [FBytes 1 ?params]) \<lparr>rpd_Token = [], seenParams = False\<rparr> =
      Inr \<lparr>rpd_Token = ''ab'', seenParams = True\<rparr>"
    using token by (intro reload.parse_encoded) (simp_all add: limits)
  then have p: "parseReloadPlayerResponse (encode_fields [FBytes 1 ?params]) = Inr \<lparr>rpd_Token = ''ab''\<rparr>"
    by (simp add: parseReloadPlayerResponse_def reloadPlayerDirective.truncate_def)
  with reload_token_is_bounded_utf8 [OF p] show ?thesis
    by simp
qed

end
