(* ===== verification/ContextState.thy ===== *)
theory ContextState
  imports Directives
begin

text \<open>
  The store of SABR contexts, \<open>context_state.go\<close>. A method that mutates its receiver and may fail
  returns the receiver as it leaves it together with the error. A \<open>nil\<close> store behaves like an empty
  one. The invariant \<open>contexts_ok\<close> says that the running total is the sum of the stored sizes and that all
  bounds hold; every operation keeps it, also when it fails half-way. The locale \<open>context_machine\<close> is
  what the response control relies on.
\<close>

section \<open>The store\<close>

record sabrContextEntry =
  ce_Type :: i32
  ce_Scope :: i32
  ce_Value :: "byte list"

record sabrContextState =
  cs_entries :: "(i32, sabrContextEntry) fmap"
  cs_active :: "i32 fset"
  cs_total :: int

definition newSabrContextState :: sabrContextState where
  "newSabrContextState = \<lparr>cs_entries = fmempty, cs_active = {||}, cs_total = 0\<rparr>"

text \<open>A copy of a value is the value.\<close>

definition clone :: "sabrContextState \<Rightarrow> sabrContextState" where
  "clone s = \<lparr>cs_entries = cs_entries s, cs_active = cs_active s, cs_total = cs_total s\<rparr>"

definition ensureActiveCapacity :: "sabrContextState \<Rightarrow> i32 \<Rightarrow> error option" where
  "ensureActiveCapacity s typ =
     (if typ |\<in>| cs_active s then None
      else if fcard (cs_active s) \<ge> MaxSabrContexts then Some ErrInvalidContextState
      else None)"

definition activate :: "sabrContextState \<Rightarrow> i32 \<Rightarrow> sabrContextState \<times> error option" where
  "activate s typ =
     (case ensureActiveCapacity s typ of
        Some e \<Rightarrow> (s, Some e)
      | None \<Rightarrow> (s\<lparr>cs_active := finsert typ (cs_active s)\<rparr>, None))"

definition addTotal :: "sabrContextState \<Rightarrow> int \<Rightarrow> sabrContextState \<times> error option" where
  "addTotal s n =
     (if n < 0 then (s, Some ErrInvalidContextState)
      else if n > MaxSabrContextValueBytesTotal - cs_total s then (s, Some ErrInvalidContextState)
      else (s\<lparr>cs_total := cs_total s + n\<rparr>, None))"

definition entry_of :: "sabrContextUpdateDirective \<Rightarrow> sabrContextEntry" where
  "entry_of u = \<lparr>ce_Type = scu_Type u, ce_Scope = scu_Scope u, ce_Value = scu_Value u\<rparr>"

definition insertEntry ::
    "sabrContextState \<Rightarrow> sabrContextUpdateDirective \<Rightarrow> sabrContextState \<times> error option" where
  "insertEntry s u =
     (if fcard (fmdom (cs_entries s)) \<ge> MaxSabrContexts then (s, Some ErrInvalidContextState)
      else (case addTotal s (int (length (scu_Value u))) of
              (s, Some e) \<Rightarrow> (s, Some e)
            | (s, None) \<Rightarrow>
                (s\<lparr>cs_entries := fmupd (scu_Type u) (entry_of u) (cs_entries s)\<rparr>, None)))"

definition replaceEntry ::
    "sabrContextState \<Rightarrow> sabrContextEntry \<Rightarrow> sabrContextUpdateDirective \<Rightarrow>
      sabrContextState \<times> error option" where
  "replaceEntry s existing u =
     (let delta = int (length (scu_Value u)) - int (length (ce_Value existing))
      in (case (if delta > 0 then addTotal s delta else (s\<lparr>cs_total := cs_total s + delta\<rparr>, None)) of
            (s, Some e) \<Rightarrow> (s, Some e)
          | (s, None) \<Rightarrow>
              (s\<lparr>cs_entries := fmupd (scu_Type u) (entry_of u) (cs_entries s)\<rparr>, None)))"

definition applyUpdate ::
    "sabrContextState \<Rightarrow> sabrContextUpdateDirective \<Rightarrow> sabrContextState \<times> error option" where
  "applyUpdate s u =
     (if scu_Type u \<le> 0 then (s, Some ErrInvalidContextState)
      else if scu_Value u = [] \<or> length (scu_Value u) > MaxSabrContextValueBytes
           then (s, Some ErrInvalidContextState)
      else let stored =
             (case fmlookup (cs_entries s) (scu_Type u) of
                Some existing \<Rightarrow>
                  if scu_WritePolicy u = SabrContextWriteKeepExisting then None
                  else (case (if scu_SendByDefault u then ensureActiveCapacity s (scu_Type u) else None) of
                          Some e \<Rightarrow> Some (s, Some e)
                        | None \<Rightarrow> Some (replaceEntry s existing u))
              | None \<Rightarrow>
                  (case (if scu_SendByDefault u then ensureActiveCapacity s (scu_Type u) else None) of
                     Some e \<Rightarrow> Some (s, Some e)
                   | None \<Rightarrow> Some (insertEntry s u)))
           in (case stored of
                 None \<Rightarrow> (s, None)
               | Some (s, Some e) \<Rightarrow> (s, Some e)
               | Some (s, None) \<Rightarrow>
                   if scu_SendByDefault u then activate s (scu_Type u) else (s, None)))"

fun apply_start :: "sabrContextState \<Rightarrow> i32 list \<Rightarrow> sabrContextState \<times> error option" where
  "apply_start s [] = (s, None)"
| "apply_start s (typ # ts) =
     (if typ \<le> 0 then (s, Some ErrInvalidContextState)
      else (case activate s typ of
              (s, Some e) \<Rightarrow> (s, Some e)
            | (s, None) \<Rightarrow> apply_start s ts))"

fun apply_stop :: "sabrContextState \<Rightarrow> i32 list \<Rightarrow> sabrContextState \<times> error option" where
  "apply_stop s [] = (s, None)"
| "apply_stop s (typ # ts) =
     (if typ \<le> 0 then (s, Some ErrInvalidContextState)
      else apply_stop (s\<lparr>cs_active := cs_active s |-| {|typ|}\<rparr>) ts)"

fun apply_discard :: "sabrContextState \<Rightarrow> i32 list \<Rightarrow> sabrContextState \<times> error option" where
  "apply_discard s [] = (s, None)"
| "apply_discard s (typ # ts) =
     (if typ \<le> 0 then (s, Some ErrInvalidContextState)
      else apply_discard
        (case fmlookup (cs_entries s) typ of
           None \<Rightarrow> s
         | Some existing \<Rightarrow> s\<lparr>cs_total := cs_total s - int (length (ce_Value existing)),
                               cs_entries := fmdrop typ (cs_entries s)\<rparr>) ts)"

definition applySendingPolicy ::
    "sabrContextState \<Rightarrow> sabrContextSendingPolicyDirective \<Rightarrow> sabrContextState \<times> error option" where
  "applySendingPolicy s policy =
     (case apply_start s (ssp_Start policy) of
        (s, Some e) \<Rightarrow> (s, Some e)
      | (s, None) \<Rightarrow>
          (case apply_stop s (ssp_Stop policy) of
             (s, Some e) \<Rightarrow> (s, Some e)
           | (s, None) \<Rightarrow> apply_discard s (ssp_Discard policy)))"

section \<open>Marshalling\<close>

definition appendProtobufPackedInt32 :: "byte list \<Rightarrow> u64 \<Rightarrow> i32 list \<Rightarrow> byte list" where
  "appendProtobufPackedInt32 buf field vs =
     appendProtobufBytes buf field
       (foldl (\<lambda>packed v. appendU64 packed (ucast (word_of_int v :: u32))) [] vs)"

definition context_body :: "sabrContextEntry \<Rightarrow> byte list" where
  "context_body entry =
     appendProtobufBytes (appendProtobufVarint [] fStreamerSabrContextType (word_of_int (ce_Type entry)))
       fStreamerSabrContextValue (ce_Value entry)"

definition active_types :: "sabrContextState \<Rightarrow> i32 list" where
  "active_types s = sorted_list_of_fset (ffilter (\<lambda>t. t |\<in>| cs_active s) (fmdom (cs_entries s)))"

definition unsent_types :: "sabrContextState \<Rightarrow> i32 list" where
  "unsent_types s = sorted_list_of_fset (ffilter (\<lambda>t. t |\<notin>| cs_active s) (fmdom (cs_entries s)))"

definition appendToStreamer :: "sabrContextState \<Rightarrow> byte list \<Rightarrow> byte list" where
  "appendToStreamer s buf =
     (if fmdom (cs_entries s) = {||} then buf
      else let buf = foldl (\<lambda>buf typ.
             (case fmlookup (cs_entries s) typ of
                None \<Rightarrow> appendProtobufBytes buf fStreamerCtxSabrContexts
                          (context_body \<lparr>ce_Type = 0, ce_Scope = 0, ce_Value = []\<rparr>)
              | Some entry \<Rightarrow> appendProtobufBytes buf fStreamerCtxSabrContexts (context_body entry)))
             buf (active_types s)
           in if unsent_types s \<noteq> []
              then appendProtobufPackedInt32 buf fStreamerCtxUnsentSabrContexts (unsent_types s)
              else buf)"

section \<open>The invariant\<close>

definition stored_bytes :: "(i32, sabrContextEntry) fmap \<Rightarrow> int" where
  "stored_bytes m = (\<Sum>t \<in> fset (fmdom m). case fmlookup m t of None \<Rightarrow> 0 | Some x \<Rightarrow> int (length (ce_Value x)))"

definition entry_ok :: "i32 \<Rightarrow> sabrContextEntry \<Rightarrow> bool" where
  "entry_ok t x \<longleftrightarrow> ce_Type x = t \<and> 0 < t \<and> ce_Value x \<noteq> [] \<and>
     length (ce_Value x) \<le> MaxSabrContextValueBytes"

definition contexts_ok :: "sabrContextState \<Rightarrow> bool" where
  "contexts_ok s \<longleftrightarrow> cs_total s = stored_bytes (cs_entries s) \<and>
     cs_total s \<le> MaxSabrContextValueBytesTotal \<and> fcard (fmdom (cs_entries s)) \<le> MaxSabrContexts \<and>
     fcard (cs_active s) \<le> MaxSabrContexts \<and> fmpred entry_ok (cs_entries s)"

lemma stored_bytes_nonneg: "0 \<le> stored_bytes m"
  unfolding stored_bytes_def by (rule sum_nonneg) (simp split: option.split)

lemma stored_bytes_empty [simp]: "stored_bytes fmempty = 0"
  by (simp add: stored_bytes_def)

lemma stored_bytes_drop:
  assumes "fmlookup m t = Some x"
  shows "stored_bytes (fmdrop t m) = stored_bytes m - int (length (ce_Value x))"
proof -
  have t: "t \<in> fset (fmdom m)"
    using assms by (simp add: fmdomI)
  have "stored_bytes m = int (length (ce_Value x)) +
      (\<Sum>u \<in> fset (fmdom m) - {t}. case fmlookup m u of None \<Rightarrow> 0 | Some x \<Rightarrow> int (length (ce_Value x)))"
    unfolding stored_bytes_def using assms by (subst sum.remove [OF _ t]) simp_all
  also have "(\<Sum>u \<in> fset (fmdom m) - {t}. case fmlookup m u of None \<Rightarrow> 0 | Some x \<Rightarrow> int (length (ce_Value x)))
      = stored_bytes (fmdrop t m)"
    unfolding stored_bytes_def by (rule sum.cong) auto
  finally show ?thesis by simp
qed

lemma stored_bytes_new:
  assumes "fmlookup m t = None"
  shows "stored_bytes (fmupd t x m) = stored_bytes m + int (length (ce_Value x))"
proof -
  have t: "t \<notin> fset (fmdom m)"
    using assms by (simp add: fmdom_notI)
  have "stored_bytes (fmupd t x m) = int (length (ce_Value x)) +
      (\<Sum>u \<in> fset (fmdom m). case fmlookup (fmupd t x m) u of None \<Rightarrow> 0 | Some x \<Rightarrow> int (length (ce_Value x)))"
    unfolding stored_bytes_def using t by simp
  also have "(\<Sum>u \<in> fset (fmdom m). case fmlookup (fmupd t x m) u of None \<Rightarrow> 0 | Some x \<Rightarrow> int (length (ce_Value x)))
      = stored_bytes m"
    unfolding stored_bytes_def using t by (intro sum.cong) auto
  finally show ?thesis by simp
qed

lemma stored_bytes_replace:
  assumes "fmlookup m t = Some y"
  shows "stored_bytes (fmupd t x m) = stored_bytes m - int (length (ce_Value y)) + int (length (ce_Value x))"
proof -
  have "fmupd t x m = fmupd t x (fmdrop t m)"
    by (rule fmap_ext) simp
  then show ?thesis
    using stored_bytes_drop [OF assms] stored_bytes_new [of "fmdrop t m" t x] by simp
qed

section \<open>Every operation keeps the invariant\<close>

named_theorems keeps_contexts \<open>operations that keep \<open>contexts_ok\<close>\<close>

lemma new_ok [simp]: "contexts_ok newSabrContextState"
  by (simp add: contexts_ok_def newSabrContextState_def limits fcard_fempty)

lemma clone_id [simp]: "clone s = s"
  by (simp add: clone_def)

lemma activate_ok [keeps_contexts]: "contexts_ok s \<Longrightarrow> activate s t = (s', e) \<Longrightarrow> contexts_ok s'"
  by (auto simp: activate_def ensureActiveCapacity_def contexts_ok_def fcard_finsert_if
      split: option.splits if_splits)

lemma insertEntry_ok [keeps_contexts]:
  assumes "contexts_ok s" and "fmlookup (cs_entries s) (scu_Type u) = None" and "insertEntry s u = (s', e)"
    and "0 < scu_Type u" and "scu_Value u \<noteq> []" and "length (scu_Value u) \<le> MaxSabrContextValueBytes"
  shows "contexts_ok s'"
proof -
  have "scu_Type u |\<notin>| fmdom (cs_entries s)"
    using assms(2) by (simp add: fmdom_notI)
  with assms show ?thesis
    by (auto simp: insertEntry_def addTotal_def contexts_ok_def stored_bytes_new entry_of_def entry_ok_def
        fcard_finsert_if split: if_splits option.splits intro!: fmpred_upd)
qed

lemma replaceEntry_ok [keeps_contexts]:
  assumes "contexts_ok s" and "fmlookup (cs_entries s) (scu_Type u) = Some x"
    and "replaceEntry s x u = (s', e)"
    and "0 < scu_Type u" and "scu_Value u \<noteq> []" and "length (scu_Value u) \<le> MaxSabrContextValueBytes"
  shows "contexts_ok s'"
proof -
  have "finsert (scu_Type u) (fmdom (cs_entries s)) = fmdom (cs_entries s)"
    using assms(2) by (auto simp: fmdomI)
  with assms show ?thesis
    by (auto simp: replaceEntry_def addTotal_def contexts_ok_def stored_bytes_replace entry_of_def
        entry_ok_def Let_def split: if_splits option.splits intro!: fmpred_upd)
qed

lemma applyUpdate_ok [keeps_contexts]:
  assumes "contexts_ok s" and "applyUpdate s u = (s', e)"
  shows "contexts_ok s'"
  using assms
  by (auto simp: applyUpdate_def Let_def
      split: if_splits option.splits prod.splits
      dest: activate_ok insertEntry_ok replaceEntry_ok)

lemma apply_start_ok [keeps_contexts]: "contexts_ok s \<Longrightarrow> apply_start s ts = (s', e) \<Longrightarrow> contexts_ok s'"
proof (induction ts arbitrary: s)
  case (Cons t ts)
  then show ?case
    by (auto split: if_splits prod.splits option.splits dest: activate_ok)
qed simp

lemma apply_stop_ok [keeps_contexts]: "contexts_ok s \<Longrightarrow> apply_stop s ts = (s', e) \<Longrightarrow> contexts_ok s'"
proof (induction ts arbitrary: s)
  case (Cons t ts)
  have "fcard (cs_active s |-| {|t|}) \<le> fcard (cs_active s)"
    by (rule fcard_mono) auto
  with Cons.prems(1) have "contexts_ok (s\<lparr>cs_active := cs_active s |-| {|t|}\<rparr>)"
    by (simp add: contexts_ok_def)
  with Cons show ?case
    by (auto split: if_splits)
qed simp

lemma discard_one_ok:
  assumes "contexts_ok s" and "fmlookup (cs_entries s) t = Some x"
  shows "contexts_ok (s\<lparr>cs_total := cs_total s - int (length (ce_Value x)),
    cs_entries := fmdrop t (cs_entries s)\<rparr>)"
proof -
  have "fcard (fmdom (cs_entries s) |-| {|t|}) \<le> fcard (fmdom (cs_entries s))"
    by (rule fcard_mono) auto
  with assms show ?thesis
    by (auto simp: contexts_ok_def stored_bytes_drop)
qed

lemma apply_discard_ok [keeps_contexts]: "contexts_ok s \<Longrightarrow> apply_discard s ts = (s', e) \<Longrightarrow> contexts_ok s'"
proof (induction ts arbitrary: s)
  case (Cons t ts)
  then show ?case
    by (auto split: if_splits option.splits dest: discard_one_ok)
qed simp

lemma applySendingPolicy_ok [keeps_contexts]:
  "contexts_ok s \<Longrightarrow> applySendingPolicy s p = (s', e) \<Longrightarrow> contexts_ok s'"
  unfolding applySendingPolicy_def
  by (auto split: prod.splits option.splits intro: apply_start_ok)
    (metis apply_start_ok apply_stop_ok apply_discard_ok)+

section \<open>What the operations do\<close>

text \<open>An update that succeeds: the entry is stored unless an existing one is to be kept.\<close>

lemma applyUpdate_spec:
  assumes "applyUpdate s u = (s', None)" and "0 < scu_Type u"
  shows "cs_entries s' =
      (if fmlookup (cs_entries s) (scu_Type u) \<noteq> None \<and> scu_WritePolicy u = SabrContextWriteKeepExisting
       then cs_entries s else fmupd (scu_Type u) (entry_of u) (cs_entries s))"
    and "cs_active s' =
      (if scu_SendByDefault u \<and> \<not> (fmlookup (cs_entries s) (scu_Type u) \<noteq> None \<and>
          scu_WritePolicy u = SabrContextWriteKeepExisting)
       then finsert (scu_Type u) (cs_active s) else cs_active s)"
  using assms
  by (auto simp: applyUpdate_def Let_def insertEntry_def replaceEntry_def addTotal_def activate_def
      split: if_splits option.splits prod.splits)

text \<open>A failed update leaves the entries and the active marks as they were.\<close>

lemma applyUpdate_failed:
  assumes "applyUpdate s u = (s', Some e)"
  shows "cs_entries s' = cs_entries s \<and> cs_active s' = cs_active s \<and> cs_total s' = cs_total s"
  using assms
  by (auto simp: applyUpdate_def Let_def insertEntry_def replaceEntry_def addTotal_def activate_def
      ensureActiveCapacity_def split: if_splits option.splits prod.splits)

lemma apply_start_spec:
  "apply_start s ts = (s', None) \<Longrightarrow>
     cs_active s' = cs_active s |\<union>| fset_of_list ts \<and> cs_entries s' = cs_entries s"
proof (induction ts arbitrary: s)
  case (Cons t ts)
  then show ?case
    by (fastforce simp: activate_def split: if_splits prod.splits option.splits)
qed simp

lemma apply_stop_spec:
  "apply_stop s ts = (s', None) \<Longrightarrow>
     cs_active s' = cs_active s |-| fset_of_list ts \<and> cs_entries s' = cs_entries s"
proof (induction ts arbitrary: s)
  case (Cons t ts)
  then show ?case
    by (fastforce split: if_splits)
qed simp

lemma apply_discard_spec:
  "apply_discard s ts = (s', None) \<Longrightarrow>
     cs_active s' = cs_active s \<and> cs_entries s' = fmdrop_set (set ts) (cs_entries s)"
proof (induction ts arbitrary: s)
  case (Cons t ts)
  have "fmlookup (cs_entries s) t = None \<Longrightarrow>
      fmdrop_set (insert t (set ts)) (cs_entries s) = fmdrop_set (set ts) (cs_entries s)"
    by (rule fmap_ext) auto
  moreover have "fmdrop_set (set ts) (fmdrop t (cs_entries s)) = fmdrop_set (insert t (set ts)) (cs_entries s)"
    by (rule fmap_ext) auto
  ultimately show ?case
    using Cons by (auto split: if_splits option.splits)
qed simp

lemma applySendingPolicy_spec:
  assumes "applySendingPolicy s p = (s', None)"
  shows "cs_active s' = (cs_active s |\<union>| fset_of_list (ssp_Start p)) |-| fset_of_list (ssp_Stop p)"
    and "cs_entries s' = fmdrop_set (set (ssp_Discard p)) (cs_entries s)"
  using assms
  by (auto simp: applySendingPolicy_def split: prod.splits option.splits
      dest!: apply_start_spec apply_stop_spec apply_discard_spec)

section \<open>The interface of the store\<close>

text \<open>
  The response control holds a store, applies the directives of a response to it one after the other and
  relies only on the invariant being kept, whether an operation succeeds or fails.
\<close>

locale context_machine =
  fixes ok :: "'s \<Rightarrow> bool" and start :: 's
    and update :: "'s \<Rightarrow> 'u \<Rightarrow> 's \<times> error option" and policy :: "'s \<Rightarrow> 'p \<Rightarrow> 's \<times> error option"
  assumes start_ok: "ok start"
    and update_keeps: "ok s \<Longrightarrow> ok (fst (update s u))"
    and policy_keeps: "ok s \<Longrightarrow> ok (fst (policy s p))"
begin

definition run :: "('u + 'p) list \<Rightarrow> 's \<Rightarrow> 's" where
  "run ds s = fold (\<lambda>d s. case d of Inl u \<Rightarrow> fst (update s u) | Inr p \<Rightarrow> fst (policy s p)) ds s"

lemma run_keeps: "ok s \<Longrightarrow> ok (run ds s)"
  unfolding run_def
proof (induction ds arbitrary: s)
  case (Cons d ds)
  then show ?case
    by (cases d) (auto intro: update_keeps policy_keeps)
qed simp

lemma run_from_start: "ok (run ds start)"
  using start_ok by (rule run_keeps)

end

interpretation contexts: context_machine contexts_ok newSabrContextState applyUpdate applySendingPolicy
  by unfold_locales (auto intro: applyUpdate_ok applySendingPolicy_ok simp: prod_eq_iff)

section \<open>What is sent\<close>

definition context_fields :: "sabrContextState \<Rightarrow> wfield list" where
  "context_fields s =
     map (\<lambda>t. FBytes fStreamerCtxSabrContexts (context_body (the (fmlookup (cs_entries s) t)))) (active_types s) @
     (if unsent_types s \<noteq> []
      then [FBytes fStreamerCtxUnsentSabrContexts
              (concat (map (\<lambda>t. appendU64 [] (ucast (word_of_int t :: u32))) (unsent_types s)))] else [])"

lemma foldl_appendU64:
  "foldl (\<lambda>packed v. appendU64 packed (f v)) buf vs = buf @ concat (map (\<lambda>v. appendU64 [] (f v)) vs)"
proof (induction vs arbitrary: buf)
  case (Cons v vs)
  then show ?case
    by (simp add: appendU64_append [of buf])
qed simp

lemma active_types_stored: "t \<in> set (active_types s) \<Longrightarrow> \<exists>x. fmlookup (cs_entries s) t = Some x"
  by (auto simp: active_types_def dest: fmdomE)

lemma appendToStreamer_fields: "appendToStreamer s buf = foldl append_field buf (context_fields s)"
proof -
  let ?f = "\<lambda>t. FBytes fStreamerCtxSabrContexts (context_body (the (fmlookup (cs_entries s) t)))"
  have "foldl (\<lambda>buf typ. (case fmlookup (cs_entries s) typ of
      None \<Rightarrow> appendProtobufBytes buf fStreamerCtxSabrContexts (context_body \<lparr>ce_Type = 0, ce_Scope = 0, ce_Value = []\<rparr>)
    | Some entry \<Rightarrow> appendProtobufBytes buf fStreamerCtxSabrContexts (context_body entry))) buf ts =
    foldl append_field buf (map ?f ts)" if "set ts \<subseteq> set (active_types s)" for ts
    using that
  proof (induction ts arbitrary: buf)
    case (Cons t ts)
    then show ?case
      using active_types_stored [of t s] by auto
  qed simp
  moreover have "fmdom (cs_entries s) = {||} \<Longrightarrow> active_types s = [] \<and> unsent_types s = []"
    by (simp add: active_types_def unsent_types_def sorted_list_of_fset.rep_eq)
  ultimately show ?thesis
    by (auto simp: appendToStreamer_def context_fields_def appendProtobufPackedInt32_def foldl_appendU64 Let_def)
qed

lemma ucast_type: "0 \<le> t \<Longrightarrow> t \<le> MaxInt32 \<Longrightarrow> uint (ucast (word_of_int t :: u32) :: u64) = t"
  by (simp add: unsigned_ucast_eq uint_word_of_int limits take_bit_int_eq_self)

text \<open>A packed list of types is read back by the decoder of repeated fields.\<close>

lemma packed_roundtrip:
  assumes "list_all (\<lambda>t. 0 \<le> t \<and> t \<le> MaxInt32) ts" and "ops + int (length ts) \<le> MaxSabrContextPolicyOps"
  shows "packed_loop (concat (map (\<lambda>t. appendU64 [] (ucast (word_of_int t :: u32))) ts)) ops acc =
    Inr (acc @ ts, ops + int (length ts))"
  using assms
proof (induction ts arbitrary: ops acc)
  case Nil
  then show ?case by (simp add: packed_loop.simps)
next
  case (Cons t ts)
  have "wrap32 (uint (ucast (word_of_int t :: u32) :: u64)) = t"
    using Cons.prems(1) by (simp add: ucast_type in_i32_def limits)
  moreover have "bumpCount ops 1 MaxSabrContextPolicyOps = Inr (ops + 1)"
    using Cons.prems(2) by (simp add: bumpCount_Inr)
  ultimately show ?case
    using Cons by (subst packed_loop.simps)
      (simp add: readProtobufVarint_append protoInt32FromVarint_def)
qed

section \<open>Properties\<close>

text \<open>
  Whatever directives a server sends, and whether single ones fail or not, the store stays within its
  bounds: at most \<open>MaxSabrContexts\<close> entries and active marks, entries that are filed under their own
  positive type with a bounded value, and a running total that is exactly the sum of the stored sizes and
  at most \<open>MaxSabrContextValueBytesTotal\<close>.
\<close>

theorem context_store_bounded:
  "let s = fold (\<lambda>d s. case d of Inl u \<Rightarrow> fst (applyUpdate s u) | Inr p \<Rightarrow> fst (applySendingPolicy s p))
         ds newSabrContextState
   in cs_total s = stored_bytes (cs_entries s) \<and> cs_total s \<le> MaxSabrContextValueBytesTotal \<and>
      fcard (fmdom (cs_entries s)) \<le> MaxSabrContexts \<and> fcard (cs_active s) \<le> MaxSabrContexts \<and>
      fmpred entry_ok (cs_entries s)"
  using contexts.run_from_start [of ds] by (simp add: contexts.run_def contexts_ok_def Let_def)

text \<open>
  A sending policy acts in the pinned order start, stop, discard: after it the active types are the old
  ones and the started ones without the stopped ones, and exactly the discarded entries are gone.
\<close>

theorem sending_policy_order:
  assumes "applySendingPolicy s p = (s', None)"
  shows "cs_active s' = (cs_active s |\<union>| fset_of_list (ssp_Start p)) |-| fset_of_list (ssp_Stop p) \<and>
    cs_entries s' = fmdrop_set (set (ssp_Discard p)) (cs_entries s)"
  using applySendingPolicy_spec [OF assms] by simp

theorem sending_policy_order_witness:
  "\<exists>s'. applySendingPolicy newSabrContextState \<lparr>ssp_Start = [4, 5], ssp_Stop = [5], ssp_Discard = []\<rparr> =
      (s', None) \<and> cs_active s' = {|4|}"
proof -
  let ?p = "\<lparr>ssp_Start = [4, 5], ssp_Stop = [5], ssp_Discard = []\<rparr> :: sabrContextSendingPolicyDirective"
  have act: "activate s t = (s\<lparr>cs_active := finsert t (cs_active s)\<rparr>, None)"
    if "fcard (cs_active s) < MaxSabrContexts" for s t
    using that by (simp add: activate_def ensureActiveCapacity_def)
  have "fcard (cs_active newSabrContextState) = 0" "fcard {|4 :: i32|} = 1"
    by (simp_all add: newSabrContextState_def fcard_fempty fcard_finsert_disjoint)
  then have "\<exists>s'. applySendingPolicy newSabrContextState ?p = (s', None)"
    by (simp add: applySendingPolicy_def act limits newSabrContextState_def fcard_fempty)
  then obtain s' where s': "applySendingPolicy newSabrContextState ?p = (s', None)" ..
  have "cs_active s' = ({||} |\<union>| {|4, 5|}) |-| {|5|}"
    using sending_policy_order [OF s'] by (simp add: newSabrContextState_def)
  also have "\<dots> = {|4|}"
    by (rule fset_eqI) auto
  finally have "cs_active s' = {|4|}" .
  with s' show ?thesis by blast
qed

end
