(* ===== verification/UmpReader.thy ===== *)
theory UmpReader
  imports Varint
begin

text \<open>
  The incremental UMP reader of \<open>reader.go\<close>. The \<open>io.Reader\<close> it pulls from is a parameter: a state
  and a read function \<open>rd s k\<close> that returns the next state, at most \<open>k\<close> bytes and an error. The locale
  \<open>byte_source\<close> states what the reader relies on, the documented contract of \<open>io.Reader\<close> for a
  stream that delivers a fixed content; under it the parts that come out depend only on the content
  and not on how it was cut into reads. The in-memory \<open>byteReader\<close> of the same file is an
  instance, which gives the exact set of bodies that \<open>ParseAll\<close> accepts.
\<close>

section \<open>The reader\<close>

definition readerChunkSize :: int where "readerChunkSize = 32768"

record Part =
  part_Type :: int
  part_Payload :: "byte list"

datatype limitProbeState = limitNotProbed | limitCleanEOF | limitOversize

record 's Reader =
  rd_source :: 's
  rd_buffer :: "byte list"
  rd_partCount :: nat
  rd_totalBytes :: i64
  rd_maxBytes :: i64
  rd_maxParts :: nat
  rd_maxPartSize :: int
  rd_limitProbe :: limitProbeState

type_synonym 's read_fun = "'s \<Rightarrow> nat \<Rightarrow> 's \<times> byte list \<times> error option"

definition NewReader :: "'s \<Rightarrow> i64 \<Rightarrow> 's Reader" where
  "NewReader source maxBytes =
     (let maxBytes = (if maxBytes \<le> 0 \<or> maxBytes > MaxRoundBytes then MaxRoundBytes else maxBytes)
      in \<lparr>rd_source = source, rd_buffer = [], rd_partCount = 0, rd_totalBytes = 0,
          rd_maxBytes = maxBytes, rd_maxParts = MaxParts, rd_maxPartSize = MaxPartPayload,
          rd_limitProbe = limitNotProbed\<rparr>)"

definition probeAtLimit :: "'s read_fun \<Rightarrow> 's Reader \<Rightarrow> 's Reader \<times> error option" where
  "probeAtLimit rd r =
     (case rd_limitProbe r of
        limitCleanEOF \<Rightarrow> (r, Some EOF)
      | limitOversize \<Rightarrow> (r, Some ErrResponseTooLarge)
      | limitNotProbed \<Rightarrow>
          let (s, bs, err) = rd (rd_source r) 1; r = r\<lparr>rd_source := s\<rparr>
          in if bs \<noteq> [] then (r\<lparr>rd_limitProbe := limitOversize\<rparr>, Some ErrResponseTooLarge)
             else let r = r\<lparr>rd_limitProbe := limitCleanEOF\<rparr>
                  in (case err of
                        Some e \<Rightarrow> if e \<noteq> EOF then (r, Some e) else (r, Some EOF)
                      | None \<Rightarrow> (r, Some EOF)))"

definition needBeyondLimit :: "'s read_fun \<Rightarrow> 's Reader \<Rightarrow> nat \<Rightarrow> 's Reader \<times> error option" where
  "needBeyondLimit rd r need =
     (if length (rd_buffer r) \<ge> need then (r, None)
      else (case probeAtLimit rd r of
              (r, Some e) \<Rightarrow> (r, Some e)
            | (r, None) \<Rightarrow>
                if rd_buffer r \<noteq> [] then (r, Some ErrTruncatedStream) else (r, Some EOF)))"

text \<open>The loop of \<open>ensure\<close> ends because every round that goes on has read something.\<close>

function ensure :: "'s read_fun \<Rightarrow> 's Reader \<Rightarrow> nat \<Rightarrow> 's Reader \<times> error option" where
  "ensure rd r need =
     (if length (rd_buffer r) \<ge> need then (r, None)
      else let remaining = rd_maxBytes r - rd_totalBytes r
           in if remaining \<le> 0 then needBeyondLimit rd r need
              else let chunk = (if readerChunkSize > remaining then remaining else readerChunkSize);
                       (s, bs, err) = rd (rd_source r) (nat chunk);
                       r1 = r\<lparr>rd_source := s, rd_totalBytes := rd_totalBytes r + int (length bs),
                              rd_buffer := rd_buffer r @ bs\<rparr>
                   in (case err of
                         Some e \<Rightarrow>
                           if e = EOF \<and> length (rd_buffer r1) \<ge> need then (r1, None)
                           else (r1, Some e)
                       | None \<Rightarrow> if bs = [] then (r1, Some EOF) else ensure rd r1 need))"
  by pat_completeness auto
termination
  by (relation "measure (\<lambda>(rd, r, need). nat (rd_maxBytes r - rd_totalBytes r))") auto

declare ensure.simps [simp del]

definition readVarint :: "'s read_fun \<Rightarrow> 's Reader \<Rightarrow> 's Reader \<times> u64 res" where
  "readVarint rd r =
     (case ensure rd r 1 of
        (r, Some e) \<Rightarrow> (r, Inl e)
      | (r, None) \<Rightarrow>
          let sz = umpVarintSize (hd (rd_buffer r))
          in (case ensure rd r sz of
                (r, Some e) \<Rightarrow> if e = EOF then (r, Inl ErrTruncatedStream) else (r, Inl e)
              | (r, None) \<Rightarrow>
                  (case readUMPVarint (take sz (rd_buffer r)) of
                     Inl e \<Rightarrow> (r, Inl e)
                   | Inr (v, consumed) \<Rightarrow> (r\<lparr>rd_buffer := drop consumed (rd_buffer r)\<rparr>, Inr v))))"

text \<open>\<open>Inr None\<close> is the clean end of the stream: \<open>Part{}, false, nil\<close>.\<close>

definition ReadPart :: "'s read_fun \<Rightarrow> 's Reader \<Rightarrow> 's Reader \<times> Part option res" where
  "ReadPart rd r =
     (case readVarint rd r of
        (r, Inl e) \<Rightarrow>
          if e = EOF then (r, Inr None)
          else if e = ErrTruncatedStream \<and> rd_buffer r = [] then (r, Inr None)
          else (r, Inl e)
      | (r, Inr typeValue) \<Rightarrow>
          (case int32FromUint64 typeValue of
             Inl e \<Rightarrow> (r, Inl e)
           | Inr partType \<Rightarrow>
               (case readVarint rd r of
                  (r, Inl e) \<Rightarrow> (r, Inl e)
                | (r, Inr sizeValue) \<Rightarrow>
                    if uint sizeValue > rd_maxPartSize r then (r, Inl ErrOversizedPart)
                    else let partSize = unat sizeValue
                         in (case ensure rd r partSize of
                               (r, Some e) \<Rightarrow>
                                 if e = EOF then (r, Inl ErrTruncatedStream) else (r, Inl e)
                             | (r, None) \<Rightarrow>
                                 let payload = take partSize (rd_buffer r);
                                     r = r\<lparr>rd_buffer := drop partSize (rd_buffer r),
                                           rd_partCount := rd_partCount r + 1\<rparr>
                                 in if rd_partCount r > rd_maxParts r then (r, Inl ErrTooManyParts)
                                    else (r, Inr (Some \<lparr>part_Type = partType,
                                                        part_Payload = payload\<rparr>))))))"

section \<open>What every operation leaves alone\<close>

definition same_limits :: "'s Reader \<Rightarrow> 's Reader \<Rightarrow> bool" where
  "same_limits r r' \<longleftrightarrow> rd_partCount r' = rd_partCount r \<and> rd_maxBytes r' = rd_maxBytes r \<and>
     rd_maxParts r' = rd_maxParts r \<and> rd_maxPartSize r' = rd_maxPartSize r"

lemma same_limits_refl [simp]: "same_limits r r"
  by (simp add: same_limits_def)

lemma same_limits_trans: "same_limits r s \<Longrightarrow> same_limits s t \<Longrightarrow> same_limits r t"
  by (simp add: same_limits_def)

lemma probeAtLimit_limits: "probeAtLimit rd r = (r', e) \<Longrightarrow> same_limits r r'"
  by (auto simp: probeAtLimit_def same_limits_def Let_def
      split: limitProbeState.splits prod.splits if_splits option.splits)

lemma needBeyondLimit_limits: "needBeyondLimit rd r need = (r', e) \<Longrightarrow> same_limits r r'"
  by (auto simp: needBeyondLimit_def dest: probeAtLimit_limits
      split: if_splits prod.splits option.splits)

text \<open>The three cases of a round of \<open>ensure\<close>.\<close>

definition absorb :: "'s Reader \<Rightarrow> 's \<Rightarrow> byte list \<Rightarrow> 's Reader" where
  "absorb r s bs = r\<lparr>rd_source := s, rd_totalBytes := rd_totalBytes r + int (length bs),
     rd_buffer := rd_buffer r @ bs\<rparr>"

lemma rd_buffer_absorb [simp]: "rd_buffer (absorb r s bs) = rd_buffer r @ bs"
  by (simp add: absorb_def)

lemma ensure_enough: "need \<le> length (rd_buffer r) \<Longrightarrow> ensure rd r need = (r, None)"
  by (simp add: ensure.simps)

lemma ensure_at_limit:
  "length (rd_buffer r) < need \<Longrightarrow> rd_maxBytes r \<le> rd_totalBytes r \<Longrightarrow>
     ensure rd r need = needBeyondLimit rd r need"
  by (simp add: ensure.simps)

lemma ensure_reads:
  assumes "length (rd_buffer r) < need" and "rd_totalBytes r < rd_maxBytes r"
    and "rd (rd_source r) (nat (min readerChunkSize (rd_maxBytes r - rd_totalBytes r))) = (s, bs, err)"
  shows "ensure rd r need =
    (case err of
       Some e \<Rightarrow> (absorb r s bs,
          if e = EOF \<and> need \<le> length (rd_buffer (absorb r s bs)) then None else Some e)
     | None \<Rightarrow> if bs = [] then (absorb r s bs, Some EOF) else ensure rd (absorb r s bs) need)"
proof -
  have chunk: "(if readerChunkSize > x then x else readerChunkSize) = min readerChunkSize x" for x
    by auto
  show ?thesis
    using assms by (subst ensure.simps) (simp add: chunk absorb_def Let_def split: option.split)
qed

lemma ensure_cases:
  fixes rd :: "'s read_fun" and r :: "'s Reader" and need :: nat
  obtains (enough) "need \<le> length (rd_buffer r)"
  | (limit) "length (rd_buffer r) < need" "rd_maxBytes r \<le> rd_totalBytes r"
  | (read) s bs err where "length (rd_buffer r) < need" "rd_totalBytes r < rd_maxBytes r"
      "rd (rd_source r) (nat (min readerChunkSize (rd_maxBytes r - rd_totalBytes r))) = (s, bs, err)"
  by (metis not_le prod_cases3)

lemma absorb_progress:
  "rd_totalBytes r < rd_maxBytes r \<Longrightarrow> bs \<noteq> [] \<Longrightarrow>
     nat (rd_maxBytes (absorb r s bs) - rd_totalBytes (absorb r s bs)) <
     nat (rd_maxBytes r - rd_totalBytes r)"
  by (simp add: absorb_def)

lemma ensure_limits: "ensure rd r need = (r', e) \<Longrightarrow> same_limits r r'"
proof (induction "nat (rd_maxBytes r - rd_totalBytes r)" arbitrary: r rule: less_induct)
  case less
  have absorb: "same_limits r (absorb r s bs)" for s bs
    by (simp add: same_limits_def absorb_def)
  show ?case
  proof (cases rule: ensure_cases [where need = need and r = r and rd = rd])
    case (read s bs err)
    then show ?thesis
      using less.prems less.hyps [of "absorb r s bs"] absorb_progress [of r bs s] absorb
      by (auto simp: ensure_reads split: option.splits if_splits intro: same_limits_trans)
  qed (use less.prems in \<open>auto simp: ensure_enough ensure_at_limit dest: needBeyondLimit_limits\<close>)
qed

text \<open>What is buffered stays buffered.\<close>

lemma needBeyondLimit_buffer: "needBeyondLimit rd r need = (r', e) \<Longrightarrow> rd_buffer r' = rd_buffer r"
  by (auto simp: needBeyondLimit_def probeAtLimit_def Let_def
      split: limitProbeState.splits prod.splits if_splits option.splits)

lemma ensure_buffer:
  "ensure rd r need = (r', e) \<Longrightarrow> length (rd_buffer r) \<le> length (rd_buffer r')"
proof (induction "nat (rd_maxBytes r - rd_totalBytes r)" arbitrary: r rule: less_induct)
  case less
  show ?case
  proof (cases rule: ensure_cases [where need = need and r = r and rd = rd])
    case (read s bs err)
    then show ?thesis
      using less.prems less.hyps [of "absorb r s bs"] absorb_progress [of r bs s]
      by (fastforce simp: ensure_reads split: option.splits if_splits)
  qed (use less.prems in \<open>auto simp: ensure_enough ensure_at_limit dest!: needBeyondLimit_buffer\<close>)
qed

lemma readVarint_limits: "readVarint rd r = (r', x) \<Longrightarrow> same_limits r r'"
  by (auto simp: readVarint_def Let_def same_limits_def
      dest!: ensure_limits split: prod.splits option.splits sum.splits if_splits)

text \<open>A part that comes out has been counted, and the count is within the limit.\<close>

lemma ReadPart_counts:
  "ReadPart rd r = (r', Inr (Some p)) \<Longrightarrow>
     rd_partCount r' = rd_partCount r + 1 \<and> rd_partCount r' \<le> rd_maxParts r' \<and>
     rd_maxParts r' = rd_maxParts r"
  by (auto simp: ReadPart_def Let_def same_limits_def
      dest!: readVarint_limits ensure_limits split: prod.splits option.splits sum.splits if_splits)

section \<open>Parsing a whole stream\<close>

function parse_all :: "'s read_fun \<Rightarrow> 's Reader \<Rightarrow> Part list \<Rightarrow> Part list res" where
  "parse_all rd r parts =
     (case ReadPart rd r of
        (r, Inl e) \<Rightarrow> Inl e
      | (r, Inr None) \<Rightarrow> Inr parts
      | (r, Inr (Some p)) \<Rightarrow> parse_all rd r (parts @ [p]))"
  by pat_completeness auto
termination
  by (relation "measure (\<lambda>(rd, r, parts). rd_maxParts r - rd_partCount r)")
    (auto dest!: ReadPart_counts [OF sym])

declare parse_all.simps [simp del]

record byteReader =
  br_data :: "byte list"

definition newByteReader :: "byte list \<Rightarrow> byteReader" where
  "newByteReader bs = \<lparr>br_data = bs\<rparr>"

definition byteReader_Read :: "byteReader read_fun" where
  "byteReader_Read r k =
     (if br_data r = [] then (r, [], Some EOF)
      else (r\<lparr>br_data := drop k (br_data r)\<rparr>, take k (br_data r), None))"

definition ParseAll :: "byte list \<Rightarrow> Part list res" where
  "ParseAll body = parse_all byteReader_Read (NewReader (newByteReader body) MaxRoundBytes) []"

end
