(* ===== verification/UmpFrames.thy ===== *)
theory UmpFrames
  imports UmpReader
begin

text \<open>
  What the UMP reader promises. \<open>frames\<close> is the framing format as a function on the whole body, with
  no buffering; \<open>over\<close> says that more bytes follow than the limit lets through. The locale
  \<open>byte_source\<close> is the contract of the stream the reader pulls from, and its main lemma is the
  refinement: whatever the sizes of the single reads, the reader returns what \<open>frames\<close> says of the
  content.
\<close>

section \<open>The format\<close>

definition short_read :: "bool \<Rightarrow> error \<Rightarrow> error" where
  "short_read over e = (if over then ErrResponseTooLarge else e)"

definition take_varint :: "bool \<Rightarrow> byte list \<Rightarrow> (u64 \<times> byte list) res" where
  "take_varint over bs =
     (if bs = [] then Inl (short_read over EOF)
      else if length bs < umpVarintSize (hd bs) then Inl (short_read over ErrTruncatedStream)
      else bind_res (readUMPVarint (take (umpVarintSize (hd bs)) bs)) (\<lambda>(v, n). Inr (v, drop n bs)))"

definition take_part :: "bool \<Rightarrow> int \<Rightarrow> byte list \<Rightarrow> (Part \<times> byte list) option res" where
  "take_part over maxPart bs =
     (case take_varint over bs of
        Inl e \<Rightarrow> if e = EOF then Inr None else Inl e
      | Inr (t, bs) \<Rightarrow>
          bind_res (int32FromUint64 t) (\<lambda>t.
          bind_res (take_varint over bs) (\<lambda>(n, bs).
            if uint n > maxPart then Inl ErrOversizedPart
            else if length bs < unat n then Inl (short_read over ErrTruncatedStream)
            else Inr (Some (\<lparr>part_Type = t, part_Payload = take (unat n) bs\<rparr>, drop (unat n) bs)))))"

primrec frames :: "bool \<Rightarrow> int \<Rightarrow> nat \<Rightarrow> byte list \<Rightarrow> Part list res" where
  "frames over maxPart 0 bs =
     bind_res (take_part over maxPart bs) (\<lambda>x. case x of None \<Rightarrow> Inr [] | Some _ \<Rightarrow> Inl ErrTooManyParts)"
| "frames over maxPart (Suc k) bs =
     bind_res (take_part over maxPart bs) (\<lambda>x.
       case x of
         None \<Rightarrow> Inr []
       | Some (p, rest) \<Rightarrow> bind_res (frames over maxPart k rest) (\<lambda>ps. Inr (p # ps)))"

section \<open>The contract of the stream\<close>

locale byte_source =
  fixes rd :: "'s read_fun" and content :: "'s \<Rightarrow> byte list"
  assumes delivers:
      "0 < k \<Longrightarrow> rd s k = (s', bs, e) \<Longrightarrow> content s = bs @ content s' \<and> length bs \<le> k"
    and ends: "0 < k \<Longrightarrow> rd s k = (s', [], e) \<Longrightarrow> content s = []"
    and fails_at_end: "0 < k \<Longrightarrow> rd s k = (s', bs, Some err) \<Longrightarrow> err = EOF \<and> content s' = []"
begin

text \<open>What is still to come, the part of it within the limit, and whether there is more.\<close>

definition view :: "'s Reader \<Rightarrow> byte list" where
  "view r = rd_buffer r @ take (nat (rd_maxBytes r - rd_totalBytes r)) (content (rd_source r))"

definition over :: "'s Reader \<Rightarrow> bool" where
  "over r \<longleftrightarrow> rd_limitProbe r = limitOversize \<or>
     length (content (rd_source r)) > nat (rd_maxBytes r - rd_totalBytes r)"

definition reader_ok :: "'s Reader \<Rightarrow> bool" where
  "reader_ok r \<longleftrightarrow> rd_totalBytes r \<le> rd_maxBytes r \<and>
     (rd_limitProbe r \<noteq> limitNotProbed \<longrightarrow> rd_totalBytes r = rd_maxBytes r) \<and>
     (rd_limitProbe r = limitCleanEOF \<longrightarrow> content (rd_source r) = [])"

lemma limit_spec:
  assumes "reader_ok r" and "rd_totalBytes r = rd_maxBytes r" and "length (rd_buffer r) < need"
    and "needBeyondLimit rd r need = (r', e)"
  shows "reader_ok r' \<and> view r' = view r \<and> over r' = over r \<and> rd_buffer r' = rd_buffer r \<and>
    e = Some (short_read (over r) EOF)"
proof -
  obtain s bs err where rd: "rd (rd_source r) 1 = (s, bs, err)" by (metis prod_cases3)
  note contract = delivers [OF _ rd] ends [of 1 "rd_source r" s err]
    fails_at_end [of 1 "rd_source r" s bs]
  show ?thesis
    using assms rd contract
    by (cases "rd_limitProbe r")
      (auto simp: needBeyondLimit_def probeAtLimit_def short_read_def view_def over_def reader_ok_def
        Let_def split: option.splits if_splits)
qed

lemma absorb_spec:
  assumes "reader_ok r" and "rd_totalBytes r < rd_maxBytes r"
    and "rd (rd_source r) (nat (min readerChunkSize (rd_maxBytes r - rd_totalBytes r))) = (s, bs, err)"
  shows "reader_ok (absorb r s bs)" "view (absorb r s bs) = view r" "over (absorb r s bs) = over r"
proof -
  let ?m = "rd_maxBytes r - rd_totalBytes r"
  have k: "0 < nat (min readerChunkSize ?m)"
    using assms(2) by (simp add: readerChunkSize_def)
  have c: "content (rd_source r) = bs @ content s" and len: "int (length bs) \<le> ?m"
    using delivers [OF k assms(3)] assms(2) by auto
  then have left: "nat (rd_maxBytes r - (rd_totalBytes r + int (length bs))) = nat ?m - length bs"
    and le: "length bs \<le> nat ?m"
    by linarith+
  show "reader_ok (absorb r s bs)"
    using assms(1,2) len by (auto simp: reader_ok_def absorb_def)
  show "view (absorb r s bs) = view r"
    using c le by (simp add: view_def absorb_def left)
  show "over (absorb r s bs) = over r"
    using c le by (auto simp: over_def absorb_def left)
qed

lemma ensure_spec:
  assumes "reader_ok r" and "ensure rd r need = (r', e)"
  shows "reader_ok r' \<and> view r' = view r \<and> over r' = over r \<and>
    (if need \<le> length (view r) then e = None \<and> need \<le> length (rd_buffer r')
     else e = Some (short_read (over r) EOF))"
  using assms
proof (induction "nat (rd_maxBytes r - rd_totalBytes r)" arbitrary: r rule: less_induct)
  case less
  show ?case
  proof (cases rule: ensure_cases [where need = need and r = r and rd = rd])
    case enough
    with less.prems show ?thesis by (simp add: ensure_enough view_def)
  next
    case limit
    then have "rd_totalBytes r = rd_maxBytes r" "view r = rd_buffer r"
      using less.prems(1) by (simp_all add: reader_ok_def view_def)
    with limit less.prems show ?thesis
      using limit_spec [of r need r' e] by (simp add: ensure_at_limit)
  next
    case (read s bs err)
    note a = absorb_spec [OF less.prems(1) read(2,3)]
    have k: "0 < nat (min readerChunkSize (rd_maxBytes r - rd_totalBytes r))"
      using read(2) by (simp add: readerChunkSize_def)
    show ?thesis
    proof (cases "err = None \<and> bs \<noteq> []")
      case True
      with read less.prems a show ?thesis
        using less.hyps [of "absorb r s bs"] absorb_progress [of r bs s] by (simp add: ensure_reads)
    next
      case False
      then have "content s = []" "err = None \<or> err = Some EOF"
        using read(3) delivers [OF k read(3)] ends [OF k, of "rd_source r" s err]
          fails_at_end [OF k, of "rd_source r" s bs] by (cases err; auto)+
      then have "view r = rd_buffer (absorb r s bs)" "\<not> over (absorb r s bs)"
        using a read(2) less.prems(1)
        by (simp_all add: view_def over_def absorb_def reader_ok_def)
      with False read less.prems a \<open>err = None \<or> err = Some EOF\<close> show ?thesis
        by (auto simp: ensure_reads short_read_def split: if_splits)
    qed
  qed
qed

text \<open>Taking \<open>n\<close> buffered bytes away takes them from the front of what is to come.\<close>

lemma consume_spec:
  assumes "reader_ok r" and "n \<le> length (rd_buffer r)"
  shows "reader_ok (r\<lparr>rd_buffer := drop n (rd_buffer r)\<rparr>)"
    and "view (r\<lparr>rd_buffer := drop n (rd_buffer r)\<rparr>) = drop n (view r)"
    and "over (r\<lparr>rd_buffer := drop n (rd_buffer r)\<rparr>) = over r"
    and "take n (rd_buffer r) = take n (view r)"
  using assms by (simp_all add: reader_ok_def view_def over_def)

lemma readVarint_spec:
  assumes "reader_ok r" and "readVarint rd r = (r', x)"
  shows "reader_ok r' \<and> over r' = over r \<and>
    (case take_varint (over r) (view r) of
       Inl e \<Rightarrow> x = Inl e \<and> (e = ErrTruncatedStream \<longrightarrow> rd_buffer r' \<noteq> [])
     | Inr (v, rest) \<Rightarrow> x = Inr v \<and> view r' = rest)"
proof (cases "view r = []")
  case True
  obtain r1 e where e: "ensure rd r 1 = (r1, e)" by fastforce
  show ?thesis
    using ensure_spec [OF assms(1) e] assms(2) e True
    by (auto simp: readVarint_def take_varint_def short_read_def)
next
  case False
  define sz where "sz = umpVarintSize (hd (view r))"
  obtain r1 e1 where e1: "ensure rd r 1 = (r1, e1)" by fastforce
  have r1: "reader_ok r1" "view r1 = view r" "over r1 = over r" "e1 = None" "rd_buffer r1 \<noteq> []"
    using ensure_spec [OF assms(1) e1] False by (auto simp: Suc_le_eq)
  then have hd: "hd (rd_buffer r1) = hd (view r)"
    by (metis view_def hd_append2)
  obtain r2 e2 where e2: "ensure rd r1 sz = (r2, e2)" by fastforce
  note s2 = ensure_spec [OF r1(1) e2]
  have step: "readVarint rd r =
      (case (r2, e2) of
         (r, Some e) \<Rightarrow> if e = EOF then (r, Inl ErrTruncatedStream) else (r, Inl e)
       | (r, None) \<Rightarrow>
           (case readUMPVarint (take sz (rd_buffer r)) of
              Inl e \<Rightarrow> (r, Inl e)
            | Inr (v, consumed) \<Rightarrow> (r\<lparr>rd_buffer := drop consumed (rd_buffer r)\<rparr>, Inr v)))"
    using e1 r1(4) hd e2 by (simp add: readVarint_def sz_def)
  show ?thesis
  proof (cases "sz \<le> length (view r)")
    case True
    then have b: "e2 = None" "sz \<le> length (rd_buffer r2)" "reader_ok r2" "view r2 = view r"
        "over r2 = over r"
      using s2 r1 by simp_all
    then have "take sz (rd_buffer r2) = take sz (view r)"
      using consume_spec(4) [OF b(3,2)] by simp
    then show ?thesis
      using True False b step assms(2) readUMPVarint_size [of "take sz (view r)"]
        r1(5) ensure_buffer [OF e2] consume_spec(1-3) [OF b(3)]
      by (fastforce simp: take_varint_def sz_def split: sum.splits)
  next
    case short: False
    have "rd_buffer r2 \<noteq> []"
      using r1(5) ensure_buffer [OF e2] by auto
    with short False s2 r1 step assms(2) show ?thesis
      by (auto simp: take_varint_def sz_def short_read_def split: if_splits)
  qed
qed

lemma ReadPart_spec:
  assumes "reader_ok r" and "ReadPart rd r = (r', x)"
  shows "case take_part (over r) (rd_maxPartSize r) (view r) of
      Inl e \<Rightarrow> x = Inl e
    | Inr None \<Rightarrow> x = Inr None
    | Inr (Some (p, rest)) \<Rightarrow>
        if rd_partCount r + 1 > rd_maxParts r then x = Inl ErrTooManyParts
        else x = Inr (Some p) \<and> reader_ok r' \<and> over r' = over r \<and> view r' = rest \<and>
          rd_partCount r' = rd_partCount r + 1 \<and> rd_maxParts r' = rd_maxParts r \<and>
          rd_maxPartSize r' = rd_maxPartSize r"
proof -
  obtain r1 x1 where v1: "readVarint rd r = (r1, x1)" by fastforce
  note s1 = readVarint_spec [OF assms(1) v1]
  show ?thesis
  proof (cases "take_varint (over r) (view r)")
    case (Inl e)
    then show ?thesis
      using s1 v1 assms(2) by (auto simp: ReadPart_def take_part_def)
  next
    case (Inr tv)
    then obtain t where t: "x1 = Inr t" "take_varint (over r) (view r) = Inr (t, view r1)"
      using s1 by (cases tv) auto
    obtain r2 x2 where v2: "readVarint rd r1 = (r2, x2)" by fastforce
    have r1: "reader_ok r1" "over r1 = over r" using s1 by auto
    note s2 = readVarint_spec [OF r1(1) v2]
    show ?thesis
    proof (cases "take_varint (over r) (view r1)")
      case (Inl e)
      then show ?thesis
        using s2 v1 v2 t r1 assms(2)
        by (auto simp: ReadPart_def take_part_def split: sum.splits)
    next
      case (Inr nv)
      then obtain n where n: "x2 = Inr n" "take_varint (over r) (view r1) = Inr (n, view r2)"
        using s2 r1 by (cases nv) auto
      have r2: "reader_ok r2" "over r2 = over r" using s2 r1 by auto
      have lim: "rd_partCount r2 = rd_partCount r" "rd_maxParts r2 = rd_maxParts r"
          "rd_maxPartSize r2 = rd_maxPartSize r"
        using readVarint_limits [OF v1] readVarint_limits [OF v2] by (simp_all add: same_limits_def)
      obtain r3 e3 where e3: "ensure rd r2 (unat n) = (r3, e3)" by fastforce
      note s3 = ensure_spec [OF r2(1) e3] and l3 = ensure_limits [OF e3, unfolded same_limits_def]
      have count: "reader_ok (a\<lparr>rd_partCount := c\<rparr>) = reader_ok a"
          "view (a\<lparr>rd_partCount := c\<rparr>) = view a" "over (a\<lparr>rd_partCount := c\<rparr>) = over a" for a c
        by (simp_all add: reader_ok_def view_def over_def)
      show ?thesis
      proof (cases "unat n \<le> length (view r2)")
        case True
        then have c: "e3 = None" "unat n \<le> length (rd_buffer r3)" "reader_ok r3" using s3 by auto
        show ?thesis
          using consume_spec [OF c(3,2)] c s3 l3 v1 v2 t n r2 lim True e3 assms(2)
          by (auto simp: ReadPart_def take_part_def Let_def count split: sum.splits if_splits)
      next
        case False
        then show ?thesis
          using s3 v1 v2 t n r2 lim e3 assms(2)
          by (auto simp: ReadPart_def take_part_def Let_def short_read_def
              split: sum.splits if_splits)
      qed
    qed
  qed
qed

lemma parse_all_spec:
  assumes "reader_ok r" and "rd_partCount r \<le> rd_maxParts r"
  shows "parse_all rd r ps =
    bind_res (frames (over r) (rd_maxPartSize r) (rd_maxParts r - rd_partCount r) (view r))
      (\<lambda>qs. Inr (ps @ qs))"
  using assms
proof (induction "rd_maxParts r - rd_partCount r" arbitrary: r ps)
  case 0
  obtain r' x where x: "ReadPart rd r = (r', x)" by fastforce
  have "rd_partCount r = rd_maxParts r" using 0 by simp
  then show ?case
    using ReadPart_spec [OF 0(2) x] x
    by (subst parse_all.simps) (auto split: sum.splits option.splits)
next
  case (Suc k)
  obtain r' x where x: "ReadPart rd r = (r', x)" by fastforce
  have k: "rd_maxParts r - rd_partCount r = Suc k" using Suc(2) by simp
  note spec = ReadPart_spec [OF Suc(3) x]
  show ?case
  proof (cases "take_part (over r) (rd_maxPartSize r) (view r)")
    case (Inl e)
    then show ?thesis
      using spec x k by (subst parse_all.simps) simp
  next
    case (Inr y)
    show ?thesis
    proof (cases y)
      case None
      then show ?thesis
        using Inr spec x k by (subst parse_all.simps) simp
    next
      case (Some pr)
      obtain p rest where pr: "pr = (p, rest)" by fastforce
      have r': "x = Inr (Some p)" "reader_ok r'" "over r' = over r" "view r' = rest"
        "rd_partCount r' = rd_partCount r + 1" "rd_maxParts r' = rd_maxParts r"
        "rd_maxPartSize r' = rd_maxPartSize r"
        using Inr Some pr spec k by auto
      moreover have "k = rd_maxParts r' - rd_partCount r'" "rd_partCount r' \<le> rd_maxParts r'"
        using k r' by simp_all
      ultimately have "parse_all rd r' (ps @ [p]) =
          bind_res (frames (over r) (rd_maxPartSize r) k rest) (\<lambda>qs. Inr ((ps @ [p]) @ qs))"
        using Suc(1) [of r' "ps @ [p]"] by simp
      then show ?thesis
        using Inr Some pr r' x k by (subst parse_all.simps) (auto simp: bind_res_def split: sum.splits)
    qed
  qed
qed

text \<open>The reader refines the format: only the content of the stream matters.\<close>

theorem reader_refines_frames:
  assumes "0 < limit" and "limit \<le> MaxRoundBytes"
  shows "parse_all rd (NewReader s limit) [] =
    frames (length (content s) > nat limit) MaxPartPayload MaxParts (take (nat limit) (content s))"
proof -
  let ?r = "NewReader s limit"
  have "reader_ok ?r" "rd_partCount ?r \<le> rd_maxParts ?r"
    using assms by (simp_all add: NewReader_def reader_ok_def)
  then show ?thesis
    using assms parse_all_spec [of ?r "[]"]
    by (simp add: NewReader_def view_def over_def bind_res_def split: sum.split)
qed

end

interpretation byte_reader: byte_source byteReader_Read br_data
  by unfold_locales (auto simp: byteReader_Read_def split: if_splits)

lemma ParseAll_frames:
  "ParseAll body =
     frames (length body > nat MaxRoundBytes) MaxPartPayload MaxParts (take (nat MaxRoundBytes) body)"
  using byte_reader.reader_refines_frames [of MaxRoundBytes "newByteReader body"]
  by (simp add: ParseAll_def newByteReader_def limits)

section \<open>Bodies that are accepted\<close>

text \<open>A frame is the type, the size and the payload; \<open>part_ok\<close> are the parts the format can carry.\<close>

definition frame :: "Part \<Rightarrow> byte list" where
  "frame p = fst (encodeUMPVarint (word_of_int (part_Type p))) @
     fst (encodeUMPVarint (word_of_nat (length (part_Payload p)))) @ part_Payload p"

definition part_ok :: "Part \<Rightarrow> bool" where
  "part_ok p \<longleftrightarrow> 0 \<le> part_Type p \<and> part_Type p \<le> MaxInt32 \<and>
     int (length (part_Payload p)) \<le> MaxPartPayload"

lemma ump_value_take: "1 \<le> sz \<Longrightarrow> sz \<le> length bs \<Longrightarrow> ump_value (take sz bs) sz = ump_value bs sz"
  by (cases bs) (auto simp: ump_value_def take_Cons' drop_take min_def)

lemma readUMPVarint_take:
  assumes "bs \<noteq> []" and "umpVarintSize (hd bs) \<le> length bs"
  shows "readUMPVarint (take (umpVarintSize (hd bs)) bs) = readUMPVarint bs"
proof -
  obtain b bs' where bs: "bs = b # bs'" using assms(1) by (cases bs) auto
  obtain k where k: "umpVarintSize b = Suc k"
    using umpVarintSize_range(1) [of b] by (cases "umpVarintSize b") auto
  have "ump_value (take (Suc k) bs) (Suc k) = ump_value bs (Suc k)"
    using assms k by (intro ump_value_take) (simp_all add: bs)
  then show ?thesis
    using assms k by (simp add: bs readUMPVarint_def Let_def split: prod.split)
qed

lemma take_varint_iff:
  "take_varint False bs = Inr (v, rest) \<longleftrightarrow> v \<le> mask 32 \<and> bs = fst (encodeUMPVarint v) @ rest"
proof -
  have "readUMPVarint bs = Inr (v, n) \<Longrightarrow> bs \<noteq> [] \<and> umpVarintSize (hd bs) \<le> length bs" for n
    by (auto simp: readUMPVarint_def Let_def split: list.splits if_splits)
  then have "take_varint False bs = Inr (v, rest) \<longleftrightarrow>
      (\<exists>n. readUMPVarint bs = Inr (v, n) \<and> rest = drop n bs)"
    using readUMPVarint_take [of bs]
    by (auto simp: take_varint_def short_read_def bind_res_Inr_iff split: if_splits)
  then show ?thesis
    using encodeUMPVarint_length [of v] by (auto simp: readUMPVarint_iff)
qed

lemma take_part_None: "take_part over m bs = Inr None \<longleftrightarrow> \<not> over \<and> bs = []"
proof -
  have "readUMPVarint xs \<noteq> Inl EOF" for xs
    by (auto simp: readUMPVarint_def Let_def split: list.splits if_splits prod.splits)
  then have "take_varint over bs = Inl EOF \<longleftrightarrow> \<not> over \<and> bs = []"
    by (auto simp: take_varint_def short_read_def bind_res_Inl_iff)
  then show ?thesis
    by (auto simp: take_part_def bind_res_Inr_iff split: sum.splits if_splits)
qed

lemma take_part_Some_iff:
  "take_part False m bs = Inr (Some (p, rest)) \<longleftrightarrow>
     (\<exists>t bs1 n bs2. take_varint False bs = Inr (t, bs1) \<and> uint t \<le> MaxInt32 \<and>
        take_varint False bs1 = Inr (n, bs2) \<and> uint n \<le> m \<and> unat n \<le> length bs2 \<and>
        p = \<lparr>part_Type = uint t, part_Payload = take (unat n) bs2\<rparr> \<and> rest = drop (unat n) bs2)"
proof (cases "take_varint False bs")
  case (Inr tb)
  obtain t bs1 where tb: "tb = (t, bs1)" by fastforce
  show ?thesis
    using Inr tb by (cases "take_varint False bs1") (auto simp: take_part_def int32FromUint64_def split: if_splits)
qed (simp add: take_part_def)

lemma take_part_Some:
  "take_part False MaxPartPayload bs = Inr (Some (p, rest)) \<longleftrightarrow> part_ok p \<and> bs = frame p @ rest"
proof
  assume "take_part False MaxPartPayload bs = Inr (Some (p, rest))"
  then obtain t bs1 n bs2 where
    t: "uint t \<le> MaxInt32" "bs = fst (encodeUMPVarint t) @ bs1" and
    n: "uint n \<le> MaxPartPayload" "unat n \<le> length bs2" "bs1 = fst (encodeUMPVarint n) @ bs2" and
    p: "p = \<lparr>part_Type = uint t, part_Payload = take (unat n) bs2\<rparr>" "rest = drop (unat n) bs2"
    by (auto simp: take_part_Some_iff take_varint_iff)
  then show "part_ok p \<and> bs = frame p @ rest"
    by (simp add: part_ok_def frame_def min_def)
next
  assume p: "part_ok p \<and> bs = frame p @ rest"
  define t n :: u64 where tn: "t = word_of_int (part_Type p)" "n = word_of_nat (length (part_Payload p))"
  have "uint t = part_Type p" "unat n = length (part_Payload p)" "t \<le> mask 32" "n \<le> mask 32"
      "uint n \<le> MaxPartPayload"
    using p by (simp_all add: tn part_ok_def limits uint_word_of_int unsigned_of_nat word_le_def
        mask_eq_exp_minus_1 take_bit_nat_eq_self take_bit_int_eq_self)
  then show "take_part False MaxPartPayload bs = Inr (Some (p, rest))"
    unfolding take_part_Some_iff take_varint_iff using p
    by (intro exI [of _ t] exI [of _ "fst (encodeUMPVarint n) @ part_Payload p @ rest"] exI [of _ n]
        exI [of _ "part_Payload p @ rest"]) (simp add: frame_def part_ok_def flip: tn)
qed

lemma frame_nonempty [simp]: "frame p \<noteq> []"
  using encodeUMPVarint_length [of "word_of_int (part_Type p)"]
    encodeUMPVarint_size [of "word_of_int (part_Type p)"]
  by (auto simp: frame_def)

lemma frames_Suc_iff:
  "frames over m (Suc k) bs = Inr ps \<longleftrightarrow>
     (take_part over m bs = Inr None \<and> ps = []) \<or>
     (\<exists>p rest qs. take_part over m bs = Inr (Some (p, rest)) \<and> frames over m k rest = Inr qs \<and>
        ps = p # qs)"
proof (cases "take_part over m bs")
  case (Inr x)
  then show ?thesis
    by (cases x) (auto simp: bind_res_Inr_iff)
qed simp

lemma frames_over: "frames True m k bs \<noteq> Inr ps"
proof (induction k arbitrary: bs ps)
  case 0
  then show ?case
    using take_part_None [of True m bs] by (auto simp: bind_res_Inr_iff split: option.splits)
next
  case (Suc k)
  then show ?case
    unfolding frames_Suc_iff take_part_None by auto
qed

lemma frames_iff:
  "frames False MaxPartPayload k bs = Inr ps \<longleftrightarrow>
     length ps \<le> k \<and> list_all part_ok ps \<and> bs = concat (map frame ps)"
proof (induction k arbitrary: bs ps)
  case 0
  then show ?case
    using take_part_None [of False MaxPartPayload bs]
    by (auto simp: bind_res_Inr_iff split: option.splits)
next
  case (Suc k)
  then show ?case
    unfolding frames_Suc_iff take_part_None take_part_Some by (cases ps) auto
qed

section \<open>Properties\<close>

text \<open>
  C17. A UMP body is accepted with parts \<open>ps\<close> if and only if it is within the limit of a response,
  there are at most \<open>MaxParts\<close> of them, each of a type and size the format can carry, and the body
  is exactly their canonical frames one after the other: nothing is dropped, nothing is invented,
  and no second spelling of a body exists.
\<close>

theorem ParseAll_accepts_exactly_frames:
  "ParseAll body = Inr ps \<longleftrightarrow>
     int (length body) \<le> MaxRoundBytes \<and> length ps \<le> MaxParts \<and> list_all part_ok ps \<and>
     body = concat (map frame ps)"
proof (cases "length body > nat MaxRoundBytes")
  case True
  moreover have "\<not> int (length body) \<le> MaxRoundBytes"
    using True by linarith
  ultimately show ?thesis
    by (simp add: ParseAll_frames frames_over)
next
  case False
  moreover have "int (length body) \<le> MaxRoundBytes"
    using False by (simp add: limits)
  ultimately show ?thesis
    by (simp add: ParseAll_frames frames_iff)
qed



end
