(* ===== verification/Control.thy ===== *)
theory Control
  imports ContextState UmpFrames TrackLog
begin

text \<open>
  The control directives of a response, \<open>control.go\<close>, and the loop that feeds a response into them and
  into the assembler, \<open>consumeStreamState\<close> of \<open>downloader.go\<close>. Cookie, backoff, redirect and context
  changes are collected in a \<open>responseControl\<close> on a copy of the store and handed out as a \<open>roundControl\<close>
  only when the whole response was consumed without an error; the assembler advances while
  parts arrive. The connection is a state and a read function as in \<open>UmpReader\<close>, with
  \<open>poll\<close> as the view of the request context: \<open>ctx.Err()\<close>.
\<close>

section \<open>State\<close>

text \<open>\<open>time.Duration\<close> counts nanoseconds; a cookie that is absent is \<open>None\<close>.\<close>

record roundControl =
  rctl_backoff :: i64
  rctl_cookie :: "byte list"
  rctl_updateCookie :: bool
  rctl_redirectURL :: string
  rctl_hasRedirect :: bool
  rctl_contexts :: sabrContextState

record responseControl =
  rc_hasPolicy :: bool
  rc_backoffMs :: i64
  rc_cookie :: "byte list"
  rc_hasCookie :: bool
  rc_sawEndOfTrack :: bool
  rc_frozen :: bool
  rc_hasRedirect :: bool
  rc_redirectURL :: string
  rc_policyOps :: int
  rc_contexts :: sabrContextState
  rc_hasSabrError :: bool
  rc_hasReload :: bool

record 'w streamConsumer =
  sc_assembler :: "'w trackAssembler"
  sc_control :: responseControl
  sc_redirects :: redirectTracker

definition newStreamConsumerState ::
    "'w trackAssembler \<Rightarrow> sabrContextState \<Rightarrow> redirectTracker \<Rightarrow> 'w streamConsumer" where
  "newStreamConsumerState a contexts redirects =
     \<lparr>sc_assembler = a,
      sc_control = \<lparr>rc_hasPolicy = False, rc_backoffMs = 0, rc_cookie = [], rc_hasCookie = False,
        rc_sawEndOfTrack = False, rc_frozen = False, rc_hasRedirect = False, rc_redirectURL = [],
        rc_policyOps = 0, rc_contexts = clone contexts, rc_hasSabrError = False, rc_hasReload = False\<rparr>,
      sc_redirects = redirects\<rparr>"

definition newStreamConsumer :: "'w trackAssembler \<Rightarrow> 'w streamConsumer" where
  "newStreamConsumer a = newStreamConsumerState a newSabrContextState (newRedirectTracker [])"

section \<open>Directives\<close>

definition consumePolicy :: "responseControl \<Rightarrow> byte list \<Rightarrow> responseControl \<times> error option" where
  "consumePolicy c payload =
     (if rc_hasPolicy c then (c, Some ErrInvalidMediaState)
      else (case parseNextRequestPolicy payload of
              Inl e \<Rightarrow> (c, Some e)
            | Inr p \<Rightarrow>
                let c = c\<lparr>rc_hasPolicy := True, rc_backoffMs := nrp_backoffMs p\<rparr>
                in (case nrp_cookie p of
                      Some cookie \<Rightarrow> (c\<lparr>rc_hasCookie := True, rc_cookie := cookie\<rparr>, None)
                    | None \<Rightarrow> (c, None))))"

definition consumeEndOfTrack ::
    "responseControl \<Rightarrow> byte list \<Rightarrow> 'w trackAssembler \<Rightarrow> responseControl \<times> error option" where
  "consumeEndOfTrack c payload a =
     (if rc_sawEndOfTrack c then (c, Some ErrInvalidMediaState)
      else if length payload \<noteq> 0 then (c, Some ErrInvalidMediaState)
      else if fcard (fmdom (ta_active a)) > 0 then (c, Some ErrInvalidMediaState)
      else if \<not> canCompleteByEndOfTrack a then (c, Some ErrInvalidMediaState)
      else (c\<lparr>rc_sawEndOfTrack := True\<rparr>, None))"

definition consumeRedirect :: "responseControl \<Rightarrow> byte list \<Rightarrow> responseControl \<times> error option" where
  "consumeRedirect c payload =
     (if rc_hasRedirect c then (c, Some ErrInvalidMediaState)
      else (case parseSabrRedirect payload of
              Inl e \<Rightarrow> (c, Some e)
            | Inr d \<Rightarrow> (c\<lparr>rc_hasRedirect := True, rc_redirectURL := srd_URL d\<rparr>, None)))"

definition consumeContextUpdate :: "responseControl \<Rightarrow> byte list \<Rightarrow> responseControl \<times> error option" where
  "consumeContextUpdate c payload =
     (case parseSabrContextUpdate payload of
        Inl e \<Rightarrow> (c, Some e)
      | Inr d \<Rightarrow> let (s, e) = applyUpdate (rc_contexts c) d in (c\<lparr>rc_contexts := s\<rparr>, e))"

definition consumeSendingPolicy :: "responseControl \<Rightarrow> byte list \<Rightarrow> responseControl \<times> error option" where
  "consumeSendingPolicy c payload =
     (case parseSabrContextSendingPolicy payload (rc_policyOps c) of
        Inl e \<Rightarrow> (c, Some e)
      | Inr (d, ops) \<Rightarrow>
          let (s, e) = applySendingPolicy (rc_contexts c) d
          in (c\<lparr>rc_policyOps := ops, rc_contexts := s\<rparr>, e))"

definition consumeSabrError :: "responseControl \<Rightarrow> byte list \<Rightarrow> responseControl \<times> error option" where
  "consumeSabrError c payload =
     (if rc_hasSabrError c \<or> rc_hasReload c then (c, Some ErrInvalidMediaState)
      else (case parseSabrError payload of
              Inl e \<Rightarrow> (c, Some e)
            | Inr d \<Rightarrow> (c\<lparr>rc_hasSabrError := True\<rparr>, Some (SabrErrorSignal (sed_Type d) (sed_Code d)))))"

definition consumeReloadPlayer :: "responseControl \<Rightarrow> byte list \<Rightarrow> responseControl \<times> error option" where
  "consumeReloadPlayer c payload =
     (if rc_hasSabrError c \<or> rc_hasReload c then (c, Some ErrInvalidMediaState)
      else (case parseReloadPlayerResponse payload of
              Inl e \<Rightarrow> (c, Some e)
            | Inr d \<Rightarrow> (c\<lparr>rc_hasReload := True\<rparr>, Some (ReloadPlayerSignal (rpd_Token d)))))"

definition commit :: "responseControl \<Rightarrow> redirectTracker \<Rightarrow> roundControl res" where
  "commit c redirects =
     (let result = \<lparr>rctl_backoff = 0, rctl_cookie = [], rctl_updateCookie = False, rctl_redirectURL = [],
            rctl_hasRedirect = False, rctl_contexts = newSabrContextState\<rparr>;
          result = (if rc_hasPolicy c then
              let result = result\<lparr>rctl_backoff := wrap64 (rc_backoffMs c * 1000000)\<rparr>
              in if rc_hasCookie c
                 then result\<lparr>rctl_updateCookie := True, rctl_cookie := rc_cookie c\<rparr> else result
            else result)
      in bind_res
           (if rc_hasRedirect c then
              bind_res (tracker_validate redirects (rc_redirectURL c)) (\<lambda>_.
                Inr (result\<lparr>rctl_hasRedirect := True, rctl_redirectURL := rc_redirectURL c\<rparr>))
            else Inr result)
           (\<lambda>result. Inr (result\<lparr>rctl_contexts := clone (rc_contexts c)\<rparr>)))"

section \<open>The consumer\<close>

definition on_control ::
    "'w streamConsumer \<Rightarrow> responseControl \<times> error option \<Rightarrow> 'w streamConsumer \<times> error option" where
  "on_control c ce = (c\<lparr>sc_control := fst ce\<rparr>, snd ce)"

definition consumer_consumePart ::
    "'w track_env \<Rightarrow> 'w streamConsumer \<Rightarrow> Part \<Rightarrow> 'w streamConsumer \<times> error option" where
  "consumer_consumePart env c part =
     (let ctl = sc_control c; t = part_Type part; payload = part_Payload part
      in if rc_frozen ctl then (c, Some ErrInvalidMediaState)
         else if t = PartNextRequestPolicy then on_control c (consumePolicy ctl payload)
         else if t = PartEndOfTrack then
           (case consumeEndOfTrack ctl payload (sc_assembler c) of
              (ctl, Some e) \<Rightarrow> (c\<lparr>sc_control := ctl\<rparr>, Some e)
            | (ctl, None) \<Rightarrow> (c\<lparr>sc_control := ctl\<lparr>rc_frozen := True\<rparr>\<rparr>, None))
         else if t = PartSABRRedirect then on_control c (consumeRedirect ctl payload)
         else if t = PartSABRContextUpdate then on_control c (consumeContextUpdate ctl payload)
         else if t = PartSABRContextSendingPolicy then on_control c (consumeSendingPolicy ctl payload)
         else if t = PartSABRError then on_control c (consumeSabrError ctl payload)
         else if t = PartReloadPlayerResponse then on_control c (consumeReloadPlayer ctl payload)
         else let (a, e) = assembler_consumePart env (sc_assembler c) t payload
              in (c\<lparr>sc_assembler := a\<rparr>, e))"

definition finish :: "'w track_env \<Rightarrow> 'w streamConsumer \<Rightarrow> 'w streamConsumer \<times> roundControl res" where
  "finish env c =
     (case finishResponse (sc_assembler c) of
        Inl e \<Rightarrow> (c, Inl e)
      | Inr _ \<Rightarrow>
          (case commit (sc_control c) (sc_redirects c) of
             Inl e \<Rightarrow> (c, Inl e)
           | Inr ctrl \<Rightarrow>
               if rc_sawEndOfTrack (sc_control c) then
                 (case applyEndOfTrackCompletion env (sc_assembler c) of
                    (a, Some e) \<Rightarrow> (c\<lparr>sc_assembler := a\<rparr>, Inl e)
                  | (a, None) \<Rightarrow> (c\<lparr>sc_assembler := a\<rparr>, Inr ctrl))
               else (c, Inr ctrl)))"

text \<open>The loop over the parts of a response. It ends because the reader counts parts up to a limit.\<close>

type_synonym 's poll_fun = "'s \<Rightarrow> 's \<times> error option"

function consume_loop ::
    "'s poll_fun \<Rightarrow> 's read_fun \<Rightarrow> 'w track_env \<Rightarrow> 'w streamConsumer \<Rightarrow> 's Reader \<Rightarrow>
      'w streamConsumer \<times> roundControl res" where
  "consume_loop poll rd env c r =
     (case poll (rd_source r) of
        (s, Some e) \<Rightarrow> (c, Inl e)
      | (s, None) \<Rightarrow>
          (case ReadPart rd (r\<lparr>rd_source := s\<rparr>) of
             (r, Inl e) \<Rightarrow> (c, Inl e)
           | (r, Inr None) \<Rightarrow> finish env c
           | (r, Inr (Some part)) \<Rightarrow>
               (case consumer_consumePart env c part of
                  (c, Some e) \<Rightarrow> (c, Inl e)
                | (c, None) \<Rightarrow> consume_loop poll rd env c r)))"
  by pat_completeness auto
termination
  by (relation "measure (\<lambda>(poll, rd, env, c, r). rd_maxParts r - rd_partCount r)")
    (auto dest!: ReadPart_counts [OF sym])

declare consume_loop.simps [simp del]

definition consumeStreamState ::
    "'s poll_fun \<Rightarrow> 's read_fun \<Rightarrow> 'w track_env \<Rightarrow> 's \<Rightarrow> 'w trackAssembler \<Rightarrow> sabrContextState \<Rightarrow>
      redirectTracker \<Rightarrow> 'w trackAssembler \<times> roundControl res" where
  "consumeStreamState poll rd env body a contexts redirects =
     (let (c, result) = consume_loop poll rd env (newStreamConsumerState a contexts redirects)
            (NewReader body MaxRoundBytes)
      in (sc_assembler c, result))"

definition consumeStream ::
    "'s poll_fun \<Rightarrow> 's read_fun \<Rightarrow> 'w track_env \<Rightarrow> 's \<Rightarrow> 'w trackAssembler \<Rightarrow>
      'w trackAssembler \<times> roundControl res" where
  "consumeStream poll rd env body a =
     consumeStreamState poll rd env body a newSabrContextState (newRedirectTracker [])"

section \<open>How a response ends\<close>

text \<open>\<open>consumed\<close>: the consumer has accepted some parts one after the other.\<close>

inductive consumed :: "'w track_env \<Rightarrow> 'w streamConsumer \<Rightarrow> 'w streamConsumer \<Rightarrow> bool" for env c where
  nothing: "consumed env c c"
| accepted: "consumed env c c1 \<Longrightarrow> consumer_consumePart env c1 part = (c2, None) \<Longrightarrow> consumed env c c2"

lemma consumed_trans: "consumed env c1 c2 \<Longrightarrow> consumed env c c1 \<Longrightarrow> consumed env c c2"
  by (induction rule: consumed.induct) (auto intro: consumed.intros)

text \<open>
  After some accepted parts the loop ends in one of three ways: the connection gives up, a part is
  rejected, or the stream ends and the response is finished.
\<close>

lemma consume_loop_cases:
  assumes "consume_loop poll rd env c r = (c', res)"
  shows "\<exists>c1. consumed env c c1 \<and>
    ((c' = c1 \<and> (\<exists>e. res = Inl e)) \<or>
     (\<exists>part e. consumer_consumePart env c1 part = (c', Some e) \<and> res = Inl e) \<or>
     finish env c1 = (c', res))"
  using assms
proof (induction poll rd env c r rule: consume_loop.induct)
  case (1 poll rd env c r)
  obtain s pe where p: "poll (rd_source r) = (s, pe)" by fastforce
  obtain r1 x where q: "ReadPart rd (r\<lparr>rd_source := s\<rparr>) = (r1, x)" by fastforce
  have base: ?case if "(c' = c \<and> (\<exists>e. res = Inl e)) \<or>
     (\<exists>part e. consumer_consumePart env c part = (c', Some e) \<and> res = Inl e) \<or> finish env c = (c', res)"
    using that by (intro exI [of _ c]) (auto intro: consumed.intros)
  show ?case
  proof (cases "pe = None \<and> (\<exists>part c2. x = Inr (Some part) \<and> consumer_consumePart env c part = (c2, None))")
    case True
    then obtain part c2 where c2: "pe = None" "x = Inr (Some part)" "consumer_consumePart env c part = (c2, None)"
      by blast
    then have "consume_loop poll rd env c2 r1 = (c', res)"
      using "1.prems" p q by (simp add: consume_loop.simps [of poll rd env c])
    from "1.IH" [OF p [symmetric] c2(1) q [symmetric] c2(2) refl c2(3) [symmetric] refl this]
    show ?thesis
      using consumed_trans [OF _ consumed.accepted [OF consumed.nothing c2(3)]] by blast
  next
    case False
    then show ?thesis
      using "1.prems" p q base
      by (auto simp: consume_loop.simps [of poll rd env c] split: option.splits sum.splits prod.splits)
  qed
qed

lemma consumed_invariant:
  assumes "consumed env c c1" and "I c"
    and "\<And>c1 part c2. I c1 \<Longrightarrow> consumer_consumePart env c1 part = (c2, None) \<Longrightarrow> I c2"
  shows "I c1"
  using assms(1) by induction (use assms(2,3) in auto)

lemma consume_loop_success:
  assumes "consume_loop poll rd env c r = (c', Inr ctrl)"
  shows "\<exists>c1. consumed env c c1 \<and> finish env c1 = (c', Inr ctrl)"
  using consume_loop_cases [OF assms] by auto

section \<open>What is committed\<close>

definition control_ok :: "'w streamConsumer \<Rightarrow> bool" where
  "control_ok c \<longleftrightarrow>
     (let ctl = sc_control c
      in contexts_ok (rc_contexts ctl) \<and> rc_policyOps ctl \<le> MaxSabrContextPolicyOps \<and>
         0 \<le> rc_backoffMs ctl \<and> rc_backoffMs ctl \<le> MaxPolicyBackoffMs \<and>
         (rc_hasCookie ctl \<longrightarrow> rc_cookie ctl \<noteq> [] \<and> length (rc_cookie ctl) \<le> MaxPlaybackCookieBytes) \<and>
         (rc_hasRedirect ctl \<longrightarrow> (\<exists>u. ValidateSABRURL (rc_redirectURL ctl) = Inr u)) \<and>
         rc_frozen ctl = rc_sawEndOfTrack ctl \<and>
         (rc_frozen ctl \<longrightarrow> canCompleteByEndOfTrack (sc_assembler c)))"

lemmas control_defs =
  consumePolicy_def consumeEndOfTrack_def consumeRedirect_def consumeContextUpdate_def
  consumeSendingPolicy_def consumeSabrError_def consumeReloadPlayer_def on_control_def

lemma control_ok_new: "contexts_ok contexts \<Longrightarrow> control_ok (newStreamConsumerState a contexts redirects)"
  by (simp add: control_ok_def newStreamConsumerState_def limits)

lemma control_ok_part:
  assumes ok: "control_ok c" and part: "consumer_consumePart env c part = (c', None)"
  shows "control_ok c'"
proof -
  let ?t = "part_Type part"
  have open_ctl: "\<not> rc_frozen (sc_control c)"
    using part by (auto simp: consumer_consumePart_def)
  consider (policy) "?t = PartNextRequestPolicy" | (end_of_track) "?t = PartEndOfTrack"
    | (redirect) "?t = PartSABRRedirect" | (update) "?t = PartSABRContextUpdate"
    | (sending) "?t = PartSABRContextSendingPolicy" | (sabr) "?t = PartSABRError"
    | (reload) "?t = PartReloadPlayerResponse"
    | (media) "?t \<notin> {PartNextRequestPolicy, PartEndOfTrack, PartSABRRedirect, PartSABRContextUpdate,
        PartSABRContextSendingPolicy, PartSABRError, PartReloadPlayerResponse}"
    by blast
  then show ?thesis
  proof cases
    case policy
    with part ok open_ctl show ?thesis
      by (auto simp: consumer_consumePart_def control_ok_def control_defs Let_def part_ids
          split: sum.splits option.splits if_splits dest: parseNextRequestPolicy_ok)
  next
    case end_of_track
    with part ok open_ctl show ?thesis
      by (auto simp: consumer_consumePart_def control_ok_def control_defs Let_def part_ids
          split: option.splits if_splits)
  next
    case redirect
    with part ok open_ctl show ?thesis
      by (auto simp: consumer_consumePart_def control_ok_def control_defs Let_def part_ids
          split: sum.splits if_splits dest: parseSabrRedirect_ok)
  next
    case update
    with part ok open_ctl show ?thesis
      by (auto simp: consumer_consumePart_def control_ok_def control_defs Let_def part_ids
          split: sum.splits prod.splits dest: applyUpdate_ok)
  next
    case sending
    with part ok open_ctl show ?thesis
      by (auto simp: consumer_consumePart_def control_ok_def control_defs Let_def part_ids
          split: sum.splits prod.splits dest: applySendingPolicy_ok parseSabrContextSendingPolicy_ok)
  next
    case media
    with part ok open_ctl show ?thesis
      by (auto simp: consumer_consumePart_def control_ok_def Let_def split: prod.splits)
  qed (use part open_ctl in \<open>auto simp: consumer_consumePart_def control_defs Let_def part_ids
      split: sum.splits if_splits\<close>)
qed

lemma consumed_redirects: "consumed env c c1 \<Longrightarrow> sc_redirects c1 = sc_redirects c"
  by (induction rule: consumed.induct)
    (auto simp: consumer_consumePart_def on_control_def Let_def split: if_splits prod.splits option.splits)

lemma commit_Inr:
  assumes "commit c redirects = Inr ctrl"
  shows "rctl_contexts ctrl = rc_contexts c"
    and "rctl_backoff ctrl = (if rc_hasPolicy c then wrap64 (rc_backoffMs c * 1000000) else 0)"
    and "rctl_updateCookie ctrl \<longleftrightarrow> rc_hasPolicy c \<and> rc_hasCookie c"
    and "rctl_updateCookie ctrl \<Longrightarrow> rctl_cookie ctrl = rc_cookie c"
    and "rctl_hasRedirect ctrl = rc_hasRedirect c"
    and "rctl_hasRedirect ctrl \<Longrightarrow>
      rctl_redirectURL ctrl = rc_redirectURL c \<and> tracker_validate redirects (rc_redirectURL c) = Inr ()"
  using assms by (auto simp: commit_def Let_def bind_res_Inr_iff split: if_splits)

lemma finish_Inr:
  assumes "finish env c = (c', Inr ctrl)"
  shows "ta_active (sc_assembler c) = fmempty" and "commit (sc_control c) (sc_redirects c) = Inr ctrl"
    and "if rc_sawEndOfTrack (sc_control c)
      then applyEndOfTrackCompletion env (sc_assembler c) = (sc_assembler c', None)
      else sc_assembler c' = sc_assembler c"
  using assms
  by (auto simp: finish_def finishResponse_def split: sum.splits if_splits option.splits prod.splits
      intro!: fmap_ext fmdom_notD)

lemma commitProgress_active:
  "commitProgress env a = (a', e) \<Longrightarrow> ta_active a' = ta_active a \<and> ta_endOfTrackDone a' = ta_endOfTrackDone a"
  by (auto simp: commitProgress_def Let_def split: option.splits prod.splits)

lemma applyEndOfTrackCompletion_done:
  "applyEndOfTrackCompletion env a = (a', None) \<Longrightarrow>
     ta_active a' = ta_active a \<and> ta_endOfTrackDone a' \<and> canCompleteByEndOfTrack a"
  by (auto simp: applyEndOfTrackCompletion_def dest!: commitProgress_active split: if_splits)

section \<open>The track across a response\<close>

text \<open>
  The errors after which \<open>Download\<close> goes on, as \<open>errors.As\<close> finds them through wrappers: the signals of the
  server and what is marked as retryable.
\<close>

fun recoverable :: "error \<Rightarrow> bool" where
  "recoverable (SabrErrorSignal typ code) = True"
| "recoverable (ReloadPlayerSignal token) = True"
| "recoverable (Retryable e) = True"
| "recoverable (Joined e1 e2) \<longleftrightarrow> recoverable e1 \<or> recoverable e2"
| "recoverable e = False"

text \<open>An environment whose own errors are none of these.\<close>

locale quiet_world = track_world +
  assumes write_quiet: "te_write env w bs = (w', n, Some e) \<Longrightarrow> \<not> recoverable e"
    and commit_quiet: "te_onCommit env = Some f \<Longrightarrow> f a = (w', Some e) \<Longrightarrow> \<not> recoverable e"
begin

lemma commitProgress_quiet: "commitProgress env a = (a', Some e) \<Longrightarrow> \<not> recoverable e"
  by (auto simp: commitProgress_def Let_def commit_quiet split: option.splits prod.splits)

lemma writeBytes_quiet: "writeBytes env a bs = (a', Some e) \<Longrightarrow> \<not> recoverable e"
  by (auto simp: writeBytes_def Let_def write_quiet split: if_splits prod.splits option.splits)

lemma finalizeInit_quiet: "finalizeInit env a h bs = (a', Some e) \<Longrightarrow> \<not> recoverable e"
  by (auto simp: finalizeInit_def Let_def
      dest: writeBytes_quiet commitProgress_quiet split: if_splits prod.splits option.splits)

lemma finalizeMedia_quiet: "finalizeMedia env a h header bs = (a', Some e) \<Longrightarrow> \<not> recoverable e"
  by (auto simp: finalizeMedia_def Let_def int32SegmentIndex_def
      dest: writeBytes_quiet commitProgress_quiet split: if_splits prod.splits option.splits sum.splits)

lemma consumePart_quiet:
  assumes "assembler_consumePart env a t payload = (a', Some e)"
  shows "a' = a \<or> \<not> recoverable e"
proof -
  have "a' = a" if "consumeFormatInit a payload = (a', Some e)"
    using that by (auto simp: consumeFormatInit_def split: sum.splits if_splits)
  moreover have "a' = a" if "consumeHeader a payload = (a', Some e)"
    using that by (auto simp: consumeHeader_def Let_def split: sum.splits if_splits)
  moreover have "a' = a" if "consumeMedia a payload = (a', Some e)"
    using that by (auto simp: consumeMedia_def split: sum.splits if_splits option.splits)
  moreover have "a' = a \<or> \<not> recoverable e" if "finalizeSegment env a payload = (a', Some e)"
    using that
    by (auto simp: finalizeSegment_def Let_def dest: finalizeInit_quiet finalizeMedia_quiet
        split: sum.splits if_splits option.splits)
  ultimately show ?thesis
    using assms by (auto simp: assembler_consumePart_def split: if_splits)
qed

text \<open>Accepted parts are steps of the assembler; a recoverable error leaves the assembler where it was.\<close>

lemma consumed_run:
  assumes "consumed env c c1" and "track_run env start (sc_assembler c)"
  shows "track_run env start (sc_assembler c1)"
  using assms
proof (induction rule: consumed.induct)
  case (accepted c1 part c2)
  then show ?case
    by (auto simp: consumer_consumePart_def on_control_def Let_def
        split: if_splits prod.splits option.splits intro: track_run.intros)
qed

lemma part_signal:
  assumes "consumer_consumePart env c part = (c', Some e)" and "recoverable e"
  shows "sc_assembler c' = sc_assembler c"
  using assms
  by (auto simp: consumer_consumePart_def on_control_def Let_def
      split: if_splits prod.splits option.splits dest!: consumePart_quiet)

lemma finish_signal:
  assumes "finish env c = (c', Inl e)" and "recoverable e"
  shows "sc_assembler c' = sc_assembler c"
  using assms
  by (auto simp: finish_def applyEndOfTrackCompletion_def
      split: sum.splits if_splits prod.splits option.splits dest!: commitProgress_quiet)

text \<open>However a response ends, the assembler has made a run and perhaps one more step that failed.\<close>

lemma response_ends:
  assumes "consumeStreamState poll rd env body a contexts redirects = (a', res)"
    and "track_run env start a"
  shows "\<exists>a1. track_run env start a1 \<and>
    (a' = a1 \<or> (\<exists>t payload e. assembler_consumePart env a1 t payload = (a', e)) \<or>
     (\<exists>e. applyEndOfTrackCompletion env a1 = (a', e)))"
proof -
  obtain c' where c': "consume_loop poll rd env (newStreamConsumerState a contexts redirects)
      (NewReader body MaxRoundBytes) = (c', res)" and a': "a' = sc_assembler c'"
    using assms(1) by (auto simp: consumeStreamState_def Let_def split: prod.splits)
  from consume_loop_cases [OF c'] obtain c1 where
    c1: "consumed env (newStreamConsumerState a contexts redirects) c1"
    and ends: "c' = c1 \<or> (\<exists>part e. consumer_consumePart env c1 part = (c', Some e)) \<or> finish env c1 = (c', res)"
    by blast
  have run: "track_run env start (sc_assembler c1)"
    using consumed_run [OF c1] assms(2) by (simp add: newStreamConsumerState_def)
  have "sc_assembler c' = sc_assembler c1 \<or>
      (\<exists>t payload e. assembler_consumePart env (sc_assembler c1) t payload = (sc_assembler c', e))"
    if "consumer_consumePart env c1 part = (c', Some e)" for part e
    using that
    by (auto simp: consumer_consumePart_def on_control_def Let_def split: if_split_asm prod.splits option.splits)
  moreover have "sc_assembler c' = sc_assembler c1 \<or>
      (\<exists>e. applyEndOfTrackCompletion env (sc_assembler c1) = (sc_assembler c', e))"
    if "finish env c1 = (c', res)"
    using that by (auto simp: finish_def split: sum.splits if_splits prod.splits option.splits)
  ultimately show ?thesis
    using run ends a' by blast
qed

lemma response_run:
  assumes "consumeStreamState poll rd env body a contexts redirects = (a', res)"
    and "track_run env start a" and "\<And>e. res = Inl e \<Longrightarrow> recoverable e"
  shows "track_run env start a'"
proof -
  obtain c' where c': "consume_loop poll rd env (newStreamConsumerState a contexts redirects)
      (NewReader body MaxRoundBytes) = (c', res)" and a': "a' = sc_assembler c'"
    using assms(1) by (auto simp: consumeStreamState_def Let_def split: prod.splits)
  from consume_loop_cases [OF c'] obtain c1 where
    c1: "consumed env (newStreamConsumerState a contexts redirects) c1"
    and ends: "(c' = c1 \<and> (\<exists>e. res = Inl e)) \<or>
     (\<exists>part e. consumer_consumePart env c1 part = (c', Some e) \<and> res = Inl e) \<or>
     finish env c1 = (c', res)"
    by blast
  have run: "track_run env start (sc_assembler c1)"
    using consumed_run [OF c1] assms(2) by (simp add: newStreamConsumerState_def)
  show ?thesis
  proof (cases res)
    case (Inl e)
    with assms(3) ends have "sc_assembler c' = sc_assembler c1"
      using part_signal finish_signal by blast
    with run a' show ?thesis by simp
  next
    case (Inr ctrl)
    with ends have f: "finish env c1 = (c', Inr ctrl)" by auto
    show ?thesis
      using finish_Inr(3) [OF f] run run_end [OF run] a' by (auto split: if_splits)
  qed
qed

end

interpretation quiet_disk: quiet_world "file_env None" of_content
  by unfold_locales (auto simp: file_env_def os_Write_def split: list.splits option.splits)

section \<open>The response as a list of parts\<close>

text \<open>What a response means: its parts are consumed in order until one fails, then it is finished.\<close>

fun feed :: "'w track_env \<Rightarrow> 'w streamConsumer \<Rightarrow> Part list \<Rightarrow> 'w streamConsumer \<times> roundControl res" where
  "feed env c [] = finish env c"
| "feed env c (p # ps) =
     (case consumer_consumePart env c p of
        (c, Some e) \<Rightarrow> (c, Inl e)
      | (c, None) \<Rightarrow> feed env c ps)"

definition uncancelled :: "'s poll_fun" where
  "uncancelled s = (s, None)"

lemma parse_all_extends: "parse_all rd r acc = Inr ps \<Longrightarrow> \<exists>qs. ps = acc @ qs"
proof (induction rd r acc rule: parse_all.induct)
  case (1 rd r acc)
  obtain r1 x where q: "ReadPart rd r = (r1, x)" by fastforce
  show ?case
  proof (cases "\<exists>p. x = Inr (Some p)")
    case True
    then obtain p where p: "x = Inr (Some p)" by blast
    then have "parse_all rd r1 (acc @ [p]) = Inr ps"
      using "1.prems" q by (simp add: parse_all.simps [of rd r])
    from "1.IH" [OF q [symmetric] p refl this] show ?thesis by auto
  next
    case False
    then show ?thesis
      using "1.prems" q by (auto simp: parse_all.simps [of rd r] split: sum.splits option.splits)
  qed
qed

lemma consume_loop_feed:
  "parse_all rd r acc = Inr (acc @ ps) \<Longrightarrow> consume_loop uncancelled rd env c r = feed env c ps"
proof (induction rd r acc arbitrary: c ps rule: parse_all.induct)
  case (1 rd r acc)
  obtain r1 x where q: "ReadPart rd r = (r1, x)" by fastforce
  show ?case
  proof (cases "\<exists>p. x = Inr (Some p)")
    case True
    then obtain p where p: "x = Inr (Some p)" by blast
    then have all: "parse_all rd r1 (acc @ [p]) = Inr (acc @ ps)"
      using "1.prems" q by (simp add: parse_all.simps [of rd r])
    then obtain qs where qs: "ps = p # qs"
      using parse_all_extends by force
    with all have "parse_all rd r1 (acc @ [p]) = Inr ((acc @ [p]) @ qs)" by simp
    from "1.IH" [OF q [symmetric] p refl this] show ?thesis
      using q p qs
      by (simp add: consume_loop.simps [of _ rd env c] uncancelled_def [of "rd_source r"]
          split: prod.split option.split)
  next
    case False
    then show ?thesis
      using "1.prems" q
      by (auto simp: parse_all.simps [of rd r] consume_loop.simps [of _ rd env c]
          uncancelled_def [of "rd_source r"] split: sum.splits option.splits)
  qed
qed

lemma consumeStreamState_feed:
  assumes "byte_source rd content" and "content s = concat (map frame ps)"
    and "int (length (content s)) \<le> MaxRoundBytes" and "length ps \<le> MaxParts" and "list_all part_ok ps"
  shows "consumeStreamState uncancelled rd env s a contexts redirects =
    (let (c, res) = feed env (newStreamConsumerState a contexts redirects) ps in (sc_assembler c, res))"
proof -
  have "\<not> nat MaxRoundBytes < length (content s)" "take (nat MaxRoundBytes) (content s) = content s"
    using assms(3) by (simp_all add: limits)
  then have "parse_all rd (NewReader s MaxRoundBytes) [] = Inr ([] @ ps)"
    using byte_source.reader_refines_frames [OF assms(1), of MaxRoundBytes s] assms(2,4,5)
      frames_iff [of MaxParts "content s" ps]
    by (simp add: limits)
  from consume_loop_feed [OF this, of env "newStreamConsumerState a contexts redirects"] show ?thesis
    by (simp add: consumeStreamState_def)
qed

section \<open>A sample response\<close>

text \<open>One part: a policy that asks for a wait of one millisecond.\<close>

definition sample_policy :: Part where
  "sample_policy = \<lparr>part_Type = PartNextRequestPolicy, part_Payload = [32, 1]\<rparr>"

definition sample_track :: "unit os_file trackAssembler" where
  "sample_track = newTrackAssembler sample_format 5000 \<lparr>of_content = [], of_faults = [], of_saved = ()\<rparr> 100"

lemma sample_response:
  "frame sample_policy = [35, 2, 32, 1]" "part_ok sample_policy"
  "feed (file_env None) (newStreamConsumerState sample_track newSabrContextState (newRedirectTracker [])) [sample_policy] =
     ((newStreamConsumerState sample_track newSabrContextState (newRedirectTracker []))
        \<lparr>sc_control := (sc_control (newStreamConsumerState sample_track newSabrContextState (newRedirectTracker [])))
           \<lparr>rc_hasPolicy := True, rc_backoffMs := 1\<rparr>\<rparr>,
      Inr \<lparr>rctl_backoff = 1000000, rctl_cookie = [], rctl_updateCookie = False, rctl_redirectURL = [],
        rctl_hasRedirect = False, rctl_contexts = newSabrContextState\<rparr>)"
proof -
  show "frame sample_policy = [35, 2, 32, 1]" "part_ok sample_policy"
    by (simp_all add: sample_policy_def frame_def part_ok_def part_ids encodeUMPVarint_def limits)
  have "parseNextRequestPolicy [32, 1] = Inr \<lparr>nrp_backoffMs = 1, nrp_cookie = None\<rparr>"
    by code_simp
  then show "feed (file_env None) (newStreamConsumerState sample_track newSabrContextState (newRedirectTracker []))
      [sample_policy] =
     ((newStreamConsumerState sample_track newSabrContextState (newRedirectTracker []))
        \<lparr>sc_control := (sc_control (newStreamConsumerState sample_track newSabrContextState (newRedirectTracker [])))
           \<lparr>rc_hasPolicy := True, rc_backoffMs := 1\<rparr>\<rparr>,
      Inr \<lparr>rctl_backoff = 1000000, rctl_cookie = [], rctl_updateCookie = False, rctl_redirectURL = [],
        rctl_hasRedirect = False, rctl_contexts = newSabrContextState\<rparr>)"
    by (simp add: sample_policy_def consumer_consumePart_def on_control_def consumePolicy_def Let_def part_ids
        newStreamConsumerState_def finish_def finishResponse_def sample_track_def newTrackAssembler_def commit_def
        wrap64_def)
qed

section \<open>Properties\<close>

text \<open>
  C19. What a response commits is sound whatever the server sent: the store of contexts keeps its bounds, the
  wait is at most \<open>MaxPolicyBackoffMs\<close> milliseconds and exact in nanoseconds, a new cookie is non-empty and bounded, a redirect goes to a
  trusted endpoint that is new to this download and within the redirect budget, and no segment is left
  open.
\<close>

theorem committed_control_is_sound:
  assumes "consumeStreamState poll rd env body a contexts redirects = (a', Inr ctrl)"
    and "contexts_ok contexts"
  shows "contexts_ok (rctl_contexts ctrl) \<and>
    0 \<le> rctl_backoff ctrl \<and> rctl_backoff ctrl \<le> MaxPolicyBackoffMs * 1000000 \<and>
    (rctl_updateCookie ctrl \<longrightarrow> rctl_cookie ctrl \<noteq> [] \<and> length (rctl_cookie ctrl) \<le> MaxPlaybackCookieBytes) \<and>
    (rctl_hasRedirect ctrl \<longrightarrow> (\<exists>u. ValidateSABRURL (rctl_redirectURL ctrl) = Inr u) \<and>
       tracker_validate redirects (rctl_redirectURL ctrl) = Inr ()) \<and>
    ta_active a' = fmempty"
proof -
  let ?c = "newStreamConsumerState a contexts redirects"
  obtain c' where c': "consume_loop poll rd env ?c (NewReader body MaxRoundBytes) = (c', Inr ctrl)"
    and a': "a' = sc_assembler c'"
    using assms(1) by (auto simp: consumeStreamState_def Let_def split: prod.splits)
  obtain c1 where c1: "consumed env ?c c1" and f: "finish env c1 = (c', Inr ctrl)"
    using consume_loop_success [OF c'] by blast
  have ok: "control_ok c1"
    using consumed_invariant [where I = control_ok, OF c1 control_ok_new [OF assms(2)] control_ok_part] .
  have red: "sc_redirects c1 = redirects"
    using consumed_redirects [OF c1] by (simp add: newStreamConsumerState_def)
  have "in_i64 (rc_backoffMs (sc_control c1) * 1000000)"
    using ok by (simp add: control_ok_def Let_def in_i64_def limits)
  moreover have "ta_active a' = fmempty"
    using finish_Inr(1,3) [OF f] a' by (auto split: if_splits dest: applyEndOfTrackCompletion_done)
  ultimately show ?thesis
    using ok red commit_Inr [OF finish_Inr(2) [OF f]]
    by (auto simp: control_ok_def Let_def limits)
qed

theorem committed_control_is_sound_witness:
  "\<exists>a' ctrl. consumeStreamState uncancelled byteReader_Read (file_env None)
      (newByteReader [35, 2, 32, 1]) sample_track newSabrContextState (newRedirectTracker []) = (a', Inr ctrl) \<and>
    rctl_backoff ctrl = 1000000 \<and> contexts_ok (rctl_contexts ctrl) \<and> ta_active a' = fmempty"
proof -
  let ?r = "consumeStreamState uncancelled byteReader_Read (file_env None)
      (newByteReader [35, 2, 32, 1]) sample_track newSabrContextState (newRedirectTracker [])"
  obtain a' ctrl where r: "?r = (a', Inr ctrl)" "rctl_backoff ctrl = 1000000"
    using consumeStreamState_feed [OF byte_reader.byte_source_axioms, of "newByteReader [35, 2, 32, 1]" "[sample_policy]"
        "file_env None" sample_track newSabrContextState "newRedirectTracker []"] sample_response
    by (simp add: newByteReader_def limits)
  with committed_control_is_sound [OF r(1)] show ?thesis by simp
qed





text \<open>
  C24. A failed response is not forgotten. When a server announces a segment and then signals an error, the download
  retries with the same assembler, in which the segment is still open; a retry in which the
  server announces the same segment again is rejected as a duplicate, so that the recovery that was
  granted cannot succeed that way.
\<close>

theorem recovery_trips_over_open_segment:
  assumes "assembler_consumePart env a PartMediaHeader payload = (a1, None)" and "parseSabrError err = Inr d"
  shows "\<exists>c e. feed env (newStreamConsumerState a contexts redirects)
      (\<lparr>part_Type = PartMediaHeader, part_Payload = payload\<rparr> # \<lparr>part_Type = PartSABRError, part_Payload = err\<rparr> # ps)
      = (c, Inl e) \<and> recoverable e \<and>
    snd (feed env (newStreamConsumerState (sc_assembler c) contexts redirects)
      (\<lparr>part_Type = PartMediaHeader, part_Payload = payload\<rparr> # qs)) = Inl ErrInvalidMediaState"
proof -
  let ?h = "\<lparr>part_Type = PartMediaHeader, part_Payload = payload\<rparr>"
  have c: "consumeHeader a payload = (a1, None)"
    using assms(1) by (simp add: assembler_consumePart_def isCriticalUnsupportedPart_iff isHandledPart_def part_ids split: if_splits)
  obtain h where h: "unmarshalMediaHeader payload = Inr h" "validateMediaHeader h = Inr ()"
    "fmlookup (ta_active a1) (mh_HeaderID h) \<noteq> None"
    using c by (auto simp: consumeHeader_def Let_def split: sum.splits if_splits)
  then have again: "assembler_consumePart env a1 PartMediaHeader payload = (a1, Some ErrInvalidMediaState)"
    by (simp add: assembler_consumePart_def isCriticalUnsupportedPart_iff isHandledPart_def part_ids consumeHeader_def)
  show ?thesis
    using assms again
    by (simp add: newStreamConsumerState_def consumer_consumePart_def Let_def part_ids on_control_def consumeSabrError_def
        split: prod.split)
qed

theorem recovery_trips_over_open_segment_witness:
  "\<exists>c e. feed (file_env None) (newStreamConsumerState sample_track newSabrContextState (newRedirectTracker []))
      [\<lparr>part_Type = PartMediaHeader, part_Payload = marshalMediaHeader (sample_header 1 True)\<rparr>,
       \<lparr>part_Type = PartSABRError, part_Payload = encode_fields [FBytes fSabrErrorType [97], FVarint fSabrErrorCode 1]\<rparr>] = (c, Inl e) \<and> recoverable e \<and>
    snd (feed (file_env None) (newStreamConsumerState (sc_assembler c) newSabrContextState (newRedirectTracker []))
      [\<lparr>part_Type = PartMediaHeader, part_Payload = marshalMediaHeader (sample_header 1 True)\<rparr>]) =
      Inl ErrInvalidMediaState"
proof -
  have "\<exists>a1. assembler_consumePart (file_env None) sample_track PartMediaHeader
      (marshalMediaHeader (sample_header 1 True)) = (a1, None)"
    by (simp add: sample_track_def newTrackAssembler_def assembler_consumePart_def isCriticalUnsupportedPart_iff
        isHandledPart_def part_ids consumeHeader_def sample_decodes sample_fields isSelectedHeader_def limits Let_def
        fcard.rep_eq)
  then obtain a1 where a1: "assembler_consumePart (file_env None) sample_track PartMediaHeader
      (marshalMediaHeader (sample_header 1 True)) = (a1, None)" ..
  let ?d = "\<lparr>sed_Type = [], sed_Code = 0, seenErrType = False, seenCode = False\<rparr>"
  have "parse_fields error_step (encode_fields [FBytes fSabrErrorType [97], FVarint fSabrErrorCode 1]) ?d =
      Inr \<lparr>sed_Type = str_of [97], sed_Code = wrap32 1, seenErrType = True, seenCode = True\<rparr>"
    by (rule sabr_error.parse_encoded) (simp_all add: limits)
  then obtain d where "parseSabrError (encode_fields [FBytes fSabrErrorType [97], FVarint fSabrErrorCode 1]) = Inr d"
    by (auto simp: parseSabrError_def)
  from recovery_trips_over_open_segment [OF a1 this] show ?thesis .
qed

end
