(* ===== verification/CrashSafety.thy ===== *)
theory CrashSafety
  imports Checkpoint Control
begin

text \<open>
  The assembler with checkpoints. \<open>checkpoint_env\<close> is the environment of a download whose commit callback saves
  a snapshot; it is an instance of the contract of the environment, so that everything
  that holds of a track holds of a checkpointed one. The properties say that what is saved at any
  moment can be resumed, and that resuming restores the log of the track.
\<close>

section \<open>Checkpointing while the track grows\<close>

text \<open>
  The commit callback of \<open>Download\<close>: a snapshot is taken and saved. Saving replaces a file: it may succeed, fail and leave the
  old checkpoint, or fail and leave none.
\<close>

definition checkpoint_save ::
    "checkpointIdentity \<Rightarrow> sabrCheckpoint option os_file trackAssembler \<Rightarrow> (nat \<times> nat) option \<Rightarrow>
      sabrCheckpoint option \<times> error option" where
  "checkpoint_save identity a fate =
     (case snapshotCheckpoint a identity of
        Inl e \<Rightarrow> (of_saved (ta_file a), Some e)
      | Inr st \<Rightarrow>
          (case fate of
             None \<Rightarrow> (Some st, None)
           | Some (n, e) \<Rightarrow> (if n = 0 then of_saved (ta_file a) else None, Some (EnvErr e))))"

definition checkpoint_env :: "checkpointIdentity \<Rightarrow> sabrCheckpoint option os_file track_env" where
  "checkpoint_env identity = file_env (Some (checkpoint_save identity))"

lemma segments_loop_Inl: "segments_loop i seen ms acc cs = Inl e \<Longrightarrow> e = ErrCheckpointInvalid"
  by (induction i seen ms acc cs rule: segments_loop.induct)
    (auto simp: bind_res_Inl_iff decodeDigest_def Let_def split: if_splits prod.splits option.splits)

lemma snapshot_segments_Inl: "snapshot_segments a brs = Inl e \<Longrightarrow> e = ErrCheckpointInvalid"
  by (induction a brs rule: snapshot_segments.induct)
    (auto simp: bind_res_Inl_iff Let_def split: option.splits)

lemma validateCheckpoint_Inl: "validateCheckpoint s = Inl e \<Longrightarrow> e = ErrCheckpointInvalid"
  by (auto simp: validateCheckpoint_def bind_res_Inl_iff decodeDigest_def
      split: if_split_asm option.splits dest: segments_loop_Inl)

lemma snapshotCheckpoint_Inl: "snapshotCheckpoint a i = Inl e \<Longrightarrow> e = ErrCheckpointInvalid"
  by (auto simp: snapshotCheckpoint_def Let_def bind_res_Inl_iff
      split: if_split_asm dest: snapshot_segments_Inl validateCheckpoint_Inl)

interpretation checkpointed: quiet_world "checkpoint_env identity" of_content
proof
  fix w bs w' n e
  assume "te_write (checkpoint_env identity) w bs = (w', n, Some e)"
  then show "\<not> recoverable e"
    by (auto simp: checkpoint_env_def file_env_def os_Write_def split: list.splits option.splits)
next
  fix f a w' e
  assume "te_onCommit (checkpoint_env identity) = Some f" "f a = (w', Some e)"
  then show "\<not> recoverable e"
    by (auto simp: checkpoint_env_def file_env_def checkpoint_save_def Let_def
        split: sum.splits option.splits prod.splits dest!: snapshotCheckpoint_Inl)
qed (unfold checkpoint_env_def; rule disk.write_appends disk.sync_keeps disk.commit_keeps; assumption)+

text \<open>What is saved agrees with the bytes of the file and belongs to the download.\<close>

definition saved_ok :: "checkpointIdentity \<Rightarrow> sabrCheckpoint option os_file \<Rightarrow> bool" where
  "saved_ok i w \<longleftrightarrow>
     (\<forall>st. of_saved w = Some st \<longrightarrow> verifyCheckpointPartBytes (Some (of_content w)) st = Inr () \<and> matches i st)"

lemma verify_segments_mono: "verify_segments bs cs = Inr () \<Longrightarrow> verify_segments (bs @ tail) cs = Inr ()"
proof (induction cs arbitrary: bs)
  case (Cons c cs)
  then show ?case
    by (auto simp: verifyPartChunk_def bind_res_Inr_iff Let_def split: sum.splits if_splits)
qed simp

lemma verify_mono:
  assumes "verifyCheckpointPartBytes (Some bs) st = Inr ()"
  shows "verifyCheckpointPartBytes (Some (bs @ tail)) st = Inr ()"
  using assms
  by (auto simp: verifyCheckpointPartBytes_def verifyPartChunk_def bind_res_Inr_iff Let_def
      intro: verify_segments_mono split: if_splits)

lemma touched_saved:
  assumes "checkpointed.touched i w bs w'" and "saved_ok i w"
  shows "saved_ok i w'"
proof -
  have "of_saved w' = of_saved w \<and> (\<exists>tail. of_content w' = of_content w @ tail)"
    using assms(1) unfolding checkpointed.touched_def
    by (auto simp: checkpoint_env_def file_env_def os_Write_def split: list.splits option.splits)
  with assms(2) show ?thesis
    by (auto simp: saved_ok_def verify_mono)
qed

lemma commit_saved:
  assumes c: "commitProgress (checkpoint_env i) a = (a', e)" and a: "assembled of_content budget a init segs"
    and "saved_ok i (ta_file a)"
  shows "saved_ok i (ta_file a')"
proof -
  have new: "verifyCheckpointPartBytes (Some (of_content (ta_file a))) st = Inr () \<and> matches i st"
    if "snapshotCheckpoint (a\<lparr>ta_file := w\<rparr>) i = Inr st" "of_content w = of_content (ta_file a)" for w st
  proof -
    have "assembled of_content budget (a\<lparr>ta_file := w\<rparr>) init segs"
      using a that(2) by (simp add: assembled_def)
    from snapshot_verifies [OF this that(1), of "[]"] snapshotCheckpoint_Inr(3) [OF this that(1)] show ?thesis
      using that(2) by simp
  qed
  show ?thesis
    using c assms(3) new
    by (auto simp: commitProgress_def checkpoint_env_def file_env_def checkpoint_save_def saved_ok_def Let_def
        os_Sync_def split: list.splits option.splits sum.splits prod.splits if_splits)
qed

lemma consumePart_saved:
  assumes "assembler_consumePart (checkpoint_env i) a t payload = (a', e)"
    and "assembled of_content budget a init segs" and "open_ok a segs" and "saved_ok i (ta_file a)"
  shows "saved_ok i (ta_file a')"
  using checkpointed.consumePart_outcome [OF assms(1-3)] assms(4) touched_saved commit_saved by blast

lemma run_saved:
  assumes "track_run (checkpoint_env i) start a" and "assembled of_content budget start init segs"
    and "open_ok start segs" and "saved_ok i (ta_file start)"
  shows "saved_ok i (ta_file a)"
  using assms
proof (induction rule: track_run.induct)
  case (run_part a t payload a')
  then obtain init' ext where "assembled of_content budget a init' (segs @ ext)" "open_ok a (segs @ ext)"
    using checkpointed.run_assembled [OF run_part.hyps(1)] by blast
  with run_part show ?case
    using consumePart_saved by blast
next
  case (run_end a a')
  then obtain init' ext where "assembled of_content budget a init' (segs @ ext)"
    using checkpointed.run_assembled [OF run_end.hyps(1)] by blast
  then have "assembled of_content budget (a\<lparr>ta_endOfTrackDone := True\<rparr>) init' (segs @ ext)"
    by (simp add: assembled_def)
  with run_end show ?case
    by (auto simp: applyEndOfTrackCompletion_def split: if_splits intro: commit_saved)
qed

section \<open>Resuming\<close>

lemma resume_log:
  assumes "verifyCheckpointPartBytes (Some bytes) st = Inr ()" and "cp_TotalWritten st \<le> budget"
  shows "\<exists>kept a init segs. openResumePart (Some bytes) (cp_TotalWritten st) = Inr kept \<and>
    restoreCheckpoint (newTrackAssembler format expected
      \<lparr>of_content = kept, of_faults = faults, of_saved = saved\<rparr> budget) st budget = (a, None) \<and>
    assembled of_content budget a init segs \<and> open_ok a segs \<and>
    ta_file a = \<lparr>of_content = kept, of_faults = faults, of_saved = saved\<rparr> \<and> ta_expectedDurationMs a = expected \<and>
    ta_endOfTrackDone a = cp_EndOfTrack st \<and> ta_totalWritten a = cp_TotalWritten st \<and>
    (\<exists>tail. bytes = kept @ tail) \<and> verifyCheckpointPartBytes (Some kept) st = Inr ()"
proof -
  obtain init segs d where r: "records [] (cp_Segments st) segs" "list_all (\<lambda>s. 0 < seg_ms s) segs"
    "cp_CumulativeMs st = log_ms segs"
    "if cp_InitWritten st
      then init = Some d \<and> decodeDigest (cp_InitDigest st) = Inr (hashSegment d) \<and> cp_InitLength st = int (length d)
      else init = None"
    "cp_TotalWritten st = int (length (log_bytes init segs))"
    "log_bytes init segs = take (nat (cp_TotalWritten st)) bytes" "validateCheckpoint st = Inr ()"
    using verified_log [OF assms(1)] by blast
  let ?w = "\<lparr>of_content = log_bytes init segs, of_faults = faults, of_saved = saved\<rparr>"
  have "0 \<le> cp_TotalWritten st" "cp_TotalWritten st \<le> int (length bytes)"
    using r(5) arg_cong [OF r(6), of length] by simp_all
  then have "openResumePart (Some bytes) (cp_TotalWritten st) = Inr (log_bytes init segs)"
    using openResumePart_take [of "cp_TotalWritten st" bytes] r(6) by simp
  moreover have "\<exists>tail. bytes = log_bytes init segs @ tail"
    unfolding r(6) by (metis append_take_drop_id)
  moreover have "of_content ?w = log_bytes init segs" by simp
  moreover obtain a where
    "restoreCheckpoint (newTrackAssembler format expected ?w budget) st budget = (a, None)"
    "assembled of_content budget a init segs" "open_ok a segs" "ta_file a = ?w" "ta_expectedDurationMs a = expected"
    "ta_endOfTrackDone a = cp_EndOfTrack st"
    using restored_assembled [where content = of_content and w = ?w, OF r(7) assms(2) r(1,2,3,4) \<open>of_content ?w = log_bytes init segs\<close> r(5),
        of format expected] by auto
  moreover have "verifyCheckpointPartBytes (Some (log_bytes init segs @ [])) st = Inr ()"
    by (rule recorded_verifies [OF r(1,7,5)]) (use r(4) in \<open>auto split: if_splits\<close>)
  moreover have "ta_totalWritten a = cp_TotalWritten st"
    using \<open>assembled of_content budget a init segs\<close> r(5) by (simp add: assembled_def)
  ultimately show ?thesis
    by (intro exI [of _ "log_bytes init segs"] exI [of _ a] exI [of _ init] exI [of _ segs]) simp
qed

section \<open>A sample checkpoint\<close>

definition sample_identity :: checkpointIdentity where
  "sample_identity = identityFromConfig sample_config"

definition sample_start :: "sabrCheckpoint option os_file trackAssembler" where
  "sample_start = newTrackAssembler sample_format 5000 \<lparr>of_content = [], of_faults = [], of_saved = None\<rparr> 100"

lemma sample_digests:
  "decodeDigest (encodeDigest (hashSegment d)) = Inr (hashSegment d)" "encodeDigest (hashSegment d) \<noteq> []"
  "hex_DecodeString (hashUstreamerConfig c) = Some (Sum256 c)" "length (hashUstreamerConfig c) = 64"
  "hashUstreamerConfig c \<noteq> []"
proof -
  show "decodeDigest (encodeDigest (hashSegment d)) = Inr (hashSegment d)"
    by (rule decode_encodeDigest) (simp add: hashSegment_def)
  have "length (encodeDigest (hashSegment d)) = 64"
    by (simp add: encodeDigest_def hashSegment_def)
  then show "encodeDigest (hashSegment d) \<noteq> []" by force
  show "hex_DecodeString (hashUstreamerConfig c) = Some (Sum256 c)" and *: "length (hashUstreamerConfig c) = 64"
    by (simp_all add: hashUstreamerConfig_def)
  from * show "hashUstreamerConfig c \<noteq> []" by force
qed

lemma sample_identity_ok: "identity_ok (baseCheckpoint sample_identity)"
  using sample_digests(3,4,5)
  by (simp add: identity_ok_def baseCheckpoint_def sample_identity_def identityFromConfig_def sample_config_def limits
      ContainsAny_def TrackAudio_def TrackVideo_def)

text \<open>A commit that meets no fault saves a checkpoint.\<close>

lemma commit_saves:
  assumes a: "assembled of_content budget a (Some d) []" "budget \<le> MaxMediaBytes" "d \<noteq> []" "\<not> ta_hasSequence a"
    "ta_nextSequence a = 0" "\<not> ta_endOfTrackDone a" "of_faults (ta_file a) = []" "identity_ok (baseCheckpoint i)"
  shows "\<exists>w st. commitProgress (checkpoint_env i) a = (a\<lparr>ta_file := w\<rparr>, None) \<and>
    of_saved w = Some st \<and> of_content w = of_content (ta_file a)"
proof -
  let ?a = "a\<lparr>ta_file := (ta_file a)\<lparr>of_faults := []\<rparr>\<rparr>"
  have "assembled of_content budget ?a (Some d) []"
    using a(1) by (simp add: assembled_def)
  then have "\<exists>st. snapshotCheckpoint ?a i = Inr st"
    by (rule snapshot_possible) (use a in \<open>auto simp: limits\<close>)
  then show ?thesis
    using a(7) by (auto simp: commitProgress_def checkpoint_env_def file_env_def checkpoint_save_def os_Sync_def Let_def)
qed

definition sample_init_track :: "sabrCheckpoint option os_file trackAssembler" where
  "sample_init_track = deleteActive (sample_start\<lparr>ta_file := \<lparr>of_content = [10, 11], of_faults = [], of_saved = None\<rparr>,
    ta_remaining := 98, ta_totalWritten := 2, ta_initWritten := True, ta_initDigest := hashSegment [10, 11],
    ta_initLength := 2, ta_formatVerified := True, ta_active := fmupd 1 \<lparr>sb_header = sample_header 1 True,
      sb_data = [10, 11], sb_ended = True, sb_selected = True\<rparr> fmempty\<rparr>) 1"

lemma sample_init_assembled: "assembled of_content 100 sample_init_track (Some [10, 11]) []"
  by (auto simp: sample_init_track_def assembled_def deleteActive_def sample_start_def newTrackAssembler_def
      log_bytes_def log_table_def log_ranges_def limits)

lemma sample_checkpointed:
  "\<exists>a st. consume_all (checkpoint_env sample_identity) sample_start (take 4 sample_parts) = Some a \<and>
     of_saved (ta_file a) = Some st \<and> of_content (ta_file a) = [10, 11] \<and> ta_active a = fmempty"
proof -
  obtain w st where "commitProgress (checkpoint_env sample_identity) sample_init_track =
        (sample_init_track\<lparr>ta_file := w\<rparr>, None)" "of_saved w = Some st" "of_content w = [10, 11]"
    using commit_saves [OF sample_init_assembled _ _ _ _ _ _ sample_identity_ok]
    by (auto simp: sample_init_track_def deleteActive_def sample_start_def newTrackAssembler_def limits)
  moreover have "te_write (checkpoint_env sample_identity) = os_Write"
    by (simp add: checkpoint_env_def file_env_def)
  moreover have "fmdrop k (fmupd k v fmempty) = fmempty" for k :: u32 and v :: segmentBuilder
    by (rule fmap_ext) simp
  ultimately show ?thesis
    by (simp add: sample_parts_def sample_init_track_def sample_start_def newTrackAssembler_def assembler_consumePart_def
      isCriticalUnsupportedPart_def
      isHandledPart_def isBenignSkippedPart_def part_ids consumeFormatInit_def consumeHeader_def consumeMedia_def
      finalizeSegment_def finalizeInit_def sample_decodes sample_varints
      sample_fields isSelectedHeader_def limits Let_def deleteActive_def os_Write_def
      writeBytes_def fcard.rep_eq)
qed
section \<open>Properties\<close>

text \<open>
  C5. Resuming trusts nothing: whenever the digests of a checkpoint, wherever it comes from, agree with the bytes of
  the partial file and fit the budget, the file is cut to the recorded size and the restored assembler is
  that of a log: the file is its initialisation segment and its segments 0, 1, 2, ..., and the restored
  digests, lengths, ranges and counters are theirs.
\<close>

theorem resume_restores_a_log:
  assumes "verifyCheckpointPartBytes (Some bytes) st = Inr ()" and "cp_TotalWritten st \<le> budget"
  shows "\<exists>kept a init segs. openResumePart (Some bytes) (cp_TotalWritten st) = Inr kept \<and>
    restoreCheckpoint (newTrackAssembler format expected
      \<lparr>of_content = kept, of_faults = faults, of_saved = saved\<rparr> budget) st budget = (a, None) \<and>
    assembled of_content budget a init segs \<and> open_ok a segs \<and> of_content (ta_file a) = kept \<and>
    (\<exists>tail. bytes = kept @ tail)"
  using resume_log [OF assms, of format expected faults saved] by fastforce

text \<open>
  C6. A checkpoint loses nothing: the snapshot of an assembler, read back beside the file it was taken for, even
  when uncommitted bytes follow, belongs to the same identity, verifies, and restores an assembler with
  the same log, the same playback state and the same decision whether the track is complete.
\<close>

theorem checkpoint_roundtrip:
  assumes "assembled of_content budget a init segs" and "snapshotCheckpoint a identity = Inr st"
  shows "matches identity st \<and>
    verifyCheckpointPartBytes (Some (of_content (ta_file a) @ tail)) st = Inr () \<and>
    openResumePart (Some (of_content (ta_file a) @ tail)) (cp_TotalWritten st) = Inr (of_content (ta_file a)) \<and>
    (\<exists>a'. restoreCheckpoint (newTrackAssembler (ta_format a) (ta_expectedDurationMs a)
        \<lparr>of_content = of_content (ta_file a), of_faults = faults, of_saved = saved\<rparr> budget) st budget = (a', None) \<and>
      assembled of_content budget a' init segs \<and> playbackState a' = playbackState a \<and>
      trackComplete a' = trackComplete a)"
proof -
  note s = snapshotCheckpoint_Inr [OF assms]
  let ?w = "\<lparr>of_content = of_content (ta_file a), of_faults = faults, of_saved = saved\<rparr>"
  have cont: "of_content ?w = log_bytes init segs" and fits: "cp_TotalWritten st \<le> budget"
    and ms: "list_all (\<lambda>s. 0 < seg_ms s) segs"
    using assms(1) s(5) by (simp_all add: assembled_def)
  have init: "if cp_InitWritten st
      then init = Some (the init) \<and> decodeDigest (cp_InitDigest st) = Inr (hashSegment (the init)) \<and>
        cp_InitLength st = int (length (the init))
      else init = None"
    using s(6,7) by (cases init) auto
  obtain a' where a': "restoreCheckpoint (newTrackAssembler (ta_format a) (ta_expectedDurationMs a) ?w budget) st budget = (a', None)"
    "assembled of_content budget a' init segs" "ta_format a' = ta_format a"
    "ta_formatVerified a' = ta_formatVerified a" "ta_endOfTrackDone a' = ta_endOfTrackDone a"
    "ta_expectedDurationMs a' = ta_expectedDurationMs a"
    using restored_assembled [where content = of_content and w = ?w, OF s(2) fits s(1) ms s(4) init cont s(5), of "ta_format a" "ta_expectedDurationMs a"] s(8,9)
    by auto
  have same: "ta_cumulativeMs a' = ta_cumulativeMs a" "ta_bufferedRanges a' = ta_bufferedRanges a"
    "ta_initWritten a' = ta_initWritten a"
    using assms(1) a'(2,3) by (simp_all add: assembled_def)
  moreover have "ta_writtenSequences a' = ta_writtenSequences a"
    using assms(1) a'(2) by (intro fmap_ext) (simp add: assembled_def)
  moreover have "openResumePart (Some (of_content (ta_file a) @ tail)) (cp_TotalWritten st) = Inr (of_content (ta_file a))"
    using openResumePart_take [of "cp_TotalWritten st" "of_content (ta_file a) @ tail"] s(5) cont by simp
  ultimately show ?thesis
    using s(3) snapshot_verifies [OF assms] a' by (auto simp: playbackState_def trackComplete_def)
qed

theorem resume_restores_a_log_witness:
  "\<exists>st kept a init segs.
    verifyCheckpointPartBytes (Some [10, 11, 99]) st = Inr () \<and>
    openResumePart (Some [10, 11, 99]) (cp_TotalWritten st) = Inr kept \<and>
    restoreCheckpoint (newTrackAssembler sample_format 5000
      \<lparr>of_content = kept, of_faults = [], of_saved = ()\<rparr> 100) st 100 = (a, None) \<and>
    assembled of_content 100 a init segs"
proof -
  obtain st where st: "snapshotCheckpoint sample_init_track sample_identity = Inr st"
    using snapshot_possible [OF sample_init_assembled _ _ _ _ _ _ _ _ _ sample_identity_ok]
    by (auto simp: sample_init_track_def deleteActive_def sample_start_def newTrackAssembler_def limits)
  have "of_content (ta_file sample_init_track) @ [99] = [10, 11, 99]"
    by (simp add: sample_init_track_def deleteActive_def)
  then have v: "verifyCheckpointPartBytes (Some [10, 11, 99]) st = Inr ()"
    using snapshot_verifies [OF sample_init_assembled st, of "[99]"] by simp
  have "cp_TotalWritten st \<le> 100"
    using snapshotCheckpoint_Inr(5) [OF sample_init_assembled st] by (simp add: log_bytes_def)
  from resume_restores_a_log [OF v this, of sample_format 5000 "[]" "()"] v show ?thesis
    by blast
qed

theorem checkpoint_roundtrip_witness:
  "\<exists>st a'. snapshotCheckpoint sample_init_track sample_identity = Inr st \<and>
    verifyCheckpointPartBytes (Some [10, 11, 99]) st = Inr () \<and>
    restoreCheckpoint (newTrackAssembler sample_format 5000
      \<lparr>of_content = [10, 11], of_faults = [], of_saved = None\<rparr> 100) st 100 = (a', None) \<and>
    playbackState a' = playbackState sample_init_track"
proof -
  obtain st where st: "snapshotCheckpoint sample_init_track sample_identity = Inr st"
    using snapshot_possible [OF sample_init_assembled _ _ _ _ _ _ _ _ _ sample_identity_ok]
    by (auto simp: sample_init_track_def deleteActive_def sample_start_def newTrackAssembler_def limits)
  have f: "of_content (ta_file sample_init_track) = [10, 11]" "ta_format sample_init_track = sample_format"
    "ta_expectedDurationMs sample_init_track = 5000"
    by (simp_all add: sample_init_track_def deleteActive_def sample_start_def newTrackAssembler_def)
  from checkpoint_roundtrip [OF sample_init_assembled st, of "[99]" "[]" None, unfolded f] st show ?thesis
    by auto
qed

text \<open>
  C7. No crash orphans a checkpoint: at every moment of a checkpointed download, also inside a part that fails because the
  disk or the saving fails, the checkpoint that is on disk belongs to the download and verifies against
  the bytes that are in the file, so that a restart resumes from it.
\<close>

theorem saved_checkpoint_always_verifies:
  assumes "track_run (checkpoint_env i)
      (newTrackAssembler format expected \<lparr>of_content = [], of_faults = faults, of_saved = None\<rparr> budget) a"
    and "0 \<le> budget" and "assembler_consumePart (checkpoint_env i) a t payload = (a', e)"
    and "of_saved (ta_file a') = Some st"
  shows "verifyCheckpointPartBytes (Some (of_content (ta_file a'))) st = Inr () \<and> matches i st"
proof -
  let ?new = "newTrackAssembler format expected
    \<lparr>of_content = [], of_faults = faults, of_saved = None :: sabrCheckpoint option\<rparr> budget"
  have "saved_ok i (ta_file ?new)"
    by (simp add: saved_ok_def newTrackAssembler_def)
  then have new: "assembled of_content budget ?new None []" "open_ok ?new []" "saved_ok i (ta_file ?new)"
    using checkpointed.new_assembled [of "\<lparr>of_content = [], of_faults = faults, of_saved = None\<rparr>" budget
        format expected] assms(2)
    by simp_all
  obtain init segs where "assembled of_content budget a init segs" "open_ok a segs"
    using checkpointed.run_assembled [OF assms(1) new(1,2)] by auto
  from consumePart_saved [OF assms(3) this run_saved [OF assms(1) new]] assms(4) show ?thesis
    by (simp add: saved_ok_def)
qed

theorem saved_checkpoint_always_verifies_witness:
  "\<exists>a a' st. consume_all (checkpoint_env sample_identity) sample_start (take 4 sample_parts) = Some a \<and>
    assembler_consumePart (checkpoint_env sample_identity) a PartMedia [1] = (a', Some ErrInvalidMediaState) \<and>
    of_saved (ta_file a') = Some st \<and> verifyCheckpointPartBytes (Some [10, 11]) st = Inr ()"
proof -
  obtain a st where a: "consume_all (checkpoint_env sample_identity) sample_start (take 4 sample_parts) = Some a"
    "of_saved (ta_file a) = Some st" "of_content (ta_file a) = [10, 11]" "ta_active a = fmempty"
    using sample_checkpointed by blast
  have run: "track_run (checkpoint_env sample_identity) sample_start a"
    using consume_all_run [OF run_start a(1)] .
  have p: "assembler_consumePart (checkpoint_env sample_identity) a PartMedia [1] = (a, Some ErrInvalidMediaState)"
    using a(4) sample_varints(6)
    by (simp add: assembler_consumePart_def isCriticalUnsupportedPart_iff isHandledPart_def part_ids consumeMedia_def)
  from saved_checkpoint_always_verifies [OF run [unfolded sample_start_def] _ p a(2)] a p show ?thesis
    by auto
qed

text \<open>
  While a track grows normally a checkpoint can always be taken: for a log with non-empty segments
  within the limits (at most \<open>MaxCheckpointSegments\<close> segments, a total duration that fits) whose announced
  sequence has begun to be committed, the snapshot of the assembler succeeds.
\<close>

theorem growing_track_can_be_checkpointed:
  assumes "assembled of_content budget a init segs" and "budget \<le> MaxMediaBytes"
    and "length segs \<le> MaxCheckpointSegments"
    and "list_all (\<lambda>s. seg_data s \<noteq> []) segs" and "init \<noteq> Some []"
    and "sum_list (map seg_ms segs) \<le> MaxInt64"
    and "ta_hasSequence a \<longleftrightarrow> segs \<noteq> []" and "\<not> ta_hasSequence a \<longrightarrow> ta_nextSequence a = 0"
    and "segs \<noteq> [] \<longrightarrow> ta_formatVerified a" and "ta_endOfTrackDone a \<longrightarrow> segs \<noteq> []"
    and "identity_ok (baseCheckpoint i)"
  shows "\<exists>st. snapshotCheckpoint a i = Inr st"
  using assms by (rule snapshot_possible)

theorem growing_track_can_be_checkpointed_witness:
  "\<exists>st. snapshotCheckpoint sample_init_track sample_identity = Inr st"
  by (rule growing_track_can_be_checkpointed [OF sample_init_assembled _ _ _ _ _ _ _ _ _ sample_identity_ok])
    (simp_all add: sample_init_track_def deleteActive_def sample_start_def newTrackAssembler_def limits)

text \<open>
  The last condition of the previous property is necessary: once the first media segment has been
  announced and none is committed, every snapshot is refused, so that ending the initialisation segment
  then fails the download, although the parts are in an order that the assembler accepts.
\<close>

theorem announced_segment_blocks_checkpoint:
  assumes "ta_hasSequence a" and "ta_bufferedRanges a = []"
  shows "snapshotCheckpoint a i = Inl ErrCheckpointInvalid"
proof (cases "snapshotCheckpoint a i")
  case (Inl e)
  then show ?thesis
    using snapshotCheckpoint_Inl by blast
next
  case (Inr st)
  then have "cp_HasSequence st" "cp_Segments st = []" "validateCheckpoint st = Inr ()"
    using assms by (auto simp: snapshotCheckpoint_def Let_def bind_res_Inr_iff split: if_splits)
  then show ?thesis
    by (auto simp: validateCheckpoint_def bind_res_Inr_iff split: if_split_asm)
qed

theorem announced_segment_blocks_checkpoint_witness:
  "\<exists>a a'. consume_all (checkpoint_env sample_identity) sample_start
      (take 2 sample_parts @ [(PartMediaHeader, marshalMediaHeader (sample_header 2 False)), (PartMedia, [1, 10, 11])])
      = Some a \<and>
    assembler_consumePart (checkpoint_env sample_identity) a PartMediaEnd [1] = (a', Some ErrCheckpointInvalid)"
proof -
  have snap: "ta_hasSequence a \<Longrightarrow> ta_bufferedRanges a = [] \<Longrightarrow>
      snapshotCheckpoint a sample_identity = Inl ErrCheckpointInvalid" for a :: "sabrCheckpoint option os_file trackAssembler"
    by (rule announced_segment_blocks_checkpoint)
  have "te_write (checkpoint_env sample_identity) = os_Write"
    by (simp add: checkpoint_env_def file_env_def)
  with snap show ?thesis
    by (simp add: sample_parts_def sample_start_def newTrackAssembler_def assembler_consumePart_def
        isCriticalUnsupportedPart_def isHandledPart_def isBenignSkippedPart_def part_ids consumeFormatInit_def
        consumeHeader_def consumeMedia_def finalizeSegment_def finalizeInit_def sample_decodes sample_varints
        sample_fields isSelectedHeader_def limits Let_def deleteActive_def os_Write_def writeBytes_def fcard.rep_eq
        checkSequence_def commitProgress_def checkpoint_env_def file_env_def checkpoint_save_def os_Sync_def)
qed

end
