(* ===== verification/Playback.thy ===== *)
theory Playback
  imports ContextState
begin

text \<open>
  The body of a SABR request: \<open>playbackRequest.marshal\<close> of \<open>proto.go\<close> and the functions that read
  one back (end of \<open>assembler.go\<close> and of \<open>control.go\<close>). The readers that return from the middle of their
  field loop share \<open>scan_for\<close>, which stops in front of the payload of the first matching field. The
  lemmas show that what was marshalled is read back.
\<close>

section \<open>Requests\<close>

record playbackRequest =
  pr_Format :: FormatID
  pr_TrackKind :: string
  pr_UstreamerConfig :: "byte list"
  pr_ClientInfo :: ClientInfo
  pr_POToken :: "byte list"
  pr_BufferedRanges :: "BufferedRange list"
  pr_RequestNumber :: int
  pr_PlayerTimeMs :: i64
  pr_SelectedFormat :: bool
  pr_DrcEnabled :: bool
  pr_AudioTrackID :: string
  pr_PlaybackCookie :: "byte list"
  pr_Contexts :: sabrContextState

abbreviation enabledTrackTypesAudioOnly :: int where "enabledTrackTypesAudioOnly \<equiv> 1"
abbreviation enabledTrackTypesVideoOnly :: int where "enabledTrackTypesVideoOnly \<equiv> 2"

definition marshal_client_state :: "playbackRequest \<Rightarrow> byte list" where
  "marshal_client_state q =
     (let enabledTracks =
            (if pr_TrackKind q = ''video'' then enabledTrackTypesVideoOnly else enabledTrackTypesAudioOnly);
          buf = appendProtobufVarint [] fAbrStatePlayerTimeMs (word_of_int (pr_PlayerTimeMs q));
          buf = appendProtobufVarint buf fAbrStateEnabledTracks (word_of_int enabledTracks);
          buf = (if pr_DrcEnabled q then appendProtobufVarint buf fAbrStateDrcEnabled 1 else buf);
          buf = (if pr_AudioTrackID q \<noteq> []
                 then appendProtobufBytes buf fAbrStateAudioTrackID (bytes_of (pr_AudioTrackID q)) else buf)
      in buf)"

definition marshal_streamer :: "playbackRequest \<Rightarrow> byte list" where
  "marshal_streamer q =
     (let buf = appendProtobufBytes [] fStreamerCtxClientInfo (marshalClientInfo (pr_ClientInfo q));
          buf = (if pr_POToken q \<noteq> [] then appendProtobufBytes buf fStreamerCtxPOToken (pr_POToken q) else buf);
          buf = (if pr_PlaybackCookie q \<noteq> []
                 then appendProtobufBytes buf fStreamerCtxPlaybackCookie (pr_PlaybackCookie q) else buf)
      in appendToStreamer (pr_Contexts q) buf)"

fun append_ranges :: "byte list \<Rightarrow> BufferedRange list \<Rightarrow> byte list res" where
  "append_ranges buf [] = Inr buf"
| "append_ranges buf (br # brs) =
     bind_res (marshalBufferedRange br) (\<lambda>encoded.
       append_ranges (appendProtobufBytes buf fAbrBufferedRanges encoded) brs)"

definition marshalPlaybackRequest :: "playbackRequest \<Rightarrow> byte list res" where
  "marshalPlaybackRequest q =
     (if pr_UstreamerConfig q = [] then Inl ErrMissingConfig
      else bind_res (validateFormatIDWire (pr_Format q)) (\<lambda>_.
           bind_res (validateClientInfoWire (pr_ClientInfo q)) (\<lambda>_.
           if pr_PlayerTimeMs q < 0 then Inl ErrInvalidMediaState
           else if pr_RequestNumber q < 0 then Inl ErrInvalidMediaState
           else let body = appendProtobufBytes [] fAbrClientState (marshal_client_state q);
                    body = (if pr_SelectedFormat q
                            then appendProtobufBytes body fAbrSelectedFormats (marshalFormatID (pr_Format q))
                            else body)
                in bind_res (append_ranges body (pr_BufferedRanges q)) (\<lambda>body.
                   let body = appendProtobufBytes body fAbrUstreamerConfig (pr_UstreamerConfig q);
                       body = (if pr_TrackKind q = ''video''
                               then appendProtobufBytes body fAbrPreferredVideoFormats
                                      (marshalFormatID (pr_Format q))
                               else appendProtobufBytes body fAbrPreferredAudioFormats
                                      (marshalFormatID (pr_Format q)))
                   in Inr (appendProtobufBytes body fAbrStreamerContext (marshal_streamer q))))))"

section \<open>Reading a request back\<close>

function scan_for :: "(u64 \<Rightarrow> nat \<Rightarrow> bool) \<Rightarrow> fieldReader \<Rightarrow> fieldReader \<times> bool" where
  "scan_for hit r =
     (case next_field r of
        (r', None) \<Rightarrow> (r', False)
      | (r', Some (num, wireType)) \<Rightarrow>
          if hit num wireType then (r', True)
          else scan_for hit ((skip_field r' num wireType)\<lparr>fr_fields := fr_fields r'\<rparr>))"
  by pat_completeness auto
termination
  by (relation "measure (\<lambda>(hit, r). MaxProtobufFields + 1 - fr_fields r)")
    (auto dest!: next_field_fields [OF sym])

declare scan_for.simps [simp del]

definition decodeClientStatePlayerTime :: "byte list \<Rightarrow> i64 res" where
  "decodeClientStatePlayerTime state =
     (case scan_for (\<lambda>num wt. num = fAbrStatePlayerTimeMs \<and> wt = wireVarint) (newFieldReader state) of
        (r, True) \<Rightarrow> bind_res (checked_varint r) (\<lambda>(_, v). int64FromUint64 v)
      | (r, False) \<Rightarrow> (case fr_err r of Some e \<Rightarrow> Inl e | None \<Rightarrow> Inr 0))"

record decodedRequest =
  dr_playerTimeMs :: i64
  dr_bufferedCount :: nat
  dr_selected :: bool

definition request_step :: "decodedRequest step" where
  "request_step num wireType r d =
     (if num = fAbrClientState \<and> wireType = wireBytes then
        bind_res (checked_bytes r) (\<lambda>(r, state).
        bind_res (decodeClientStatePlayerTime state) (\<lambda>t. Inr (r, d\<lparr>dr_playerTimeMs := t\<rparr>)))
      else if num = fAbrSelectedFormats \<and> wireType = wireBytes then
        Inr (fst (read_bytes r), d\<lparr>dr_selected := True\<rparr>)
      else if num = fAbrBufferedRanges \<and> wireType = wireBytes then
        Inr (fst (read_bytes r), d\<lparr>dr_bufferedCount := dr_bufferedCount d + 1\<rparr>)
      else Inr (skip_field r num wireType, d))"

definition decodePlaybackRequestBody :: "byte list \<Rightarrow> decodedRequest res" where
  "decodePlaybackRequestBody body =
     parse_fields request_step body \<lparr>dr_playerTimeMs = 0, dr_bufferedCount = 0, dr_selected = False\<rparr>"

definition ranges_step :: "byte list list step" where
  "ranges_step num wireType r ranges =
     (if num = fAbrBufferedRanges \<and> wireType = wireBytes then
        (let (r, bs) = read_bytes r in Inr (r, ranges @ [bs]))
      else Inr (skip_field r num wireType, ranges))"

definition bufferedRangeBodies :: "byte list \<Rightarrow> byte list list res" where
  "bufferedRangeBodies body = parse_fields ranges_step body []"

text \<open>\<open>Inr None\<close> is \<open>nil, false, nil\<close>.\<close>

definition first_bytes_field :: "u64 \<Rightarrow> byte list \<Rightarrow> byte list option res" where
  "first_bytes_field field bs =
     (case scan_for (\<lambda>num wt. num = field \<and> wt = wireBytes) (newFieldReader bs) of
        (r, True) \<Rightarrow> bind_res (checked_bytes r) (\<lambda>(_, v). Inr (Some v))
      | (r, False) \<Rightarrow> (case fr_err r of Some e \<Rightarrow> Inl e | None \<Rightarrow> Inr None))"

definition streamerContextBytes :: "byte list \<Rightarrow> byte list option res" where
  "streamerContextBytes body = first_bytes_field fAbrStreamerContext body"

definition playbackCookieFromStreamer :: "byte list \<Rightarrow> byte list option res" where
  "playbackCookieFromStreamer streamer = first_bytes_field fStreamerCtxPlaybackCookie streamer"

definition containsProtobufField :: "byte list \<Rightarrow> u64 \<Rightarrow> bool" where
  "containsProtobufField bs field = snd (scan_for (\<lambda>num wt. num = field) (newFieldReader bs))"

section \<open>Scanning finds the first matching field\<close>

fun field_num :: "wfield \<Rightarrow> u64" where
  "field_num (FVarint num v) = num"
| "field_num (FBytes num bs) = num"

fun field_wire :: "wfield \<Rightarrow> nat" where
  "field_wire (FVarint num v) = wireVarint"
| "field_wire (FBytes num bs) = wireBytes"

lemma read_payload_field: "read_payload num wt bs = Inr (f, m) \<Longrightarrow> field_num f = num \<and> field_wire f = wt"
  by (auto simp: read_payload_def bind_res_Inr_iff split: if_splits)

lemma skip_payload:
  assumes "fr_err r = None" and "cursor_ok r"
    and "read_payload num wt (drop (fr_offset r) (fr_data r)) = Inr (f, m)"
  shows "skip_field r num wt = r\<lparr>fr_offset := fr_offset r + m\<rparr>"
proof (cases "wt = wireVarint")
  case True
  with assms(3) show ?thesis
    by (auto simp: read_payload_def skip_field_def bind_res_Inr_iff)
next
  case False
  with assms(3) have "wt = wireBytes" by (auto simp: read_payload_def split: if_splits)
  with assms read_bytes_payload [OF assms(1,2), of num] False show ?thesis
    by (auto simp: skip_field_def)
qed

lemma scan_for_tokens:
  assumes "fr_err r = None" and "cursor_ok r"
    and "tokens (fr_fields r) (drop (fr_offset r) (fr_data r)) = Inr fs"
  shows "case dropWhile (\<lambda>f. \<not> hit (field_num f) (field_wire f)) fs of
      [] \<Rightarrow> \<exists>r'. scan_for hit r = (r', False) \<and> fr_err r' = None
    | f # _ \<Rightarrow> \<exists>r' m. scan_for hit r = (r', True) \<and> fr_err r' = None \<and> cursor_ok r' \<and>
        read_payload (field_num f) (field_wire f) (drop (fr_offset r') (fr_data r')) = Inr (f, m)"
  using assms
proof (induction fs arbitrary: r)
  case Nil
  then have "drop (fr_offset r) (fr_data r) = []"
    by (subst (asm) tokens.simps) (auto simp: bind_res_Inr_iff split: if_splits)
  then show ?case
    using Nil.prems(1) by (auto simp: scan_for.simps [of hit r] next_field_def)
next
  case (Cons f fs)
  have "fr_offset r < length (fr_data r)"
  proof (rule ccontr)
    assume "\<not> fr_offset r < length (fr_data r)"
    with Cons.prems(3) show False by (simp add: tokens.simps [of _ "[]"])
  qed
  then obtain r1 num wt where nf: "next_field r = (r1, Some (num, wt))"
    using next_field_None [OF Cons.prems(1)] Cons.prems(3)
    by (cases "next_field r"; cases "snd (next_field r)") fastforce+
  from next_field_Some [OF nf] obtain n where
    r1: "r1 = r\<lparr>fr_fields := fr_fields r + 1, fr_offset := fr_offset r + n\<rparr>"
    and tok: "tokens (fr_fields r) (drop (fr_offset r) (fr_data r)) =
      bind_res (read_payload num wt (drop n (drop (fr_offset r) (fr_data r)))) (\<lambda>(f, m).
        bind_res (tokens (fr_fields r + 1) (drop (n + m) (drop (fr_offset r) (fr_data r)))) (\<lambda>fs. Inr (f # fs)))"
    by blast
  have ok: "fr_err r1 = None" "cursor_ok r1"
    using Cons.prems r1 next_field_cursor [OF nf] by simp_all
  obtain m where pay: "read_payload num wt (drop (fr_offset r1) (fr_data r1)) = Inr (f, m)"
    and rest: "tokens (fr_fields r + 1) (drop (fr_offset r1 + m) (fr_data r1)) = Inr fs"
    using Cons.prems(3) tok by (auto simp: r1 bind_res_Inr_iff add.commute add.left_commute)
  note fw = read_payload_field [OF pay]
  show ?case
  proof (cases "hit num wt")
    case True
    then show ?thesis
      using nf ok pay fw by (simp add: scan_for.simps [of hit r])
  next
    case False
    let ?r2 = "r1\<lparr>fr_offset := fr_offset r1 + m\<rparr>"
    have "scan_for hit r = scan_for hit ?r2"
      using nf False skip_payload [OF ok pay] by (cases r1) (simp add: scan_for.simps [of hit r])
    moreover have "cursor_ok ?r2"
      using read_payload_size [OF pay] ok(2) by (simp add: cursor_ok_def)
    moreover have "fr_fields ?r2 = fr_fields r + 1" by (simp add: r1)
    ultimately have eq: "scan_for hit r = scan_for hit ?r2"
      and IH: "case dropWhile (\<lambda>f. \<not> hit (field_num f) (field_wire f)) fs of
        [] \<Rightarrow> \<exists>r'. scan_for hit ?r2 = (r', False) \<and> fr_err r' = None
      | f # _ \<Rightarrow> \<exists>r' m. scan_for hit ?r2 = (r', True) \<and> fr_err r' = None \<and> cursor_ok r' \<and>
          read_payload (field_num f) (field_wire f) (drop (fr_offset r') (fr_data r')) = Inr (f, m)"
      using Cons.IH [of ?r2] ok rest by simp_all
    show ?thesis
      unfolding eq using IH fw False by simp
  qed
qed

lemma first_bytes_field_tokens:
  assumes "tokens 0 bs = Inr fs"
  shows "first_bytes_field field bs =
    Inr (case filter (\<lambda>f. field_num f = field \<and> field_wire f = wireBytes) fs of
           FBytes _ v # _ \<Rightarrow> Some v | _ \<Rightarrow> None)"
proof -
  define hit where "hit = (\<lambda>num wt. num = field \<and> wt = wireBytes)"
  let ?rest = "dropWhile (\<lambda>f. \<not> hit (field_num f) (field_wire f)) fs"
  have ff: "first_bytes_field field bs = (case scan_for hit (newFieldReader bs) of
        (r, True) \<Rightarrow> bind_res (checked_bytes r) (\<lambda>(_, v). Inr (Some v))
      | (r, False) \<Rightarrow> (case fr_err r of Some e \<Rightarrow> Inl e | None \<Rightarrow> Inr None))"
    by (simp add: first_bytes_field_def hit_def)
  have fl: "filter (\<lambda>f. field_num f = field \<and> field_wire f = wireBytes) fs =
      filter (\<lambda>f. hit (field_num f) (field_wire f)) ?rest"
    by (induction fs) (auto simp: hit_def)
  have scan: "case ?rest of
      [] \<Rightarrow> \<exists>r'. scan_for hit (newFieldReader bs) = (r', False) \<and> fr_err r' = None
    | f # _ \<Rightarrow> \<exists>r' m. scan_for hit (newFieldReader bs) = (r', True) \<and> fr_err r' = None \<and> cursor_ok r' \<and>
        read_payload (field_num f) (field_wire f) (drop (fr_offset r') (fr_data r')) = Inr (f, m)"
    by (rule scan_for_tokens) (use assms in \<open>simp_all add: newFieldReader_def cursor_ok_def\<close>)
  show ?thesis
  proof (cases ?rest)
    case Nil
    with scan fl ff show ?thesis by auto
  next
    case (Cons f gs)
    then have hit: "hit (field_num f) (field_wire f)"
      using hd_dropWhile [of "\<lambda>f. \<not> hit (field_num f) (field_wire f)" fs] by auto
    then obtain v where f: "f = FBytes field v"
      by (cases f) (auto simp: hit_def)
    obtain r' m where r': "scan_for hit (newFieldReader bs) = (r', True)" "fr_err r' = None" "cursor_ok r'"
        "read_payload field wireBytes (drop (fr_offset r') (fr_data r')) = Inr (f, m)"
      using scan Cons f by auto
    have "checked_bytes r' = Inr (r'\<lparr>fr_offset := fr_offset r' + m\<rparr>, v)"
      using read_bytes_payload [OF r'(2,3), of field] r'(2,4) f by (auto simp: checked_bytes_def)
    with r' f Cons fl ff hit show ?thesis by simp
  qed
qed

lemma decodeClientStatePlayerTime_tokens:
  assumes "tokens 0 bs = Inr (FVarint fAbrStatePlayerTimeMs v # fs)"
  shows "decodeClientStatePlayerTime bs = int64FromUint64 v"
proof -
  let ?hit = "\<lambda>num wt. num = fAbrStatePlayerTimeMs \<and> wt = wireVarint"
  from scan_for_tokens [of "newFieldReader bs" "FVarint fAbrStatePlayerTimeMs v # fs" ?hit] assms
  obtain r' m where r': "scan_for ?hit (newFieldReader bs) = (r', True)" "fr_err r' = None"
      "read_payload fAbrStatePlayerTimeMs wireVarint (drop (fr_offset r') (fr_data r')) =
        Inr (FVarint fAbrStatePlayerTimeMs v, m)"
    by (auto simp: newFieldReader_def cursor_ok_def)
  then have "checked_varint r' = Inr (r'\<lparr>fr_offset := fr_offset r' + m\<rparr>, v)"
    by (auto simp: read_payload_def bind_res_Inr_iff checked_varint_def read_varint_ok)
  with r'(1) show ?thesis
    by (simp add: decodeClientStatePlayerTime_def)
qed

section \<open>What a request contains\<close>

fun request_act :: "wfield \<Rightarrow> decodedRequest \<Rightarrow> decodedRequest res" where
  "request_act (FVarint num v) d = Inr d"
| "request_act (FBytes num bs) d =
     (if num = fAbrClientState then
        bind_res (decodeClientStatePlayerTime bs) (\<lambda>t. Inr (d\<lparr>dr_playerTimeMs := t\<rparr>))
      else if num = fAbrSelectedFormats then Inr (d\<lparr>dr_selected := True\<rparr>)
      else if num = fAbrBufferedRanges then Inr (d\<lparr>dr_bufferedCount := dr_bufferedCount d + 1\<rparr>)
      else Inr d)"

interpretation request: wire_message request_step request_act
  by unfold_locales
    (auto simp: request_step_def reading reading_defs bind_res_Inl_iff bind_res_Inr_iff split: if_splits)

fun ranges_act :: "wfield \<Rightarrow> byte list list \<Rightarrow> byte list list res" where
  "ranges_act (FVarint num v) d = Inr d"
| "ranges_act (FBytes num bs) d = Inr (if num = fAbrBufferedRanges then d @ [bs] else d)"

interpretation range_bodies: wire_message ranges_step ranges_act
  by unfold_locales
    (auto simp: ranges_step_def reading reading_defs bind_res_Inl_iff bind_res_Inr_iff
      split: if_splits prod.splits)

definition client_state_fields :: "playbackRequest \<Rightarrow> wfield list" where
  "client_state_fields q =
     [FVarint fAbrStatePlayerTimeMs (word_of_int (pr_PlayerTimeMs q)),
      FVarint fAbrStateEnabledTracks (word_of_int (if pr_TrackKind q = ''video'' then 2 else 1))] @
     (if pr_DrcEnabled q then [FVarint fAbrStateDrcEnabled 1] else []) @
     (if pr_AudioTrackID q \<noteq> [] then [FBytes fAbrStateAudioTrackID (bytes_of (pr_AudioTrackID q))] else [])"

lemma marshal_client_state_fields: "marshal_client_state q = encode_fields (client_state_fields q)"
  unfolding marshal_client_state_def client_state_fields_def encode_fields_def append_fields Let_def by simp

definition streamer_fields :: "playbackRequest \<Rightarrow> wfield list" where
  "streamer_fields q =
     [FBytes fStreamerCtxClientInfo (marshalClientInfo (pr_ClientInfo q))] @
     (if pr_POToken q \<noteq> [] then [FBytes fStreamerCtxPOToken (pr_POToken q)] else []) @
     (if pr_PlaybackCookie q \<noteq> [] then [FBytes fStreamerCtxPlaybackCookie (pr_PlaybackCookie q)] else []) @
     context_fields (pr_Contexts q)"

lemma marshal_streamer_fields: "marshal_streamer q = encode_fields (streamer_fields q)"
  unfolding marshal_streamer_def streamer_fields_def encode_fields_def appendToStreamer_fields append_fields
    Let_def
  by simp

lemma append_ranges_fields:
  "append_ranges buf brs = Inr out \<Longrightarrow>
     \<exists>encs. list_all2 (\<lambda>br enc. marshalBufferedRange br = Inr enc) brs encs \<and>
       out = foldl append_field buf (map (FBytes fAbrBufferedRanges) encs)"
proof (induction brs arbitrary: buf)
  case (Cons br brs)
  then obtain enc encs where "marshalBufferedRange br = Inr enc"
      "list_all2 (\<lambda>br enc. marshalBufferedRange br = Inr enc) brs encs"
      "out = foldl append_field (appendProtobufBytes buf fAbrBufferedRanges enc)
        (map (FBytes fAbrBufferedRanges) encs)"
    by (fastforce simp: bind_res_Inr_iff)
  then show ?case
    by (intro exI [of _ "enc # encs"]) simp
qed simp

definition request_fields :: "playbackRequest \<Rightarrow> byte list list \<Rightarrow> wfield list" where
  "request_fields q encs =
     [FBytes fAbrClientState (marshal_client_state q)] @
     (if pr_SelectedFormat q then [FBytes fAbrSelectedFormats (marshalFormatID (pr_Format q))] else []) @
     map (FBytes fAbrBufferedRanges) encs @
     [FBytes fAbrUstreamerConfig (pr_UstreamerConfig q)] @
     [FBytes (if pr_TrackKind q = ''video'' then fAbrPreferredVideoFormats else fAbrPreferredAudioFormats)
        (marshalFormatID (pr_Format q))] @
     [FBytes fAbrStreamerContext (marshal_streamer q)]"

lemma marshalPlaybackRequest_fields:
  assumes "marshalPlaybackRequest q = Inr body"
  shows "\<exists>encs. list_all2 (\<lambda>br enc. marshalBufferedRange br = Inr enc) (pr_BufferedRanges q) encs \<and>
    body = encode_fields (request_fields q encs) \<and> 0 \<le> pr_PlayerTimeMs q \<and> pr_UstreamerConfig q \<noteq> []"
proof -
  let ?b = "let body = appendProtobufBytes [] fAbrClientState (marshal_client_state q)
    in if pr_SelectedFormat q
       then appendProtobufBytes body fAbrSelectedFormats (marshalFormatID (pr_Format q)) else body"
  from assms obtain out where out: "append_ranges ?b (pr_BufferedRanges q) = Inr out"
    and body: "body = (let body = appendProtobufBytes out fAbrUstreamerConfig (pr_UstreamerConfig q);
         body = (if pr_TrackKind q = ''video''
                 then appendProtobufBytes body fAbrPreferredVideoFormats (marshalFormatID (pr_Format q))
                 else appendProtobufBytes body fAbrPreferredAudioFormats (marshalFormatID (pr_Format q)))
       in appendProtobufBytes body fAbrStreamerContext (marshal_streamer q))"
    and q: "0 \<le> pr_PlayerTimeMs q" "pr_UstreamerConfig q \<noteq> []"
    by (auto simp: marshalPlaybackRequest_def bind_res_Inr_iff Let_def split: if_splits)
  from append_ranges_fields [OF out] obtain encs where
    e: "list_all2 (\<lambda>br enc. marshalBufferedRange br = Inr enc) (pr_BufferedRanges q) encs"
      "out = foldl append_field ?b (map (FBytes fAbrBufferedRanges) encs)"
    by blast
  have "body = encode_fields (request_fields q encs)"
    by (simp add: body e(2) request_fields_def encode_fields_def Let_def)
  with e(1) q show ?thesis by blast
qed

section \<open>Requests are read back\<close>

lemma field_bytes_le: "FBytes num bs \<in> set fs \<Longrightarrow> length bs \<le> length (encode_fields fs)"
proof -
  assume "FBytes num bs \<in> set fs"
  then have "length (append_field [] (FBytes num bs)) \<le> length (encode_fields fs)"
    using member_le_sum_list [of "length (append_field [] (FBytes num bs))"
        "map (\<lambda>f. length (append_field [] f)) fs"]
    by (auto simp: encode_fields_concat length_concat o_def simp del: append_field.simps)
  then show ?thesis
    by (simp add: appendProtobufBytes_def)
qed

lemma tokens_bounded:
  assumes "\<forall>f \<in> set fs. field_num f \<noteq> 0 \<and> uint (field_num f) \<le> MaxUint32"
    and "length (encode_fields fs) \<le> MaxProtobufFieldBytes" and "length fs \<le> MaxProtobufFields"
  shows "tokens 0 (encode_fields fs) = Inr fs" and "\<forall>f \<in> set fs. field_ok f"
proof -
  show "\<forall>f \<in> set fs. field_ok f"
  proof
    fix f
    assume f: "f \<in> set fs"
    with assms show "field_ok f"
      using field_bytes_le [of _ _ fs] by (cases f) (fastforce intro: order_trans)+
  qed
  with assms(3) show "tokens 0 (encode_fields fs) = Inr fs"
    by (intro tokens_encode) simp_all
qed

lemma fold_ranges:
  "fold_res request_act (map (FBytes fAbrBufferedRanges) encs @ fs) d =
     fold_res request_act fs (d\<lparr>dr_bufferedCount := dr_bufferedCount d + length encs\<rparr>)"
  by (induction encs arbitrary: d) simp_all

lemma request_roundtrip:
  assumes m: "marshalPlaybackRequest q = Inr body" and t: "pr_PlayerTimeMs q \<le> MaxInt64"
    and n: "length (pr_BufferedRanges q) \<le> 250" and len: "length body \<le> MaxProtobufFieldBytes"
  shows "decodePlaybackRequestBody body =
    Inr \<lparr>dr_playerTimeMs = pr_PlayerTimeMs q, dr_bufferedCount = length (pr_BufferedRanges q),
         dr_selected = pr_SelectedFormat q\<rparr>"
    and "streamerContextBytes body = Inr (Some (marshal_streamer q))"
proof -
  from marshalPlaybackRequest_fields [OF m] obtain encs where
    e: "length encs = length (pr_BufferedRanges q)" and b: "body = encode_fields (request_fields q encs)"
    and nn: "0 \<le> pr_PlayerTimeMs q"
    by (auto dest: list_all2_lengthD)
  have fields: "\<forall>f \<in> set (request_fields q encs). field_num f \<noteq> 0 \<and> uint (field_num f) \<le> MaxUint32"
    "length (request_fields q encs) \<le> MaxProtobufFields"
    using n e by (auto simp: request_fields_def limits)
  note tok = tokens_bounded [OF fields(1) len [unfolded b] fields(2)]
  have "length (marshal_client_state q) \<le> length body"
    unfolding b by (rule field_bytes_le [of fAbrClientState]) (simp add: request_fields_def)
  then have "tokens 0 (marshal_client_state q) = Inr (client_state_fields q)"
    using len unfolding marshal_client_state_fields
    by (intro tokens_bounded) (auto simp: client_state_fields_def limits)
  then have time: "decodeClientStatePlayerTime (marshal_client_state q) = Inr (pr_PlayerTimeMs q)"
    using nn t decodeClientStatePlayerTime_tokens
    by (simp add: client_state_fields_def int64FromUint64_of_int)
  have "fold_res request_act (request_fields q encs)
      \<lparr>dr_playerTimeMs = 0, dr_bufferedCount = 0, dr_selected = False\<rparr> =
      Inr \<lparr>dr_playerTimeMs = pr_PlayerTimeMs q, dr_bufferedCount = length (pr_BufferedRanges q),
           dr_selected = pr_SelectedFormat q\<rparr>"
    using e time by (simp add: request_fields_def fold_ranges)
  then show "decodePlaybackRequestBody body =
    Inr \<lparr>dr_playerTimeMs = pr_PlayerTimeMs q, dr_bufferedCount = length (pr_BufferedRanges q),
         dr_selected = pr_SelectedFormat q\<rparr>"
    using tok(2) fields(2) unfolding decodePlaybackRequestBody_def b
    by (intro request.parse_encoded)
  have "filter (\<lambda>f. field_num f = fAbrStreamerContext \<and> field_wire f = wireBytes) (request_fields q encs) =
      [FBytes fAbrStreamerContext (marshal_streamer q)]"
    by (simp add: request_fields_def)
  then show "streamerContextBytes body = Inr (Some (marshal_streamer q))"
    using first_bytes_field_tokens [OF tok(1), of fAbrStreamerContext]
    by (simp add: streamerContextBytes_def b)
qed

lemma cookie_roundtrip:
  assumes "contexts_ok (pr_Contexts q)" and "length (marshal_streamer q) \<le> MaxProtobufFieldBytes"
  shows "playbackCookieFromStreamer (marshal_streamer q) =
    Inr (if pr_PlaybackCookie q = [] then None else Some (pr_PlaybackCookie q))"
proof -
  have "length (active_types (pr_Contexts q)) \<le> fcard (fmdom (cs_entries (pr_Contexts q)))"
    by (simp add: active_types_def sorted_list_of_fset.rep_eq fcard.rep_eq card_mono)
  then have "length (streamer_fields q) \<le> MaxProtobufFields"
    using assms(1) by (auto simp: streamer_fields_def context_fields_def contexts_ok_def limits)
  then have tok: "tokens 0 (marshal_streamer q) = Inr (streamer_fields q)"
    using assms(2) unfolding marshal_streamer_fields
    by (intro tokens_bounded) (auto simp: streamer_fields_def context_fields_def limits)
  have "filter (\<lambda>f. field_num f = fStreamerCtxPlaybackCookie \<and> field_wire f = wireBytes) (streamer_fields q) =
      (if pr_PlaybackCookie q = [] then [] else [FBytes fStreamerCtxPlaybackCookie (pr_PlaybackCookie q)])"
    by (auto simp: streamer_fields_def context_fields_def filter_empty_conv)
  then show ?thesis
    using first_bytes_field_tokens [OF tok, of fStreamerCtxPlaybackCookie]
    by (simp add: playbackCookieFromStreamer_def)
qed

section \<open>Properties\<close>

text \<open>
  A request body carries what it was built from: decoding a marshalled request gives its player time,
  the number of its buffered ranges and whether the format is selected, and its streamer context is
  the one that was appended. The bounds are those of the reader: 256 fields per message, 16 MiB per
  field.
\<close>

theorem playback_request_roundtrip:
  assumes "marshalPlaybackRequest q = Inr body" and "pr_PlayerTimeMs q \<le> MaxInt64"
    and "length (pr_BufferedRanges q) \<le> 250" and "length body \<le> MaxProtobufFieldBytes"
  shows "decodePlaybackRequestBody body =
      Inr \<lparr>dr_playerTimeMs = pr_PlayerTimeMs q, dr_bufferedCount = length (pr_BufferedRanges q),
           dr_selected = pr_SelectedFormat q\<rparr> \<and>
    streamerContextBytes body = Inr (Some (marshal_streamer q))"
  using request_roundtrip [OF assms] by simp

definition sample_request :: playbackRequest where
  "sample_request = \<lparr>pr_Format = \<lparr>fid_Itag = 140, fid_LastModified = 0, fid_XTags = []\<rparr>,
     pr_TrackKind = ''audio'', pr_UstreamerConfig = [1],
     pr_ClientInfo = \<lparr>ci_ClientName = 1, ci_ClientVersion = [], ci_OSName = [], ci_OSVersion = [],
       ci_DeviceMake = [], ci_DeviceModel = [], ci_AcceptLanguage = []\<rparr>,
     pr_POToken = [], pr_BufferedRanges = [], pr_RequestNumber = 0, pr_PlayerTimeMs = 5,
     pr_SelectedFormat = True, pr_DrcEnabled = False, pr_AudioTrackID = [], pr_PlaybackCookie = [7],
     pr_Contexts = newSabrContextState\<rparr>"

lemma sample_request_marshals:
  "\<exists>body. marshalPlaybackRequest sample_request = Inr body \<and> length body \<le> MaxProtobufFieldBytes"
  "length (marshal_streamer sample_request) \<le> MaxProtobufFieldBytes"
proof -
  note len = length_append_field [of _ _] and q = sample_request_def
  have c: "length (marshal_client_state sample_request) \<le> 40"
    using len(1) [of fAbrStatePlayerTimeMs 5] len(1) [of fAbrStateEnabledTracks 1]
    by (simp add: marshal_client_state_fields client_state_fields_def encode_fields_concat q
        del: append_field.simps)
  have f: "length (marshalFormatID (pr_Format sample_request)) \<le> 60"
    using length_marshalFormatID [of "pr_Format sample_request"] by (simp add: q)
  have i: "length (marshalClientInfo (pr_ClientInfo sample_request)) \<le> 20"
    using len(1) [of fClientInfoClientName 1] by (simp add: marshalClientInfo_def q)
  have "context_fields newSabrContextState = []"
    by (simp add: context_fields_def active_types_def unsent_types_def newSabrContextState_def
        sorted_list_of_fset.rep_eq)
  then have s: "length (marshal_streamer sample_request) \<le> 61"
    using i len(2) [of fStreamerCtxClientInfo "marshalClientInfo (pr_ClientInfo sample_request)"]
      len(2) [of fStreamerCtxPlaybackCookie "[7]"]
    by (simp add: marshal_streamer_fields streamer_fields_def encode_fields_concat q del: append_field.simps)
  then show "length (marshal_streamer sample_request) \<le> MaxProtobufFieldBytes"
    by (simp add: limits)
  obtain body where body: "marshalPlaybackRequest sample_request = Inr body"
    by (simp add: marshalPlaybackRequest_def validateFormatIDWire_def validateClientInfoWire_def q)
  from marshalPlaybackRequest_fields [OF body]
  have "body = encode_fields (request_fields sample_request [])"
    by (simp add: q)
  then have "length body \<le> 341"
    using c f s len(2) [of fAbrClientState "marshal_client_state sample_request"]
      len(2) [of fAbrSelectedFormats "marshalFormatID (pr_Format sample_request)"]
      len(2) [of fAbrUstreamerConfig "[1]"]
      len(2) [of fAbrPreferredAudioFormats "marshalFormatID (pr_Format sample_request)"]
      len(2) [of fAbrStreamerContext "marshal_streamer sample_request"]
    by (simp add: request_fields_def encode_fields_concat q del: append_field.simps)
  with body show "\<exists>body. marshalPlaybackRequest sample_request = Inr body \<and> length body \<le> MaxProtobufFieldBytes"
    by (auto simp: limits)
qed

theorem playback_request_roundtrip_witness:
  "\<exists>body. marshalPlaybackRequest sample_request = Inr body \<and>
     decodePlaybackRequestBody body =
       Inr \<lparr>dr_playerTimeMs = 5, dr_bufferedCount = 0, dr_selected = True\<rparr>"
proof -
  obtain body where b: "marshalPlaybackRequest sample_request = Inr body" "length body \<le> MaxProtobufFieldBytes"
    using sample_request_marshals(1) by blast
  from playback_request_roundtrip [OF b(1) _ _ b(2)] b(1) show ?thesis
    by (simp add: sample_request_def limits)
qed

text \<open>
  The playback cookie of a request can be read back from its streamer context, whatever contexts follow
  it, and a request without a cookie has none.
\<close>

theorem playback_cookie_roundtrip:
  assumes "contexts_ok (pr_Contexts q)" and "length (marshal_streamer q) \<le> MaxProtobufFieldBytes"
  shows "playbackCookieFromStreamer (marshal_streamer q) =
    Inr (if pr_PlaybackCookie q = [] then None else Some (pr_PlaybackCookie q))"
  using assms by (rule cookie_roundtrip)

theorem playback_cookie_roundtrip_witness:
  "playbackCookieFromStreamer (marshal_streamer sample_request) = Inr (Some [7])"
proof -
  have "pr_Contexts sample_request = newSabrContextState" by (simp add: sample_request_def)
  then show ?thesis
    using playback_cookie_roundtrip [of sample_request] sample_request_marshals(2)
    by (simp add: sample_request_def)
qed

end
