(* ===== verification/Transport.thy ===== *)
theory Transport
  imports CrashSafety Playback
begin

text \<open>
  One round trip of a download: \<open>validateResponseContentType\<close> of \<open>request.go\<close> on a model of
  \<open>mime.ParseMediaType\<close>, and \<open>postOnce\<close> and \<open>postRound\<close> of \<open>downloader.go\<close>. What the download cannot compute
  itself, the transport, the context, the clock, the event sink and the callbacks of \<open>Config\<close>, are the operations of
  a \<open>net_env\<close> on a state \<open>'x\<close>. Of an event only what the downloader decides is kept: its kind and numbers.
\<close>

section \<open>Media types\<close>

text \<open>The encodings of the runes of \<open>unicode.IsSpace\<close>.\<close>

definition space_runes :: "string list" where
  "space_runes =
     map (\<lambda>c. [c]) [CHR 0x09, CHR 0x0A, CHR 0x0B, CHR 0x0C, CHR 0x0D, CHR '' ''] @
     [[CHR 0xC2, CHR 0x85], [CHR 0xC2, CHR 0xA0], [CHR 0xE1, CHR 0x9A, CHR 0x80]] @
     map (\<lambda>n. [CHR 0xE2, CHR 0x80, char_of (n :: nat)]) ([128..<139] @ [168, 169, 175]) @
     [[CHR 0xE2, CHR 0x81, CHR 0x9F], [CHR 0xE3, CHR 0x80, CHR 0x80]]"

lemma space_runes_nonempty: "p \<in> set space_runes \<Longrightarrow> p \<noteq> []"
  by (auto simp: space_runes_def)

lemma space_rune_found:
  assumes "find P space_runes = Some p"
  shows "P p \<and> 0 < length p"
  using assms by (auto simp: find_Some_iff dest!: nth_mem dest: space_runes_nonempty)

lemma HasPrefix_length: "HasPrefix s p \<Longrightarrow> length p \<le> length s"
  using HasPrefixE [of s p] by auto

lemma HasSuffix_length: "HasSuffix s p \<Longrightarrow> length p \<le> length s"
  by (simp add: HasSuffix_def)

lemma less_without:
  assumes "length p \<le> length s" "p \<noteq> []"
  shows "length s - length p < length s"
  using assms by (cases p) auto

function trim_left_space :: "string \<Rightarrow> string" where
  "trim_left_space s =
     (case find (\<lambda>p. HasPrefix s p) space_runes of
        None \<Rightarrow> s
      | Some p \<Rightarrow> trim_left_space (drop (length p) s))"
  by pat_completeness auto
termination
  by (relation "measure length") (auto dest!: space_rune_found HasPrefix_length intro: less_without)

function trim_right_space :: "string \<Rightarrow> string" where
  "trim_right_space s =
     (case find (\<lambda>p. HasSuffix s p) space_runes of
        None \<Rightarrow> s
      | Some p \<Rightarrow> trim_right_space (take (length s - length p) s))"
  by pat_completeness auto
termination
  by (relation "measure length") (auto dest!: space_rune_found HasSuffix_length intro: less_without)

declare trim_left_space.simps [simp del] trim_right_space.simps [simp del]

definition TrimSpace :: "string \<Rightarrow> string" where
  "TrimSpace s = trim_right_space (trim_left_space s)"

definition isTSpecial :: "char \<Rightarrow> bool" where
  "isTSpecial c \<longleftrightarrow> c \<in> set (''()<>@,;:'' @ [CHR 0x5C, CHR 0x22] @ ''/[]?='')"

definition isTokenChar :: "char \<Rightarrow> bool" where
  "isTokenChar c \<longleftrightarrow> (let n = (of_char c :: nat) in 32 < n \<and> n < 127) \<and> \<not> isTSpecial c"

definition consumeToken :: "string \<Rightarrow> string \<times> string" where
  "consumeToken v = (takeWhile isTokenChar v, dropWhile isTokenChar v)"

text \<open>The rest of a quoted value; \<open>None\<close> when there is no closing quote or a line end comes first.\<close>

fun quoted_value :: "string \<Rightarrow> (string \<times> string) option" where
  "quoted_value [] = None"
| "quoted_value (c # v) =
     (if c = CHR 0x22 then Some ([], v)
      else if c = CHR 0x5C \<and> v \<noteq> [] \<and> isTSpecial (hd v)
        then map_option (\<lambda>(x, r). (hd v # x, r)) (quoted_value (tl v))
      else if c = CHR 0x0D \<or> c = CHR 0x0A then None
      else map_option (\<lambda>(x, r). (c # x, r)) (quoted_value v))"

definition consumeValue :: "string \<Rightarrow> string \<times> string" where
  "consumeValue v =
     (case v of
        [] \<Rightarrow> ([], [])
      | c # rest \<Rightarrow>
          if c \<noteq> CHR 0x22 then consumeToken v
          else (case quoted_value rest of None \<Rightarrow> ([], v) | Some r \<Rightarrow> r))"

definition consumeMediaParam :: "string \<Rightarrow> string \<times> string \<times> string" where
  "consumeMediaParam v =
     (let rest = trim_left_space v
      in if \<not> HasPrefix rest '';'' then ([], [], v)
         else let rest = trim_left_space (drop 1 rest); (param, rest) = consumeToken rest;
                  param = ToLower param
         in if param = [] then ([], [], v)
         else let rest = trim_left_space rest
         in if \<not> HasPrefix rest ''='' then ([], [], v)
         else let rest = trim_left_space (drop 1 rest); (v1, rest2) = consumeValue rest
         in if v1 = [] \<and> rest2 = rest then ([], [], v) else (param, v1, rest2))"

definition checkMediaTypeDisposition :: "string \<Rightarrow> bool" where
  "checkMediaTypeDisposition s =
     (let (t, rest) = consumeToken s
      in if t = [] then False
         else if rest = [] then True
         else if \<not> HasPrefix rest ''/'' then False
         else let (subtype, rest) = consumeToken (drop 1 rest) in subtype \<noteq> [] \<and> rest = [])"

text \<open>
  The parameter loop of \<open>ParseMediaType\<close>, for its error only; the fuel is the number of bytes left, every turn
  consumes some.
\<close>

fun media_params_ok :: "nat \<Rightarrow> (string \<times> string) list \<Rightarrow> string \<Rightarrow> bool" where
  "media_params_ok 0 params v = (v = [])"
| "media_params_ok (Suc n) params v =
     (let v = trim_left_space v
      in if v = [] then True
         else let (key, value, rest) = consumeMediaParam v
         in if key = [] then TrimSpace rest = '';''
         else (case map_of params key of
                 Some old \<Rightarrow> if old \<noteq> value then False else media_params_ok n params rest
               | None \<Rightarrow> media_params_ok n ((key, value) # params) rest))"

definition ParseMediaType :: "string \<Rightarrow> string option" where
  "ParseMediaType v =
     (let base = fst (Cut v (CHR '';'')); mediatype = TrimSpace (ToLower base)
      in if \<not> checkMediaTypeDisposition mediatype then None
         else if media_params_ok (length v) [] (drop (length base) v) then Some mediatype else None)"

definition validateResponseContentType :: "string \<Rightarrow> unit res" where
  "validateResponseContentType header =
     (if header = [] then Inl ErrInvalidContentType
      else (case ParseMediaType header of
              None \<Rightarrow> Inl ErrInvalidContentType
            | Some mediaType \<Rightarrow>
                if mediaType \<noteq> ''application/vnd.yt-ump'' then Inl ErrInvalidContentType else Inr ()))"

section \<open>The environment\<close>

datatype event = KindStarting bool | KindProgress i64 bool | KindRetry int | KindCancelled | KindCompleted i64

text \<open>What \<open>ctx.Err()\<close> may return.\<close>

datatype ctx_error = Canceled | DeadlineExceeded

fun ctx_failure :: "ctx_error \<Rightarrow> error" where
  "ctx_failure Canceled = EnvErr 1"
| "ctx_failure DeadlineExceeded = EnvErr 2"

record ('x, 's) net_env =
  ne_ctxErr :: "'x \<Rightarrow> 'x \<times> ctx_error option"
  ne_do :: "'x \<Rightarrow> http_request \<Rightarrow> 'x \<times> 's http_response res"
  ne_poll :: "'s poll_fun"
  ne_read :: "'s read_fun"
  ne_emit :: "'x \<Rightarrow> event \<Rightarrow> 'x \<times> error option"
  ne_wait :: "'x \<Rightarrow> i64 \<Rightarrow> 'x \<times> error option"
  ne_policyBackoffWait :: "'x \<Rightarrow> i64 \<Rightarrow> 'x \<times> error option"
  ne_Reload :: "('x \<Rightarrow> ReloadRequest \<Rightarrow> 'x \<times> RefreshMaterial res) option"
  ne_Refresh :: "('x \<Rightarrow> 'x \<times> RefreshMaterial res) option"
  ne_POTokenSource :: "('x \<Rightarrow> 'x \<times> byte list option res) option"

definition sleep :: "('x, 's) net_env \<Rightarrow> 'x \<Rightarrow> i64 \<Rightarrow> 'x \<times> error option" where
  "sleep ne x delay = (if delay \<le> 0 then (x, None) else ne_wait ne x delay)"

section \<open>One request\<close>

definition header_Del :: "http_header \<Rightarrow> string \<Rightarrow> http_header" where
  "header_Del h key = fmdrop (CanonicalHeaderKey key) h"

definition sabr_request :: "Config \<Rightarrow> string \<Rightarrow> int \<Rightarrow> byte list \<Rightarrow> http_request res" where
  "sabr_request config serverURL requestNumber body =
     bind_res (newSABRRequest serverURL requestNumber body (cfg_UserAgent config) (cfg_AcceptLanguage config))
       (\<lambda>request. Inr (applySABRCallerHeaders
          (request\<lparr>req_Header := fold (\<lambda>key h. header_Del h key)
             [''Authorization'', ''Cookie'', ''Proxy-Authorization''] (req_Header request)\<rparr>) (cfg_Headers config)))"

definition postOnce ::
    "('x, 's) net_env \<Rightarrow> 'w track_env \<Rightarrow> Config \<Rightarrow> string \<Rightarrow> int \<Rightarrow> byte list \<Rightarrow> sabrContextState \<Rightarrow>
      redirectTracker \<Rightarrow> 'x \<Rightarrow> 'w trackAssembler \<Rightarrow> 'x \<times> 'w trackAssembler \<times> roundControl res" where
  "postOnce ne env config serverURL requestNumber body contexts redirects x a =
     (case sabr_request config serverURL requestNumber body of
        Inl e \<Rightarrow> (x, a, Inl e)
      | Inr request \<Rightarrow>
          (case ne_do ne x request of
             (x, Inl err) \<Rightarrow>
               (case ne_ctxErr ne x of
                  (x, Some ce) \<Rightarrow> (x, a, Inl (ctx_failure ce))
                | (x, None) \<Rightarrow> (x, a, Inl (Retryable (requestFailure err))))
           | (x, Inr response) \<Rightarrow>
               if isRedirectResponse response then (x, a, Inl redirectFailure)
               else if resp_StatusCode response \<noteq> 200 then (x, a, Inl (responseFailure (resp_StatusCode response)))
               else (case validateResponseContentType (header_Get (resp_Header response) ''Content-Type'') of
                       Inl e \<Rightarrow> (x, a, Inl e)
                     | Inr _ \<Rightarrow>
                         let (a, res) = consumeStreamState (ne_poll ne) (ne_read ne) env (resp_Body response) a
                               contexts redirects
                         in (x, a, res))))"

text \<open>\<open>post_attempts n attempt\<close>: the loop of \<open>postRound\<close> with \<open>n\<close> attempts left after this one.\<close>

fun post_attempts ::
    "('x, 's) net_env \<Rightarrow> 'w track_env \<Rightarrow> Config \<Rightarrow> string \<Rightarrow> int \<Rightarrow> byte list \<Rightarrow> sabrContextState \<Rightarrow>
      redirectTracker \<Rightarrow> nat \<Rightarrow> int \<Rightarrow> 'x \<Rightarrow> 'w trackAssembler \<Rightarrow> 'x \<times> 'w trackAssembler \<times> roundControl res" where
  "post_attempts ne env config serverURL requestNumber body contexts redirects n attempt x a =
     (case postOnce ne env config serverURL requestNumber body contexts redirects x a of
        (x, a, Inr ctrl) \<Rightarrow> (x, a, Inr ctrl)
      | (x, a, Inl err) \<Rightarrow>
          (case ne_ctxErr ne x of
             (x, Some ce) \<Rightarrow> (x, a, Inl (ctx_failure ce))
           | (x, None) \<Rightarrow>
               if \<not> isRetryable err then (x, a, Inl err)
               else (case n of
                       0 \<Rightarrow> (x, a, Inl err)
                     | Suc n' \<Rightarrow>
                         (case ne_emit ne x (KindRetry (attempt + 1)) of
                            (x, Some e) \<Rightarrow> (x, a, Inl (Joined ErrEventSink e))
                          | (x, None) \<Rightarrow>
                              (case sleep ne x (retryDelay config attempt) of
                                 (x, Some e) \<Rightarrow> (x, a, Inl e)
                               | (x, None) \<Rightarrow>
                                   post_attempts ne env config serverURL requestNumber body contexts redirects
                                     n' (attempt + 1) x a)))))"

declare post_attempts.simps [simp del]

definition attempts_of :: "Config \<Rightarrow> int" where
  "attempts_of config = (if cfg_Attempts config \<le> 0 then 3 else cfg_Attempts config)"

definition postRound ::
    "('x, 's) net_env \<Rightarrow> 'w track_env \<Rightarrow> Config \<Rightarrow> string \<Rightarrow> int \<Rightarrow> byte list \<Rightarrow> sabrContextState \<Rightarrow>
      redirectTracker \<Rightarrow> 'x \<Rightarrow> 'w trackAssembler \<Rightarrow> 'x \<times> 'w trackAssembler \<times> roundControl res" where
  "postRound ne env config serverURL requestNumber body contexts redirects x a =
     post_attempts ne env config serverURL requestNumber body contexts redirects
       (nat (attempts_of config - 1)) 1 x a"

section \<open>What is sent\<close>

text \<open>A request that stays with the trusted hosts and carries no credentials.\<close>

definition isolated :: "http_request \<Rightarrow> bool" where
  "isolated r \<longleftrightarrow>
     (\<exists>u. url_Parse (req_URL r) = Some u \<and> url_Scheme u = ''https'' \<and> url_User u = None \<and>
        trusted_host (url_Host u)) \<and>
     (\<forall>name. CanonicalHeaderKey name \<in> {''Authorization'', ''Cookie'', ''Proxy-Authorization'', ''Host'', ''X-Goog-Visitor-Id''} \<longrightarrow>
        header_values (req_Header r) (CanonicalHeaderKey name) = []) \<and>
     header_values (req_Header r) ''Content-Type'' = [''application/x-protobuf''] \<and>
     header_values (req_Header r) ''Accept-Encoding'' = [''identity'']"

lemma Cut_present_append: "c \<in> set s \<Longrightarrow> Cut (s @ t) c = (fst (Cut s c), snd (Cut s c) @ t)"
  by (induction s) (auto simp: Cut_def)

lemma ValidateSABRURL_trusted:
  assumes "ValidateSABRURL raw = Inr u"
  shows "trusted_host (url_Host u)" "url_Scheme u = ''https''" "url_User u = None"
proof -
  show "trusted_host (url_Host u)"
    using ValidateSABRURL_shape [OF assms] by metis
qed (use ValidateSABRURL_fields [OF assms] in simp_all)

lemma requestURL_host:
  assumes "requestURL server n = Inr t" and "url_Parse t = Some u'"
  shows "trusted_host (url_Host u')" "url_Scheme u' = ''https''" "url_User u' = None"
proof -
  obtain u where u: "ValidateSABRURL server = Inr u"
    using assms(1) by (auto simp: requestURL_def bind_res_Inr_iff)
  have "url_Host u' = url_Host u \<and> url_Scheme u' = url_Scheme u \<and> url_User u' = url_User u"
  proof (cases "CHR ''#'' \<in> set server")
    case False
    from requestURL_endpoint [OF u this, of n] assms obtain q where "ValidateSABRURL t = Inr (u\<lparr>url_RawQuery := q\<rparr>)"
      by auto
    with ValidateSABRURL_fields(1) [OF this] assms(2) show ?thesis by auto
  next
    case True
    obtain ext where t: "t = server @ ext"
      using assms(1) by (auto simp: requestURL_def bind_res_Inr_iff Let_def)
    show ?thesis
      using ValidateSABRURL_fields(1) [OF u] assms(2) Cut_present_append [OF True, of ext]
      by (auto simp: t url_Parse_def split: prod.splits option.splits if_splits)
  qed
  then show "trusted_host (url_Host u')" "url_Scheme u' = ''https''" "url_User u' = None"
    using ValidateSABRURL_trusted [OF u] by auto
qed

lemma canonical_names:
  "CanonicalHeaderKey ''Content-Type'' = ''Content-Type''" "CanonicalHeaderKey ''Accept'' = ''Accept''"
  "CanonicalHeaderKey ''Accept-Encoding'' = ''Accept-Encoding''" "CanonicalHeaderKey ''User-Agent'' = ''User-Agent''"
  "CanonicalHeaderKey ''Accept-Language'' = ''Accept-Language''" "CanonicalHeaderKey ''Authorization'' = ''Authorization''"
  "CanonicalHeaderKey ''Cookie'' = ''Cookie''" "CanonicalHeaderKey ''Proxy-Authorization'' = ''Proxy-Authorization''"
  by code_simp+

definition request_header :: "string \<Rightarrow> string \<Rightarrow> http_header" where
  "request_header agent lang =
     (let h = fmupd ''Accept-Encoding'' [''identity''] (fmupd ''Accept'' [''application/vnd.yt-ump'']
          (fmupd ''Content-Type'' [''application/x-protobuf''] fmempty));
          h = (if agent \<noteq> [] then fmupd ''User-Agent'' [agent] h else h)
      in if lang \<noteq> [] then fmupd ''Accept-Language'' [lang] h else h)"

lemma newSABRRequest_Inr:
  assumes "newSABRRequest server n body agent lang = Inr r"
  shows "requestURL server n = Inr (req_URL r) \<and> url_Parse (req_URL r) \<noteq> None \<and> req_Body r = body \<and>
    req_Header r = request_header agent lang"
proof -
  obtain t where t: "requestURL server n = Inr t" by (cases "requestURL server n") (use assms in \<open>auto simp: newSABRRequest_def\<close>)
  have "url_Parse t \<noteq> None \<and> r = \<lparr>req_URL = t, req_Header = request_header agent lang, req_Body = body,
      req_ContentLength = int (length body)\<rparr>"
    using assms unfolding newSABRRequest_def t Let_def header_Set_def canonical_names request_header_def
    by (simp only: bind_res_simps) (metis Inl_Inr_False Inr_inject)
  with t show ?thesis by simp
qed

lemma sabr_request_Inr:
  assumes "sabr_request config server n body = Inr r"
  shows "\<exists>r0. newSABRRequest server n body (cfg_UserAgent config) (cfg_AcceptLanguage config) = Inr r0 \<and>
    req_URL r = req_URL r0 \<and> req_Body r = req_Body r0 \<and>
    (\<forall>k \<in> set sabrProtectedHeaders. fmlookup (req_Header r) k =
       fmlookup (fmdrop ''Proxy-Authorization'' (fmdrop ''Cookie'' (fmdrop ''Authorization'' (req_Header r0)))) k)"
  using assms
  by (auto simp: sabr_request_def bind_res_Inr_iff applySABRCallerHeaders_def fold_headers_lookup header_Del_def
      canonical_names simp del: fmlookup_drop)

lemma request_header_lookup:
  "fmlookup (request_header agent lang) ''Content-Type'' = Some [''application/x-protobuf'']"
  "fmlookup (request_header agent lang) ''Accept-Encoding'' = Some [''identity'']"
  "fmlookup (request_header agent lang) ''Host'' = None"
  "fmlookup (request_header agent lang) ''X-Goog-Visitor-Id'' = None"
  by (simp_all add: request_header_def Let_def)

lemma sabr_request_isolated:
  assumes "sabr_request config server n body = Inr r"
  shows "isolated r \<and> req_Body r = body"
proof -
  obtain r0 where r0: "newSABRRequest server n body (cfg_UserAgent config) (cfg_AcceptLanguage config) = Inr r0"
    and r: "req_URL r = req_URL r0" "req_Body r = req_Body r0"
    and h: "\<forall>k \<in> set sabrProtectedHeaders. fmlookup (req_Header r) k =
       fmlookup (fmdrop ''Proxy-Authorization'' (fmdrop ''Cookie'' (fmdrop ''Authorization'' (req_Header r0)))) k"
    using sabr_request_Inr [OF assms] by blast
  note n = newSABRRequest_Inr [OF r0]
  have "\<forall>k \<in> {''Authorization'', ''Cookie'', ''Proxy-Authorization'', ''Host'', ''X-Goog-Visitor-Id''}.
      header_values (req_Header r) k = []"
    and "header_values (req_Header r) ''Content-Type'' = [''application/x-protobuf''] \<and>
      header_values (req_Header r) ''Accept-Encoding'' = [''identity'']"
    using h n by (simp_all add: sabrProtectedHeaders_def request_header_lookup header_values_def)
  moreover obtain u where "url_Parse (req_URL r) = Some u"
    using n r by auto
  ultimately show ?thesis
    using n r requestURL_host [of server n "req_URL r" u] unfolding isolated_def by metis
qed

section \<open>What a round does to the track\<close>

lemma retryable_recoverable: "isRetryable e \<Longrightarrow> recoverable e"
  by (induction e) auto

lemma ctx_failure_plain [simp]: "\<not> recoverable (ctx_failure ce)"
  by (cases ce) simp_all

text \<open>A response is consumed only after it has been accepted; otherwise the track is as before.\<close>

lemma postOnce_cases:
  assumes "postOnce ne env config serverURL requestNumber body contexts redirects x a = (x', a', res)"
  shows "(a' = a \<and> (\<exists>e. res = Inl e)) \<or>
    (\<exists>request response. sabr_request config serverURL requestNumber body = Inr request \<and>
       ne_do ne x request = (x', Inr response) \<and> resp_StatusCode response = 200 \<and>
       validateResponseContentType (header_Get (resp_Header response) ''Content-Type'') = Inr () \<and>
       consumeStreamState (ne_poll ne) (ne_read ne) env (resp_Body response) a contexts redirects = (a', res))"
  using assms
  by (auto simp: postOnce_def Let_def split: sum.splits prod.splits option.splits if_split_asm)

context quiet_world
begin

lemma postOnce_run:
  assumes "postOnce ne env config serverURL requestNumber body contexts redirects x a = (x', a', res)"
    and "track_run env start a" and "\<And>e. res = Inl e \<Longrightarrow> recoverable e"
  shows "track_run env start a'"
  using postOnce_cases [OF assms(1)]
proof (elim disjE exE conjE)
  fix response
  assume "consumeStreamState (ne_poll ne) (ne_read ne) env (resp_Body response) a contexts redirects = (a', res)"
  from response_run [OF this assms(2,3)] show ?thesis .
qed (use assms(2) in simp)

text \<open>The assembler is reached by a run and perhaps one more step that failed.\<close>

definition broken_off :: "'a trackAssembler \<Rightarrow> 'a trackAssembler \<Rightarrow> bool" where
  "broken_off start a \<longleftrightarrow> (\<exists>a1. track_run env start a1 \<and>
    (a = a1 \<or> (\<exists>t payload e. assembler_consumePart env a1 t payload = (a, e)) \<or>
     (\<exists>e. applyEndOfTrackCompletion env a1 = (a, e))))"

lemma run_broken_off: "track_run env start a \<Longrightarrow> broken_off start a"
  by (auto simp: broken_off_def)

lemma postOnce_ends:
  assumes "postOnce ne env config serverURL requestNumber body contexts redirects x a = (x', a', res)"
    and "track_run env start a"
  shows "broken_off start a'"
  using postOnce_cases [OF assms(1)]
proof (elim disjE exE conjE)
  fix response
  assume "consumeStreamState (ne_poll ne) (ne_read ne) env (resp_Body response) a contexts redirects = (a', res)"
  from response_ends [OF this assms(2)] show ?thesis
    by (simp add: broken_off_def)
qed (use run_broken_off [OF assms(2)] in simp)

lemma post_attempts_ends:
  assumes "post_attempts ne env config serverURL requestNumber body contexts redirects n attempt x a = (x', a', res)"
    and "track_run env start a"
  shows "broken_off start a' \<and> ((\<forall>e. res = Inl e \<longrightarrow> recoverable e) \<longrightarrow> track_run env start a')"
  using assms
proof (induction n arbitrary: attempt x a)
  case 0
  obtain x1 a1 res1 where p: "postOnce ne env config serverURL requestNumber body contexts redirects x a = (x1, a1, res1)"
    by (metis surj_pair)
  have "a' = a1 \<and> (res = res1 \<or> (\<exists>ce. res = Inl (ctx_failure ce)))"
    using 0(1) p by (auto simp: post_attempts.simps split: sum.splits prod.splits option.splits if_splits)
  with postOnce_ends [OF p 0(2)] postOnce_run [OF p 0(2)] show ?case
    using ctx_failure_plain by blast
next
  case (Suc n)
  obtain x1 a1 res1 where p: "postOnce ne env config serverURL requestNumber body contexts redirects x a = (x1, a1, res1)"
    by (metis surj_pair)
  note ends = postOnce_ends [OF p Suc.prems(2)] postOnce_run [OF p Suc.prems(2)]
  have "(a' = a1 \<and> (res = res1 \<or> (\<exists>ce. res = Inl (ctx_failure ce)))) \<or>
      (\<exists>e. res1 = Inl e \<and> isRetryable e \<and> (a' = a1 \<or> (\<exists>x2 attempt2. post_attempts ne env config serverURL
        requestNumber body contexts redirects n attempt2 x2 a1 = (x', a', res))))"
    using Suc.prems(1) p
    by (auto simp: post_attempts.simps [of ne env config serverURL requestNumber body contexts redirects "Suc n"]
        split: sum.splits prod.splits option.splits if_splits)
  then show ?case
  proof (elim disjE exE conjE)
    fix e x2 attempt2
    assume r: "res1 = Inl e" "isRetryable e"
      "post_attempts ne env config serverURL requestNumber body contexts redirects n attempt2 x2 a1 = (x', a', res)"
    have "track_run env start a1"
      using ends(2) r(1,2) retryable_recoverable by auto
    from Suc.IH [OF r(3) this] show ?thesis .
  next
    fix e
    assume "res1 = Inl e" "isRetryable e" "a' = a1"
    with ends show ?thesis
      using retryable_recoverable by auto
  qed (use ends ctx_failure_plain in blast)+
qed

lemma postRound_ends:
  assumes "postRound ne env config serverURL requestNumber body contexts redirects x a = (x', a', res)"
    and "track_run env start a"
  shows "broken_off start a'" "(\<And>e. res = Inl e \<Longrightarrow> recoverable e) \<Longrightarrow> track_run env start a'"
  using post_attempts_ends [OF assms(1) [unfolded postRound_def] assms(2)] by blast+

end

section \<open>What a round sends\<close>

text \<open>
  A network that remembers the requests it was given. Every environment gives one (\<open>logged\<close>), which behaves the same
  and only records.
\<close>

locale recorded =
  fixes ne :: "('x, 's) net_env" and sent :: "'x \<Rightarrow> http_request list"
  assumes do_sent: "ne_do ne x r = (x', res) \<Longrightarrow> sent x' = sent x @ [r]"
    and ctxErr_sent: "ne_ctxErr ne x = (x', ce) \<Longrightarrow> sent x' = sent x"
    and emit_sent: "ne_emit ne x ev = (x', e) \<Longrightarrow> sent x' = sent x"
    and wait_sent: "ne_wait ne x d = (x', e) \<Longrightarrow> sent x' = sent x"
    and policyBackoffWait_sent: "ne_policyBackoffWait ne x d = (x', e) \<Longrightarrow> sent x' = sent x"
    and Reload_sent: "ne_Reload ne = Some f \<Longrightarrow> f x q = (x', m) \<Longrightarrow> sent x' = sent x"
    and Refresh_sent: "ne_Refresh ne = Some g \<Longrightarrow> g x = (x', m) \<Longrightarrow> sent x' = sent x"
    and POTokenSource_sent: "ne_POTokenSource ne = Some h \<Longrightarrow> h x = (x', t) \<Longrightarrow> sent x' = sent x"
begin

lemmas sent_simps = ctxErr_sent emit_sent wait_sent policyBackoffWait_sent Reload_sent Refresh_sent POTokenSource_sent

lemma sleep_sent: "sleep ne x d = (x', e) \<Longrightarrow> sent x' = sent x"
  by (auto simp: sleep_def wait_sent split: if_splits)

text \<open>\<open>sends n x x'\<close>: between the two states at most \<open>n\<close> requests were sent, all of them isolated.\<close>

definition sends :: "nat \<Rightarrow> 'x \<Rightarrow> 'x \<Rightarrow> bool" where
  "sends n x x' \<longleftrightarrow> (\<exists>rs. sent x' = sent x @ rs \<and> length rs \<le> n \<and> list_all isolated rs)"

lemma sends_none: "sent x' = sent x \<Longrightarrow> sends n x x'"
  by (simp add: sends_def)

lemma sends_trans: "sends m x y \<Longrightarrow> sends n y z \<Longrightarrow> m + n \<le> k \<Longrightarrow> sends k x z"
  unfolding sends_def by (elim exE conjE) (rule_tac x = "rs @ rsa" in exI, simp)

lemma postOnce_sends:
  assumes "postOnce ne env config serverURL requestNumber body contexts redirects x a = (x', a', res)"
  shows "sends 1 x x'"
proof (cases "sabr_request config serverURL requestNumber body")
  case (Inl e)
  with assms show ?thesis by (simp add: postOnce_def sends_none)
next
  case (Inr r)
  obtain x1 d where d: "ne_do ne x r = (x1, d)" by fastforce
  have "sent x' = sent x1"
    using assms Inr d
    by (auto simp: postOnce_def Let_def ctxErr_sent split: sum.splits prod.splits option.splits if_split_asm)
  then show ?thesis
    using do_sent [OF d] sabr_request_isolated [OF Inr] by (simp add: sends_def)
qed

lemma post_attempts_sends:
  assumes "post_attempts ne env config serverURL requestNumber body contexts redirects n attempt x a = (x', a', res)"
  shows "sends (Suc n) x x'"
  using assms
proof (induction n arbitrary: attempt x a)
  case 0
  obtain x1 a1 res1 where p: "postOnce ne env config serverURL requestNumber body contexts redirects x a = (x1, a1, res1)"
    by (metis surj_pair)
  have "sent x' = sent x1"
    using 0 p by (auto simp: post_attempts.simps ctxErr_sent split: sum.splits prod.splits option.splits if_splits)
  with postOnce_sends [OF p] show ?case by (simp add: sends_def)
next
  case (Suc n)
  obtain x1 a1 res1 where p: "postOnce ne env config serverURL requestNumber body contexts redirects x a = (x1, a1, res1)"
    by (metis surj_pair)
  have "sent x' = sent x1 \<or> (\<exists>x2 attempt2. sent x2 = sent x1 \<and> post_attempts ne env config serverURL
        requestNumber body contexts redirects n attempt2 x2 a1 = (x', a', res))"
    using Suc.prems p
    by (auto simp: post_attempts.simps [of ne env config serverURL requestNumber body contexts redirects "Suc n"]
        split: sum.splits prod.splits option.splits if_splits dest!: ctxErr_sent emit_sent sleep_sent)
  then show ?case
  proof (elim disjE exE conjE)
    assume "sent x' = sent x1"
    with postOnce_sends [OF p] show ?thesis by (auto simp: sends_def)
  next
    fix x2 attempt2
    assume "sent x2 = sent x1" and r: "post_attempts ne env config serverURL requestNumber body contexts redirects
      n attempt2 x2 a1 = (x', a', res)"
    then have "sends 1 x x2"
      using postOnce_sends [OF p] by (simp add: sends_def)
    from sends_trans [OF this Suc.IH [OF r]] show ?thesis by simp
  qed
qed

lemma postRound_sends:
  assumes "postRound ne env config serverURL requestNumber body contexts redirects x a = (x', a', res)"
  shows "sends (nat (attempts_of config)) x x'"
  using post_attempts_sends [OF assms [unfolded postRound_def]]
  by (auto simp: sends_def attempts_of_def split: if_splits)

end

definition logged :: "('x, 's) net_env \<Rightarrow> ('x \<times> http_request list, 's) net_env" where
  "logged ne = \<lparr>
     ne_ctxErr = (\<lambda>(x, rs). apfst (\<lambda>x. (x, rs)) (ne_ctxErr ne x)),
     ne_do = (\<lambda>(x, rs) r. apfst (\<lambda>x. (x, rs @ [r])) (ne_do ne x r)),
     ne_poll = ne_poll ne, ne_read = ne_read ne,
     ne_emit = (\<lambda>(x, rs) ev. apfst (\<lambda>x. (x, rs)) (ne_emit ne x ev)),
     ne_wait = (\<lambda>(x, rs) d. apfst (\<lambda>x. (x, rs)) (ne_wait ne x d)),
     ne_policyBackoffWait = (\<lambda>(x, rs) d. apfst (\<lambda>x. (x, rs)) (ne_policyBackoffWait ne x d)),
     ne_Reload = map_option (\<lambda>f (x, rs) q. apfst (\<lambda>x. (x, rs)) (f x q)) (ne_Reload ne),
     ne_Refresh = map_option (\<lambda>f (x, rs). apfst (\<lambda>x. (x, rs)) (f x)) (ne_Refresh ne),
     ne_POTokenSource = map_option (\<lambda>f (x, rs). apfst (\<lambda>x. (x, rs)) (f x)) (ne_POTokenSource ne)\<rparr>"

interpretation logged: recorded "logged ne" snd
  by unfold_locales (auto simp: logged_def apfst_def map_prod_def split: prod.splits)

end
