(* ===== verification/Downloader.thy ===== *)
theory Downloader
  imports Transport
begin

text \<open>
  \<open>Download\<close> of \<open>downloader.go\<close>: the checks of the configuration, the decision to resume, the rounds with their
  recoveries, and the end of the download. The partial file and the checkpoint beside it are an \<open>os_file\<close> under
  \<open>checkpoint_env\<close>; the checkpoint is the decoded record, and removing it or the partial file succeeds. The paths, the
  publication of the finished file and the completion marker are file-system operations and are not part of the model: the
  modelled download ends when the track is complete and the file is ready to be published.
\<close>

section \<open>Configuration\<close>

definition validate_config :: "Config \<Rightarrow> unit res" where
  "validate_config config =
     (if cfg_ServerURL config = [] \<or> length (cfg_UstreamerConfig config) = 0 \<or> fid_Itag (cfg_Format config) = 0
      then Inl ErrMissingConfig
      else if cfg_TrackKind config \<noteq> TrackAudio \<and> cfg_TrackKind config \<noteq> TrackVideo then Inl ErrInvalidMediaState
      else if cfg_DurationSec config \<le> 0 then Inl ErrMissingConfig
      else bind_res (validateResumeVideoID (cfg_VideoID config)) (\<lambda>_.
           bind_res (ValidateSABRURL (cfg_ServerURL config)) (\<lambda>_. Inr ())))"

record download_limits =
  lim_maxBytes :: i64
  lim_maxRounds :: int
  lim_expectedDurationMs :: i64
  lim_maxSabrErrors :: int
  lim_maxReloads :: int
  lim_maxRefreshes :: int

definition maxSABRAttempts :: int where "maxSABRAttempts = 100"

text \<open>A limit of the configuration that is absent or above the bound is the bound.\<close>

definition clamp :: "int \<Rightarrow> int \<Rightarrow> int" where
  "clamp limit v = (if v \<le> 0 \<or> v > limit then limit else v)"

definition download_limits_of :: "Config \<Rightarrow> download_limits res" where
  "download_limits_of config =
     (if attempts_of config > maxSABRAttempts then Inl ErrTooManyAttempts
      else bind_res (expectedDurationMs (cfg_DurationSec config)) (\<lambda>expected.
        Inr \<lparr>lim_maxBytes = clamp MaxMediaBytes (cfg_MaxBytes config),
             lim_maxRounds = clamp (int MaxRounds) (cfg_MaxRounds config),
             lim_expectedDurationMs = expected,
             lim_maxSabrErrors = clamp MaxSabrErrorRecoveries (cfg_MaxSabrErrorRecoveries config),
             lim_maxReloads = clamp MaxReloadAttempts (cfg_MaxReloadAttempts config),
             lim_maxRefreshes = clamp MaxSabrRefreshAttempts (cfg_MaxRefreshAttempts config)\<rparr>))"

section \<open>Resuming\<close>

type_synonym disk = "sabrCheckpoint option os_file"

text \<open>The end of \<open>loadCheckpoint\<close>, on the record in the state file.\<close>

definition loaded_checkpoint :: "checkpointIdentity \<Rightarrow> sabrCheckpoint option \<Rightarrow> sabrCheckpoint option" where
  "loaded_checkpoint identity saved =
     (case saved of
        None \<Rightarrow> None
      | Some st \<Rightarrow>
          (case validateCheckpoint st of
             Inl _ \<Rightarrow> None
           | Inr _ \<Rightarrow> if \<not> matches identity st then None else Some st))"

text \<open>The partial file as it is opened, with the checkpoint to resume from.\<close>

definition open_part ::
    "checkpointIdentity \<Rightarrow> sabrCheckpoint option \<Rightarrow> byte list option \<Rightarrow> (nat \<times> nat) option list \<Rightarrow>
      (sabrCheckpoint option \<times> disk) res" where
  "open_part identity saved part faults =
     (let fresh = (\<lambda>content. (None, \<lparr>of_content = content, of_faults = faults, of_saved = None\<rparr>))
      in (case loaded_checkpoint identity saved of
            None \<Rightarrow> bind_res (openResumePart None 0) (\<lambda>content. Inr (fresh content))
          | Some st \<Rightarrow>
              (case verifyCheckpointPartBytes part st of
                 Inl _ \<Rightarrow> bind_res (openResumePart None 0) (\<lambda>content. Inr (fresh content))
               | Inr _ \<Rightarrow>
                   (case openResumePart part (cp_TotalWritten st) of
                      Inr content \<Rightarrow>
                        Inr (Some st, \<lparr>of_content = content, of_faults = faults, of_saved = Some st\<rparr>)
                    | Inl e \<Rightarrow>
                        if e = ErrCheckpointInvalid
                        then bind_res (openResumePart None 0) (\<lambda>content. Inr (fresh content))
                        else Inl ErrDownloadFailed))))"

definition restore_track ::
    "FormatID \<Rightarrow> i64 \<Rightarrow> i64 \<Rightarrow> sabrCheckpoint option \<Rightarrow> disk \<Rightarrow> bool \<times> disk trackAssembler" where
  "restore_track format expected maxBytes checkpoint w =
     (case checkpoint of
        None \<Rightarrow> (False, newTrackAssembler format expected w maxBytes)
      | Some st \<Rightarrow>
          (case restoreCheckpoint (newTrackAssembler format expected w maxBytes) st maxBytes of
             (a, None) \<Rightarrow> (True, a)
           | (a, Some e) \<Rightarrow>
               (False, newTrackAssembler format expected
                  (w\<lparr>of_content := [], of_saved := None\<rparr>) maxBytes)))"

section \<open>The rounds\<close>

record download =
  dl_config :: Config
  dl_requestNumber :: int
  dl_playerTimeMs :: i64
  dl_selectedFormat :: bool
  dl_bufferedRanges :: "BufferedRange list"
  dl_playbackCookie :: "byte list"
  dl_serverURL :: string
  dl_contexts :: sabrContextState
  dl_redirects :: redirectTracker
  dl_sabrErrors :: int
  dl_reloads :: int
  dl_assembler :: "disk trackAssembler"

text \<open>How the body of the loop ends: \<open>continue\<close>, \<open>round--; continue\<close>, \<open>break\<close> or \<open>return\<close>.\<close>

datatype after_round = NextRound | SameRound | Leave | Fail error

fun as_SabrError :: "error \<Rightarrow> bool" where
  "as_SabrError (SabrErrorSignal t c) = True"
| "as_SabrError (Retryable e) = as_SabrError e"
| "as_SabrError (Joined e1 e2) \<longleftrightarrow> as_SabrError e1 \<or> as_SabrError e2"
| "as_SabrError e = False"

fun as_ReloadPlayer :: "error \<Rightarrow> string option" where
  "as_ReloadPlayer (ReloadPlayerSignal token) = Some token"
| "as_ReloadPlayer (Retryable e) = as_ReloadPlayer e"
| "as_ReloadPlayer (Joined e1 e2) = (case as_ReloadPlayer e1 of None \<Rightarrow> as_ReloadPlayer e2 | Some t \<Rightarrow> Some t)"
| "as_ReloadPlayer e = None"

definition request_body :: "download \<Rightarrow> byte list res" where
  "request_body s =
     (let config = dl_config s
      in marshalPlaybackRequest
           \<lparr>pr_Format = cfg_Format config, pr_TrackKind = cfg_TrackKind config,
            pr_UstreamerConfig = cfg_UstreamerConfig config, pr_ClientInfo = cfg_ClientInfo config,
            pr_POToken = cfg_POToken config, pr_BufferedRanges = dl_bufferedRanges s,
            pr_RequestNumber = dl_requestNumber s, pr_PlayerTimeMs = dl_playerTimeMs s,
            pr_SelectedFormat = dl_selectedFormat s, pr_DrcEnabled = cfg_DrcEnabled config,
            pr_AudioTrackID = cfg_AudioTrackID config, pr_PlaybackCookie = dl_playbackCookie s,
            pr_Contexts = clone (dl_contexts s)\<rparr>)"

definition fetch_token :: "('x, 's) net_env \<Rightarrow> 'x \<Rightarrow> Config \<Rightarrow> 'x \<times> Config res" where
  "fetch_token ne x config =
     (case ne_POTokenSource ne of
        None \<Rightarrow> (x, Inr config)
      | Some source \<Rightarrow>
          (case source x of
             (x, Inl e) \<Rightarrow> (x, Inl e)
           | (x, Inr None) \<Rightarrow> (x, Inr config)
           | (x, Inr (Some token)) \<Rightarrow> (x, Inr (config\<lparr>cfg_POToken := token\<rparr>))))"

definition reload_request :: "Config \<Rightarrow> string \<Rightarrow> ReloadRequest" where
  "reload_request config token =
     \<lparr>rr_VideoID = cfg_VideoID config, rr_ClientName = ci_ClientName (cfg_ClientInfo config),
      rr_ClientVer = ci_ClientVersion (cfg_ClientInfo config), rr_VisitorData = cfg_VisitorData config,
      rr_TrackKind = cfg_TrackKind config, rr_Format = cfg_Format config, rr_Token = token\<rparr>"

definition recover_sabr ::
    "('x, 's) net_env \<Rightarrow> download_limits \<Rightarrow> 'x \<Rightarrow> download \<Rightarrow> error \<Rightarrow> 'x \<times> download \<times> after_round" where
  "recover_sabr ne lim x s err =
     (let s = s\<lparr>dl_sabrErrors := dl_sabrErrors s + 1\<rparr>
      in if dl_sabrErrors s > lim_maxSabrErrors lim then (x, s, Fail (Joined ErrSabrRecoveryBudget err))
         else (case sleep ne x (recoveryBackoff (dl_config s) (dl_sabrErrors s)) of
                 (x, Some e) \<Rightarrow> (x, s, Fail e)
               | (x, None) \<Rightarrow> (x, s, SameRound)))"

definition recover_reload ::
    "('x, 's) net_env \<Rightarrow> download_limits \<Rightarrow> 'x \<Rightarrow> download \<Rightarrow> error \<Rightarrow> string \<Rightarrow> 'x \<times> download \<times> after_round" where
  "recover_reload ne lim x s err token =
     (let s = s\<lparr>dl_reloads := dl_reloads s + 1\<rparr>
      in if dl_reloads s > lim_maxReloads lim then (x, s, Fail (Joined ErrReloadBudget err))
         else (case ne_Reload ne of
                 None \<Rightarrow> (x, s, Fail err)
               | Some reload \<Rightarrow>
                   (case reload x (reload_request (dl_config s) token) of
                      (x, Inl e) \<Rightarrow> (x, s, Fail e)
                    | (x, Inr material) \<Rightarrow>
                        (case applyRefreshMaterial (dl_config s) material of
                           Inl e \<Rightarrow> (x, s, Fail ErrReloadRejected)
                         | Inr (config, redirects) \<Rightarrow>
                             let s = s\<lparr>dl_config := config, dl_redirects := redirects,
                                       dl_serverURL := cfg_ServerURL config, dl_playbackCookie := [],
                                       dl_contexts := newSabrContextState, dl_requestNumber := 0\<rparr>
                             in (case sleep ne x (recoveryBackoff config (dl_reloads s)) of
                                   (x, Some e) \<Rightarrow> (x, s, Fail e)
                                 | (x, None) \<Rightarrow> (x, s, SameRound))))))"

definition recover ::
    "('x, 's) net_env \<Rightarrow> download_limits \<Rightarrow> 'x \<Rightarrow> download \<Rightarrow> error \<Rightarrow> 'x \<times> download \<times> after_round" where
  "recover ne lim x s err =
     (case ne_ctxErr ne x of
        (x, Some ce) \<Rightarrow> (x, s, Fail (ctx_failure ce))
      | (x, None) \<Rightarrow>
          if as_SabrError err then recover_sabr ne lim x s err
          else (case as_ReloadPlayer err of
                  Some token \<Rightarrow> recover_reload ne lim x s err token
                | None \<Rightarrow> (x, s, Fail err)))"

definition apply_control :: "download \<Rightarrow> roundControl \<Rightarrow> download" where
  "apply_control s ctrl =
     (let s = (if rctl_updateCookie ctrl then s\<lparr>dl_playbackCookie := rctl_cookie ctrl\<rparr> else s);
          s = s\<lparr>dl_contexts := rctl_contexts ctrl\<rparr>;
          (advance, ranges, selected) = playbackState (dl_assembler s);
          s = s\<lparr>dl_playerTimeMs := advance, dl_bufferedRanges := ranges\<rparr>
      in if selected then s\<lparr>dl_selectedFormat := True\<rparr> else s)"

definition follow_redirect :: "download \<Rightarrow> roundControl \<Rightarrow> download" where
  "follow_redirect s ctrl =
     (if rctl_hasRedirect ctrl
      then s\<lparr>dl_redirects := tracker_record (dl_redirects s) (rctl_redirectURL ctrl),
             dl_serverURL := rctl_redirectURL ctrl\<rparr>
      else s)"

definition after_response ::
    "('x, 's) net_env \<Rightarrow> bool \<Rightarrow> 'x \<Rightarrow> download \<Rightarrow> roundControl \<Rightarrow> 'x \<times> download \<times> after_round" where
  "after_response ne resumed x s ctrl =
     (let s = apply_control s ctrl
      in (case (if ta_totalWritten (dl_assembler s) > 0
                then ne_emit ne x (KindProgress (ta_totalWritten (dl_assembler s)) resumed) else (x, None)) of
            (x, Some e) \<Rightarrow> (x, s, Fail (Joined ErrEventSink e))
          | (x, None) \<Rightarrow>
              if trackComplete (dl_assembler s) then (x, s, Leave)
              else let s = follow_redirect s ctrl
              in (case (if rctl_backoff ctrl > 0 then ne_policyBackoffWait ne x (rctl_backoff ctrl) else (x, None)) of
                    (x, Some e) \<Rightarrow> (fst (ne_emit ne x KindCancelled), s, Fail e)
                  | (x, None) \<Rightarrow> (x, s\<lparr>dl_requestNumber := dl_requestNumber s + 1\<rparr>, NextRound))))"

definition download_round ::
    "('x, 's) net_env \<Rightarrow> checkpointIdentity \<Rightarrow> download_limits \<Rightarrow> bool \<Rightarrow> 'x \<Rightarrow> download \<Rightarrow>
      'x \<times> download \<times> after_round" where
  "download_round ne identity lim resumed x s =
     (if trackComplete (dl_assembler s) then (x, s, Leave)
      else (case ne_ctxErr ne x of
              (x, Some ce) \<Rightarrow> (fst (ne_emit ne x KindCancelled), s, Fail (ctx_failure ce))
            | (x, None) \<Rightarrow>
                (case fetch_token ne x (dl_config s) of
                   (x, Inl e) \<Rightarrow> (x, s, Fail e)
                 | (x, Inr config) \<Rightarrow>
                     let s = s\<lparr>dl_config := config\<rparr>
                     in (case request_body s of
                           Inl e \<Rightarrow> (x, s, Fail e)
                         | Inr body \<Rightarrow>
                             (case postRound ne (checkpoint_env identity) config (dl_serverURL s) (dl_requestNumber s) body
                                     (dl_contexts s) (dl_redirects s) x (dl_assembler s) of
                                (x, a, Inl err) \<Rightarrow> recover ne lim x (s\<lparr>dl_assembler := a\<rparr>) err
                              | (x, a, Inr ctrl) \<Rightarrow>
                                  after_response ne resumed x (s\<lparr>dl_assembler := a\<rparr>) ctrl)))))"

text \<open>What recoveries and rounds count. The rounds end because a repeated round uses up one of the recoveries.\<close>

lemma recover_counts:
  assumes "recover ne lim x s err = (x', s', out)"
  shows "out = SameRound \<Longrightarrow>
      (dl_sabrErrors s' = dl_sabrErrors s + 1 \<and> dl_sabrErrors s' \<le> lim_maxSabrErrors lim \<and> dl_reloads s' = dl_reloads s) \<or>
      (dl_reloads s' = dl_reloads s + 1 \<and> dl_reloads s' \<le> lim_maxReloads lim \<and> dl_sabrErrors s' = dl_sabrErrors s)"
    and "out \<noteq> NextRound" "out \<noteq> Leave" "dl_assembler s' = dl_assembler s"
  using assms
  by (auto simp: recover_def recover_sabr_def recover_reload_def Let_def
      split: prod.splits option.splits sum.splits if_splits)

lemma apply_control_keeps:
  "dl_assembler (apply_control s ctrl) = dl_assembler s" "dl_sabrErrors (apply_control s ctrl) = dl_sabrErrors s"
  "dl_reloads (apply_control s ctrl) = dl_reloads s" "dl_config (apply_control s ctrl) = dl_config s"
  "dl_contexts (apply_control s ctrl) = rctl_contexts ctrl" "dl_redirects (apply_control s ctrl) = dl_redirects s"
  "dl_serverURL (apply_control s ctrl) = dl_serverURL s"
  by (simp_all add: apply_control_def playbackState_def Let_def)

lemma follow_redirect_keeps:
  "dl_assembler (follow_redirect s ctrl) = dl_assembler s" "dl_sabrErrors (follow_redirect s ctrl) = dl_sabrErrors s"
  "dl_reloads (follow_redirect s ctrl) = dl_reloads s" "dl_config (follow_redirect s ctrl) = dl_config s"
  "dl_contexts (follow_redirect s ctrl) = dl_contexts s"
  by (simp_all add: follow_redirect_def)

lemmas response_keeps = apply_control_keeps follow_redirect_keeps

lemma after_response_counts:
  assumes "after_response ne resumed x s ctrl = (x', s', out)"
  shows "out \<noteq> SameRound" "dl_sabrErrors s' = dl_sabrErrors s" "dl_reloads s' = dl_reloads s"
    "dl_assembler s' = dl_assembler s" "dl_config s' = dl_config s" "dl_contexts s' = rctl_contexts ctrl"
    "out = Leave \<Longrightarrow> trackComplete (dl_assembler s')"
  using assms
  by (auto simp: after_response_def Let_def response_keeps split: prod.splits option.splits if_splits)

definition budget_left :: "download_limits \<Rightarrow> int \<Rightarrow> download \<Rightarrow> nat" where
  "budget_left lim rnd s =
     nat (lim_maxRounds lim - rnd) + nat (lim_maxSabrErrors lim - dl_sabrErrors s) +
     nat (lim_maxReloads lim - dl_reloads s)"

lemma fetch_token_config:
  "fetch_token ne x config = (x', Inr config') \<Longrightarrow> \<exists>token. config' = config\<lparr>cfg_POToken := token\<rparr>"
  by (auto simp: fetch_token_def split: option.splits prod.splits sum.splits intro: exI [of _ "cfg_POToken config"])

lemma download_round_cases:
  assumes "download_round ne identity lim resumed x s = (x', s', out)"
  obtains (early) "dl_assembler s' = dl_assembler s" "out = Leave \<and> trackComplete (dl_assembler s) \<or> (\<exists>e. out = Fail e)"
      "x' = x \<or> x' = fst (ne_emit ne (fst (ne_ctxErr ne x)) KindCancelled) \<or>
        (\<exists>r. fetch_token ne (fst (ne_ctxErr ne x)) (dl_config s) = (x', r))"
  | (failed) x0 x1 config body a err where "fetch_token ne (fst (ne_ctxErr ne x)) (dl_config s) = (x0, Inr config)"
      "postRound ne (checkpoint_env identity) config (dl_serverURL s) (dl_requestNumber s) body
        (dl_contexts s) (dl_redirects s) x0 (dl_assembler s) = (x1, a, Inl err)"
      "recover ne lim x1 (s\<lparr>dl_config := config, dl_assembler := a\<rparr>) err = (x', s', out)"
  | (answered) x0 x1 config body a ctrl where "fetch_token ne (fst (ne_ctxErr ne x)) (dl_config s) = (x0, Inr config)"
      "postRound ne (checkpoint_env identity) config (dl_serverURL s) (dl_requestNumber s) body
        (dl_contexts s) (dl_redirects s) x0 (dl_assembler s) = (x1, a, Inr ctrl)"
      "after_response ne resumed x1 (s\<lparr>dl_config := config, dl_assembler := a\<rparr>) ctrl = (x', s', out)"
  using assms
  by (auto simp: download_round_def Let_def split: prod.splits option.splits sum.splits if_splits)

lemma download_round_counts:
  assumes "download_round ne identity lim resumed x s = (x', s', out)" and "rnd < lim_maxRounds lim"
  shows "(out = NextRound \<longrightarrow> budget_left lim (rnd + 1) s' < budget_left lim rnd s) \<and>
    (out = SameRound \<longrightarrow> budget_left lim rnd s' < budget_left lim rnd s)"
  using assms(1)
proof (cases rule: download_round_cases)
  case (failed x0 x1 config body a err)
  then show ?thesis
    using recover_counts [OF failed(3)] by (auto simp: budget_left_def)
next
  case (answered x0 x1 config body a ctrl)
  then show ?thesis
    using after_response_counts(1,2,3) [OF answered(3)] assms(2) by (auto simp: budget_left_def)
qed auto

function download_loop ::
    "('x, 's) net_env \<Rightarrow> checkpointIdentity \<Rightarrow> download_limits \<Rightarrow> bool \<Rightarrow> int \<Rightarrow> 'x \<Rightarrow> download \<Rightarrow>
      'x \<times> download \<times> unit res" where
  "download_loop ne identity lim resumed rnd x s =
     (if rnd \<ge> lim_maxRounds lim then (x, s, Inr ())
      else (case download_round ne identity lim resumed x s of
              (x, s, Leave) \<Rightarrow> (x, s, Inr ())
            | (x, s, Fail e) \<Rightarrow> (x, s, Inl e)
            | (x, s, SameRound) \<Rightarrow> download_loop ne identity lim resumed rnd x s
            | (x, s, NextRound) \<Rightarrow> download_loop ne identity lim resumed (rnd + 1) x s))"
  by pat_completeness auto
termination
  by (relation "measure (\<lambda>(ne, identity, lim, resumed, rnd, x, s). budget_left lim rnd s)")
    (auto simp: not_le dest: download_round_counts [OF sym])

declare download_loop.simps [simp del]

section \<open>The download\<close>

definition resume_refresh ::
    "('x, 's) net_env \<Rightarrow> download_limits \<Rightarrow> bool \<Rightarrow> 'x \<Rightarrow> Config \<Rightarrow> 'x \<times> (Config \<times> redirectTracker) res" where
  "resume_refresh ne lim resumed x config =
     (let unchanged = (x, Inr (config, newRedirectTracker (cfg_ServerURL config)))
      in if \<not> resumed then unchanged
         else (case ne_Refresh ne of
                 None \<Rightarrow> unchanged
               | Some refresh \<Rightarrow>
                   if 0 \<ge> lim_maxRefreshes lim then (x, Inl ErrRefreshBudget)
                   else (case refresh x of
                           (x, Inl e) \<Rightarrow> (x, Inl e)
                         | (x, Inr material) \<Rightarrow> (x, applyRefreshMaterial config material))))"

definition start_download :: "Config \<Rightarrow> redirectTracker \<Rightarrow> bool \<Rightarrow> disk trackAssembler \<Rightarrow> download" where
  "start_download config redirects resumed a =
     (let (playerTime, ranges, selected) = (if resumed then playbackState a else (0, [], False))
      in \<lparr>dl_config = config, dl_requestNumber = 0, dl_playerTimeMs = playerTime, dl_selectedFormat = selected,
          dl_bufferedRanges = ranges, dl_playbackCookie = [], dl_serverURL = cfg_ServerURL config,
          dl_contexts = newSabrContextState, dl_redirects = redirects, dl_sabrErrors = 0, dl_reloads = 0,
          dl_assembler = a\<rparr>)"

definition run_rounds ::
    "('x, 's) net_env \<Rightarrow> checkpointIdentity \<Rightarrow> download_limits \<Rightarrow> bool \<Rightarrow> 'x \<Rightarrow> download \<Rightarrow>
      'x \<times> disk trackAssembler \<times> (i64 \<times> bool) res" where
  "run_rounds ne identity lim resumed x s =
     (case download_loop ne identity lim resumed 0 x s of
        (x, s, Inl e) \<Rightarrow> (x, dl_assembler s, Inl e)
      | (x, s, Inr _) \<Rightarrow>
          if \<not> trackComplete (dl_assembler s) then (x, dl_assembler s, Inl ErrRoundsExhausted)
          else (x, dl_assembler s, Inr (ta_totalWritten (dl_assembler s), resumed)))"

definition download_opened ::
    "('x, 's) net_env \<Rightarrow> Config \<Rightarrow> download_limits \<Rightarrow> sabrCheckpoint option \<Rightarrow> disk \<Rightarrow> 'x \<Rightarrow>
      'x \<times> disk trackAssembler \<times> (i64 \<times> bool) res" where
  "download_opened ne config lim checkpoint w x =
     (let (resumed, a) = restore_track (cfg_Format config) (lim_expectedDurationMs lim) (lim_maxBytes lim) checkpoint w
      in (case (if resumed then ne_emit ne x (KindProgress (ta_totalWritten a) True) else (x, None)) of
            (x, Some e) \<Rightarrow> (x, a, Inl (Joined ErrEventSink e))
          | (x, None) \<Rightarrow>
              (case resume_refresh ne lim resumed x config of
                 (x, Inl e) \<Rightarrow> (x, a, Inl e)
               | (x, Inr (config', redirects)) \<Rightarrow>
                   run_rounds ne (identityFromConfig config) lim resumed x
                     (start_download config' redirects resumed a))))"

text \<open>\<open>output.syncClose\<close>; closing succeeds.\<close>

definition sync_close :: "disk \<Rightarrow> disk \<times> error option" where
  "sync_close w = (case os_Sync w of (w, Some e) \<Rightarrow> (w, Some ErrDownloadFailed) | (w, None) \<Rightarrow> (w, None))"

definition part_file ::
    "sabrCheckpoint option \<Rightarrow> byte list option \<Rightarrow> (nat \<times> nat) option list \<Rightarrow> disk" where
  "part_file saved part faults =
     \<lparr>of_content = (case part of None \<Rightarrow> [] | Some bs \<Rightarrow> bs), of_faults = faults, of_saved = saved\<rparr>"

definition Download ::
    "('x, 's) net_env \<Rightarrow> Config \<Rightarrow> sabrCheckpoint option \<Rightarrow> byte list option \<Rightarrow> (nat \<times> nat) option list \<Rightarrow> 'x \<Rightarrow>
      'x \<times> disk \<times> (i64 \<times> bool) res" where
  "Download ne config saved part faults x =
     (let untouched = part_file saved part faults
      in (case bind_res (validate_config config) (\<lambda>_. download_limits_of config) of
            Inl e \<Rightarrow> (x, untouched, Inl e)
          | Inr lim \<Rightarrow>
              (case open_part (identityFromConfig config) saved part faults of
                 Inl e \<Rightarrow> (x, untouched, Inl e)
               | Inr (checkpoint, w) \<Rightarrow>
                   (case ne_emit ne x (KindStarting (checkpoint \<noteq> None)) of
                      (x, Some e) \<Rightarrow> (x, w, Inl (Joined ErrEventSink e))
                    | (x, None) \<Rightarrow>
                        (case download_opened ne config lim checkpoint w x of
                           (x, a, Inl e) \<Rightarrow> (x, ta_file a, Inl e)
                         | (x, a, Inr result) \<Rightarrow>
                             (case sync_close (ta_file a) of
                                (w, Some e) \<Rightarrow> (x, w, Inl e)
                              | (w, None) \<Rightarrow> (x, w, Inr result)))))))"

lemma start_download_fields [simp]:
  "dl_config (start_download config redirects resumed a) = config"
  "dl_assembler (start_download config redirects resumed a) = a"
  "dl_sabrErrors (start_download config redirects resumed a) = 0"
  "dl_reloads (start_download config redirects resumed a) = 0"
  by (simp_all add: start_download_def split: prod.split)

section \<open>The track in a download\<close>

lemma as_recoverable: "as_SabrError e \<Longrightarrow> recoverable e" "as_ReloadPlayer e = Some t \<Longrightarrow> recoverable e"
  by (induction e) (auto split: option.splits)

lemma recover_again:
  assumes "recover ne lim x s err = (x', s', SameRound)"
  shows "recoverable err"
  using assms as_recoverable
  by (auto simp: recover_def split: prod.splits option.splits if_splits)

lemma download_round_track:
  assumes "download_round ne i lim resumed x s = (x', s', out)"
    and "track_run (checkpoint_env i) start (dl_assembler s)"
  shows "checkpointed.broken_off i start (dl_assembler s') \<and>
    ((\<forall>e. out \<noteq> Fail e) \<longrightarrow> track_run (checkpoint_env i) start (dl_assembler s'))"
  using assms(1)
proof (cases rule: download_round_cases)
  case early
  then show ?thesis
    using assms(2) checkpointed.run_broken_off by auto
next
  case (failed x0 x1 config body a err)
  have a: "dl_assembler s' = a" "out \<noteq> NextRound" "out \<noteq> Leave"
    using recover_counts(2-4) [OF failed(3)] by auto
  have "out = SameRound \<Longrightarrow> recoverable err"
    using recover_again failed(3) by auto
  with a checkpointed.postRound_ends [OF failed(2) assms(2)] show ?thesis
    by (cases out) auto
next
  case (answered x0 x1 config body a ctrl)
  with checkpointed.postRound_ends [OF answered(2) assms(2)] after_response_counts(4) [OF answered(3)] show ?thesis
    by auto
qed

lemma download_loop_track:
  assumes "download_loop ne i lim resumed rnd x s = (x', s', res)"
    and "track_run (checkpoint_env i) start (dl_assembler s)"
  shows "checkpointed.broken_off i start (dl_assembler s') \<and>
    (res = Inr () \<longrightarrow> track_run (checkpoint_env i) start (dl_assembler s'))"
  using assms
proof (induction ne i lim resumed rnd x s rule: download_loop.induct)
  case (1 ne i lim resumed rnd x s)
  show ?case
  proof (cases "rnd \<ge> lim_maxRounds lim")
    case True
    with 1(3,4) show ?thesis
      by (auto simp: download_loop.simps [of ne i lim resumed rnd x s] checkpointed.run_broken_off)
  next
    case False
    obtain x1 s1 out where r: "download_round ne i lim resumed x s = (x1, s1, out)" by (metis surj_pair)
    note t = download_round_track [OF r 1(4)]
    show ?thesis
      using 1(1) [OF False r [symmetric] refl] 1(2) [OF False r [symmetric] refl] 1(3) t False r
      by (cases out) (auto simp: download_loop.simps [of ne i lim resumed rnd x s])
  qed
qed

text \<open>The target of an assembler never changes.\<close>

lemma commitProgress_target: "ta_expectedDurationMs (fst (commitProgress env a)) = ta_expectedDurationMs a"
  by (auto simp: commitProgress_def Let_def split: option.splits prod.splits)

lemma writeBytes_target: "ta_expectedDurationMs (fst (writeBytes env a bs)) = ta_expectedDurationMs a"
  by (auto simp: writeBytes_def Let_def split: option.splits prod.splits if_splits)

lemma finalizeSegment_target: "ta_expectedDurationMs (fst (finalizeSegment env a payload)) = ta_expectedDurationMs a"
proof -
  have "ta_expectedDurationMs (fst (finalizeInit env b h bs)) = ta_expectedDurationMs b" for b h bs
    using writeBytes_target [of env b bs]
    by (auto simp: finalizeInit_def Let_def deleteActive_def commitProgress_target split: prod.splits option.splits)
  moreover have "ta_expectedDurationMs (fst (finalizeMedia env b h header bs)) = ta_expectedDurationMs b" for b h header bs
    using writeBytes_target [of env b bs]
    by (auto simp: finalizeMedia_def Let_def deleteActive_def commitProgress_target
        split: prod.splits option.splits sum.splits)
  ultimately show ?thesis
    by (auto simp: finalizeSegment_def Let_def deleteActive_def split: sum.splits option.splits)
qed

lemma consumePart_target:
  "ta_expectedDurationMs (fst (assembler_consumePart env a t payload)) = ta_expectedDurationMs a"
proof -
  have "ta_expectedDurationMs (fst (consumeFormatInit a payload)) = ta_expectedDurationMs a"
    by (simp add: consumeFormatInit_def split: sum.split)
  moreover have "checkSequence a header = Inr b \<Longrightarrow> ta_expectedDurationMs b = ta_expectedDurationMs a" for header b
    by (auto simp: checkSequence_def split: if_split_asm)
  then have "ta_expectedDurationMs (fst (consumeHeader a payload)) = ta_expectedDurationMs a"
    by (simp add: consumeHeader_def Let_def split: sum.split)
  moreover have "ta_expectedDurationMs (fst (consumeMedia a payload)) = ta_expectedDurationMs a"
    by (simp add: consumeMedia_def split: sum.split option.split prod.split)
  ultimately show ?thesis
    by (simp add: assembler_consumePart_def finalizeSegment_target)
qed

lemma run_target: "track_run env start a \<Longrightarrow> ta_expectedDurationMs a = ta_expectedDurationMs start"
proof (induction rule: track_run.induct)
  case (run_part a t payload a')
  with consumePart_target [of env a t payload] show ?case by simp
next
  case (run_end a a')
  with commitProgress_target [of env "a\<lparr>ta_endOfTrackDone := True\<rparr>"] show ?case
    by (auto simp: applyEndOfTrackCompletion_def split: if_splits)
qed simp

text \<open>What a download starts with.\<close>

definition sound_start :: "checkpointIdentity \<Rightarrow> i64 \<Rightarrow> i64 \<Rightarrow> disk trackAssembler \<Rightarrow> bool" where
  "sound_start i budget expected a \<longleftrightarrow>
     (\<exists>init segs. assembled of_content budget a init segs \<and> open_ok a segs) \<and> saved_ok i (ta_file a) \<and>
     ta_expectedDurationMs a = expected"

lemma fresh_start:
  assumes "0 \<le> budget" and "of_content w = []" and "of_saved w = None"
  shows "sound_start i budget expected (newTrackAssembler format expected w budget)"
  using checkpointed.new_assembled [of w budget format expected] assms
  by (auto simp: sound_start_def saved_ok_def newTrackAssembler_def)

lemma open_part_Inr:
  assumes "open_part i saved part faults = Inr (checkpoint, w)"
  shows "case checkpoint of
      None \<Rightarrow> of_content w = [] \<and> of_saved w = None
    | Some st \<Rightarrow> \<exists>bytes kept. verifyCheckpointPartBytes (Some bytes) st = Inr () \<and> matches i st \<and>
        openResumePart (Some bytes) (cp_TotalWritten st) = Inr kept \<and>
        w = \<lparr>of_content = kept, of_faults = faults, of_saved = Some st\<rparr>"
proof -
  have "\<exists>bytes. part = Some bytes" if "verifyCheckpointPartBytes part st = Inr ()" for st
    using that by (cases part) (auto simp: verifyCheckpointPartBytes_def bind_res_Inr_iff)
  with assms show ?thesis
    by (fastforce simp: open_part_def loaded_checkpoint_def openResumePart_def [of None] Let_def
        split: option.splits sum.splits if_splits)
qed

lemma restore_track_start:
  assumes "open_part i saved part faults = Inr (checkpoint, w)" and "0 \<le> budget"
    and "restore_track format expected budget checkpoint w = (resumed, a)"
  shows "sound_start i budget expected a"
proof (cases checkpoint)
  case None
  with assms open_part_Inr [OF assms(1)] fresh_start show ?thesis
    by (auto simp: restore_track_def)
next
  case (Some st)
  obtain bytes kept where v: "verifyCheckpointPartBytes (Some bytes) st = Inr ()" "matches i st"
    "openResumePart (Some bytes) (cp_TotalWritten st) = Inr kept"
    "w = \<lparr>of_content = kept, of_faults = faults, of_saved = Some st\<rparr>"
    using open_part_Inr [OF assms(1)] Some by auto
  show ?thesis
  proof (cases "cp_TotalWritten st \<le> budget")
    case True
    from resume_log [OF v(1) True, of format expected faults "Some st"] v(2-4) Some assms(3) show ?thesis
      by (fastforce simp: restore_track_def sound_start_def saved_ok_def)
  next
    case False
    have "validateCheckpoint st = Inr ()"
      using v(1) by (auto simp: verifyCheckpointPartBytes_def bind_res_Inr_iff)
    with False Some assms(2,3) show ?thesis
      by (auto simp: restore_track_def restoreCheckpoint_def intro!: fresh_start)
  qed
qed

lemma broken_off_saved:
  assumes "checkpointed.broken_off i start a" and "sound_start i budget expected start"
  shows "saved_ok i (ta_file a)"
proof -
  obtain init segs where st: "assembled of_content budget start init segs" "open_ok start segs" "saved_ok i (ta_file start)"
    using assms(2) by (auto simp: sound_start_def)
  obtain a1 where run: "track_run (checkpoint_env i) start a1"
    and ends: "a = a1 \<or> (\<exists>t payload e. assembler_consumePart (checkpoint_env i) a1 t payload = (a, e)) \<or>
      (\<exists>e. applyEndOfTrackCompletion (checkpoint_env i) a1 = (a, e))"
    using assms(1) unfolding checkpointed.broken_off_def by blast
  obtain init1 segs1 where a1: "assembled of_content budget a1 init1 segs1" "open_ok a1 segs1"
    using checkpointed.run_assembled [OF run st(1,2)] by blast
  note saved = run_saved [OF run st]
  have "assembled of_content budget (a1\<lparr>ta_endOfTrackDone := True\<rparr>) init1 segs1"
    using a1(1) by (simp add: assembled_def)
  then have "saved_ok i (ta_file a)" if "applyEndOfTrackCompletion (checkpoint_env i) a1 = (a, e)" for e
    using that saved by (auto simp: applyEndOfTrackCompletion_def split: if_splits intro: commit_saved)
  with ends saved consumePart_saved [OF _ a1] show ?thesis by blast
qed

lemma run_rounds_track:
  assumes "run_rounds ne i lim resumed x s = (x', a, res)"
    and "track_run (checkpoint_env i) start (dl_assembler s)"
  shows "checkpointed.broken_off i start a"
    and "res = Inr (n, r) \<Longrightarrow>
      track_run (checkpoint_env i) start a \<and> trackComplete a \<and> n = ta_totalWritten a \<and> r = resumed"
proof -
  obtain x1 s1 out where l: "download_loop ne i lim resumed 0 x s = (x1, s1, out)" by (metis surj_pair)
  note t = download_loop_track [OF l assms(2)]
  show "checkpointed.broken_off i start a"
    "res = Inr (n, r) \<Longrightarrow>
      track_run (checkpoint_env i) start a \<and> trackComplete a \<and> n = ta_totalWritten a \<and> r = resumed"
    using assms(1) l t by (auto simp: run_rounds_def split: sum.splits if_splits)
qed

lemma download_opened_track:
  assumes "download_opened ne config lim checkpoint w x = (x', a, res)"
    and "open_part (identityFromConfig config) saved part faults = Inr (checkpoint, w)" and "0 \<le> lim_maxBytes lim"
  shows "saved_ok (identityFromConfig config) (ta_file a)"
    and "res = Inr (n, r) \<Longrightarrow> \<exists>init segs. assembled of_content (lim_maxBytes lim) a init segs \<and>
      trackComplete a \<and> ta_expectedDurationMs a = lim_expectedDurationMs lim \<and> n = ta_totalWritten a"
proof -
  let ?i = "identityFromConfig config"
  obtain resumed a0 where a0: "restore_track (cfg_Format config) (lim_expectedDurationMs lim) (lim_maxBytes lim)
      checkpoint w = (resumed, a0)" by fastforce
  note start = restore_track_start [OF assms(2,3) a0]
  have out: "(a = a0 \<and> (\<exists>e. res = Inl e)) \<or>
      (\<exists>x1 config' redirects. run_rounds ne ?i lim resumed x1 (start_download config' redirects resumed a0) = (x', a, res))"
    using assms(1) a0 by (auto simp: download_opened_def split: prod.splits option.splits sum.splits)
  have "track_run (checkpoint_env ?i) a0 (dl_assembler (start_download config' redirects resumed a0))" for config' redirects
    by (simp add: run_start)
  note rounds = run_rounds_track [OF _ this]
  show "saved_ok ?i (ta_file a)"
    using out
  proof (elim disjE exE)
    fix x1 config' redirects
    assume "run_rounds ne ?i lim resumed x1 (start_download config' redirects resumed a0) = (x', a, res)"
    from broken_off_saved [OF rounds(1) [OF this] start] show ?thesis .
  qed (use start in \<open>simp add: sound_start_def\<close>)
  assume success: "res = Inr (n, r)"
  then obtain x1 config' redirects where
    "run_rounds ne ?i lim resumed x1 (start_download config' redirects resumed a0) = (x', a, res)"
    using out by auto
  from rounds(2) [OF this success]
  have r: "track_run (checkpoint_env ?i) a0 a" "trackComplete a" "n = ta_totalWritten a" by simp_all
  obtain init segs where s0: "assembled of_content (lim_maxBytes lim) a0 init segs" "open_ok a0 segs"
    and expected: "ta_expectedDurationMs a0 = lim_expectedDurationMs lim"
    using start by (auto simp: sound_start_def)
  from checkpointed.run_assembled [OF r(1) s0] run_target [OF r(1)] r(2,3) expected
  show "\<exists>init segs. assembled of_content (lim_maxBytes lim) a init segs \<and>
      trackComplete a \<and> ta_expectedDurationMs a = lim_expectedDurationMs lim \<and> n = ta_totalWritten a"
    by auto
qed

section \<open>The requests of a download\<close>

lemma clamp_bounds: "0 < limit \<Longrightarrow> 0 < clamp limit v \<and> clamp limit v \<le> limit"
  by (simp add: clamp_def)

lemma sync_close_keeps: "sync_close w = (w', e) \<Longrightarrow> of_content w' = of_content w \<and> of_saved w' = of_saved w"
  by (auto simp: sync_close_def os_Sync_def split: list.splits option.splits)

lemma Download_cases:
  assumes "Download ne config saved part faults x = (x', w, res)"
  obtains (untouched) "w = part_file saved part faults" "isl res" "x' = x"
  | (unannounced) checkpoint where "open_part (identityFromConfig config) saved part faults = Inr (checkpoint, w)"
      "isl res" "x' = fst (ne_emit ne x (KindStarting (checkpoint \<noteq> None)))"
  | (opened) lim checkpoint w1 x1 a res1 where "download_limits_of config = Inr lim"
      "open_part (identityFromConfig config) saved part faults = Inr (checkpoint, w1)"
      "download_opened ne config lim checkpoint w1 x1 = (x', a, res1)"
      "of_content w = of_content (ta_file a)" "of_saved w = of_saved (ta_file a)" "isl res \<or> res = res1"
      "x1 = fst (ne_emit ne x (KindStarting (checkpoint \<noteq> None)))"
  using assms
  by (auto simp: Download_def Let_def bind_res_Inr_iff dest!: sync_close_keeps
      split: sum.splits prod.splits option.splits)

lemma opened_saved:
  assumes "open_part i saved part faults = Inr (checkpoint, w)"
  shows "saved_ok i w"
proof (cases checkpoint)
  case None
  with open_part_Inr [OF assms] show ?thesis by (simp add: saved_ok_def)
next
  case (Some st)
  obtain bytes kept where v: "verifyCheckpointPartBytes (Some bytes) st = Inr ()" "matches i st"
    "openResumePart (Some bytes) (cp_TotalWritten st) = Inr kept"
    "w = \<lparr>of_content = kept, of_faults = faults, of_saved = Some st\<rparr>"
    using open_part_Inr [OF assms] Some by auto
  from resume_log [OF v(1) order_refl, of undefined undefined faults "Some st"] v(2-4) show ?thesis
    by (auto simp: saved_ok_def)
qed

lemma limits_bytes:
  "download_limits_of config = Inr lim \<Longrightarrow> lim_maxBytes lim = clamp MaxMediaBytes (cfg_MaxBytes config) \<and>
    0 \<le> lim_maxBytes lim \<and> lim_maxBytes lim \<le> MaxMediaBytes \<and>
    lim_expectedDurationMs lim = cfg_DurationSec config * 1000"
  using clamp_bounds [of MaxMediaBytes "cfg_MaxBytes config"]
  by (auto simp: download_limits_of_def bind_res_Inr_iff limits dest!: expectedDurationMs_exact split: if_splits)

lemma complete_log:
  assumes "assembled of_content budget a init segs" and "trackComplete a"
  shows "ta_endOfTrackDone a \<or> init \<noteq> None \<and> segs \<noteq> [] \<and> ta_expectedDurationMs a \<le> log_ms segs"
proof -
  have "segs = [] \<Longrightarrow> fmdom (ta_writtenSequences a) = {||}"
    using assms(1) by (intro fset_eqI) (auto simp: assembled_def log_table_def fmdom_notI fmlookup_dom_iff)
  with assms show ?thesis
    by (auto simp: trackComplete_def assembled_def split: if_splits)
qed

lemma refresh_attempts: "applyRefreshMaterial c m = Inr (c', t) \<Longrightarrow> attempts_of c' = attempts_of c"
  by (auto dest!: applyRefreshMaterial_Inr(3) simp: attempts_of_def)

lemma recover_attempts:
  "recover ne lim x s err = (x', s', out) \<Longrightarrow> attempts_of (dl_config s') = attempts_of (dl_config s)"
  by (auto simp: recover_def recover_sabr_def recover_reload_def Let_def refresh_attempts
      split: prod.splits option.splits sum.splits if_splits)

context recorded
begin

lemma fetch_token_sent: "fetch_token ne x config = (x', r) \<Longrightarrow> sent x' = sent x"
  by (auto simp: fetch_token_def dest: POTokenSource_sent split: option.splits prod.splits sum.splits)

lemma recover_sent:
  assumes "recover ne lim x s err = (x', s', out)"
  shows "sent x' = sent x"
proof -
  have "sent y' = sent y" if "recover_sabr ne lim y s err = (y', s', out)" for y y'
    using that by (auto simp: recover_sabr_def Let_def dest!: sleep_sent split: if_splits prod.splits option.splits)
  moreover have "sent y' = sent y" if "recover_reload ne lim y s err t = (y', s', out)" for y y' t
    using that
    by (auto simp: recover_reload_def Let_def dest!: sleep_sent Reload_sent
        split: if_splits prod.splits option.splits sum.splits)
  ultimately show ?thesis
    using assms
    by (auto simp: recover_def dest!: ctxErr_sent split: prod.splits option.splits if_splits)
qed

lemma after_response_sent:
  assumes "after_response ne resumed x s ctrl = (x', s', out)"
  shows "sent x' = sent x"
proof -
  have emit: "sent (fst (ne_emit ne y ev)) = sent y" for y ev
    using emit_sent [of y ev] by (cases "ne_emit ne y ev") simp
  show ?thesis
    using assms
    by (auto simp: after_response_def Let_def emit dest!: emit_sent policyBackoffWait_sent
        split: prod.splits option.splits if_splits)
qed

lemma download_round_sends:
  assumes "download_round ne i lim resumed x s = (x', s', out)"
  shows "sends (nat (attempts_of (dl_config s))) x x'"
    and "out = NextRound \<or> out = SameRound \<Longrightarrow> attempts_of (dl_config s') = attempts_of (dl_config s)"
proof -
  have ctx: "sent (fst (ne_ctxErr ne y)) = sent y" for y
    using ctxErr_sent [of y] by (cases "ne_ctxErr ne y") simp
  have emit: "sent (fst (ne_emit ne y ev)) = sent y" for y ev
    using emit_sent [of y ev] by (cases "ne_emit ne y ev") simp
  have posted: "sends (nat (attempts_of (dl_config s))) x x1" "attempts_of config = attempts_of (dl_config s)"
    if "fetch_token ne (fst (ne_ctxErr ne x)) (dl_config s) = (x0, Inr config)"
      "postRound ne env config url n body contexts redirects x0 a0 = (x1, a, r)"
    for x0 x1 config env url n body contexts redirects a0 a r
  proof -
    show c: "attempts_of config = attempts_of (dl_config s)"
      using fetch_token_config [OF that(1)] by (auto simp: attempts_of_def)
    have "sent x0 = sent x"
      using fetch_token_sent [OF that(1)] ctx by simp
    with postRound_sends [OF that(2)] c show "sends (nat (attempts_of (dl_config s))) x x1"
      by (simp add: sends_def)
  qed
  show "sends (nat (attempts_of (dl_config s))) x x'"
    using assms
  proof (cases rule: download_round_cases)
    case early
    then have "sent x' = sent x"
      using ctx emit fetch_token_sent by auto
    then show ?thesis by (simp add: sends_def)
  next
    case (failed x0 x1 config body a err)
    with posted(1) [OF failed(1,2)] recover_sent [OF failed(3)] show ?thesis by (simp add: sends_def)
  next
    case (answered x0 x1 config body a ctrl)
    with posted(1) [OF answered(1,2)] after_response_sent [OF answered(3)] show ?thesis by (simp add: sends_def)
  qed
  assume "out = NextRound \<or> out = SameRound"
  with assms show "attempts_of (dl_config s') = attempts_of (dl_config s)"
  proof (cases rule: download_round_cases)
    case (failed x0 x1 config body a err)
    with posted(2) [OF failed(1,2)] recover_attempts [OF failed(3)] show ?thesis by simp
  next
    case (answered x0 x1 config body a ctrl)
    with posted(2) [OF answered(1,2)] after_response_counts(5) [OF answered(3)] show ?thesis by simp
  qed auto
qed

lemma download_loop_sends:
  assumes "download_loop ne i lim resumed rnd x s = (x', s', res)"
  shows "sends (nat (attempts_of (dl_config s)) * budget_left lim rnd s) x x'"
  using assms
proof (induction "budget_left lim rnd s" arbitrary: rnd x s rule: less_induct)
  case less
  note unfold = download_loop.simps [of ne i lim resumed rnd x s]
  show ?case
  proof (cases "rnd \<ge> lim_maxRounds lim")
    case True
    with less.prems show ?thesis by (simp add: unfold sends_none)
  next
    case False
    obtain x1 s1 out where r: "download_round ne i lim resumed x s = (x1, s1, out)" by (metis surj_pair)
    note one = download_round_sends [OF r] and counts = download_round_counts [OF r, of rnd]
    let ?k = "nat (attempts_of (dl_config s))"
    have again: "sends (?k * budget_left lim rnd s) x x'"
      if "budget_left lim rnd' s1 < budget_left lim rnd s" "out = NextRound \<or> out = SameRound"
        "download_loop ne i lim resumed rnd' x1 s1 = (x', s', res)" for rnd'
    proof -
      have "sends (?k * budget_left lim rnd' s1) x1 x'"
        using less.hyps [OF that(1,3)] one(2) [OF that(2)] by simp
      moreover have "?k + ?k * budget_left lim rnd' s1 \<le> ?k * budget_left lim rnd s"
        using that(1) mult_le_mono2 [of "Suc (budget_left lim rnd' s1)" "budget_left lim rnd s" ?k] by simp
      ultimately show ?thesis
        using sends_trans [OF one(1)] by blast
    qed
    have "0 < budget_left lim rnd s"
      using False by (simp add: budget_left_def)
    then have "?k \<le> ?k * budget_left lim rnd s" by simp
    then have stop: "sends (?k * budget_left lim rnd s) x x1"
      using one(1) unfolding sends_def by (meson le_trans)
    show ?thesis
      using less.prems False r again stop counts
      by (cases out) (auto simp: unfold)
  qed
qed

lemma resume_refresh_sent:
  assumes "resume_refresh ne lim resumed x config = (x', r)"
  shows "sent x' = sent x" and "r = Inr (config', redirects) \<Longrightarrow> attempts_of config' = attempts_of config"
  using assms
  by (auto simp: resume_refresh_def Let_def refresh_attempts dest!: Refresh_sent
      split: if_splits option.splits prod.splits sum.splits)

lemma run_rounds_sends:
  assumes "run_rounds ne i lim resumed x s = (x', a, res)"
  shows "sends (nat (attempts_of (dl_config s)) * budget_left lim 0 s) x x'"
proof -
  obtain x1 s1 out where l: "download_loop ne i lim resumed 0 x s = (x1, s1, out)" by (metis surj_pair)
  then have "x' = x1"
    using assms by (auto simp: run_rounds_def split: sum.splits if_splits)
  with download_loop_sends [OF l] show ?thesis by simp
qed

lemma download_opened_sends:
  assumes "download_opened ne config lim checkpoint w x = (x', a, res)"
    and "download_limits_of config = Inr lim"
  shows "sends (nat (attempts_of config) * (MaxRounds + nat MaxSabrErrorRecoveries + nat MaxReloadAttempts)) x x'"
    (is "sends ?n x x'")
proof -
  obtain resumed a0 where a0: "restore_track (cfg_Format config) (lim_expectedDurationMs lim) (lim_maxBytes lim)
      checkpoint w = (resumed, a0)" by fastforce
  obtain x1 e where emit: "(if resumed then ne_emit ne x (KindProgress (ta_totalWritten a0) True) else (x, None)) = (x1, e)"
    by fastforce
  obtain x2 r where ref: "resume_refresh ne lim resumed x1 config = (x2, r)" by fastforce
  have x1: "sent x1 = sent x"
    using emit by (auto dest: emit_sent split: if_splits)
  note x2 = resume_refresh_sent [OF ref]
  have "x' = x1 \<or> x' = x2 \<or> (\<exists>config' redirects. r = Inr (config', redirects) \<and>
      run_rounds ne (identityFromConfig config) lim resumed x2 (start_download config' redirects resumed a0) = (x', a, res))"
    using assms(1) a0 emit ref by (auto simp: download_opened_def split: option.splits sum.splits)
  then show ?thesis
  proof (elim disjE exE conjE)
    fix config' redirects
    assume r: "r = Inr (config', redirects)"
      "run_rounds ne (identityFromConfig config) lim resumed x2 (start_download config' redirects resumed a0) = (x', a, res)"
    let ?s = "start_download config' redirects resumed a0"
    have "budget_left lim 0 ?s \<le> MaxRounds + nat MaxSabrErrorRecoveries + nat MaxReloadAttempts"
      using assms(2) clamp_bounds [of "int MaxRounds" "cfg_MaxRounds config"]
        clamp_bounds [of MaxSabrErrorRecoveries "cfg_MaxSabrErrorRecoveries config"]
        clamp_bounds [of MaxReloadAttempts "cfg_MaxReloadAttempts config"]
      by (auto simp: download_limits_of_def bind_res_Inr_iff budget_left_def limits split: if_splits)
    then have "nat (attempts_of (dl_config ?s)) * budget_left lim 0 ?s \<le> ?n"
      using x2(2) [OF r(1)] by simp
    with run_rounds_sends [OF r(2)] x1 x2(1) show ?thesis
      unfolding sends_def by (metis le_trans)
  qed (use x1 x2(1) in \<open>simp_all add: sends_none\<close>)
qed

lemma Download_sends:
  assumes "Download ne config saved part faults x = (x', w, res)"
  shows "sends 6900 x x'"
proof -
  have emit: "sent (fst (ne_emit ne y ev)) = sent y" for y ev
    using emit_sent [of y ev] by (cases "ne_emit ne y ev") simp
  show ?thesis
    using assms
  proof (cases rule: Download_cases)
    case (opened lim checkpoint w1 x1 a res1)
    have "attempts_of config \<le> 100"
      using opened(1) by (auto simp: download_limits_of_def maxSABRAttempts_def split: if_splits)
    then have "nat (attempts_of config) * (MaxRounds + nat MaxSabrErrorRecoveries + nat MaxReloadAttempts) \<le> 6900"
      by (simp add: limits)
    with download_opened_sends [OF opened(3,1)] emit opened(7) show ?thesis
      unfolding sends_def by (metis le_trans)
  qed (simp_all add: sends_none emit)
qed

end

section \<open>Properties\<close>





definition sample_seg :: seg where
  "sample_seg = \<lparr>seg_data = [20, 21], seg_ms = 5000, seg_range = \<lparr>tr_StartTicks = 0, tr_DurationTicks = 0, tr_Timescale = 0\<rparr>\<rparr>"

definition sample_ended_track :: "disk trackAssembler" where
  "sample_ended_track = (newTrackAssembler (cfg_Format sample_config) 5000
      \<lparr>of_content = [10, 11, 20, 21], of_faults = [], of_saved = None\<rparr> MaxMediaBytes)
    \<lparr>ta_remaining := MaxMediaBytes - 4, ta_totalWritten := 4, ta_initWritten := True,
     ta_initDigest := hashSegment [10, 11], ta_initLength := 2, ta_formatVerified := True, ta_hasSequence := True,
     ta_nextSequence := 1, ta_cumulativeMs := 5000,
     ta_bufferedRanges := log_ranges (cfg_Format sample_config) [sample_seg],
     ta_writtenSequences := fmupd 0 (hashSegment [20, 21]) fmempty,
     ta_segmentLengths := fmupd 0 2 fmempty, ta_endOfTrackDone := True\<rparr>"

lemma sample_ended_assembled: "assembled of_content MaxMediaBytes sample_ended_track (Some [10, 11]) [sample_seg]"
  by (auto simp: sample_ended_track_def assembled_def newTrackAssembler_def log_bytes_def log_table_def log_ms_def
      sample_seg_def limits wrap64_def unat_eq_0)

lemma sample_checkpoint_exists:
  "\<exists>st. snapshotCheckpoint sample_ended_track sample_identity = Inr st"
  by (rule snapshot_possible [OF sample_ended_assembled _ _ _ _ _ _ _ _ _ sample_identity_ok])
    (simp_all add: sample_ended_track_def newTrackAssembler_def sample_seg_def limits)

lemma sample_config_ok:
  "validate_config sample_config = Inr ()"
  "\<exists>lim. download_limits_of sample_config = Inr lim \<and> lim_maxBytes lim = MaxMediaBytes"
proof -
  have "\<exists>u. ValidateSABRURL ''https://a.googlevideo.com/v'' = Inr u"
    by (rule exI [of _ "zeroURL\<lparr>url_Scheme := ''https'', url_Host := ''a.googlevideo.com'', url_Path := ''/v''\<rparr>"])
      code_simp
  then show "validate_config sample_config = Inr ()"
    by (auto simp: validate_config_def sample_config_def validateResumeVideoID_def ContainsAny_def limits)
  show "\<exists>lim. download_limits_of sample_config = Inr lim \<and> lim_maxBytes lim = MaxMediaBytes"
    by (simp add: download_limits_of_def attempts_of_def sample_config_def maxSABRAttempts_def expectedDurationMs_def
        clamp_def limits go_div_pos)
qed

definition sample_net :: "(unit, byteReader) net_env" where
  "sample_net = \<lparr>ne_ctxErr = (\<lambda>x. (x, None)), ne_do = (\<lambda>x r. (x, Inl (EnvErr 3))), ne_poll = uncancelled,
     ne_read = byteReader_Read, ne_emit = (\<lambda>x ev. (x, None)), ne_wait = (\<lambda>x d. (x, None)),
     ne_policyBackoffWait = (\<lambda>x d. (x, None)), ne_Reload = None, ne_Refresh = None, ne_POTokenSource = None\<rparr>"


end
