(* ===== verification/Arbiter.thy ===== *)
theory Arbiter
  imports Prelude
begin

text \<open>
  The publication arbiter of \<open>engine/publication_arbiter.go\<close>, which decides between the cancellation of a run and the
  publication of its output. Every method holds the mutex from its first look at the state to its last, so that whatever
  any number of goroutines do is a sequence of these sections, in any order: \<open>arbiter_run\<close>. \<open>BeginCancel\<close> and
  \<open>BeginPublication\<close> are one turn of their loops; a goroutine that waits keeps the channel it has read and takes another
  turn when the channel is closed. Guards and channels are numbered in the order of their allocation; a
  channel is closed once a newer one has taken its place. A panic ends the call and leaves the arbiter as it is.
\<close>

section \<open>State\<close>

datatype publicationArbiterState =
    publicationOpen | cancelReserved | cancelWon | publicationReserved | publicationWon | publicationIndeterminate

datatype arbiter_error =
    ErrAlreadyPublished | ErrCancelAlreadyAccepted | ErrCancelWon | ErrCompletionInProgress
  | ErrPublicationIndeterminate | CtxErr nat

record PublicationArbiter =
  pa_state :: publicationArbiterState
  pa_activeGuard :: "nat option"
  pa_changed :: "nat option"
  pa_guards :: nat

text \<open>A reservation of this arbiter; the zero value of the type has neither arbiter nor guard.\<close>

record reservation =
  res_arbiter :: bool
  res_guard :: "nat option"

definition NewPublicationArbiter :: PublicationArbiter where
  "NewPublicationArbiter = \<lparr>pa_state = publicationOpen, pa_activeGuard = None, pa_changed = Some 0, pa_guards = 0\<rparr>"

definition zero_arbiter :: PublicationArbiter where
  "zero_arbiter = \<lparr>pa_state = publicationOpen, pa_activeGuard = None, pa_changed = None, pa_guards = 0\<rparr>"

definition channel_closed :: "PublicationArbiter \<Rightarrow> nat \<Rightarrow> bool" where
  "channel_closed a ch \<longleftrightarrow> (case pa_changed a of None \<Rightarrow> False | Some cur \<Rightarrow> ch < cur)"

section \<open>Operations\<close>

datatype outcome = Granted reservation | Refused "arbiter_error list" | Waits nat bool | Finished | Panics

definition initializeLocked :: "PublicationArbiter \<Rightarrow> PublicationArbiter" where
  "initializeLocked a = (if pa_changed a = None then a\<lparr>pa_changed := Some 0\<rparr> else a)"

text \<open>Closing a \<open>nil\<close> channel panics.\<close>

definition signalChangeLocked :: "PublicationArbiter \<Rightarrow> PublicationArbiter option" where
  "signalChangeLocked a = map_option (\<lambda>ch. a\<lparr>pa_changed := Some (ch + 1)\<rparr>) (pa_changed a)"

definition reserve :: "PublicationArbiter \<Rightarrow> publicationArbiterState \<Rightarrow> PublicationArbiter \<times> outcome" where
  "reserve a state =
     (let guard = pa_guards a;
          a' = a\<lparr>pa_state := state, pa_guards := guard + 1, pa_activeGuard := Some guard\<rparr>
      in (case signalChangeLocked a' of
            None \<Rightarrow> (a', Panics)
          | Some a' \<Rightarrow> (a', Granted \<lparr>res_arbiter = True, res_guard = Some guard\<rparr>)))"

text \<open>The two looks at the context, before the lock and inside it, are arguments.\<close>

definition BeginCancel :: "nat option \<Rightarrow> nat option \<Rightarrow> PublicationArbiter \<Rightarrow> PublicationArbiter \<times> outcome" where
  "BeginCancel early late a =
     (case early of
        Some e \<Rightarrow> (a, Refused [CtxErr e])
      | None \<Rightarrow>
          let a = initializeLocked a
          in (case pa_state a of
                publicationOpen \<Rightarrow>
                  (case late of Some e \<Rightarrow> (a, Refused [CtxErr e]) | None \<Rightarrow> reserve a cancelReserved)
              | cancelWon \<Rightarrow> (a, Refused [ErrCancelAlreadyAccepted])
              | publicationWon \<Rightarrow> (a, Refused [ErrAlreadyPublished])
              | publicationIndeterminate \<Rightarrow> (a, Refused [ErrPublicationIndeterminate])
              | _ \<Rightarrow> (a, Waits (the (pa_changed a)) (pa_state a = publicationReserved))))"

definition BeginPublication :: "nat option \<Rightarrow> nat option \<Rightarrow> PublicationArbiter \<Rightarrow> PublicationArbiter \<times> outcome" where
  "BeginPublication early late a =
     (case early of
        Some e \<Rightarrow> (a, Refused [CtxErr e])
      | None \<Rightarrow>
          let a = initializeLocked a
          in (case pa_state a of
                publicationOpen \<Rightarrow>
                  (case late of Some e \<Rightarrow> (a, Refused [CtxErr e]) | None \<Rightarrow> reserve a publicationReserved)
              | cancelWon \<Rightarrow> (a, Refused [ErrCancelWon])
              | publicationWon \<Rightarrow> (a, Refused [ErrAlreadyPublished])
              | publicationIndeterminate \<Rightarrow> (a, Refused [ErrPublicationIndeterminate])
              | _ \<Rightarrow> (a, Waits (the (pa_changed a)) False)))"

text \<open>What a waiting \<open>BeginCancel\<close> returns when its context ends first.\<close>

definition cancel_expired :: "bool \<Rightarrow> nat \<Rightarrow> outcome" where
  "cancel_expired waitingOnPublication e =
     Refused (if waitingOnPublication then [ErrCompletionInProgress, CtxErr e] else [CtxErr e])"

text \<open>
  The methods of a reservation: it must be the active one in the expected state; then the state changes, and the
  guard is released or kept. A \<open>nil\<close> reservation is \<open>None\<close>.
\<close>

definition conclude ::
    "publicationArbiterState \<Rightarrow> publicationArbiterState \<Rightarrow> bool \<Rightarrow> reservation option \<Rightarrow> PublicationArbiter \<Rightarrow>
      PublicationArbiter \<times> outcome" where
  "conclude expected next_state release r a =
     (case r of
        None \<Rightarrow> (a, Panics)
      | Some r \<Rightarrow>
          if \<not> res_arbiter r then (a, Panics)
          else if res_guard r = None \<or> pa_activeGuard a \<noteq> res_guard r \<or> pa_state a \<noteq> expected then (a, Panics)
          else let a = a\<lparr>pa_state := next_state\<rparr>;
                   a = (if release then a\<lparr>pa_activeGuard := None\<rparr> else a)
          in (case signalChangeLocked a of None \<Rightarrow> (a, Panics) | Some a \<Rightarrow> (a, Finished)))"

definition WinCancel :: "reservation option \<Rightarrow> PublicationArbiter \<Rightarrow> PublicationArbiter \<times> outcome" where
  "WinCancel = conclude cancelReserved cancelWon True"

definition AbortCancel :: "reservation option \<Rightarrow> PublicationArbiter \<Rightarrow> PublicationArbiter \<times> outcome" where
  "AbortCancel = conclude cancelReserved publicationOpen True"

definition MarkDestinationReplaced :: "reservation option \<Rightarrow> PublicationArbiter \<Rightarrow> PublicationArbiter \<times> outcome" where
  "MarkDestinationReplaced = conclude publicationReserved publicationWon False"

definition FinishPublication :: "reservation option \<Rightarrow> PublicationArbiter \<Rightarrow> PublicationArbiter \<times> outcome" where
  "FinishPublication = conclude publicationWon publicationWon True"

definition MarkIndeterminate :: "reservation option \<Rightarrow> PublicationArbiter \<Rightarrow> PublicationArbiter \<times> outcome" where
  "MarkIndeterminate = conclude publicationReserved publicationIndeterminate True"

definition AbortBeforeReplace :: "reservation option \<Rightarrow> PublicationArbiter \<Rightarrow> PublicationArbiter \<times> outcome" where
  "AbortBeforeReplace = conclude publicationReserved publicationOpen True"

section \<open>Interleavings\<close>

datatype call =
    CBeginCancel "nat option" "nat option" | CBeginPublication "nat option" "nat option"
  | CWinCancel "reservation option" | CAbortCancel "reservation option"
  | CMarkDestinationReplaced "reservation option" | CFinishPublication "reservation option"
  | CMarkIndeterminate "reservation option" | CAbortBeforeReplace "reservation option"

fun perform :: "call \<Rightarrow> PublicationArbiter \<Rightarrow> PublicationArbiter \<times> outcome" where
  "perform (CBeginCancel e l) = BeginCancel e l"
| "perform (CBeginPublication e l) = BeginPublication e l"
| "perform (CWinCancel r) = WinCancel r"
| "perform (CAbortCancel r) = AbortCancel r"
| "perform (CMarkDestinationReplaced r) = MarkDestinationReplaced r"
| "perform (CFinishPublication r) = FinishPublication r"
| "perform (CMarkIndeterminate r) = MarkIndeterminate r"
| "perform (CAbortBeforeReplace r) = AbortBeforeReplace r"

text \<open>The calls made so far, the latest last, with what they returned, and the arbiter they lead to.\<close>

inductive arbiter_run :: "PublicationArbiter \<Rightarrow> (call \<times> outcome) list \<Rightarrow> PublicationArbiter \<Rightarrow> bool" for start where
  no_call: "arbiter_run start [] start"
| one_call: "arbiter_run start h a \<Longrightarrow> perform c a = (a', out) \<Longrightarrow> arbiter_run start (h @ [(c, out)]) a'"

inductive_cases arbiter_run_snocE: "arbiter_run start (h @ [s]) a"

text \<open>Which calls decide the run for good, which grant and which release a reservation.\<close>

fun decides :: "call \<times> outcome \<Rightarrow> bool" where
  "decides (CWinCancel r, Finished) = True"
| "decides (CMarkDestinationReplaced r, Finished) = True"
| "decides (CMarkIndeterminate r, Finished) = True"
| "decides _ = False"

fun grants :: "call \<times> outcome \<Rightarrow> bool" where
  "grants (c, Granted r) = True"
| "grants _ = False"

fun releases :: "call \<times> outcome \<Rightarrow> bool" where
  "releases (CMarkDestinationReplaced r, Finished) = False"
| "releases (c, Finished) = True"
| "releases _ = False"

definition count :: "('a \<Rightarrow> bool) \<Rightarrow> 'a list \<Rightarrow> nat" where
  "count P xs = length (filter P xs)"

lemma count_simps [simp]:
  "count P [] = 0" "count P (xs @ [x]) = count P xs + (if P x then 1 else 0)"
  by (simp_all add: count_def)

lemma unfinished [simp]:
  "\<not> decides (c, Refused es)" "\<not> decides (c, Waits ch w)" "\<not> decides (c, Granted r)" "\<not> decides (c, Panics)"
  "\<not> releases (c, Refused es)" "\<not> releases (c, Waits ch w)" "\<not> releases (c, Granted r)" "\<not> releases (c, Panics)"
  by (cases c; simp)+

lemma initializeLocked_fields [simp]:
  "pa_state (initializeLocked a) = pa_state a" "pa_activeGuard (initializeLocked a) = pa_activeGuard a"
  "pa_guards (initializeLocked a) = pa_guards a" "pa_changed (initializeLocked a) \<noteq> None"
  by (simp_all add: initializeLocked_def)

section \<open>The invariant\<close>

definition decided :: "PublicationArbiter \<Rightarrow> bool" where
  "decided a \<longleftrightarrow> pa_state a \<in> {cancelWon, publicationWon, publicationIndeterminate}"

definition arbiter_ok :: "(call \<times> outcome) list \<Rightarrow> PublicationArbiter \<Rightarrow> bool" where
  "arbiter_ok h a \<longleftrightarrow>
     count decides h = (if decided a then 1 else 0) \<and>
     count grants h = count releases h + (if pa_activeGuard a = None then 0 else 1) \<and>
     (pa_state a \<in> {publicationOpen, cancelWon, publicationIndeterminate} \<longrightarrow> pa_activeGuard a = None) \<and>
     (pa_state a \<in> {cancelReserved, publicationReserved} \<longrightarrow> pa_activeGuard a \<noteq> None) \<and>
     (pa_changed a = None \<longrightarrow> pa_state a = publicationOpen) \<and>
     (\<forall>g. pa_activeGuard a = Some g \<longrightarrow> g < pa_guards a)"

lemmas operation_defs =
  WinCancel_def AbortCancel_def MarkDestinationReplaced_def FinishPublication_def MarkIndeterminate_def
  AbortBeforeReplace_def

lemma conclude_cases:
  assumes "conclude expected next_state release r a = (a', out)" and "arbiter_ok h a"
  shows "(a' = a \<and> out = Panics) \<or>
    (\<exists>ch g. out = Finished \<and> pa_changed a = Some ch \<and> pa_activeGuard a = Some g \<and> pa_state a = expected \<and>
       a' = a\<lparr>pa_state := next_state, pa_activeGuard := (if release then None else Some g), pa_changed := Some (ch + 1)\<rparr>)"
  using assms
  by (auto simp: conclude_def signalChangeLocked_def arbiter_ok_def Let_def split: option.splits if_splits)

lemma reserve_eq:
  "pa_changed a = Some ch \<Longrightarrow> reserve a state =
     (a\<lparr>pa_state := state, pa_activeGuard := Some (pa_guards a), pa_changed := Some (ch + 1), pa_guards := pa_guards a + 1\<rparr>,
      Granted \<lparr>res_arbiter = True, res_guard = Some (pa_guards a)\<rparr>)"
  by (simp add: reserve_def signalChangeLocked_def Let_def)

lemma begin_cases:
  assumes "perform c a = (a', out)" and "c = CBeginCancel e l \<or> c = CBeginPublication e l"
  shows "(\<exists>es. out = Refused es \<and> a' \<in> {a, initializeLocked a}) \<or>
    (\<exists>ch w. out = Waits ch w \<and> a' = initializeLocked a \<and> pa_changed a' = Some ch \<and>
       pa_state a \<in> {cancelReserved, publicationReserved}) \<or>
    (\<exists>ch r state. out = Granted r \<and> pa_state a = publicationOpen \<and> state \<in> {cancelReserved, publicationReserved} \<and>
       pa_changed (initializeLocked a) = Some ch \<and>
       a' = a\<lparr>pa_state := state, pa_activeGuard := Some (pa_guards a), pa_changed := Some (ch + 1), pa_guards := pa_guards a + 1\<rparr>)"
proof -
  obtain ch where ch: "pa_changed (initializeLocked a) = Some ch" "pa_state (initializeLocked a) = pa_state a"
    "pa_guards (initializeLocked a) = pa_guards a"
    by (cases "pa_changed a") (auto simp: initializeLocked_def)
  have same: "(initializeLocked a)\<lparr>pa_state := x, pa_activeGuard := y, pa_changed := z, pa_guards := u\<rparr> =
      a\<lparr>pa_state := x, pa_activeGuard := y, pa_changed := z, pa_guards := u\<rparr>" for x y z u
    by (simp add: initializeLocked_def)
  show ?thesis
    using assms ch reserve_eq [OF ch(1)]
    by (auto simp: BeginCancel_def BeginPublication_def Let_def same split: option.splits publicationArbiterState.splits)
qed

lemma call_kinds:
  obtains (enter) e l where "c = CBeginCancel e l \<or> c = CBeginPublication e l"
  | (leave) expected next_state release r where "perform c = conclude expected next_state release r"
      "(c, expected, next_state, release) \<in> {(CWinCancel r, cancelReserved, cancelWon, True),
         (CAbortCancel r, cancelReserved, publicationOpen, True),
         (CMarkDestinationReplaced r, publicationReserved, publicationWon, False),
         (CFinishPublication r, publicationWon, publicationWon, True),
         (CMarkIndeterminate r, publicationReserved, publicationIndeterminate, True),
         (CAbortBeforeReplace r, publicationReserved, publicationOpen, True)}"
  by (cases c) (auto simp: operation_defs)

lemma arbiter_ok_idle:
  "\<not> decides s \<Longrightarrow> \<not> grants s \<Longrightarrow> \<not> releases s \<Longrightarrow> arbiter_ok (h @ [s]) a = arbiter_ok h a"
  by (simp add: arbiter_ok_def)

lemma perform_ok:
  assumes "arbiter_ok h a" and "perform c a = (a', out)"
  shows "arbiter_ok (h @ [(c, out)]) a'"
proof (cases c rule: call_kinds)
  case (enter e l)
  have same: "arbiter_ok h (initializeLocked a)"
    using assms(1) by (simp add: arbiter_ok_def decided_def)
  from begin_cases [OF assms(2) enter] show ?thesis
  proof (elim disjE exE conjE)
    fix es assume "out = Refused es" "a' \<in> {a, initializeLocked a}"
    with same assms(1) show ?thesis by (elim insertE) (simp_all add: arbiter_ok_idle)
  next
    fix ch w assume "out = Waits ch w" "a' = initializeLocked a"
    with same show ?thesis by (simp add: arbiter_ok_idle)
  next
    fix ch r state
    assume "out = Granted r" "pa_state a = publicationOpen" "state \<in> {cancelReserved, publicationReserved}"
      "a' = a\<lparr>pa_state := state, pa_activeGuard := Some (pa_guards a), pa_changed := Some (ch + 1), pa_guards := pa_guards a + 1\<rparr>"
    with assms(1) show ?thesis by (auto simp: arbiter_ok_def decided_def)
  qed
next
  case (leave expected next_state release r)
  from conclude_cases [OF assms(2) [unfolded leave(1)] assms(1)] show ?thesis
  proof (elim disjE exE conjE)
    fix ch g
    assume "out = Finished" "pa_changed a = Some ch" "pa_activeGuard a = Some g" "pa_state a = expected"
      "a' = a\<lparr>pa_state := next_state, pa_activeGuard := (if release then None else Some g), pa_changed := Some (ch + 1)\<rparr>"
    with leave(2) assms(1) show ?thesis
      unfolding arbiter_ok_def decided_def by (elim insertE emptyE) simp_all
  qed (use assms(1) in \<open>simp add: arbiter_ok_idle\<close>)
qed

definition fresh :: "PublicationArbiter \<Rightarrow> bool" where
  "fresh a \<longleftrightarrow> a = NewPublicationArbiter \<or> a = zero_arbiter"

lemma run_ok: "arbiter_run start h a \<Longrightarrow> fresh start \<Longrightarrow> arbiter_ok h a"
proof (induction rule: arbiter_run.induct)
  case no_call
  then show ?case
    by (auto simp: fresh_def arbiter_ok_def decided_def NewPublicationArbiter_def zero_arbiter_def)
qed (simp add: perform_ok)

lemma decided_stays:
  assumes "decided a" and "arbiter_ok h a" and "perform c a = (a', out)"
  shows "decided a' \<and> \<not> grants (c, out) \<and> \<not> decides (c, out)"
proof (cases c rule: call_kinds)
  case (enter e l)
  from begin_cases [OF assms(3) enter] assms(1) show ?thesis
    by (elim disjE exE conjE) (auto simp: decided_def)
next
  case (leave expected next_state release r)
  from conclude_cases [OF assms(3) [unfolded leave(1)] assms(2)] leave(2) assms(1) show ?thesis
    by (auto simp: decided_def)
qed

lemma decision_is_last:
  assumes "arbiter_run start h a" and "fresh start" and "i < j" and "j < length h" and "decides (h ! i)"
  shows "\<not> grants (h ! j) \<and> \<not> decides (h ! j)"
  using assms
proof (induction arbitrary: j rule: arbiter_run.induct)
  case (one_call h a c a' out)
  show ?case
  proof (cases "j < length h")
    case True
    with one_call show ?thesis by (simp add: nth_append)
  next
    case False
    then have j: "j = length h" "decides (h ! i)" "i < length h"
      using one_call.prems by (auto simp: nth_append)
    then have "0 < count decides h"
      by (auto simp: count_def filter_empty_conv intro!: bexI [of _ "h ! i"])
    with run_ok [OF one_call.hyps(1) one_call.prems(1)] have "decided a"
      by (auto simp: arbiter_ok_def split: if_splits)
    from decided_stays [OF this run_ok [OF one_call.hyps(1) one_call.prems(1)] one_call.hyps(2)] j(1) show ?thesis
      by (simp add: nth_append)
  qed
qed simp

text \<open>Channels: whoever waits holds the current channel, and a change of the state or the guard closes it.\<close>

lemma change_closes:
  assumes "arbiter_ok h a" and "perform c a = (a', out)"
  shows "\<exists>n. (case pa_changed a of None \<Rightarrow> True | Some ch \<Rightarrow> pa_changed a' = Some (ch + n)) \<and>
    (n = 0 \<longrightarrow> pa_state a' = pa_state a \<and> pa_activeGuard a' = pa_activeGuard a \<or> pa_changed a = None)"
proof (cases c rule: call_kinds)
  case (enter e l)
  show ?thesis
    using begin_cases [OF assms(2) enter] by (auto simp: initializeLocked_def split: option.splits if_splits)
next
  case (leave expected next_state release r)
  from conclude_cases [OF assms(2) [unfolded leave(1)] assms(1)] show ?thesis
    by (auto split: option.splits)
qed

lemma run_closes:
  assumes "arbiter_run a2 h' a3" and "arbiter_ok h a2" and "pa_changed a2 = Some ch"
  shows "\<exists>n. pa_changed a3 = Some (ch + n) \<and> (n = 0 \<longrightarrow> pa_state a3 = pa_state a2 \<and> pa_activeGuard a3 = pa_activeGuard a2) \<and>
    arbiter_ok (h @ h') a3"
  using assms
proof (induction rule: arbiter_run.induct)
  case (one_call h' a c a' out)
  then obtain n where n: "pa_changed a = Some (ch + n)" "arbiter_ok (h @ h') a"
    "n = 0 \<longrightarrow> pa_state a = pa_state a2 \<and> pa_activeGuard a = pa_activeGuard a2"
    by blast
  obtain m where "pa_changed a' = Some (ch + n + m)"
    "m = 0 \<longrightarrow> pa_state a' = pa_state a \<and> pa_activeGuard a' = pa_activeGuard a"
    using change_closes [OF n(2) one_call.hyps(2)] n(1) by auto
  with n perform_ok [OF n(2) one_call.hyps(2)] show ?case
    by (intro exI [of _ "n + m"]) auto
qed simp

section \<open>Properties\<close>

text \<open>
  C25. Cancellation and publication never both win. Whatever calls any number of goroutines make, with whatever reservations
  and in whatever order, at most one call ever decides the run (cancellation wins, the destination is
  replaced, or the outcome is indeterminate), no reservation is granted after the decision, and at every moment
  at most one granted reservation has not been released.
\<close>

theorem arbiter_decides_once:
  assumes "arbiter_run start h a" and "start = NewPublicationArbiter \<or> start = zero_arbiter"
  shows "count decides h \<le> 1 \<and>
    (\<forall>i j. i < j \<and> j < length h \<and> decides (h ! i) \<longrightarrow> \<not> grants (h ! j)) \<and>
    count grants h \<le> count releases h + 1 \<and> count releases h \<le> count grants h"
proof -
  have start: "fresh start"
    using assms(2) by (simp add: fresh_def)
  have "count decides h \<le> 1 \<and> count grants h \<le> count releases h + 1 \<and> count releases h \<le> count grants h"
    using run_ok [OF assms(1) start] by (simp add: arbiter_ok_def)
  with decision_is_last [OF assms(1) start] show ?thesis by blast
qed

text \<open>
  C26. No wake-up is lost: the channel with which \<open>BeginCancel\<close> or \<open>BeginPublication\<close> starts to wait is closed as soon as the
  arbiter is no longer in the state, or no longer under the reservation, that made it wait, whatever
  happened in between.
\<close>

theorem waiters_are_woken:
  assumes "arbiter_run start h a" and "start = NewPublicationArbiter \<or> start = zero_arbiter"
    and "perform c a = (a1, Waits ch w)" and "arbiter_run a1 h' a2"
    and "pa_state a2 \<noteq> pa_state a1 \<or> pa_activeGuard a2 \<noteq> pa_activeGuard a1"
  shows "channel_closed a2 ch"
proof -
  have ok: "arbiter_ok h a"
    using run_ok [OF assms(1)] assms(2) by (simp add: fresh_def)
  have "pa_changed a1 = Some ch"
  proof (cases c rule: call_kinds)
    case (enter e l)
    from begin_cases [OF assms(3) enter] show ?thesis by auto
  next
    case (leave expected next_state release r)
    from conclude_cases [OF assms(3) [unfolded leave(1)] ok] show ?thesis by auto
  qed
  from run_closes [OF assms(4) perform_ok [OF ok assms(3)] this] assms(5) show ?thesis
    by (auto simp: channel_closed_def)
qed

text \<open>A publication is reserved, a cancellation waits for it, the publication wins.\<close>

lemma sample_arbiter:
  defines "r \<equiv> \<lparr>res_arbiter = True, res_guard = Some 0\<rparr>"
  shows "perform (CBeginPublication None None) NewPublicationArbiter =
      (\<lparr>pa_state = publicationReserved, pa_activeGuard = Some 0, pa_changed = Some 1, pa_guards = 1\<rparr>, Granted r)"
    and "perform (CBeginCancel None None)
      \<lparr>pa_state = publicationReserved, pa_activeGuard = Some 0, pa_changed = Some 1, pa_guards = 1\<rparr> =
      (\<lparr>pa_state = publicationReserved, pa_activeGuard = Some 0, pa_changed = Some 1, pa_guards = 1\<rparr>, Waits 1 True)"
    and "perform (CMarkDestinationReplaced (Some r))
      \<lparr>pa_state = publicationReserved, pa_activeGuard = Some 0, pa_changed = Some 1, pa_guards = 1\<rparr> =
      (\<lparr>pa_state = publicationWon, pa_activeGuard = Some 0, pa_changed = Some 2, pa_guards = 1\<rparr>, Finished)"
  by (simp_all add: r_def NewPublicationArbiter_def BeginPublication_def BeginCancel_def MarkDestinationReplaced_def
      conclude_def reserve_def signalChangeLocked_def initializeLocked_def Let_def)

theorem arbiter_decides_once_witness:
  "\<exists>h a. arbiter_run NewPublicationArbiter h a \<and> length h = 3 \<and> pa_state a = publicationWon \<and> count decides h \<le> 1"
proof -
  note run = one_call [OF one_call [OF one_call [OF no_call sample_arbiter(1)] sample_arbiter(2)] sample_arbiter(3)]
  from arbiter_decides_once [OF run] run show ?thesis
    by (intro exI) (rule conjI, assumption, simp)
qed

theorem waiters_are_woken_witness:
  "\<exists>a1 a2 h'. perform (CBeginCancel None None)
      \<lparr>pa_state = publicationReserved, pa_activeGuard = Some 0, pa_changed = Some 1, pa_guards = 1\<rparr> = (a1, Waits 1 True) \<and>
    arbiter_run a1 h' a2 \<and> pa_state a2 = publicationWon \<and> channel_closed a2 1"
proof -
  note after = one_call [OF no_call sample_arbiter(3)]
  have "channel_closed \<lparr>pa_state = publicationWon, pa_activeGuard = Some 0, pa_changed = Some 2, pa_guards = 1\<rparr> 1"
    by (rule waiters_are_woken [OF one_call [OF no_call sample_arbiter(1)] _ sample_arbiter(2) after]) simp_all
  with after sample_arbiter(2) show ?thesis
    by (intro exI conjI) (assumption | simp)+
qed

end
