(* ===== verification/Sidx.thy ===== *)
theory Sidx
  imports Prelude
begin

unbundle bit_operations_syntax

text \<open>
  The segment index of DASH, \<open>internal/protocol/dash/sidx.go\<close>: the parser of the \<open>sidx\<close> box and the byte ranges its
  references denote. The box format is also given the other way round (\<open>sidx_box\<close>), as the
  specification the parser is proved against. Errors are those of the file.
\<close>

section \<open>Data\<close>

datatype sidx_error =
    ErrInvalidSIDX | ErrSIDXTruncated | ErrSIDXVersion | ErrSIDXZeroTimescale | ErrSIDXZeroReference
  | ErrSIDXOverflow | ErrSIDXTooManyEntries | ErrSIDXBadBoxSize

definition maxSegmentsPerRepresentation :: nat where "maxSegmentsPerRepresentation = 100000"
definition maxSIDXReferences :: nat where "maxSIDXReferences = maxSegmentsPerRepresentation"

record SIDXReference =
  sr_ReferencedSize :: u32
  sr_SubsegmentDuration :: u32
  sr_StartsWithSAP :: bool
  sr_SAPType :: byte
  sr_SAPDeltaTime :: u32
  sr_IsIndex :: bool

record SIDX =
  sx_ReferenceID :: u32
  sx_Timescale :: u32
  sx_EarliestPresentationTime :: u64
  sx_FirstOffset :: u64
  sx_References :: "SIDXReference list"
  sx_BoxSize :: u64

record MediaRange =
  mr_Start :: i64
  mr_Length :: i64

definition HasHierarchicalReferences :: "SIDX \<Rightarrow> bool" where
  "HasHierarchicalReferences sidx = list_ex sr_IsIndex (sx_References sidx)"

section \<open>Byte ranges\<close>

definition sidx_addInt64 :: "i64 \<Rightarrow> i64 \<Rightarrow> sidx_error + i64" where
  "sidx_addInt64 a b =
     (if b > 0 \<and> a > MaxInt64 - b then Inl ErrSIDXOverflow
      else if b < 0 \<and> a < MinInt64 - b then Inl ErrSIDXOverflow
      else Inr (a + b))"

definition addUint64ToInt64 :: "i64 \<Rightarrow> u64 \<Rightarrow> sidx_error + i64" where
  "addUint64ToInt64 a b =
     (if uint b > MaxInt64 \<or> a > MaxInt64 - wrap64 (uint b) then Inl ErrSIDXOverflow
      else Inr (a + wrap64 (uint b)))"

fun ranges_from :: "i64 \<Rightarrow> SIDXReference list \<Rightarrow> sidx_error + MediaRange list" where
  "ranges_from start [] = Inr []"
| "ranges_from start (reference # rest) =
     (if sr_ReferencedSize reference = 0 then Inl ErrSIDXZeroReference
      else let len = uint (sr_ReferencedSize reference)
      in if start < 0 \<or> start > MaxInt64 - len then Inl ErrSIDXOverflow
         else (case ranges_from (start + len) rest of
                 Inl e \<Rightarrow> Inl e
               | Inr ranges \<Rightarrow> Inr (\<lparr>mr_Start = start, mr_Length = len\<rparr> # ranges)))"

definition MediaRanges :: "SIDX \<Rightarrow> i64 \<Rightarrow> sidx_error + MediaRange list" where
  "MediaRanges sidx baseOffset =
     (if sx_References sidx = [] then Inr []
      else (case sidx_addInt64 baseOffset (wrap64 (uint (sx_BoxSize sidx))) of
              Inl _ \<Rightarrow> Inl ErrSIDXOverflow
            | Inr start \<Rightarrow>
                (case addUint64ToInt64 start (sx_FirstOffset sidx) of
                   Inl _ \<Rightarrow> Inl ErrSIDXOverflow
                 | Inr start \<Rightarrow> ranges_from start (sx_References sidx))))"

section \<open>Parsing\<close>

definition be_word :: "byte list \<Rightarrow> 'a :: len word" where
  "be_word bs = foldl (\<lambda>acc b. push_bit 8 acc OR ucast b) 0 bs"

definition slice :: "byte list \<Rightarrow> nat \<Rightarrow> nat \<Rightarrow> byte list" where
  "slice bs from to = take (to - from) (drop from bs)"

definition be_u16 :: "byte list \<Rightarrow> nat \<Rightarrow> 16 word" where "be_u16 bs i = be_word (slice bs i (i + 2))"
definition be_u32 :: "byte list \<Rightarrow> nat \<Rightarrow> u32" where "be_u32 bs i = be_word (slice bs i (i + 4))"
definition be_u64 :: "byte list \<Rightarrow> nat \<Rightarrow> u64" where "be_u64 bs i = be_word (slice bs i (i + 8))"

definition parseBoxHeader :: "byte list \<Rightarrow> sidx_error + u64 \<times> nat \<times> string" where
  "parseBoxHeader data =
     (if length data < 8 then Inl ErrSIDXTruncated
      else let size32 = be_u32 data 0; boxType = str_of (slice data 4 8)
      in if size32 = 1 then
           (if length data < 16 then Inl ErrSIDXTruncated
            else let boxSize = be_u64 data 8
            in if boxSize < 16 then Inl ErrSIDXBadBoxSize else Inr (boxSize, 16, boxType))
         else if size32 = 0 then Inr (word_of_nat (length data), 8, boxType)
         else let boxSize = ucast size32
         in if boxSize < 8 then Inl ErrSIDXBadBoxSize else Inr (boxSize, 8, boxType))"

definition parse_reference :: "byte list \<Rightarrow> SIDXReference" where
  "parse_reference entry =
     (let rawSize = be_u32 entry 0; rawSAP = be_u32 entry 8
      in \<lparr>sr_ReferencedSize = rawSize AND 0x7FFFFFFF, sr_SubsegmentDuration = be_u32 entry 4,
          sr_StartsWithSAP = (drop_bit 31 rawSAP = 1), sr_SAPType = ucast (drop_bit 28 rawSAP AND 7),
          sr_SAPDeltaTime = rawSAP AND 0x0FFFFFFF, sr_IsIndex = (drop_bit 31 rawSize = 1)\<rparr>)"

fun parse_references :: "byte list \<Rightarrow> nat \<Rightarrow> nat \<Rightarrow> SIDXReference list" where
  "parse_references payload offset 0 = []"
| "parse_references payload offset (Suc n) =
     parse_reference (slice payload offset (offset + 12)) # parse_references payload (offset + 12) n"

definition parseSIDXBody :: "byte list \<Rightarrow> u64 \<Rightarrow> sidx_error + SIDX" where
  "parseSIDXBody payload boxSize =
     (if length payload < 4 then Inl ErrSIDXTruncated
      else let version = payload ! 0
      in if version > 1 then Inl ErrSIDXVersion
      else if length payload < 12 then Inl ErrSIDXTruncated
      else let referenceID = be_u32 payload 4; timescale = be_u32 payload 8
      in if timescale = 0 then Inl ErrSIDXZeroTimescale
      else (case (if version = 0 then
                    (if length payload < 20 then Inl ErrSIDXTruncated
                     else Inr (ucast (be_u32 payload 12), ucast (be_u32 payload 16), 20))
                  else
                    (if length payload < 28 then Inl ErrSIDXTruncated
                     else Inr (be_u64 payload 12, be_u64 payload 20, 28))) of
              Inl e \<Rightarrow> Inl e
            | Inr (earliest, firstOffset, offset) \<Rightarrow>
                if length payload < offset + 4 then Inl ErrSIDXTruncated
                else let referenceCount = unat (be_u16 payload (offset + 2)); offset = offset + 4;
                         sidx = \<lparr>sx_ReferenceID = referenceID, sx_Timescale = timescale,
                           sx_EarliestPresentationTime = earliest, sx_FirstOffset = firstOffset,
                           sx_References = [], sx_BoxSize = boxSize\<rparr>
                in if referenceCount = 0 then Inr sidx
                else if referenceCount > maxSIDXReferences then Inl ErrSIDXTooManyEntries
                else if length payload < offset + referenceCount * 12 then Inl ErrSIDXTruncated
                else Inr (sidx\<lparr>sx_References := parse_references payload offset referenceCount\<rparr>)))"

text \<open>A slice has fewer than \<open>2 ^ 63\<close> bytes, so that its length is its \<open>uint64\<close>.\<close>

lemma parseBoxHeader_progress:
  assumes "parseBoxHeader data = Inr (boxSize, headerSize, boxType)" and "length data < 2 ^ 63"
  shows "8 \<le> headerSize" "headerSize \<le> unat boxSize" "headerSize \<le> length data"
proof -
  have u: "unat (word_of_nat (length data) :: u64) = length data"
    using assms(2) by (simp add: unat_of_nat take_bit_nat_eq_self)
  have "\<not> (b :: u64) < 16 \<Longrightarrow> 16 \<le> unat b" "\<not> b < 8 \<Longrightarrow> 8 \<le> unat b" for b
    by (simp_all add: word_less_nat_alt)
  with assms u show "8 \<le> headerSize" "headerSize \<le> unat boxSize" "headerSize \<le> length data"
    by (auto simp: parseBoxHeader_def Let_def split: if_splits)
qed

function parse_boxes :: "byte list \<Rightarrow> nat \<Rightarrow> sidx_error + SIDX \<times> nat" where
  "parse_boxes data offset =
     (if offset \<ge> length data then Inl ErrInvalidSIDX
      else let remaining = drop offset data
      in (case parseBoxHeader remaining of
            Inl e \<Rightarrow> Inl e
          | Inr (boxSize, headerSize, boxType) \<Rightarrow>
              if boxType = ''sidx'' then
                (if unat boxSize > length remaining \<or> unat boxSize < headerSize then Inl ErrSIDXTruncated
                 else (case parseSIDXBody (slice remaining headerSize (unat boxSize)) boxSize of
                         Inl e \<Rightarrow> Inl e
                       | Inr sidx \<Rightarrow> Inr (sidx, offset)))
              else if boxSize = 0 then Inl ErrInvalidSIDX
              else if unat boxSize > length remaining then Inl ErrInvalidSIDX
              else parse_boxes data (offset + unat boxSize)))"
  by pat_completeness auto
termination
proof (relation "measure (\<lambda>(data, offset). length data - offset)")
  fix data :: "byte list" and offset and boxSize :: u64
  assume "\<not> length data \<le> offset" "boxSize \<noteq> 0"
  then show "((data, offset + unat boxSize), data, offset) \<in> measure (\<lambda>(data, offset). length data - offset)"
    using unat_eq_0 [of boxSize] by (simp add: diff_less_mono2)
qed simp

declare parse_boxes.simps [simp del]

definition ParseSIDX :: "byte list \<Rightarrow> sidx_error + SIDX \<times> nat" where
  "ParseSIDX data = parse_boxes data 0"

section \<open>Ranges in closed form\<close>

definition ref_sizes :: "SIDX \<Rightarrow> int list" where
  "ref_sizes s = map (\<lambda>r. uint (sr_ReferencedSize r)) (sx_References s)"

definition laid_out :: "int \<Rightarrow> int list \<Rightarrow> MediaRange list" where
  "laid_out start sizes =
     map (\<lambda>i. \<lparr>mr_Start = start + sum_list (take i sizes), mr_Length = sizes ! i\<rparr>) [0..<length sizes]"

lemma laid_out_Cons: "laid_out start (n # ns) = \<lparr>mr_Start = start, mr_Length = n\<rparr> # laid_out (start + n) ns"
  by (simp add: laid_out_def upt_conv_Cons map_Suc_upt [symmetric] add.assoc del: upt_Suc)

lemma ranges_from_iff:
  assumes "0 \<le> start" and "start \<le> MaxInt64"
  shows "ranges_from start refs = Inr rs \<longleftrightarrow>
    (\<forall>r \<in> set refs. sr_ReferencedSize r \<noteq> 0) \<and>
    start + sum_list (map (\<lambda>r. uint (sr_ReferencedSize r)) refs) \<le> MaxInt64 \<and>
    rs = laid_out start (map (\<lambda>r. uint (sr_ReferencedSize r)) refs)"
  using assms
proof (induction refs arbitrary: start rs)
  case Nil
  then show ?case by (auto simp: laid_out_def)
next
  case (Cons r refs)
  let ?n = "uint (sr_ReferencedSize r)"
  have pos: "0 \<le> sum_list (map (\<lambda>r. uint (sr_ReferencedSize r)) refs)"
    by (induction refs) auto
  show ?case
  proof (cases "sr_ReferencedSize r = 0 \<or> \<not> start + ?n \<le> MaxInt64")
    case True
    with pos Cons.prems show ?thesis by (auto simp: Let_def)
  next
    case False
    then have IH: "ranges_from (start + ?n) refs = Inr rs' \<longleftrightarrow>
        (\<forall>r \<in> set refs. sr_ReferencedSize r \<noteq> 0) \<and>
        start + ?n + sum_list (map (\<lambda>r. uint (sr_ReferencedSize r)) refs) \<le> MaxInt64 \<and>
        rs' = laid_out (start + ?n) (map (\<lambda>r. uint (sr_ReferencedSize r)) refs)" for rs'
      using Cons.prems by (intro Cons.IH) auto
    have "ranges_from start (r # refs) = Inr rs \<longleftrightarrow>
        (\<exists>rs'. ranges_from (start + ?n) refs = Inr rs' \<and> rs = \<lparr>mr_Start = start, mr_Length = ?n\<rparr> # rs')"
      using False Cons.prems by (auto simp: Let_def split: sum.splits)
    with False show ?thesis
      unfolding IH by (auto simp: laid_out_Cons add.assoc)
  qed
qed

lemma laid_out_bounds:
  assumes "r \<in> set (laid_out start sizes)" and "\<forall>n \<in> set sizes. 0 \<le> n"
  shows "start \<le> mr_Start r \<and> mr_Start r + mr_Length r \<le> start + sum_list sizes \<and> mr_Length r \<in> set sizes"
  using assms
proof (induction sizes arbitrary: start)
  case (Cons n ns)
  have "0 \<le> sum_list ns"
    using Cons.prems(2) by (induction ns) auto
  with Cons show ?case
    by (fastforce simp: laid_out_Cons)
qed (simp add: laid_out_def)

section \<open>The box format\<close>

definition be_bytes :: "nat \<Rightarrow> 'a :: len word \<Rightarrow> byte list" where
  "be_bytes n w = map (\<lambda>i. ucast (drop_bit (8 * (n - 1 - i)) w)) [0..<n]"

lemma length_be_bytes [simp]: "length (be_bytes n w) = n"
  by (simp add: be_bytes_def)

lemma be_word_snoc: "be_word (bs @ [b]) = push_bit 8 (be_word bs) OR ucast b"
  by (simp add: be_word_def)

lemma be_bytes_Suc: "be_bytes (Suc n) w = be_bytes n (drop_bit 8 w) @ [ucast w]"
  by (auto simp: be_bytes_def drop_bit_drop_bit Suc_diff_Suc intro!: arg_cong [where f = "\<lambda>k. ucast (drop_bit k w)"])

lemma be_word_be_bytes: "be_word (be_bytes n w) = take_bit (8 * n) (w :: 'a :: len word)"
proof (induction n arbitrary: w)
  case 0
  then show ?case by (simp add: be_word_def be_bytes_def)
next
  case (Suc n)
  have "be_word (be_bytes (Suc n) w) = push_bit 8 (take_bit (8 * n) (drop_bit 8 w)) OR ucast (ucast w :: byte)"
    by (simp add: be_bytes_Suc be_word_snoc Suc.IH)
  also have "\<dots> = take_bit (8 * Suc n) w"
    by (rule bit_eqI) (auto simp: bit_simps)
  finally show ?case .
qed

lemma be_word_full: "LENGTH('a) \<le> 8 * n \<Longrightarrow> be_word (be_bytes n w) = (w :: 'a :: len word)"
  by (simp add: be_word_be_bytes take_bit_word_eq_self)

lemma slice_append: "length xs = i \<Longrightarrow> slice (xs @ ys) (i + m) (i + n) = slice ys m n"
  by (simp add: slice_def)

lemma slice_here: "length xs = n \<Longrightarrow> slice (xs @ ys) 0 n = xs"
  by (simp add: slice_def)

lemma slice_split: "slice (xs @ ys) i j =
    (if j \<le> length xs then slice xs i j
     else if length xs \<le> i then slice ys (i - length xs) (j - length xs)
     else drop i xs @ take (j - length xs) ys)"
  by (auto simp: slice_def)

lemma slice_all: "n = length xs \<Longrightarrow> slice xs 0 n = xs"
  by (simp add: slice_def)

definition top_bit :: "bool \<Rightarrow> u32" where "top_bit b = push_bit 31 (of_bool b)"

lemma bit_top_bit [simp]: "bit (top_bit b) i \<longleftrightarrow> i = 31 \<and> b"
  by (auto simp: top_bit_def bit_simps)

definition reference_bytes :: "SIDXReference \<Rightarrow> byte list" where
  "reference_bytes r =
     be_bytes 4 (top_bit (sr_IsIndex r) OR sr_ReferencedSize r) @
     be_bytes 4 (sr_SubsegmentDuration r) @
     be_bytes 4 (top_bit (sr_StartsWithSAP r) OR push_bit 28 (ucast (sr_SAPType r) :: u32)
       OR sr_SAPDeltaTime r)"

definition reference_fits :: "SIDXReference \<Rightarrow> bool" where
  "reference_fits r \<longleftrightarrow> sr_ReferencedSize r = take_bit 31 (sr_ReferencedSize r) \<and>
     sr_SAPType r = take_bit 3 (sr_SAPType r) \<and> sr_SAPDeltaTime r = take_bit 28 (sr_SAPDeltaTime r)"

lemma length_reference_bytes [simp]: "length (reference_bytes r) = 12"
  by (simp add: reference_bytes_def)

lemma bit_beyond: "w = take_bit n w \<Longrightarrow> n \<le> i \<Longrightarrow> \<not> bit (w :: 'a :: len word) i"
  by (metis bit_take_bit_iff not_less)

lemma top_bit_alone: "(drop_bit 31 (w :: u32) = 1) = bit w 31"
proof -
  have "bit w (31 + n) \<longleftrightarrow> n = 0 \<and> bit w 31" for n
    using bit_imp_le_length [of w "31 + n"] by auto
  then have "drop_bit 31 w = of_bool (bit w 31)"
    by (intro bit_eqI) (auto simp: bit_simps)
  then show ?thesis by simp
qed

lemma masks: "(0x7FFFFFFF :: u32) = mask 31" "(0x0FFFFFFF :: u32) = mask 28" "(7 :: u32) = mask 3"
  by (simp_all add: mask_eq_exp_minus_1)

lemma parse_reference_bytes:
  assumes "reference_fits r"
  shows "parse_reference (reference_bytes r) = r"
proof -
  let ?size = "top_bit (sr_IsIndex r) OR sr_ReferencedSize r"
  let ?sap = "top_bit (sr_StartsWithSAP r) OR push_bit 28 (ucast (sr_SAPType r) :: u32)
       OR sr_SAPDeltaTime r"
  have raw: "be_u32 (reference_bytes r) 0 = ?size" "be_u32 (reference_bytes r) 4 = sr_SubsegmentDuration r"
      "be_u32 (reference_bytes r) 8 = ?sap"
    by (simp_all add: be_u32_def reference_bytes_def slice_def be_word_full)
  note fits = assms [unfolded reference_fits_def]
  have far: "31 \<le> i \<Longrightarrow> \<not> bit (sr_ReferencedSize r) i" "3 \<le> i \<Longrightarrow> \<not> bit (sr_SAPType r) i"
      "28 \<le> i \<Longrightarrow> \<not> bit (sr_SAPDeltaTime r) i" for i
    using fits bit_beyond by metis+
  have size: "take_bit 31 ?size = sr_ReferencedSize r"
    by (rule bit_eqI) (use far(1) in \<open>auto simp: bit_simps not_le [symmetric]\<close>)
  have sap: "ucast (take_bit 3 (drop_bit 28 ?sap)) = sr_SAPType r"
    by (rule bit_eqI) (use far(2,3) in \<open>auto simp: bit_simps not_le [symmetric]\<close>)
  have delta: "take_bit 28 ?sap = sr_SAPDeltaTime r"
    by (rule bit_eqI) (use far(3) in \<open>auto simp: bit_simps not_le [symmetric]\<close>)
  have top: "bit ?size 31 = sr_IsIndex r" "bit ?sap 31 = sr_StartsWithSAP r"
    using far by (auto simp: bit_simps)
  show ?thesis
    unfolding parse_reference_def Let_def raw masks take_bit_eq_mask [symmetric] top_bit_alone size sap delta top by simp
qed

lemma parse_references_bytes:
  assumes "list_all reference_fits rs"
  shows "parse_references (front @ concat (map reference_bytes rs) @ rest) (length front) (length rs) = rs"
  using assms
proof (induction rs arbitrary: front)
  case (Cons r rs)
  have "slice (front @ concat (map reference_bytes (r # rs)) @ rest) (length front) (length front + 12) = reference_bytes r"
    by (simp add: slice_def)
  with Cons.prems Cons.IH [of "front @ reference_bytes r"] show ?case
    by (simp add: parse_reference_bytes)
qed simp

text \<open>
  A body has the version (0 or 1), three bytes of flags and two reserved bytes, which the parser does not read,
  and may go on after the last reference.
\<close>

record sidx_layout =
  wide :: bool
  flags :: "byte \<times> byte \<times> byte"
  reserved :: "byte \<times> byte"
  trailing :: "byte list"

definition sidx_head :: "sidx_layout \<Rightarrow> SIDX \<Rightarrow> byte list" where
  "sidx_head l s =
     (case flags l of (a, b, c) \<Rightarrow> [if wide l then 1 else 0, a, b, c]) @
     be_bytes 4 (sx_ReferenceID s) @ be_bytes 4 (sx_Timescale s) @
     (if wide l then be_bytes 8 (sx_EarliestPresentationTime s) @ be_bytes 8 (sx_FirstOffset s)
      else be_bytes 4 (ucast (sx_EarliestPresentationTime s) :: u32) @ be_bytes 4 (ucast (sx_FirstOffset s) :: u32)) @
     (case reserved l of (a, b) \<Rightarrow> [a, b]) @ be_bytes 2 (word_of_nat (length (sx_References s)) :: 16 word)"

definition sidx_body :: "sidx_layout \<Rightarrow> SIDX \<Rightarrow> byte list" where
  "sidx_body l s = sidx_head l s @ concat (map reference_bytes (sx_References s)) @ trailing l"

definition sidx_fits :: "sidx_layout \<Rightarrow> SIDX \<Rightarrow> bool" where
  "sidx_fits l s \<longleftrightarrow> sx_Timescale s \<noteq> 0 \<and> length (sx_References s) < 2 ^ 16 \<and>
     list_all reference_fits (sx_References s) \<and>
     (wide l \<or> uint (sx_EarliestPresentationTime s) < 2 ^ 32 \<and> uint (sx_FirstOffset s) < 2 ^ 32)"

lemma length_sidx_head: "length (sidx_head l s) = (if wide l then 32 else 24)"
  by (simp add: sidx_head_def split: prod.splits)

lemma length_references [simp]: "length (concat (map reference_bytes rs)) = 12 * length rs"
  by (induction rs) auto

lemma ucast_down_up: "uint (w :: u64) < 2 ^ 32 \<Longrightarrow> ucast (ucast w :: u32) = w"
  by (intro word_uint_eqI) (simp add: unsigned_ucast_eq unsigned_take_bit_eq take_bit_int_eq_self)

lemma parseSIDXBody_head:
  "slice (sidx_body l s) 4 8 = be_bytes 4 (sx_ReferenceID s)"
  "slice (sidx_body l s) 8 12 = be_bytes 4 (sx_Timescale s)"
  "wide l \<Longrightarrow> slice (sidx_body l s) 12 20 = be_bytes 8 (sx_EarliestPresentationTime s)"
  "wide l \<Longrightarrow> slice (sidx_body l s) 20 28 = be_bytes 8 (sx_FirstOffset s)"
  "wide l \<Longrightarrow> slice (sidx_body l s) 30 32 = be_bytes 2 (word_of_nat (length (sx_References s)) :: 16 word)"
  "\<not> wide l \<Longrightarrow> slice (sidx_body l s) 12 16 = be_bytes 4 (ucast (sx_EarliestPresentationTime s) :: u32)"
  "\<not> wide l \<Longrightarrow> slice (sidx_body l s) 16 20 = be_bytes 4 (ucast (sx_FirstOffset s) :: u32)"
  "\<not> wide l \<Longrightarrow> slice (sidx_body l s) 22 24 = be_bytes 2 (word_of_nat (length (sx_References s)) :: 16 word)"
  "sidx_body l s ! 0 = (if wide l then 1 else 0)"
  by (auto simp: sidx_body_def sidx_head_def slice_def split: prod.splits)

lemma parseSIDXBody_body:
  assumes "sidx_fits l s"
  shows "parseSIDXBody (sidx_body l s) (sx_BoxSize s) = Inr s"
proof -
  note fits = assms [unfolded sidx_fits_def]
  let ?n = "length (sx_References s)"
  have count: "unat (be_word (be_bytes 2 (word_of_nat ?n :: 16 word)) :: 16 word) = ?n"
    using fits by (simp add: be_word_full unat_of_nat take_bit_nat_eq_self)
  have refs: "parse_references (sidx_body l s) (if wide l then 32 else 24) ?n = sx_References s"
    using parse_references_bytes [of "sx_References s" "sidx_head l s" "trailing l"] fits
    by (simp add: sidx_body_def length_sidx_head)
  have len: "length (sidx_body l s) = (if wide l then 32 else 24) + 12 * ?n + length (trailing l)"
    by (simp add: sidx_body_def length_sidx_head)
  have bound: "?n \<le> maxSIDXReferences"
    using fits by (simp add: maxSIDXReferences_def maxSegmentsPerRepresentation_def)
  show ?thesis
  proof (cases "wide l")
    case True
    with fits count refs len bound show ?thesis
      by (simp add: parseSIDXBody_def Let_def be_u16_def be_u32_def be_u64_def parseSIDXBody_head be_word_full)
  next
    case False
    with fits count refs len bound show ?thesis
      by (simp add: parseSIDXBody_def Let_def be_u16_def be_u32_def be_u64_def parseSIDXBody_head be_word_full
          ucast_down_up)
  qed
qed

text \<open>A box: a 32-bit size that counts the header too, four characters and the payload.\<close>

definition box_bytes :: "string \<times> byte list \<Rightarrow> byte list" where
  "box_bytes b = be_bytes 4 (word_of_nat (8 + length (snd b)) :: u32) @ bytes_of (fst b) @ snd b"

definition box_fits :: "string \<times> byte list \<Rightarrow> bool" where
  "box_fits b \<longleftrightarrow> length (fst b) = 4 \<and> 8 + length (snd b) < 2 ^ 32"

lemma length_box_bytes: "box_fits b \<Longrightarrow> length (box_bytes b) = 8 + length (snd b)"
  by (simp add: box_bytes_def box_fits_def)

lemma parseBoxHeader_box:
  assumes "box_fits b"
  shows "parseBoxHeader (box_bytes b @ rest) = Inr (word_of_nat (8 + length (snd b)), 8, fst b)"
proof -
  let ?size = "word_of_nat (8 + length (snd b)) :: u32"
  have u: "unat ?size = 8 + length (snd b)"
    using assms by (simp only: box_fits_def unat_of_nat) (simp add: take_bit_nat_eq_self)
  have up: "unat (ucast ?size :: u64) = 8 + length (snd b)"
    using u assms by (simp add: unsigned_ucast_eq unsigned_take_bit_eq take_bit_nat_eq_self box_fits_def)
  have wide: "(ucast ?size :: u64) = word_of_nat (8 + length (snd b))"
    using arg_cong [OF up, of "word_of_nat :: nat \<Rightarrow> u64"] by (simp del: of_nat_add)
  have small: "?size \<noteq> 0" "?size \<noteq> 1" "\<not> (ucast ?size :: u64) < 8"
    using u up unat_0 [where 'a = 32] unat_1 [where 'a = 32] by (auto simp: word_less_nat_alt simp del: of_nat_add)
  have "be_u32 (box_bytes b @ rest) 0 = ?size"
    by (simp only: be_u32_def box_bytes_def) (simp add: slice_def be_word_full)
  moreover have "str_of (slice (box_bytes b @ rest) 4 8) = fst b"
    using assms by (simp add: box_bytes_def box_fits_def slice_def)
  moreover have "\<not> length (box_bytes b @ rest) < 8"
    using length_box_bytes [OF assms] by simp
  ultimately show ?thesis
    using small wide by (simp add: parseBoxHeader_def Let_def)
qed

lemma parse_boxes_skip:
  assumes "box_fits b" and "fst b \<noteq> ''sidx''"
  shows "parse_boxes (front @ box_bytes b @ rest) (length front) =
         parse_boxes (front @ box_bytes b @ rest) (length front + length (box_bytes b))"
proof -
  let ?size = "word_of_nat (8 + length (snd b)) :: u64"
  have u: "unat ?size = 8 + length (snd b)"
    using assms(1) by (simp only: box_fits_def unat_of_nat) (simp add: take_bit_nat_eq_self)
  then have "?size \<noteq> 0" by (metis add_is_0 unat_0 zero_neq_numeral)
  with assms(2) u parseBoxHeader_box [OF assms(1)] length_box_bytes [OF assms(1)] show ?thesis
    by (subst parse_boxes.simps) (simp add: Let_def)
qed

definition sidx_box :: "sidx_layout \<Rightarrow> SIDX \<Rightarrow> byte list" where
  "sidx_box l s = box_bytes (''sidx'', sidx_body l s)"

lemma parse_boxes_found:
  assumes "sidx_fits l s" and "8 + length (sidx_body l s) < 2 ^ 32" and "unat (sx_BoxSize s) = 8 + length (sidx_body l s)"
  shows "parse_boxes (front @ sidx_box l s @ rest) (length front) = Inr (s, length front)"
proof -
  have fits: "box_fits (''sidx'', sidx_body l s)"
    using assms(2) by (simp add: box_fits_def)
  have size: "word_of_nat (8 + length (sidx_body l s)) = sx_BoxSize s"
    unfolding assms(3) [symmetric] by simp
  have head: "parseBoxHeader (sidx_box l s @ rest) = Inr (sx_BoxSize s, 8, ''sidx'')"
    using parseBoxHeader_box [OF fits, of rest] size by (simp add: sidx_box_def)
  have "slice (sidx_box l s @ rest) 8 (8 + length (sidx_body l s)) = sidx_body l s"
    by (simp add: sidx_box_def box_bytes_def slice_def)
  with head parseSIDXBody_body [OF assms(1)] assms(3) length_box_bytes [OF fits] show ?thesis
    by (subst parse_boxes.simps) (simp add: Let_def sidx_box_def)
qed

lemma parse_boxes_finds:
  assumes "\<And>b. b \<in> set boxes \<Longrightarrow> box_fits b \<and> fst b \<noteq> ''sidx''"
    and "sidx_fits l s" and "8 + length (sidx_body l s) < 2 ^ 32" and "unat (sx_BoxSize s) = 8 + length (sidx_body l s)"
  shows "parse_boxes (front @ concat (map box_bytes boxes) @ sidx_box l s @ rest) (length front) =
         Inr (s, length front + length (concat (map box_bytes boxes)))"
  using assms(1)
proof (induction boxes arbitrary: front)
  case Nil
  then show ?case using parse_boxes_found [OF assms(2-4)] by simp
next
  case (Cons b boxes)
  then show ?case
    using parse_boxes_skip [of b front] Cons.IH [of "front @ box_bytes b"] by (simp add: add.assoc)
qed

section \<open>Parsed boxes\<close>

lemma parse_boxes_inside:
  "parse_boxes data offset = Inr (s, at) \<Longrightarrow> offset \<le> at \<and> at + unat (sx_BoxSize s) \<le> length data"
proof (induction data offset rule: parse_boxes.induct)
  case (1 data offset)
  have body: "parseSIDXBody payload n = Inr s' \<Longrightarrow> sx_BoxSize s' = n" for payload n s'
    by (auto simp: parseSIDXBody_def Let_def split: if_splits sum.splits)
  from 1(2) obtain boxSize headerSize boxType where
    head: "\<not> length data \<le> offset" "parseBoxHeader (drop offset data) = Inr (boxSize, headerSize, boxType)"
    by (subst (asm) parse_boxes.simps) (auto simp: Let_def split: if_splits sum.splits)
  show ?case
  proof (cases "boxType = ''sidx''")
    case True
    with 1(2) head show ?thesis
      by (subst (asm) parse_boxes.simps) (auto simp: Let_def split: if_splits sum.splits dest!: body)
  next
    case False
    with 1(2) head have step: "boxSize \<noteq> 0" "\<not> length (drop offset data) < unat boxSize"
        "parse_boxes data (offset + unat boxSize) = Inr (s, at)"
      by (subst (asm) parse_boxes.simps, auto simp: Let_def split: if_splits sum.splits)+
    have "offset + unat boxSize \<le> at \<and> at + unat (sx_BoxSize s) \<le> length data"
      by (rule 1(1) [OF head(1) refl head(2) refl refl False step])
    then show ?thesis by simp
  qed
qed

lemma MediaRanges_iff:
  assumes "0 \<le> base" and "base \<le> MaxInt64" and "uint (sx_BoxSize s) \<le> MaxInt64" and "sx_References s \<noteq> []"
  shows "MediaRanges s base = Inr rs \<longleftrightarrow>
    (\<forall>r \<in> set (sx_References s). sr_ReferencedSize r \<noteq> 0) \<and>
    base + uint (sx_BoxSize s) + uint (sx_FirstOffset s) + sum_list (ref_sizes s) \<le> MaxInt64 \<and>
    rs = laid_out (base + uint (sx_BoxSize s) + uint (sx_FirstOffset s)) (ref_sizes s)"
proof -
  let ?size = "uint (sx_BoxSize s)" and ?first = "uint (sx_FirstOffset s)"
  have pos: "0 \<le> sum_list (ref_sizes s)"
    unfolding ref_sizes_def by (rule sum_list_nonneg) auto
  have "0 \<le> n \<Longrightarrow> n \<le> MaxInt64 \<Longrightarrow> wrap64 n = n" for n
    by (rule wrap64_id) (simp add: in_i64_def MinInt64_def)
  then have w: "wrap64 ?size = ?size" "?first \<le> MaxInt64 \<Longrightarrow> wrap64 ?first = ?first"
    using assms(3) by auto
  show ?thesis
  proof (cases "base + ?size + ?first \<le> MaxInt64")
    case True
    moreover have "?first \<le> MaxInt64" using True assms(1) uint_nonnegative [of "sx_BoxSize s"] by linarith
    moreover have "base \<le> MaxInt64 - ?size" "base + ?size \<le> MaxInt64 - ?first"
      using True uint_nonnegative [of "sx_FirstOffset s"] by linarith+
    ultimately have "MediaRanges s base = ranges_from (base + ?size + ?first) (sx_References s)"
      using assms w by (auto simp: MediaRanges_def sidx_addInt64_def addUint64ToInt64_def not_less)
    with True assms(1) show ?thesis
      by (simp add: ranges_from_iff ref_sizes_def)
  next
    case False
    with assms w have "\<not> (\<exists>rs. MediaRanges s base = Inr rs)"
      by (auto simp: MediaRanges_def sidx_addInt64_def addUint64ToInt64_def split: if_splits sum.splits)
    with False pos show ?thesis by auto
  qed
qed

section \<open>Properties\<close>

text \<open>
  C27. \<open>ParseSIDX\<close> reads every well-formed \<open>sidx\<close> box back: in data that starts with any boxes of other types,
  goes on with the box of \<open>s\<close> in version 0 or 1, whatever its flags, reserved bytes and trailing bytes, and ends in
  any bytes, it returns exactly \<open>s\<close> and the position of the box.
\<close>

theorem sidx_roundtrip:
  assumes "\<And>b. b \<in> set boxes \<Longrightarrow> box_fits b \<and> fst b \<noteq> ''sidx''"
    and "sidx_fits l s" and "8 + length (sidx_body l s) < 2 ^ 32" and "unat (sx_BoxSize s) = 8 + length (sidx_body l s)"
  shows "ParseSIDX (concat (map box_bytes boxes) @ sidx_box l s @ rest) = Inr (s, length (concat (map box_bytes boxes)))"
  unfolding ParseSIDX_def
  by (rule parse_boxes_finds [where front = "[]", simplified]) (use assms in auto)

definition sample_reference :: SIDXReference where
  "sample_reference = \<lparr>sr_ReferencedSize = 700, sr_SubsegmentDuration = 90000, sr_StartsWithSAP = True, sr_SAPType = 1,
     sr_SAPDeltaTime = 3, sr_IsIndex = False\<rparr>"

definition sample_index :: SIDX where
  "sample_index = \<lparr>sx_ReferenceID = 1, sx_Timescale = 90000, sx_EarliestPresentationTime = 5, sx_FirstOffset = 16,
     sx_References = [sample_reference, sample_reference\<lparr>sr_ReferencedSize := 300\<rparr>], sx_BoxSize = 56\<rparr>"

definition sample_layout :: sidx_layout where
  "sample_layout = \<lparr>wide = False, flags = (0, 0, 1), reserved = (0, 7), trailing = []\<rparr>"

lemma sample_fits: "sidx_fits sample_layout sample_index" "length (sidx_body sample_layout sample_index) = 48"
  by (simp_all add: sidx_fits_def sample_layout_def sample_index_def sample_reference_def reference_fits_def
      take_bit_eq_mask mask_eq_exp_minus_1 sidx_body_def length_sidx_head)

lemma sample_size: "unat (sx_BoxSize sample_index) = 56"
  by (simp add: sample_index_def)

theorem sidx_roundtrip_witness:
  "ParseSIDX (box_bytes (''styp'', [1, 2, 3]) @ sidx_box sample_layout sample_index @ [9]) = Inr (sample_index, 11)"
  using sidx_roundtrip [of "[(''styp'', [1, 2, 3])]" sample_layout sample_index "[9]"] sample_fits sample_size
  by (simp add: box_fits_def length_box_bytes)

text \<open>
  The byte ranges of a parsed index: with the box at \<open>base\<close>, \<open>MediaRanges\<close> succeeds exactly when
  no reference is empty and the end of the last one is an \<open>int64\<close>; the ranges then start after the box and the first
  offset, each begins where the one before it ends, and each has its reference's size. No arithmetic wraps.
\<close>

theorem media_ranges_are_contiguous:
  assumes "ParseSIDX data = Inr (s, at)" and "length data < 2 ^ 63" and "0 \<le> base" and "base \<le> MaxInt64"
    and "sx_References s \<noteq> []"
  shows "MediaRanges s base = Inr rs \<longleftrightarrow>
    (\<forall>r \<in> set (sx_References s). sr_ReferencedSize r \<noteq> 0) \<and>
    base + uint (sx_BoxSize s) + uint (sx_FirstOffset s) + sum_list (ref_sizes s) \<le> MaxInt64 \<and>
    rs = laid_out (base + uint (sx_BoxSize s) + uint (sx_FirstOffset s)) (ref_sizes s)"
proof -
  have "unat (sx_BoxSize s) \<le> length data"
    using parse_boxes_inside [of data 0 s at] assms(1) by (simp add: ParseSIDX_def)
  then have "int (unat (sx_BoxSize s)) < 2 ^ 63"
    using assms(2) by (metis le_less_trans of_nat_less_iff of_nat_numeral of_nat_power)
  then have "int (unat (sx_BoxSize s)) \<le> MaxInt64"
    by (simp add: MaxInt64_def)
  then have "uint (sx_BoxSize s) \<le> MaxInt64" by simp
  then show ?thesis using assms by (intro MediaRanges_iff)
qed

theorem media_ranges_are_contiguous_witness:
  "MediaRanges sample_index 100 = Inr [\<lparr>mr_Start = 172, mr_Length = 700\<rparr>, \<lparr>mr_Start = 872, mr_Length = 300\<rparr>]"
proof -
  let ?data = "sidx_box sample_layout sample_index"
  have parsed: "ParseSIDX ?data = Inr (sample_index, 0)"
    using parse_boxes_finds [of "[]" sample_layout sample_index "[]" "[]"] sample_fits sample_size
    by (simp add: ParseSIDX_def)
  have short: "length ?data < 2 ^ 63"
    using sample_fits(2) by (simp add: sidx_box_def length_box_bytes box_fits_def)
  have refs: "sx_References sample_index \<noteq> []" by (simp add: sample_index_def)
  have "(0 :: i64) \<le> 100" "100 \<le> MaxInt64" by (simp_all add: limits)
  note iff = media_ranges_are_contiguous [OF parsed short this refs]
  show ?thesis
    unfolding iff by (simp add: ref_sizes_def laid_out_Cons laid_out_def sample_index_def sample_reference_def limits)
qed

end
