(* ===== verification/IndexFetch.thy ===== *)
theory IndexFetch
  imports Sidx Transport
begin

text \<open>
  Byte ranges and index requests of the DASH downloader (\<open>internal/protocol/dash\<close>): \<open>parseByteRange\<close> of \<open>mpd.go\<close>, and from
  \<open>downloader.go\<close> the retry loop, the validation of \<open>Content-Range\<close> and the bounded fetch of an index range. The transport, the
  context, the timer and the caller's URL policy are an environment on a world.
\<close>

section \<open>Numbers and ranges\<close>

definition isDigits :: "string \<Rightarrow> bool" where
  "isDigits s \<longleftrightarrow> s \<noteq> [] \<and> list_all (\<lambda>c. 48 \<le> (of_char c :: nat) \<and> (of_char c :: nat) \<le> 57) s"

definition decimal :: "string \<Rightarrow> int" where
  "decimal s = foldl (\<lambda>n c. 10 * n + (int (of_char c) - 48)) 0 s"

text \<open>\<open>strconv.ParseInt(s, 10, 64)\<close>; \<open>None\<close> is an error of either kind.\<close>

definition ParseInt :: "string \<Rightarrow> i64 option" where
  "ParseInt s =
     (let neg = HasPrefix s ''-''; t = (if neg \<or> HasPrefix s ''+'' then drop 1 s else s)
      in if \<not> isDigits t then None
         else if neg then (if decimal t > 2 ^ 63 then None else Some (- decimal t))
         else if decimal t > MaxInt64 then None else Some (decimal t))"

definition parseByteRange :: "string \<Rightarrow> (i64 \<times> i64) option" where
  "parseByteRange raw =
     (case Index raw ''-'' of
        None \<Rightarrow> None
      | Some i \<Rightarrow>
          (case ParseInt (take i raw) of
             None \<Rightarrow> None
           | Some start \<Rightarrow>
               if start < 0 then None
               else (case ParseInt (drop (i + 1) raw) of
                       None \<Rightarrow> None
                     | Some final \<Rightarrow>
                         if final < 0 then None
                         else if final < start then None
                         else if wrap64 (final - start + 1) \<le> 0 then None
                         else Some (start, final))))"

definition validContentRange :: "string \<Rightarrow> i64 \<Rightarrow> i64 \<Rightarrow> bool" where
  "validContentRange header expectedStart expectedLength =
     (if \<not> HasPrefix header ''bytes '' then False
      else let spec = drop 6 header
      in (case Index spec ''/'' of
            None \<Rightarrow> False
          | Some slashIndex \<Rightarrow>
              let rangeSpec = take slashIndex spec; totalSpec = drop (slashIndex + 1) spec
              in (case Index rangeSpec ''-'' of
                    None \<Rightarrow> False
                  | Some dashIndex \<Rightarrow>
                      let startStr = take dashIndex rangeSpec; endStr = drop (dashIndex + 1) rangeSpec
                      in if \<not> isDigits startStr \<or> \<not> isDigits endStr then False
                         else (case (ParseInt startStr, ParseInt endStr) of
                                 (Some start, Some final) \<Rightarrow>
                                   if start \<noteq> expectedStart \<or> final \<noteq> wrap64 (expectedStart + expectedLength - 1) then False
                                   else if totalSpec = ''*'' then True
                                   else if \<not> isDigits totalSpec then False
                                   else (case ParseInt totalSpec of None \<Rightarrow> False | Some n \<Rightarrow> n > final)
                               | _ \<Rightarrow> False))))"

definition safeEnd :: "i64 \<Rightarrow> i64 \<Rightarrow> i64 option" where
  "safeEnd start len = (if len < 0 \<or> start < 0 \<or> start > MaxInt64 - len then None else Some (start + len))"

section \<open>Errors\<close>

text \<open>
  What the code asks of an error of the transport or of the URL policy: whether it contains a \<open>StatusError\<close>, whether it is the end of a
  context, and whether \<open>isRetryableTransportError\<close> takes it for transient. \<open>ErrInvalidMPD\<close> wraps the error of the URL policy where
  there is one; \<open>DashPanic\<close> is a run-time panic, an index out of range, and \<open>DashDiverges\<close> stands for a call that never returns: no
  code recovers from either. \<open>DashFragment\<close> is an error of the fragment engine, whichever its number says.
\<close>

record net_failure =
  nf_status :: "int option"
  nf_terminated :: bool
  nf_transient :: bool

datatype dash_error =
    ErrUnsupportedAddressing | ErrInvalidMPD "net_failure option" | ErrTooManyAttempts | ErrTooManySegments
  | DashContext ctx_error | DashStatus int | DashRequest net_failure | DashRetryable dash_error
  | DashCreateRequest | DashOperationFailed | DashPanic
  | DashPageTooLarge | DashBadURL | DashDiverges
  | ErrDynamicMPDUnsupported | ErrInvalidDynamicMPDPolicy | ErrStaticResumeUnsupported
  | DashDestinationExists | DashInspectDestination | DashFragment nat

definition IsRetryableError :: "net_failure \<Rightarrow> bool" where
  "IsRetryableError f =
     (if nf_terminated f then False
      else (case nf_status f of Some code \<Rightarrow> RetryableStatus code | None \<Rightarrow> nf_transient f))"

fun dashRetryable :: "dash_error \<Rightarrow> bool" where
  "dashRetryable (DashRetryable _) = True"
| "dashRetryable (DashStatus code) = RetryableStatus code"
| "dashRetryable (DashRequest f) = IsRetryableError f"
| "dashRetryable (ErrInvalidMPD (Some f)) = IsRetryableError f"
| "dashRetryable _ = False"

definition dashRequestError :: "net_failure \<Rightarrow> bool \<Rightarrow> dash_error" where
  "dashRequestError f retryable =
     (case nf_status f of
        Some code \<Rightarrow> if RetryableStatus code then DashRetryable (DashStatus code) else DashStatus code
      | None \<Rightarrow> if retryable then DashRetryable (DashRequest f) else DashRequest f)"

section \<open>Configuration and environment\<close>

definition defaultDASHAttempts :: int where "defaultDASHAttempts = 3"
definition maxDASHAttempts :: int where "maxDASHAttempts = 100"
definition maxDASHRetryDelay :: i64 where "maxDASHRetryDelay = 60 * 10 ^ 9"
definition maxDASHPolls :: int where "maxDASHPolls = 100000"
definition maxDASHPollInterval :: i64 where "maxDASHPollInterval = 3600 * 10 ^ 9"
definition maxIndexRangeBytes :: i64 where "maxIndexRangeBytes = 16777216"
definition defaultMaxDownloadSegments :: int where "defaultMaxDownloadSegments = 10000"

text \<open>The fields of the configuration that index expansion and dynamic polling read. Durations are nanoseconds.\<close>

record DashConfig =
  dc_Headers :: "(string \<times> string list) list"
  dc_DynamicPolls :: int
  dc_PollInterval :: i64
  dc_MaxSegments :: int
  dc_Attempts :: int
  dc_RetryBaseDelay :: i64
  dc_RetryMaxDelay :: i64
  dc_URLValidator :: "(string \<Rightarrow> net_failure option) option"

definition normalize_config :: "DashConfig \<Rightarrow> DashConfig" where
  "normalize_config c =
     (let c = (if dc_DynamicPolls c \<le> 0 then c\<lparr>dc_DynamicPolls := 1\<rparr> else c)
      in if dc_MaxSegments c = 0 then c\<lparr>dc_MaxSegments := defaultMaxDownloadSegments\<rparr> else c)"

text \<open>
  A response body: its bytes, then its end or a failure. The failure may come with the final bytes
  or with a read of its own, which only matters when a limit is reached at that point.
\<close>

record body_stream =
  bs_bytes :: "byte list"
  bs_failure :: "net_failure option"
  bs_joined :: bool

record index_response =
  ir_StatusCode :: int
  ir_Header :: http_header
  ir_ContentLength :: i64
  ir_Body :: body_stream

record 'w index_env =
  ie_ctxErr :: "'w \<Rightarrow> 'w \<times> ctx_error option"
  ie_do :: "'w \<Rightarrow> http_request \<Rightarrow> 'w \<times> (net_failure + index_response)"
  ie_wait :: "'w \<Rightarrow> i64 \<Rightarrow> 'w \<times> ctx_error option"

text \<open>\<open>io.ReadAll(io.LimitReader(body, n))\<close> for a positive \<open>n\<close>.\<close>

definition ReadAll_limited :: "nat \<Rightarrow> body_stream \<Rightarrow> byte list \<times> net_failure option" where
  "ReadAll_limited n b =
     (if length (bs_bytes b) > n \<or> length (bs_bytes b) = n \<and> \<not> bs_joined b then (take n (bs_bytes b), None)
      else (bs_bytes b, bs_failure b))"

definition validateURL :: "DashConfig \<Rightarrow> string \<Rightarrow> dash_error option" where
  "validateURL c rawURL =
     (case dc_URLValidator c of None \<Rightarrow> None | Some validator \<Rightarrow> map_option (\<lambda>f. ErrInvalidMPD (Some f)) (validator rawURL))"

section \<open>Retries\<close>

record dashRetrySettings =
  rs_attempts :: int
  rs_base :: i64
  rs_max :: i64

definition retrySettings :: "DashConfig \<Rightarrow> dash_error + dashRetrySettings" where
  "retrySettings c =
     (if dc_Attempts c < 0 then Inl ErrTooManyAttempts
      else let attempts = (if dc_Attempts c \<le> 0 then defaultDASHAttempts else dc_Attempts c)
      in if attempts > maxDASHAttempts then Inl ErrTooManyAttempts
      else let base = dc_RetryBaseDelay c; maxd = dc_RetryMaxDelay c
      in if base < 0 \<or> maxd < 0 \<or> base > maxDASHRetryDelay \<or> maxd > maxDASHRetryDelay \<or> (base > 0 \<and> maxd > 0 \<and> base > maxd)
         then Inl ErrTooManyAttempts
         else Inr \<lparr>rs_attempts = attempts, rs_base = base, rs_max = maxd\<rparr>)"

fun dash_delay_loop :: "i64 \<Rightarrow> i64 \<Rightarrow> nat \<Rightarrow> i64" where
  "dash_delay_loop base maxd 0 = base"
| "dash_delay_loop base maxd (Suc n) = (if base \<ge> maxd \<or> base > maxd div 2 then maxd else dash_delay_loop (base * 2) maxd n)"

definition dash_delay :: "dashRetrySettings \<Rightarrow> nat \<Rightarrow> i64" where
  "dash_delay s attempt =
     (let base = (if rs_base s \<le> 0 then 20 * 10 ^ 6 else rs_base s);
          maxd = (if rs_max s \<le> 0 then 10 ^ 9 else rs_max s);
          maxd = (if maxd > maxDASHRetryDelay then maxDASHRetryDelay else maxd)
      in dash_delay_loop base maxd (attempt - 1))"

text \<open>The loop after \<open>current - 1\<close> attempts, with \<open>n\<close> attempts left. The attempt works on a state of its own.\<close>

fun retry_loop ::
    "'w index_env \<Rightarrow> dashRetrySettings \<Rightarrow> ('w \<Rightarrow> 's \<Rightarrow> 'w \<times> 's \<times> dash_error option) \<Rightarrow> nat \<Rightarrow> nat \<Rightarrow> 'w \<Rightarrow> 's \<Rightarrow>
      'w \<times> 's \<times> dash_error option" where
  "retry_loop env settings attempt current 0 w s = (w, s, Some DashOperationFailed)"
| "retry_loop env settings attempt current (Suc n) w s =
     (case ie_ctxErr env w of
        (w, Some e) \<Rightarrow> (w, s, Some (DashContext e))
      | (w, None) \<Rightarrow>
          (case attempt w s of
             (w, s, None) \<Rightarrow> (w, s, None)
           | (w, s, Some lastErr) \<Rightarrow>
               (case ie_ctxErr env w of
                  (w, Some e) \<Rightarrow> (w, s, Some (DashContext e))
                | (w, None) \<Rightarrow>
                    if \<not> dashRetryable lastErr \<or> n = 0 then (w, s, Some lastErr)
                    else (case ie_wait env w (dash_delay settings current) of
                            (w, Some e) \<Rightarrow> (w, s, Some (DashContext e))
                          | (w, None) \<Rightarrow> retry_loop env settings attempt (current + 1) n w s))))"

definition retry ::
    "'w index_env \<Rightarrow> DashConfig \<Rightarrow> ('w \<Rightarrow> 's \<Rightarrow> 'w \<times> 's \<times> dash_error option) \<Rightarrow> 'w \<Rightarrow> 's \<Rightarrow>
      'w \<times> 's \<times> dash_error option" where
  "retry env c attempt w s =
     (case retrySettings c of
        Inl e \<Rightarrow> (w, s, Some e)
      | Inr settings \<Rightarrow> retry_loop env settings attempt 1 (nat (rs_attempts settings)) w s)"

section \<open>Fetching an index range\<close>

record indexRangeResult =
  ix_Data :: "byte list"
  ix_TransferredBytes :: i64

definition no_result :: "i64 \<Rightarrow> indexRangeResult" where
  "no_result n = \<lparr>ix_Data = [], ix_TransferredBytes = n\<rparr>"

definition index_request :: "DashConfig \<Rightarrow> string \<Rightarrow> i64 \<Rightarrow> i64 \<Rightarrow> http_request" where
  "index_request c mediaURL rangeStart rangeLength =
     \<lparr>req_URL = mediaURL,
      req_Header = fold (\<lambda>(key, values) h. fold (\<lambda>v h. header_Add h key v) values h) (dc_Headers c)
        (header_Set fmempty ''Range'' (''bytes='' @ Itoa rangeStart @ ''-'' @ Itoa (wrap64 (rangeStart + rangeLength - 1)))),
      req_Body = [], req_ContentLength = 0\<rparr>"

text \<open>The checks on status and headers, before the body is read.\<close>

definition check_response :: "index_response \<Rightarrow> i64 \<Rightarrow> i64 \<Rightarrow> dash_error option" where
  "check_response response rangeStart rangeLength =
     (if ir_StatusCode response = 206 then
        (let contentRange = header_Get (ir_Header response) ''Content-Range''
         in if contentRange = [] then Some ErrUnsupportedAddressing
            else if \<not> validContentRange contentRange rangeStart rangeLength then Some ErrUnsupportedAddressing
            else None)
      else if ir_StatusCode response = 200 then
        (if ir_ContentLength response > maxIndexRangeBytes then Some ErrUnsupportedAddressing else None)
      else if RetryableStatus (ir_StatusCode response) then Some (DashRetryable (DashStatus (ir_StatusCode response)))
      else Some ErrUnsupportedAddressing)"

definition read_limit :: "i64 \<Rightarrow> i64" where
  "read_limit remainingBudget =
     (if remainingBudget + 1 < maxIndexRangeBytes + 1 then remainingBudget + 1 else maxIndexRangeBytes + 1)"

definition read_index :: "index_response \<Rightarrow> i64 \<Rightarrow> i64 \<Rightarrow> i64 \<Rightarrow> indexRangeResult \<times> dash_error option" where
  "read_index response rangeStart rangeLength remainingBudget =
     (case ReadAll_limited (nat (read_limit remainingBudget)) (ir_Body response) of
        (body, Some f) \<Rightarrow> (no_result (int (length body)), Some (dashRequestError f (\<not> nf_terminated f)))
      | (body, None) \<Rightarrow>
          let transferred = int (length body); failedRead = (no_result transferred, Some ErrUnsupportedAddressing)
          in if transferred > maxIndexRangeBytes then failedRead
             else if transferred > remainingBudget then failedRead
             else if ir_StatusCode response = 200 \<and> (rangeStart > transferred \<or> rangeLength > transferred - rangeStart)
               then failedRead
             else let body = (if ir_StatusCode response = 200
                              then slice body (nat rangeStart) (nat (rangeStart + rangeLength)) else body)
             in if ir_StatusCode response = 206 \<and> int (length body) \<noteq> rangeLength then failedRead
                else (\<lparr>ix_Data = body, ix_TransferredBytes = transferred\<rparr>, None))"

definition fetchIndexRangeAttempt ::
    "'w index_env \<Rightarrow> DashConfig \<Rightarrow> string \<Rightarrow> i64 \<Rightarrow> i64 \<Rightarrow> i64 \<Rightarrow> 'w \<Rightarrow> 'w \<times> indexRangeResult \<times> dash_error option" where
  "fetchIndexRangeAttempt env c mediaURL rangeStart rangeLength remainingBudget w =
     (case validateURL c mediaURL of
        Some e \<Rightarrow> (w, no_result 0, Some e)
      | None \<Rightarrow>
          if url_Parse mediaURL = None then (w, no_result 0, Some DashCreateRequest)
          else (case ie_do env w (index_request c mediaURL rangeStart rangeLength) of
                  (w, Inl f) \<Rightarrow> (w, no_result 0, Some (dashRequestError f (IsRetryableError f)))
                | (w, Inr response) \<Rightarrow>
                    (case check_response response rangeStart rangeLength of
                       Some e \<Rightarrow> (w, no_result 0, Some e)
                     | None \<Rightarrow> (w, read_index response rangeStart rangeLength remainingBudget))))"

definition fetch_attempt ::
    "'w index_env \<Rightarrow> DashConfig \<Rightarrow> string \<Rightarrow> i64 \<Rightarrow> i64 \<Rightarrow> i64 \<Rightarrow> 'w \<Rightarrow> indexRangeResult \<Rightarrow>
      'w \<times> indexRangeResult \<times> dash_error option" where
  "fetch_attempt env c mediaURL rangeStart rangeLength remainingBudget w result =
     (let attemptBudget = remainingBudget - ix_TransferredBytes result
      in if attemptBudget \<le> 0 then (w, result, Some ErrUnsupportedAddressing)
         else (case fetchIndexRangeAttempt env c mediaURL rangeStart rangeLength attemptBudget w of
                 (w, attemptResult, err) \<Rightarrow>
                   (w, attemptResult\<lparr>ix_TransferredBytes := ix_TransferredBytes result + ix_TransferredBytes attemptResult\<rparr>, err)))"

definition fetchIndexRange ::
    "'w index_env \<Rightarrow> DashConfig \<Rightarrow> string \<Rightarrow> i64 \<Rightarrow> i64 \<Rightarrow> i64 \<Rightarrow> 'w \<Rightarrow> 'w \<times> indexRangeResult \<times> dash_error option" where
  "fetchIndexRange env c mediaURL rangeStart rangeLength remainingBudget w =
     (if remainingBudget \<le> 0 then (w, no_result 0, Some ErrUnsupportedAddressing)
      else retry env c (fetch_attempt env c mediaURL rangeStart rangeLength remainingBudget) w (no_result 0))"

section \<open>Lemmas\<close>

lemma decimal_nonneg: "isDigits s \<Longrightarrow> 0 \<le> decimal s"
proof -
  have "list_all (\<lambda>c. 48 \<le> (of_char c :: nat) \<and> (of_char c :: nat) \<le> 57) s \<Longrightarrow> 0 \<le> n \<Longrightarrow>
      0 \<le> foldl (\<lambda>n c. 10 * n + (int (of_char c) - 48)) n s" for n
  proof (induction s arbitrary: n)
    case (Cons c s)
    then show ?case by simp
  qed simp
  then show "isDigits s \<Longrightarrow> 0 \<le> decimal s" by (simp add: isDigits_def decimal_def)
qed

lemma parseByteRange_bounds:
  assumes "parseByteRange raw = Some (a, b)"
  shows "0 \<le> a \<and> a \<le> b \<and> b \<le> MaxInt64 \<and> b - a + 1 \<le> MaxInt64"
proof -
  have top: "ParseInt s = Some n \<Longrightarrow> n \<le> MaxInt64" for s n
    using decimal_nonneg [of "drop 1 s"] by (auto simp: ParseInt_def Let_def MaxInt64_def split: if_splits)
  from assms obtain s where b: "ParseInt s = Some b" "0 \<le> a" "a \<le> b" "wrap64 (b - a + 1) > 0"
    by (auto simp: parseByteRange_def split: option.splits if_splits)
  have "b - a + 1 \<le> MaxInt64"
  proof (rule ccontr)
    assume "\<not> b - a + 1 \<le> MaxInt64"
    with top [OF b(1)] b(2) have "b - a + 1 = 2 ^ 63" by (simp add: MaxInt64_def)
    then have "wrap64 (b - a + 1) = - (2 ^ 63)"
      by (simp add: wrap64_def)
    with b(4) show False by simp
  qed
  with b top [OF b(1)] show ?thesis by blast
qed

lemma ReadAll_limited_length: "ReadAll_limited n b = (body, f) \<Longrightarrow> length body \<le> n"
  by (auto simp: ReadAll_limited_def split: if_splits)

lemma read_index_transferred:
  assumes "read_index response a n budget = (r, e)" and "0 < budget"
  shows "0 \<le> ix_TransferredBytes r \<and> ix_TransferredBytes r \<le> budget + 1 \<and>
    (e = None \<longrightarrow> ix_TransferredBytes r \<le> budget)"
proof -
  obtain body f where body: "ReadAll_limited (nat (read_limit budget)) (ir_Body response) = (body, f)" by fastforce
  have "int (length body) \<le> budget + 1"
    using ReadAll_limited_length [OF body] assms(2) by (auto simp: read_limit_def split: if_splits)
  with assms body show ?thesis
    by (auto simp: read_index_def Let_def no_result_def split: option.splits if_splits)
qed

lemma read_index_data:
  assumes "read_index response a n budget = (r, None)" and "0 \<le> a" and "0 < n"
    and "ir_StatusCode response = 200 \<or> ir_StatusCode response = 206"
  shows "int (length (ix_Data r)) = n"
  using assms by (auto simp: read_index_def Let_def slice_def split: prod.splits option.splits if_splits)

lemma fetchIndexRangeAttempt_transferred:
  assumes "fetchIndexRangeAttempt env c url a n budget w = (w', r, e)" and "0 < budget"
  shows "0 \<le> ix_TransferredBytes r \<and> ix_TransferredBytes r \<le> budget + 1 \<and>
    (e = None \<longrightarrow> ix_TransferredBytes r \<le> budget)"
  using assms by (auto simp: fetchIndexRangeAttempt_def no_result_def
      split: option.splits if_splits prod.splits sum.splits dest: read_index_transferred)

text \<open>An invariant that every attempt, look at the context and wait keeps is kept by the loop.\<close>

lemma retry_keeps:
  assumes "retry env c attempt w s = (w', s', e)" and "I w s"
    and ctx: "\<And>w s w' x. I w s \<Longrightarrow> ie_ctxErr env w = (w', x) \<Longrightarrow> I w' s"
    and wait: "\<And>w s d w' x. I w s \<Longrightarrow> ie_wait env w d = (w', x) \<Longrightarrow> I w' s"
    and attempt: "\<And>w s w' s' e. I w s \<Longrightarrow> attempt w s = (w', s', e) \<Longrightarrow> I w' s' \<and> (e = None \<longrightarrow> Q s')"
  shows "I w' s' \<and> (e = None \<longrightarrow> Q s')"
proof -
  have loop: "retry_loop env settings attempt k n w s = (w', s', e) \<Longrightarrow> I w s \<Longrightarrow> I w' s' \<and> (e = None \<longrightarrow> Q s')"
    for settings k n w s
  proof (induction n arbitrary: k w s)
    case (Suc n)
    obtain w1 c1 where 1: "ie_ctxErr env w = (w1, c1)" by fastforce
    obtain w2 s2 e2 where 2: "attempt w1 s = (w2, s2, e2)" by (cases "attempt w1 s") auto
    obtain w3 c3 where 3: "ie_ctxErr env w2 = (w3, c3)" by fastforce
    obtain w4 c4 where 4: "ie_wait env w3 (dash_delay settings k) = (w4, c4)" by fastforce
    note first = ctx [OF Suc.prems(2) 1]
    note second = attempt [OF first 2]
    have third: "I w3 s2" using ctx [OF _ 3] second by blast
    note fourth = wait [OF third 4]
    show ?case
    proof (cases "retry_loop env settings attempt (k + 1) n w4 s2 = (w', s', e)")
      case True
      from Suc.IH [OF this fourth] first second third fourth Suc.prems(1) 1 2 3 4 show ?thesis
        by (simp split: option.splits if_splits)
    next
      case False
      with first second third fourth Suc.prems(1) 1 2 3 4 show ?thesis
        by (auto split: option.splits if_splits)
    qed
  qed auto
  show ?thesis
  proof (cases "retrySettings c")
    case (Inr settings)
    with assms(1) show ?thesis by (intro loop [OF _ assms(2)]) (simp add: retry_def)
  qed (use assms(1,2) in \<open>auto simp: retry_def\<close>)
qed

lemma fetchIndexRange_transferred:
  assumes "fetchIndexRange env c url a n budget w = (w', r, e)"
  shows "0 \<le> ix_TransferredBytes r" and "0 \<le> budget \<Longrightarrow> ix_TransferredBytes r \<le> budget + 1"
    and "e = None \<Longrightarrow> ix_TransferredBytes r \<le> budget"
proof -
  let ?I = "\<lambda>r. 0 \<le> ix_TransferredBytes r \<and> ix_TransferredBytes r \<le> budget + 1"
  have step: "?I r' \<and> (e = None \<longrightarrow> ix_TransferredBytes r' \<le> budget)"
    if "?I r" "fetch_attempt env c url a n budget w r = (w', r', e)" for w r w' r' e
    using that fetchIndexRangeAttempt_transferred [of env c url a n "budget - ix_TransferredBytes r"]
    by (fastforce simp: fetch_attempt_def Let_def split: prod.splits if_splits)
  have "?I r \<and> (e = None \<longrightarrow> ix_TransferredBytes r \<le> budget)" if "0 < budget"
  proof -
    have eq: "retry env c (fetch_attempt env c url a n budget) w (no_result 0) = (w', r, e)"
      using assms that by (simp add: fetchIndexRange_def)
    have start: "?I (no_result 0)" using that by (simp add: no_result_def)
    show ?thesis
      by (rule retry_keeps [OF eq, where I = "\<lambda>_. ?I"]) (fact start | assumption | (erule step, assumption))+
  qed
  with assms show "0 \<le> ix_TransferredBytes r" and "0 \<le> budget \<Longrightarrow> ix_TransferredBytes r \<le> budget + 1"
    and "e = None \<Longrightarrow> ix_TransferredBytes r \<le> budget"
    by (cases "0 < budget"; auto simp: fetchIndexRange_def no_result_def)+
qed

end
