(* ===== verification/IndexExpansion.thy ===== *)
theory IndexExpansion
  imports IndexFetch "HOL-Library.Multiset"
begin

text \<open>
  The expansion of a DASH segment index into byte-range segments (\<open>internal/protocol/dash/downloader.go\<close>, and the counters at the end of
  \<open>dynamic_sidx.go\<close>): the root index is fetched and parsed, its index references are fetched and expanded in their place, to a
  bounded depth, and the resulting ranges are checked against each other, the initialisation range and the fetched index.
\<close>

section \<open>Data\<close>

record Segment =
  sg_URL :: string
  sg_RangeStart :: i64
  sg_RangeLength :: i64
  sg_Sequence :: i64
  sg_Timeline :: i64
  sg_Initialize :: bool
  sg_IndexRange :: string
  sg_InitRange :: string

definition range_segment :: "string \<Rightarrow> i64 \<Rightarrow> i64 \<Rightarrow> bool \<Rightarrow> Segment" where
  "range_segment url start len initialize =
     \<lparr>sg_URL = url, sg_RangeStart = start, sg_RangeLength = len, sg_Sequence = 0, sg_Timeline = 0,
      sg_Initialize = initialize, sg_IndexRange = [], sg_InitRange = []\<rparr>"

definition maxSIDXDepth :: nat where "maxSIDXDepth = 8"
definition maxSIDXBoxesPerRepresentation :: int where "maxSIDXBoxesPerRepresentation = 256"
definition maxCumulativeIndexBytes :: i64 where "maxCumulativeIndexBytes = 16777216"

record sidxSessionState =
  ss_indexBytes :: i64
  ss_boxesParsed :: int
  ss_leafCount :: int

record sidxExpansionState =
  xs_mediaURL :: string
  xs_visited :: "string set"
  xs_indexIntervals :: "MediaRange list"
  xs_boxesParsed :: int
  xs_indexBytes :: i64
  xs_leafCount :: int
  xs_maxLeafCount :: int
  xs_session :: "sidxSessionState option"

definition rangeKey :: "string \<Rightarrow> i64 \<Rightarrow> i64 \<Rightarrow> string" where
  "rangeKey url start len = url @ [CHR 0x00] @ Itoa start @ [CHR 0x00] @ Itoa len"

section \<open>Counters\<close>

definition remainingIndexBudget :: "sidxExpansionState \<Rightarrow> i64" where
  "remainingIndexBudget st =
     (case xs_session st of
        Some s \<Rightarrow> maxCumulativeIndexBytes - ss_indexBytes s
      | None \<Rightarrow> maxCumulativeIndexBytes - xs_indexBytes st)"

definition recordIndexTransfer :: "sidxExpansionState \<Rightarrow> i64 \<Rightarrow> sidxExpansionState \<times> dash_error option" where
  "recordIndexTransfer st transferred =
     (case xs_session st of
        Some s \<Rightarrow>
          let s = s\<lparr>ss_indexBytes := ss_indexBytes s + transferred\<rparr>
          in (st\<lparr>xs_session := Some s\<rparr>,
              if ss_indexBytes s > maxCumulativeIndexBytes then Some ErrUnsupportedAddressing else None)
      | None \<Rightarrow>
          let st = st\<lparr>xs_indexBytes := xs_indexBytes st + transferred\<rparr>
          in (st, if xs_indexBytes st > maxCumulativeIndexBytes then Some ErrUnsupportedAddressing else None))"

definition incrementBoxCount :: "sidxExpansionState \<Rightarrow> sidxExpansionState \<times> dash_error option" where
  "incrementBoxCount st =
     (case xs_session st of
        Some s \<Rightarrow>
          let s = s\<lparr>ss_boxesParsed := ss_boxesParsed s + 1\<rparr>
          in (st\<lparr>xs_session := Some s\<rparr>,
              if ss_boxesParsed s > maxSIDXBoxesPerRepresentation then Some ErrUnsupportedAddressing else None)
      | None \<Rightarrow>
          let st = st\<lparr>xs_boxesParsed := xs_boxesParsed st + 1\<rparr>
          in (st, if xs_boxesParsed st > maxSIDXBoxesPerRepresentation then Some ErrUnsupportedAddressing else None))"

definition incrementLeafCount :: "sidxExpansionState \<Rightarrow> sidxExpansionState \<times> int" where
  "incrementLeafCount st =
     (case xs_session st of
        Some s \<Rightarrow> let s = s\<lparr>ss_leafCount := ss_leafCount s + 1\<rparr> in (st\<lparr>xs_session := Some s\<rparr>, ss_leafCount s)
      | None \<Rightarrow> let st = st\<lparr>xs_leafCount := xs_leafCount st + 1\<rparr> in (st, xs_leafCount st))"

definition effectiveMaxSegments :: "DashConfig \<Rightarrow> int" where
  "effectiveMaxSegments c =
     (let limit = (if dc_MaxSegments c \<le> 0 then defaultMaxDownloadSegments else dc_MaxSegments c)
      in if limit > int maxSegmentsPerRepresentation then int maxSegmentsPerRepresentation else limit)"

definition effectiveParserLeafBudget :: "DashConfig \<Rightarrow> sidxSessionState option \<Rightarrow> int" where
  "effectiveParserLeafBudget c session =
     (case session of Some _ \<Rightarrow> int maxSegmentsPerRepresentation | None \<Rightarrow> effectiveMaxSegments c)"

section \<open>Expansion\<close>

text \<open>
  What the root and every nested index have in common: fetch the range, charge the bytes that were read even when the
  fetch failed, remember the interval, parse the box, count it. The result is the index with its absolute position.
\<close>

definition load_index ::
    "'w index_env \<Rightarrow> DashConfig \<Rightarrow> 'w \<Rightarrow> sidxExpansionState \<Rightarrow> i64 \<Rightarrow> i64 \<Rightarrow> i64 \<Rightarrow>
      'w \<times> sidxExpansionState \<times> (dash_error + SIDX \<times> i64)" where
  "load_index env c w st start len remaining =
     (case fetchIndexRange env c (xs_mediaURL st) start len remaining w of
        (w, result, err) \<Rightarrow>
          (case (if ix_TransferredBytes result > 0 then recordIndexTransfer st (ix_TransferredBytes result) else (st, None)) of
             (st, Some e) \<Rightarrow> (w, st, Inl e)
           | (st, None) \<Rightarrow>
               (case err of
                  Some e \<Rightarrow> (w, st, Inl e)
                | None \<Rightarrow>
                    let st = st\<lparr>xs_indexIntervals := xs_indexIntervals st @ [\<lparr>mr_Start = start, mr_Length = len\<rparr>]\<rparr>
                    in (case ParseSIDX (ix_Data result) of
                          Inl _ \<Rightarrow> (w, st, Inl ErrUnsupportedAddressing)
                        | Inr (sidx, sidxOffset) \<Rightarrow>
                            (case incrementBoxCount st of
                               (st, Some e) \<Rightarrow> (w, st, Inl e)
                             | (st, None) \<Rightarrow> (w, st, Inr (sidx, start + int sidxOffset)))))))"

definition nested_index ::
    "'w index_env \<Rightarrow> DashConfig \<Rightarrow> 'w \<Rightarrow> sidxExpansionState \<Rightarrow> MediaRange \<Rightarrow>
      'w \<times> sidxExpansionState \<times> (dash_error + SIDX \<times> i64)" where
  "nested_index env c w st mrange =
     (let key = rangeKey (xs_mediaURL st) (mr_Start mrange) (mr_Length mrange)
      in if key \<in> xs_visited st then (w, st, Inl ErrUnsupportedAddressing)
         else let st = st\<lparr>xs_visited := insert key (xs_visited st)\<rparr>
         in if mr_Length mrange > maxIndexRangeBytes then (w, st, Inl ErrUnsupportedAddressing)
            else if remainingIndexBudget st \<le> 0 then (w, st, Inl ErrUnsupportedAddressing)
            else load_index env c w st (mr_Start mrange) (mr_Length mrange) (remainingIndexBudget st))"

text \<open>The start of \<open>expandSIDXReferences\<close>, and its end: leaves in the order of their start must not overlap.\<close>

definition reference_ranges :: "nat \<Rightarrow> SIDX \<Rightarrow> i64 \<Rightarrow> dash_error + (SIDXReference \<times> MediaRange) list" where
  "reference_ranges depth sidx baseOffset =
     (if depth > maxSIDXDepth then Inl ErrUnsupportedAddressing
      else (case MediaRanges sidx baseOffset of
              Inl _ \<Rightarrow> Inl ErrUnsupportedAddressing
            | Inr allRanges \<Rightarrow> Inr (zip (sx_References sidx) allRanges)))"

fun in_sequence :: "MediaRange list \<Rightarrow> bool" where
  "in_sequence (r1 # r2 # rs) = (\<not> mr_Start r2 < mr_Start r1 + mr_Length r1 \<and> in_sequence (r2 # rs))"
| "in_sequence _ = True"

definition check_leaves :: "MediaRange list \<Rightarrow> dash_error + MediaRange list" where
  "check_leaves leaves =
     (if length leaves > 1 \<and> \<not> in_sequence (sort_key mr_Start leaves) then Inl ErrUnsupportedAddressing else Inr leaves)"

definition append_leaves ::
    "MediaRange list \<Rightarrow> 'w \<times> sidxExpansionState \<times> (dash_error + MediaRange list) \<Rightarrow>
      'w \<times> sidxExpansionState \<times> (dash_error + MediaRange list)" where
  "append_leaves leaves r = (case r of (w, st, Inl e) \<Rightarrow> (w, st, Inl e) | (w, st, Inr others) \<Rightarrow> (w, st, Inr (leaves @ others)))"

text \<open>
  The loop over the references. An index reference is expanded in its place, one level deeper, by the same steps as the whole
  of \<open>expandSIDXReferences\<close> (\<open>expand_index\<close> below).
\<close>

function expand_refs ::
    "'w index_env \<Rightarrow> DashConfig \<Rightarrow> nat \<Rightarrow> 'w \<Rightarrow> sidxExpansionState \<Rightarrow> (SIDXReference \<times> MediaRange) list \<Rightarrow>
      'w \<times> sidxExpansionState \<times> (dash_error + MediaRange list)" where
  "expand_refs env c depth w st [] = (w, st, Inr [])"
| "expand_refs env c depth w st ((reference, mrange) # rest) =
     (case ie_ctxErr env w of
        (w, Some e) \<Rightarrow> (w, st, Inl (DashContext e))
      | (w, None) \<Rightarrow>
          if \<not> sr_IsIndex reference then
            (case incrementLeafCount st of
               (st, leafCount) \<Rightarrow>
                 if leafCount > xs_maxLeafCount st then (w, st, Inl ErrUnsupportedAddressing)
                 else append_leaves [mrange] (expand_refs env c depth w st rest))
          else if depth \<ge> maxSIDXDepth then (w, st, Inl ErrUnsupportedAddressing)
          else (case nested_index env c w st mrange of
                  (w, st, Inl e) \<Rightarrow> (w, st, Inl e)
                | (w, st, Inr (sidx, base)) \<Rightarrow>
                    (case reference_ranges (depth + 1) sidx base of
                       Inl e \<Rightarrow> (w, st, Inl e)
                     | Inr refs \<Rightarrow>
                         (case expand_refs env c (depth + 1) w st refs of
                            (w, st, Inl e) \<Rightarrow> (w, st, Inl e)
                          | (w, st, Inr leaves) \<Rightarrow>
                              (case check_leaves leaves of
                                 Inl e \<Rightarrow> (w, st, Inl e)
                               | Inr leaves \<Rightarrow> append_leaves leaves (expand_refs env c depth w st rest))))))"
  by pat_completeness auto
termination
  by (relation "measures [\<lambda>(env, c, depth, w, st, refs). maxSIDXDepth - depth, \<lambda>(env, c, depth, w, st, refs). length refs]")
    auto

definition expandSIDXReferences ::
    "'w index_env \<Rightarrow> DashConfig \<Rightarrow> 'w \<Rightarrow> SIDX \<Rightarrow> i64 \<Rightarrow> nat \<Rightarrow> sidxExpansionState \<Rightarrow>
      'w \<times> sidxExpansionState \<times> (dash_error + MediaRange list)" where
  "expandSIDXReferences env c w sidx baseOffset depth st =
     (case reference_ranges depth sidx baseOffset of
        Inl e \<Rightarrow> (w, st, Inl e)
      | Inr refs \<Rightarrow>
          (case expand_refs env c depth w st refs of
             (w, st, Inl e) \<Rightarrow> (w, st, Inl e)
           | (w, st, Inr leaves) \<Rightarrow> (w, st, check_leaves leaves)))"

lemma expand_index:
  "expand_refs env c depth w st ((reference, mrange) # rest) =
     (case ie_ctxErr env w of
        (w, Some e) \<Rightarrow> (w, st, Inl (DashContext e))
      | (w, None) \<Rightarrow>
          if \<not> sr_IsIndex reference then
            (case incrementLeafCount st of
               (st, leafCount) \<Rightarrow>
                 if leafCount > xs_maxLeafCount st then (w, st, Inl ErrUnsupportedAddressing)
                 else append_leaves [mrange] (expand_refs env c depth w st rest))
          else if depth \<ge> maxSIDXDepth then (w, st, Inl ErrUnsupportedAddressing)
          else (case nested_index env c w st mrange of
                  (w, st, Inl e) \<Rightarrow> (w, st, Inl e)
                | (w, st, Inr (sidx, base)) \<Rightarrow>
                    (case expandSIDXReferences env c w sidx base (depth + 1) st of
                       (w, st, Inl e) \<Rightarrow> (w, st, Inl e)
                     | (w, st, Inr leaves) \<Rightarrow> append_leaves leaves (expand_refs env c depth w st rest))))"
  by (simp add: expandSIDXReferences_def split: prod.splits option.splits sum.splits)

declare expand_refs.simps(2) [simp del]

lemma expand_refs_cases [consumes 4, case_names quit many leaf broken index]:
  assumes "expand_refs env c depth w st ((reference, m) # rest) = (w', st', res)" and "ie_ctxErr env w = (w1, x)"
    and "incrementLeafCount st = (st1, k)" and "nested_index env c w1 st m = (w2, st2, r2)"
  obtains (quit) "w' = w1" "st' = st" "isl res"
  | (many) "w' = w1" "st' = st1" "isl res" "\<not> k \<le> xs_maxLeafCount st1"
  | (leaf) "k \<le> xs_maxLeafCount st1" "append_leaves [m] (expand_refs env c depth w1 st1 rest) = (w', st', res)"
  | (broken) "w' = w2" "st' = st2" "isl res" "isl r2"
  | (index) sidx base where "depth < maxSIDXDepth" "r2 = Inr (sidx, base)"
      "(case expandSIDXReferences env c w2 sidx base (depth + 1) st2 of
          (w, st, Inl e) \<Rightarrow> (w, st, Inl e)
        | (w, st, Inr leaves) \<Rightarrow> append_leaves leaves (expand_refs env c depth w st rest)) = (w', st', res)"
proof (cases "x = None \<and> sr_IsIndex reference \<and> depth < maxSIDXDepth")
  case True
  with assms(1,2,4) show ?thesis
    by (cases r2) (auto simp: expand_index intro: broken index)
next
  case False
  with assms(1-3) show ?thesis
    by (cases "k \<le> xs_maxLeafCount st1") (auto simp: expand_index intro: quit many leaf split: option.splits if_splits)
qed

text \<open>A range that ends within \<open>int64\<close> and meets none of the intervals.\<close>

definition clear_of :: "MediaRange list \<Rightarrow> i64 \<Rightarrow> i64 \<Rightarrow> bool" where
  "clear_of intervals start len =
     (case safeEnd start len of
        None \<Rightarrow> False
      | Some leafEnd \<Rightarrow>
          list_all (\<lambda>idx. case safeEnd (mr_Start idx) (mr_Length idx) of
                            None \<Rightarrow> False
                          | Some idxEnd \<Rightarrow> \<not> (start < idxEnd \<and> mr_Start idx < leafEnd)) intervals)"

definition init_segments :: "Segment \<Rightarrow> MediaRange list \<Rightarrow> MediaRange list \<Rightarrow> dash_error + Segment list" where
  "init_segments marker intervals mediaRanges =
     (if sg_InitRange marker = [] then Inr []
      else (case parseByteRange (sg_InitRange marker) of
              None \<Rightarrow> Inl ErrUnsupportedAddressing
            | Some (initStart, initEnd) \<Rightarrow>
                let initLength = initEnd - initStart + 1
                in if list_ex (\<lambda>r. initStart \<le> mr_Start r + mr_Length r - 1 \<and> initEnd \<ge> mr_Start r) mediaRanges
                   then Inl ErrUnsupportedAddressing
                   else if \<not> clear_of intervals initStart initLength then Inl ErrUnsupportedAddressing
                   else Inr [range_segment (sg_URL marker) initStart initLength True]))"

definition initial_state :: "DashConfig \<Rightarrow> Segment \<Rightarrow> sidxSessionState option \<Rightarrow> sidxExpansionState" where
  "initial_state c marker session =
     \<lparr>xs_mediaURL = sg_URL marker, xs_visited = {}, xs_indexIntervals = [], xs_boxesParsed = 0, xs_indexBytes = 0,
      xs_leafCount = 0, xs_maxLeafCount = effectiveParserLeafBudget c session, xs_session = session\<rparr>"

definition expandOneSIDX ::
    "'w index_env \<Rightarrow> DashConfig \<Rightarrow> 'w \<Rightarrow> Segment \<Rightarrow> sidxSessionState option \<Rightarrow>
      'w \<times> sidxSessionState option \<times> (dash_error + Segment list)" where
  "expandOneSIDX env c w marker session =
     (case parseByteRange (sg_IndexRange marker) of
        None \<Rightarrow> (w, session, Inl ErrUnsupportedAddressing)
      | Some (rangeStart, rangeEnd) \<Rightarrow>
          let rangeLength = rangeEnd - rangeStart + 1
          in if rangeLength > maxIndexRangeBytes then (w, session, Inl ErrUnsupportedAddressing)
          else if (case session of Some s \<Rightarrow> ss_indexBytes s \<ge> maxCumulativeIndexBytes | None \<Rightarrow> False)
            then (w, session, Inl ErrUnsupportedAddressing)
          else let st = initial_state c marker session
          in (case load_index env c w st rangeStart rangeLength (remainingIndexBudget st) of
                (w, st, Inl e) \<Rightarrow> (w, xs_session st, Inl e)
              | (w, st, Inr (sidx, baseOffset)) \<Rightarrow>
                  let st = st\<lparr>xs_visited := insert (rangeKey (sg_URL marker) rangeStart rangeLength) (xs_visited st)\<rparr>
                  in (case expandSIDXReferences env c w sidx baseOffset 0 st of
                        (w, st, Inl e) \<Rightarrow> (w, xs_session st, Inl e)
                      | (w, st, Inr mediaRanges) \<Rightarrow>
                          if \<not> list_all (\<lambda>leaf. clear_of (xs_indexIntervals st) (mr_Start leaf) (mr_Length leaf)) mediaRanges
                          then (w, xs_session st, Inl ErrUnsupportedAddressing)
                          else (w, xs_session st,
                            case init_segments marker (xs_indexIntervals st) mediaRanges of
                              Inl e \<Rightarrow> Inl e
                            | Inr init \<Rightarrow>
                                Inr (init @ map (\<lambda>r. range_segment (sg_URL marker) (mr_Start r) (mr_Length r) False) mediaRanges)))))"

text \<open>A list of segments: only those with an index range are expanded.\<close>

fun expandSIDXSegmentsWithSession ::
    "'w index_env \<Rightarrow> DashConfig \<Rightarrow> 'w \<Rightarrow> Segment list \<Rightarrow> sidxSessionState option \<Rightarrow>
      'w \<times> sidxSessionState option \<times> (dash_error + Segment list)" where
  "expandSIDXSegmentsWithSession env c w [] session = (w, session, Inr [])"
| "expandSIDXSegmentsWithSession env c w (segment # rest) session =
     (case (if sg_IndexRange segment = [] then (w, session, Inr [segment]) else expandOneSIDX env c w segment session) of
        (w, session, Inl e) \<Rightarrow> (w, session, Inl e)
      | (w, session, Inr expanded) \<Rightarrow>
          (case expandSIDXSegmentsWithSession env c w rest session of
             (w, session, Inl e) \<Rightarrow> (w, session, Inl e)
           | (w, session, Inr result) \<Rightarrow> (w, session, Inr (expanded @ result))))"

definition expandSIDXSegments ::
    "'w index_env \<Rightarrow> DashConfig \<Rightarrow> 'w \<Rightarrow> Segment list \<Rightarrow> 'w \<times> (dash_error + Segment list)" where
  "expandSIDXSegments env c w segments =
     (case expandSIDXSegmentsWithSession env c w segments None of (w, _, r) \<Rightarrow> (w, r))"

section \<open>Progress of an expansion\<close>

definition range_ok :: "MediaRange \<Rightarrow> bool" where
  "range_ok r \<longleftrightarrow> 0 \<le> mr_Start r \<and> 0 < mr_Length r \<and> mr_Start r + mr_Length r \<le> MaxInt64"

lemma ranges_from_ok: "ranges_from start refs = Inr rs \<Longrightarrow> list_all range_ok rs"
proof (induction refs arbitrary: start rs)
  case (Cons r refs)
  have pos: "sr_ReferencedSize r \<noteq> 0 \<Longrightarrow> 0 < uint (sr_ReferencedSize r)"
    by (simp add: order_less_le uint_0_iff)
  with Cons show ?case
    by (auto simp: Let_def range_ok_def split: if_splits sum.splits)
qed simp

lemma reference_ranges_ok:
  assumes "reference_ranges depth sidx base = Inr refs"
  shows "list_all (\<lambda>p. range_ok (snd p)) refs"
proof -
  obtain rs where rs: "MediaRanges sidx base = Inr rs" "refs = zip (sx_References sidx) rs"
    using assms by (auto simp: reference_ranges_def split: if_splits sum.splits)
  have "list_all range_ok rs"
    using rs(1) ranges_from_ok by (auto simp: MediaRanges_def split: if_splits sum.splits)
  then show ?thesis
    unfolding rs(2) by (fastforce simp: list_all_iff dest: set_zip_rightD)
qed

definition index_bytes :: "sidxExpansionState \<Rightarrow> i64" where
  "index_bytes st = (case xs_session st of Some s \<Rightarrow> ss_indexBytes s | None \<Rightarrow> xs_indexBytes st)"

definition boxes :: "sidxExpansionState \<Rightarrow> int" where
  "boxes st = (case xs_session st of Some s \<Rightarrow> ss_boxesParsed s | None \<Rightarrow> xs_boxesParsed st)"

definition leaf_count :: "sidxExpansionState \<Rightarrow> int" where
  "leaf_count st = (case xs_session st of Some s \<Rightarrow> ss_leafCount s | None \<Rightarrow> xs_leafCount st)"

lemmas counters = index_bytes_def boxes_def leaf_count_def

text \<open>The limits, each exceeded by at most \<open>k\<close>.\<close>

definition within :: "int \<Rightarrow> sidxExpansionState \<Rightarrow> bool" where
  "within k st \<longleftrightarrow> index_bytes st \<le> maxCumulativeIndexBytes + k \<and> boxes st \<le> maxSIDXBoxesPerRepresentation + k \<and>
     leaf_count st \<le> xs_maxLeafCount st + k"

definition same_frame :: "sidxExpansionState \<Rightarrow> sidxExpansionState \<Rightarrow> bool" where
  "same_frame st st' \<longleftrightarrow> xs_mediaURL st' = xs_mediaURL st \<and> xs_maxLeafCount st' = xs_maxLeafCount st \<and>
     (xs_session st' = None \<longleftrightarrow> xs_session st = None)"

lemma recordIndexTransfer_effect:
  assumes "recordIndexTransfer st n = (st', e)"
  shows "same_frame st st'" "xs_indexIntervals st' = xs_indexIntervals st" "boxes st' = boxes st"
    "leaf_count st' = leaf_count st" "index_bytes st' = index_bytes st + n"
    "e = None \<longleftrightarrow> index_bytes st' \<le> maxCumulativeIndexBytes"
  using assms by (auto simp: recordIndexTransfer_def counters same_frame_def Let_def split: option.splits if_splits)

lemma incrementBoxCount_effect:
  assumes "incrementBoxCount st = (st', e)"
  shows "same_frame st st'" "xs_indexIntervals st' = xs_indexIntervals st" "boxes st' = boxes st + 1"
    "leaf_count st' = leaf_count st" "index_bytes st' = index_bytes st"
    "e = None \<longleftrightarrow> boxes st' \<le> maxSIDXBoxesPerRepresentation"
  using assms by (auto simp: incrementBoxCount_def counters same_frame_def Let_def split: option.splits if_splits)

lemma incrementLeafCount_effect:
  assumes "incrementLeafCount st = (st', n)"
  shows "same_frame st st'" "xs_indexIntervals st' = xs_indexIntervals st" "boxes st' = boxes st"
    "leaf_count st' = leaf_count st + 1" "index_bytes st' = index_bytes st" "n = leaf_count st'"
  using assms by (auto simp: incrementLeafCount_def counters same_frame_def Let_def split: option.splits)

lemma remainingIndexBudget_eq: "remainingIndexBudget st = maxCumulativeIndexBytes - index_bytes st"
  by (simp add: remainingIndexBudget_def index_bytes_def split: option.splits)

text \<open>
  What a part of an expansion does to the world's log of requests and to the state. When it succeeds every request was
  for a range that is now among the index intervals.
\<close>

definition interval_requests :: "DashConfig \<Rightarrow> string \<Rightarrow> MediaRange list \<Rightarrow> http_request set" where
  "interval_requests c url rs = (\<lambda>r. index_request c url (mr_Start r) (mr_Length r)) ` set rs"

definition index_progress ::
    "('w \<Rightarrow> http_request list) \<Rightarrow> DashConfig \<Rightarrow> 'w \<Rightarrow> sidxExpansionState \<Rightarrow> 'w \<Rightarrow> sidxExpansionState \<Rightarrow> bool \<Rightarrow> bool" where
  "index_progress log c w st w' st' ok \<longleftrightarrow>
     same_frame st st' \<and> boxes st \<le> boxes st' \<and>
     (within 0 st \<longrightarrow> within (if ok then 0 else 1) st') \<and>
     (\<exists>more. log w' = log w @ more \<and>
        int (length more) \<le> maxDASHAttempts * (boxes st' - boxes st + (if ok then 0 else 1)) \<and>
        (ok \<longrightarrow> (\<exists>rs. xs_indexIntervals st' = xs_indexIntervals st @ rs \<and>
                    set more \<subseteq> interval_requests c (xs_mediaURL st) rs)))"

lemma index_progress_trans:
  assumes "index_progress log c w st w1 st1 True" and "index_progress log c w1 st1 w2 st2 ok"
  shows "index_progress log c w st w2 st2 ok"
proof -
  obtain m1 r1 where 1: "log w1 = log w @ m1" "int (length m1) \<le> maxDASHAttempts * (boxes st1 - boxes st)"
      "xs_indexIntervals st1 = xs_indexIntervals st @ r1" "set m1 \<subseteq> interval_requests c (xs_mediaURL st) r1"
    using assms(1) by (auto simp: index_progress_def)
  obtain m2 where 2: "log w2 = log w1 @ m2"
      "int (length m2) \<le> maxDASHAttempts * (boxes st2 - boxes st1 + (if ok then 0 else 1))"
      "ok \<longrightarrow> (\<exists>r. xs_indexIntervals st2 = xs_indexIntervals st1 @ r \<and> set m2 \<subseteq> interval_requests c (xs_mediaURL st1) r)"
    using assms(2) by (auto simp: index_progress_def)
  have url: "xs_mediaURL st1 = xs_mediaURL st"
    using assms(1) by (simp add: index_progress_def same_frame_def)
  have len: "int (length (m1 @ m2)) \<le> maxDASHAttempts * (boxes st2 - boxes st + (if ok then 0 else 1))"
    using 1(2) 2(2) by (simp add: maxDASHAttempts_def split: if_splits)
  have ranges: "ok \<longrightarrow> (\<exists>r. xs_indexIntervals st2 = xs_indexIntervals st @ r \<and>
      set (m1 @ m2) \<subseteq> interval_requests c (xs_mediaURL st) r)"
  proof
    assume ok
    with 2(3) obtain r2 where r2: "xs_indexIntervals st2 = xs_indexIntervals st1 @ r2"
        "set m2 \<subseteq> interval_requests c (xs_mediaURL st) r2"
      using url by auto
    with 1(3,4) show "\<exists>r. xs_indexIntervals st2 = xs_indexIntervals st @ r \<and>
        set (m1 @ m2) \<subseteq> interval_requests c (xs_mediaURL st) r"
      by (intro exI [of _ "r1 @ r2"]) (auto simp: interval_requests_def)
  qed
  from assms have "same_frame st st2" "boxes st \<le> boxes st2" "within 0 st \<longrightarrow> within (if ok then 0 else 1) st2"
    by (auto simp: index_progress_def same_frame_def)
  with 1(1) 2(1) len ranges show ?thesis
    unfolding index_progress_def by (auto intro!: exI [of _ "m1 @ m2"])
qed

lemma index_progress_fails: "index_progress log c w st w' st' True \<Longrightarrow> index_progress log c w st w' st' False"
  by (auto simp: index_progress_def within_def maxDASHAttempts_def)

lemma index_progress_refl: "log w' = log w \<Longrightarrow> index_progress log c w st w' st ok"
  by (auto simp: index_progress_def same_frame_def within_def maxDASHAttempts_def)

section \<open>Requests\<close>

text \<open>An environment whose world remembers the requests; \<open>logged_index\<close> makes one of every environment.\<close>

locale index_log =
  fixes env :: "'w index_env" and log :: "'w \<Rightarrow> http_request list"
  assumes ctx_log: "ie_ctxErr env w = (w', x) \<Longrightarrow> log w' = log w"
    and wait_log: "ie_wait env w d = (w', y) \<Longrightarrow> log w' = log w"
    and do_log: "ie_do env w q = (w', z) \<Longrightarrow> log w' = log w @ [q]"
begin

lemma retry_loop_log:
  assumes "retry_loop env settings attempt k n w s = (w', s', e)"
    and "\<And>w s w' s' e. attempt w s = (w', s', e) \<Longrightarrow> \<exists>more. log w' = log w @ more \<and> length more \<le> 1 \<and> set more \<subseteq> {q}"
  shows "\<exists>more. log w' = log w @ more \<and> length more \<le> n \<and> set more \<subseteq> {q}"
  using assms(1)
proof (induction n arbitrary: k w s)
  case (Suc n)
  obtain w1 c1 where 1: "ie_ctxErr env w = (w1, c1)" by fastforce
  obtain w2 s2 e2 where 2: "attempt w1 s = (w2, s2, e2)" by (cases "attempt w1 s") auto
  obtain w3 c3 where 3: "ie_ctxErr env w2 = (w3, c3)" by fastforce
  obtain w4 c4 where 4: "ie_wait env w3 (dash_delay settings k) = (w4, c4)" by fastforce
  obtain m where m: "log w2 = log w @ m" "length m \<le> 1" "set m \<subseteq> {q}"
    using assms(2) [OF 2] ctx_log [OF 1] by auto
  have w4: "log w4 = log w2" using ctx_log [OF 3] wait_log [OF 4] by simp
  show ?case
  proof (cases "retry_loop env settings attempt (k + 1) n w4 s2 = (w', s', e)")
    case True
    from Suc.IH [OF this] obtain m' where m': "log w' = log w4 @ m'" "length m' \<le> n" "set m' \<subseteq> {q}" by blast
    with m w4 show ?thesis by (intro exI [of _ "m @ m'"]) auto
  next
    case False
    with Suc.prems 1 2 3 4 have "w' \<in> {w1, w2, w3, w4}"
      by (auto split: option.splits if_splits)
    with m w4 ctx_log [OF 1] ctx_log [OF 3] show ?thesis
      by (intro exI [of _ "if w' = w1 then [] else m"]) auto
  qed
qed auto

lemma fetch_log:
  assumes "fetchIndexRange env c url a n budget w = (w', r, e)"
  shows "\<exists>more. log w' = log w @ more \<and> int (length more) \<le> maxDASHAttempts \<and> set more \<subseteq> {index_request c url a n}"
proof (cases "budget \<le> 0")
  case True
  with assms show ?thesis by (simp add: fetchIndexRange_def maxDASHAttempts_def)
next
  case False
  have attempt: "\<exists>more. log w' = log w @ more \<and> length more \<le> 1 \<and> set more \<subseteq> {index_request c url a n}"
    if "fetch_attempt env c url a n budget w s = (w', s', e)" for w s w' s' e
    using that by (auto simp: fetch_attempt_def fetchIndexRangeAttempt_def Let_def
        split: if_splits option.splits prod.splits sum.splits dest!: do_log)
  show ?thesis
  proof (cases "retrySettings c")
    case (Inr settings)
    then have few: "rs_attempts settings \<le> maxDASHAttempts"
      by (auto simp: retrySettings_def Let_def split: if_splits)
    have "retry_loop env settings (fetch_attempt env c url a n budget) 1 (nat (rs_attempts settings)) w (no_result 0) = (w', r, e)"
      using assms False Inr by (simp add: fetchIndexRange_def retry_def)
    from retry_loop_log [OF this attempt] few show ?thesis
      by (force simp: maxDASHAttempts_def)
  qed (use assms False in \<open>simp add: fetchIndexRange_def retry_def maxDASHAttempts_def\<close>)
qed

lemma load_progress:
  assumes "load_index env c w st a n (remainingIndexBudget st) = (w', st', res)"
  shows "index_progress log c w st w' st' (\<not> isl res)"
proof -
  obtain w1 r e where fetch: "fetchIndexRange env c (xs_mediaURL st) a n (remainingIndexBudget st) w = (w1, r, e)"
    by (cases "fetchIndexRange env c (xs_mediaURL st) a n (remainingIndexBudget st) w") auto
  let ?T = "ix_TransferredBytes r"
  obtain st1 e1 where charge: "(if ?T > 0 then recordIndexTransfer st ?T else (st, None)) = (st1, e1)" by fastforce
  note T = fetchIndexRange_transferred [OF fetch]
  have st1: "same_frame st st1" "xs_indexIntervals st1 = xs_indexIntervals st" "boxes st1 = boxes st"
      "leaf_count st1 = leaf_count st" "index_bytes st1 = index_bytes st + ?T"
      "e1 = None \<Longrightarrow> index_bytes st \<le> maxCumulativeIndexBytes \<Longrightarrow> index_bytes st1 \<le> maxCumulativeIndexBytes"
    using charge T(1) recordIndexTransfer_effect [of st ?T st1 e1]
    by (auto simp: same_frame_def split: if_splits)
  have near: "within 0 st \<Longrightarrow> within 1 st1"
    using st1 T(2) by (auto simp: within_def remainingIndexBudget_eq same_frame_def)
  obtain more where more: "log w1 = log w @ more" "int (length more) \<le> maxDASHAttempts"
      "set more \<subseteq> {index_request c (xs_mediaURL st) a n}"
    using fetch_log [OF fetch] by blast
  have early: "index_progress log c w st w1 st1 False"
    using st1 near more by (auto simp: index_progress_def)
  let ?s2 = "st1\<lparr>xs_indexIntervals := xs_indexIntervals st1 @ [\<lparr>mr_Start = a, mr_Length = n\<rparr>]\<rparr>"
  have s2: "index_progress log c w st w1 ?s2 False"
    using early by (auto simp: index_progress_def within_def counters same_frame_def)
  obtain s3 e3 where count: "incrementBoxCount ?s2 = (s3, e3)" by fastforce
  note c3 = incrementBoxCount_effect [OF count]
  have frame3: "same_frame st s3"
    using c3(1) st1(1) by (auto simp: same_frame_def)
  have s3: "boxes s3 = boxes st + 1" "leaf_count s3 = leaf_count st" "index_bytes s3 = index_bytes st1"
      "xs_indexIntervals s3 = xs_indexIntervals st @ [\<lparr>mr_Start = a, mr_Length = n\<rparr>]" "xs_maxLeafCount s3 = xs_maxLeafCount st"
    using c3 st1 frame3 by (auto simp: counters same_frame_def)
  have full: "index_progress log c w st w1 s3 (e3 = None)" if "e1 = None"
  proof -
    have "within 0 st \<longrightarrow> within (if e3 = None then 0 else 1) s3"
      using s3 c3(6) st1(6) that by (auto simp: within_def)
    moreover have "int (length more) \<le> maxDASHAttempts * (boxes s3 - boxes st + (if e3 = None then 0 else 1))"
      using more(2) s3(1) by (auto simp: maxDASHAttempts_def)
    ultimately show ?thesis
      using frame3 s3 more by (auto simp: index_progress_def interval_requests_def)
  qed
  from assms fetch charge count early s2 full show ?thesis
    by (auto simp: load_index_def Let_def split: option.splits sum.splits if_splits)
qed

lemma visited_progress: "index_progress log c w st w (st\<lparr>xs_visited := v\<rparr>) ok"
proof -
  have "index_bytes (st\<lparr>xs_visited := v\<rparr>) = index_bytes st" "boxes (st\<lparr>xs_visited := v\<rparr>) = boxes st"
      "leaf_count (st\<lparr>xs_visited := v\<rparr>) = leaf_count st"
    by (simp_all add: counters split: option.splits)
  then show ?thesis
    by (auto simp: index_progress_def same_frame_def within_def maxDASHAttempts_def)
qed

lemma nested_progress:
  assumes "nested_index env c w st m = (w', st', res)"
  shows "index_progress log c w st w' st' (\<not> isl res)"
proof -
  define v where "v = st\<lparr>xs_visited := insert (rangeKey (xs_mediaURL st) (mr_Start m) (mr_Length m)) (xs_visited st)\<rparr>"
  have v: "index_progress log c w st w v ok" for ok
    unfolding v_def by (rule visited_progress)
  have "index_progress log c w st w'' st'' (\<not> isl r)"
    if "load_index env c w v (mr_Start m) (mr_Length m) (remainingIndexBudget v) = (w'', st'', r)" for w'' st'' r
    using index_progress_trans [OF v load_progress [OF that]] .
  with assms v show ?thesis
    by (auto simp: nested_index_def Let_def v_def [symmetric] intro: index_progress_refl split: if_splits)
qed

lemma leaf_progress:
  assumes "incrementLeafCount st = (st', k)"
  shows "index_progress log c w st w st' (k \<le> xs_maxLeafCount st')"
  using incrementLeafCount_effect [OF assms]
  by (auto simp: index_progress_def within_def same_frame_def maxDASHAttempts_def interval_requests_def)

lemma append_leaves_progress:
  assumes "append_leaves ls r = (w', st', res)" and "index_progress log c w st w1 st1 True" and "list_all range_ok ls"
    and "\<And>w2 st2 res2. r = (w2, st2, res2) \<Longrightarrow>
      index_progress log c w1 st1 w2 st2 (\<not> isl res2) \<and> (\<forall>ls. res2 = Inr ls \<longrightarrow> list_all range_ok ls)"
  shows "index_progress log c w st w' st' (\<not> isl res) \<and> (\<forall>ls. res = Inr ls \<longrightarrow> list_all range_ok ls)"
proof -
  obtain w2 st2 res2 where r: "r = (w2, st2, res2)" by (cases r) auto
  from index_progress_trans [OF assms(2)] assms(4) [OF r] have "index_progress log c w st w2 st2 (\<not> isl res2)" by blast
  with assms(1,3) assms(4) [OF r] show ?thesis
    by (auto simp: append_leaves_def r split: sum.splits)
qed

lemma references_progress_step:
  assumes "expandSIDXReferences env c w sidx base depth st = (w', st', res)"
    and "\<And>refs w' st' res. expand_refs env c depth w st refs = (w', st', res) \<Longrightarrow> list_all (\<lambda>p. range_ok (snd p)) refs \<Longrightarrow>
      index_progress log c w st w' st' (\<not> isl res) \<and> (\<forall>ls. res = Inr ls \<longrightarrow> list_all range_ok ls)"
  shows "index_progress log c w st w' st' (\<not> isl res) \<and> (\<forall>ls. res = Inr ls \<longrightarrow> list_all range_ok ls)"
proof (cases "reference_ranges depth sidx base")
  case (Inl e)
  with assms(1) show ?thesis by (auto simp: expandSIDXReferences_def intro: index_progress_refl)
next
  case (Inr refs)
  obtain w2 st2 r2 where loop: "expand_refs env c depth w st refs = (w2, st2, r2)"
    by (cases "expand_refs env c depth w st refs") auto
  note IH = assms(2) [OF loop reference_ranges_ok [OF Inr]]
  show ?thesis
  proof (cases r2)
    case (Inl e)
    with assms(1) Inr loop IH show ?thesis by (auto simp: expandSIDXReferences_def)
  next
    case leaves: (Inr ls)
    then have ok: "index_progress log c w st w2 st2 True" "list_all range_ok ls"
      using IH by auto
    have "index_progress log c w st w2 st2 b" for b
      using ok(1) index_progress_fails [OF ok(1)] by (cases b) auto
    with assms(1) Inr loop leaves ok(2) show ?thesis
      by (auto simp: expandSIDXReferences_def check_leaves_def split: if_splits)
  qed
qed

lemma expand_refs_progress:
  "expand_refs env c depth w st refs = (w', st', res) \<Longrightarrow> list_all (\<lambda>p. range_ok (snd p)) refs \<Longrightarrow>
   index_progress log c w st w' st' (\<not> isl res) \<and> (\<forall>ls. res = Inr ls \<longrightarrow> list_all range_ok ls)"
proof (induction "maxSIDXDepth - depth" arbitrary: depth w st refs w' st' res rule: less_induct)
  case less
  show ?case
    using less.prems
  proof (induction refs arbitrary: w st w' st' res)
    case Nil
    then show ?case by (auto intro: index_progress_refl)
  next
    case (Cons p rest)
    obtain reference m where p: "p = (reference, m)" by (cases p)
    obtain w1 x where ctx: "ie_ctxErr env w = (w1, x)" by fastforce
    have start: "index_progress log c w st w1 st ok" for ok
      using ctx_log [OF ctx] by (rule index_progress_refl)
    have rest: "list_all (\<lambda>p. range_ok (snd p)) rest" and m: "range_ok m"
      using Cons.prems(2) p by auto
    have tail: "index_progress log c w2 st2 w3 st3 (\<not> isl r3) \<and> (\<forall>ls. r3 = Inr ls \<longrightarrow> list_all range_ok ls)"
      if "expand_refs env c depth w2 st2 rest = (w3, st3, r3)" for w2 st2 w3 st3 r3
      using Cons.IH [OF that rest] .
    obtain st1 k where counted: "incrementLeafCount st = (st1, k)" by fastforce
    obtain w2 st2 r2 where nested: "nested_index env c w1 st m = (w2, st2, r2)"
      by (cases "nested_index env c w1 st m") auto
    note one = index_progress_trans [OF start leaf_progress [OF counted]]
    note two = index_progress_trans [OF start nested_progress [OF nested]]
    from Cons.prems(1) [unfolded p] ctx counted nested show ?case
    proof (cases rule: expand_refs_cases)
      case quit
      with start show ?thesis by (cases res) auto
    next
      case many
      with one show ?thesis by (cases res) auto
    next
      case leaf
      with one m show ?thesis
        by (intro append_leaves_progress [OF leaf(2) _ _ tail]) auto
    next
      case broken
      with two show ?thesis by (cases res) auto
    next
      case (index sidx base)
      obtain w3 st3 r3 where deep: "expandSIDXReferences env c w2 sidx base (depth + 1) st2 = (w3, st3, r3)"
        by (cases "expandSIDXReferences env c w2 sidx base (depth + 1) st2") auto
      have deeper: "maxSIDXDepth - (depth + 1) < maxSIDXDepth - depth" using index(1) by simp
      have three: "index_progress log c w2 st2 w3 st3 (\<not> isl r3) \<and> (\<forall>ls. r3 = Inr ls \<longrightarrow> list_all range_ok ls)"
        by (rule references_progress_step [OF deep]) (rule less.hyps [OF deeper])
      have two': "index_progress log c w st w2 st2 True" using two index(2) by simp
      have three': "index_progress log c w st w3 st3 (\<not> isl r3)"
        using index_progress_trans [OF two'] three by blast
      show ?thesis
      proof (cases r3)
        case (Inl e)
        with index(3) deep three' show ?thesis by auto
      next
        case (Inr ls)
        with index(3) deep have app: "append_leaves ls (expand_refs env c depth w3 st3 rest) = (w', st', res)" by simp
        from Inr three three' show ?thesis
          by (intro append_leaves_progress [OF app _ _ tail]) auto
      qed
    qed
  qed
qed

end

definition logged_index :: "'w index_env \<Rightarrow> ('w \<times> http_request list) index_env" where
  "logged_index env =
     \<lparr>ie_ctxErr = (\<lambda>(w, sent). case ie_ctxErr env w of (w, x) \<Rightarrow> ((w, sent), x)),
      ie_do = (\<lambda>(w, sent) q. case ie_do env w q of (w, r) \<Rightarrow> ((w, sent @ [q]), r)),
      ie_wait = (\<lambda>(w, sent) d. case ie_wait env w d of (w, x) \<Rightarrow> ((w, sent), x))\<rparr>"

interpretation logged_index: index_log "logged_index env" snd
  by unfold_locales (auto simp: logged_index_def split: prod.splits)

section \<open>Disjoint ranges\<close>

definition apart :: "MediaRange \<Rightarrow> MediaRange \<Rightarrow> bool" where
  "apart r s \<longleftrightarrow> mr_Start r + mr_Length r \<le> mr_Start s \<or> mr_Start s + mr_Length s \<le> mr_Start r"

lemma in_sequence_apart:
  assumes "in_sequence rs" and "list_all range_ok rs"
  shows "sorted_wrt (\<lambda>r s. mr_Start r + mr_Length r \<le> mr_Start s) rs"
  using assms
proof (induction rs rule: in_sequence.induct)
  case (1 r1 r2 rs)
  then have rest: "sorted_wrt (\<lambda>r s. mr_Start r + mr_Length r \<le> mr_Start s) (r2 # rs)" by simp
  have "mr_Start r1 + mr_Length r1 \<le> mr_Start r2" "0 < mr_Length r2"
    using "1.prems" by (auto simp: range_ok_def)
  with rest show ?case by force
qed auto

lemma pairwise_mset:
  assumes "mset xs = mset ys" and "sorted_wrt R xs" and "symp R"
  shows "sorted_wrt R ys"
  using assms
proof (induction ys arbitrary: xs)
  case (Cons y ys)
  then have "y \<in> set xs" by (metis list.set_intros(1) mset_eq_setD)
  then obtain a b where xs: "xs = a @ y # b" by (meson split_list)
  with Cons.prems have "mset (a @ b) = mset ys" "sorted_wrt R (a @ b)" "\<forall>z \<in> set (a @ b). R y z"
    by (auto simp: sorted_wrt_append dest: sympD)
  with Cons.IH Cons.prems(3) show ?case
    by (metis mset_eq_setD sorted_wrt.simps(2))
qed simp

lemma check_leaves_apart:
  assumes "check_leaves leaves = Inr rs" and "list_all range_ok leaves"
  shows "rs = leaves \<and> sorted_wrt apart leaves"
proof (cases "length leaves > 1")
  case True
  with assms(1) have seq: "in_sequence (sort_key mr_Start leaves)" and rs: "rs = leaves"
    by (auto simp: check_leaves_def split: if_splits)
  have "list_all range_ok (sort_key mr_Start leaves)"
    using assms(2) by (simp add: list_all_iff)
  from in_sequence_apart [OF seq this] have "sorted_wrt apart (sort_key mr_Start leaves)"
    by (rule sorted_wrt_mono_rel [rotated]) (simp add: apart_def)
  with rs show ?thesis
    by (auto intro: pairwise_mset [of "sort_key mr_Start leaves"] simp: symp_def apart_def)
next
  case False
  then have "leaves = [] \<or> (\<exists>r. leaves = [r])"
    by (cases leaves) (auto simp: not_less)
  with assms(1) show ?thesis
    by (auto simp: check_leaves_def)
qed

section \<open>Properties\<close>

definition segment_range :: "Segment \<Rightarrow> MediaRange" where
  "segment_range s = \<lparr>mr_Start = sg_RangeStart s, mr_Length = sg_RangeLength s\<rparr>"

lemma segment_range_simps [simp]:
  "segment_range (range_segment url a n b) = \<lparr>mr_Start = a, mr_Length = n\<rparr>" "sg_URL (range_segment url a n b) = url"
  "sg_IndexRange (range_segment url a n b) = []" "sg_Initialize (range_segment url a n b) = b"
  by (simp_all add: segment_range_def range_segment_def)

lemma MediaRange_eta [simp]: "\<lparr>mr_Start = mr_Start r, mr_Length = mr_Length r\<rparr> = r"
  by simp

lemma clear_of_apart:
  assumes "clear_of intervals a n" and "i \<in> set intervals"
  shows "apart \<lparr>mr_Start = a, mr_Length = n\<rparr> i"
  using assms by (force simp: clear_of_def safeEnd_def apart_def list_all_iff split: option.splits if_splits)

lemma init_segments_cases:
  assumes "init_segments marker intervals rs = Inr init"
  obtains "init = []" | a n where "init = [range_segment (sg_URL marker) a n True]" "range_ok \<lparr>mr_Start = a, mr_Length = n\<rparr>"
    "\<forall>r \<in> set rs. apart \<lparr>mr_Start = a, mr_Length = n\<rparr> r" "clear_of intervals a n"
proof (cases "sg_InitRange marker = []")
  case False
  with assms obtain a b where r: "parseByteRange (sg_InitRange marker) = Some (a, b)"
      "init = [range_segment (sg_URL marker) a (b - a + 1) True]" "clear_of intervals a (b - a + 1)"
      "\<not> list_ex (\<lambda>r. a \<le> mr_Start r + mr_Length r - 1 \<and> b \<ge> mr_Start r) rs"
    by (auto simp: init_segments_def Let_def split: option.splits if_splits)
  have "a + (b - a + 1) \<le> MaxInt64"
    using r(3) by (auto simp: clear_of_def safeEnd_def split: option.splits if_splits)
  with parseByteRange_bounds [OF r(1)] have ok: "range_ok \<lparr>mr_Start = a, mr_Length = b - a + 1\<rparr>"
    by (simp add: range_ok_def)
  have "\<forall>r \<in> set rs. apart \<lparr>mr_Start = a, mr_Length = b - a + 1\<rparr> r"
    using r(4) by (auto simp: list_ex_iff apart_def)
  with that(2) r(2,3) ok show ?thesis by blast
qed (use assms that(1) in \<open>auto simp: init_segments_def\<close>)

text \<open>A run of \<open>expandOneSIDX\<close>, seen through a log of requests.\<close>

context index_log begin

lemma references_progress:
  assumes "expandSIDXReferences env c w sidx base depth st = (w', st', res)"
  shows "index_progress log c w st w' st' (\<not> isl res)"
    and "res = Inr ls \<Longrightarrow> list_all range_ok ls \<and> sorted_wrt apart ls"
proof -
  have all: "index_progress log c w st w' st' (\<not> isl res) \<and> (\<forall>ls. res = Inr ls \<longrightarrow> list_all range_ok ls)"
    by (rule references_progress_step [OF assms]) (rule expand_refs_progress)
  then show "index_progress log c w st w' st' (\<not> isl res)" by blast
  assume "res = Inr ls"
  with assms obtain leaves where "check_leaves leaves = Inr ls"
    by (auto simp: expandSIDXReferences_def split: sum.splits prod.splits)
  moreover from this have "leaves = ls" by (auto simp: check_leaves_def split: if_splits)
  ultimately show "list_all range_ok ls \<and> sorted_wrt apart ls"
    using all \<open>res = Inr ls\<close> check_leaves_apart by blast
qed

lemma expandOneSIDX_run [consumes 1, case_names refused failed expanded]:
  assumes "expandOneSIDX env c w marker session = (w', session', res)"
  obtains (refused) "w' = w" "session' = session" "isl res"
  | (failed) st where "index_progress log c w (initial_state c marker session) w' st False" "session' = xs_session st" "isl res"
  | (expanded) st rs init where "index_progress log c w (initial_state c marker session) w' st True" "session' = xs_session st"
      "list_all range_ok rs" "sorted_wrt apart rs" "init_segments marker (xs_indexIntervals st) rs = Inr init"
      "\<forall>r \<in> set rs. clear_of (xs_indexIntervals st) (mr_Start r) (mr_Length r)"
      "res = Inr (init @ map (\<lambda>r. range_segment (sg_URL marker) (mr_Start r) (mr_Length r) False) rs)"
proof (cases "\<exists>a b. parseByteRange (sg_IndexRange marker) = Some (a, b) \<and> \<not> b - a + 1 > maxIndexRangeBytes \<and>
    \<not> (case session of Some s \<Rightarrow> ss_indexBytes s \<ge> maxCumulativeIndexBytes | None \<Rightarrow> False)")
  case False
  with assms show ?thesis
    by (intro refused) (auto simp: expandOneSIDX_def Let_def split: option.splits if_splits)
next
  case True
  then obtain a b where ab: "parseByteRange (sg_IndexRange marker) = Some (a, b)" "\<not> b - a + 1 > maxIndexRangeBytes"
      "\<not> (case session of Some s \<Rightarrow> ss_indexBytes s \<ge> maxCumulativeIndexBytes | None \<Rightarrow> False)" by blast
  let ?st = "initial_state c marker session"
  obtain w1 st1 r1 where load: "load_index env c w ?st a (b - a + 1) (remainingIndexBudget ?st) = (w1, st1, r1)"
    by (cases "load_index env c w ?st a (b - a + 1) (remainingIndexBudget ?st)") auto
  note one = load_progress [OF load]
  show ?thesis
  proof (cases r1)
    case (Inl e)
    with assms ab load one show ?thesis
      by (intro failed [of st1]) (auto simp: expandOneSIDX_def Let_def)
  next
    case (Inr p)
    obtain sidx base where p: "p = (sidx, base)" by fastforce
    define st2 where "st2 = st1\<lparr>xs_visited := insert (rangeKey (sg_URL marker) a (b - a + 1)) (xs_visited st1)\<rparr>"
    obtain w3 st3 r3 where refs: "expandSIDXReferences env c w1 sidx base 0 st2 = (w3, st3, r3)"
      by (cases "expandSIDXReferences env c w1 sidx base 0 st2") auto
    have two: "index_progress log c w ?st w1 st2 True"
      using index_progress_trans [OF _ visited_progress] one Inr by (auto simp: st2_def)
    note three = index_progress_trans [OF two references_progress(1) [OF refs]]
    have eq: "(w', session', res) = (case (w3, st3, r3) of
        (w, st, Inl e) \<Rightarrow> (w, xs_session st, Inl e)
      | (w, st, Inr mediaRanges) \<Rightarrow>
          if \<not> list_all (\<lambda>leaf. clear_of (xs_indexIntervals st) (mr_Start leaf) (mr_Length leaf)) mediaRanges
          then (w, xs_session st, Inl ErrUnsupportedAddressing)
          else (w, xs_session st,
            case init_segments marker (xs_indexIntervals st) mediaRanges of
              Inl e \<Rightarrow> Inl e
            | Inr init \<Rightarrow> Inr (init @ map (\<lambda>r. range_segment (sg_URL marker) (mr_Start r) (mr_Length r) False) mediaRanges)))"
      using assms ab load Inr p refs by (simp add: expandOneSIDX_def Let_def st2_def)
    show ?thesis
    proof (cases r3)
      case (Inl e)
      with three eq show ?thesis by (intro failed [of st3]) auto
    next
      case (Inr rs)
      note fin = references_progress(2) [OF refs Inr]
      from three Inr have ok: "index_progress log c w ?st w3 st3 True" by simp
      with index_progress_fails [OF ok] eq Inr fin show ?thesis
        by (auto simp: list_all_iff intro: failed [of st3] expanded [of st3 rs] split: if_splits sum.splits)
    qed
  qed
qed

end

lemma expandOneSIDX_success:
  assumes "index_log env log" and "expandOneSIDX env c w marker session = (w', session', Inr segs)"
  obtains intervals rs init more where "log w' = log w @ more" "set more \<subseteq> interval_requests c (sg_URL marker) intervals"
    "list_all range_ok rs" "sorted_wrt apart rs" "init_segments marker intervals rs = Inr init"
    "\<forall>r \<in> set rs. clear_of intervals (mr_Start r) (mr_Length r)"
    "segs = init @ map (\<lambda>r. range_segment (sg_URL marker) (mr_Start r) (mr_Length r) False) rs"
  using assms(2)
proof (cases rule: index_log.expandOneSIDX_run [OF assms(1), consumes 1, case_names refused failed expanded])
  case (expanded st rs init)
  from expanded(1) obtain more where "log w' = log w @ more"
      "set more \<subseteq> interval_requests c (sg_URL marker) (xs_indexIntervals st)"
    by (auto simp: index_progress_def initial_state_def)
  with expanded that show ?thesis by auto
qed auto



section \<open>A sample expansion\<close>

text \<open>The index of \<open>sample_index\<close> is at the start of the resource, the initialisation follows, then the media.\<close>

definition sample_response :: index_response where
  "sample_response = \<lparr>ir_StatusCode = 206, ir_Header = header_Set fmempty ''Content-Range'' ''bytes 0-55/*'', ir_ContentLength = 56,
     ir_Body = \<lparr>bs_bytes = sidx_box sample_layout sample_index, bs_failure = None, bs_joined = False\<rparr>\<rparr>"

definition sample_index_env :: "unit index_env" where
  "sample_index_env = \<lparr>ie_ctxErr = (\<lambda>w. (w, None)), ie_do = (\<lambda>w q. (w, Inr sample_response)), ie_wait = (\<lambda>w d. (w, None))\<rparr>"

definition sample_dash_config :: DashConfig where
  "sample_dash_config = \<lparr>dc_Headers = [], dc_DynamicPolls = 1, dc_PollInterval = 0, dc_MaxSegments = 100, dc_Attempts = 0,
     dc_RetryBaseDelay = 0, dc_RetryMaxDelay = 0, dc_URLValidator = None\<rparr>"

definition sample_marker :: Segment where
  "sample_marker = (range_segment ''http://m'' 0 0 False)\<lparr>sg_IndexRange := ''0-55'', sg_InitRange := ''56-71''\<rparr>"

definition sample_session :: sidxSessionState where
  "sample_session = \<lparr>ss_indexBytes = 0, ss_boxesParsed = 0, ss_leafCount = 0\<rparr>"

lemma sample_strings:
  "parseByteRange ''0-55'' = Some (0, 55)" "parseByteRange ''56-71'' = Some (56, 71)" "url_Parse ''http://m'' \<noteq> None"
  "header_Get (header_Set fmempty ''Content-Range'' v) ''Content-Range'' = v" "validContentRange ''bytes 0-55/*'' 0 56"
proof -
  show "parseByteRange ''0-55'' = Some (0, 55)" "parseByteRange ''56-71'' = Some (56, 71)" by code_simp+
  show "url_Parse ''http://m'' \<noteq> None" by code_simp
  show "header_Get (header_Set fmempty ''Content-Range'' v) ''Content-Range'' = v"
    by (simp add: header_Get_def header_Set_def header_values_def)
  show "validContentRange ''bytes 0-55/*'' 0 56" by code_simp
qed

lemma sample_parsed:
  "ParseSIDX (sidx_box sample_layout sample_index) = Inr (sample_index, 0)" "length (sidx_box sample_layout sample_index) = 56"
proof -
  show "ParseSIDX (sidx_box sample_layout sample_index) = Inr (sample_index, 0)"
    using parse_boxes_finds [of "[]" sample_layout sample_index "[]" "[]"] sample_fits sample_size
    by (simp add: ParseSIDX_def)
  show "length (sidx_box sample_layout sample_index) = 56"
    using sample_fits(2) by (simp add: sidx_box_def length_box_bytes box_fits_def)
qed

abbreviation sample_request :: http_request where
  "sample_request \<equiv> index_request sample_dash_config ''http://m'' 0 56"

lemma sample_fetch:
  "fetchIndexRange (logged_index sample_index_env) sample_dash_config ''http://m'' 0 56 maxCumulativeIndexBytes ((), []) =
     (((), [sample_request]), \<lparr>ix_Data = sidx_box sample_layout sample_index, ix_TransferredBytes = 56\<rparr>, None)"
proof -
  have "fetchIndexRangeAttempt (logged_index sample_index_env) sample_dash_config ''http://m'' 0 56 maxCumulativeIndexBytes ((), []) =
     (((), [sample_request]), \<lparr>ix_Data = sidx_box sample_layout sample_index, ix_TransferredBytes = 56\<rparr>, None)"
    using sample_strings(3-5) sample_parsed(2)
    by (simp add: fetchIndexRangeAttempt_def validateURL_def sample_dash_config_def logged_index_def sample_index_env_def
        check_response_def sample_response_def read_index_def ReadAll_limited_def read_limit_def maxIndexRangeBytes_def
        maxCumulativeIndexBytes_def)
  then show ?thesis
    by (simp add: fetchIndexRange_def retry_def retrySettings_def defaultDASHAttempts_def maxDASHAttempts_def
        maxCumulativeIndexBytes_def sample_dash_config_def maxDASHRetryDelay_def eval_nat_numeral fetch_attempt_def no_result_def
        logged_index_def sample_index_env_def)
qed

lemma sample_references:
  "reference_ranges 0 sample_index 0 =
     Inr [(sample_reference, \<lparr>mr_Start = 72, mr_Length = 700\<rparr>),
          (sample_reference\<lparr>sr_ReferencedSize := 300\<rparr>, \<lparr>mr_Start = 772, mr_Length = 300\<rparr>)]"
  by (simp add: reference_ranges_def MediaRanges_def sample_index_def sample_reference_def sidx_addInt64_def
      addUint64ToInt64_def limits wrap64_def Let_def)

abbreviation sample_segments :: "Segment list" where
  "sample_segments \<equiv> [range_segment ''http://m'' 56 16 True, range_segment ''http://m'' 72 700 False,
     range_segment ''http://m'' 772 300 False]"

lemma sample_expansion:
  "expandOneSIDX (logged_index sample_index_env) sample_dash_config ((), []) sample_marker (Some sample_session) =
     (((), [sample_request]), Some \<lparr>ss_indexBytes = 56, ss_boxesParsed = 1, ss_leafCount = 2\<rparr>, Inr sample_segments)"
proof -
  let ?env = "logged_index sample_index_env" and ?c = sample_dash_config
  let ?st = "initial_state ?c sample_marker (Some sample_session)"
  let ?s = "\<lparr>ss_indexBytes = 56, ss_boxesParsed = 1, ss_leafCount = 0\<rparr>"
  let ?idx = "[\<lparr>mr_Start = 0, mr_Length = 56\<rparr>]"
  have st: "remainingIndexBudget ?st = maxCumulativeIndexBytes" "xs_mediaURL ?st = ''http://m''"
    by (simp_all add: remainingIndexBudget_def initial_state_def sample_session_def sample_marker_def range_segment_def)
  have load: "load_index ?env ?c ((), []) ?st 0 56 maxCumulativeIndexBytes =
      (((), [sample_request]), ?st\<lparr>xs_session := Some ?s, xs_indexIntervals := ?idx\<rparr>, Inr (sample_index, 0))"
    using sample_fetch sample_parsed(1) st(2)
    by (simp add: load_index_def recordIndexTransfer_def incrementBoxCount_def initial_state_def sample_session_def
        maxCumulativeIndexBytes_def maxSIDXBoxesPerRepresentation_def)
  have refs: "expandSIDXReferences ?env ?c ((), [sample_request]) sample_index 0 0
        (?st\<lparr>xs_session := Some ?s, xs_indexIntervals := ?idx, xs_visited := v\<rparr>) =
      (((), [sample_request]), ?st\<lparr>xs_session := Some (?s\<lparr>ss_leafCount := 2\<rparr>), xs_indexIntervals := ?idx, xs_visited := v\<rparr>,
       Inr [\<lparr>mr_Start = 72, mr_Length = 700\<rparr>, \<lparr>mr_Start = 772, mr_Length = 300\<rparr>])" for v
    unfolding expandSIDXReferences_def sample_references
    by (simp add: expand_index logged_index_def sample_index_env_def sample_reference_def incrementLeafCount_def initial_state_def
        effectiveParserLeafBudget_def maxSegmentsPerRepresentation_def append_leaves_def check_leaves_def)
  show ?thesis
    using load refs st sample_strings(1,2)
    by (simp add: expandOneSIDX_def sample_marker_def range_segment_def maxIndexRangeBytes_def sample_session_def
        maxCumulativeIndexBytes_def clear_of_def safeEnd_def limits init_segments_def)
qed



end
