(* ===== verification/LiveWindow.thy ===== *)
theory LiveWindow
  imports IndexExpansion "HOL-Library.Sublist"
begin

text \<open>
  The growing download plan of a live DASH presentation: identities of segments and their merging
  (\<open>segmentKey\<close>, \<open>mergeSegments\<close> and \<open>mergeDynamicMultiPeriodSegments\<close> of \<open>downloader.go\<close>), and the accumulator of a dynamic
  index session (\<open>segmentAccumulator\<close> and its helpers in \<open>dynamic_sidx.go\<close>).
\<close>

section \<open>Identity of segments\<close>

definition segmentKey :: "Segment \<Rightarrow> string" where
  "segmentKey s = sg_URL s @ '':'' @ Itoa (sg_RangeStart s) @ '':'' @ Itoa (sg_RangeLength s)"

definition mediaSegmentCount :: "Segment list \<Rightarrow> nat" where
  "mediaSegmentCount segments = length (filter (\<lambda>s. \<not> sg_Initialize s) segments)"

definition segmentsOverlap :: "Segment \<Rightarrow> Segment \<Rightarrow> bool" where
  "segmentsOverlap left right =
     (case (safeEnd (sg_RangeStart left) (sg_RangeLength left), safeEnd (sg_RangeStart right) (sg_RangeLength right)) of
        (Some leftEnd, Some rightEnd) \<Rightarrow> sg_RangeStart left < rightEnd \<and> sg_RangeStart right < leftEnd
      | _ \<Rightarrow> True)"

text \<open>\<open>mergeSegments\<close> appends what is new; the set holds the identities seen so far.\<close>

fun merge_new :: "string set \<Rightarrow> Segment list \<Rightarrow> Segment list" where
  "merge_new seen [] = []"
| "merge_new seen (segment # rest) =
     (if segmentKey segment \<in> seen then merge_new seen rest
      else segment # merge_new (insert (segmentKey segment) seen) rest)"

definition mergeSegments :: "Segment list \<Rightarrow> Segment list \<Rightarrow> Segment list" where
  "mergeSegments existing updated = existing @ merge_new (segmentKey ` set existing) updated"

section \<open>Alignment of windows\<close>

definition same_keys :: "Segment list \<Rightarrow> Segment list \<Rightarrow> bool" where
  "same_keys xs ys \<longleftrightarrow> list_all2 (\<lambda>x y. segmentKey x = segmentKey y) xs ys"

text \<open>The smallest number of dropped segments whose remainder is a prefix of the new window, from \<open>drop\<close> on.\<close>

fun align_loop :: "Segment list \<Rightarrow> Segment list \<Rightarrow> nat \<Rightarrow> nat option" where
  "align_loop [] updated dropped = None"
| "align_loop (p # ps) updated dropped =
     (if length (p # ps) \<le> length updated \<and> same_keys (p # ps) (take (length (p # ps)) updated) then Some dropped
      else align_loop ps updated (dropped + 1))"

definition alignLiveWindow :: "Segment list \<Rightarrow> Segment list \<Rightarrow> dash_error + nat" where
  "alignLiveWindow prior updated =
     (if prior = [] then Inr 0
      else (case align_loop prior updated 0 of None \<Rightarrow> Inl ErrUnsupportedAddressing | Some n \<Rightarrow> Inr n))"

fun append_unseen :: "string set \<Rightarrow> Segment list \<Rightarrow> Segment list option" where
  "append_unseen seen [] = Some []"
| "append_unseen seen (segment # rest) =
     (if segmentKey segment \<in> seen then None
      else map_option ((#) segment) (append_unseen (insert (segmentKey segment) seen) rest))"

text \<open>The errors of \<open>mergeDynamicMultiPeriodSegments\<close> carry only text.\<close>

definition mergeDynamicMultiPeriodSegments :: "Segment list \<Rightarrow> Segment list \<Rightarrow> Segment list option" where
  "mergeDynamicMultiPeriodSegments existing updated =
     (if existing = [] then Some updated
      else if updated = [] then Some existing
      else if length updated \<le> length existing \<and> same_keys (take (length updated) existing) updated then Some existing
      else (case align_loop existing updated 0 of
              None \<Rightarrow> None
            | Some dropped \<Rightarrow>
                map_option (\<lambda>new. existing @ new)
                  (append_unseen (segmentKey ` set existing) (drop (length existing - dropped) updated))))"

fun validate_leaves :: "Segment list \<Rightarrow> Segment list \<Rightarrow> bool" where
  "validate_leaves prior [] = True"
| "validate_leaves prior (segment # rest) =
     (if segmentKey segment \<in> segmentKey ` set prior then False
      else if list_ex (\<lambda>p. sg_URL p = sg_URL segment \<and> segmentsOverlap p segment) prior then False
      else validate_leaves (prior @ [segment]) rest)"

definition validateLiveWindowLeaves :: "Segment list \<Rightarrow> dash_error option" where
  "validateLiveWindowLeaves leaves = (if validate_leaves [] leaves then None else Some ErrUnsupportedAddressing)"

section \<open>The accumulator\<close>

record segmentAccumulator =
  sa_segments :: "Segment list"
  sa_initKey :: string
  sa_mediaLeaves :: "Segment list"
  sa_window :: "Segment list"
  sa_seenKeys :: "string set"
  sa_uniqueLeafCount :: int
  sa_maxLeafCount :: int

definition newSegmentAccumulator :: "int \<Rightarrow> segmentAccumulator" where
  "newSegmentAccumulator maxLeafCount =
     \<lparr>sa_segments = [], sa_initKey = [], sa_mediaLeaves = [], sa_window = [], sa_seenKeys = {}, sa_uniqueLeafCount = 0,
      sa_maxLeafCount = maxLeafCount\<rparr>"

fun add_leaves :: "segmentAccumulator \<Rightarrow> Segment list \<Rightarrow> segmentAccumulator \<times> dash_error option" where
  "add_leaves a [] = (a, None)"
| "add_leaves a (segment # rest) =
     (let key = segmentKey segment
      in if key \<in> sa_seenKeys a then (a, Some ErrUnsupportedAddressing)
         else if list_ex (\<lambda>e. sg_URL e = sg_URL segment \<and> segmentsOverlap e segment) (sa_mediaLeaves a)
           then (a, Some ErrUnsupportedAddressing)
         else let a = a\<lparr>sa_mediaLeaves := sa_mediaLeaves a @ [segment], sa_segments := sa_segments a @ [segment],
                        sa_seenKeys := insert key (sa_seenKeys a), sa_uniqueLeafCount := sa_uniqueLeafCount a + 1\<rparr>
         in if sa_maxLeafCount a \<ge> 0 \<and> sa_uniqueLeafCount a > sa_maxLeafCount a then (a, Some ErrTooManySegments)
            else add_leaves a rest)"

definition mergeMediaWindow :: "segmentAccumulator \<Rightarrow> Segment list \<Rightarrow> segmentAccumulator \<times> dash_error option" where
  "mergeMediaWindow a updated =
     (case validateLiveWindowLeaves updated of
        Some e \<Rightarrow> (a, Some e)
      | None \<Rightarrow>
          (case alignLiveWindow (sa_window a) updated of
             Inl e \<Rightarrow> (a, Some e)
           | Inr dropped \<Rightarrow>
               (case add_leaves a (drop (length (sa_window a) - dropped) updated) of
                  (a, Some e) \<Rightarrow> (a, Some e)
                | (a, None) \<Rightarrow> (a\<lparr>sa_window := updated\<rparr>, None))))"

definition merge :: "segmentAccumulator \<Rightarrow> Segment list \<Rightarrow> segmentAccumulator \<times> dash_error option" where
  "merge a expanded =
     (let inits = filter sg_Initialize expanded; media = filter (\<lambda>s. \<not> sg_Initialize s) expanded
      in case inits of
           [] \<Rightarrow> mergeMediaWindow a media
         | [init] \<Rightarrow>
             let key = segmentKey init
             in if sa_initKey a = [] then
                  mergeMediaWindow (a\<lparr>sa_initKey := key, sa_segments := init # sa_segments a\<rparr>) media
                else if sa_initKey a \<noteq> key then (a, Some ErrUnsupportedAddressing)
                else mergeMediaWindow a media
         | _ \<Rightarrow> (a, Some ErrUnsupportedAddressing))"

section \<open>Limits\<close>

definition fragmentHardSegmentCap :: int where "fragmentHardSegmentCap = 10000"

definition effectiveDynamicSIDXMediaLeafLimit :: "int \<Rightarrow> int \<Rightarrow> dash_error + int" where
  "effectiveDynamicSIDXMediaLeafLimit configuredMax initCount =
     (if configuredMax < 0 then Inl ErrTooManySegments
      else let limit = (if configuredMax > int maxSegmentsPerRepresentation then int maxSegmentsPerRepresentation else configuredMax);
               initCount = (if initCount < 0 then 0 else initCount)
      in if initCount > fragmentHardSegmentCap then Inr 0
         else let fragmentMediaCap = fragmentHardSegmentCap - initCount
         in Inr (if limit > fragmentMediaCap then fragmentMediaCap else limit))"

definition validateDynamicSIDXMaxSegmentsConfigured :: "int \<Rightarrow> dash_error option" where
  "validateDynamicSIDXMaxSegmentsConfigured configuredMax = (if configuredMax < 0 then Some ErrTooManySegments else None)"

definition initSegmentCountFromMarkers :: "Segment list \<Rightarrow> int" where
  "initSegmentCountFromMarkers segments =
     (if list_ex (\<lambda>s. sg_IndexRange s \<noteq> [] \<and> sg_InitRange s \<noteq> []) segments then 1 else 0)"

definition validateDynamicSIDXOutputBudget :: "Segment list \<Rightarrow> int \<Rightarrow> dash_error option" where
  "validateDynamicSIDXOutputBudget segments configuredMax =
     (case validateDynamicSIDXMaxSegmentsConfigured configuredMax of
        Some e \<Rightarrow> Some e
      | None \<Rightarrow>
          let mediaCount = int (mediaSegmentCount segments); initCount = int (length segments) - mediaCount
          in (case effectiveDynamicSIDXMediaLeafLimit configuredMax initCount of
                Inl e \<Rightarrow> Some e
              | Inr limit \<Rightarrow> if mediaCount > limit then Some ErrTooManySegments else None))"

section \<open>Keys are identities\<close>

lemma decimal_snoc: "decimal (s @ [c]) = 10 * decimal s + (int (of_char c) - 48)"
  by (simp add: decimal_def)

lemma decimal_digits: "decimal (digits n) = int n"
proof (induction n rule: digits.induct)
  case (1 n)
  show ?case
  proof (cases "n < 10")
    case True
    then show ?thesis by (subst digits.simps) (simp add: decimal_def)
  next
    case False
    have "n mod 10 < 10" by simp
    with 1 False show ?thesis by (subst digits.simps) (simp add: decimal_snoc, presburger)
  qed
qed

lemma decimal_zeros: "decimal (replicate n (CHR ''0'') @ s) = decimal s"
  by (induction n) (simp_all add: decimal_def)

lemma digits_isDigits: "isDigits (digits n)"
proof (induction n rule: digits.induct)
  case (1 n)
  have "n mod 10 < 10" by simp
  with 1 show ?case by (subst digits.simps) (auto simp: isDigits_def)
qed

lemma Itoa_inject: "Itoa i = Itoa j \<longleftrightarrow> i = j"
proof
  assume eq: "Itoa i = Itoa j"
  have nominus: "CHR ''-'' # digits m \<noteq> digits n" for m n
    using digits_isDigits [of n] by (cases "digits n") (auto simp: isDigits_def)
  have same: "digits m = digits n \<Longrightarrow> m = n" for m n
    by (metis decimal_digits of_nat_eq_iff)
  show "i = j"
  proof (cases "i < 0 \<longleftrightarrow> j < 0")
    case True
    with eq same show ?thesis by (force simp: Itoa_def split: if_splits)
  next
    case False
    with eq nominus nominus [symmetric] show ?thesis by (auto simp: Itoa_def split: if_splits)
  qed
qed simp

lemma last_separator:
  assumes "xs @ c # ys = xs' @ c # ys'" and "c \<notin> set ys" and "c \<notin> set ys'"
  shows "xs = xs' \<and> ys = ys'"
proof -
  have "takeWhile (\<lambda>x. x \<noteq> c) (rev zs @ c # rs) = rev zs" if "c \<notin> set zs" for zs rs
    using that by (auto simp: takeWhile_tail takeWhile_eq_all_conv)
  note tw = this
  have "rev ys @ c # rev xs = rev ys' @ c # rev xs'"
    using arg_cong [OF assms(1), of rev] by simp
  from arg_cong [OF this, of "takeWhile (\<lambda>x. x \<noteq> c)"] tw [OF assms(2)] tw [OF assms(3)] have "rev ys = rev ys'" by simp
  with assms(1) show ?thesis by simp
qed

lemma segmentKey_inject:
  "segmentKey s = segmentKey t \<longleftrightarrow>
     sg_URL s = sg_URL t \<and> sg_RangeStart s = sg_RangeStart t \<and> sg_RangeLength s = sg_RangeLength t"
proof
  have colon: "CHR '':'' \<notin> set (Itoa n)" for n
    using Itoa_plain [of "CHR '':''" n] by auto
  assume eq: "segmentKey s = segmentKey t"
  have "(sg_URL s @ '':'' @ Itoa (sg_RangeStart s)) = (sg_URL t @ '':'' @ Itoa (sg_RangeStart t)) \<and>
      Itoa (sg_RangeLength s) = Itoa (sg_RangeLength t)"
    by (rule last_separator) (use eq colon in \<open>auto simp: segmentKey_def\<close>)
  moreover from this have "sg_URL s = sg_URL t \<and> Itoa (sg_RangeStart s) = Itoa (sg_RangeStart t)"
    by (intro last_separator) (use colon in auto)
  ultimately show "sg_URL s = sg_URL t \<and> sg_RangeStart s = sg_RangeStart t \<and> sg_RangeLength s = sg_RangeLength t"
    by (simp add: Itoa_inject)
qed (simp add: segmentKey_def)

section \<open>Invariant of the plan\<close>

definition keys :: "Segment list \<Rightarrow> string list" where
  "keys ss = map segmentKey ss"

definition separate :: "Segment \<Rightarrow> Segment \<Rightarrow> bool" where
  "separate s t \<longleftrightarrow> segmentKey s \<noteq> segmentKey t \<and> (sg_URL s = sg_URL t \<longrightarrow> \<not> segmentsOverlap s t)"

lemma keys_append [simp]: "keys (xs @ ys) = keys xs @ keys ys"
  by (simp add: keys_def)

lemma keys_take_drop: "keys (take k ss) @ keys (drop k ss) = keys ss"
  by (simp flip: keys_append)

lemma same_keys_iff: "same_keys xs ys \<longleftrightarrow> keys xs = keys ys"
  unfolding same_keys_def keys_def list.rel_eq [symmetric] list.rel_map ..

lemma separate_snoc:
  assumes "sorted_wrt separate xs" and "segmentKey s \<notin> segmentKey ` set xs"
    and "\<not> list_ex (\<lambda>e. sg_URL e = sg_URL s \<and> segmentsOverlap e s) xs"
  shows "sorted_wrt separate (xs @ [s])"
proof -
  have "separate x s" if "x \<in> set xs" for x
  proof -
    have "segmentKey x \<noteq> segmentKey s" using assms(2) that by (metis imageI)
    with assms(3) that show ?thesis by (auto simp: separate_def list_ex_iff)
  qed
  with assms(1) show ?thesis by (simp add: sorted_wrt_append)
qed

lemma align_loop_correct:
  "align_loop prior updated d = Some n \<Longrightarrow>
     d \<le> n \<and> n - d < length prior \<and> keys (drop (n - d) prior) = keys (take (length prior - (n - d)) updated) \<and>
     length prior - (n - d) \<le> length updated"
proof (induction prior arbitrary: d)
  case (Cons p ps)
  show ?case
  proof (cases "length (p # ps) \<le> length updated \<and> same_keys (p # ps) (take (length (p # ps)) updated)")
    case True
    then have "keys (p # ps) = keys (take (length (p # ps)) updated)"
      by (simp add: same_keys_iff)
    with True Cons.prems show ?thesis by auto
  next
    case False
    with Cons.prems have "align_loop ps updated (d + 1) = Some n" by auto
    with Cons.IH have IH: "d + 1 \<le> n \<and> n - (d + 1) < length ps \<and>
       keys (drop (n - (d + 1)) ps) = keys (take (length ps - (n - (d + 1))) updated) \<and> length ps - (n - (d + 1)) \<le> length updated" by blast
    then have "n - d = Suc (n - (d + 1))" by linarith
    with IH show ?thesis by simp
  qed
qed simp

lemma validate_leaves_correct:
  "validate_leaves prior leaves \<Longrightarrow> sorted_wrt separate prior \<Longrightarrow> sorted_wrt separate (prior @ leaves)"
proof (induction prior leaves rule: validate_leaves.induct)
  case (2 prior segment rest)
  from "2.prems"(1) have fresh: "segmentKey segment \<notin> segmentKey ` set prior"
      "\<not> list_ex (\<lambda>p. sg_URL p = sg_URL segment \<and> segmentsOverlap p segment) prior"
      and rest: "validate_leaves (prior @ [segment]) rest"
    by (simp_all split: if_splits)
  from "2.IH" [OF fresh rest separate_snoc [OF "2.prems"(2) fresh]] show ?case by simp
qed simp

text \<open>
  The plan: an initialisation segment at most, then the media leaves, pairwise separate, at most as many as allowed, the
  last of them those of the window.
\<close>

definition plan_ok :: "segmentAccumulator \<Rightarrow> bool" where
  "plan_ok a \<longleftrightarrow>
     (if sa_initKey a = [] then sa_segments a = sa_mediaLeaves a
      else (\<exists>init. sg_Initialize init \<and> segmentKey init = sa_initKey a \<and> sa_segments a = init # sa_mediaLeaves a)) \<and>
     sorted_wrt separate (sa_mediaLeaves a) \<and> list_all (\<lambda>s. \<not> sg_Initialize s) (sa_mediaLeaves a) \<and>
     sa_seenKeys a = set (keys (sa_mediaLeaves a)) \<and>
     sa_uniqueLeafCount a = int (length (sa_mediaLeaves a)) \<and>
     (0 \<le> sa_maxLeafCount a \<longrightarrow> sa_uniqueLeafCount a \<le> sa_maxLeafCount a)"

lemma add_leaves_ok:
  assumes "add_leaves a new = (a', None)" and "plan_ok a" and "list_all (\<lambda>s. \<not> sg_Initialize s) new"
  shows "plan_ok a' \<and> sa_mediaLeaves a' = sa_mediaLeaves a @ new \<and> sa_window a' = sa_window a \<and>
    sa_maxLeafCount a' = sa_maxLeafCount a \<and> sa_initKey a' = sa_initKey a"
  using assms
proof (induction new arbitrary: a)
  case (Cons s new)
  define b where "b = a\<lparr>sa_mediaLeaves := sa_mediaLeaves a @ [s], sa_segments := sa_segments a @ [s],
    sa_seenKeys := insert (segmentKey s) (sa_seenKeys a), sa_uniqueLeafCount := sa_uniqueLeafCount a + 1\<rparr>"
  from Cons.prems(1) have step: "segmentKey s \<notin> sa_seenKeys a"
      "\<not> list_ex (\<lambda>e. sg_URL e = sg_URL s \<and> segmentsOverlap e s) (sa_mediaLeaves a)"
      "\<not> (sa_maxLeafCount b \<ge> 0 \<and> sa_uniqueLeafCount b > sa_maxLeafCount b)" "add_leaves b new = (a', None)"
    unfolding b_def by (auto simp: Let_def split: if_splits)
  have "sorted_wrt separate (sa_mediaLeaves a @ [s])"
    using Cons.prems(2) step(1,2) by (intro separate_snoc) (auto simp: plan_ok_def keys_def)
  with Cons.prems(2,3) step(3) have "plan_ok b"
    by (auto simp: plan_ok_def b_def keys_def split: if_splits)
  from Cons.IH [OF step(4) this] Cons.prems(3) show ?case
    by (simp add: b_def)
qed simp

definition window_ok :: "segmentAccumulator \<Rightarrow> bool" where
  "window_ok a \<longleftrightarrow> suffix (keys (sa_window a)) (keys (sa_mediaLeaves a))"

lemma alignLiveWindow_correct:
  assumes "alignLiveWindow prior updated = Inr n"
  shows "keys (drop n prior) = keys (take (length prior - n) updated)"
  using assms align_loop_correct [of prior updated 0 n]
  by (auto simp: alignLiveWindow_def keys_def split: if_splits option.splits)

lemma mergeMediaWindow_ok:
  assumes "mergeMediaWindow a updated = (a', None)" and "plan_ok a" and "window_ok a"
    and "list_all (\<lambda>s. \<not> sg_Initialize s) updated"
  shows "plan_ok a' \<and> window_ok a' \<and> sa_window a' = updated \<and> sa_maxLeafCount a' = sa_maxLeafCount a \<and>
    sa_initKey a' = sa_initKey a \<and> (\<exists>new. sa_mediaLeaves a' = sa_mediaLeaves a @ new \<and> set new \<subseteq> set updated)"
proof -
  from assms(1) obtain n b where align: "alignLiveWindow (sa_window a) updated = Inr n"
      and add: "add_leaves a (drop (length (sa_window a) - n) updated) = (b, None)" and a': "a' = b\<lparr>sa_window := updated\<rparr>"
    by (auto simp: mergeMediaWindow_def split: option.splits sum.splits prod.splits)
  define k where "k = length (sa_window a) - n"
  have new: "list_all (\<lambda>s. \<not> sg_Initialize s) (drop k updated)"
    using assms(4) by (auto simp: list_all_iff dest: in_set_dropD)
  note b = add_leaves_ok [OF add [folded k_def] assms(2) new]
  obtain xs where xs: "keys (sa_mediaLeaves a) = xs @ keys (sa_window a)"
    using assms(3) by (auto simp: window_ok_def suffix_def)
  have "keys (sa_window a) = keys (take n (sa_window a)) @ keys (take k updated)"
    using alignLiveWindow_correct [OF align, folded k_def] by (metis append_take_drop_id keys_def map_append)
  then have "keys (sa_mediaLeaves b) = (xs @ keys (take n (sa_window a))) @ keys (take k updated) @ keys (drop k updated)"
    using b xs by simp
  then have "suffix (keys updated) (keys (sa_mediaLeaves b))"
    unfolding keys_take_drop by (metis suffixI)
  moreover have "plan_ok b" using b by blast
  then have "plan_ok a'" by (auto simp: a' plan_ok_def)
  ultimately show ?thesis
    using b set_drop_subset [of k updated] by (auto simp: a' window_ok_def)
qed

lemma merge_ok:
  assumes "merge a expanded = (a', None)" and "plan_ok a" and "window_ok a"
  shows "plan_ok a' \<and> window_ok a' \<and> sa_window a' = filter (\<lambda>s. \<not> sg_Initialize s) expanded \<and>
    sa_maxLeafCount a' = sa_maxLeafCount a \<and>
    (\<exists>new. sa_mediaLeaves a' = sa_mediaLeaves a @ new \<and> set new \<subseteq> set expanded)"
proof -
  let ?media = "filter (\<lambda>s. \<not> sg_Initialize s) expanded"
  have media: "list_all (\<lambda>s. \<not> sg_Initialize s) ?media" by (simp add: list_all_iff)
  have key: "segmentKey s \<noteq> []" for s by (simp add: segmentKey_def)
  from assms(1) obtain b where b: "mergeMediaWindow b ?media = (a', None)"
      and "b = a \<or> (\<exists>init. sg_Initialize init \<and> sa_initKey a = [] \<and>
        b = a\<lparr>sa_initKey := segmentKey init, sa_segments := init # sa_segments a\<rparr>)"
  proof (cases "filter sg_Initialize expanded")
    case (Cons init rest)
    have init: "sg_Initialize init" using arg_cong [OF Cons, of set] by auto
    show ?thesis
    proof (cases "rest = [] \<and> sa_initKey a = []")
      case True
      with assms(1) Cons init show ?thesis
        by (intro that [of "a\<lparr>sa_initKey := segmentKey init, sa_segments := init # sa_segments a\<rparr>"])
          (auto simp: merge_def Let_def)
    next
      case False
      with assms(1) Cons show ?thesis
        by (intro that [of a]) (cases rest; auto simp: merge_def Let_def split: if_splits)+
    qed
  qed (auto simp: merge_def)
  then have "plan_ok b" "window_ok b" "sa_mediaLeaves b = sa_mediaLeaves a" "sa_maxLeafCount b = sa_maxLeafCount a"
    using assms(2,3) key by (auto simp: plan_ok_def window_ok_def)
  with mergeMediaWindow_ok [OF b _ _ media] show ?thesis by auto
qed

text \<open>The snapshots of a session, one after the other.\<close>

fun merge_all :: "segmentAccumulator \<Rightarrow> Segment list list \<Rightarrow> segmentAccumulator \<times> dash_error option" where
  "merge_all a [] = (a, None)"
| "merge_all a (s # ss) = (case merge a s of (a, None) \<Rightarrow> merge_all a ss | (a, Some e) \<Rightarrow> (a, Some e))"

lemma merge_all_ok:
  assumes "merge_all a ss = (a', None)" and "plan_ok a" and "window_ok a"
  shows "plan_ok a' \<and> sa_maxLeafCount a' = sa_maxLeafCount a \<and>
    (\<exists>new. sa_mediaLeaves a' = sa_mediaLeaves a @ new \<and> set new \<subseteq> \<Union> (set ` set ss)) \<and>
    (\<forall>s \<in> set ss. sublist (keys (filter (\<lambda>x. \<not> sg_Initialize x) s)) (keys (sa_mediaLeaves a')))"
  using assms
proof (induction ss arbitrary: a)
  case (Cons s ss)
  then obtain b where b: "merge a s = (b, None)" "merge_all b ss = (a', None)"
    by (auto split: prod.splits option.splits)
  note m = merge_ok [OF b(1) Cons.prems(2,3)]
  with Cons.IH [OF b(2)] obtain n1 n2 where n: "sa_mediaLeaves b = sa_mediaLeaves a @ n1" "set n1 \<subseteq> set s"
      "sa_mediaLeaves a' = sa_mediaLeaves b @ n2" "set n2 \<subseteq> \<Union> (set ` set ss)" by blast
  have "suffix (keys (filter (\<lambda>x. \<not> sg_Initialize x) s)) (keys (sa_mediaLeaves b))"
    using m unfolding window_ok_def by metis
  then have "sublist (keys (filter (\<lambda>x. \<not> sg_Initialize x) s)) (keys (sa_mediaLeaves a'))"
    unfolding n(3) by (auto simp: suffix_def sublist_def) blast
  with n m Cons.IH [OF b(2)] show ?case by auto
qed auto

section \<open>Properties\<close>

text \<open>
  C30. The plan of a dynamic index session. After any snapshots that were all accepted, the plan is at most one
  initialisation segment followed by media leaves that all come from the snapshots, no two of which have the same
  identity or share a byte of a resource, no more than the limit; and the media of every snapshot, in
  its order and without a gap, is a part of the plan: no leaf is lost when the window moves on, and none is downloaded twice.
\<close>

theorem live_plan_is_gapless:
  assumes "merge_all (newSegmentAccumulator limit) snapshots = (a, None)" and "0 \<le> limit"
  shows "\<exists>init. length init \<le> 1 \<and> list_all sg_Initialize init \<and> sa_segments a = init @ sa_mediaLeaves a \<and>
    set (sa_mediaLeaves a) \<subseteq> {s \<in> \<Union> (set ` set snapshots). \<not> sg_Initialize s} \<and>
    sorted_wrt separate (sa_mediaLeaves a) \<and> int (length (sa_mediaLeaves a)) \<le> limit \<and>
    (\<forall>s \<in> set snapshots. sublist (keys (filter (\<lambda>x. \<not> sg_Initialize x) s)) (keys (sa_mediaLeaves a)))"
proof -
  have "plan_ok (newSegmentAccumulator limit)" "window_ok (newSegmentAccumulator limit)"
    using assms(2) by (simp_all add: newSegmentAccumulator_def plan_ok_def window_ok_def keys_def)
  note all = merge_all_ok [OF assms(1) this]
  have start: "sa_mediaLeaves (newSegmentAccumulator limit) = []" "sa_maxLeafCount (newSegmentAccumulator limit) = limit"
    by (simp_all add: newSegmentAccumulator_def)
  have plan: "plan_ok a" using all by blast
  then obtain init where "length init \<le> 1" "list_all sg_Initialize init" "sa_segments a = init @ sa_mediaLeaves a"
    by (cases "sa_initKey a = []") (auto simp: plan_ok_def intro: that [of "[]"] that [of "[_]"])
  with all plan start assms(2) show ?thesis
    by (intro exI [of _ init]) (auto simp: plan_ok_def list_all_iff)
qed

text \<open>The window of two leaves moves on by one.\<close>

definition leaf :: "int \<Rightarrow> Segment" where
  "leaf i = range_segment ''u'' (10 * i) 10 False"

theorem live_plan_is_gapless_witness:
  "\<exists>a. merge_all (newSegmentAccumulator 5) [[range_segment ''u'' 90 5 True, leaf 0, leaf 1], [leaf 1, leaf 2]] = (a, None) \<and>
    sa_mediaLeaves a = [leaf 0, leaf 1, leaf 2] \<and> sorted_wrt separate (sa_mediaLeaves a)"
proof -
  define a where "a = \<lparr>sa_segments = [range_segment ''u'' 90 5 True, leaf 0, leaf 1, leaf 2],
    sa_initKey = segmentKey (range_segment ''u'' 90 5 True), sa_mediaLeaves = [leaf 0, leaf 1, leaf 2],
    sa_window = [leaf 1, leaf 2], sa_seenKeys = {segmentKey (leaf 2), segmentKey (leaf 1), segmentKey (leaf 0)},
    sa_uniqueLeafCount = 3, sa_maxLeafCount = 5\<rparr>"
  have "merge_all (newSegmentAccumulator 5) [[range_segment ''u'' 90 5 True, leaf 0, leaf 1], [leaf 1, leaf 2]] = (a, None)"
    unfolding a_def by code_simp
  from live_plan_is_gapless [OF this] this show ?thesis
    by (auto simp: a_def)
qed

end
