(* ===== verification/DashSelect.thy ===== *)
theory DashSelect
  imports LiveWindow "HOL-Library.Char_ord" "HOL-Library.List_Lexorder" "HOL-Library.Product_Lexorder"
begin

text \<open>
  The choice of DASH representations (\<open>internal/protocol/dash/downloader.go\<close> on the data of \<open>mpd.go\<close>): kinds, signatures and their
  order, the best representation per kind, the combination of compatible representations of several periods, and the
  merging of later snapshots of a multi-period presentation. Go visits the entries of a map in any order; the functions
  that iterate over one take the order as an argument.
\<close>

section \<open>Data\<close>

text \<open>Durations are nanoseconds.\<close>

record Period =
  pd_ID :: string
  pd_Start :: i64
  pd_Duration :: i64
  pd_TimingKnown :: bool

record ResumeStructure =
  rs_Complete :: bool
  rs_PeriodID :: string
  rs_PeriodIndex :: int
  rs_PeriodStartNanos :: i64
  rs_PeriodDurationNanos :: i64
  rs_PeriodTimingKnown :: bool
  rs_AdaptationSetID :: string
  rs_AddressingMode :: string
  rs_NumberTimeRole :: string
  rs_Timescale :: i64
  rs_PresentationTimeOffset :: i64
  rs_StartNumber :: i64
  rs_SegmentDuration :: i64
  rs_FrameRate :: string
  rs_AudioRate :: string
  rs_TemplateGrammar :: string
  rs_TimelineGrammar :: string
  rs_InitializationIdentity :: string
  rs_InitializationRangeStart :: i64
  rs_InitializationRangeLength :: i64
  rs_IndexRangeStart :: i64
  rs_IndexRangeLength :: i64

definition zero_resume :: ResumeStructure where
  "zero_resume =
     \<lparr>rs_Complete = False, rs_PeriodID = [], rs_PeriodIndex = 0, rs_PeriodStartNanos = 0, rs_PeriodDurationNanos = 0,
      rs_PeriodTimingKnown = False, rs_AdaptationSetID = [], rs_AddressingMode = [], rs_NumberTimeRole = [], rs_Timescale = 0,
      rs_PresentationTimeOffset = 0, rs_StartNumber = 0, rs_SegmentDuration = 0, rs_FrameRate = [], rs_AudioRate = [],
      rs_TemplateGrammar = [], rs_TimelineGrammar = [], rs_InitializationIdentity = [], rs_InitializationRangeStart = 0,
      rs_InitializationRangeLength = 0, rs_IndexRangeStart = 0, rs_IndexRangeLength = 0\<rparr>"

record Representation =
  rp_ID :: string
  rp_PeriodID :: string
  rp_PeriodIndex :: int
  rp_AdaptationSetID :: string
  rp_Fragmented :: bool
  rp_ContentType :: string
  rp_MimeType :: string
  rp_Codecs :: string
  rp_Language :: string
  rp_FrameRate :: string
  rp_AudioRate :: string
  rp_Bandwidth :: i64
  rp_Width :: int
  rp_Height :: int
  rp_Addressing :: string
  rp_Segments :: "Segment list"
  rp_PeriodSegments :: "Segment list list"
  rp_PeriodIDs :: "string list"
  rp_PeriodRepresentationIDs :: "string list"
  rp_PeriodAddressings :: "string list"
  rp_Resume :: ResumeStructure

record MPD =
  mpd_Dynamic :: bool
  mpd_MinimumUpdatePeriod :: i64
  mpd_PresentationDuration :: i64
  mpd_PeriodCount :: int
  mpd_Periods :: "Period list"
  mpd_Representations :: "Representation list"

section \<open>Kinds and signatures\<close>

definition representationKind :: "Representation \<Rightarrow> string" where
  "representationKind r =
     (let kind = rp_ContentType r;
          kind = (if kind = [] then fst (Cut (rp_MimeType r) (CHR ''/'')) else kind)
      in if kind \<noteq> ''audio'' \<and> kind \<noteq> ''video'' then ''media'' else kind)"

text \<open>\<open>filepath.Clean\<close> returns each of the three kinds unchanged.\<close>

definition trackSuffix :: "Representation \<Rightarrow> string" where
  "trackSuffix r = representationKind r"

definition representationKey :: "Representation \<Rightarrow> string" where
  "representationKey r = trackSuffix r @ [CHR 0x00] @ rp_ID r"

record representationSignature =
  sig_Kind :: string
  sig_MimeType :: string
  sig_Codecs :: string
  sig_Language :: string
  sig_FrameRate :: string
  sig_AudioRate :: string
  sig_Bandwidth :: i64
  sig_Width :: int
  sig_Height :: int

definition signatureFor :: "Representation \<Rightarrow> representationSignature" where
  "signatureFor r =
     \<lparr>sig_Kind = representationKind r, sig_MimeType = rp_MimeType r, sig_Codecs = rp_Codecs r, sig_Language = rp_Language r,
      sig_FrameRate = rp_FrameRate r, sig_AudioRate = rp_AudioRate r, sig_Bandwidth = rp_Bandwidth r,
      sig_Width = rp_Width r, sig_Height = rp_Height r\<rparr>"

definition betterSignature :: "representationSignature \<Rightarrow> representationSignature \<Rightarrow> bool" where
  "betterSignature candidate current =
     (if sig_Bandwidth candidate \<noteq> sig_Bandwidth current then sig_Bandwidth candidate > sig_Bandwidth current
      else if sig_Height candidate \<noteq> sig_Height current then sig_Height candidate > sig_Height current
      else if sig_Width candidate \<noteq> sig_Width current then sig_Width candidate > sig_Width current
      else if sig_Codecs candidate \<noteq> sig_Codecs current then sig_Codecs candidate < sig_Codecs current
      else if sig_Language candidate \<noteq> sig_Language current then sig_Language candidate < sig_Language current
      else if sig_FrameRate candidate \<noteq> sig_FrameRate current then sig_FrameRate candidate < sig_FrameRate current
      else if sig_AudioRate candidate \<noteq> sig_AudioRate current then sig_AudioRate candidate < sig_AudioRate current
      else sig_MimeType candidate < sig_MimeType current)"

section \<open>One period\<close>

text \<open>A map with its entries in the order of insertion.\<close>

definition note_best :: "Representation \<Rightarrow> (string \<times> Representation) list \<Rightarrow> (string \<times> Representation) list" where
  "note_best r best =
     (case map_of best (representationKind r) of
        None \<Rightarrow> best @ [(representationKind r, r)]
      | Some current \<Rightarrow>
          if rp_Bandwidth r > rp_Bandwidth current
          then map (\<lambda>(k, v). if k = representationKind r then (k, r) else (k, v)) best else best)"

definition selectBestRepresentations ::
    "((string \<times> Representation) list \<Rightarrow> (string \<times> Representation) list) \<Rightarrow> Representation list \<Rightarrow> Representation list" where
  "selectBestRepresentations order representations = sort_key trackSuffix (map snd (order (fold note_best representations [])))"

section \<open>Several periods\<close>

definition addPeriodDuration :: "i64 \<Rightarrow> i64 \<Rightarrow> i64 option" where
  "addPeriodDuration start duration =
     (if start < 0 \<or> duration < 0 \<or> start > MaxInt64 - duration then None else Some (start + duration))"

fun timing_ok :: "i64 \<Rightarrow> bool \<Rightarrow> Period list \<Rightarrow> bool" where
  "timing_ok presentation first [] = True"
| "timing_ok presentation first (period # rest) =
     (if \<not> pd_TimingKnown period \<or> pd_Duration period \<le> 0 then False
      else if first \<and> pd_Start period \<noteq> 0 then False
      else (case addPeriodDuration (pd_Start period) (pd_Duration period) of
              None \<Rightarrow> False
            | Some ends \<Rightarrow>
                (case rest of
                   [] \<Rightarrow> \<not> (presentation > 0 \<and> ends \<noteq> presentation)
                 | following # _ \<Rightarrow> pd_Start following = ends \<and> timing_ok presentation False rest)))"

definition validateMultiPeriodTiming :: "MPD \<Rightarrow> dash_error option" where
  "validateMultiPeriodTiming mpd =
     (if int (length (mpd_Periods mpd)) \<noteq> mpd_PeriodCount mpd then Some ErrUnsupportedAddressing
      else if timing_ok (mpd_PresentationDuration mpd) True (mpd_Periods mpd) then None else Some ErrUnsupportedAddressing)"

text \<open>The map from signatures to the first fragmented representation of a kind that has it.\<close>

definition note_format ::
    "string \<Rightarrow> Representation \<Rightarrow> (representationSignature \<times> Representation) list \<Rightarrow>
      (representationSignature \<times> Representation) list" where
  "note_format kind r formats =
     (if representationKind r \<noteq> kind then formats
      else if \<not> rp_Fragmented r then formats
      else if map_of formats (signatureFor r) \<noteq> None then formats
      else formats @ [(signatureFor r, r)])"

definition period_formats :: "string \<Rightarrow> Representation list \<Rightarrow> (representationSignature \<times> Representation) list" where
  "period_formats kind period = fold (note_format kind) period []"

definition best_signature ::
    "(representationSignature \<times> Representation) list list \<Rightarrow> representationSignature list \<Rightarrow> representationSignature option" where
  "best_signature later signatures =
     fold (\<lambda>s best.
             if list_all (\<lambda>formats. map_of formats s \<noteq> None) later \<and>
                (case best of None \<Rightarrow> True | Some b \<Rightarrow> betterSignature s b) then Some s else best) signatures None"

fun combine_periods :: "Representation \<Rightarrow> Representation list \<Rightarrow> dash_error + Representation" where
  "combine_periods combined [] = Inr combined"
| "combine_periods combined (r # rest) =
     (if length (rp_Segments combined) + length (rp_Segments r) > maxSegmentsPerRepresentation
      then Inl ErrUnsupportedAddressing
      else combine_periods (combined\<lparr>rp_PeriodSegments := rp_PeriodSegments combined @ [rp_Segments r],
             rp_PeriodIDs := rp_PeriodIDs combined @ [rp_PeriodID r],
             rp_PeriodRepresentationIDs := rp_PeriodRepresentationIDs combined @ [rp_ID r],
             rp_PeriodAddressings := rp_PeriodAddressings combined @ [rp_Addressing r],
             rp_Segments := rp_Segments combined @ rp_Segments r\<rparr>) rest)"

definition combine_kind ::
    "(representationSignature list \<Rightarrow> representationSignature list) \<Rightarrow> Representation list list \<Rightarrow> string \<Rightarrow>
      dash_error + Representation" where
  "combine_kind order periods kind =
     (let formats = map (period_formats kind) periods
      in case best_signature (tl formats) (order (map fst (hd formats))) of
           None \<Rightarrow> Inl ErrUnsupportedAddressing
         | Some s \<Rightarrow>
             let chosen = map (\<lambda>f. the (map_of f s)) formats
             in combine_periods ((hd chosen)\<lparr>rp_Segments := [], rp_PeriodSegments := [], rp_PeriodIDs := [],
                  rp_PeriodRepresentationIDs := [], rp_PeriodAddressings := []\<rparr>) chosen)"

fun all_results :: "('e + 'a) list \<Rightarrow> 'e + 'a list" where
  "all_results [] = Inr []"
| "all_results (Inl e # rs) = Inl e"
| "all_results (Inr x # rs) = (case all_results rs of Inl e \<Rightarrow> Inl e | Inr xs \<Rightarrow> Inr (x # xs))"

definition selectRepresentations ::
    "((string \<times> Representation) list \<Rightarrow> (string \<times> Representation) list) \<Rightarrow>
     (representationSignature list \<Rightarrow> representationSignature list) \<Rightarrow> MPD \<Rightarrow> dash_error + Representation list" where
  "selectRepresentations best_order order mpd =
     (if mpd_PeriodCount mpd \<le> 1 then Inr (selectBestRepresentations best_order (mpd_Representations mpd))
      else (case validateMultiPeriodTiming mpd of
              Some e \<Rightarrow> Inl e
            | None \<Rightarrow>
                if mpd_Dynamic mpd \<and> list_ex (\<lambda>p. pd_ID p = []) (mpd_Periods mpd) then Inl ErrUnsupportedAddressing
                else if list_ex (\<lambda>r. rp_PeriodIndex r < 0 \<or> rp_PeriodIndex r \<ge> mpd_PeriodCount mpd) (mpd_Representations mpd)
                  then Inl (ErrInvalidMPD None)
                else let periods = map (\<lambda>i. filter (\<lambda>r. rp_PeriodIndex r = int i) (mpd_Representations mpd))
                                     [0..<nat (mpd_PeriodCount mpd)]
                in if list_ex (\<lambda>p. p = []) periods then Inl ErrUnsupportedAddressing
                   else let kinds = sort (remdups (map representationKind (concat periods)))
                   in (case all_results (map (combine_kind order periods) kinds) of
                         Inl e \<Rightarrow> Inl e
                       | Inr selected \<Rightarrow>
                           if mpd_Dynamic mpd \<and>
                              list_ex (\<lambda>r. list_ex (\<lambda>id. id = []) (rp_PeriodRepresentationIDs r @ rp_PeriodAddressings r)) selected
                           then Inl ErrUnsupportedAddressing else Inr selected)))"

section \<open>Later snapshots\<close>

definition validateDynamicMultiPeriodSnapshot :: "MPD \<Rightarrow> MPD \<Rightarrow> dash_error option" where
  "validateDynamicMultiPeriodSnapshot initial updated =
     (if mpd_PeriodCount updated \<noteq> mpd_PeriodCount initial \<or> length (mpd_Periods updated) \<noteq> length (mpd_Periods initial)
      then Some ErrUnsupportedAddressing
      else (case validateMultiPeriodTiming updated of
              Some e \<Rightarrow> Some e
            | None \<Rightarrow>
                if list_all2 (\<lambda>left right. pd_ID left = pd_ID right \<and> pd_Start left = pd_Start right \<and>
                                           pd_Duration left = pd_Duration right) (mpd_Periods initial) (mpd_Periods updated)
                then None else Some ErrUnsupportedAddressing))"

text \<open>The loop over the periods, from \<open>index\<close> on; \<open>merged\<close> holds what the earlier periods were merged to.\<close>

fun merge_periods ::
    "Representation \<Rightarrow> Representation \<Rightarrow> nat \<Rightarrow> nat \<Rightarrow> Segment list list \<Rightarrow> dash_error + Segment list list" where
  "merge_periods target updated index 0 merged = Inr merged"
| "merge_periods target updated index (Suc n) merged =
     (if index \<ge> length (rp_PeriodIDs target) then Inl DashPanic
      else if rp_PeriodIDs target ! index \<noteq> rp_PeriodIDs updated ! index then Inl ErrUnsupportedAddressing
      else if index \<ge> length (rp_PeriodRepresentationIDs target) then Inl DashPanic
      else if rp_PeriodRepresentationIDs target ! index \<noteq> rp_PeriodRepresentationIDs updated ! index
        then Inl ErrUnsupportedAddressing
      else if rp_PeriodIDs target ! index = [] \<or> rp_PeriodRepresentationIDs target ! index = []
        then Inl ErrUnsupportedAddressing
      else if index \<ge> length (rp_PeriodAddressings target) then Inl DashPanic
      else if rp_PeriodAddressings target ! index \<noteq> rp_PeriodAddressings updated ! index
        then Inl ErrUnsupportedAddressing
      else (case mergeDynamicMultiPeriodSegments (rp_PeriodSegments target ! index) (rp_PeriodSegments updated ! index) of
              None \<Rightarrow> Inl ErrUnsupportedAddressing
            | Some m \<Rightarrow>
                if length m > maxSegmentsPerRepresentation \<or>
                   length (concat merged) > maxSegmentsPerRepresentation - length m
                then Inl ErrUnsupportedAddressing
                else merge_periods target updated (index + 1) n (merged @ [m])))"

definition mergeDynamicMultiPeriodRepresentation ::
    "Representation \<Rightarrow> Representation \<Rightarrow> dash_error + Representation" where
  "mergeDynamicMultiPeriodRepresentation target updated =
     (if signatureFor target \<noteq> signatureFor updated \<or> length (rp_PeriodSegments target) \<noteq> length (rp_PeriodSegments updated) \<or>
         length (rp_PeriodIDs target) \<noteq> length (rp_PeriodIDs updated) \<or>
         length (rp_PeriodRepresentationIDs target) \<noteq> length (rp_PeriodRepresentationIDs updated) \<or>
         length (rp_PeriodAddressings target) \<noteq> length (rp_PeriodAddressings updated)
      then Inl ErrUnsupportedAddressing
      else (case merge_periods target updated 0 (length (rp_PeriodSegments target)) [] of
              Inl e \<Rightarrow> Inl e
            | Inr periods \<Rightarrow> Inr (target\<lparr>rp_PeriodSegments := periods, rp_Segments := concat periods\<rparr>)))"

section \<open>The order of signatures\<close>

definition sig_key :: "representationSignature \<Rightarrow> int \<times> int \<times> int \<times> string \<times> string \<times> string \<times> string \<times> string" where
  "sig_key s = (- sig_Bandwidth s, - sig_Height s, - sig_Width s, sig_Codecs s, sig_Language s, sig_FrameRate s,
     sig_AudioRate s, sig_MimeType s)"

lemma betterSignature_iff: "betterSignature s t \<longleftrightarrow> sig_key s < sig_key t"
  by (auto simp: betterSignature_def sig_key_def less_prod_simp)

lemma sig_key_inject: "sig_Kind s = sig_Kind t \<Longrightarrow> sig_key s = sig_key t \<longleftrightarrow> s = t"
  by (auto simp: sig_key_def)

text \<open>The chosen signature is the least compatible one.\<close>

definition least_key :: "representationSignature set \<Rightarrow> representationSignature option \<Rightarrow> bool" where
  "least_key S r \<longleftrightarrow> (case r of None \<Rightarrow> S = {} | Some s \<Rightarrow> s \<in> S \<and> (\<forall>t \<in> S. sig_key s \<le> sig_key t))"

lemma best_signature_least:
  "least_key {s \<in> set signatures. list_all (\<lambda>formats. map_of formats s \<noteq> None) later} (best_signature later signatures)"
proof (induction signatures rule: rev_induct)
  case Nil
  then show ?case by (simp add: best_signature_def least_key_def)
next
  case (snoc s signatures)
  then show ?case
    by (auto simp: best_signature_def least_key_def betterSignature_iff not_less split: option.splits)
qed

lemma least_key_unique:
  assumes "least_key S r" and "least_key S r'" and "\<And>s. s \<in> S \<Longrightarrow> sig_Kind s = kind"
  shows "r = r'"
proof (cases "S = {}")
  case True
  with assms(1,2) show ?thesis by (auto simp: least_key_def split: option.splits)
next
  case False
  with assms(1) obtain s where s: "r = Some s" "s \<in> S" "\<forall>t \<in> S. sig_key s \<le> sig_key t"
    by (cases r) (auto simp: least_key_def)
  from False assms(2) obtain s' where s': "r' = Some s'" "s' \<in> S" "\<forall>t \<in> S. sig_key s' \<le> sig_key t"
    by (cases r') (auto simp: least_key_def)
  from s s' have "sig_key s = sig_key s'" by (intro antisym) blast+
  with s s' assms(3) show ?thesis by (simp add: sig_key_inject)
qed

lemma best_signature_order:
  assumes "set signatures = set signatures'" and "\<And>s. s \<in> set signatures \<Longrightarrow> sig_Kind s = kind"
  shows "best_signature later signatures = best_signature later signatures'"
  using best_signature_least [of signatures later] best_signature_least [of signatures' later] assms
  by (intro least_key_unique) auto

lemma period_formats_kind:
  assumes "s \<in> set (map fst (period_formats kind period))"
  shows "sig_Kind s = kind"
proof -
  have "\<forall>s \<in> set (map fst m). sig_Kind s = kind \<Longrightarrow> \<forall>s \<in> set (map fst (fold (note_format kind) period m)). sig_Kind s = kind" for m
  proof (induction period arbitrary: m)
    case (Cons r period)
    have "\<forall>s \<in> set (map fst (note_format kind r m)). sig_Kind s = kind"
      using Cons.prems by (auto simp: note_format_def signatureFor_def)
    from Cons.IH [OF this] show ?case by simp
  qed simp
  from this [of "[]"] assms show ?thesis
    unfolding period_formats_def by fastforce
qed

lemma combine_kind_order:
  assumes "\<And>xs. mset (order xs) = mset xs" and "periods \<noteq> []"
  shows "combine_kind order periods kind = combine_kind id periods kind"
proof -
  obtain p ps where p: "periods = p # ps" using assms(2) by (cases periods) auto
  let ?sigs = "map fst (period_formats kind p)"
  have sigs: "set (order ?sigs) = set ?sigs"
    using mset_eq_setD [OF assms(1)] .
  have "best_signature later (order ?sigs) = best_signature later ?sigs" for later
    by (rule best_signature_order [OF sigs, where kind = kind]) (unfold sigs, rule period_formats_kind)
  then show ?thesis by (simp add: combine_kind_def p)
qed

definition best_ok :: "(string \<times> Representation) list \<Rightarrow> bool" where
  "best_ok best \<longleftrightarrow> distinct (map fst best) \<and> (\<forall>(k, v) \<in> set best. trackSuffix v = k)"

lemma note_best_ok:
  assumes "best_ok best"
  shows "best_ok (note_best r best)"
proof (cases "map_of best (representationKind r)")
  case None
  then have "representationKind r \<notin> set (map fst best)" by (simp add: map_of_eq_None_iff)
  with assms None show ?thesis by (auto simp: best_ok_def note_best_def trackSuffix_def)
next
  case (Some current)
  let ?g = "\<lambda>(k, v). if k = representationKind r then (k, r) else (k, v)"
  have keys: "map fst (map ?g best) = map fst best" by (auto simp: comp_def split: prod.splits)
  have vals: "\<forall>(k, v) \<in> set (map ?g best). trackSuffix v = k"
    using assms by (auto simp: best_ok_def trackSuffix_def split: if_splits)
  have "distinct (map fst best)" using assms by (simp add: best_ok_def)
  with vals have "best_ok (map ?g best)"
    unfolding best_ok_def keys by (rule conjI [rotated])
  with assms Some show ?thesis by (simp add: note_best_def)
qed

lemma fold_note_best_ok: "best_ok best \<Longrightarrow> best_ok (fold note_best rs best)"
  by (induction rs arbitrary: best) (auto dest: note_best_ok)

lemma filter_distinct_key: "distinct (map f xs) \<Longrightarrow> k \<in> set xs \<Longrightarrow> filter (\<lambda>x. f k = f x) xs = [k]"
proof (induction xs)
  case (Cons a xs)
  show ?case
  proof (cases "k = a")
    case True
    with Cons.prems show ?thesis by (auto simp: filter_empty_conv)
  next
    case False
    with Cons.prems have "k \<in> set xs" "f a \<noteq> f k" by (auto simp: image_iff)
    with Cons show ?thesis by simp
  qed
qed simp

lemma sort_key_permutation:
  assumes "mset xs = mset ys" and "distinct (map f xs)"
  shows "sort_key f xs = sort_key f ys"
proof (rule properties_for_sort_key)
  have ys: "distinct (map f ys)" "set ys = set xs"
    using assms by (metis distinct_map mset_eq_imp_distinct_iff mset_eq_setD)+
  show "mset (sort_key f ys) = mset xs" using assms(1) by simp
  show "filter (\<lambda>x. f k = f x) (sort_key f ys) = filter (\<lambda>x. f k = f x) xs" if "k \<in> set (sort_key f ys)" for k
  proof -
    have "distinct (map f (sort_key f ys))"
      using ys(1) by (metis distinct_map mset_eq_imp_distinct_iff mset_sort set_sort)
    with that ys assms(2) show ?thesis by (simp add: filter_distinct_key)
  qed
qed simp

lemma selectBest_order:
  assumes "\<And>xs. mset (order xs) = mset xs"
  shows "selectBestRepresentations order rs = selectBestRepresentations id rs"
proof -
  define best where "best = fold note_best rs []"
  have ok: "best_ok best" unfolding best_def by (rule fold_note_best_ok) (simp add: best_ok_def)
  have "distinct (map trackSuffix (map snd best))"
  proof -
    have "map trackSuffix (map snd best) = map fst best"
      using ok by (auto simp: best_ok_def)
    with ok show ?thesis unfolding best_ok_def by metis
  qed
  moreover have "mset (map snd best) = mset (map snd (order best))"
    using assms [of best] by (metis mset_map)
  ultimately show ?thesis
    using sort_key_permutation [of "map snd best" "map snd (order best)" trackSuffix]
    by (simp add: selectBestRepresentations_def best_def)
qed

section \<open>Merged periods\<close>

lemma append_unseen_Some:
  "append_unseen seen xs = Some ys \<Longrightarrow> ys = xs \<and> distinct (keys xs) \<and> set (keys xs) \<inter> seen = {}"
proof (induction seen xs arbitrary: ys rule: append_unseen.induct)
  case (2 seen s rest)
  then obtain zs where "append_unseen (insert (segmentKey s) seen) rest = Some zs" "ys = s # zs" "segmentKey s \<notin> seen"
    by (auto split: if_splits)
  with 2 show ?case by (auto simp: keys_def)
qed (simp add: keys_def)

lemma mergeDynamicMultiPeriodSegments_ok:
  assumes "mergeDynamicMultiPeriodSegments existing updated = Some m"
  shows "prefix existing m \<and> sublist (keys updated) (keys m) \<and>
    (existing \<noteq> [] \<and> distinct (keys existing) \<longrightarrow> distinct (keys m))"
proof -
  show ?thesis
  proof (cases "existing = [] \<or> updated = []")
    case True
    with assms have "m = updated \<and> existing = [] \<or> m = existing \<and> updated = []"
      unfolding mergeDynamicMultiPeriodSegments_def by (simp split: if_splits)
    then show ?thesis by (elim disjE conjE) (simp_all add: keys_def)
  next
    case nonempty: False
    show ?thesis
    proof (cases "length updated \<le> length existing \<and> same_keys (take (length updated) existing) updated")
      case True
      with nonempty assms have m: "m = existing"
        by (simp add: mergeDynamicMultiPeriodSegments_def)
      have "keys existing = keys (take (length updated) existing @ drop (length updated) existing)" by simp
      also have "\<dots> = keys updated @ keys (drop (length updated) existing)"
        unfolding keys_append using True by (simp add: same_keys_iff)
      finally have "sublist (keys updated) (keys existing)" by (simp add: sublist_append_rightI)
      with m show ?thesis by simp
    next
      case False
      with nonempty assms obtain n new where 4: "align_loop existing updated 0 = Some n" "m = existing @ new"
          "append_unseen (segmentKey ` set existing) (drop (length existing - n) updated) = Some new"
        by (simp add: mergeDynamicMultiPeriodSegments_def split: option.splits) blast
      note align = align_loop_correct [OF 4(1)]
      note new = append_unseen_Some [OF 4(3)]
      have "keys existing = keys (take n existing @ drop n existing)" by simp
      also have "\<dots> = keys (take n existing) @ keys (take (length existing - n) updated)"
        unfolding keys_append using align by simp
      finally have "keys m = keys (take n existing) @ keys updated"
        using 4(2) new keys_take_drop [of "length existing - n" updated] by simp
      then have "sublist (keys updated) (keys m)" by (simp add: sublist_append_leftI)
      moreover have "distinct (keys existing) \<longrightarrow> distinct (keys m)"
        using 4(2) new by (auto simp: keys_def)
      ultimately show ?thesis using 4(2) by simp
    qed
  qed
qed

lemma merge_periods_ok:
  "merge_periods target updated index n merged = Inr res \<Longrightarrow> length (concat merged) \<le> maxSegmentsPerRepresentation \<Longrightarrow>
   length (concat res) \<le> maxSegmentsPerRepresentation \<and>
   (\<exists>ms. res = merged @ ms \<and> length ms = n \<and>
     (\<forall>j < n. mergeDynamicMultiPeriodSegments (rp_PeriodSegments target ! (index + j)) (rp_PeriodSegments updated ! (index + j)) =
        Some (ms ! j)))"
proof (induction n arbitrary: index merged)
  case (Suc n)
  from Suc.prems(1) obtain m where m: "merge_periods target updated (index + 1) n (merged @ [m]) = Inr res"
      "mergeDynamicMultiPeriodSegments (rp_PeriodSegments target ! index) (rp_PeriodSegments updated ! index) = Some m"
      "length m \<le> maxSegmentsPerRepresentation" "length (concat merged) \<le> maxSegmentsPerRepresentation - length m"
    by (auto split: if_splits option.splits simp: not_less)
  then have "length (concat (merged @ [m])) \<le> maxSegmentsPerRepresentation" by simp
  from Suc.IH [OF m(1) this] obtain ms where ms: "length (concat res) \<le> maxSegmentsPerRepresentation" "res = merged @ [m] @ ms"
      "length ms = n" "\<forall>j < n. mergeDynamicMultiPeriodSegments (rp_PeriodSegments target ! (index + 1 + j))
        (rp_PeriodSegments updated ! (index + 1 + j)) = Some (ms ! j)" by auto
  have "mergeDynamicMultiPeriodSegments (rp_PeriodSegments target ! (index + j)) (rp_PeriodSegments updated ! (index + j)) =
      Some ((m # ms) ! j)" if "j < Suc n" for j
    using that m(2) ms(4) by (cases j) auto
  with ms show ?case by (intro conjI exI [of _ "m # ms"]) auto
qed auto

section \<open>Properties\<close>

text \<open>
  C32. The choice of representations does not depend on the order in which Go visits the entries of a map, neither for a single
  period nor for the combination of several: whatever permutations are used, the result is the same.
\<close>

theorem selection_ignores_map_order:
  assumes "\<And>xs. mset (best_order xs) = mset xs" and "\<And>xs. mset (order xs) = mset xs"
  shows "selectRepresentations best_order order mpd = selectRepresentations id id mpd"
proof (cases "mpd_PeriodCount mpd \<le> 1")
  case True
  then show ?thesis
    using selectBest_order [OF assms(1)] by (simp add: selectRepresentations_def)
next
  case False
  let ?periods = "map (\<lambda>i. filter (\<lambda>r. rp_PeriodIndex r = int i) (mpd_Representations mpd)) [0..<nat (mpd_PeriodCount mpd)]"
  have "?periods \<noteq> []" using False by auto
  then have eq: "combine_kind order ?periods = combine_kind id ?periods"
    using combine_kind_order [OF assms(2)] by blast
  show ?thesis
    using False by (simp only: selectRepresentations_def Let_def eq if_False)
qed

definition sample_representation :: "string \<Rightarrow> i64 \<Rightarrow> Representation" where
  "sample_representation kind bandwidth =
     \<lparr>rp_ID = ''r'', rp_PeriodID = ''p'', rp_PeriodIndex = 0, rp_AdaptationSetID = [], rp_Fragmented = True, rp_ContentType = kind, rp_MimeType = [],
      rp_Codecs = [], rp_Language = [], rp_FrameRate = [], rp_AudioRate = [], rp_Bandwidth = bandwidth, rp_Width = 0,
      rp_Height = 0, rp_Addressing = [], rp_Segments = [], rp_PeriodSegments = [], rp_PeriodIDs = [],
      rp_PeriodRepresentationIDs = [], rp_PeriodAddressings = [], rp_Resume = zero_resume\<rparr>"

definition sample_mpd :: MPD where
  "sample_mpd = \<lparr>mpd_Dynamic = False, mpd_MinimumUpdatePeriod = 0, mpd_PresentationDuration = 0, mpd_PeriodCount = 1,
     mpd_Periods = [], mpd_Representations = [sample_representation ''video'' 5, sample_representation ''audio'' 1,
       sample_representation ''video'' 9]\<rparr>"

theorem selection_ignores_map_order_witness:
  "selectRepresentations rev rev sample_mpd = Inr [sample_representation ''audio'' 1, sample_representation ''video'' 9]"
proof -
  have "selectRepresentations rev rev sample_mpd = selectRepresentations id id sample_mpd"
    by (rule selection_ignores_map_order) simp_all
  also have "\<dots> = Inr [sample_representation ''audio'' 1, sample_representation ''video'' 9]"
    by code_simp
  finally show ?thesis .
qed

text \<open>
  A later snapshot of a multi-period presentation only appends. When it is accepted, every period keeps its segments as a prefix,
  the segments the snapshot lists for the period are, by identity, in order and without a gap, part of it, a period without
  repetitions stays so, the track is the concatenation of its periods, and it keeps within the limit of segments.
\<close>

theorem period_merge_only_appends:
  assumes "mergeDynamicMultiPeriodRepresentation target updated = Inr r"
  shows "rp_Segments r = concat (rp_PeriodSegments r) \<and> length (rp_Segments r) \<le> maxSegmentsPerRepresentation \<and>
    length (rp_PeriodSegments r) = length (rp_PeriodSegments target) \<and> signatureFor r = signatureFor updated \<and>
    (\<forall>i < length (rp_PeriodSegments target).
       prefix (rp_PeriodSegments target ! i) (rp_PeriodSegments r ! i) \<and>
       sublist (keys (rp_PeriodSegments updated ! i)) (keys (rp_PeriodSegments r ! i)) \<and>
       (rp_PeriodSegments target ! i \<noteq> [] \<and> distinct (keys (rp_PeriodSegments target ! i)) \<longrightarrow>
          distinct (keys (rp_PeriodSegments r ! i))))"
proof -
  from assms obtain ps where ps: "merge_periods target updated 0 (length (rp_PeriodSegments target)) [] = Inr ps"
      "r = target\<lparr>rp_PeriodSegments := ps, rp_Segments := concat ps\<rparr>" "signatureFor target = signatureFor updated"
    by (auto simp: mergeDynamicMultiPeriodRepresentation_def split: if_splits sum.splits)
  have "signatureFor r = signatureFor target"
    unfolding ps(2) by (simp add: signatureFor_def representationKind_def Let_def)
  then have sig: "signatureFor r = signatureFor updated" using ps(3) by simp
  have all: "length (concat ps) \<le> maxSegmentsPerRepresentation" "length ps = length (rp_PeriodSegments target)"
      "\<forall>i < length ps. mergeDynamicMultiPeriodSegments (rp_PeriodSegments target ! i) (rp_PeriodSegments updated ! i) = Some (ps ! i)"
    using merge_periods_ok [OF ps(1)] by auto
  with sig ps(2) mergeDynamicMultiPeriodSegments_ok show ?thesis by auto
qed

lemma sample_merge: "mergeDynamicMultiPeriodSegments [leaf 0, leaf 1] [leaf 1, leaf 2] = Some [leaf 0, leaf 1, leaf 2]"
  by code_simp

theorem period_merge_only_appends_witness:
  "prefix [leaf 0, leaf 1] (rp_PeriodSegments
     ((sample_representation ''video'' 1)\<lparr>rp_PeriodSegments := [[leaf 0, leaf 1, leaf 2]], rp_Segments := [leaf 0, leaf 1, leaf 2],
        rp_PeriodIDs := [''p''], rp_PeriodRepresentationIDs := [''r''], rp_PeriodAddressings := [''t'']\<rparr>) ! 0)"
proof -
  have merged: "mergeDynamicMultiPeriodRepresentation
      ((sample_representation ''video'' 1)\<lparr>rp_PeriodSegments := [[leaf 0, leaf 1]], rp_Segments := [leaf 0, leaf 1],
        rp_PeriodIDs := [''p''], rp_PeriodRepresentationIDs := [''r''], rp_PeriodAddressings := [''t'']\<rparr>)
      ((sample_representation ''video'' 1)\<lparr>rp_PeriodSegments := [[leaf 1, leaf 2]], rp_Segments := [leaf 1, leaf 2],
        rp_PeriodIDs := [''p''], rp_PeriodRepresentationIDs := [''r''], rp_PeriodAddressings := [''t'']\<rparr>) =
    Inr ((sample_representation ''video'' 1)\<lparr>rp_PeriodSegments := [[leaf 0, leaf 1, leaf 2]], rp_Segments := [leaf 0, leaf 1, leaf 2],
        rp_PeriodIDs := [''p''], rp_PeriodRepresentationIDs := [''r''], rp_PeriodAddressings := [''t'']\<rparr>)"
    using sample_merge by (simp add: mergeDynamicMultiPeriodRepresentation_def signatureFor_def representationKind_def
        sample_representation_def maxSegmentsPerRepresentation_def)
  from period_merge_only_appends [OF merged] show ?thesis by simp
qed

end
