(* ===== verification/PeriodTiming.thy ===== *)
theory PeriodTiming
  imports DashSelect
begin

text \<open>
  The intervals of DASH periods (\<open>resolvePeriodTimings\<close> and \<open>parseISODuration\<close> of \<open>internal/protocol/dash/mpd.go\<close>). A period may omit its
  start or its duration; both are inferred from its neighbours and from the duration of the presentation, in passes in both
  directions until nothing changes. The number in front of a unit is read as a floating-point number and multiplied by the
  unit, which is an argument here (\<open>scaled\<close>); the durations themselves are nanoseconds in 64 bits.
\<close>

section \<open>Durations\<close>

fun IndexAny :: "string \<Rightarrow> string \<Rightarrow> nat option" where
  "IndexAny [] chars = None"
| "IndexAny (c # s) chars = (if c \<in> set chars then Some 0 else map_option Suc (IndexAny s chars))"

lemma IndexAny_less: "IndexAny s chars = Some i \<Longrightarrow> i < length s"
  by (induction s arbitrary: i) (auto split: if_splits)

definition unit_nanoseconds :: "char \<Rightarrow> i64" where
  "unit_nanoseconds c =
     (if c = CHR ''H'' then 3600 * 10 ^ 9 else if c = CHR ''M'' then 60 * 10 ^ 9 else 10 ^ 9)"

function duration_loop :: "(string \<Rightarrow> i64 \<Rightarrow> i64 option) \<Rightarrow> i64 \<Rightarrow> string \<Rightarrow> i64 option" where
  "duration_loop scaled acc remaining =
     (if remaining = [] then Some acc
      else (case IndexAny remaining ''HMS'' of
              None \<Rightarrow> None
            | Some index \<Rightarrow>
                if index = 0 then None
                else (case scaled (take index remaining) (unit_nanoseconds (remaining ! index)) of
                        None \<Rightarrow> None
                      | Some value \<Rightarrow> duration_loop scaled (wrap64 (acc + value)) (drop (index + 1) remaining))))"
  by pat_completeness auto
termination
  by (relation "measure (\<lambda>(scaled, acc, remaining). length remaining)") (auto dest: IndexAny_less)

declare duration_loop.simps [simp del]

definition parseISODuration :: "(string \<Rightarrow> i64 \<Rightarrow> i64 option) \<Rightarrow> string \<Rightarrow> i64 option" where
  "parseISODuration scaled input =
     (if input = [] then Some 0
      else if \<not> HasPrefix input ''PT'' then None
      else duration_loop scaled 0 (drop 2 input))"

section \<open>Timings\<close>

record resolvedPeriodTiming =
  rt_start :: i64
  rt_duration :: i64
  rt_startKnown :: bool
  rt_durationKnown :: bool

datatype timing_error =
    BadStart nat | BadDuration nat | EndOverflows nat | StartsBeforePrevious nat | StartsAfterEnd nat
  | DurationExceeds nat | DurationPrecedes nat

text \<open>The attributes of a period that this part reads.\<close>

record period_attributes =
  pt_ID :: string
  pt_Start :: string
  pt_Duration :: string

definition unresolved :: resolvedPeriodTiming where
  "unresolved = \<lparr>rt_start = 0, rt_duration = 0, rt_startKnown = False, rt_durationKnown = False\<rparr>"

definition explicit_timing ::
    "(string \<Rightarrow> i64 \<Rightarrow> i64 option) \<Rightarrow> nat \<Rightarrow> period_attributes \<Rightarrow> timing_error + resolvedPeriodTiming" where
  "explicit_timing scaled index period =
     (case (if pt_Start period = [] then Inr unresolved
            else (case parseISODuration scaled (pt_Start period) of
                    None \<Rightarrow> Inl (BadStart index)
                  | Some start \<Rightarrow> Inr (unresolved\<lparr>rt_start := start, rt_startKnown := True\<rparr>))) of
        Inl e \<Rightarrow> Inl e
      | Inr timing \<Rightarrow>
          if pt_Duration period = [] then Inr timing
          else (case parseISODuration scaled (pt_Duration period) of
                  None \<Rightarrow> Inl (BadDuration index)
                | Some duration \<Rightarrow> Inr (timing\<lparr>rt_duration := duration, rt_durationKnown := True\<rparr>)))"

fun explicit_timings ::
    "(string \<Rightarrow> i64 \<Rightarrow> i64 option) \<Rightarrow> nat \<Rightarrow> period_attributes list \<Rightarrow> timing_error + resolvedPeriodTiming list" where
  "explicit_timings scaled index [] = Inr []"
| "explicit_timings scaled index (p # ps) =
     (case explicit_timing scaled index p of
        Inl e \<Rightarrow> Inl e
      | Inr t \<Rightarrow> (case explicit_timings scaled (index + 1) ps of Inl e \<Rightarrow> Inl e | Inr ts \<Rightarrow> Inr (t # ts)))"

fun first_start_known :: "resolvedPeriodTiming list \<Rightarrow> resolvedPeriodTiming list" where
  "first_start_known [] = []"
| "first_start_known (t # ts) = (if rt_startKnown t then t # ts else t\<lparr>rt_startKnown := True\<rparr> # ts)"

lemma length_first_start_known [simp]: "length (first_start_known ts) = length ts"
  by (cases ts) auto

text \<open>The two rules between a period and the next one; the flag says whether something changed.\<close>

definition infer_start ::
    "nat \<Rightarrow> resolvedPeriodTiming \<Rightarrow> resolvedPeriodTiming \<Rightarrow> timing_error + resolvedPeriodTiming \<times> bool" where
  "infer_start index cur nxt =
     (if rt_startKnown cur \<and> rt_durationKnown cur \<and> \<not> rt_startKnown nxt then
        (case addPeriodDuration (rt_start cur) (rt_duration cur) of
           None \<Rightarrow> Inl (EndOverflows index)
         | Some e \<Rightarrow> Inr (nxt\<lparr>rt_start := e, rt_startKnown := True\<rparr>, True))
      else Inr (nxt, False))"

definition infer_duration ::
    "nat \<Rightarrow> resolvedPeriodTiming \<Rightarrow> resolvedPeriodTiming \<Rightarrow> timing_error + resolvedPeriodTiming \<times> bool" where
  "infer_duration index cur nxt =
     (if rt_startKnown cur \<and> rt_startKnown nxt \<and> \<not> rt_durationKnown cur then
        if rt_start nxt < rt_start cur then Inl (StartsBeforePrevious (index + 1))
        else Inr (cur\<lparr>rt_duration := wrap64 (rt_start nxt - rt_start cur), rt_durationKnown := True\<rparr>, True)
      else Inr (cur, False))"

text \<open>The rule for the last period.\<close>

definition infer_last ::
    "i64 \<Rightarrow> nat \<Rightarrow> resolvedPeriodTiming \<Rightarrow> timing_error + resolvedPeriodTiming \<times> bool" where
  "infer_last presentation index cur =
     (if presentation > 0 then
        if rt_startKnown cur \<and> \<not> rt_durationKnown cur then
          if presentation < rt_start cur then Inl (StartsAfterEnd index)
          else Inr (cur\<lparr>rt_duration := wrap64 (presentation - rt_start cur), rt_durationKnown := True\<rparr>, True)
        else if rt_durationKnown cur \<and> \<not> rt_startKnown cur then
          if presentation < rt_duration cur then Inl (DurationExceeds index)
          else Inr (cur\<lparr>rt_start := wrap64 (presentation - rt_duration cur), rt_startKnown := True\<rparr>, True)
        else Inr (cur, False)
      else Inr (cur, False))"

fun forward_pass ::
    "i64 \<Rightarrow> nat \<Rightarrow> resolvedPeriodTiming list \<Rightarrow> timing_error + resolvedPeriodTiming list \<times> bool" where
  "forward_pass presentation index [] = Inr ([], False)"
| "forward_pass presentation index [cur] =
     (case infer_last presentation index cur of Inl e \<Rightarrow> Inl e | Inr (cur, changed) \<Rightarrow> Inr ([cur], changed))"
| "forward_pass presentation index (cur # nxt # rest) =
     (case infer_start index cur nxt of
        Inl e \<Rightarrow> Inl e
      | Inr (nxt, changed1) \<Rightarrow>
          (case infer_duration index cur nxt of
             Inl e \<Rightarrow> Inl e
           | Inr (cur, changed2) \<Rightarrow>
               (case forward_pass presentation (index + 1) (nxt # rest) of
                  Inl e \<Rightarrow> Inl e
                | Inr (ts, changed3) \<Rightarrow> Inr (cur # ts, changed1 \<or> changed2 \<or> changed3))))"

definition infer_earlier_start ::
    "nat \<Rightarrow> resolvedPeriodTiming \<Rightarrow> resolvedPeriodTiming \<Rightarrow> timing_error + resolvedPeriodTiming \<times> bool" where
  "infer_earlier_start index cur nxt =
     (if \<not> rt_startKnown cur \<and> rt_durationKnown cur \<and> rt_startKnown nxt then
        if rt_start nxt < rt_duration cur then Inl (DurationPrecedes index)
        else Inr (cur\<lparr>rt_start := wrap64 (rt_start nxt - rt_duration cur), rt_startKnown := True\<rparr>, True)
      else Inr (cur, False))"

text \<open>From the last period but one down to the first.\<close>

fun backward_pass :: "nat \<Rightarrow> resolvedPeriodTiming list \<Rightarrow> timing_error + resolvedPeriodTiming list \<times> bool" where
  "backward_pass index (cur # nxt # rest) =
     (case backward_pass (index + 1) (nxt # rest) of
        Inl e \<Rightarrow> Inl e
      | Inr (ts, changed1) \<Rightarrow>
          (case infer_earlier_start index cur (hd ts) of
             Inl e \<Rightarrow> Inl e
           | Inr (cur, changed2) \<Rightarrow> Inr (cur # ts, changed1 \<or> changed2)))"
| "backward_pass index ts = Inr (ts, False)"

definition timing_pass :: "i64 \<Rightarrow> resolvedPeriodTiming list \<Rightarrow> timing_error + resolvedPeriodTiming list \<times> bool" where
  "timing_pass presentation ts =
     (case forward_pass presentation 0 ts of
        Inl e \<Rightarrow> Inl e
      | Inr (ts, changed1) \<Rightarrow>
          (case backward_pass 0 ts of Inl e \<Rightarrow> Inl e | Inr (ts, changed2) \<Rightarrow> Inr (ts, changed1 \<or> changed2)))"

fun timing_passes :: "i64 \<Rightarrow> nat \<Rightarrow> resolvedPeriodTiming list \<Rightarrow> timing_error + resolvedPeriodTiming list" where
  "timing_passes presentation 0 ts = Inr ts"
| "timing_passes presentation (Suc passes) ts =
     (case timing_pass presentation ts of
        Inl e \<Rightarrow> Inl e
      | Inr (ts, changed) \<Rightarrow> if changed then timing_passes presentation passes ts else Inr ts)"

definition period_of :: "period_attributes \<Rightarrow> resolvedPeriodTiming \<Rightarrow> Period" where
  "period_of period timing =
     \<lparr>pd_ID = pt_ID period, pd_Start = rt_start timing, pd_Duration = rt_duration timing,
      pd_TimingKnown = (rt_startKnown timing \<and> rt_durationKnown timing)\<rparr>"

definition resolvePeriodTimings ::
    "(string \<Rightarrow> i64 \<Rightarrow> i64 option) \<Rightarrow> period_attributes list \<Rightarrow> i64 \<Rightarrow> timing_error + Period list" where
  "resolvePeriodTimings scaled periods presentation =
     (case explicit_timings scaled 0 periods of
        Inl e \<Rightarrow> Inl e
      | Inr ts \<Rightarrow>
          (case timing_passes presentation (2 * length ts + 1) (first_start_known ts) of
             Inl e \<Rightarrow> Inl e
           | Inr ts \<Rightarrow> Inr (map2 period_of periods ts)))"

section \<open>Passes\<close>

text \<open>How much of a timing is not known yet.\<close>

definition unknowns_of :: "resolvedPeriodTiming \<Rightarrow> nat" where
  "unknowns_of t = (if rt_startKnown t then 0 else 1) + (if rt_durationKnown t then 0 else 1)"

definition unknowns :: "resolvedPeriodTiming list \<Rightarrow> nat" where
  "unknowns ts = sum_list (map unknowns_of ts)"

lemma unknowns_simps [simp]: "unknowns [] = 0" "unknowns (t # ts) = unknowns_of t + unknowns ts"
  by (simp_all add: unknowns_def)

lemma unknowns_bound: "unknowns ts \<le> 2 * length ts"
  by (induction ts) (auto simp: unknowns_of_def)

definition known_more :: "resolvedPeriodTiming \<Rightarrow> resolvedPeriodTiming \<Rightarrow> bool" where
  "known_more t t' \<longleftrightarrow> (rt_startKnown t \<longrightarrow> rt_startKnown t') \<and> (rt_durationKnown t \<longrightarrow> rt_durationKnown t')"

lemma known_more_refl [simp]: "known_more t t"
  by (simp add: known_more_def)

lemma known_more_trans: "known_more t u \<Longrightarrow> known_more u v \<Longrightarrow> known_more t v"
  by (simp add: known_more_def)

text \<open>What one application of a rule does to the flags.\<close>

definition progress :: "resolvedPeriodTiming \<Rightarrow> resolvedPeriodTiming \<Rightarrow> bool \<Rightarrow> bool" where
  "progress t t' changed \<longleftrightarrow>
     known_more t t' \<and> (if changed then unknowns_of t' < unknowns_of t else t' = t)"

lemma infer_progress:
  "infer_start i cur nxt = Inr (t, changed) \<Longrightarrow> progress nxt t changed"
  "infer_duration i cur nxt = Inr (t, changed) \<Longrightarrow> progress cur t changed"
  "infer_last p i cur = Inr (t, changed) \<Longrightarrow> progress cur t changed"
  "infer_earlier_start i cur nxt = Inr (t, changed) \<Longrightarrow> progress cur t changed"
  by (auto simp: infer_start_def infer_duration_def infer_last_def infer_earlier_start_def progress_def known_more_def unknowns_of_def
      split: if_splits option.splits)

definition progress_all :: "resolvedPeriodTiming list \<Rightarrow> resolvedPeriodTiming list \<Rightarrow> bool \<Rightarrow> bool" where
  "progress_all ts ts' changed \<longleftrightarrow>
     list_all2 known_more ts ts' \<and> (if changed then unknowns ts' < unknowns ts else ts' = ts)"

lemma progress_all_Nil [simp]: "progress_all [] [] False"
  by (simp add: progress_all_def)

lemma progress_all_Cons:
  "progress t t' c1 \<Longrightarrow> progress_all ts ts' c2 \<Longrightarrow> progress_all (t # ts) (t' # ts') (c1 \<or> c2)"
  by (cases c1; cases c2) (auto simp: progress_def progress_all_def)

lemma list_all2_known_more_trans:
  "list_all2 known_more ts us \<Longrightarrow> list_all2 known_more us vs \<Longrightarrow> list_all2 known_more ts vs"
  using list_all2_trans [of known_more known_more known_more] known_more_trans by blast

lemma progress_all_trans: "progress_all ts us c1 \<Longrightarrow> progress_all us vs c2 \<Longrightarrow> progress_all ts vs (c1 \<or> c2)"
  by (cases c1; cases c2) (auto simp: progress_all_def dest: list_all2_known_more_trans)

lemma progress_head: "progress t t' c \<Longrightarrow> progress_all (t # ts) (t' # ts) c"
  by (auto simp: progress_def progress_all_def list_all2_refl split: if_splits)

lemma forward_pass_progress: "forward_pass p i ts = Inr (ts', changed) \<Longrightarrow> progress_all ts ts' changed"
proof (induction p i ts arbitrary: ts' changed rule: forward_pass.induct)
  case (2 p i cur)
  then show ?case
    by (auto dest!: infer_progress(3) intro: progress_head split: sum.splits prod.splits)
next
  case (3 p i cur nxt rest)
  from "3.prems" obtain n c1 k c2 ts c3 where
    s: "infer_start i cur nxt = Inr (n, c1)" and d: "infer_duration i cur n = Inr (k, c2)"
    and f: "forward_pass p (i + 1) (n # rest) = Inr (ts, c3)" and r: "ts' = k # ts" "changed = (c1 \<or> c2 \<or> c3)"
    by (auto split: sum.splits prod.splits)
  have "progress_all (nxt # rest) ts (c1 \<or> c3)"
    using progress_all_trans [OF progress_head [OF infer_progress(1) [OF s]] "3.IH" [OF s refl d refl f]] .
  from progress_all_Cons [OF infer_progress(2) [OF d] this] show ?case
    by (simp add: r disj_left_commute)
qed simp

lemma backward_pass_progress: "backward_pass i ts = Inr (ts', changed) \<Longrightarrow> progress_all ts ts' changed"
proof (induction i ts arbitrary: ts' changed rule: backward_pass.induct)
  case (1 i cur nxt rest)
  from "1.prems" obtain ts c1 k c2 where
    b: "backward_pass (i + 1) (nxt # rest) = Inr (ts, c1)" and s: "infer_earlier_start i cur (hd ts) = Inr (k, c2)"
    and r: "ts' = k # ts" "changed = (c1 \<or> c2)"
    by (auto split: sum.splits prod.splits)
  show ?case
    using progress_all_Cons [OF infer_progress(4) [OF s] "1.IH" [OF b]] r by (simp add: disj_commute)
qed (auto simp: progress_all_def)

lemma timing_pass_progress: "timing_pass p ts = Inr (ts', changed) \<Longrightarrow> progress_all ts ts' changed"
  by (auto simp: timing_pass_def intro: progress_all_trans dest!: forward_pass_progress backward_pass_progress
      split: sum.splits prod.splits)

text \<open>The number of passes that the code allows is enough to reach a fixed point.\<close>

lemma timing_passes_fixpoint:
  assumes "timing_passes p n ts = Inr ts'" and "unknowns ts < n"
  shows "timing_pass p ts' = Inr (ts', False) \<and> list_all2 known_more ts ts'"
  using assms
proof (induction n arbitrary: ts)
  case (Suc n)
  then obtain us changed where us: "timing_pass p ts = Inr (us, changed)"
    and next_passes: "(if changed then timing_passes p n us else Inr us) = Inr ts'"
    by (auto split: sum.splits prod.splits)
  note prog = timing_pass_progress [OF us]
  show ?case
  proof (cases changed)
    case True
    with prog Suc.prems have "unknowns us < n" "list_all2 known_more ts us" by (auto simp: progress_all_def)
    with Suc.IH [of us] next_passes True show ?thesis by (auto intro: list_all2_known_more_trans)
  next
    case False
    with prog us next_passes show ?thesis by (auto simp: progress_all_def)
  qed
qed simp

section \<open>Consistent timelines\<close>

text \<open>A timeline without gaps, given by its start and the durations of its periods: what the timings know of it.\<close>

fun agrees :: "int \<Rightarrow> int list \<Rightarrow> resolvedPeriodTiming list \<Rightarrow> bool" where
  "agrees s [] [] = True"
| "agrees s (d # ds) (t # ts) =
     ((rt_startKnown t \<longrightarrow> rt_start t = s) \<and> (rt_durationKnown t \<longrightarrow> rt_duration t = d) \<and> agrees (s + d) ds ts)"
| "agrees s _ _ = False"

text \<open>The timeline lies in the range of durations and ends with the presentation, where that end is known.\<close>

definition timeline :: "i64 \<Rightarrow> int \<Rightarrow> int list \<Rightarrow> bool" where
  "timeline p s ds \<longleftrightarrow>
     0 \<le> s \<and> list_all (\<lambda>d. 0 \<le> d) ds \<and> s + sum_list ds \<le> MaxInt64 \<and> (p > 0 \<longrightarrow> p = s + sum_list ds)"

lemma sum_list_nonneg_int: "list_all (\<lambda>d. 0 \<le> d) ds \<Longrightarrow> 0 \<le> sum_list (ds :: int list)"
  by (induction ds) auto

lemma timeline_Cons: "timeline p s (d # ds) \<Longrightarrow> 0 \<le> s \<and> 0 \<le> d \<and> s + d \<le> MaxInt64 \<and> timeline p (s + d) ds"
  using sum_list_nonneg_int [of ds] by (auto simp: timeline_def)

lemma agrees_Cons_iff:
  "agrees s ds (t # ts) \<longleftrightarrow>
     (\<exists>d ds'. ds = d # ds' \<and> (rt_startKnown t \<longrightarrow> rt_start t = s) \<and> (rt_durationKnown t \<longrightarrow> rt_duration t = d) \<and>
        agrees (s + d) ds' ts)"
  by (cases ds) auto

lemma agrees_Nil_iff [simp]: "agrees s ds [] \<longleftrightarrow> ds = []"
  by (cases ds) auto

lemma in_i64_nonneg: "0 \<le> x \<Longrightarrow> x \<le> MaxInt64 \<Longrightarrow> wrap64 x = x"
  by (rule wrap64_id) (simp add: in_i64_def limits)

lemma forward_pass_agrees:
  assumes "agrees s ds ts" and "timeline p s ds"
  shows "\<exists>ts' changed. forward_pass p i ts = Inr (ts', changed) \<and> agrees s ds ts'"
  using assms
proof (induction p i ts arbitrary: s ds rule: forward_pass.induct)
  case (2 p i cur)
  then obtain d where ds: "ds = [d]" and know: "rt_startKnown cur \<longrightarrow> rt_start cur = s" "rt_durationKnown cur \<longrightarrow> rt_duration cur = d"
    by (auto simp: agrees_Cons_iff)
  with "2.prems" have "0 \<le> s" "0 \<le> d" "p > 0 \<Longrightarrow> p = s + d" "s + d \<le> MaxInt64" by (auto simp: timeline_def)
  with know ds show ?case by (auto simp: infer_last_def in_i64_nonneg)
next
  case (3 p i cur nxt rest)
  from "3.prems"(1) obtain d e ds' where ds: "ds = d # e # ds'"
    and cur: "rt_startKnown cur \<longrightarrow> rt_start cur = s" "rt_durationKnown cur \<longrightarrow> rt_duration cur = d"
    and nxt: "rt_startKnown nxt \<longrightarrow> rt_start nxt = s + d" "rt_durationKnown nxt \<longrightarrow> rt_duration nxt = e"
    and rest: "agrees (s + d + e) ds' rest"
    by (auto simp: agrees_Cons_iff)
  have range: "0 \<le> s" "0 \<le> d" "s + d \<le> MaxInt64" and later: "timeline p (s + d) (e # ds')"
    using timeline_Cons "3.prems"(2) ds by blast+
  have "\<exists>n c1. infer_start i cur nxt = Inr (n, c1) \<and>
      (rt_startKnown n \<longrightarrow> rt_start n = s + d) \<and> (rt_durationKnown n \<longrightarrow> rt_duration n = e)"
    using cur nxt range by (auto simp: infer_start_def addPeriodDuration_def)
  then obtain n c1 where n: "infer_start i cur nxt = Inr (n, c1)"
    "rt_startKnown n \<longrightarrow> rt_start n = s + d" "rt_durationKnown n \<longrightarrow> rt_duration n = e" by blast
  have "\<exists>k c2. infer_duration i cur n = Inr (k, c2) \<and>
      (rt_startKnown k \<longrightarrow> rt_start k = s) \<and> (rt_durationKnown k \<longrightarrow> rt_duration k = d)"
    using cur n range by (auto simp: infer_duration_def in_i64_nonneg)
  then obtain k c2 where k: "infer_duration i cur n = Inr (k, c2)"
    "rt_startKnown k \<longrightarrow> rt_start k = s" "rt_durationKnown k \<longrightarrow> rt_duration k = d" by blast
  have "agrees (s + d) (e # ds') (n # rest)" using n rest by simp
  from "3.IH" [OF n(1) refl k(1) refl this later] n k ds show ?case by auto
qed auto

lemma backward_pass_agrees:
  assumes "agrees s ds ts" and "timeline p s ds"
  shows "\<exists>ts' changed. backward_pass i ts = Inr (ts', changed) \<and> agrees s ds ts'"
  using assms
proof (induction i ts arbitrary: s ds rule: backward_pass.induct)
  case (1 i cur nxt rest)
  from "1.prems"(1) obtain d ds' where ds: "ds = d # ds'"
    and cur: "rt_startKnown cur \<longrightarrow> rt_start cur = s" "rt_durationKnown cur \<longrightarrow> rt_duration cur = d"
    and rest: "agrees (s + d) ds' (nxt # rest)"
    by (auto simp: agrees_Cons_iff)
  have range: "0 \<le> s" "0 \<le> d" "s + d \<le> MaxInt64" and later: "timeline p (s + d) ds'"
    using timeline_Cons "1.prems"(2) ds by blast+
  from "1.IH" [OF rest later] obtain ts c1 where
    ts: "backward_pass (i + 1) (nxt # rest) = Inr (ts, c1)" and agree: "agrees (s + d) ds' ts"
    by blast
  from agree rest obtain t ts' where "ts = t # ts'" by (cases ts; cases ds') auto
  with agree have "rt_startKnown (hd ts) \<longrightarrow> rt_start (hd ts) = s + d" by (auto simp: agrees_Cons_iff)
  with cur range have "\<exists>k c2. infer_earlier_start i cur (hd ts) = Inr (k, c2) \<and>
      (rt_startKnown k \<longrightarrow> rt_start k = s) \<and> (rt_durationKnown k \<longrightarrow> rt_duration k = d)"
    by (auto simp: infer_earlier_start_def in_i64_nonneg)
  with ts agree ds show ?case by fastforce
qed auto

lemma timing_pass_agrees:
  assumes "agrees s ds ts" and "timeline p s ds"
  shows "\<exists>ts' changed. timing_pass p ts = Inr (ts', changed) \<and> agrees s ds ts'"
proof -
  from forward_pass_agrees [OF assms] obtain us c where us: "forward_pass p 0 ts = Inr (us, c)" "agrees s ds us" by blast
  from backward_pass_agrees [OF us(2) assms(2), of 0] us(1) show ?thesis by (auto simp: timing_pass_def)
qed

lemma timing_passes_agrees:
  assumes "agrees s ds ts" and "timeline p s ds"
  shows "\<exists>ts'. timing_passes p n ts = Inr ts' \<and> agrees s ds ts'"
  using assms
proof (induction n arbitrary: ts)
  case (Suc n)
  from timing_pass_agrees [OF Suc.prems] obtain us c where "timing_pass p ts = Inr (us, c)" "agrees s ds us" by blast
  with Suc.IH [of us] Suc.prems(2) show ?case by auto
qed simp

text \<open>At a fixed point no rule applies.\<close>

lemma timing_pass_unchanged:
  assumes "timing_pass p ts = Inr (ts, False)"
  shows "forward_pass p 0 ts = Inr (ts, False) \<and> backward_pass 0 ts = Inr (ts, False)"
proof -
  from assms obtain us where us: "forward_pass p 0 ts = Inr (us, False)" "backward_pass 0 us = Inr (ts, False)"
    by (auto simp: timing_pass_def split: sum.splits prod.splits)
  with forward_pass_progress [OF us(1)] show ?thesis by (simp add: progress_all_def)
qed

lemma forward_unchanged_Cons:
  assumes "forward_pass p i (cur # nxt # rest) = Inr (ts, False)"
  shows "forward_pass p (i + 1) (nxt # rest) = Inr (nxt # rest, False)"
    and "rt_startKnown cur \<Longrightarrow> rt_durationKnown cur \<Longrightarrow> rt_startKnown nxt"
    and "rt_startKnown cur \<Longrightarrow> rt_startKnown nxt \<Longrightarrow> rt_durationKnown cur"
proof -
  from assms obtain n k us where n: "infer_start i cur nxt = Inr (n, False)" and k: "infer_duration i cur n = Inr (k, False)"
    and us: "forward_pass p (i + 1) (n # rest) = Inr (us, False)"
    by (auto split: sum.splits prod.splits)
  have "n = nxt" "k = cur" "us = n # rest"
    using infer_progress(1) [OF n] infer_progress(2) [OF k] forward_pass_progress [OF us]
    by (simp_all add: progress_def progress_all_def)
  with n k us show "forward_pass p (i + 1) (nxt # rest) = Inr (nxt # rest, False)"
    and "rt_startKnown cur \<Longrightarrow> rt_durationKnown cur \<Longrightarrow> rt_startKnown nxt"
    and "rt_startKnown cur \<Longrightarrow> rt_startKnown nxt \<Longrightarrow> rt_durationKnown cur"
    by (auto simp: infer_start_def infer_duration_def split: if_splits option.splits)
qed

lemma forward_unchanged_last:
  "forward_pass p i [cur] = Inr (ts, False) \<Longrightarrow> 0 < p \<Longrightarrow> rt_startKnown cur \<or> rt_durationKnown cur \<Longrightarrow>
    rt_startKnown cur \<and> rt_durationKnown cur"
  by (auto simp: infer_last_def split: sum.splits prod.splits if_splits)

lemma backward_unchanged_Cons:
  assumes "backward_pass i (cur # nxt # rest) = Inr (ts, False)"
  shows "backward_pass (i + 1) (nxt # rest) = Inr (nxt # rest, False)"
    and "rt_durationKnown cur \<Longrightarrow> rt_startKnown nxt \<Longrightarrow> rt_startKnown cur"
proof -
  from assms obtain us k where us: "backward_pass (i + 1) (nxt # rest) = Inr (us, False)"
    and k: "infer_earlier_start i cur (hd us) = Inr (k, False)"
    by (auto split: sum.splits prod.splits)
  have "us = nxt # rest" using backward_pass_progress [OF us] by (simp add: progress_all_def)
  with us k show "backward_pass (i + 1) (nxt # rest) = Inr (nxt # rest, False)"
    and "rt_durationKnown cur \<Longrightarrow> rt_startKnown nxt \<Longrightarrow> rt_startKnown cur"
    by (auto simp: infer_earlier_start_def split: if_splits)
qed

definition fully_known :: "resolvedPeriodTiming \<Rightarrow> bool" where
  "fully_known t \<longleftrightarrow> rt_startKnown t \<and> rt_durationKnown t"

lemma closed_from_end:
  assumes "forward_pass p i ts = Inr (ts, False)" and "backward_pass j ts = Inr (ts, False)"
    and "0 < p" and "list_all (\<lambda>t. rt_startKnown t \<or> rt_durationKnown t) ts"
  shows "list_all fully_known ts"
  using assms
proof (induction ts arbitrary: i j)
  case (Cons cur ts)
  show ?case
  proof (cases ts)
    case Nil
    with Cons.prems forward_unchanged_last [of p i cur] show ?thesis by (auto simp: fully_known_def)
  next
    case rest: (Cons nxt rest)
    note f = forward_unchanged_Cons [OF Cons.prems(1) [unfolded rest]]
    note b = backward_unchanged_Cons [OF Cons.prems(2) [unfolded rest]]
    from Cons.IH [of "i + 1" "j + 1"] f(1) b(1) Cons.prems(3,4) rest have "list_all fully_known ts" by simp
    then show ?thesis using f(3) b(2) Cons.prems(4) rest by (auto simp: fully_known_def list_all_iff)
  qed
qed simp

lemma closed_from_start:
  assumes "forward_pass p i ts = Inr (ts, False)" and "list_all rt_durationKnown ts" and "ts \<noteq> [] \<Longrightarrow> rt_startKnown (hd ts)"
  shows "list_all fully_known ts"
  using assms
proof (induction ts arbitrary: i)
  case (Cons cur ts)
  show ?case
  proof (cases ts)
    case rest: (Cons nxt rest)
    note f = forward_unchanged_Cons [OF Cons.prems(1) [unfolded rest]]
    from Cons.IH [of "i + 1"] f(1,2) Cons.prems(2,3) rest show ?thesis by (simp add: fully_known_def)
  qed (use Cons.prems in \<open>simp add: fully_known_def\<close>)
qed simp

section \<open>Properties\<close>

text \<open>The interval of every period of a timeline.\<close>

fun intervals :: "int \<Rightarrow> int list \<Rightarrow> (int \<times> int) list" where
  "intervals s [] = []"
| "intervals s (d # ds) = (s, d) # intervals (s + d) ds"

definition in_interval :: "Period \<Rightarrow> int \<times> int \<Rightarrow> bool" where
  "in_interval period i \<longleftrightarrow> pd_TimingKnown period \<longrightarrow> pd_Start period = fst i \<and> pd_Duration period = snd i"

lemma explicit_timings_length: "explicit_timings scaled i ps = Inr ts \<Longrightarrow> length ts = length ps"
  by (induction scaled i ps arbitrary: ts rule: explicit_timings.induct) (auto split: sum.splits)

lemma agrees_intervals:
  "agrees s ds ts \<Longrightarrow> length ps = length ts \<Longrightarrow> list_all2 in_interval (map2 period_of ps ts) (intervals s ds)"
proof (induction s ds ts arbitrary: ps rule: agrees.induct)
  case (2 s d ds t ts)
  then show ?case by (cases ps) (auto simp: in_interval_def period_of_def)
qed auto

lemma first_start_known_unknowns: "unknowns (first_start_known ts) \<le> 2 * length ts"
  using unknowns_bound [of "first_start_known ts"] by simp

lemma first_start_known_more: "list_all2 known_more ts (first_start_known ts)"
  by (cases ts) (auto simp: known_more_def list_all2_refl)

lemma fully_known_periods:
  "length ps = length ts \<Longrightarrow> list_all fully_known ts \<Longrightarrow> list_all pd_TimingKnown (map2 period_of ps ts)"
proof (induction ps arbitrary: ts)
  case (Cons p ps)
  then show ?case by (cases ts) (auto simp: fully_known_def period_of_def)
qed simp

lemma known_more_keeps:
  assumes "list_all2 known_more ts us" and "list_all P ts" and "\<And>t u. known_more t u \<Longrightarrow> P t \<Longrightarrow> P u"
  shows "list_all P us"
  using assms(1,2) by (induction rule: list_all2_induct) (auto intro: assms(3))

definition determined :: "i64 \<Rightarrow> resolvedPeriodTiming list \<Rightarrow> bool" where
  "determined p ts \<longleftrightarrow>
     list_all rt_durationKnown ts \<or> (p > 0 \<and> list_all (\<lambda>t. rt_startKnown t \<or> rt_durationKnown t) ts)"

lemma determined_more: "list_all2 known_more ts us \<Longrightarrow> determined p ts \<Longrightarrow> determined p us"
  unfolding determined_def
  using known_more_keeps [of ts us rt_durationKnown] known_more_keeps [of ts us "\<lambda>t. rt_startKnown t \<or> rt_durationKnown t"]
  by (auto simp: known_more_def)

lemma determined_fully_known:
  assumes "timing_pass p ts = Inr (ts, False)" and "determined p ts" and "ts \<noteq> [] \<Longrightarrow> rt_startKnown (hd ts)"
  shows "list_all fully_known ts"
  using assms(2,3) timing_pass_unchanged [OF assms(1)] closed_from_end closed_from_start by (auto simp: determined_def)

text \<open>
  C33. Let the attributes of the periods be consistent with some timeline without gaps that fits the duration of the
  presentation. Then the inference fails for no period, what it reports as known is that timeline, and it is complete: when every
  period gives its duration, or the presentation has a duration and every period gives a start or a duration, then the
  interval of every period is known.
\<close>

theorem consistent_timeline_is_resolved:
  assumes "explicit_timings scaled 0 periods = Inr given"
    and "agrees s ds (first_start_known given)" and "timeline presentation s ds"
  shows "\<exists>ps. resolvePeriodTimings scaled periods presentation = Inr ps \<and> list_all2 in_interval ps (intervals s ds) \<and>
    (determined presentation given \<longrightarrow> list_all pd_TimingKnown ps)"
proof -
  from timing_passes_agrees [OF assms(2,3)] obtain ts where
    ts: "timing_passes presentation (2 * length given + 1) (first_start_known given) = Inr ts" and agree: "agrees s ds ts"
    by blast
  have fixed: "timing_pass presentation ts = Inr (ts, False)" and more: "list_all2 known_more (first_start_known given) ts"
    using timing_passes_fixpoint [OF ts] first_start_known_unknowns [of given] by auto
  have len: "length periods = length ts"
    using explicit_timings_length [OF assms(1)] list_all2_lengthD [OF more] by simp
  have "ts \<noteq> [] \<Longrightarrow> rt_startKnown (hd ts)"
    using more by (cases given; cases ts) (auto simp: known_more_def split: if_splits)
  then have "determined presentation given \<Longrightarrow> list_all fully_known ts"
    using determined_fully_known [OF fixed] determined_more [OF list_all2_known_more_trans [OF first_start_known_more more]]
    by blast
  with ts agree len assms(1) show ?thesis
    by (auto simp: resolvePeriodTimings_def intro: agrees_intervals fully_known_periods)
qed

text \<open>Three periods: the first start and the last duration are inferred from the rest.\<close>

definition whole_seconds :: "string \<Rightarrow> i64 \<Rightarrow> i64 option" where
  "whole_seconds s nanoseconds = map_option (\<lambda>n. wrap64 (n * nanoseconds)) (ParseInt s)"

definition sample_periods :: "period_attributes list" where
  "sample_periods =
     [\<lparr>pt_ID = ''a'', pt_Start = [], pt_Duration = ''PT5S''\<rparr>, \<lparr>pt_ID = ''b'', pt_Start = [], pt_Duration = ''PT1M''\<rparr>,
      \<lparr>pt_ID = ''c'', pt_Start = ''PT1M5S'', pt_Duration = []\<rparr>]"

definition sample_given :: "resolvedPeriodTiming list" where
  "sample_given =
     [unresolved\<lparr>rt_duration := 5 * 10 ^ 9, rt_durationKnown := True\<rparr>, unresolved\<lparr>rt_duration := 60 * 10 ^ 9, rt_durationKnown := True\<rparr>,
      unresolved\<lparr>rt_start := 65 * 10 ^ 9, rt_startKnown := True\<rparr>]"

lemma sample_explicit: "explicit_timings whole_seconds 0 sample_periods = Inr sample_given"
  by code_simp

theorem consistent_timeline_is_resolved_witness:
  "\<exists>ps. resolvePeriodTimings whole_seconds sample_periods (100 * 10 ^ 9) = Inr ps \<and>
     list_all2 in_interval ps (intervals 0 [5 * 10 ^ 9, 60 * 10 ^ 9, 35 * 10 ^ 9]) \<and> list_all pd_TimingKnown ps"
proof -
  have "agrees 0 [5 * 10 ^ 9, 60 * 10 ^ 9, 35 * 10 ^ 9] (first_start_known sample_given)"
    by (simp add: sample_given_def unresolved_def)
  moreover have "timeline (100 * 10 ^ 9) 0 [5 * 10 ^ 9, 60 * 10 ^ 9, 35 * 10 ^ 9]"
    by (simp add: timeline_def limits)
  moreover have "determined (100 * 10 ^ 9) sample_given"
    by (simp add: determined_def sample_given_def unresolved_def)
  ultimately show ?thesis
    using consistent_timeline_is_resolved [OF sample_explicit] by blast
qed
end
