(* ===== verification/DashTemplate.thy ===== *)
theory DashTemplate
  imports PeriodTiming
begin

text \<open>
  The segments of a DASH representation (\<open>internal/protocol/dash/mpd.go\<close>): URL templates, segment timelines, lists and segment bases, and the
  inheritance of these elements from period to adaptation set to representation. An XML element that may be
  absent is an option. The URL library, floating-point arithmetic and the parsing of times are the fields of a record
  \<open>dash_lib\<close>; all results hold whatever they return.
\<close>

section \<open>Elements\<close>

record initializationXML =
  in_SourceURL :: string
  in_Range :: string

record timelineEntryXML =
  te_Time :: "i64 option"
  te_Duration :: i64
  te_Repeat :: i64

record segmentTemplateXML =
  st_Media :: string
  st_Initialization :: string
  st_Timescale :: i64
  st_Duration :: i64
  st_StartNumber :: i64
  st_PresentationTimeOffset :: i64
  st_Timeline :: "timelineEntryXML list"
  st_InitializationElement :: "initializationXML option"

record segmentURLXML =
  su_Media :: string
  su_MediaRange :: string

record segmentListXML =
  sl_Timescale :: i64
  sl_Duration :: i64
  sl_StartNumber :: i64
  sl_PresentationTimeOffset :: i64
  sl_Timeline :: "timelineEntryXML list"
  sl_Initialization :: "initializationXML option"
  sl_Segments :: "segmentURLXML list"

record segmentBaseXML =
  sb_IndexRange :: string
  sb_Initialization :: "initializationXML option"

text \<open>
  The libraries: \<open>dl_resolve\<close> is \<open>url.Parse\<close> of the trimmed text followed by \<open>ResolveReference\<close>, \<open>dl_scaled\<close> reads a number and
  multiplies it by a unit, \<open>dl_ticks\<close> is \<open>int64(math.Ceil(d.Seconds() * float64(timescale)))\<close>, \<open>dl_count\<close> the same divided by a
  duration, and \<open>dl_time\<close> is \<open>time.Parse\<close> in nanoseconds after the zero time.
\<close>

record 'u dash_lib =
  dl_resolve :: "'u \<Rightarrow> string \<Rightarrow> 'u option"
  dl_String :: "'u \<Rightarrow> string"
  dl_scaled :: "string \<Rightarrow> i64 \<Rightarrow> i64 option"
  dl_ticks :: "i64 \<Rightarrow> i64 \<Rightarrow> i64"
  dl_count :: "i64 \<Rightarrow> i64 \<Rightarrow> i64 \<Rightarrow> i64"
  dl_time :: "string \<Rightarrow> int option"

datatype segment_error =
    EmptyMedia | UnsupportedToken | BadReference | BadByteRange | UnsupportedTimeline | UnsupportedAddressing | NeedsDuration | NoSource

section \<open>Inheritance\<close>

definition inherit :: "'a \<Rightarrow> 'a \<Rightarrow> 'a \<Rightarrow> 'a" where
  "inherit zero value result = (if value \<noteq> zero then value else result)"

definition merge_template :: "segmentTemplateXML \<Rightarrow> segmentTemplateXML \<Rightarrow> segmentTemplateXML" where
  "merge_template result value =
     \<lparr>st_Media = inherit [] (st_Media value) (st_Media result),
      st_Initialization = inherit [] (st_Initialization value) (st_Initialization result),
      st_Timescale = inherit 0 (st_Timescale value) (st_Timescale result),
      st_Duration = inherit 0 (st_Duration value) (st_Duration result),
      st_StartNumber = inherit 0 (st_StartNumber value) (st_StartNumber result),
      st_PresentationTimeOffset = inherit 0 (st_PresentationTimeOffset value) (st_PresentationTimeOffset result),
      st_Timeline = inherit [] (st_Timeline value) (st_Timeline result),
      st_InitializationElement = inherit None (st_InitializationElement value) (st_InitializationElement result)\<rparr>"

definition merge_list :: "segmentListXML \<Rightarrow> segmentListXML \<Rightarrow> segmentListXML" where
  "merge_list result value =
     \<lparr>sl_Timescale = inherit 0 (sl_Timescale value) (sl_Timescale result),
      sl_Duration = inherit 0 (sl_Duration value) (sl_Duration result),
      sl_StartNumber = inherit 0 (sl_StartNumber value) (sl_StartNumber result),
      sl_PresentationTimeOffset = inherit 0 (sl_PresentationTimeOffset value) (sl_PresentationTimeOffset result),
      sl_Timeline = inherit [] (sl_Timeline value) (sl_Timeline result),
      sl_Initialization = inherit None (sl_Initialization value) (sl_Initialization result),
      sl_Segments = inherit [] (sl_Segments value) (sl_Segments result)\<rparr>"

definition merge_base :: "segmentBaseXML \<Rightarrow> segmentBaseXML \<Rightarrow> segmentBaseXML" where
  "merge_base result value =
     \<lparr>sb_IndexRange = inherit [] (sb_IndexRange value) (sb_IndexRange result),
      sb_Initialization = inherit None (sb_Initialization value) (sb_Initialization result)\<rparr>"

text \<open>The loop that the three functions share: absent elements are skipped, the first one starts from an empty element.\<close>

fun merge_elements :: "('a \<Rightarrow> 'a \<Rightarrow> 'a) \<Rightarrow> 'a \<Rightarrow> 'a option \<Rightarrow> 'a option list \<Rightarrow> 'a option" where
  "merge_elements join zero result [] = result"
| "merge_elements join zero result (None # values) = merge_elements join zero result values"
| "merge_elements join zero result (Some value # values) =
     merge_elements join zero (Some (join (case result of None \<Rightarrow> zero | Some r \<Rightarrow> r) value)) values"

definition empty_template :: segmentTemplateXML where
  "empty_template =
     \<lparr>st_Media = [], st_Initialization = [], st_Timescale = 0, st_Duration = 0, st_StartNumber = 0, st_PresentationTimeOffset = 0,
      st_Timeline = [], st_InitializationElement = None\<rparr>"

definition empty_list :: segmentListXML where
  "empty_list =
     \<lparr>sl_Timescale = 0, sl_Duration = 0, sl_StartNumber = 0, sl_PresentationTimeOffset = 0, sl_Timeline = [], sl_Initialization = None,
      sl_Segments = []\<rparr>"

definition empty_base :: segmentBaseXML where
  "empty_base = \<lparr>sb_IndexRange = [], sb_Initialization = None\<rparr>"

definition mergeSegmentTemplates :: "segmentTemplateXML option list \<Rightarrow> segmentTemplateXML option" where
  "mergeSegmentTemplates values = merge_elements merge_template empty_template None values"

definition mergeSegmentLists :: "segmentListXML option list \<Rightarrow> segmentListXML option" where
  "mergeSegmentLists values = merge_elements merge_list empty_list None values"

definition mergeSegmentBases :: "segmentBaseXML option list \<Rightarrow> segmentBaseXML option" where
  "mergeSegmentBases values = merge_elements merge_base empty_base None values"

section \<open>Template tokens\<close>

datatype token_name = RepresentationID | Bandwidth | Number | Time

fun name_text :: "token_name \<Rightarrow> string" where
  "name_text RepresentationID = ''RepresentationID''"
| "name_text Bandwidth = ''Bandwidth''"
| "name_text Number = ''Number''"
| "name_text Time = ''Time''"

definition token_names :: "token_name list" where
  "token_names = [RepresentationID, Bandwidth, Number, Time]"

definition is_digit :: "char \<Rightarrow> bool" where
  "is_digit c \<longleftrightarrow> 48 \<le> (of_char c :: nat) \<and> (of_char c :: nat) \<le> 57"

text \<open>\<open>strings.ReplaceAll(s, "$$", new)\<close>\<close>

fun replace_dollars :: "string \<Rightarrow> string \<Rightarrow> string" where
  "replace_dollars new (c # d # s) =
     (if c = CHR ''$'' \<and> d = CHR ''$'' then new @ replace_dollars new s else c # replace_dollars new (d # s))"
| "replace_dollars new s = s"

text \<open>
  \<open>templatePattern\<close> at the beginning of a text: \<open>$\<close>, a name, optionally \<open>%0\<close> digits \<open>d\<close>, and \<open>$\<close>. The result is the name, the digits
  of the width (none: no format) and the text after the match.
\<close>

definition match_width :: "string \<Rightarrow> (string \<times> string) option" where
  "match_width s =
     (if HasPrefix s ''%0'' then
        let ds = takeWhile is_digit (drop 2 s); rest = dropWhile is_digit (drop 2 s)
        in if ds \<noteq> [] \<and> HasPrefix rest ''d$'' then Some (ds, drop 2 rest) else None
      else if HasPrefix s ''$'' then Some ([], drop 1 s)
      else None)"

fun match_names :: "token_name list \<Rightarrow> string \<Rightarrow> (token_name \<times> string \<times> string) option" where
  "match_names [] s = None"
| "match_names (n # ns) s =
     (case (if HasPrefix s (name_text n) then match_width (drop (length (name_text n)) s) else None) of
        Some (width, rest) \<Rightarrow> Some (n, width, rest)
      | None \<Rightarrow> match_names ns s)"

definition match_token :: "string \<Rightarrow> (token_name \<times> string \<times> string) option" where
  "match_token s = (case s of [] \<Rightarrow> None | c # t \<Rightarrow> if c = CHR ''$'' then match_names token_names t else None)"

lemma match_width_shorter: "match_width s = Some (width, rest) \<Longrightarrow> length rest < length s"
proof -
  assume m: "match_width s = Some (width, rest)"
  have "length (dropWhile is_digit (drop 2 s)) \<le> length s - 2"
    by (metis length_dropWhile_le length_drop)
  with m show ?thesis
    by (auto simp: match_width_def Let_def HasPrefix_def split: if_splits dest!: arg_cong [where f = length])
qed

lemma match_names_shorter: "match_names ns s = Some (n, width, rest) \<Longrightarrow> length rest < length s"
  by (induction ns) (fastforce split: if_splits option.splits prod.splits dest: match_width_shorter)+

lemma match_token_shorter: "match_token s = Some (n, width, rest) \<Longrightarrow> length rest < length s"
  by (auto simp: match_token_def split: list.splits if_splits dest: match_names_shorter)

text \<open>\<open>ReplaceAllStringFunc\<close> and \<open>FindAllStringSubmatch\<close>: matches from left to right.\<close>

function replace_tokens :: "(token_name \<Rightarrow> string \<Rightarrow> string) \<Rightarrow> string \<Rightarrow> string" where
  "replace_tokens value [] = []"
| "replace_tokens value (c # s) =
     (case match_token (c # s) of
        Some (n, width, rest) \<Rightarrow> value n width @ replace_tokens value rest
      | None \<Rightarrow> c # replace_tokens value s)"
  by pat_completeness auto
termination
  by (relation "measure (\<lambda>(value, s). length s)") (auto dest: match_token_shorter)

function find_tokens :: "string \<Rightarrow> (token_name \<times> string) list" where
  "find_tokens [] = []"
| "find_tokens (c # s) =
     (case match_token (c # s) of
        Some (n, width, rest) \<Rightarrow> (n, width) # find_tokens rest
      | None \<Rightarrow> find_tokens s)"
  by pat_completeness auto
termination
  by (relation "measure length") (auto dest: match_token_shorter)

definition Atoi_width :: "string \<Rightarrow> int" where
  "Atoi_width ds = min (decimal ds) MaxInt64"

definition token_value :: "Representation \<Rightarrow> i64 \<Rightarrow> i64 \<Rightarrow> token_name \<Rightarrow> string \<Rightarrow> string" where
  "token_value r number segmentTime n width =
     (let value = (case n of RepresentationID \<Rightarrow> rp_ID r | Bandwidth \<Rightarrow> Itoa (rp_Bandwidth r)
                     | Number \<Rightarrow> Itoa number | Time \<Rightarrow> Itoa segmentTime)
      in if width \<noteq> [] \<and> n \<noteq> RepresentationID
         then replicate (nat (Atoi_width width - int (length value))) (CHR ''0'') @ value else value)"

definition resolveBase :: "'u dash_lib \<Rightarrow> 'u \<Rightarrow> string \<Rightarrow> 'u option" where
  "resolveBase lib base raw = (if raw = [] then Some base else dl_resolve lib base raw)"

definition restore_dollars :: "string \<Rightarrow> string" where
  "restore_dollars s = map (\<lambda>c. if c = CHR 0x00 then CHR ''$'' else c) s"

definition template_text :: "string \<Rightarrow> Representation \<Rightarrow> i64 \<Rightarrow> i64 \<Rightarrow> string" where
  "template_text pattern r number segmentTime =
     restore_dollars (replace_tokens (token_value r number segmentTime) (replace_dollars [CHR 0x00] pattern))"

definition templateURL ::
    "'u dash_lib \<Rightarrow> 'u \<Rightarrow> string \<Rightarrow> Representation \<Rightarrow> i64 \<Rightarrow> i64 \<Rightarrow> segment_error + string" where
  "templateURL lib base pattern r number segmentTime =
     (if pattern = [] then Inl EmptyMedia
      else let replaced = template_text pattern r number segmentTime
      in if Contains replaced ''$'' then Inl UnsupportedToken
         else (case resolveBase lib base replaced of None \<Rightarrow> Inl BadReference | Some u \<Rightarrow> Inr (dl_String lib u)))"

section \<open>Segments\<close>

definition url_segment :: "string \<Rightarrow> Segment" where
  "url_segment url = range_segment url 0 0 False"

definition rangedSegment :: "'u dash_lib \<Rightarrow> 'u \<Rightarrow> string \<Rightarrow> string \<Rightarrow> segment_error + Segment" where
  "rangedSegment lib base rawURL rawRange =
     (case resolveBase lib base rawURL of
        None \<Rightarrow> Inl BadReference
      | Some resolved \<Rightarrow>
          if rawRange = [] then Inr (url_segment (dl_String lib resolved))
          else (case Index rawRange ''-'' of
                  None \<Rightarrow> Inl BadByteRange
                | Some i \<Rightarrow>
                    (case ParseInt (take i rawRange) of
                       None \<Rightarrow> Inl BadByteRange
                     | Some start \<Rightarrow>
                         (case ParseInt (drop (i + 1) rawRange) of
                            None \<Rightarrow> Inl BadByteRange
                          | Some final \<Rightarrow>
                              if final < start then Inl BadByteRange
                              else Inr (range_segment (dl_String lib resolved) start (wrap64 (final - start + 1)) False)))))"

definition initializing :: "segment_error + Segment \<Rightarrow> segment_error + Segment list" where
  "initializing r = (case r of Inl e \<Rightarrow> Inl e | Inr s \<Rightarrow> Inr [s\<lparr>sg_Initialize := True\<rparr>])"

definition positive_or_one :: "i64 \<Rightarrow> i64" where
  "positive_or_one n = (if n \<le> 0 then 1 else n)"

definition media_segment :: "string \<Rightarrow> i64 \<Rightarrow> i64 \<Rightarrow> Segment" where
  "media_segment url number segmentTime = (url_segment url)\<lparr>sg_Sequence := number, sg_Timeline := segmentTime\<rparr>"

text \<open>
  The innermost loop of \<open>templateSegments\<close>. Its counter is a 64-bit integer that is compared with a limit from the manifest, so
  that the loop need not end: that is the value \<open>None\<close>.
\<close>

partial_function (option) repeat_loop ::
    "(i64 \<Rightarrow> i64 \<Rightarrow> segment_error + string) \<Rightarrow> i64 \<Rightarrow> i64 \<Rightarrow> i64 \<Rightarrow> i64 \<Rightarrow> i64 \<Rightarrow> Segment list \<Rightarrow>
      (segment_error + Segment list \<times> i64 \<times> i64) option" where
  "repeat_loop address duration repeatCount repeat number currentTime result =
     (if repeatCount < repeat then Some (Inr (result, number, currentTime))
      else (case address number currentTime of
              Inl e \<Rightarrow> Some (Inl e)
            | Inr resolved \<Rightarrow>
                repeat_loop address duration repeatCount (wrap64 (repeat + 1)) (wrap64 (number + 1)) (wrap64 (currentTime + duration))
                  (result @ [media_segment resolved number currentTime])))"

declare repeat_loop.simps [code]

text \<open>How often an entry is repeated; \<open>None\<close> is an error.\<close>

definition repeat_count ::
    "'u dash_lib \<Rightarrow> i64 \<Rightarrow> i64 \<Rightarrow> i64 \<Rightarrow> timelineEntryXML \<Rightarrow> timelineEntryXML list \<Rightarrow> i64 option" where
  "repeat_count lib timescale presentationDuration currentTime entry later =
     (if te_Repeat entry = -1 then
        (case (if later \<noteq> [] \<and> te_Time (hd later) \<noteq> None then te_Time (hd later)
               else if presentationDuration > 0 then Some (dl_ticks lib presentationDuration timescale) else None) of
           None \<Rightarrow> None
         | Some endTime \<Rightarrow>
             if endTime \<le> currentTime then None
             else Some (go_div (wrap64 (wrap64 (endTime - currentTime) - 1)) (te_Duration entry)))
      else Some (te_Repeat entry))"

fun timeline_loop ::
    "'u dash_lib \<Rightarrow> i64 \<Rightarrow> i64 \<Rightarrow> (i64 \<Rightarrow> i64 \<Rightarrow> segment_error + string) \<Rightarrow> timelineEntryXML list \<Rightarrow> i64 \<Rightarrow> i64 \<Rightarrow> Segment list \<Rightarrow>
      (segment_error + Segment list) option" where
  "timeline_loop lib timescale presentationDuration address [] number currentTime result = Some (Inr result)"
| "timeline_loop lib timescale presentationDuration address (entry # later) number currentTime result =
     (if te_Duration entry \<le> 0 \<or> te_Repeat entry < -1 then Some (Inl UnsupportedTimeline)
      else let currentTime = (case te_Time entry of Some t \<Rightarrow> t | None \<Rightarrow> currentTime)
      in (case repeat_count lib timescale presentationDuration currentTime entry later of
            None \<Rightarrow> Some (Inl UnsupportedTimeline)
          | Some repeatCount \<Rightarrow>
              if wrap64 (int (length result) + repeatCount + 1) > int maxSegmentsPerRepresentation then Some (Inl UnsupportedTimeline)
              else (case repeat_loop address (te_Duration entry) repeatCount 0 number currentTime result of
                      None \<Rightarrow> None
                    | Some (Inl e) \<Rightarrow> Some (Inl e)
                    | Some (Inr (result, number, currentTime)) \<Rightarrow>
                        timeline_loop lib timescale presentationDuration address later number currentTime result)))"

text \<open>Without a timeline: \<open>count\<close> segments of the same duration.\<close>

fun duration_segments ::
    "(i64 \<Rightarrow> i64 \<Rightarrow> segment_error + string) \<Rightarrow> i64 \<Rightarrow> nat \<Rightarrow> i64 \<Rightarrow> i64 \<Rightarrow> Segment list \<Rightarrow> segment_error + Segment list" where
  "duration_segments address duration 0 index number result = Inr result"
| "duration_segments address duration (Suc n) index number result =
     (let t = wrap64 (index * duration)
      in (case address number t of
            Inl e \<Rightarrow> Inl e
          | Inr resolved \<Rightarrow>
              duration_segments address duration n (index + 1) (wrap64 (number + 1)) (result @ [media_segment resolved number t])))"

definition template_initialization ::
    "'u dash_lib \<Rightarrow> 'u \<Rightarrow> Representation \<Rightarrow> segmentTemplateXML \<Rightarrow> segment_error + Segment list" where
  "template_initialization lib base r template =
     (if st_Initialization template \<noteq> [] then
        (case templateURL lib base (st_Initialization template) r (positive_or_one (st_StartNumber template)) 0 of
           Inl e \<Rightarrow> Inl e
         | Inr resolved \<Rightarrow> initializing (Inr (url_segment resolved)))
      else (case st_InitializationElement template of
              Some element \<Rightarrow> initializing (rangedSegment lib base (in_SourceURL element) (in_Range element))
            | None \<Rightarrow> Inr []))"

definition templateSegments ::
    "'u dash_lib \<Rightarrow> 'u \<Rightarrow> Representation \<Rightarrow> segmentTemplateXML \<Rightarrow> i64 \<Rightarrow> (segment_error + Segment list) option" where
  "templateSegments lib base r template presentationDuration =
     (let timescale = positive_or_one (st_Timescale template); startNumber = positive_or_one (st_StartNumber template);
          address = templateURL lib base (st_Media template) r
      in (case template_initialization lib base r template of
            Inl e \<Rightarrow> Some (Inl e)
          | Inr result \<Rightarrow>
              if st_Timeline template \<noteq> [] then
                timeline_loop lib timescale presentationDuration address (st_Timeline template) startNumber 0 result
              else if st_Duration template \<le> 0 \<or> presentationDuration \<le> 0 then Some (Inl NeedsDuration)
              else let count = dl_count lib presentationDuration timescale (st_Duration template)
              in if count > int maxSegmentsPerRepresentation then Some (Inl UnsupportedTimeline)
                 else Some (duration_segments address (st_Duration template) (nat count) 0 startNumber result)))"

fun ranged_segments :: "'u dash_lib \<Rightarrow> 'u \<Rightarrow> segmentURLXML list \<Rightarrow> segment_error + Segment list" where
  "ranged_segments lib base [] = Inr []"
| "ranged_segments lib base (item # items) =
     (case rangedSegment lib base (su_Media item) (su_MediaRange item) of
        Inl e \<Rightarrow> Inl e
      | Inr s \<Rightarrow> (case ranged_segments lib base items of Inl e \<Rightarrow> Inl e | Inr ss \<Rightarrow> Inr (s # ss)))"

definition listSegments :: "'u dash_lib \<Rightarrow> 'u \<Rightarrow> segmentListXML \<Rightarrow> segment_error + Segment list" where
  "listSegments lib base xs =
     (if int (length (sl_Segments xs)) > int maxSegmentsPerRepresentation then Inl UnsupportedAddressing
      else (case (case sl_Initialization xs of
                    Some element \<Rightarrow> initializing (rangedSegment lib base (in_SourceURL element) (in_Range element))
                  | None \<Rightarrow> Inr []) of
              Inl e \<Rightarrow> Inl e
            | Inr result \<Rightarrow> (case ranged_segments lib base (sl_Segments xs) of Inl e \<Rightarrow> Inl e | Inr ss \<Rightarrow> Inr (result @ ss))))"

text \<open>The initialization of an index: the segments in front of the marker and the range inside the resource.\<close>

definition index_initialization ::
    "'u dash_lib \<Rightarrow> 'u \<Rightarrow> initializationXML option \<Rightarrow> segment_error + Segment list \<times> string" where
  "index_initialization lib base element =
     (case element of
        None \<Rightarrow> Inr ([], [])
      | Some i \<Rightarrow>
          if in_SourceURL i \<noteq> [] then
            (case resolveBase lib base (in_SourceURL i) of
               None \<Rightarrow> Inl BadReference
             | Some resolved \<Rightarrow>
                 (case initializing (rangedSegment lib base (in_SourceURL i) (in_Range i)) of
                    Inl e \<Rightarrow> Inl e
                  | Inr initSegment \<Rightarrow>
                      if dl_String lib resolved = dl_String lib base then Inr ([], in_Range i) else Inr (initSegment, [])))
          else if in_Range i \<noteq> [] then
            (if parseByteRange (in_Range i) = None then Inl UnsupportedAddressing else Inr ([], in_Range i))
          else Inr ([], []))"

definition indexRangeSegments :: "'u dash_lib \<Rightarrow> 'u \<Rightarrow> segmentBaseXML \<Rightarrow> segment_error + Segment list" where
  "indexRangeSegments lib base sb =
     (if parseByteRange (sb_IndexRange sb) = None then Inl UnsupportedAddressing
      else (case index_initialization lib base (sb_Initialization sb) of
              Inl e \<Rightarrow> Inl e
            | Inr (before, initRange) \<Rightarrow>
                Inr (before @ [(url_segment (dl_String lib base))\<lparr>sg_IndexRange := sb_IndexRange sb, sg_InitRange := initRange\<rparr>])))"

definition baseSegments :: "'u dash_lib \<Rightarrow> 'u \<Rightarrow> segmentBaseXML \<Rightarrow> segment_error + Segment list" where
  "baseSegments lib base sb =
     (if sb_IndexRange sb \<noteq> [] then indexRangeSegments lib base sb
      else (case (case sb_Initialization sb of
                    None \<Rightarrow> Inr []
                  | Some i \<Rightarrow>
                      if in_SourceURL i = [] then Inr []
                      else (case resolveBase lib base (in_SourceURL i) of
                              None \<Rightarrow> Inl BadReference
                            | Some resolved \<Rightarrow>
                                if dl_String lib resolved \<noteq> dl_String lib base
                                then initializing (rangedSegment lib base (in_SourceURL i) (in_Range i)) else Inr [])) of
              Inl e \<Rightarrow> Inl e
            | Inr result \<Rightarrow> Inr (result @ [url_segment (dl_String lib base)])))"

section \<open>Escaped dollars\<close>

text \<open>A match is a text without the character that stands for an escaped dollar.\<close>

lemma match_width_split:
  assumes "match_width s = Some (width, rest)"
  shows "\<exists>m. s = m @ rest \<and> CHR 0x00 \<notin> set m"
proof (cases "HasPrefix s ''%0''")
  case True
  then obtain t where t: "s = ''%0'' @ t" by (blast dest: HasPrefixE)
  with assms obtain u where u: "dropWhile is_digit t = ''d$'' @ u" and rest: "rest = u"
    by (auto simp: match_width_def Let_def split: if_splits dest!: HasPrefixE)
  have "s = (''%0'' @ takeWhile is_digit t @ ''d$'') @ rest"
    using takeWhile_dropWhile_id [of is_digit t] by (simp add: t rest u)
  moreover have "CHR 0x00 \<notin> set (takeWhile is_digit t)" by (auto simp: is_digit_def dest: set_takeWhileD)
  ultimately show ?thesis by fastforce
next
  case False
  with assms obtain t where "s = ''$'' @ t" "rest = t"
    by (auto simp: match_width_def split: if_splits dest!: HasPrefixE)
  then show ?thesis by (intro exI [of _ "''$''"]) simp
qed

lemma match_names_split: "match_names ns s = Some (n, width, rest) \<Longrightarrow> \<exists>m. s = m @ rest \<and> CHR 0x00 \<notin> set m"
proof (induction ns)
  case (Cons k ns)
  show ?case
  proof (cases "HasPrefix s (name_text k) \<and> match_width (drop (length (name_text k)) s) \<noteq> None")
    case True
    then obtain t where t: "s = name_text k @ t" by (blast dest: HasPrefixE)
    with True Cons.prems have "match_width t = Some (width, rest)" by auto
    from match_width_split [OF this] obtain m where "t = m @ rest" "CHR 0x00 \<notin> set m" by blast
    moreover have "CHR 0x00 \<notin> set (name_text k)" by (cases k) simp_all
    ultimately show ?thesis using t by (intro exI [of _ "name_text k @ m"]) simp
  qed (use Cons in \<open>auto split: if_splits option.splits\<close>)
qed simp

lemma match_token_split: "match_token s = Some (n, width, rest) \<Longrightarrow> \<exists>m. s = m @ rest \<and> CHR 0x00 \<notin> set m"
proof (cases s)
  case (Cons c t)
  moreover assume "match_token s = Some (n, width, rest)"
  ultimately have "c = CHR ''$''" "match_names token_names t = Some (n, width, rest)"
    by (auto simp: match_token_def split: if_splits)
  with match_names_split [of token_names t] obtain m where "s = (c # m) @ rest" "CHR 0x00 \<notin> set m" using Cons by auto
  with \<open>c = CHR ''$''\<close> show ?thesis by (intro exI [of _ "c # m"]) simp
qed (simp add: match_token_def)

lemma replace_tokens_keeps: "CHR 0x00 \<in> set s \<Longrightarrow> CHR 0x00 \<in> set (replace_tokens v s)"
proof (induction v s rule: replace_tokens.induct)
  case (2 v c s)
  show ?case
  proof (cases "match_token (c # s)")
    case (Some a)
    obtain n width rest where a: "a = (n, width, rest)" by (cases a)
    with match_token_split [of "c # s" n width rest] Some obtain m where m: "c # s = m @ rest" "CHR 0x00 \<notin> set m" by blast
    from "2.prems" have "CHR 0x00 \<in> set rest" unfolding m(1) using m(2) by simp
    with "2.IH"(2) Some a show ?thesis by simp
  qed (use 2 in auto)
qed simp

lemma replace_dollars_marks: "Contains s ''$$'' \<Longrightarrow> CHR 0x00 \<in> set (replace_dollars [CHR 0x00] s)"
  by (induction "[CHR 0x00 :: char]" s rule: replace_dollars.induct)
    (auto simp: Contains_def HasPrefix_def split: if_splits)

text \<open>
  The escape \<open>$$\<close> of URL templates is never accepted: it is turned back into a dollar before the check for tokens that were
  not replaced, and that check then refuses the template.
\<close>

theorem escaped_dollar_is_refused:
  assumes "Contains pattern ''$$''"
  shows "templateURL lib base pattern r number segmentTime = Inl UnsupportedToken"
proof -
  have "CHR ''$'' \<in> set (template_text pattern r number segmentTime)"
    using replace_tokens_keeps [OF replace_dollars_marks [OF assms]] by (auto simp: template_text_def restore_dollars_def)
  moreover have "pattern \<noteq> []" using assms by (auto simp: Contains_def HasPrefix_def)
  ultimately show ?thesis by (simp add: templateURL_def Contains_char_iff)
qed

definition plain_lib :: "string dash_lib" where
  "plain_lib =
     \<lparr>dl_resolve = (\<lambda>base raw. Some (base @ raw)), dl_String = id, dl_scaled = whole_seconds,
      dl_ticks = (\<lambda>d timescale. wrap64 (d div 10 ^ 9 * timescale)), dl_count = (\<lambda>d timescale duration. d div 10 ^ 9 * timescale div duration),
      dl_time = (\<lambda>s. None)\<rparr>"

definition video_representation :: Representation where
  "video_representation = sample_representation ''video'' 1000"

theorem escaped_dollar_is_refused_witness:
  "templateURL plain_lib ''http://h/'' ''cost$$5/$Number$.m4s'' video_representation 1 0 = Inl UnsupportedToken"
proof -
  have "Contains ''cost$$5/$Number$.m4s'' ''$$''" by code_simp
  then show ?thesis by (rule escaped_dollar_is_refused)
qed

section \<open>Timelines\<close>

text \<open>A repetition of \<open>k\<close> segments as a function that always ends, and its meaning while nothing wraps around.\<close>

fun emit ::
    "(i64 \<Rightarrow> i64 \<Rightarrow> segment_error + string) \<Rightarrow> i64 \<Rightarrow> nat \<Rightarrow> i64 \<Rightarrow> i64 \<Rightarrow> Segment list \<Rightarrow> segment_error + Segment list \<times> i64 \<times> i64" where
  "emit address d 0 number t result = Inr (result, number, t)"
| "emit address d (Suc k) number t result =
     (case address number t of
        Inl e \<Rightarrow> Inl e
      | Inr resolved \<Rightarrow> emit address d k (wrap64 (number + 1)) (wrap64 (t + d)) (result @ [media_segment resolved number t]))"

lemma repeat_loop_emit:
  assumes "0 \<le> i" and "c < MaxInt64" and "i \<le> c + 1"
  shows "repeat_loop address d c i number t result = Some (emit address d (nat (c + 1 - i)) number t result)"
  using assms
proof (induction "nat (c + 1 - i)" arbitrary: i number t result)
  case 0
  then show ?case by (subst repeat_loop.simps) simp
next
  case (Suc k)
  then have k: "k = nat (c + 1 - (i + 1))" "nat (c + 1 - i) = Suc k" and "wrap64 (i + 1) = i + 1"
    by (auto intro: in_i64_nonneg)
  with Suc.hyps(1) [of "i + 1"] Suc.prems Suc.hyps(2) show ?case
    by (subst repeat_loop.simps) (auto split: sum.splits)
qed

text \<open>Every media segment is addressed by its own number and time.\<close>

definition addressed :: "(i64 \<Rightarrow> i64 \<Rightarrow> segment_error + string) \<Rightarrow> Segment \<Rightarrow> bool" where
  "addressed address s \<longleftrightarrow> address (sg_Sequence s) (sg_Timeline s) = Inr (sg_URL s) \<and> \<not> sg_Initialize s"

lemma media_segment_simps [simp]:
  "sg_URL (media_segment url number t) = url" "sg_Sequence (media_segment url number t) = number"
  "sg_Timeline (media_segment url number t) = t" "sg_Initialize (media_segment url number t) = False"
  by (simp_all add: media_segment_def url_segment_def range_segment_def)

lemma addressed_media_segment: "address number t = Inr url \<Longrightarrow> addressed address (media_segment url number t)"
  by (simp add: addressed_def)

definition from_number :: "int \<Rightarrow> nat \<Rightarrow> int list" where
  "from_number n k = map (\<lambda>i. n + int i) [0..<k]"

definition run_times :: "int \<Rightarrow> int \<Rightarrow> nat \<Rightarrow> int list" where
  "run_times t d k = map (\<lambda>i. t + int i * d) [0..<k]"

lemma from_number_Suc: "from_number n (Suc k) = n # from_number (n + 1) k"
  by (simp add: from_number_def upt_conv_Cons map_Suc_upt [symmetric] del: upt_Suc)

lemma run_times_Suc: "run_times t d (Suc k) = t # run_times (t + d) d k"
  by (simp add: run_times_def upt_conv_Cons map_Suc_upt [symmetric] algebra_simps del: upt_Suc)

lemma from_number_append: "from_number n (j + k) = from_number n j @ from_number (n + int j) k"
  by (induction j arbitrary: n) (auto simp: from_number_Suc from_number_def [of _ 0] algebra_simps)

lemma emit_run:
  assumes "emit address d k number t result = Inr (result', number', t')"
    and "0 \<le> number" "number + int k \<le> MaxInt64" "0 \<le> t" "0 \<le> d" "t + int k * d \<le> MaxInt64"
  shows "number' = number + int k \<and> t' = t + int k * d \<and>
    (\<exists>media. result' = result @ media \<and> length media = k \<and> map sg_Sequence media = from_number number k \<and>
       map sg_Timeline media = run_times t d k \<and> list_all (addressed address) media)"
  using assms
proof (induction k arbitrary: number t result)
  case 0
  then show ?case by (auto simp: from_number_def run_times_def)
next
  case (Suc k)
  from Suc.prems(1) obtain resolved where resolved: "address number t = Inr resolved"
    and later: "emit address d k (wrap64 (number + 1)) (wrap64 (t + d)) (result @ [media_segment resolved number t]) = Inr (result', number', t')"
    by (auto split: sum.splits)
  have "0 \<le> int k * d" using Suc.prems by simp
  moreover have "t + d + int k * d \<le> MaxInt64" using Suc.prems(6) by (simp add: algebra_simps)
  ultimately have t: "t + d + int k * d \<le> MaxInt64" "t + d \<le> MaxInt64" by linarith+
  with Suc.prems have "wrap64 (number + 1) = number + 1" "wrap64 (t + d) = t + d" by (auto intro: in_i64_nonneg)
  with Suc.IH [OF later] Suc.prems t obtain media where
    "number' = number + 1 + int k" "t' = t + d + int k * d" "result' = result @ media_segment resolved number t # media"
    "length media = k" "map sg_Sequence media = from_number (number + 1) k" "map sg_Timeline media = run_times (t + d) d k"
    "list_all (addressed address) media"
    by auto
  with resolved show ?case
    by (auto simp: from_number_Suc run_times_Suc algebra_simps addressed_media_segment)
qed

text \<open>
  The meaning of a timeline. An entry starts at its own time, or else where the entry before it ended, and stands for segments
  of equal duration without a gap between them. There is one segment more than the repetitions it announces; an entry that is
  repeated as often as necessary reaches the time of the next entry, or the end of the period, with its last segment and not before.
\<close>

definition entry_start :: "timelineEntryXML \<Rightarrow> int \<Rightarrow> int" where
  "entry_start e t = (case te_Time e of Some t' \<Rightarrow> t' | None \<Rightarrow> t)"

definition boundary :: "int option \<Rightarrow> timelineEntryXML list \<Rightarrow> int option" where
  "boundary final later = (if later \<noteq> [] \<and> te_Time (hd later) \<noteq> None then te_Time (hd later) else final)"

definition run_length :: "int option \<Rightarrow> timelineEntryXML \<Rightarrow> timelineEntryXML list \<Rightarrow> int \<Rightarrow> nat \<Rightarrow> bool" where
  "run_length final e later s k \<longleftrightarrow>
     (if te_Repeat e = -1 then
        (\<exists>b. boundary final later = Some b \<and> 0 < k \<and> s + (int k - 1) * te_Duration e < b \<and> b \<le> s + int k * te_Duration e)
      else int k = te_Repeat e + 1)"

inductive timeline_runs :: "int option \<Rightarrow> timelineEntryXML list \<Rightarrow> int \<Rightarrow> int list \<Rightarrow> bool" for final where
  no_entries: "timeline_runs final [] t []"
| entry: "run_length final e later (entry_start e t) k \<Longrightarrow> timeline_runs final later (entry_start e t + int k * te_Duration e) ts \<Longrightarrow>
    timeline_runs final (e # later) t (run_times (entry_start e t) (te_Duration e) k @ ts)"

text \<open>Manifests whose numbers stay so far from the limits of 64 bits that nothing wraps around.\<close>

definition tame_entry :: "timelineEntryXML \<Rightarrow> bool" where
  "tame_entry e \<longleftrightarrow> te_Duration e \<le> 2 ^ 40 \<and> te_Repeat e \<le> 2 ^ 60 \<and> (\<forall>t. te_Time e = Some t \<longrightarrow> 0 \<le> t \<and> t \<le> 2 ^ 61)"

definition presentation_end :: "'u dash_lib \<Rightarrow> i64 \<Rightarrow> i64 \<Rightarrow> int option" where
  "presentation_end lib pd timescale = (if pd > 0 then Some (dl_ticks lib pd timescale) else None)"

lemma go_div_run:
  assumes "0 < d" and "0 < (n :: int)"
  shows "0 \<le> go_div (n - 1) d" and "go_div (n - 1) d * d < n" and "n \<le> (go_div (n - 1) d + 1) * d" and "go_div (n - 1) d \<le> n - 1"
proof -
  have q: "go_div (n - 1) d = (n - 1) div d" using assms by (simp add: go_div_pos)
  show nonneg: "0 \<le> go_div (n - 1) d" using assms by (simp add: q pos_imp_zdiv_nonneg_iff)
  define m where "m = (n - 1) div d * d"
  have "n - 1 = m + (n - 1) mod d" by (simp add: m_def)
  moreover have "0 \<le> (n - 1) mod d" "(n - 1) mod d < d" using assms by simp_all
  ultimately have "m < n" "n \<le> m + d" by linarith+
  then show less: "go_div (n - 1) d * d < n" and "n \<le> (go_div (n - 1) d + 1) * d"
    unfolding q m_def by (simp_all add: algebra_simps)
  have "go_div (n - 1) d * 1 \<le> go_div (n - 1) d * d" by (rule mult_left_mono) (use assms nonneg in auto)
  with less show "go_div (n - 1) d \<le> n - 1" by simp
qed

lemma repeat_count_run_length:
  assumes "repeat_count lib timescale pd s e later = Some n"
    and "0 < te_Duration e" "-1 \<le> te_Repeat e" "tame_entry e" "0 \<le> s"
    and "\<forall>b. boundary (presentation_end lib pd timescale) later = Some b \<longrightarrow> b \<le> 2 ^ 61"
  shows "0 \<le> n \<and> n \<le> 2 ^ 61 \<and> run_length (presentation_end lib pd timescale) e later s (nat (n + 1))"
proof (cases "te_Repeat e = -1")
  case True
  with assms(1) obtain b where b: "boundary (presentation_end lib pd timescale) later = Some b" "s < b"
    and n: "n = go_div (wrap64 (wrap64 (b - s) - 1)) (te_Duration e)"
    by (auto simp: repeat_count_def boundary_def presentation_end_def split: option.splits if_splits)
  with assms(5,6) have "wrap64 (b - s) = b - s" "wrap64 (b - s - 1) = b - s - 1"
    by (auto intro!: in_i64_nonneg simp: limits)
  with n have n: "n = go_div (b - s - 1) (te_Duration e)" by simp
  note run = go_div_run [of "te_Duration e" "b - s", OF assms(2)]
  from b assms(5,6) run(4) have "n \<le> 2 ^ 61" by (auto simp: n)
  with b True run show ?thesis by (auto simp: n run_length_def algebra_simps)
next
  case False
  with assms(1,3,4) show ?thesis by (auto simp: repeat_count_def run_length_def tame_entry_def)
qed

lemma emit_bounded:
  assumes "emit address d k number t result = Inr (result', number', t')"
    and "length result + k \<le> maxSegmentsPerRepresentation" and "0 \<le> d" "d \<le> 2 ^ 40"
    and "0 \<le> t" "t \<le> 2 ^ 61 + int (length result) * 2 ^ 40" "0 \<le> number" "number \<le> 2 ^ 61 + int (length result)"
  shows "\<exists>media. result' = result @ media \<and> map sg_Sequence media = from_number number k \<and> length media = k \<and>
      map sg_Timeline media = run_times t d k \<and> list_all (addressed address) media"
    and "number' = number + int k" "t' = t + int k * d" "0 \<le> t'" "t' \<le> 2 ^ 61 + int (length result') * 2 ^ 40"
    and "number' \<le> 2 ^ 61 + int (length result')" "length result' \<le> maxSegmentsPerRepresentation"
proof -
  have kd: "0 \<le> int k * d" "int k * d \<le> int k * 2 ^ 40" using assms(3,4) by (auto intro: mult_left_mono)
  have "int k * 2 ^ 40 \<le> 100000 * 2 ^ 40" "int (length result) * 2 ^ 40 \<le> 100000 * 2 ^ 40"
    using assms(2) by (auto simp: maxSegmentsPerRepresentation_def)
  then have "t + int k * d \<le> MaxInt64" "number + int k \<le> MaxInt64"
    using kd assms(2,6,8) by (auto simp: limits maxSegmentsPerRepresentation_def)
  from emit_run [OF assms(1,7) this(2) assms(5,3) this(1)]
  show run: "\<exists>media. result' = result @ media \<and> map sg_Sequence media = from_number number k \<and> length media = k \<and>
      map sg_Timeline media = run_times t d k \<and> list_all (addressed address) media"
    and n: "number' = number + int k" and t: "t' = t + int k * d" by auto
  from run have len: "length result' = length result + k" by auto
  show "0 \<le> t'" "t' \<le> 2 ^ 61 + int (length result') * 2 ^ 40"
    using kd assms(5,6) by (auto simp: t len algebra_simps)
  show "number' \<le> 2 ^ 61 + int (length result')" "length result' \<le> maxSegmentsPerRepresentation"
    using assms(2,8) by (auto simp: n len)
qed

text \<open>The segments that a timeline adds to those in front of it.\<close>

definition expansion ::
    "(i64 \<Rightarrow> i64 \<Rightarrow> segment_error + string) \<Rightarrow> int option \<Rightarrow> timelineEntryXML list \<Rightarrow> int \<Rightarrow> int \<Rightarrow> Segment list \<Rightarrow> Segment list \<Rightarrow> bool" where
  "expansion address final entries number t result segments \<longleftrightarrow>
     (\<exists>media. segments = result @ media \<and> length segments \<le> maxSegmentsPerRepresentation \<and>
        map sg_Sequence media = from_number number (length media) \<and> list_all (addressed address) media \<and>
        timeline_runs final entries t (map sg_Timeline media))"

lemma expansion_entry:
  assumes "expansion address final later (number + int k) (entry_start e t + int k * te_Duration e) (result @ media) segments"
    and "run_length final e later (entry_start e t) k" "length media = k" "map sg_Sequence media = from_number number k"
    and "map sg_Timeline media = run_times (entry_start e t) (te_Duration e) k" "list_all (addressed address) media"
  shows "expansion address final (e # later) number t result segments"
proof -
  from assms(1) obtain rest where rest: "segments = (result @ media) @ rest" "length segments \<le> maxSegmentsPerRepresentation"
    "map sg_Sequence rest = from_number (number + int k) (length rest)" "list_all (addressed address) rest"
    "timeline_runs final later (entry_start e t + int k * te_Duration e) (map sg_Timeline rest)"
    by (auto simp: expansion_def)
  have "timeline_runs final (e # later) t (map sg_Timeline (media @ rest))"
    using entry [OF assms(2) rest(5)] assms(5) by simp
  then show ?thesis
    unfolding expansion_def using rest assms(3,4,6)
    by (intro exI [of _ "media @ rest"]) (simp add: from_number_append)
qed

text \<open>While nothing wraps around, the state in front of an entry stays within these bounds.\<close>

definition in_bounds :: "int \<Rightarrow> int \<Rightarrow> Segment list \<Rightarrow> bool" where
  "in_bounds number t result \<longleftrightarrow>
     0 \<le> t \<and> t \<le> 2 ^ 61 + int (length result) * 2 ^ 40 \<and> 0 \<le> number \<and> number \<le> 2 ^ 61 + int (length result) \<and>
     length result \<le> maxSegmentsPerRepresentation"

lemma timeline_entry:
  assumes "list_all tame_entry (e # later)" and "\<forall>b. presentation_end lib pd timescale = Some b \<longrightarrow> b \<le> 2 ^ 61"
    and "in_bounds number t result"
  shows "(\<exists>err. timeline_loop lib timescale pd address (e # later) number t result = Some (Inl err)) \<or>
    (\<exists>number' t' result'. timeline_loop lib timescale pd address (e # later) number t result =
        timeline_loop lib timescale pd address later number' t' result' \<and> in_bounds number' t' result' \<and>
      (\<forall>segments. expansion address (presentation_end lib pd timescale) later number' t' result' segments \<longrightarrow>
        expansion address (presentation_end lib pd timescale) (e # later) number t result segments))"
proof (cases "te_Duration e \<le> 0 \<or> te_Repeat e < -1 \<or> repeat_count lib timescale pd (entry_start e t) e later = None")
  case True
  then show ?thesis by (auto simp: entry_start_def)
next
  case False
  let ?s = "entry_start e t" and ?final = "presentation_end lib pd timescale" and ?d = "te_Duration e"
  from False obtain n where n: "repeat_count lib timescale pd ?s e later = Some n" by auto
  have bounded: "\<forall>b. boundary ?final later = Some b \<longrightarrow> b \<le> 2 ^ 61"
    using assms(1,2) by (cases later) (auto simp: boundary_def tame_entry_def)
  have s: "0 \<le> ?s" "?s \<le> 2 ^ 61 + int (length result) * 2 ^ 40" and d: "0 < ?d" "?d \<le> 2 ^ 40"
    using assms(1,3) False by (auto simp: entry_start_def tame_entry_def in_bounds_def split: option.splits)
  from repeat_count_run_length [OF n d(1) _ _ s(1) bounded] False assms(1)
  have n0: "0 \<le> n" "n \<le> 2 ^ 61" and run: "run_length ?final e later ?s (nat (n + 1))" by auto
  have wrap: "wrap64 (int (length result) + n + 1) = int (length result) + n + 1"
    using n0 assms(3) by (intro in_i64_nonneg) (auto simp: in_bounds_def maxSegmentsPerRepresentation_def limits)
  have loop: "repeat_loop address ?d n 0 number ?s result = Some (emit address ?d (nat (n + 1)) number ?s result)"
    using repeat_loop_emit [of 0 n address ?d number ?s result] n0 by (simp add: limits)
  have step: "timeline_loop lib timescale pd address (e # later) number t result =
      (if int (length result) + n + 1 > int maxSegmentsPerRepresentation then Some (Inl UnsupportedTimeline)
       else (case emit address ?d (nat (n + 1)) number ?s result of
               Inl err \<Rightarrow> Some (Inl err)
             | Inr (result', number', t') \<Rightarrow> timeline_loop lib timescale pd address later number' t' result'))"
    using False n wrap loop by (auto simp: entry_start_def split: sum.splits)
  show ?thesis
  proof (cases "int (length result) + n + 1 > int maxSegmentsPerRepresentation \<or> isl (emit address ?d (nat (n + 1)) number ?s result)")
    case True
    with step show ?thesis by (auto simp: isl_def)
  next
    case small: False
    then obtain result' number' t' where emit: "emit address ?d (nat (n + 1)) number ?s result = Inr (result', number', t')"
      by (cases "emit address ?d (nat (n + 1)) number ?s result") auto
    have "length result + nat (n + 1) \<le> maxSegmentsPerRepresentation" using small n0 by linarith
    note e = emit_bounded [OF emit this less_imp_le [OF d(1)] d(2) s]
    from step small emit have "timeline_loop lib timescale pd address (e # later) number t result =
        timeline_loop lib timescale pd address later number' t' result'" by simp
    moreover have "in_bounds number' t' result'" using assms(3) e by (simp add: in_bounds_def)
    moreover have "expansion address ?final (e # later) number t result segments"
      if "expansion address ?final later number' t' result' segments" for segments
      using that e(1-3) assms(3) expansion_entry [OF _ run] by (auto simp: in_bounds_def)
    ultimately show ?thesis by blast
  qed
qed

lemma timeline_loop_expands:
  assumes "list_all tame_entry entries" and "\<forall>b. presentation_end lib pd timescale = Some b \<longrightarrow> b \<le> 2 ^ 61"
    and "in_bounds number t result"
  shows "\<exists>r. timeline_loop lib timescale pd address entries number t result = Some r \<and>
    (\<forall>segments. r = Inr segments \<longrightarrow> expansion address (presentation_end lib pd timescale) entries number t result segments)"
  using assms
proof (induction entries arbitrary: t number result)
  case Nil
  then show ?case by (auto simp: expansion_def from_number_def in_bounds_def intro: no_entries)
next
  case (Cons e later)
  have later: "list_all tame_entry later" using Cons.prems(1) by simp
  from timeline_entry [OF Cons.prems, of address] show ?case
  proof (elim disjE exE conjE)
    fix number' t' result'
    assume eq: "timeline_loop lib timescale pd address (e # later) number t result = timeline_loop lib timescale pd address later number' t' result'"
      and bounds: "in_bounds number' t' result'"
      and extend: "\<forall>segments. expansion address (presentation_end lib pd timescale) later number' t' result' segments \<longrightarrow>
        expansion address (presentation_end lib pd timescale) (e # later) number t result segments"
    from Cons.IH [OF later Cons.prems(2) bounds] extend show ?case unfolding eq by blast
  qed simp
qed

section \<open>Properties\<close>

lemma template_initialization_length: "template_initialization lib base r template = Inr result \<Longrightarrow> length result \<le> 1"
  by (auto simp: template_initialization_def initializing_def split: if_splits option.splits sum.splits)

text \<open>
  C34. The segments of a template with a timeline. While the numbers of the manifest stay away from the limits of 64 bits, the
  expansion ends; when it succeeds there are at most 100000 segments: the initialization, then media segments with
  consecutive numbers from the start number on, whose times are exactly those of the timeline (\<open>timeline_runs\<close>: no gap and no overlap
  within an entry, the announced number of repetitions, open entries that reach the next boundary with their last segment), each
  with the URL of the template for its own number and time.
\<close>

theorem timeline_is_expanded:
  assumes "template_initialization lib base r template = Inr initialization" and "st_Timeline template \<noteq> []"
    and "list_all tame_entry (st_Timeline template)" and "st_StartNumber template \<le> 2 ^ 61"
    and "\<forall>b. presentation_end lib pd (positive_or_one (st_Timescale template)) = Some b \<longrightarrow> b \<le> 2 ^ 61"
  shows "\<exists>result. templateSegments lib base r template pd = Some result \<and>
    (\<forall>segments. result = Inr segments \<longrightarrow>
      expansion (templateURL lib base (st_Media template) r) (presentation_end lib pd (positive_or_one (st_Timescale template)))
        (st_Timeline template) (positive_or_one (st_StartNumber template)) 0 initialization segments)"
proof -
  have "in_bounds (positive_or_one (st_StartNumber template)) 0 initialization"
    using template_initialization_length [OF assms(1)] assms(4)
    by (auto simp: in_bounds_def positive_or_one_def maxSegmentsPerRepresentation_def)
  from timeline_loop_expands [OF assms(3,5) this, of "templateURL lib base (st_Media template) r"] assms(1,2) show ?thesis
    by (auto simp: templateSegments_def Let_def)
qed

definition sample_template :: segmentTemplateXML where
  "sample_template = empty_template\<lparr>st_Media := ''$Number%03d$'', st_Timescale := 10,
     st_Timeline := [\<lparr>te_Time = Some 0, te_Duration = 4, te_Repeat = -1\<rparr>, \<lparr>te_Time = Some 10, te_Duration = 5, te_Repeat = 1\<rparr>]\<rparr>"

lemma sample_urls:
  "templateURL plain_lib ''h/'' (st_Media sample_template) video_representation 1 0 = Inr ''h/001''"
  "templateURL plain_lib ''h/'' (st_Media sample_template) video_representation 2 4 = Inr ''h/002''"
  "templateURL plain_lib ''h/'' (st_Media sample_template) video_representation 3 8 = Inr ''h/003''"
  "templateURL plain_lib ''h/'' (st_Media sample_template) video_representation 4 10 = Inr ''h/004''"
  "templateURL plain_lib ''h/'' (st_Media sample_template) video_representation 5 15 = Inr ''h/005''"
  by code_simp+

lemma sample_expanded:
  "templateSegments plain_lib ''h/'' video_representation sample_template 0 =
     Some (Inr [media_segment ''h/001'' 1 0, media_segment ''h/002'' 2 4, media_segment ''h/003'' 3 8, media_segment ''h/004'' 4 10,
       media_segment ''h/005'' 5 15])"
proof -
  have "template_initialization plain_lib ''h/'' video_representation sample_template = Inr []" by code_simp
  then show ?thesis using sample_urls
    by (simp add: templateSegments_def sample_template_def empty_template_def positive_or_one_def repeat_count_def go_div_def
        in_i64_def limits repeat_loop_emit numeral_3_eq_3 numeral_2_eq_2 maxSegmentsPerRepresentation_def)
qed

text \<open>The open entry of the sample gives the times 0, 4 and 8, the second entry 10 and 15.\<close>

theorem timeline_is_expanded_witness:
  "\<exists>segments. templateSegments plain_lib ''h/'' video_representation sample_template 0 = Some (Inr segments) \<and>
     map sg_Timeline segments = [0, 4, 8, 10, 15] \<and> map sg_URL segments = [''h/001'', ''h/002'', ''h/003'', ''h/004'', ''h/005''] \<and>
     expansion (templateURL plain_lib ''h/'' (st_Media sample_template) video_representation) None (st_Timeline sample_template) 1 0 [] segments"
proof -
  have "template_initialization plain_lib ''h/'' video_representation sample_template = Inr []" by code_simp
  moreover have "presentation_end plain_lib 0 n = None" for n by (simp add: presentation_end_def)
  ultimately have "\<exists>result. templateSegments plain_lib ''h/'' video_representation sample_template 0 = Some result \<and>
      (\<forall>segments. result = Inr segments \<longrightarrow>
        expansion (templateURL plain_lib ''h/'' (st_Media sample_template) video_representation) None (st_Timeline sample_template) 1 0 [] segments)"
    using timeline_is_expanded [of plain_lib "''h/''" video_representation sample_template "[]" 0]
    by (auto simp: sample_template_def empty_template_def tame_entry_def positive_or_one_def)
  then show ?thesis by (auto simp: sample_expanded)
qed

text \<open>A counter that is compared with the largest 64-bit integer never exceeds it.\<close>

definition endless :: "(i64 \<Rightarrow> i64 \<Rightarrow> segment_error + string) \<Rightarrow> i64 \<Rightarrow> i64 \<Rightarrow> bool" where
  "endless address c i \<longleftrightarrow> c = MaxInt64 \<and> i \<le> MaxInt64 \<and> (\<forall>n t. \<exists>u. address n t = Inr u)"

lemma repeat_loop_endless:
  assumes "repeat_loop address d c i number t result = Some y"
  shows "\<not> endless address c i"
proof (rule repeat_loop.raw_induct [where P = "\<lambda>address d c i number t result y. \<not> endless address c i", OF _ assms])
  fix loop address d c i number t result y
  assume IH: "\<And>address d c i number t result y. loop address d c i number t result = Some y \<Longrightarrow> \<not> endless address c i"
    and eq: "(if c < i then Some (Inr (result, number, t))
      else (case address number t of
              Inl e \<Rightarrow> Some (Inl e)
            | Inr resolved \<Rightarrow>
                loop address d c (wrap64 (i + 1)) (wrap64 (number + 1)) (wrap64 (t + d)) (result @ [media_segment resolved number t]))) = Some y"
  show "\<not> endless address c i"
  proof
    assume e: "endless address c i"
    then obtain u where "address number t = Inr u" by (auto simp: endless_def)
    with eq e have "loop address d c (wrap64 (i + 1)) (wrap64 (number + 1)) (wrap64 (t + d)) (result @ [media_segment u number t]) = Some y"
      by (simp add: endless_def)
    from IH [OF this] e show False using wrap64_range [of "i + 1"] unfolding endless_def in_i64_def by blast
  qed
qed

text \<open>
  C35. The limit on the number of segments can be bypassed. When the first entry of a timeline announces the largest 64-bit
  number of repetitions, the sum that is compared with the limit wraps around, and the expansion never ends while
  the template can be resolved.
\<close>

theorem repeat_limit_is_bypassed:
  assumes "template_initialization lib base r template = Inr []"
    and "st_Timeline template = e # later" "te_Repeat e = MaxInt64" "0 < te_Duration e"
    and "\<forall>number t. \<exists>url. templateURL lib base (st_Media template) r number t = Inr url"
  shows "templateSegments lib base r template pd = None"
proof -
  have "wrap64 (MaxInt64 + 1) = MinInt64" by (simp add: wrap64_def limits)
  moreover have "repeat_loop (templateURL lib base (st_Media template) r) (te_Duration e) MaxInt64 0 number t [] = None" for number t
    using repeat_loop_endless [of "templateURL lib base (st_Media template) r" "te_Duration e" MaxInt64 0 number t "[]"] assms(5)
    by (cases "repeat_loop (templateURL lib base (st_Media template) r) (te_Duration e) MaxInt64 0 number t []") (auto simp: endless_def limits)
  ultimately show ?thesis using assms by (simp add: templateSegments_def Let_def repeat_count_def limits)
qed

definition runaway_template :: segmentTemplateXML where
  "runaway_template = empty_template\<lparr>st_Media := ''a'', st_Timeline := [\<lparr>te_Time = None, te_Duration = 1, te_Repeat = MaxInt64\<rparr>]\<rparr>"

lemma runaway_url: "templateURL plain_lib ''h/'' ''a'' video_representation number t = Inr ''h/a''"
  by (simp add: templateURL_def template_text_def match_token_def restore_dollars_def Contains_def HasPrefix_def resolveBase_def plain_lib_def)

theorem repeat_limit_is_bypassed_witness:
  "templateSegments plain_lib ''h/'' video_representation runaway_template 0 = None"
  by (rule repeat_limit_is_bypassed)
    (auto simp: runaway_template_def empty_template_def template_initialization_def runaway_url)
end
