(* ===== verification/DashPolling.thy ===== *)
theory DashPolling
  imports DashSelect
begin

text \<open>
  Polling a dynamic presentation whose representations use a segment index (\<open>pollDynamicSIDX\<close> of
  \<open>internal/protocol/dash/dynamic_sidx.go\<close> with its checks): every snapshot of the manifest must describe the representations that
  were selected first; their indexes are expanded and merged into one accumulator per representation, whose plan becomes the
  segments to download. Loading a manifest is a step of the environment that may return anything, and so is the order in which
  Go visits the profiles, given by ranks.
\<close>

section \<open>Checks\<close>

definition segmentHasSIDXMarker :: "Segment list \<Rightarrow> bool" where
  "segmentHasSIDXMarker segments = list_ex (\<lambda>s. sg_IndexRange s \<noteq> []) segments"

definition representation_has_sidx :: "Representation \<Rightarrow> bool" where
  "representation_has_sidx r \<longleftrightarrow> segmentHasSIDXMarker (rp_Segments r) \<or> list_ex segmentHasSIDXMarker (rp_PeriodSegments r)"

definition hasSIDXMarkers :: "Representation list \<Rightarrow> bool" where
  "hasSIDXMarkers representations = list_ex representation_has_sidx representations"

definition hasNonSIDXMediaSegments :: "Segment list \<Rightarrow> bool" where
  "hasNonSIDXMediaSegments segments = list_ex (\<lambda>s. \<not> (sg_IndexRange s \<noteq> [] \<or> sg_Initialize s)) segments"

text \<open>Every failure has the same sentinel, so that the order of the checks does not show.\<close>

definition validateHomogeneousDynamicSIDXSelection :: "Representation list \<Rightarrow> dash_error option" where
  "validateHomogeneousDynamicSIDXSelection representations =
     (if representations = [] then None
      else if list_ex (\<lambda>r. hasNonSIDXMediaSegments (rp_Segments r) \<or> list_ex hasNonSIDXMediaSegments (rp_PeriodSegments r)) representations
        then Some ErrUnsupportedAddressing
      else let sidxCount = length (filter representation_has_sidx representations)
      in if sidxCount = 0 then Some ErrUnsupportedAddressing
         else if sidxCount \<noteq> length representations then Some ErrUnsupportedAddressing
         else None)"

fun marker_loop :: "string \<Rightarrow> nat \<Rightarrow> Segment list \<Rightarrow> nat option" where
  "marker_loop markerURL markerCount [] = Some markerCount"
| "marker_loop markerURL markerCount (s # rest) =
     (if sg_IndexRange s = [] then marker_loop markerURL markerCount rest
      else if markerURL = [] then marker_loop (sg_URL s) (markerCount + 1) rest
      else if sg_URL s \<noteq> markerURL then None
      else marker_loop markerURL (markerCount + 1) rest)"

definition validateRepresentationMarkers :: "Segment list \<Rightarrow> dash_error option" where
  "validateRepresentationMarkers segments =
     (case marker_loop [] 0 segments of
        None \<Rightarrow> Some ErrUnsupportedAddressing
      | Some n \<Rightarrow>
          if n \<noteq> 1 then Some ErrUnsupportedAddressing
          else if list_ex (\<lambda>s. sg_Initialize s \<and> sg_IndexRange s \<noteq> []) segments then Some ErrUnsupportedAddressing
          else None)"

definition mediaURLFromMarkers :: "Segment list \<Rightarrow> dash_error + string" where
  "mediaURLFromMarkers segments =
     (case validateRepresentationMarkers segments of
        Some e \<Rightarrow> Inl e
      | None \<Rightarrow>
          (case filter (\<lambda>s. sg_IndexRange s \<noteq> []) segments of
             [] \<Rightarrow> Inl ErrUnsupportedAddressing
           | s # _ \<Rightarrow> Inr (sg_URL s)))"

record representationProfile =
  pf_key :: string
  pf_id :: string
  pf_signature :: representationSignature
  pf_mediaURL :: string
  pf_addressing :: string

definition profileForRepresentation :: "Representation \<Rightarrow> dash_error + representationProfile" where
  "profileForRepresentation r =
     (case validateRepresentationMarkers (rp_Segments r) of
        Some e \<Rightarrow> Inl e
      | None \<Rightarrow>
          (case mediaURLFromMarkers (rp_Segments r) of
             Inl e \<Rightarrow> Inl e
           | Inr mediaURL \<Rightarrow>
               Inr \<lparr>pf_key = representationKey r, pf_id = rp_ID r, pf_signature = signatureFor r, pf_mediaURL = mediaURL,
                    pf_addressing = rp_Addressing r\<rparr>))"

definition validateRepresentationStable :: "representationProfile \<Rightarrow> Representation \<Rightarrow> dash_error option" where
  "validateRepresentationStable profile refreshed =
     (if rp_ID refreshed \<noteq> pf_id profile then Some ErrUnsupportedAddressing
      else if signatureFor refreshed \<noteq> pf_signature profile then Some ErrUnsupportedAddressing
      else if rp_Addressing refreshed \<noteq> pf_addressing profile then Some ErrUnsupportedAddressing
      else (case validateRepresentationMarkers (rp_Segments refreshed) of
              Some e \<Rightarrow> Some e
            | None \<Rightarrow>
                (case mediaURLFromMarkers (rp_Segments refreshed) of
                   Inl e \<Rightarrow> Some e
                 | Inr mediaURL \<Rightarrow> if mediaURL \<noteq> pf_mediaURL profile then Some ErrUnsupportedAddressing else None)))"

definition matchRepresentation :: "Representation list \<Rightarrow> representationProfile \<Rightarrow> dash_error + Representation" where
  "matchRepresentation representations profile =
     (case filter (\<lambda>r. representationKey r = pf_key profile) representations of
        [r] \<Rightarrow> Inr r
      | _ \<Rightarrow> Inl ErrUnsupportedAddressing)"

definition dynamicPollInterval :: "i64 \<Rightarrow> i64 \<Rightarrow> dash_error + i64" where
  "dynamicPollInterval configured manifest =
     (let interval = configured;
          interval = (if interval \<le> 0 then manifest else interval);
          interval = (if interval \<le> 0 then 10 ^ 9 else interval)
      in if interval > maxDASHPollInterval then Inl ErrUnsupportedAddressing else Inr interval)"

section \<open>Polling\<close>

text \<open>The entries of the three maps \<open>profiles\<close>, \<open>accumulators\<close> and \<open>sessions\<close>, which have the same keys.\<close>

record poll_entry =
  en_profile :: representationProfile
  en_accumulator :: segmentAccumulator
  en_session :: sidxSessionState

record 'w poll_env =
  pl_index :: "'w index_env"
  pl_load :: "'w \<Rightarrow> string \<Rightarrow> 'w \<times> (dash_error + MPD)"
  pl_ranks :: "'w \<Rightarrow> 'w \<times> (string \<Rightarrow> nat)"

fun poll_entries :: "DashConfig \<Rightarrow> string set \<Rightarrow> Representation list \<Rightarrow> dash_error + poll_entry list" where
  "poll_entries c present [] = Inr []"
| "poll_entries c present (r # rest) =
     (case profileForRepresentation r of
        Inl e \<Rightarrow> Inl e
      | Inr profile \<Rightarrow>
          if pf_key profile \<in> present then Inl ErrUnsupportedAddressing
          else (case effectiveDynamicSIDXMediaLeafLimit (dc_MaxSegments c) (initSegmentCountFromMarkers (rp_Segments r)) of
                  Inl e \<Rightarrow> Inl e
                | Inr leafLimit \<Rightarrow>
                    (case poll_entries c (insert (pf_key profile) present) rest of
                       Inl e \<Rightarrow> Inl e
                     | Inr entries \<Rightarrow>
                         Inr (\<lparr>en_profile = profile, en_accumulator = newSegmentAccumulator leafLimit,
                               en_session = \<lparr>ss_indexBytes = 0, ss_boxesParsed = 0, ss_leafCount = 0\<rparr>\<rparr> # entries))))"

fun process_entries ::
    "'w poll_env \<Rightarrow> DashConfig \<Rightarrow> 'w \<Rightarrow> Representation list \<Rightarrow> poll_entry list \<Rightarrow> 'w \<times> (dash_error + poll_entry list)" where
  "process_entries env c w representations [] = (w, Inr [])"
| "process_entries env c w representations (entry # rest) =
     (case matchRepresentation representations (en_profile entry) of
        Inl e \<Rightarrow> (w, Inl e)
      | Inr representation \<Rightarrow>
          (case validateRepresentationStable (en_profile entry) representation of
             Some e \<Rightarrow> (w, Inl e)
           | None \<Rightarrow>
               (case expandSIDXSegmentsWithSession (pl_index env) c w (rp_Segments representation) (Some (en_session entry)) of
                  (w, session, Inl e) \<Rightarrow> (w, Inl e)
                | (w, session, Inr expanded) \<Rightarrow>
                    (case merge (en_accumulator entry) expanded of
                       (a, Some e) \<Rightarrow> (w, Inl e)
                     | (a, None) \<Rightarrow>
                         (case process_entries env c w representations rest of
                            (w, Inl e) \<Rightarrow> (w, Inl e)
                          | (w, Inr entries) \<Rightarrow>
                              (w, Inr (entry\<lparr>en_accumulator := a, en_session := the session\<rparr> # entries)))))))"

definition processSnapshot ::
    "'w poll_env \<Rightarrow> DashConfig \<Rightarrow> 'w \<Rightarrow> Representation list \<Rightarrow> poll_entry list \<Rightarrow> 'w \<times> (dash_error + poll_entry list)" where
  "processSnapshot env c w representations entries =
     (case pl_ranks env w of
        (w, rank) \<Rightarrow> process_entries env c w representations (sort_key (\<lambda>e. rank (pf_key (en_profile e))) entries))"

text \<open>The loop with \<open>n\<close> snapshots still allowed.\<close>

fun poll_loop ::
    "'w poll_env \<Rightarrow> DashConfig \<Rightarrow> string \<Rightarrow> nat \<Rightarrow> bool \<Rightarrow> i64 \<Rightarrow> 'w \<Rightarrow> poll_entry list \<Rightarrow> 'w \<times> (dash_error + poll_entry list)" where
  "poll_loop env c manifestURL 0 live interval w entries = (w, Inr entries)"
| "poll_loop env c manifestURL (Suc n) live interval w entries =
     (if \<not> live then (w, Inr entries)
      else (case ie_wait (pl_index env) w interval of
              (w, Some e) \<Rightarrow> (w, Inl (DashContext e))
            | (w, None) \<Rightarrow>
                (case pl_load env w manifestURL of
                   (w, Inl e) \<Rightarrow> (w, Inl e)
                 | (w, Inr updated) \<Rightarrow>
                     if mpd_PeriodCount updated > 1 then (w, Inl ErrUnsupportedAddressing)
                     else (case processSnapshot env c w (mpd_Representations updated) entries of
                             (w, Inl e) \<Rightarrow> (w, Inl e)
                           | (w, Inr entries) \<Rightarrow>
                               (case (if dc_PollInterval c \<le> 0 then dynamicPollInterval 0 (mpd_MinimumUpdatePeriod updated)
                                      else Inr interval) of
                                  Inl e \<Rightarrow> (w, Inl e)
                                | Inr interval \<Rightarrow>
                                    poll_loop env c manifestURL n (mpd_Dynamic updated) interval w entries)))))"

definition planned :: "DashConfig \<Rightarrow> poll_entry list \<Rightarrow> Representation \<Rightarrow> dash_error + Representation" where
  "planned c entries r =
     (case find (\<lambda>e. pf_key (en_profile e) = representationKey r) entries of
        None \<Rightarrow> Inl DashPanic
      | Some e \<Rightarrow>
          let segments = sa_segments (en_accumulator e)
          in (case validateDynamicSIDXOutputBudget segments (dc_MaxSegments c) of
                Some err \<Rightarrow> Inl err
              | None \<Rightarrow> Inr (r\<lparr>rp_Segments := segments\<rparr>)))"

definition pollDynamicSIDX ::
    "'w poll_env \<Rightarrow> DashConfig \<Rightarrow> 'w \<Rightarrow> string \<Rightarrow> MPD \<Rightarrow> Representation list \<Rightarrow> 'w \<times> (dash_error + Representation list)" where
  "pollDynamicSIDX env c w manifestURL initialMPD selected =
     (case validateHomogeneousDynamicSIDXSelection selected of
        Some e \<Rightarrow> (w, Inl e)
      | None \<Rightarrow>
          (case validateDynamicSIDXMaxSegmentsConfigured (dc_MaxSegments c) of
             Some e \<Rightarrow> (w, Inl e)
           | None \<Rightarrow>
               (case poll_entries c {} selected of
                  Inl e \<Rightarrow> (w, Inl e)
                | Inr entries \<Rightarrow>
                    (case processSnapshot env c w selected entries of
                       (w, Inl e) \<Rightarrow> (w, Inl e)
                     | (w, Inr entries) \<Rightarrow>
                         (case dynamicPollInterval (dc_PollInterval c) (mpd_MinimumUpdatePeriod initialMPD) of
                            Inl e \<Rightarrow> (w, Inl e)
                          | Inr interval \<Rightarrow>
                              (case poll_loop env c manifestURL (nat (dc_DynamicPolls c - 1)) (mpd_Dynamic initialMPD) interval w
                                      entries of
                                 (w, Inl e) \<Rightarrow> (w, Inl e)
                               | (w, Inr entries) \<Rightarrow> (w, all_results (map (planned c entries) selected))))))))"

section \<open>The plan of a session\<close>

definition poll_entry_ok :: "poll_entry \<Rightarrow> bool" where
  "poll_entry_ok e \<longleftrightarrow> plan_ok (en_accumulator e) \<and> window_ok (en_accumulator e) \<and> 0 \<le> sa_maxLeafCount (en_accumulator e)"

lemma leaf_limit_nonneg: "effectiveDynamicSIDXMediaLeafLimit m n = Inr limit \<Longrightarrow> 0 \<le> limit"
  by (auto simp: effectiveDynamicSIDXMediaLeafLimit_def Let_def split: if_splits)

lemma new_entry_ok: "0 \<le> limit \<Longrightarrow> poll_entry_ok \<lparr>en_profile = p, en_accumulator = newSegmentAccumulator limit, en_session = s\<rparr>"
  by (simp add: poll_entry_ok_def newSegmentAccumulator_def plan_ok_def window_ok_def keys_def)

lemma poll_entries_ok: "poll_entries c present rs = Inr entries \<Longrightarrow> list_all poll_entry_ok entries"
proof (induction rs arbitrary: present entries)
  case (Cons r rs)
  then show ?case
    by (auto split: sum.splits if_splits intro!: new_entry_ok dest!: leaf_limit_nonneg)
qed simp

lemma process_entries_ok:
  "process_entries env c w rs entries = (w', Inr entries') \<Longrightarrow> list_all poll_entry_ok entries \<Longrightarrow> list_all poll_entry_ok entries'"
proof (induction entries arbitrary: w w' entries')
  case (Cons e entries)
  from Cons.prems(1) obtain w1 session expanded a more where
    step: "merge (en_accumulator e) expanded = (a, None)" "process_entries env c w1 rs entries = (w', Inr more)"
      "entries' = e\<lparr>en_accumulator := a, en_session := the session\<rparr> # more"
    by (auto split: sum.splits option.splits prod.splits)
  have "poll_entry_ok e" using Cons.prems(2) by simp
  with merge_ok [OF step(1)] have "poll_entry_ok (e\<lparr>en_accumulator := a, en_session := the session\<rparr>)"
    unfolding poll_entry_ok_def by simp
  with Cons.IH [OF step(2)] Cons.prems(2) step(3) show ?case by simp
qed simp

lemma processSnapshot_ok:
  "processSnapshot env c w rs entries = (w', Inr entries') \<Longrightarrow> list_all poll_entry_ok entries \<Longrightarrow> list_all poll_entry_ok entries'"
  by (auto simp: processSnapshot_def list_all_iff split: prod.splits dest!: process_entries_ok)

lemma poll_loop_ok:
  "poll_loop env c url n live interval w entries = (w', Inr entries') \<Longrightarrow> list_all poll_entry_ok entries \<Longrightarrow> list_all poll_entry_ok entries'"
proof (induction n arbitrary: live interval w entries)
  case (Suc n)
  show ?case
  proof (cases live)
    case True
    with Suc.prems(1) obtain w1 updated w2 more live' interval' where
      step: "processSnapshot env c w1 updated entries = (w2, Inr more)" "poll_loop env c url n live' interval' w2 more = (w', Inr entries')"
      by (auto split: prod.splits option.splits sum.splits if_splits)
    from Suc.IH [OF step(2) processSnapshot_ok [OF step(1) Suc.prems(2)]] show ?thesis .
  qed (use Suc.prems in simp)
qed simp

lemma all_results_Inr: "all_results rs = Inr xs \<Longrightarrow> rs = map Inr xs"
  by (induction rs arbitrary: xs rule: all_results.induct) (auto split: sum.splits)

lemma all_results_map: "all_results (map f xs) = Inr ys \<Longrightarrow> list_all2 (\<lambda>x y. f x = Inr y) xs ys"
  by (drule all_results_Inr) (auto simp: list_all2_conv_all_nth list_eq_iff_nth_eq)

lemma output_budget:
  assumes "validateDynamicSIDXOutputBudget segments m = None" and "int (length segments) - int (mediaSegmentCount segments) \<le> fragmentHardSegmentCap"
  shows "int (mediaSegmentCount segments) \<le> m \<and> int (length segments) \<le> fragmentHardSegmentCap"
  using assms by (auto simp: validateDynamicSIDXOutputBudget_def validateDynamicSIDXMaxSegmentsConfigured_def
      effectiveDynamicSIDXMediaLeafLimit_def Let_def split: if_splits sum.splits)

lemma planned_ok:
  assumes "planned c entries r = Inr r'" and "list_all poll_entry_ok entries"
  shows "\<exists>init leaves. r' = r\<lparr>rp_Segments := init @ leaves\<rparr> \<and> length init \<le> 1 \<and> list_all sg_Initialize init \<and>
    list_all (\<lambda>s. \<not> sg_Initialize s) leaves \<and> sorted_wrt separate leaves \<and> int (length leaves) \<le> dc_MaxSegments c \<and>
    int (length (init @ leaves)) \<le> fragmentHardSegmentCap"
proof -
  from assms(1) obtain e where e: "e \<in> set entries" "r' = r\<lparr>rp_Segments := sa_segments (en_accumulator e)\<rparr>"
      "validateDynamicSIDXOutputBudget (sa_segments (en_accumulator e)) (dc_MaxSegments c) = None"
    by (auto simp: planned_def Let_def find_Some_iff split: option.splits intro: nth_mem that)
  let ?a = "en_accumulator e"
  have ok: "plan_ok ?a" using e(1) assms(2) by (auto simp: list_all_iff poll_entry_ok_def)
  then obtain init where init: "length init \<le> 1" "list_all sg_Initialize init" "sa_segments ?a = init @ sa_mediaLeaves ?a"
    by (cases "sa_initKey ?a = []") (auto simp: plan_ok_def intro: that [of "[]"] that [of "[_]"])
  have leaves: "list_all (\<lambda>s. \<not> sg_Initialize s) (sa_mediaLeaves ?a)" "sorted_wrt separate (sa_mediaLeaves ?a)"
    using ok by (auto simp: plan_ok_def)
  have "filter (\<lambda>s. \<not> sg_Initialize s) init = []" "filter (\<lambda>s. \<not> sg_Initialize s) (sa_mediaLeaves ?a) = sa_mediaLeaves ?a"
    using init(2) leaves(1) by (auto simp: list_all_iff filter_empty_conv filter_id_conv)
  then have count: "mediaSegmentCount (sa_segments ?a) = length (sa_mediaLeaves ?a)"
    by (simp add: mediaSegmentCount_def init(3))
  have "int (length (sa_segments ?a)) - int (mediaSegmentCount (sa_segments ?a)) \<le> fragmentHardSegmentCap"
    using count init(1,3) by (simp add: fragmentHardSegmentCap_def)
  from output_budget [OF e(3) this] count init leaves e(2) show ?thesis
    by (intro exI [of _ init] exI [of _ "sa_mediaLeaves ?a"]) auto
qed

lemma pollDynamicSIDX_run:
  assumes "pollDynamicSIDX env c w manifestURL mpd selected = (w', Inr selected')"
  obtains first w1 second n live interval final where "poll_entries c {} selected = Inr first"
    "processSnapshot env c w selected first = (w1, Inr second)" "poll_loop env c manifestURL n live interval w1 second = (w', Inr final)"
    "list_all2 (\<lambda>r r'. planned c final r = Inr r') selected selected'"
  using assms by (auto simp: pollDynamicSIDX_def split: option.splits sum.splits prod.splits dest!: all_results_map)

section \<open>Properties\<close>

text \<open>
  C31. What a dynamic index session downloads. Whatever manifests and index bytes the polls return, when \<open>pollDynamicSIDX\<close> succeeds
  every selected representation has only its segments replaced: by at most one initialisation segment and media
  segments no two of which have the same identity or share a byte of a resource, at most as many as configured, and together
  no more than the fragment engine accepts.
\<close>

theorem polled_plan_is_sound:
  assumes "pollDynamicSIDX env c w manifestURL initialMPD selected = (w', Inr selected')"
  shows "list_all2 (\<lambda>r r'. \<exists>init leaves. r' = r\<lparr>rp_Segments := init @ leaves\<rparr> \<and> length init \<le> 1 \<and> list_all sg_Initialize init \<and>
    list_all (\<lambda>s. \<not> sg_Initialize s) leaves \<and> sorted_wrt separate leaves \<and> int (length leaves) \<le> dc_MaxSegments c \<and>
    int (length (init @ leaves)) \<le> fragmentHardSegmentCap) selected selected'"
proof -
  obtain first w1 second n live interval final where run: "poll_entries c {} selected = Inr first"
      "processSnapshot env c w selected first = (w1, Inr second)" "poll_loop env c manifestURL n live interval w1 second = (w', Inr final)"
      "list_all2 (\<lambda>r r'. planned c final r = Inr r') selected selected'"
    using assms by (rule pollDynamicSIDX_run)
  note ok = poll_loop_ok [OF run(3) processSnapshot_ok [OF run(2) poll_entries_ok [OF run(1)]]]
  from run(4) show ?thesis
    by (rule list_all2_mono) (rule planned_ok [OF _ ok])
qed

text \<open>One poll of the sample resource.\<close>

definition sample_poll_env :: "(unit \<times> http_request list) poll_env" where
  "sample_poll_env = \<lparr>pl_index = logged_index sample_index_env, pl_load = (\<lambda>w u. (w, Inl DashOperationFailed)), pl_ranks = (\<lambda>w. (w, \<lambda>k. 0))\<rparr>"

definition sample_selected :: Representation where
  "sample_selected = (sample_representation ''video'' 1)\<lparr>rp_Segments := [sample_marker]\<rparr>"

lemma sample_plan:
  "snd (merge (newSegmentAccumulator 100) sample_segments) = None \<and>
   sa_segments (fst (merge (newSegmentAccumulator 100) sample_segments)) = sample_segments"
  by code_simp

lemma sample_poll:
  "pollDynamicSIDX sample_poll_env sample_dash_config ((), []) ''http://x'' (sample_mpd\<lparr>mpd_Dynamic := True\<rparr>) [sample_selected] =
     (((), [sample_request]), Inr [sample_selected\<lparr>rp_Segments := sample_segments\<rparr>])"
proof -
  let ?p = "\<lparr>pf_key = representationKey sample_selected, pf_id = ''r'', pf_signature = signatureFor sample_selected,
    pf_mediaURL = ''http://m'', pf_addressing = []\<rparr>"
  let ?e = "\<lparr>en_profile = ?p, en_accumulator = newSegmentAccumulator 100, en_session = sample_session\<rparr>"
  have marker: "rp_Segments sample_selected = [sample_marker]" "rp_ID sample_selected = ''r''" "rp_Addressing sample_selected = []"
      "rp_PeriodSegments sample_selected = []"
      "sg_IndexRange sample_marker = ''0-55''" "sg_InitRange sample_marker = ''56-71''" "sg_URL sample_marker = ''http://m''"
      "sg_Initialize sample_marker = False"
    by (simp_all add: sample_selected_def sample_representation_def sample_marker_def range_segment_def)
  have homogeneous: "validateHomogeneousDynamicSIDXSelection [sample_selected] = None"
    by (simp add: validateHomogeneousDynamicSIDXSelection_def hasNonSIDXMediaSegments_def representation_has_sidx_def
        segmentHasSIDXMarker_def marker)
  have markers: "validateRepresentationMarkers [sample_marker] = None" "mediaURLFromMarkers [sample_marker] = Inr ''http://m''"
    by (simp_all add: validateRepresentationMarkers_def mediaURLFromMarkers_def marker)
  have profile: "profileForRepresentation sample_selected = Inr ?p"
    by (simp add: profileForRepresentation_def marker markers)
  have entries: "poll_entries sample_dash_config {} [sample_selected] = Inr [?e]"
    by (simp add: profile marker initSegmentCountFromMarkers_def effectiveDynamicSIDXMediaLeafLimit_def sample_dash_config_def
        maxSegmentsPerRepresentation_def fragmentHardSegmentCap_def sample_session_def)
  obtain a where merged: "merge (newSegmentAccumulator 100) sample_segments = (a, None)" and a: "sa_segments a = sample_segments"
    using sample_plan by (cases "merge (newSegmentAccumulator 100) sample_segments") auto
  have "processSnapshot sample_poll_env sample_dash_config ((), []) [sample_selected] [?e] =
      (((), [sample_request]), Inr [?e\<lparr>en_accumulator := a, en_session := \<lparr>ss_indexBytes = 56, ss_boxesParsed = 1, ss_leafCount = 2\<rparr>\<rparr>])"
    using sample_expansion merged
    by (simp add: processSnapshot_def sample_poll_env_def matchRepresentation_def validateRepresentationStable_def marker markers)
  with homogeneous entries a show ?thesis
    by (simp add: pollDynamicSIDX_def validateDynamicSIDXMaxSegmentsConfigured_def dynamicPollInterval_def sample_dash_config_def
        sample_mpd_def maxDASHPollInterval_def planned_def validateDynamicSIDXOutputBudget_def mediaSegmentCount_def
        effectiveDynamicSIDXMediaLeafLimit_def maxSegmentsPerRepresentation_def fragmentHardSegmentCap_def)
qed

theorem polled_plan_is_sound_witness:
  "\<exists>r'. snd (pollDynamicSIDX sample_poll_env sample_dash_config ((), []) ''http://x'' (sample_mpd\<lparr>mpd_Dynamic := True\<rparr>)
      [sample_selected]) = Inr [r'] \<and>
    (\<exists>init leaves. r' = sample_selected\<lparr>rp_Segments := init @ leaves\<rparr> \<and> length init \<le> 1 \<and> sorted_wrt separate leaves)"
  using polled_plan_is_sound [OF sample_poll] sample_poll by auto

end
