(* ===== verification/DashManifest.thy ===== *)
theory DashManifest
  imports DashTemplate DashPolling
begin

text \<open>
  The manifest of a DASH presentation (\<open>Parse\<close> and the resume structures of \<open>internal/protocol/dash/mpd.go\<close>), from the decoded XML
  document to the representations and their segments. The decoding of XML is not modelled: a document is a record with the
  elements and attributes that \<open>Parse\<close> reads.
\<close>

section \<open>Canonical grammars\<close>

text \<open>
  What a checkpoint keeps of the addressing of a representation: the tokens of templates and the numbers of timelines,
  without any text of a URL.
\<close>

fun Join :: "string list \<Rightarrow> string \<Rightarrow> string" where
  "Join [] sep = []"
| "Join [s] sep = s"
| "Join (s # t # ss) sep = s @ sep @ Join (t # ss) sep"

definition token_grammar :: "token_name \<times> string \<Rightarrow> string" where
  "token_grammar m = name_text (fst m) @ (if snd m \<noteq> [] then ''-w'' @ snd m else [])"

definition canonicalTemplateGrammar :: "string \<Rightarrow> string" where
  "canonicalTemplateGrammar pattern =
     (if pattern = [] then ''none''
      else if length pattern > 4096 then ''invalid''
      else let replaced = replace_dollars [] pattern; matches = find_tokens replaced; stripped = replace_tokens (\<lambda>n width. []) replaced
      in if Contains stripped ''$'' then ''invalid''
         else if matches = [] then ''literal-free''
         else Join (map token_grammar matches) ''+'')"

definition templateRole :: "string \<Rightarrow> string" where
  "templateRole pattern =
     (let grammar = canonicalTemplateGrammar pattern
      in if grammar = ''invalid'' then []
         else let hasNumber = Contains grammar ''Number''; hasTime = Contains grammar ''Time''
         in if hasNumber \<and> hasTime then ''number-time'' else if hasNumber then ''number'' else if hasTime then ''time'' else ''literal-index'')"

definition entry_grammar :: "timelineEntryXML \<Rightarrow> string" where
  "entry_grammar e =
     ''t'' @ (case te_Time e of None \<Rightarrow> ''implicit'' | Some t \<Rightarrow> Itoa t) @ ''-d'' @ Itoa (te_Duration e) @ ''-r'' @ Itoa (te_Repeat e)"

definition canonicalTimelineGrammar :: "timelineEntryXML list \<Rightarrow> string" where
  "canonicalTimelineGrammar entries =
     (if entries = [] then ''none''
      else if length entries > maxSegmentsPerRepresentation then ''invalid''
      else if list_ex (\<lambda>e. te_Duration e \<le> 0 \<or> te_Repeat e < -1) entries then ''invalid''
      else Join (map entry_grammar entries) '';'')"

definition canonicalRange :: "string \<Rightarrow> (i64 \<times> i64) option" where
  "canonicalRange raw =
     (case parseByteRange raw of
        None \<Rightarrow> None
      | Some (start, final) \<Rightarrow> if final < start then None else Some (start, wrap64 (final - start + 1)))"

definition canonicalInitialization :: "string \<Rightarrow> initializationXML option \<Rightarrow> string \<times> i64 \<times> i64" where
  "canonicalInitialization template element =
     (if template \<noteq> [] then
        let grammar = canonicalTemplateGrammar template
        in if grammar = ''invalid'' then (''invalid'', 0, 0) else (''template:'' @ grammar, 0, 0)
      else (case element of
              None \<Rightarrow> (''none'', 0, 0)
            | Some i \<Rightarrow>
                if in_Range i = [] then (''element'', 0, 0)
                else (case canonicalRange (in_Range i) of
                        None \<Rightarrow> (''invalid'', 0, 0)
                      | Some (start, len) \<Rightarrow> (''element-range'', start, len))))"

section \<open>Resume structures\<close>

definition finishResumeStructure :: "ResumeStructure \<Rightarrow> ResumeStructure" where
  "finishResumeStructure v =
     v\<lparr>rs_Complete :=
        (rs_AddressingMode v \<noteq> [] \<and> rs_NumberTimeRole v \<noteq> [] \<and> rs_TemplateGrammar v \<noteq> [] \<and> rs_AdaptationSetID v \<noteq> [] \<and>
         (rs_PeriodID v \<noteq> [] \<or> rs_PeriodTimingKnown v)) \<and>
        \<not> (rs_TemplateGrammar v = ''invalid'' \<or> rs_TimelineGrammar v = ''invalid'' \<or> rs_InitializationIdentity v = ''invalid'')\<rparr>"

definition set_initialization :: "string \<times> i64 \<times> i64 \<Rightarrow> ResumeStructure \<Rightarrow> ResumeStructure" where
  "set_initialization i v =
     v\<lparr>rs_InitializationIdentity := fst i, rs_InitializationRangeStart := fst (snd i), rs_InitializationRangeLength := snd (snd i)\<rparr>"

definition resumeTemplateStructure :: "ResumeStructure \<Rightarrow> segmentTemplateXML \<Rightarrow> ResumeStructure" where
  "resumeTemplateStructure base template =
     finishResumeStructure (set_initialization (canonicalInitialization (st_Initialization template) (st_InitializationElement template))
       (base\<lparr>rs_AddressingMode := ''template'', rs_Timescale := positive_or_one (st_Timescale template),
             rs_PresentationTimeOffset := st_PresentationTimeOffset template, rs_StartNumber := positive_or_one (st_StartNumber template),
             rs_SegmentDuration := st_Duration template,
             rs_TemplateGrammar := canonicalTemplateGrammar (st_Media template) @ '';init='' @ canonicalTemplateGrammar (st_Initialization template),
             rs_NumberTimeRole := templateRole (st_Media template),
             rs_TimelineGrammar := canonicalTimelineGrammar (st_Timeline template)\<rparr>))"

definition resumeListStructure :: "ResumeStructure \<Rightarrow> segmentListXML \<Rightarrow> ResumeStructure" where
  "resumeListStructure base xs =
     finishResumeStructure (set_initialization (canonicalInitialization [] (sl_Initialization xs))
       (base\<lparr>rs_AddressingMode := ''list'', rs_Timescale := positive_or_one (sl_Timescale xs),
             rs_PresentationTimeOffset := sl_PresentationTimeOffset xs, rs_StartNumber := positive_or_one (sl_StartNumber xs),
             rs_SegmentDuration := sl_Duration xs, rs_NumberTimeRole := ''list-index'', rs_TemplateGrammar := ''list-index'',
             rs_TimelineGrammar := canonicalTimelineGrammar (sl_Timeline xs)\<rparr>))"

definition resumeBaseStructure :: "ResumeStructure \<Rightarrow> segmentBaseXML \<Rightarrow> ResumeStructure" where
  "resumeBaseStructure base sb =
     (let base = set_initialization (canonicalInitialization [] (sb_Initialization sb))
            (base\<lparr>rs_AddressingMode := ''segmentbase'', rs_NumberTimeRole := ''base'', rs_TemplateGrammar := ''base''\<rparr>)
      in if sb_IndexRange sb \<noteq> [] then
           (case canonicalRange (sb_IndexRange sb) of
              None \<Rightarrow> base\<lparr>rs_Complete := False\<rparr>
            | Some (start, len) \<Rightarrow>
                finishResumeStructure (base\<lparr>rs_AddressingMode := ''segmentbase-sidx'', rs_IndexRangeStart := start, rs_IndexRangeLength := len\<rparr>))
         else finishResumeStructure base)"

definition resumeSingleFileStructure :: "ResumeStructure \<Rightarrow> ResumeStructure" where
  "resumeSingleFileStructure base =
     finishResumeStructure (base\<lparr>rs_AddressingMode := ''single-file'', rs_NumberTimeRole := ''single'',
       rs_TemplateGrammar := ''single-file'', rs_InitializationIdentity := ''none''\<rparr>)"

section \<open>Documents\<close>

record representationXML =
  rx_ID :: string
  rx_Bandwidth :: i64
  rx_Width :: int
  rx_Height :: int
  rx_MimeType :: string
  rx_Codecs :: string
  rx_Language :: string
  rx_FrameRate :: string
  rx_AudioRate :: string
  rx_BaseURL :: string
  rx_SegmentTemplate :: "segmentTemplateXML option"
  rx_SegmentList :: "segmentListXML option"
  rx_SegmentBase :: "segmentBaseXML option"

record adaptationSetXML =
  ax_ID :: string
  ax_ContentType :: string
  ax_MimeType :: string
  ax_Codecs :: string
  ax_Language :: string
  ax_FrameRate :: string
  ax_AudioRate :: string
  ax_BaseURL :: string
  ax_SegmentTemplate :: "segmentTemplateXML option"
  ax_SegmentList :: "segmentListXML option"
  ax_SegmentBase :: "segmentBaseXML option"
  ax_Representations :: "representationXML list"

record periodXML =
  px_ID :: string
  px_Start :: string
  px_Duration :: string
  px_BaseURL :: string
  px_SegmentTemplate :: "segmentTemplateXML option"
  px_SegmentList :: "segmentListXML option"
  px_SegmentBase :: "segmentBaseXML option"
  px_AdaptationSets :: "adaptationSetXML list"

record mpdXML =
  mx_Type :: string
  mx_MinimumUpdatePeriod :: string
  mx_MediaPresentationTime :: string
  mx_AvailabilityStartTime :: string
  mx_PublishTime :: string
  mx_BaseURL :: string
  mx_Periods :: "periodXML list"

datatype mpd_error =
    TooManyPeriods | BadDurationAttribute | BadTiming timing_error | BadTimeAttribute | BadBaseURL
  | BadRepresentation string segment_error | NoRepresentations

definition maxPeriods :: nat where "maxPeriods = 128"

section \<open>Parsing\<close>

fun firstNonEmpty :: "string list \<Rightarrow> string" where
  "firstNonEmpty [] = []"
| "firstNonEmpty (v # vs) = (if v \<noteq> [] then v else firstNonEmpty vs)"

text \<open>A time is a number of nanoseconds after the zero time, which an absent attribute stands for.\<close>

definition parseOptionalTime :: "'u dash_lib \<Rightarrow> string \<Rightarrow> int option" where
  "parseOptionalTime lib input = (if input = [] then Some 0 else dl_time lib input)"

text \<open>\<open>time.Time.Sub\<close> saturates.\<close>

definition time_Sub :: "int \<Rightarrow> int \<Rightarrow> i64" where
  "time_Sub t u = max MinInt64 (min MaxInt64 (t - u))"

text \<open>
  Every step may fail, and the expansion of a timeline may not end. A loop whose body appends to the result: the first
  failure, or the first iteration that does not end, decides.
\<close>

definition bind_run :: "('e + 'a) option \<Rightarrow> ('a \<Rightarrow> ('e + 'b) option) \<Rightarrow> ('e + 'b) option" where
  "bind_run m f = (case m of None \<Rightarrow> None | Some (Inl e) \<Rightarrow> Some (Inl e) | Some (Inr x) \<Rightarrow> f x)"

fun append_runs :: "('a \<Rightarrow> ('e + 'b list) option) \<Rightarrow> 'a list \<Rightarrow> ('e + 'b list) option" where
  "append_runs f [] = Some (Inr [])"
| "append_runs f (x # xs) = bind_run (f x) (\<lambda>ys. bind_run (append_runs f xs) (\<lambda>zs. Some (Inr (ys @ zs))))"

definition parse_base :: "'u dash_lib \<Rightarrow> 'u \<Rightarrow> string \<Rightarrow> (mpd_error + 'u) option" where
  "parse_base lib base raw = (case resolveBase lib base raw of None \<Rightarrow> Some (Inl BadBaseURL) | Some u \<Rightarrow> Some (Inr u))"

text \<open>A representation before its segments are known.\<close>

definition normalized_representation ::
    "nat \<Rightarrow> Period \<Rightarrow> i64 \<Rightarrow> adaptationSetXML \<Rightarrow> representationXML \<Rightarrow> Representation" where
  "normalized_representation periodIndex period periodDuration adaptation r =
     \<lparr>rp_ID = rx_ID r, rp_PeriodID = pd_ID period, rp_PeriodIndex = int periodIndex, rp_AdaptationSetID = ax_ID adaptation,
      rp_Fragmented = False, rp_ContentType = ax_ContentType adaptation,
      rp_MimeType = firstNonEmpty [rx_MimeType r, ax_MimeType adaptation], rp_Codecs = firstNonEmpty [rx_Codecs r, ax_Codecs adaptation],
      rp_Language = firstNonEmpty [rx_Language r, ax_Language adaptation],
      rp_FrameRate = firstNonEmpty [rx_FrameRate r, ax_FrameRate adaptation],
      rp_AudioRate = firstNonEmpty [rx_AudioRate r, ax_AudioRate adaptation],
      rp_Bandwidth = rx_Bandwidth r, rp_Width = rx_Width r, rp_Height = rx_Height r, rp_Addressing = [], rp_Segments = [],
      rp_PeriodSegments = [], rp_PeriodIDs = [], rp_PeriodRepresentationIDs = [], rp_PeriodAddressings = [],
      rp_Resume = zero_resume\<lparr>rs_PeriodID := pd_ID period, rs_PeriodIndex := int periodIndex, rs_PeriodStartNanos := pd_Start period,
        rs_PeriodDurationNanos := periodDuration, rs_PeriodTimingKnown := pd_TimingKnown period, rs_AdaptationSetID := ax_ID adaptation,
        rs_FrameRate := firstNonEmpty [rx_FrameRate r, ax_FrameRate adaptation],
        rs_AudioRate := firstNonEmpty [rx_AudioRate r, ax_AudioRate adaptation]\<rparr>\<rparr>"

definition addressed_as :: "Representation \<Rightarrow> bool \<Rightarrow> string \<Rightarrow> ResumeStructure \<Rightarrow> Segment list \<Rightarrow> Representation" where
  "addressed_as r fragmented addressing resume segments =
     r\<lparr>rp_Fragmented := fragmented, rp_Addressing := addressing, rp_Resume := resume, rp_Segments := segments\<rparr>"

text \<open>The source of the segments: a template before a list, before a base, before the URL of the representation itself.\<close>

definition address_representation ::
    "'u dash_lib \<Rightarrow> 'u \<Rightarrow> Representation \<Rightarrow> segmentTemplateXML option \<Rightarrow> segmentListXML option \<Rightarrow> segmentBaseXML option \<Rightarrow> string \<Rightarrow> i64 \<Rightarrow>
      (segment_error + Representation) option" where
  "address_representation lib base r template segmentList segmentBase baseURL periodDuration =
     (case (template, segmentList, segmentBase) of
        (Some t, _, _) \<Rightarrow>
          bind_run (templateSegments lib base r t periodDuration)
            (\<lambda>ss. Some (Inr (addressed_as r True ''template'' (resumeTemplateStructure (rp_Resume r) t) ss)))
      | (None, Some l, _) \<Rightarrow>
          bind_run (Some (listSegments lib base l))
            (\<lambda>ss. Some (Inr (addressed_as r True ''list'' (resumeListStructure (rp_Resume r) l) ss)))
      | (None, None, Some b) \<Rightarrow>
          bind_run (Some (baseSegments lib base b))
            (\<lambda>ss. Some (Inr (addressed_as r (sb_IndexRange b \<noteq> []) (if sb_IndexRange b \<noteq> [] then ''segmentbase-sidx'' else ''segmentbase'')
                 (resumeBaseStructure (rp_Resume r) b) ss)))
      | (None, None, None) \<Rightarrow>
          if baseURL \<noteq> [] then
            Some (Inr (addressed_as r False ''single-file'' (resumeSingleFileStructure (rp_Resume r)) [url_segment (dl_String lib base)]))
          else Some (Inl NoSource))"

definition name_error :: "string \<Rightarrow> (segment_error + 'a) option \<Rightarrow> (mpd_error + 'a) option" where
  "name_error rid m = (case m of None \<Rightarrow> None | Some (Inl e) \<Rightarrow> Some (Inl (BadRepresentation rid e)) | Some (Inr x) \<Rightarrow> Some (Inr x))"

definition parse_representation ::
    "'u dash_lib \<Rightarrow> nat \<Rightarrow> Period \<Rightarrow> i64 \<Rightarrow> periodXML \<Rightarrow> adaptationSetXML \<Rightarrow> 'u \<Rightarrow> representationXML \<Rightarrow> (mpd_error + Representation list) option" where
  "parse_representation lib periodIndex timing periodDuration period adaptation adaptationBase r =
     bind_run (parse_base lib adaptationBase (rx_BaseURL r)) (\<lambda>base.
       bind_run (name_error (rx_ID r) (address_representation lib base (normalized_representation periodIndex timing periodDuration adaptation r)
           (mergeSegmentTemplates [px_SegmentTemplate period, ax_SegmentTemplate adaptation, rx_SegmentTemplate r])
           (mergeSegmentLists [px_SegmentList period, ax_SegmentList adaptation, rx_SegmentList r])
           (mergeSegmentBases [px_SegmentBase period, ax_SegmentBase adaptation, rx_SegmentBase r]) (rx_BaseURL r) periodDuration))
         (\<lambda>representation. Some (Inr [representation])))"

definition parse_adaptation ::
    "'u dash_lib \<Rightarrow> nat \<Rightarrow> Period \<Rightarrow> i64 \<Rightarrow> periodXML \<Rightarrow> 'u \<Rightarrow> adaptationSetXML \<Rightarrow> (mpd_error + Representation list) option" where
  "parse_adaptation lib periodIndex timing periodDuration period periodBase adaptation =
     bind_run (parse_base lib periodBase (ax_BaseURL adaptation)) (\<lambda>base.
       append_runs (parse_representation lib periodIndex timing periodDuration period adaptation base) (ax_Representations adaptation))"

definition parse_period ::
    "'u dash_lib \<Rightarrow> int \<Rightarrow> int \<Rightarrow> 'u \<Rightarrow> nat \<times> periodXML \<times> Period \<Rightarrow> (mpd_error + Representation list) option" where
  "parse_period lib availabilityStart publishTime mpdBase p =
     (case p of (periodIndex, period, timing) \<Rightarrow>
        let periodDuration = (if pd_Duration timing \<le> 0 \<and> availabilityStart \<noteq> 0 \<and> publishTime \<noteq> 0
              then wrap64 (time_Sub publishTime availabilityStart - pd_Start timing) else pd_Duration timing)
        in bind_run (parse_base lib mpdBase (px_BaseURL period)) (\<lambda>base.
             append_runs (parse_adaptation lib periodIndex timing periodDuration period base) (px_AdaptationSets period)))"

definition attributes_of :: "periodXML \<Rightarrow> period_attributes" where
  "attributes_of p = \<lparr>pt_ID = px_ID p, pt_Start = px_Start p, pt_Duration = px_Duration p\<rparr>"

definition parse_periods ::
    "'u dash_lib \<Rightarrow> 'u \<Rightarrow> mpdXML \<Rightarrow> Period list \<Rightarrow> int \<Rightarrow> int \<Rightarrow> (mpd_error + Representation list) option" where
  "parse_periods lib base document periods availabilityStart publishTime =
     bind_run (parse_base lib base (mx_BaseURL document)) (\<lambda>mpdBase.
       append_runs (parse_period lib availabilityStart publishTime mpdBase)
         (zip [0..<length (mx_Periods document)] (zip (mx_Periods document) periods)))"

definition mpd_Parse :: "'u dash_lib \<Rightarrow> 'u \<Rightarrow> mpdXML \<Rightarrow> (mpd_error + MPD) option" where
  "mpd_Parse lib base document =
     (if length (mx_Periods document) > maxPeriods then Some (Inl TooManyPeriods)
      else (case (parseISODuration (dl_scaled lib) (mx_MinimumUpdatePeriod document),
                  parseISODuration (dl_scaled lib) (mx_MediaPresentationTime document)) of
              (Some minimumUpdate, Some presentationDuration) \<Rightarrow>
                (case resolvePeriodTimings (dl_scaled lib) (map attributes_of (mx_Periods document)) presentationDuration of
                   Inl e \<Rightarrow> Some (Inl (BadTiming e))
                 | Inr periods \<Rightarrow>
                     (case (parseOptionalTime lib (mx_AvailabilityStartTime document), parseOptionalTime lib (mx_PublishTime document)) of
                        (Some availabilityStart, Some publishTime) \<Rightarrow>
                          bind_run (parse_periods lib base document periods availabilityStart publishTime)
                            (\<lambda>representations.
                              if representations = [] then Some (Inl NoRepresentations)
                              else Some (Inr \<lparr>mpd_Dynamic = (mx_Type document = ''dynamic''), mpd_MinimumUpdatePeriod = minimumUpdate,
                                mpd_PresentationDuration = presentationDuration, mpd_PeriodCount = int (length (mx_Periods document)),
                                mpd_Periods = periods, mpd_Representations = representations\<rparr>))
                      | _ \<Rightarrow> Some (Inl BadTimeAttribute)))
            | _ \<Rightarrow> Some (Inl BadDurationAttribute)))"

section \<open>Segments without an index\<close>

definition plain_segment :: "Segment \<Rightarrow> bool" where
  "plain_segment s \<longleftrightarrow> sg_IndexRange s = []"

lemma plain_constructed [simp]:
  "plain_segment (range_segment url start len initialize)" "plain_segment (url_segment url)" "plain_segment (media_segment url number t)"
  "plain_segment (s\<lparr>sg_Initialize := True\<rparr>) = plain_segment s"
  by (simp_all add: plain_segment_def range_segment_def url_segment_def media_segment_def)

lemma rangedSegment_plain: "rangedSegment lib base url raw = Inr s \<Longrightarrow> plain_segment s"
  by (auto simp: rangedSegment_def split: option.splits if_splits)

lemma initializing_plain: "initializing r = Inr ss \<Longrightarrow> (\<And>s. r = Inr s \<Longrightarrow> plain_segment s) \<Longrightarrow> list_all plain_segment ss"
  by (auto simp: initializing_def split: sum.splits)

lemma initializing_initializes: "initializing r = Inr ss \<Longrightarrow> list_all sg_Initialize ss \<and> length ss = 1"
  by (auto simp: initializing_def split: sum.splits)

lemma repeat_loop_plain:
  assumes "repeat_loop address d c i number t result = Some (Inr (result', number', t'))" and "list_all plain_segment result"
  shows "list_all plain_segment result'"
proof -
  let ?P = "\<lambda>result (y :: segment_error + Segment list \<times> i64 \<times> i64). \<forall>result' n. y = Inr (result', n) \<longrightarrow> list_all plain_segment result \<longrightarrow> list_all plain_segment result'"
  have "?P result (Inr (result', number', t'))"
  proof (rule repeat_loop.raw_induct [where P = "\<lambda>address d c i number t result y. ?P result y", OF _ assms(1)])
    fix loop address d c i number t result y
    assume IH: "\<And>address d c i number t result y. loop address d c i number t result = Some y \<Longrightarrow> ?P result y"
      and eq: "(if c < i then Some (Inr (result, number, t))
        else (case address number t of
                Inl e \<Rightarrow> Some (Inl e)
              | Inr resolved \<Rightarrow>
                  loop address d c (wrap64 (i + 1)) (wrap64 (number + 1)) (wrap64 (t + d)) (result @ [media_segment resolved number t]))) = Some y"
    show "?P result y"
    proof (cases "c < i \<or> isl (address number t)")
      case True
      with eq show ?thesis by (auto simp: isl_def split: if_splits)
    next
      case False
      then obtain u where "address number t = Inr u" by (cases "address number t") auto
      with eq False IH [of address d c "wrap64 (i + 1)" "wrap64 (number + 1)" "wrap64 (t + d)" "result @ [media_segment u number t]" y]
      show ?thesis by simp
    qed
  qed
  with assms(2) show ?thesis by blast
qed

lemma timeline_loop_plain:
  "timeline_loop lib timescale pd address entries number t result = Some (Inr segments) \<Longrightarrow> list_all plain_segment result \<Longrightarrow>
     list_all plain_segment segments"
proof (induction entries arbitrary: number t result)
  case (Cons e later)
  from Cons.prems(1) obtain c s result' number' t' where
    "repeat_loop address (te_Duration e) c 0 number s result = Some (Inr (result', number', t'))"
    and later: "timeline_loop lib timescale pd address later number' t' result' = Some (Inr segments)"
    by (auto simp: Let_def split: if_splits option.splits sum.splits prod.splits)
  from Cons.IH [OF later repeat_loop_plain [OF this(1) Cons.prems(2)]] show ?case .
qed simp

lemma duration_segments_plain:
  "duration_segments address d n i number result = Inr segments \<Longrightarrow> list_all plain_segment result \<Longrightarrow> list_all plain_segment segments"
  by (induction address d n i number result rule: duration_segments.induct) (auto simp: Let_def split: sum.splits)

lemma template_initialization_plain: "template_initialization lib base r t = Inr ss \<Longrightarrow> list_all plain_segment ss"
  unfolding template_initialization_def
  by (auto split: if_splits sum.splits option.splits intro: initializing_plain rangedSegment_plain)

lemma templateSegments_plain: "templateSegments lib base r t pd = Some (Inr ss) \<Longrightarrow> list_all plain_segment ss"
  unfolding templateSegments_def Let_def
  by (auto split: if_splits sum.splits intro: timeline_loop_plain duration_segments_plain dest: template_initialization_plain)

lemma ranged_segments_plain: "ranged_segments lib base items = Inr ss \<Longrightarrow> list_all plain_segment ss"
  by (induction items arbitrary: ss) (auto split: sum.splits dest: rangedSegment_plain)

lemma listSegments_plain:
  assumes "listSegments lib base xs = Inr ss"
  shows "list_all plain_segment ss"
proof -
  from assms obtain before media where "ss = before @ media" and media: "ranged_segments lib base (sl_Segments xs) = Inr media"
    and "(case sl_Initialization xs of
        Some element \<Rightarrow> initializing (rangedSegment lib base (in_SourceURL element) (in_Range element)) | None \<Rightarrow> Inr []) = Inr before"
    by (auto simp: listSegments_def split: if_splits sum.splits)
  then have "list_all plain_segment before"
    by (auto split: option.splits intro: initializing_plain rangedSegment_plain)
  with \<open>ss = before @ media\<close> ranged_segments_plain [OF media] show ?thesis by simp
qed

section \<open>Segments with an index\<close>

lemma index_initialization_before:
  "index_initialization lib base element = Inr (before, initRange) \<Longrightarrow> list_all plain_segment before \<and> list_all sg_Initialize before"
  unfolding index_initialization_def
  by (auto split: option.splits if_splits sum.splits dest: initializing_initializes intro: initializing_plain rangedSegment_plain)

lemma baseSegments_index:
  assumes "baseSegments lib base sb = Inr ss" and "sb_IndexRange sb \<noteq> []"
  shows "\<exists>before marker. ss = before @ [marker] \<and> list_all plain_segment before \<and> list_all sg_Initialize before \<and>
    sg_IndexRange marker = sb_IndexRange sb \<and> \<not> sg_Initialize marker \<and> parseByteRange (sb_IndexRange sb) \<noteq> None"
proof -
  from assms obtain before initRange where
    "index_initialization lib base (sb_Initialization sb) = Inr (before, initRange)"
    and "ss = before @ [(url_segment (dl_String lib base))\<lparr>sg_IndexRange := sb_IndexRange sb, sg_InitRange := initRange\<rparr>]"
    and "parseByteRange (sb_IndexRange sb) \<noteq> None"
    by (auto simp: baseSegments_def indexRangeSegments_def split: if_splits sum.splits prod.splits)
  then show ?thesis
    using index_initialization_before by (fastforce simp: url_segment_def range_segment_def)
qed

lemma baseSegments_plain:
  assumes "baseSegments lib base sb = Inr ss" and "sb_IndexRange sb = []"
  shows "list_all plain_segment ss"
proof -
  from assms obtain before where "ss = before @ [url_segment (dl_String lib base)]"
    and "before = [] \<or> (\<exists>url range. initializing (rangedSegment lib base url range) = Inr before)"
    by (auto simp: baseSegments_def split: sum.splits option.splits if_splits)
  then show ?thesis by (auto intro: initializing_plain rangedSegment_plain)
qed

lemma marker_loop_plain: "list_all plain_segment before \<Longrightarrow> marker_loop url n (before @ rest) = marker_loop url n rest"
  by (induction before) (auto simp: plain_segment_def)

lemma marked_segments_valid:
  assumes "list_all plain_segment before" "list_all sg_Initialize before" "sg_IndexRange marker \<noteq> []" "\<not> sg_Initialize marker"
  shows "validateRepresentationMarkers (before @ [marker]) = None" and "\<not> hasNonSIDXMediaSegments (before @ [marker])"
  using assms(2-) marker_loop_plain [OF assms(1), of "[]" 0 "[marker]"] assms(1)
  by (auto simp: validateRepresentationMarkers_def hasNonSIDXMediaSegments_def plain_segment_def list_all_iff list_ex_iff)

text \<open>What the rest of the program relies on: the markers of an index are where the addressing says, and nowhere else.\<close>

definition well_addressed :: "Representation \<Rightarrow> bool" where
  "well_addressed r \<longleftrightarrow>
     rs_AddressingMode (rp_Resume r) = rp_Addressing r \<and>
     (if rp_Addressing r = ''segmentbase-sidx'' then
        (\<exists>p. profileForRepresentation r = Inr p) \<and> \<not> hasNonSIDXMediaSegments (rp_Segments r) \<and>
        list_all (\<lambda>s. sg_IndexRange s \<noteq> [] \<longrightarrow> parseByteRange (sg_IndexRange s) \<noteq> None) (rp_Segments r)
      else \<not> segmentHasSIDXMarker (rp_Segments r))"

lemma plain_no_marker: "list_all plain_segment ss \<Longrightarrow> \<not> segmentHasSIDXMarker ss"
  by (auto simp: segmentHasSIDXMarker_def plain_segment_def list_all_iff list_ex_iff)

lemma profile_of_marked:
  assumes "validateRepresentationMarkers (rp_Segments r) = None" and "segmentHasSIDXMarker (rp_Segments r)"
  shows "\<exists>p. profileForRepresentation r = Inr p"
proof -
  have "filter (\<lambda>s. sg_IndexRange s \<noteq> []) (rp_Segments r) \<noteq> []"
    using assms(2) by (auto simp: segmentHasSIDXMarker_def list_ex_iff filter_empty_conv)
  with assms(1) show ?thesis by (auto simp: profileForRepresentation_def mediaURLFromMarkers_def split: list.splits)
qed

lemma finishResumeStructure_mode [simp]: "rs_AddressingMode (finishResumeStructure v) = rs_AddressingMode v"
  by (simp add: finishResumeStructure_def)

lemma set_initialization_mode [simp]: "rs_AddressingMode (set_initialization i v) = rs_AddressingMode v"
  by (simp add: set_initialization_def)

lemma resume_modes [simp]:
  "rs_AddressingMode (resumeTemplateStructure v t) = ''template''" "rs_AddressingMode (resumeListStructure v l) = ''list''"
  "rs_AddressingMode (resumeSingleFileStructure v) = ''single-file''"
  by (simp_all add: resumeTemplateStructure_def resumeListStructure_def resumeSingleFileStructure_def)

lemma resumeBaseStructure_mode:
  "sb_IndexRange b = [] \<Longrightarrow> rs_AddressingMode (resumeBaseStructure v b) = ''segmentbase''"
  "parseByteRange (sb_IndexRange b) \<noteq> None \<Longrightarrow> sb_IndexRange b \<noteq> [] \<Longrightarrow> rs_AddressingMode (resumeBaseStructure v b) = ''segmentbase-sidx''"
  by (force simp: resumeBaseStructure_def Let_def canonicalRange_def dest: parseByteRange_bounds)+

section \<open>Properties\<close>

lemma bind_run_Inr_iff: "bind_run m f = Some (Inr y) \<longleftrightarrow> (\<exists>x. m = Some (Inr x) \<and> f x = Some (Inr y))"
  by (auto simp: bind_run_def split: option.splits sum.splits)

lemma name_error_Inr_iff: "name_error rid m = Some (Inr y) \<longleftrightarrow> m = Some (Inr y)"
  by (auto simp: name_error_def split: option.splits sum.splits)

lemma append_runs_all:
  "append_runs f xs = Some (Inr ys) \<Longrightarrow> (\<And>x zs. x \<in> set xs \<Longrightarrow> f x = Some (Inr zs) \<Longrightarrow> list_all P zs) \<Longrightarrow> list_all P ys"
proof (induction xs arbitrary: ys)
  case (Cons x xs)
  then obtain us vs where us: "f x = Some (Inr us)" and vs: "append_runs f xs = Some (Inr vs)" and ys: "ys = us @ vs"
    by (auto simp: bind_run_Inr_iff)
  have "list_all P us" by (rule Cons.prems(2) [OF _ us]) simp
  moreover have "list_all P vs" by (rule Cons.IH [OF vs]) (use Cons.prems(2) in auto)
  ultimately show ?case by (simp add: ys)
qed simp

lemma addressed_as_plain:
  "list_all plain_segment ss \<Longrightarrow> rs_AddressingMode resume = addressing \<Longrightarrow> addressing \<noteq> ''segmentbase-sidx'' \<Longrightarrow>
     well_addressed (addressed_as r fragmented addressing resume ss)"
  by (simp add: well_addressed_def addressed_as_def plain_no_marker)

lemma addressed_as_index:
  assumes "baseSegments lib base b = Inr ss" and "sb_IndexRange b \<noteq> []"
  shows "well_addressed (addressed_as r True ''segmentbase-sidx'' (resumeBaseStructure v b) ss)"
proof -
  from baseSegments_index [OF assms] obtain before marker where ss: "ss = before @ [marker]"
    and before: "list_all plain_segment before" "list_all sg_Initialize before"
    and marker: "sg_IndexRange marker = sb_IndexRange b" "\<not> sg_Initialize marker" and range: "parseByteRange (sb_IndexRange b) \<noteq> None"
    by blast
  note valid = marked_segments_valid [OF before, of marker] marker(2) assms(2) marker(1)
  have "segmentHasSIDXMarker ss" using marker(1) assms(2) by (simp add: ss segmentHasSIDXMarker_def)
  then have "\<exists>p. profileForRepresentation (addressed_as r True ''segmentbase-sidx'' (resumeBaseStructure v b) ss) = Inr p"
    using valid by (intro profile_of_marked) (simp_all add: addressed_as_def ss)
  moreover have "list_all (\<lambda>s. sg_IndexRange s \<noteq> [] \<longrightarrow> parseByteRange (sg_IndexRange s) \<noteq> None) ss"
    using before(1) range marker(1) by (auto simp: ss plain_segment_def list_all_iff)
  ultimately show ?thesis
    using valid resumeBaseStructure_mode(2) [OF range assms(2)] by (simp add: well_addressed_def addressed_as_def ss)
qed

lemma address_representation_well_addressed:
  assumes "address_representation lib base r template xs b baseURL pd = Some (Inr r')"
  shows "well_addressed r' \<and> rp_PeriodIndex r' = rp_PeriodIndex r \<and> rp_PeriodID r' = rp_PeriodID r"
proof -
  from assms have "well_addressed r'"
    unfolding address_representation_def
    by (auto simp: bind_run_Inr_iff resumeBaseStructure_mode(1) split: option.splits if_splits
        dest!: templateSegments_plain listSegments_plain intro: addressed_as_plain addressed_as_index baseSegments_plain)
  with assms show ?thesis
    by (auto simp: address_representation_def bind_run_Inr_iff addressed_as_def split: option.splits if_splits)
qed

text \<open>Every representation of a manifest comes from one element of the document, in one of the periods.\<close>

definition parsed_from :: "'u dash_lib \<Rightarrow> Period list \<Rightarrow> Representation \<Rightarrow> bool" where
  "parsed_from lib periods r' \<longleftrightarrow>
     (\<exists>base i pd adaptation r template xs b. i < length periods \<and>
        address_representation lib base (normalized_representation i (periods ! i) pd adaptation r) template xs b (rx_BaseURL r) pd = Some (Inr r'))"

lemma parsed_fromI:
  "i < length periods \<Longrightarrow>
     address_representation lib base (normalized_representation i (periods ! i) pd adaptation r) template xs b (rx_BaseURL r) pd = Some (Inr r') \<Longrightarrow>
     parsed_from lib periods r'"
  unfolding parsed_from_def by blast

lemma parse_representation_from:
  assumes "parse_representation lib i (periods ! i) pd period adaptation base r = Some (Inr rs)" and "i < length periods"
  shows "list_all (parsed_from lib periods) rs"
  using assms by (auto simp: parse_representation_def bind_run_Inr_iff name_error_Inr_iff intro: parsed_fromI)

lemma parse_adaptation_from:
  assumes "parse_adaptation lib i (periods ! i) pd period base adaptation = Some (Inr rs)" and "i < length periods"
  shows "list_all (parsed_from lib periods) rs"
  using assms(1) unfolding parse_adaptation_def bind_run_Inr_iff
  by (auto elim!: append_runs_all intro: parse_representation_from [OF _ assms(2)])

lemma parse_period_from:
  assumes "parse_period lib availability publish base (i, period, periods ! i) = Some (Inr rs)" and "i < length periods"
  shows "list_all (parsed_from lib periods) rs"
  using assms(1) unfolding parse_period_def prod.case Let_def bind_run_Inr_iff
  by (auto elim!: append_runs_all intro: parse_adaptation_from [OF _ assms(2)])

lemma parse_periods_from:
  assumes "parse_periods lib base document periods availability publish = Some (Inr rs)" and "length periods = length (mx_Periods document)"
  shows "list_all (parsed_from lib periods) rs"
proof -
  from assms(1) obtain mpdBase where
    "append_runs (parse_period lib availability publish mpdBase) (zip [0..<length (mx_Periods document)] (zip (mx_Periods document) periods)) = Some (Inr rs)"
    by (auto simp: parse_periods_def bind_run_Inr_iff)
  then show ?thesis
    by (rule append_runs_all) (use assms(2) in \<open>auto simp: set_zip intro: parse_period_from\<close>)
qed

lemma resolvePeriodTimings_length: "resolvePeriodTimings scaled ps pd = Inr periods \<Longrightarrow> length periods = length ps"
proof -
  assume r: "resolvePeriodTimings scaled ps pd = Inr periods"
  then obtain given ts where given: "explicit_timings scaled 0 ps = Inr given"
    and ts: "timing_passes pd (2 * length given + 1) (first_start_known given) = Inr ts" and periods: "periods = map2 period_of ps ts"
    by (auto simp: resolvePeriodTimings_def split: sum.splits)
  have "length ts = length given"
    using timing_passes_fixpoint [OF ts] first_start_known_unknowns [of given] by (auto dest: list_all2_lengthD)
  then show ?thesis using explicit_timings_length [OF given] by (simp add: periods)
qed

lemma mpd_Parse_parsed:
  assumes "mpd_Parse lib base document = Some (Inr mpd)"
  shows "mpd_Representations mpd \<noteq> [] \<and> mpd_PeriodCount mpd = int (length (mpd_Periods mpd)) \<and> length (mpd_Periods mpd) \<le> maxPeriods \<and>
    list_all (parsed_from lib (mpd_Periods mpd)) (mpd_Representations mpd)"
proof -
  from assms obtain pd periods availability publish rs where
    timings: "resolvePeriodTimings (dl_scaled lib) (map attributes_of (mx_Periods document)) pd = Inr periods"
    and rs: "parse_periods lib base document periods availability publish = Some (Inr rs)" "rs \<noteq> []"
    and mpd: "mpd_Periods mpd = periods" "mpd_Representations mpd = rs" "mpd_PeriodCount mpd = int (length (mx_Periods document))"
    and count: "length (mx_Periods document) \<le> maxPeriods"
    by (auto simp: mpd_Parse_def bind_run_Inr_iff split: if_splits option.splits sum.splits)
  have "length periods = length (mx_Periods document)" using resolvePeriodTimings_length [OF timings] by simp
  with parse_periods_from [OF rs(1)] mpd count rs(2) show ?thesis by simp
qed

definition of_period :: "Period list \<Rightarrow> Representation \<Rightarrow> bool" where
  "of_period periods r \<longleftrightarrow>
     (\<exists>i < length periods. rp_PeriodIndex r = int i \<and> rp_PeriodID r = pd_ID (periods ! i)) \<and> well_addressed r"

lemma parsed_from_of_period: "parsed_from lib periods r \<Longrightarrow> of_period periods r"
  by (auto simp: parsed_from_def of_period_def normalized_representation_def dest!: address_representation_well_addressed)

text \<open>
  C36. What a parsed manifest guarantees to the selection, the expansion of indexes and the polling: it has a representation, at most
  128 periods, and an interval for every one of them; every representation belongs to one of the periods and carries the
  marker of a segment index exactly when its addressing says so, with a valid byte range and in the shape that polling
  accepts.
\<close>

theorem parsed_manifest_is_well_addressed:
  assumes "mpd_Parse lib base document = Some (Inr mpd)"
  shows "mpd_Representations mpd \<noteq> [] \<and> mpd_PeriodCount mpd = int (length (mpd_Periods mpd)) \<and> length (mpd_Periods mpd) \<le> maxPeriods \<and>
    list_all (of_period (mpd_Periods mpd)) (mpd_Representations mpd)"
  using mpd_Parse_parsed [OF assms] parsed_from_of_period by (auto simp: list_all_iff)

definition sample_rx :: representationXML where
  "sample_rx =
     \<lparr>rx_ID = ''r'', rx_Bandwidth = 1000, rx_Width = 0, rx_Height = 0, rx_MimeType = [], rx_Codecs = [], rx_Language = [], rx_FrameRate = [],
      rx_AudioRate = [], rx_BaseURL = ''v.mp4'', rx_SegmentTemplate = None, rx_SegmentList = None,
      rx_SegmentBase = Some \<lparr>sb_IndexRange = ''100-199'', sb_Initialization = None\<rparr>\<rparr>"

definition sample_ax :: adaptationSetXML where
  "sample_ax =
     \<lparr>ax_ID = ''a'', ax_ContentType = ''video'', ax_MimeType = [], ax_Codecs = ''avc1'', ax_Language = [], ax_FrameRate = [], ax_AudioRate = [],
      ax_BaseURL = [], ax_SegmentTemplate = None, ax_SegmentList = None,
      ax_SegmentBase = Some \<lparr>sb_IndexRange = [], sb_Initialization = Some \<lparr>in_SourceURL = [], in_Range = ''0-99''\<rparr>\<rparr>,
      ax_Representations = [sample_rx]\<rparr>"

definition sample_px :: periodXML where
  "sample_px =
     \<lparr>px_ID = ''p'', px_Start = [], px_Duration = ''PT1M'', px_BaseURL = [], px_SegmentTemplate = None, px_SegmentList = None,
      px_SegmentBase = None, px_AdaptationSets = [sample_ax]\<rparr>"

definition sample_document :: mpdXML where
  "sample_document =
     \<lparr>mx_Type = ''dynamic'', mx_MinimumUpdatePeriod = [], mx_MediaPresentationTime = [], mx_AvailabilityStartTime = [], mx_PublishTime = [],
      mx_BaseURL = [], mx_Periods = [sample_px]\<rparr>"

definition sample_period :: Period where
  "sample_period = \<lparr>pd_ID = ''p'', pd_Start = 0, pd_Duration = 60 * 10 ^ 9, pd_TimingKnown = True\<rparr>"

lemma sample_timings: "resolvePeriodTimings (dl_scaled plain_lib) [attributes_of sample_px] 0 = Inr [sample_period]"
  by code_simp

lemma sample_representation_parsed:
  "\<exists>r. parse_representation plain_lib 0 sample_period (pd_Duration sample_period) sample_px sample_ax ''h/'' sample_rx = Some (Inr [r]) \<and>
     rp_Addressing r = ''segmentbase-sidx''"
proof -
  have "(case parse_representation plain_lib 0 sample_period (pd_Duration sample_period) sample_px sample_ax ''h/'' sample_rx of
      Some (Inr rs) \<Rightarrow> map rp_Addressing rs = [''segmentbase-sidx''] | _ \<Rightarrow> False)"
    by code_simp
  then show ?thesis by (auto simp: map_eq_Cons_conv split: option.splits sum.splits)
qed

lemma sample_document_parsed:
  "\<exists>mpd r. mpd_Parse plain_lib ''h/'' sample_document = Some (Inr mpd) \<and> mpd_Representations mpd = [r] \<and> rp_Addressing r = ''segmentbase-sidx''"
proof -
  obtain r where r: "parse_representation plain_lib 0 sample_period (pd_Duration sample_period) sample_px sample_ax ''h/'' sample_rx = Some (Inr [r])"
    "rp_Addressing r = ''segmentbase-sidx''"
    using sample_representation_parsed by blast
  have "parse_adaptation plain_lib 0 sample_period (pd_Duration sample_period) sample_px ''h/'' sample_ax = Some (Inr [r])"
    using r(1) by (simp add: parse_adaptation_def parse_base_def resolveBase_def bind_run_def sample_ax_def)
  then have "parse_period plain_lib 0 0 ''h/'' (0, sample_px, sample_period) = Some (Inr [r])"
    by (simp add: parse_period_def parse_base_def resolveBase_def bind_run_def sample_px_def)
  then have "parse_periods plain_lib ''h/'' sample_document [sample_period] 0 0 = Some (Inr [r])"
    by (simp add: parse_periods_def parse_base_def resolveBase_def bind_run_def sample_document_def)
  moreover have "parseISODuration (dl_scaled plain_lib) [] = Some 0" by (simp add: parseISODuration_def)
  ultimately show ?thesis
    using sample_timings r(2)
    by (simp add: mpd_Parse_def sample_document_def parseOptionalTime_def maxPeriods_def bind_run_def)
qed

theorem parsed_manifest_is_well_addressed_witness:
  "\<exists>mpd. mpd_Parse plain_lib ''h/'' sample_document = Some (Inr mpd) \<and> mpd_Representations mpd \<noteq> [] \<and>
     mpd_PeriodCount mpd = int (length (mpd_Periods mpd)) \<and> list_all (of_period (mpd_Periods mpd)) (mpd_Representations mpd)"
proof -
  obtain mpd where mpd: "mpd_Parse plain_lib ''h/'' sample_document = Some (Inr mpd)" using sample_document_parsed by auto
  from mpd parsed_manifest_is_well_addressed [OF mpd] show ?thesis by (intro exI [of _ mpd]) simp
qed
end
