(* ===== verification/DashResume.thy ===== *)
theory DashResume
  imports DashManifest Digest
begin

text \<open>
  The identity under which a DASH fragment is resumed (\<open>internal/protocol/dash/downloader.go\<close>): the structural facts of a fragment, the
  checks that keep URLs and credentials out of them, the canonical text that is hashed into the scale of a fragment, and
  \<open>staticScale\<close>. A callback that proves remote equivalence is an argument.
\<close>

section \<open>Identities\<close>

record FragmentIdentity =
  fi_RepresentationID :: string
  fi_PeriodIndex :: int
  fi_Addressing :: string
  fi_Initialize :: bool
  fi_RangeStart :: i64
  fi_RangeLength :: i64
  fi_Sequence :: i64
  fi_Timeline :: i64
  fi_Index :: int
  fi_ProviderTrackIdentity :: string
  fi_PeriodID :: string
  fi_PeriodStartNanos :: i64
  fi_PeriodDurationNanos :: i64
  fi_PeriodTimingKnown :: bool
  fi_AdaptationSetID :: string
  fi_ContentType :: string
  fi_MimeType :: string
  fi_Codecs :: string
  fi_Language :: string
  fi_FrameRate :: string
  fi_AudioRate :: string
  fi_Bandwidth :: i64
  fi_Width :: int
  fi_Height :: int
  fi_NumberTimeRole :: string
  fi_Timescale :: i64
  fi_PresentationTimeOffset :: i64
  fi_StartNumber :: i64
  fi_SegmentDuration :: i64
  fi_TemplateGrammar :: string
  fi_TimelineGrammar :: string
  fi_InitializationIdentity :: string
  fi_InitializationRangeStart :: i64
  fi_InitializationRangeLength :: i64
  fi_IndexRangeStart :: i64
  fi_IndexRangeLength :: i64
  fi_CanonicalComplete :: bool

record Scale =
  sc_Key :: string
  sc_Kind :: string
  sc_Value :: string
  sc_Scope :: string

section \<open>Fields that are safe to keep\<close>

text \<open>\<open>unicode.IsControl\<close> of some rune of a valid UTF-8 text: U+0000 to U+001F and U+007F to U+009F.\<close>

fun has_control :: "string \<Rightarrow> bool" where
  "has_control [] = False"
| "has_control (c # s) =
     ((of_char c :: nat) < 32 \<or> (of_char c :: nat) = 127 \<or>
      ((of_char c :: nat) = 0xC2 \<and> s \<noteq> [] \<and> 0x80 \<le> (of_char (hd s) :: nat) \<and> (of_char (hd s) :: nat) < 0xA0) \<or> has_control s)"

definition valid_string :: "string \<Rightarrow> bool" where
  "valid_string s = utf8_Valid (bytes_of s)"

text \<open>A rune outside ASCII is refused by the loops over the runes, and so is each of its bytes here.\<close>

definition grammar_char :: "string \<Rightarrow> char \<Rightarrow> bool" where
  "grammar_char punctuation c \<longleftrightarrow> is_alnum c \<or> c \<in> set punctuation"

definition safeDASHGeneratedGrammar :: "string \<Rightarrow> bool" where
  "safeDASHGeneratedGrammar s =
     (if s = [] \<or> length s > 4096 \<or> \<not> valid_string s \<or> has_control s \<or> Contains s ''://'' \<or> ContainsAny s (''/'' @ [CHR 0x5C] @ ''?@#& '')
      then False else list_all (grammar_char ''._:-+=;'') s)"

definition safeDASHGrammar :: "string \<Rightarrow> bool" where
  "safeDASHGrammar s =
     (if s = [] \<or> length s > 4096 \<or> \<not> valid_string s \<or> has_control s \<or> Contains s ''://'' \<or> ContainsAny s (''/'' @ [CHR 0x5C] @ ''?@#&= '')
      then False else list_all (grammar_char ''._:-+'') s)"

definition safeDASHCanonicalField :: "string \<Rightarrow> bool \<Rightarrow> bool" where
  "safeDASHCanonicalField s allowEmpty =
     (if (\<not> allowEmpty \<and> s = []) \<or> length s > 4096 \<or> \<not> valid_string s \<or> has_control s then False
      else \<not> ContainsAny s ('':/'' @ [CHR 0x5C] @ ''?@#&=''))"

definition safeDASHMIME :: "string \<Rightarrow> bool" where
  "safeDASHMIME s =
     (if s = [] then True
      else if length s > 255 \<or> CountByte s (CHR ''/'') \<noteq> 1 \<or> ContainsAny s ('':'' @ [CHR 0x5C] @ ''?@#&= '') then False
      else list_all (grammar_char ''/.+-'') s)"

definition dashCanonicalFieldsSafe :: "FragmentIdentity \<Rightarrow> bool" where
  "dashCanonicalFieldsSafe i =
     (safeDASHGrammar (fi_ProviderTrackIdentity i) \<and>
      list_all (\<lambda>s. safeDASHCanonicalField s False) [fi_AdaptationSetID i, fi_RepresentationID i, fi_Addressing i, fi_NumberTimeRole i] \<and>
      list_all safeDASHGeneratedGrammar [fi_TemplateGrammar i, fi_TimelineGrammar i] \<and>
      safeDASHGrammar (fi_InitializationIdentity i) \<and>
      (fi_PeriodID i \<noteq> [] \<longrightarrow> safeDASHCanonicalField (fi_PeriodID i) False) \<and>
      list_all (\<lambda>s. safeDASHCanonicalField s True) [fi_ContentType i, fi_Codecs i, fi_Language i, fi_FrameRate i, fi_AudioRate i] \<and>
      safeDASHMIME (fi_MimeType i))"

definition validProviderTrackIdentity :: "string \<Rightarrow> bool" where
  "validProviderTrackIdentity s =
     (if s = [] \<or> length s > 256 then False
      else list_all (grammar_char ''._:-'') s \<and> s \<noteq> ''.'' \<and> s \<noteq> ''..'')"

section \<open>Canonical text\<close>

definition show_bool :: "bool \<Rightarrow> string" where
  "show_bool b = (if b then ''true'' else ''false'')"

text \<open>A format is the list of its literal pieces, each in front of one argument.\<close>

definition Sprintf :: "string list \<Rightarrow> string list \<Rightarrow> string" where
  "Sprintf pieces arguments = concat (map2 (@) pieces arguments)"

definition representation_format :: "string list" where
  "representation_format =
     [''v=3|provider='', ''|period-id='', ''|period-index='', ''|period-start='', ''|period-duration='', ''|timing='', ''|adaptation='',
      ''|representation='', ''|content='', ''|mime='', ''|codecs='', ''|lang='', ''|frame-rate='', ''|audio-rate='', ''|bw='',
      ''|dimensions='', ''x'', ''|addressing='', ''|role='', ''|timescale='', ''|pto='', ''|start='', ''|segment-duration='', ''|template='',
      ''|timeline='', ''|init='', '':'', '':'', ''|index='', '':'']"

definition representation_arguments :: "FragmentIdentity \<Rightarrow> string list" where
  "representation_arguments i =
     [fi_ProviderTrackIdentity i, fi_PeriodID i, Itoa (fi_PeriodIndex i), Itoa (fi_PeriodStartNanos i), Itoa (fi_PeriodDurationNanos i),
      show_bool (fi_PeriodTimingKnown i), fi_AdaptationSetID i, fi_RepresentationID i, fi_ContentType i, fi_MimeType i, fi_Codecs i,
      fi_Language i, fi_FrameRate i, fi_AudioRate i, Itoa (fi_Bandwidth i), Itoa (fi_Width i), Itoa (fi_Height i), fi_Addressing i,
      fi_NumberTimeRole i, Itoa (fi_Timescale i), Itoa (fi_PresentationTimeOffset i), Itoa (fi_StartNumber i), Itoa (fi_SegmentDuration i),
      fi_TemplateGrammar i, fi_TimelineGrammar i, fi_InitializationIdentity i, Itoa (fi_InitializationRangeStart i),
      Itoa (fi_InitializationRangeLength i), Itoa (fi_IndexRangeStart i), Itoa (fi_IndexRangeLength i)]"

definition dashRepresentationCanonical :: "FragmentIdentity \<Rightarrow> string" where
  "dashRepresentationCanonical i = Sprintf representation_format (representation_arguments i)"

definition fragment_format :: "string list" where
  "fragment_format = [[], ''|init='', ''|range='', '':'', ''|number='', ''|time='', ''|index='']"

definition dashFragmentCanonical :: "FragmentIdentity \<Rightarrow> string" where
  "dashFragmentCanonical i =
     Sprintf fragment_format
       [dashRepresentationCanonical i, show_bool (fi_Initialize i), Itoa (fi_RangeStart i), Itoa (fi_RangeLength i), Itoa (fi_Sequence i),
        Itoa (fi_Timeline i), Itoa (fi_Index i)]"

section \<open>Scales\<close>

definition text_digest :: "string \<Rightarrow> string" where
  "text_digest s = hex_EncodeToString (Sum256 (bytes_of s))"

definition dashSafeRestartScale :: "string \<Rightarrow> Scale" where
  "dashSafeRestartScale reason =
     \<lparr>sc_Key = text_digest (''dash-v2-restart-key:'' @ reason), sc_Kind = [], sc_Value = [],
      sc_Scope = text_digest (''dash-v2-restart-scope:'' @ reason)\<rparr>"

definition canonicalDASHProofDigest :: "string \<Rightarrow> bool" where
  "canonicalDASHProofDigest s = (if length s \<noteq> 64 \<or> s \<noteq> ToLower s then False else hex_DecodeString s \<noteq> None)"

definition validDASHProof :: "Scale \<Rightarrow> bool" where
  "validDASHProof proof_scale =
     (if sc_Kind proof_scale \<noteq> ''provider-immutable'' \<and> sc_Kind proof_scale \<noteq> ''content-identity'' then False
      else canonicalDASHProofDigest (sc_Value proof_scale) \<and> canonicalDASHProofDigest (sc_Scope proof_scale))"

text \<open>The callback is \<open>None\<close> when it is nil; its own result is \<open>None\<close> when it reports that it has no proof.\<close>

definition staticScale :: "(FragmentIdentity \<Rightarrow> Scale option) option \<Rightarrow> FragmentIdentity \<Rightarrow> Scale" where
  "staticScale equivalenceProof i =
     (if \<not> fi_CanonicalComplete i \<or> \<not> dashCanonicalFieldsSafe i then dashSafeRestartScale ''incomplete''
      else let scale = \<lparr>sc_Key = text_digest (dashFragmentCanonical i), sc_Kind = [], sc_Value = [],
                        sc_Scope = text_digest (dashRepresentationCanonical i)\<rparr>
      in (case equivalenceProof of
            None \<Rightarrow> scale
          | Some callback \<Rightarrow>
              (case callback i of
                 None \<Rightarrow> scale
               | Some p \<Rightarrow>
                   if validDASHProof p then scale\<lparr>sc_Kind := sc_Kind p, sc_Value := sc_Value p, sc_Scope := sc_Scope p\<rparr> else scale)))"

text \<open>The identity of one segment of a plan (\<open>downloadSegments\<close>).\<close>

definition fragment_identity :: "string \<Rightarrow> Representation \<Rightarrow> int \<Rightarrow> nat \<Rightarrow> Segment \<Rightarrow> FragmentIdentity" where
  "fragment_identity provider r periodIndex index segment =
     (let resume = rp_Resume r
      in \<lparr>fi_RepresentationID = rp_ID r, fi_PeriodIndex = periodIndex, fi_Addressing = rp_Addressing r,
          fi_Initialize = sg_Initialize segment, fi_RangeStart = sg_RangeStart segment, fi_RangeLength = sg_RangeLength segment,
          fi_Sequence = sg_Sequence segment, fi_Timeline = sg_Timeline segment, fi_Index = int index,
          fi_ProviderTrackIdentity = provider, fi_PeriodID = rs_PeriodID resume, fi_PeriodStartNanos = rs_PeriodStartNanos resume,
          fi_PeriodDurationNanos = rs_PeriodDurationNanos resume, fi_PeriodTimingKnown = rs_PeriodTimingKnown resume,
          fi_AdaptationSetID = rs_AdaptationSetID resume, fi_ContentType = rp_ContentType r, fi_MimeType = rp_MimeType r,
          fi_Codecs = rp_Codecs r, fi_Language = rp_Language r, fi_FrameRate = rs_FrameRate resume, fi_AudioRate = rs_AudioRate resume,
          fi_Bandwidth = rp_Bandwidth r, fi_Width = rp_Width r, fi_Height = rp_Height r, fi_NumberTimeRole = rs_NumberTimeRole resume,
          fi_Timescale = rs_Timescale resume, fi_PresentationTimeOffset = rs_PresentationTimeOffset resume,
          fi_StartNumber = rs_StartNumber resume, fi_SegmentDuration = rs_SegmentDuration resume,
          fi_TemplateGrammar = rs_TemplateGrammar resume, fi_TimelineGrammar = rs_TimelineGrammar resume,
          fi_InitializationIdentity = rs_InitializationIdentity resume,
          fi_InitializationRangeStart = rs_InitializationRangeStart resume, fi_InitializationRangeLength = rs_InitializationRangeLength resume,
          fi_IndexRangeStart = rs_IndexRangeStart resume, fi_IndexRangeLength = rs_IndexRangeLength resume,
          fi_CanonicalComplete = rs_Complete resume\<rparr>)"

text \<open>\<open>resumeStructureComplete\<close>\<close>

definition resumeStructureComplete :: "Representation \<Rightarrow> bool" where
  "resumeStructureComplete r \<longleftrightarrow>
     rp_ID r \<noteq> [] \<and> rs_Complete (rp_Resume r) \<and> rs_AddressingMode (rp_Resume r) = rp_Addressing r \<and>
     dashCanonicalFieldsSafe (fragment_identity ''canonical-provider'' r 0 0 (url_segment []))"

section \<open>Delimited texts\<close>

lemma first_stop:
  assumes "v @ k @ r = v' @ k @ r'" and "c \<in> set k" "c \<notin> set v" "c \<notin> set v'"
  shows "v = v' \<and> r = r'"
proof -
  from assms(2) obtain pre post where k: "k = pre @ c # post" "c \<notin> set pre" by (meson split_list_first)
  have "takeWhile (\<lambda>d. d \<noteq> c) (w @ k @ x) = w @ pre" if "c \<notin> set w" for w x
    using that k by (auto simp: takeWhile_append)
  from this [OF assms(3)] this [OF assms(4)] assms(1) have "v = v'" by (metis append_same_eq)
  with assms(1) show ?thesis by simp
qed

fun stops :: "string list \<Rightarrow> char list \<Rightarrow> string list \<Rightarrow> bool" where
  "stops (p # q # ps) (c # cs) (a # as) = (c \<in> set q \<and> c \<notin> set a \<and> stops (q # ps) cs as)"
| "stops [p] cs [a] = True"
| "stops _ _ _ = False"

lemma stops_nonempty: "stops (p # ps) cs as \<Longrightarrow> \<exists>a as'. as = a # as'"
  by (cases as) auto

text \<open>A text is read back from a format when every argument avoids some character of the piece that follows it.\<close>

lemma Sprintf_inject:
  "stops ps cs as \<Longrightarrow> stops ps cs bs \<Longrightarrow> Sprintf ps as = Sprintf ps bs \<Longrightarrow> as = bs"
proof (induction ps cs as arbitrary: bs rule: stops.induct)
  case (1 p q ps c cs a as)
  from "1.prems"(2) obtain b bs' where bs: "bs = b # bs'" by (cases bs) auto
  from 1 bs obtain x xs y ys where as: "as = x # xs" and bs': "bs' = y # ys" by (metis stops.simps(1) stops_nonempty)
  from "1.prems"(3) have "a @ q @ (x @ Sprintf ps xs) = b @ q @ (y @ Sprintf ps ys)"
    by (simp add: Sprintf_def bs as bs')
  with "1.prems"(1,2) have "a = b" and "x @ Sprintf ps xs = y @ Sprintf ps ys"
    using first_stop [of a q "x @ Sprintf ps xs" b "y @ Sprintf ps ys" c] by (auto simp: bs)
  then have "Sprintf (q # ps) as = Sprintf (q # ps) bs'" by (simp add: Sprintf_def as bs')
  with "1.IH" [of bs'] "1.prems"(1,2) \<open>a = b\<close> show ?case by (simp add: bs)
next
  case (2 p cs a)
  then show ?case by (cases bs; cases "tl bs") (auto simp: Sprintf_def)
qed simp_all

lemma last_colon:
  assumes "x @ '':'' @ d = x' @ '':'' @ d'" and "CHR '':'' \<notin> set d" "CHR '':'' \<notin> set d'"
  shows "x = x' \<and> d = d'"
proof -
  from assms(1) have "rev d @ '':'' @ rev x = rev d' @ '':'' @ rev x'"
    by (metis append.assoc rev_append rev_singleton_conv)
  from first_stop [OF this, of "CHR '':''"] assms(2,3) show ?thesis by simp
qed

lemma Itoa_no [simp]:
  "CHR ''|'' \<notin> set (Itoa n)" "CHR ''='' \<notin> set (Itoa n)" "CHR '':'' \<notin> set (Itoa n)" "CHR ''x'' \<notin> set (Itoa n)"
  using Itoa_plain [of "CHR ''|''" n] Itoa_plain [of "CHR ''=''" n] Itoa_plain [of "CHR '':''" n] Itoa_plain [of "CHR ''x''" n] by auto

lemma show_bool_simps [simp]:
  "CHR ''|'' \<notin> set (show_bool b)" "CHR ''='' \<notin> set (show_bool b)" "show_bool a = show_bool b \<longleftrightarrow> a = b"
  by (simp_all add: show_bool_def)

lemma grammar_char_absent: "list_all (grammar_char p) s \<Longrightarrow> \<not> grammar_char p c \<Longrightarrow> c \<notin> set s"
  by (auto simp: list_all_iff)

lemma ContainsAny_absent: "\<not> ContainsAny s chars \<Longrightarrow> c \<in> set chars \<Longrightarrow> c \<notin> set s"
  by (auto simp: ContainsAny_def list_ex_iff)

lemma not_grammar_char [simp]:
  "\<not> grammar_char ''._:-+'' (CHR ''='')" "\<not> grammar_char ''._:-+'' (CHR ''|'')" "\<not> grammar_char ''._:-+=;'' (CHR ''|'')"
  by (simp_all add: grammar_char_def is_alnum_def)

lemma safe_no_stop:
  "safeDASHGrammar s \<Longrightarrow> CHR ''='' \<notin> set s" "safeDASHGrammar s \<Longrightarrow> CHR ''|'' \<notin> set s"
  "safeDASHGeneratedGrammar s \<Longrightarrow> CHR ''|'' \<notin> set s"
  "safeDASHCanonicalField s e \<Longrightarrow> CHR ''='' \<notin> set s" "safeDASHMIME s \<Longrightarrow> CHR ''='' \<notin> set s"
proof -
  show "safeDASHGrammar s \<Longrightarrow> CHR ''='' \<notin> set s" "safeDASHGrammar s \<Longrightarrow> CHR ''|'' \<notin> set s"
    unfolding safeDASHGrammar_def by (meson grammar_char_absent not_grammar_char(1,2))+
  show "safeDASHGeneratedGrammar s \<Longrightarrow> CHR ''|'' \<notin> set s"
    unfolding safeDASHGeneratedGrammar_def by (meson grammar_char_absent not_grammar_char(3))
  have eq: "CHR ''='' \<in> set ('':/'' @ [CHR 0x5C] @ ''?@#&='')" "CHR ''='' \<in> set ('':'' @ [CHR 0x5C] @ ''?@#&= '')" by simp_all
  show "safeDASHCanonicalField s e \<Longrightarrow> CHR ''='' \<notin> set s"
    unfolding safeDASHCanonicalField_def using ContainsAny_absent [OF _ eq(1)] by meson
  show "safeDASHMIME s \<Longrightarrow> CHR ''='' \<notin> set s"
    unfolding safeDASHMIME_def using ContainsAny_absent [OF _ eq(2)] by (cases "s = []") (simp, meson)
qed

section \<open>The canonical text determines the identity\<close>

text \<open>The format of a fragment with the initialization as one argument, and a character that ends each argument.\<close>

definition flat_format :: "string list" where
  "flat_format =
     [''v=3|provider='', ''|period-id='', ''|period-index='', ''|period-start='', ''|period-duration='', ''|timing='', ''|adaptation='',
      ''|representation='', ''|content='', ''|mime='', ''|codecs='', ''|lang='', ''|frame-rate='', ''|audio-rate='', ''|bw='',
      ''|dimensions='', ''x'', ''|addressing='', ''|role='', ''|timescale='', ''|pto='', ''|start='', ''|segment-duration='', ''|template='',
      ''|timeline='', ''|init='', ''|index='', '':'', ''|init='', ''|range='', '':'', ''|number='', ''|time='', ''|index='']"

definition flat_stops :: string where
  "flat_stops = ''==||||========|x|==|||||||:||:|||''"

definition initialization_text :: "FragmentIdentity \<Rightarrow> string" where
  "initialization_text i =
     (fi_InitializationIdentity i @ '':'' @ Itoa (fi_InitializationRangeStart i)) @ '':'' @ Itoa (fi_InitializationRangeLength i)"

definition flat_arguments :: "FragmentIdentity \<Rightarrow> string list" where
  "flat_arguments i =
     [fi_ProviderTrackIdentity i, fi_PeriodID i, Itoa (fi_PeriodIndex i), Itoa (fi_PeriodStartNanos i), Itoa (fi_PeriodDurationNanos i),
      show_bool (fi_PeriodTimingKnown i), fi_AdaptationSetID i, fi_RepresentationID i, fi_ContentType i, fi_MimeType i, fi_Codecs i,
      fi_Language i, fi_FrameRate i, fi_AudioRate i, Itoa (fi_Bandwidth i), Itoa (fi_Width i), Itoa (fi_Height i), fi_Addressing i,
      fi_NumberTimeRole i, Itoa (fi_Timescale i), Itoa (fi_PresentationTimeOffset i), Itoa (fi_StartNumber i), Itoa (fi_SegmentDuration i),
      fi_TemplateGrammar i, fi_TimelineGrammar i, initialization_text i, Itoa (fi_IndexRangeStart i), Itoa (fi_IndexRangeLength i),
      show_bool (fi_Initialize i), Itoa (fi_RangeStart i), Itoa (fi_RangeLength i), Itoa (fi_Sequence i), Itoa (fi_Timeline i), Itoa (fi_Index i)]"

lemma dashFragmentCanonical_flat: "dashFragmentCanonical i = Sprintf flat_format (flat_arguments i)"
  by (simp add: dashFragmentCanonical_def fragment_format_def dashRepresentationCanonical_def representation_format_def
      representation_arguments_def flat_format_def flat_arguments_def initialization_text_def Sprintf_def)

lemma safe_fields:
  assumes "dashCanonicalFieldsSafe i"
  shows "CHR ''='' \<notin> set (fi_ProviderTrackIdentity i)" "CHR ''='' \<notin> set (fi_PeriodID i)" "CHR ''='' \<notin> set (fi_AdaptationSetID i)"
    "CHR ''='' \<notin> set (fi_RepresentationID i)" "CHR ''='' \<notin> set (fi_ContentType i)" "CHR ''='' \<notin> set (fi_MimeType i)"
    "CHR ''='' \<notin> set (fi_Codecs i)" "CHR ''='' \<notin> set (fi_Language i)" "CHR ''='' \<notin> set (fi_FrameRate i)"
    "CHR ''='' \<notin> set (fi_AudioRate i)" "CHR ''='' \<notin> set (fi_Addressing i)" "CHR ''='' \<notin> set (fi_NumberTimeRole i)"
    "CHR ''|'' \<notin> set (fi_TemplateGrammar i)" "CHR ''|'' \<notin> set (fi_TimelineGrammar i)" "CHR ''|'' \<notin> set (initialization_text i)"
  using assms safe_no_stop by (auto simp: dashCanonicalFieldsSafe_def initialization_text_def)

lemma flat_stops_safe: "dashCanonicalFieldsSafe i \<Longrightarrow> stops flat_format flat_stops (flat_arguments i)"
  by (simp add: flat_format_def flat_stops_def flat_arguments_def safe_fields)

lemma initialization_text_inject:
  assumes "initialization_text a = initialization_text b"
  shows "fi_InitializationIdentity a = fi_InitializationIdentity b \<and> fi_InitializationRangeStart a = fi_InitializationRangeStart b \<and>
    fi_InitializationRangeLength a = fi_InitializationRangeLength b"
proof -
  from last_colon [OF assms [unfolded initialization_text_def]]
  have "fi_InitializationIdentity a @ '':'' @ Itoa (fi_InitializationRangeStart a) = fi_InitializationIdentity b @ '':'' @ Itoa (fi_InitializationRangeStart b)"
    and "Itoa (fi_InitializationRangeLength a) = Itoa (fi_InitializationRangeLength b)" by simp_all
  from last_colon [OF this(1)] this(2) show ?thesis by (simp add: Itoa_inject)
qed

lemma canonical_text_inject:
  assumes "dashCanonicalFieldsSafe a" and "dashCanonicalFieldsSafe b" and "fi_CanonicalComplete a" and "fi_CanonicalComplete b"
    and "dashFragmentCanonical a = dashFragmentCanonical b"
  shows "a = b"
proof -
  have "flat_arguments a = flat_arguments b"
    using Sprintf_inject [OF flat_stops_safe [OF assms(1)] flat_stops_safe [OF assms(2)]] assms(5)
    by (simp add: dashFragmentCanonical_flat)
  then show ?thesis
    using initialization_text_inject [of a b] assms(3,4)
    by (simp add: flat_arguments_def Itoa_inject FragmentIdentity.equality)
qed

lemma hex_EncodeToString_inject: "hex_EncodeToString x = hex_EncodeToString y \<Longrightarrow> x = y"
  by (metis hex_Decode_Encode option.inject)

lemma staticScale_key:
  "fi_CanonicalComplete i \<Longrightarrow> dashCanonicalFieldsSafe i \<Longrightarrow> sc_Key (staticScale equivalenceProof i) = text_digest (dashFragmentCanonical i)"
  by (simp add: staticScale_def Let_def split: option.splits)

text \<open>
  C40. The key under which a fragment is kept in the resume ledger identifies it. Two identities that are complete and pass the safety
  check share a key only when they are equal or when two different texts have the same SHA-256 digest: whatever
  identifiers, codecs and languages a manifest contains, no value can imitate the separators of the canonical text, and no
  callback can change a key.
\<close>

theorem scale_key_identifies_fragment:
  assumes "dashCanonicalFieldsSafe a" and "dashCanonicalFieldsSafe b" and "fi_CanonicalComplete a" and "fi_CanonicalComplete b"
    and "sc_Key (staticScale equivalenceProof a) = sc_Key (staticScale equivalenceProof' b)"
  shows "a = b \<or> (bytes_of (dashFragmentCanonical a) \<noteq> bytes_of (dashFragmentCanonical b) \<and>
    Sum256 (bytes_of (dashFragmentCanonical a)) = Sum256 (bytes_of (dashFragmentCanonical b)))"
proof -
  have "Sum256 (bytes_of (dashFragmentCanonical a)) = Sum256 (bytes_of (dashFragmentCanonical b))"
    using assms by (auto simp: staticScale_key text_digest_def intro: hex_EncodeToString_inject)
  moreover have "a = b" if "bytes_of (dashFragmentCanonical a) = bytes_of (dashFragmentCanonical b)"
    using canonical_text_inject [OF assms(1-4)] that by (metis str_of_bytes_of)
  ultimately show ?thesis by blast
qed

definition sample_identity :: FragmentIdentity where
  "sample_identity =
     \<lparr>fi_RepresentationID = ''v|lang'', fi_PeriodIndex = 0, fi_Addressing = ''template'', fi_Initialize = False, fi_RangeStart = 0,
      fi_RangeLength = 0, fi_Sequence = 1, fi_Timeline = 0, fi_Index = 0, fi_ProviderTrackIdentity = ''provider:track:v1'', fi_PeriodID = ''p'',
      fi_PeriodStartNanos = 0, fi_PeriodDurationNanos = 0, fi_PeriodTimingKnown = False, fi_AdaptationSetID = ''a'', fi_ContentType = [],
      fi_MimeType = ''video/mp4'', fi_Codecs = [], fi_Language = [], fi_FrameRate = [], fi_AudioRate = [], fi_Bandwidth = 1000, fi_Width = 0,
      fi_Height = 0, fi_NumberTimeRole = ''number'', fi_Timescale = 1, fi_PresentationTimeOffset = 0, fi_StartNumber = 1,
      fi_SegmentDuration = 2, fi_TemplateGrammar = ''Number;init=none'', fi_TimelineGrammar = ''none'', fi_InitializationIdentity = ''none'',
      fi_InitializationRangeStart = 0, fi_InitializationRangeLength = 0, fi_IndexRangeStart = 0, fi_IndexRangeLength = 0,
      fi_CanonicalComplete = True\<rparr>"

lemma sample_identity_safe: "dashCanonicalFieldsSafe sample_identity"
  by code_simp

text \<open>A callback without a proof does not change the key.\<close>

theorem scale_key_identifies_fragment_witness:
  "dashCanonicalFieldsSafe sample_identity \<and>
   sc_Key (staticScale None sample_identity) = sc_Key (staticScale (Some (\<lambda>i. None)) sample_identity) \<and>
   (sample_identity = sample_identity \<or>
     (bytes_of (dashFragmentCanonical sample_identity) \<noteq> bytes_of (dashFragmentCanonical sample_identity) \<and>
      Sum256 (bytes_of (dashFragmentCanonical sample_identity)) = Sum256 (bytes_of (dashFragmentCanonical sample_identity))))"
proof (intro conjI)
  have complete: "fi_CanonicalComplete sample_identity" by (simp add: sample_identity_def)
  show safe: "dashCanonicalFieldsSafe sample_identity" by (rule sample_identity_safe)
  show key: "sc_Key (staticScale None sample_identity) = sc_Key (staticScale (Some (\<lambda>i. None)) sample_identity)"
    by (simp add: staticScale_key complete safe)
  show "sample_identity = sample_identity \<or>
     (bytes_of (dashFragmentCanonical sample_identity) \<noteq> bytes_of (dashFragmentCanonical sample_identity) \<and>
      Sum256 (bytes_of (dashFragmentCanonical sample_identity)) = Sum256 (bytes_of (dashFragmentCanonical sample_identity)))"
    by (rule scale_key_identifies_fragment [OF safe safe complete complete key])
qed

section \<open>Grammars without text of a URL\<close>

abbreviation generated_char :: "char \<Rightarrow> bool" where
  "generated_char \<equiv> grammar_char ''._:-+=;''"

lemma generated_literals [simp]:
  "list_all generated_char ''none''" "list_all generated_char ''invalid''" "list_all generated_char ''literal-free''"
  "list_all generated_char ''+''" "list_all generated_char '';''" "list_all generated_char ''-w''" "list_all generated_char '';init=''"
  "list_all generated_char ''t''" "list_all generated_char ''implicit''" "list_all generated_char ''-d''" "list_all generated_char ''-r''"
  by (simp_all add: grammar_char_def is_alnum_def)

lemma name_text_generated [simp]: "list_all generated_char (name_text n)"
  by (cases n) (simp_all add: grammar_char_def is_alnum_def)

lemma Join_generated:
  "list_all (list_all generated_char) ss \<Longrightarrow> list_all generated_char sep \<Longrightarrow> list_all generated_char (Join ss sep)"
  by (induction ss sep rule: Join.induct) auto

lemma digit_generated: "is_digit c \<Longrightarrow> generated_char c"
  by (simp add: grammar_char_def is_alnum_def is_digit_def)

lemma minus_generated: "generated_char (CHR ''-'')"
  by (simp add: grammar_char_def)

lemma Itoa_generated: "list_all generated_char (Itoa n)"
proof -
  have "generated_char c" if "c \<in> set (Itoa n)" for c
    using Itoa_plain [OF that] by (elim disjE) (simp_all add: digit_generated is_digit_def minus_generated)
  then show ?thesis by (simp add: list_all_iff)
qed

lemma match_width_digits: "match_width s = Some (width, rest) \<Longrightarrow> list_all is_digit width"
  by (auto simp: match_width_def Let_def list_all_iff split: if_splits dest: set_takeWhileD)

lemma match_names_digits: "match_names ns s = Some (n, width, rest) \<Longrightarrow> list_all is_digit width"
  by (induction ns) (auto split: option.splits if_splits dest: match_width_digits)

lemma find_tokens_digits: "list_all (\<lambda>m. list_all is_digit (snd m)) (find_tokens s)"
proof (induction s rule: find_tokens.induct)
  case (2 c s)
  then show ?case
    by (auto simp: match_token_def split: option.splits if_splits dest: match_names_digits)
qed simp

lemma digits_generated: "list_all is_digit s \<Longrightarrow> list_all generated_char s"
  by (induction s) (simp_all add: digit_generated)

lemma token_grammar_generated: "list_all is_digit (snd m) \<Longrightarrow> list_all generated_char (token_grammar m)"
  using digits_generated [of "snd m"] by (cases "snd m = []") (simp_all add: token_grammar_def minus_generated grammar_char_def is_alnum_def)

lemma canonicalTemplateGrammar_generated: "list_all generated_char (canonicalTemplateGrammar s)"
proof -
  have "list_all (list_all generated_char) (map token_grammar (find_tokens (replace_dollars [] s)))"
    using find_tokens_digits [of "replace_dollars [] s"] by (auto simp: list_all_iff intro!: token_grammar_generated [unfolded list_all_iff])
  from Join_generated [OF this generated_literals(4)] show ?thesis
    unfolding canonicalTemplateGrammar_def Let_def using generated_literals(1-3) by presburger
qed

lemma entry_grammar_generated: "list_all generated_char (entry_grammar e)"
proof -
  have "list_all generated_char (case te_Time e of None \<Rightarrow> ''implicit'' | Some t \<Rightarrow> Itoa t)"
    using generated_literals(9) Itoa_generated by (cases "te_Time e") auto
  then show ?thesis
    unfolding entry_grammar_def list_all_append using generated_literals(8,10,11) Itoa_generated by blast
qed

lemma canonicalTimelineGrammar_generated: "list_all generated_char (canonicalTimelineGrammar es)"
proof -
  have "list_all (list_all generated_char) (map entry_grammar es)" using entry_grammar_generated by (simp add: list_all_iff)
  from Join_generated [OF this generated_literals(5)] show ?thesis
    unfolding canonicalTimelineGrammar_def using generated_literals(1,2) by presburger
qed

lemma generated_char_plain:
  assumes "generated_char c"
  shows "32 < (of_char c :: nat) \<and> (of_char c :: nat) < 127"
    and "c \<notin> set (''/'' @ [CHR 0x5C] @ ''?@#& '')"
  using assms by (auto simp: grammar_char_def is_alnum_def Let_def)

lemma utf8_Valid_ascii: "list_all (\<lambda>b. b < 0x80) bs \<Longrightarrow> utf8_Valid bs"
  by (induction bs) simp_all

lemma ascii_byte:
  assumes "(of_char c :: nat) < 127"
  shows "(word_of_nat (of_char c) :: byte) < 0x80"
proof -
  have "unat (word_of_nat (of_char c) :: byte) = of_char c" using assms by (simp add: unat_of_nat take_bit_nat_eq_self)
  then show ?thesis using assms by (simp add: word_less_nat_alt)
qed

lemma generated_valid: "list_all generated_char s \<Longrightarrow> valid_string s"
  using generated_char_plain(1) ascii_byte
  by (auto simp: valid_string_def bytes_of_def list_all_iff intro!: utf8_Valid_ascii)

lemma generated_no_control: "list_all generated_char s \<Longrightarrow> \<not> has_control s"
proof (induction s)
  case (Cons c s)
  then show ?case using generated_char_plain(1) [of c] by auto
qed simp

lemma Contains_subset: "Contains s p \<Longrightarrow> set p \<subseteq> set s"
proof -
  assume "Contains s p"
  then obtain i where "take (length p) (drop i s) = p" by (auto simp: Contains_def dest!: Index_SomeD)
  then show ?thesis by (metis order_trans set_drop_subset set_take_subset)
qed

lemma generated_safe:
  assumes "list_all generated_char s" and "s \<noteq> []"
  shows "safeDASHGeneratedGrammar s \<longleftrightarrow> length s \<le> 4096"
proof -
  have "c \<notin> set s" if "c \<in> set (''/'' @ [CHR 0x5C] @ ''?@#& '')" for c
    using assms(1) that generated_char_plain(2) by (auto simp only: list_all_iff)
  then have "\<not> ContainsAny s (''/'' @ [CHR 0x5C] @ ''?@#& '')" and slash: "CHR ''/'' \<notin> set s"
    by (auto simp: ContainsAny_def list_ex_iff)
  moreover have "\<not> Contains s ''://''"
    using slash Contains_subset [of s "''://''"] by auto
  ultimately show ?thesis
    using assms generated_valid [OF assms(1)] generated_no_control [OF assms(1)]
    by (simp only: safeDASHGeneratedGrammar_def) auto
qed

lemma Join_nonempty: "ss \<noteq> [] \<Longrightarrow> hd ss \<noteq> [] \<Longrightarrow> Join ss sep \<noteq> []"
  by (cases "(ss, sep)" rule: Join.cases) auto

lemma canonicalTimelineGrammar_nonempty: "canonicalTimelineGrammar es \<noteq> []"
  using Join_nonempty [of "map entry_grammar es" "'';''"]
  by (cases es) (auto simp: canonicalTimelineGrammar_def entry_grammar_def)

text \<open>
  What a checkpoint keeps of the templates of a manifest contains no text of a URL. The grammars of a template and of its timeline
  always consist of the characters that the safety check allows, so that the check refuses them for their length only,
  whatever literal text, credentials or separators the templates contain.
\<close>

theorem resume_grammar_is_url_free:
  "(safeDASHGeneratedGrammar (rs_TemplateGrammar (resumeTemplateStructure v template)) \<longleftrightarrow>
     length (rs_TemplateGrammar (resumeTemplateStructure v template)) \<le> 4096) \<and>
   (safeDASHGeneratedGrammar (rs_TimelineGrammar (resumeTemplateStructure v template)) \<longleftrightarrow>
     length (rs_TimelineGrammar (resumeTemplateStructure v template)) \<le> 4096)"
proof
  let ?t = "canonicalTemplateGrammar (st_Media template) @ '';init='' @ canonicalTemplateGrammar (st_Initialization template)"
  have "list_all generated_char ?t"
    unfolding list_all_append using canonicalTemplateGrammar_generated generated_literals(7) by blast
  from generated_safe [OF this]
  show "safeDASHGeneratedGrammar (rs_TemplateGrammar (resumeTemplateStructure v template)) \<longleftrightarrow>
      length (rs_TemplateGrammar (resumeTemplateStructure v template)) \<le> 4096"
    by (simp add: resumeTemplateStructure_def set_initialization_def finishResumeStructure_def)
  show "safeDASHGeneratedGrammar (rs_TimelineGrammar (resumeTemplateStructure v template)) \<longleftrightarrow>
      length (rs_TimelineGrammar (resumeTemplateStructure v template)) \<le> 4096"
    using generated_safe [OF canonicalTimelineGrammar_generated canonicalTimelineGrammar_nonempty]
    by (simp add: resumeTemplateStructure_def set_initialization_def finishResumeStructure_def)
qed

section \<open>Representations that are never resumed\<close>

lemma address_representation_timeline:
  assumes "address_representation lib base r template xs b baseURL pd = Some (Inr r')" and "rs_TimelineGrammar (rp_Resume r) = []"
    and "rp_Addressing r' \<in> {''segmentbase'', ''segmentbase-sidx'', ''single-file''}"
  shows "rs_TimelineGrammar (rp_Resume r') = []"
  using assms
  by (auto simp: address_representation_def bind_run_Inr_iff addressed_as_def resumeBaseStructure_def resumeSingleFileStructure_def Let_def
      finishResumeStructure_def set_initialization_def split: option.splits if_splits)

text \<open>
  A representation that is a single file or has a segment base is never resumed across runs. Its structure is marked
  complete, but the grammar of its timeline is left empty and the safety check refuses an empty grammar, so that every one of its
  fragments gets the same key, that of an incomplete structure.
\<close>

theorem segment_base_is_never_resumed:
  assumes "mpd_Parse lib base document = Some (Inr mpd)" and "r \<in> set (mpd_Representations mpd)"
    and "rp_Addressing r \<in> {''segmentbase'', ''segmentbase-sidx'', ''single-file''}"
  shows "staticScale equivalenceProof (fragment_identity provider r periodIndex index segment) = dashSafeRestartScale ''incomplete''"
proof -
  have "parsed_from lib (mpd_Periods mpd) r" using mpd_Parse_parsed [OF assms(1)] assms(2) by (simp add: list_all_iff)
  then obtain base' i pd adaptation r0 template xs b where
    r: "address_representation lib base' (normalized_representation i (mpd_Periods mpd ! i) pd adaptation r0) template xs b (rx_BaseURL r0) pd = Some (Inr r)"
    unfolding parsed_from_def by blast
  have "rs_TimelineGrammar (rp_Resume r) = []"
    by (rule address_representation_timeline [OF r _ assms(3)]) (simp add: normalized_representation_def zero_resume_def)
  then show ?thesis
    by (simp add: staticScale_def fragment_identity_def Let_def dashCanonicalFieldsSafe_def safeDASHGeneratedGrammar_def)
qed

theorem segment_base_is_never_resumed_witness:
  "\<exists>mpd r. mpd_Parse plain_lib ''h/'' sample_document = Some (Inr mpd) \<and> mpd_Representations mpd = [r] \<and>
     staticScale None (fragment_identity ''provider'' r 0 0 (url_segment ''h/v.mp4'')) = dashSafeRestartScale ''incomplete''"
proof -
  obtain mpd r where mpd: "mpd_Parse plain_lib ''h/'' sample_document = Some (Inr mpd)" "mpd_Representations mpd = [r]"
    and r: "rp_Addressing r = ''segmentbase-sidx''"
    using sample_document_parsed by blast
  have "r \<in> set (mpd_Representations mpd)" "rp_Addressing r \<in> {''segmentbase'', ''segmentbase-sidx'', ''single-file''}"
    using mpd(2) r by simp_all
  from segment_base_is_never_resumed [OF mpd(1) this] mpd show ?thesis by (intro exI [of _ mpd] exI [of _ r]) simp
qed

end
