(* ===== verification/DashDownload.thy ===== *)
theory DashDownload
  imports DashResume
begin

text \<open>
  A DASH download (\<open>Download\<close>, \<open>load\<close> and \<open>downloadSegments\<close> of \<open>internal/protocol/dash/downloader.go\<close>): from the manifest through selection,
  expansion of indexes and polling to the fragment jobs of every track. The fragment engine, the file system, the decoding of XML and the
  order of maps are an environment that may behave in any way.
\<close>

section \<open>Loading a manifest\<close>

definition maxMPDBytes :: nat where "maxMPDBytes = 16777216"

text \<open>
  \<open>ld_page\<close> is \<open>ReadPage\<close> of the transport, \<open>ld_decode\<close> is \<open>url.Parse\<close> of the manifest URL with \<open>xml.Unmarshal\<close> of the body.
\<close>

record ('w, 'u) load_env =
  ld_index :: "'w index_env"
  ld_page :: "'w \<Rightarrow> string \<Rightarrow> 'w \<times> (net_failure + byte list)"
  ld_lib :: "'u dash_lib"
  ld_decode :: "string \<Rightarrow> byte list \<Rightarrow> ('u \<times> mpdXML) option"

definition bounded_body :: "byte list \<Rightarrow> byte list \<times> dash_error option" where
  "bounded_body body = (if length body > maxMPDBytes then ([], Some DashPageTooLarge) else (body, None))"

definition mpd_request :: "DashConfig \<Rightarrow> string \<Rightarrow> http_request" where
  "mpd_request c manifestURL =
     \<lparr>req_URL = manifestURL, req_Header = fold (\<lambda>(key, values) h. fmupd key values h) (dc_Headers c) fmempty, req_Body = [],
      req_ContentLength = 0\<rparr>"

definition read_mpd :: "index_response \<Rightarrow> byte list \<times> dash_error option" where
  "read_mpd response =
     (if ir_StatusCode response < 200 \<or> ir_StatusCode response \<ge> 300 then
        ([], Some (if RetryableStatus (ir_StatusCode response) then DashRetryable (DashStatus (ir_StatusCode response))
                   else DashStatus (ir_StatusCode response)))
      else (case ReadAll_limited (maxMPDBytes + 1) (ir_Body response) of
              (body, Some f) \<Rightarrow> ([], Some (dashRequestError f (\<not> nf_terminated f)))
            | (body, None) \<Rightarrow> bounded_body body))"

text \<open>\<open>http.NewRequestWithContext\<close> fails when the URL does not parse.\<close>

definition fetchMPDAttempt ::
    "('w, 'u) load_env \<Rightarrow> DashConfig \<Rightarrow> string \<Rightarrow> 'w \<Rightarrow> byte list \<Rightarrow> 'w \<times> byte list \<times> dash_error option" where
  "fetchMPDAttempt env c manifestURL w _ =
     (if dc_Headers c = [] then
        (case ld_page env w manifestURL of
           (w, Inl f) \<Rightarrow> (w, [], Some (dashRequestError f (IsRetryableError f)))
         | (w, Inr body) \<Rightarrow> (w, bounded_body body))
      else if url_Parse manifestURL = None then (w, [], Some DashCreateRequest)
      else (case ie_do (ld_index env) w (mpd_request c manifestURL) of
              (w, Inl f) \<Rightarrow> (w, [], Some (dashRequestError f (IsRetryableError f)))
            | (w, Inr response) \<Rightarrow> (w, read_mpd response)))"

definition first_rejected :: "DashConfig \<Rightarrow> Segment list \<Rightarrow> dash_error option" where
  "first_rejected c segments =
     (case List.find (\<lambda>s. validateURL c (sg_URL s) \<noteq> None) segments of None \<Rightarrow> None | Some s \<Rightarrow> validateURL c (sg_URL s))"

definition validateMPDURLs :: "DashConfig \<Rightarrow> MPD \<Rightarrow> dash_error option" where
  "validateMPDURLs c mpd =
     first_rejected c (concat (map (\<lambda>r. rp_Segments r @ concat (rp_PeriodSegments r)) (mpd_Representations mpd)))"

text \<open>
  Every error of the parser has the sentinel \<open>ErrInvalidMPD\<close> but that of a base URL. A parser that does not end is a load that does
  not return.
\<close>

fun parse_failure :: "mpd_error \<Rightarrow> dash_error" where
  "parse_failure BadBaseURL = DashBadURL"
| "parse_failure _ = ErrInvalidMPD None"

definition load_checked :: "('w, 'u) load_env \<Rightarrow> DashConfig \<Rightarrow> string \<Rightarrow> byte list \<Rightarrow> dash_error + MPD" where
  "load_checked env c manifestURL body =
     (case ld_decode env manifestURL body of
        None \<Rightarrow> Inl (ErrInvalidMPD None)
      | Some (base, document) \<Rightarrow>
          (case mpd_Parse (ld_lib env) base document of
             None \<Rightarrow> Inl DashDiverges
           | Some (Inl e) \<Rightarrow> Inl (parse_failure e)
           | Some (Inr mpd) \<Rightarrow> (case validateMPDURLs c mpd of Some e \<Rightarrow> Inl e | None \<Rightarrow> Inr mpd)))"

definition load :: "('w, 'u) load_env \<Rightarrow> DashConfig \<Rightarrow> 'w \<Rightarrow> string \<Rightarrow> 'w \<times> (dash_error + MPD)" where
  "load env c w manifestURL =
     (case validateURL c manifestURL of
        Some e \<Rightarrow> (w, Inl e)
      | None \<Rightarrow>
          (case retry (ld_index env) c (fetchMPDAttempt env c manifestURL) w [] of
             (w, body, Some e) \<Rightarrow> (w, Inl e)
           | (w, body, None) \<Rightarrow> (w, load_checked env c manifestURL body)))"

section \<open>Configuration and environment\<close>

datatype DynamicMPDPolicy = DynamicMPDPolicyDefaultAllow | DynamicMPDPolicyAllow | DynamicMPDPolicyDeny | OtherPolicy

text \<open>The fields of a checkpoint that DASH passes through: none of them is read here.\<close>

record fragment_checkpoint =
  fc_Directory :: string
  fc_ResumeIdentity :: string
  fc_RequireCoordinatorReset :: bool
  fc_CoordinatorBoundary :: bool

text \<open>The fields of the configuration beside those of \<open>DashConfig\<close>.\<close>

record DashOptions =
  do_DynamicMPDPolicy :: DynamicMPDPolicy
  do_FragmentConcurrency :: int
  do_PerHostConcurrency :: int
  do_MaxSegmentSize :: i64
  do_Checkpoint :: "fragment_checkpoint option"
  do_RequireStaticSingleRepresentation :: bool
  do_EquivalenceProof :: "(FragmentIdentity \<Rightarrow> Scale option) option"
  do_RepresentationIdentity :: string

record fragment_segment =
  fs_URL :: string
  fs_RangeStart :: i64
  fs_RangeLength :: i64
  fs_AES128 :: "(byte list \<times> byte list) option"
  fs_Scale :: "Scale option"

record fragment_job =
  fj_Segments :: "fragment_segment list"
  fj_Headers :: "(string \<times> string list) list"
  fj_OutputRoot :: string
  fj_Destination :: string
  fj_Concurrency :: int
  fj_Attempts :: int
  fj_MaxSegmentSize :: i64
  fj_MaxSegments :: int
  fj_PerHostConcurrency :: int
  fj_RetryBaseDelay :: i64
  fj_RetryMaxDelay :: i64
  fj_Overwrite :: bool
  fj_Checkpoint :: "fragment_checkpoint option"

record fragment_result =
  fr_Path :: string
  fr_Bytes :: i64
  fr_Downloaded :: int
  fr_Reused :: int

definition zero_result :: fragment_result where
  "zero_result = \<lparr>fr_Path = [], fr_Bytes = 0, fr_Downloaded = 0, fr_Reused = 0\<rparr>"

text \<open>
  What writes: \<open>fx_download\<close> is \<open>Download\<close> of the fragment engine, \<open>fx_remove\<close> is \<open>os.Remove\<close>, whose result is ignored. The orders of
  map iterations are given by ranks; \<open>dn_lstat\<close> says whether the path exists, or fails.
\<close>

record 'w fragment_env =
  fx_download :: "'w \<Rightarrow> fragment_job \<Rightarrow> 'w \<times> (nat + fragment_result)"
  fx_remove :: "'w \<Rightarrow> string \<Rightarrow> 'w"

record ('w, 'u) download_env =
  dn_load :: "('w, 'u) load_env"
  dn_ranks :: "'w \<Rightarrow> 'w \<times> (string \<Rightarrow> nat)"
  dn_signature_ranks :: "'w \<Rightarrow> 'w \<times> (representationSignature \<Rightarrow> nat)"
  dn_lstat :: "'w \<Rightarrow> string \<Rightarrow> 'w \<times> bool option"
  dn_fragment :: "'w fragment_env"

definition poll_env_of :: "('w, 'u) download_env \<Rightarrow> DashConfig \<Rightarrow> 'w poll_env" where
  "poll_env_of env c = \<lparr>pl_index = ld_index (dn_load env), pl_load = load (dn_load env) c, pl_ranks = dn_ranks env\<rparr>"

section \<open>The plan\<close>

definition validateDynamicMPDPolicy :: "DynamicMPDPolicy \<Rightarrow> MPD \<Rightarrow> dash_error option" where
  "validateDynamicMPDPolicy policy mpd =
     (case policy of
        DynamicMPDPolicyDefaultAllow \<Rightarrow> None
      | DynamicMPDPolicyAllow \<Rightarrow> None
      | DynamicMPDPolicyDeny \<Rightarrow> if mpd_Dynamic mpd then Some ErrDynamicMPDUnsupported else None
      | OtherPolicy \<Rightarrow> Some ErrInvalidDynamicMPDPolicy)"

definition select_step :: "('w, 'u) download_env \<Rightarrow> 'w \<Rightarrow> MPD \<Rightarrow> 'w \<times> (dash_error + Representation list)" where
  "select_step env w mpd =
     (case dn_ranks env w of
        (w, rank) \<Rightarrow>
          (case dn_signature_ranks env w of
             (w, srank) \<Rightarrow> (w, selectRepresentations (sort_key (\<lambda>e. rank (fst e))) (sort_key srank) mpd)))"

fun expand_periods ::
    "'w index_env \<Rightarrow> DashConfig \<Rightarrow> 'w \<Rightarrow> Segment list list \<Rightarrow> 'w \<times> (dash_error + Segment list list)" where
  "expand_periods env c w [] = (w, Inr [])"
| "expand_periods env c w (segments # rest) =
     (case expandSIDXSegments env c w segments of
        (w, Inl e) \<Rightarrow> (w, Inl e)
      | (w, Inr expanded) \<Rightarrow>
          (case expand_periods env c w rest of
             (w, Inl e) \<Rightarrow> (w, Inl e)
           | (w, Inr periods) \<Rightarrow> (w, Inr (expanded # periods))))"

definition expand_representation ::
    "'w index_env \<Rightarrow> DashConfig \<Rightarrow> 'w \<Rightarrow> Representation \<Rightarrow> 'w \<times> (dash_error + Representation)" where
  "expand_representation env c w r =
     (if rp_PeriodSegments r \<noteq> [] then
        (case expand_periods env c w (rp_PeriodSegments r) of
           (w, Inl e) \<Rightarrow> (w, Inl e)
         | (w, Inr periods) \<Rightarrow> (w, Inr (r\<lparr>rp_PeriodSegments := periods, rp_Segments := concat periods\<rparr>)))
      else (case expandSIDXSegments env c w (rp_Segments r) of
              (w, Inl e) \<Rightarrow> (w, Inl e)
            | (w, Inr expanded) \<Rightarrow> (w, Inr (r\<lparr>rp_Segments := expanded\<rparr>))))"

fun expand_selected ::
    "'w index_env \<Rightarrow> DashConfig \<Rightarrow> 'w \<Rightarrow> Representation list \<Rightarrow> 'w \<times> (dash_error + Representation list)" where
  "expand_selected env c w [] = (w, Inr [])"
| "expand_selected env c w (r # rest) =
     (case expand_representation env c w r of
        (w, Inl e) \<Rightarrow> (w, Inl e)
      | (w, Inr r) \<Rightarrow>
          (case expand_selected env c w rest of
             (w, Inl e) \<Rightarrow> (w, Inl e)
           | (w, Inr rs) \<Rightarrow> (w, Inr (r # rs))))"

text \<open>The entry of \<open>byID\<close>: of two representations with one key the later is in the map.\<close>

definition target_index :: "Representation list \<Rightarrow> string \<Rightarrow> nat option" where
  "target_index selected key = List.find (\<lambda>i. representationKey (selected ! i) = key) (rev [0..<length selected])"

definition merge_update :: "Representation list \<Rightarrow> Representation \<Rightarrow> dash_error + Representation list" where
  "merge_update selected r =
     (case target_index selected (representationKey r) of
        None \<Rightarrow> Inr selected
      | Some i \<Rightarrow>
          let target = selected ! i
          in if rp_PeriodSegments target \<noteq> [] then
               (case mergeDynamicMultiPeriodRepresentation target r of
                  Inl e \<Rightarrow> Inl e
                | Inr merged \<Rightarrow> Inr (selected[i := merged]))
             else Inr (selected[i := target\<lparr>rp_Segments := mergeSegments (rp_Segments target) (rp_Segments r)\<rparr>]))"

fun merge_updates :: "Representation list \<Rightarrow> Representation list \<Rightarrow> dash_error + Representation list" where
  "merge_updates selected [] = Inr selected"
| "merge_updates selected (r # rest) =
     (case merge_update selected r of Inl e \<Rightarrow> Inl e | Inr selected \<Rightarrow> merge_updates selected rest)"

definition merge_snapshot :: "MPD \<Rightarrow> MPD \<Rightarrow> Representation list \<Rightarrow> Representation list \<Rightarrow> dash_error + Representation list" where
  "merge_snapshot mpd updated updatedSelected selected =
     (case (if mpd_PeriodCount mpd > 1 then validateDynamicMultiPeriodSnapshot mpd updated else None) of
        Some e \<Rightarrow> Inl e
      | None \<Rightarrow>
          (case merge_updates selected updatedSelected of
             Inl e \<Rightarrow> Inl e
           | Inr merged \<Rightarrow>
               if mpd_PeriodCount mpd > 1 \<and>
                  list_ex (\<lambda>r. representationKey r \<notin> set (map representationKey updatedSelected)) selected
               then Inl ErrUnsupportedAddressing else Inr merged))"

text \<open>The loop with \<open>n\<close> polls left.\<close>

fun refresh_loop ::
    "('w, 'u) download_env \<Rightarrow> DashConfig \<Rightarrow> string \<Rightarrow> MPD \<Rightarrow> nat \<Rightarrow> i64 \<Rightarrow> 'w \<Rightarrow> Representation list \<Rightarrow>
      'w \<times> (dash_error + Representation list)" where
  "refresh_loop env c manifestURL mpd 0 pollInterval w selected = (w, Inr selected)"
| "refresh_loop env c manifestURL mpd (Suc n) pollInterval w selected =
     (case ie_wait (ld_index (dn_load env)) w pollInterval of
        (w, Some e) \<Rightarrow> (w, Inl (DashContext e))
      | (w, None) \<Rightarrow>
          (case load (dn_load env) c w manifestURL of
             (w, Inl e) \<Rightarrow> (w, Inl e)
           | (w, Inr updated) \<Rightarrow>
               (case select_step env w updated of
                  (w, Inl e) \<Rightarrow> (w, Inl e)
                | (w, Inr updatedSelected) \<Rightarrow>
                    (case merge_snapshot mpd updated updatedSelected selected of
                       Inl e \<Rightarrow> (w, Inl e)
                     | Inr merged \<Rightarrow>
                         if \<not> mpd_Dynamic updated then (w, Inr merged)
                         else (case (if dc_PollInterval c \<le> 0 then dynamicPollInterval 0 (mpd_MinimumUpdatePeriod updated)
                                     else Inr pollInterval) of
                                 Inl e \<Rightarrow> (w, Inl e)
                               | Inr interval \<Rightarrow> refresh_loop env c manifestURL mpd n interval w merged)))))"

definition refresh_selected ::
    "('w, 'u) download_env \<Rightarrow> DashConfig \<Rightarrow> string \<Rightarrow> MPD \<Rightarrow> 'w \<Rightarrow> Representation list \<Rightarrow> 'w \<times> (dash_error + Representation list)" where
  "refresh_selected env c manifestURL mpd w selected =
     (if mpd_Dynamic mpd \<and> dc_DynamicPolls c > 1 then
        (case dynamicPollInterval (dc_PollInterval c) (mpd_MinimumUpdatePeriod mpd) of
           Inl e \<Rightarrow> (w, Inl e)
         | Inr interval \<Rightarrow> refresh_loop env c manifestURL mpd (nat (dc_DynamicPolls c - 1)) interval w selected)
      else (w, Inr selected))"

definition plan_segments ::
    "('w, 'u) download_env \<Rightarrow> DashConfig \<Rightarrow> string \<Rightarrow> MPD \<Rightarrow> 'w \<Rightarrow> Representation list \<Rightarrow> 'w \<times> (dash_error + Representation list)" where
  "plan_segments env c manifestURL mpd w selected =
     (if mpd_Dynamic mpd \<and> hasSIDXMarkers selected then
        (if mpd_PeriodCount mpd > 1 then (w, Inl ErrUnsupportedAddressing)
         else (case validateHomogeneousDynamicSIDXSelection selected of
                 Some e \<Rightarrow> (w, Inl e)
               | None \<Rightarrow> pollDynamicSIDX (poll_env_of env c) c w manifestURL mpd selected))
      else (case expand_selected (ld_index (dn_load env)) c w selected of
              (w, Inl e) \<Rightarrow> (w, Inl e)
            | (w, Inr selected) \<Rightarrow> refresh_selected env c manifestURL mpd w selected))"

definition check_budget :: "DashConfig \<Rightarrow> bool \<Rightarrow> Representation \<Rightarrow> dash_error option" where
  "check_budget c dynamicSIDX r =
     (if dynamicSIDX then validateDynamicSIDXOutputBudget (rp_Segments r) (dc_MaxSegments c)
      else if dc_MaxSegments c < 0 \<or> int (length (rp_Segments r)) > dc_MaxSegments c then Some ErrTooManySegments
      else None)"

definition check_budgets :: "DashConfig \<Rightarrow> bool \<Rightarrow> Representation list \<Rightarrow> dash_error option" where
  "check_budgets c dynamicSIDX selected =
     (case List.find (\<lambda>r. check_budget c dynamicSIDX r \<noteq> None) selected of
        None \<Rightarrow> None
      | Some r \<Rightarrow> check_budget c dynamicSIDX r)"

section \<open>Fragment jobs\<close>

definition fragment_of :: "DashOptions \<Rightarrow> bool \<Rightarrow> Representation \<Rightarrow> int \<Rightarrow> nat \<times> Segment \<Rightarrow> fragment_segment" where
  "fragment_of options checkpointable r periodIndex = (\<lambda>(index, segment).
     \<lparr>fs_URL = sg_URL segment, fs_RangeStart = sg_RangeStart segment, fs_RangeLength = sg_RangeLength segment,
      fs_AES128 = None, fs_Scale = (if checkpointable \<and> do_Checkpoint options \<noteq> None
        then Some (staticScale (do_EquivalenceProof options)
               (fragment_identity (do_RepresentationIdentity options) r periodIndex index segment))
        else None)\<rparr>)"

definition job_limit :: "DashConfig \<Rightarrow> bool \<Rightarrow> Segment list \<Rightarrow> int" where
  "job_limit c dynamicSIDX plan =
     (if dynamicSIDX \<and> dc_MaxSegments c > 0 then
        let maxSegments = dc_MaxSegments c + (int (length plan) - int (mediaSegmentCount plan))
        in if maxSegments > fragmentHardSegmentCap then fragmentHardSegmentCap else maxSegments
      else dc_MaxSegments c)"

definition job_of ::
    "DashConfig \<Rightarrow> DashOptions \<Rightarrow> Segment list \<Rightarrow> string \<Rightarrow> string \<Rightarrow> bool \<Rightarrow> bool \<Rightarrow> Representation \<Rightarrow> int \<Rightarrow> bool \<Rightarrow>
      fragment_job" where
  "job_of c options plan outputRoot destination overwrite dynamicSIDX r periodIndex checkpointable =
     \<lparr>fj_Segments = map (fragment_of options checkpointable r periodIndex) (enumerate 0 plan), fj_Headers = dc_Headers c,
      fj_OutputRoot = outputRoot, fj_Destination = destination, fj_Concurrency = do_FragmentConcurrency options,
      fj_Attempts = dc_Attempts c, fj_MaxSegmentSize = do_MaxSegmentSize options, fj_MaxSegments = job_limit c dynamicSIDX plan,
      fj_PerHostConcurrency = do_PerHostConcurrency options, fj_RetryBaseDelay = dc_RetryBaseDelay c,
      fj_RetryMaxDelay = dc_RetryMaxDelay c, fj_Overwrite = overwrite,
      fj_Checkpoint = (if checkpointable then do_Checkpoint options else None)\<rparr>"

definition downloadSegments ::
    "'w fragment_env \<Rightarrow> DashConfig \<Rightarrow> DashOptions \<Rightarrow> 'w \<Rightarrow> Segment list \<Rightarrow> string \<Rightarrow> string \<Rightarrow> bool \<Rightarrow> bool \<Rightarrow> Representation \<Rightarrow>
      int \<Rightarrow> bool \<Rightarrow> 'w \<times> (dash_error + fragment_result)" where
  "downloadSegments fx c options w plan outputRoot destination overwrite dynamicSIDX r periodIndex checkpointable =
     (case fx_download fx w (job_of c options plan outputRoot destination overwrite dynamicSIDX r periodIndex checkpointable) of
        (w, Inl e) \<Rightarrow> (w, Inl (DashFragment e))
      | (w, Inr result) \<Rightarrow> (w, Inr result))"

definition removePeriodDownloads :: "'w fragment_env \<Rightarrow> fragment_result list \<Rightarrow> 'w \<Rightarrow> 'w" where
  "removePeriodDownloads fx downloads w = fold (\<lambda>d w. fx_remove fx w (fr_Path d)) downloads w"

text \<open>\<open>Sprintf("%s.%s.period-%04d", ...)\<close>\<close>

definition period_destination :: "string \<Rightarrow> Representation \<Rightarrow> nat \<Rightarrow> string" where
  "period_destination destination r periodIndex =
     (let number = Itoa (int periodIndex)
      in destination @ ''.'' @ trackSuffix r @ ''.period-'' @ replicate (4 - length number) (CHR ''0'') @ number)"

section \<open>Tracks\<close>

record TrackResult =
  tr_Representation :: Representation
  tr_Download :: fragment_result
  tr_PeriodDownloads :: "fragment_result list"

record DashResult =
  dr_Tracks :: "TrackResult list"
  dr_MergeRequired :: bool
  dr_MultiPeriod :: bool

text \<open>What is given with a call: where to write, and what is known of the presentation.\<close>

record output_plan =
  op_OutputRoot :: string
  op_Destination :: string
  op_Overwrite :: bool
  op_Dynamic :: bool
  op_DynamicSIDX :: bool
  op_MultiPeriod :: bool
  op_Single :: bool

text \<open>The periods of one representation from \<open>periodIndex\<close> on; \<open>finished\<close> is \<open>track.PeriodDownloads\<close>.\<close>

fun download_periods ::
    "'w fragment_env \<Rightarrow> DashConfig \<Rightarrow> DashOptions \<Rightarrow> output_plan \<Rightarrow> Representation \<Rightarrow> nat \<Rightarrow> 'w \<Rightarrow> fragment_result list \<Rightarrow>
      Segment list list \<Rightarrow> 'w \<times> fragment_result list \<times> dash_error option" where
  "download_periods fx c options p r periodIndex w finished [] = (w, finished, None)"
| "download_periods fx c options p r periodIndex w finished (segments # rest) =
     (case downloadSegments fx c options w segments (op_OutputRoot p) (period_destination (op_Destination p) r periodIndex)
             (op_Overwrite p) False r (int periodIndex) False of
        (w, Inl e) \<Rightarrow> (w, finished, Some e)
      | (w, Inr downloaded) \<Rightarrow> download_periods fx c options p r (periodIndex + 1) w (finished @ [downloaded]) rest)"

definition track_destination :: "output_plan \<Rightarrow> Representation \<Rightarrow> string" where
  "track_destination p r = (if op_Single p then op_Destination p else op_Destination p @ ''.'' @ trackSuffix r)"

fun download_tracks ::
    "'w fragment_env \<Rightarrow> DashConfig \<Rightarrow> DashOptions \<Rightarrow> output_plan \<Rightarrow> 'w \<Rightarrow> TrackResult list \<Rightarrow> Representation list \<Rightarrow>
      'w \<times> (dash_error + TrackResult list)" where
  "download_tracks fx c options p w tracks [] = (w, Inr tracks)"
| "download_tracks fx c options p w tracks (r # rest) =
     (if op_MultiPeriod p then
        (case download_periods fx c options p r 0 w [] (rp_PeriodSegments r) of
           (w, finished, Some e) \<Rightarrow>
             (fold (\<lambda>t. removePeriodDownloads fx (tr_PeriodDownloads t)) tracks (removePeriodDownloads fx finished w), Inl e)
         | (w, finished, None) \<Rightarrow>
             download_tracks fx c options p w
               (tracks @ [\<lparr>tr_Representation = r, tr_Download = zero_result, tr_PeriodDownloads = finished\<rparr>]) rest)
      else (case downloadSegments fx c options w (rp_Segments r) (op_OutputRoot p) (track_destination p r) (op_Overwrite p)
                   (op_DynamicSIDX p) r (rp_PeriodIndex r)
                   (\<not> op_Dynamic p \<and> \<not> op_DynamicSIDX p \<and> op_Single p \<and> \<not> op_MultiPeriod p) of
              (w, Inl e) \<Rightarrow> (w, Inl e)
            | (w, Inr downloaded) \<Rightarrow>
                download_tracks fx c options p w
                  (tracks @ [\<lparr>tr_Representation = r, tr_Download = downloaded, tr_PeriodDownloads = []\<rparr>]) rest))"

section \<open>Download\<close>

text \<open>Everything before the first byte is written: the presentation and the representations with their final segments.\<close>

definition check_selection :: "DashConfig \<Rightarrow> DashOptions \<Rightarrow> MPD \<Rightarrow> Representation list \<Rightarrow> dash_error option" where
  "check_selection c options mpd selected =
     (if selected = [] then Some (ErrInvalidMPD None)
      else if do_RequireStaticSingleRepresentation options \<and>
              (mpd_Dynamic mpd \<or> mpd_PeriodCount mpd \<noteq> 1 \<or> length selected \<noteq> 1) then Some ErrStaticResumeUnsupported
      else if do_Checkpoint options \<noteq> None \<and> \<not> validProviderTrackIdentity (do_RepresentationIdentity options)
        then Some ErrStaticResumeUnsupported
      else None)"

definition plan_selected ::
    "('w, 'u) download_env \<Rightarrow> DashConfig \<Rightarrow> DashOptions \<Rightarrow> string \<Rightarrow> MPD \<Rightarrow> 'w \<Rightarrow> 'w \<times> (dash_error + Representation list \<times> bool)" where
  "plan_selected env c options manifestURL mpd w =
     (case select_step env w mpd of
        (w, Inl e) \<Rightarrow> (w, Inl e)
      | (w, Inr selected) \<Rightarrow>
          (case check_selection c options mpd selected of
             Some e \<Rightarrow> (w, Inl e)
           | None \<Rightarrow>
               let dynamicSIDX = (mpd_Dynamic mpd \<and> hasSIDXMarkers selected)
               in (case plan_segments env c manifestURL mpd w selected of
                     (w, Inl e) \<Rightarrow> (w, Inl e)
                   | (w, Inr selected) \<Rightarrow>
                       (case check_budgets c dynamicSIDX selected of
                          Some e \<Rightarrow> (w, Inl e)
                        | None \<Rightarrow> (w, Inr (selected, dynamicSIDX))))))"

definition plan_download ::
    "('w, 'u) download_env \<Rightarrow> DashConfig \<Rightarrow> DashOptions \<Rightarrow> 'w \<Rightarrow> string \<Rightarrow> 'w \<times> (dash_error + MPD \<times> Representation list \<times> bool)" where
  "plan_download env c options w manifestURL =
     (if dc_DynamicPolls c > maxDASHPolls then (w, Inl ErrUnsupportedAddressing)
      else if dc_PollInterval c > maxDASHPollInterval then (w, Inl ErrUnsupportedAddressing)
      else (case load (dn_load env) c w manifestURL of
              (w, Inl e) \<Rightarrow> (w, Inl e)
            | (w, Inr mpd) \<Rightarrow>
                (case validateDynamicMPDPolicy (do_DynamicMPDPolicy options) mpd of
                   Some e \<Rightarrow> (w, Inl e)
                 | None \<Rightarrow>
                     (case plan_selected env c options manifestURL mpd w of
                        (w, Inl e) \<Rightarrow> (w, Inl e)
                      | (w, Inr (selected, dynamicSIDX)) \<Rightarrow> (w, Inr (mpd, selected, dynamicSIDX))))))"

definition output_plan_of :: "string \<Rightarrow> string \<Rightarrow> bool \<Rightarrow> MPD \<Rightarrow> Representation list \<Rightarrow> bool \<Rightarrow> output_plan" where
  "output_plan_of outputRoot destination overwrite mpd selected dynamicSIDX =
     \<lparr>op_OutputRoot = outputRoot, op_Destination = destination, op_Overwrite = overwrite, op_Dynamic = mpd_Dynamic mpd,
      op_DynamicSIDX = dynamicSIDX, op_MultiPeriod = (mpd_PeriodCount mpd > 1), op_Single = (length selected \<le> 1)\<rparr>"

definition check_destination :: "('w, 'u) download_env \<Rightarrow> 'w \<Rightarrow> output_plan \<Rightarrow> 'w \<times> dash_error option" where
  "check_destination env w p =
     (if op_MultiPeriod p \<and> \<not> op_Overwrite p then
        (case dn_lstat env w (op_Destination p) of
           (w, Some True) \<Rightarrow> (w, Some DashDestinationExists)
         | (w, Some False) \<Rightarrow> (w, None)
         | (w, None) \<Rightarrow> (w, Some DashInspectDestination))
      else (w, None))"

definition dash_Download ::
    "('w, 'u) download_env \<Rightarrow> DashConfig \<Rightarrow> DashOptions \<Rightarrow> 'w \<Rightarrow> string \<Rightarrow> string \<Rightarrow> string \<Rightarrow> bool \<Rightarrow> 'w \<times> (dash_error + DashResult)" where
  "dash_Download env c options w manifestURL outputRoot destination overwrite =
     (case plan_download env c options w manifestURL of
        (w, Inl e) \<Rightarrow> (w, Inl e)
      | (w, Inr (mpd, selected, dynamicSIDX)) \<Rightarrow>
          let p = output_plan_of outputRoot destination overwrite mpd selected dynamicSIDX
          in (case check_destination env w p of
                (w, Some e) \<Rightarrow> (w, Inl e)
              | (w, None) \<Rightarrow>
                  (case download_tracks (dn_fragment env) c options p w [] selected of
                     (w, Inl e) \<Rightarrow> (w, Inl e)
                   | (w, Inr tracks) \<Rightarrow>
                       (w, Inr \<lparr>dr_Tracks = tracks, dr_MergeRequired = (length selected > 1),
                                dr_MultiPeriod = op_MultiPeriod p\<rparr>))))"

end
