(* ===== verification/DashPlan.thy ===== *)
theory DashPlan
  imports DashDownload
begin

text \<open>
  What holds of a plan before the first byte is written: where its URLs come from through selection, expansion, polling and merging, that every step
  changes only segments, and that it is within its budget. A loader is an interface whose contract is that the manifests it returns have
  accepted URLs only.
\<close>

section \<open>Where segments come from\<close>

definition urls :: "Segment list \<Rightarrow> string set" where
  "urls segments = sg_URL ` set segments"

definition representation_urls :: "Representation \<Rightarrow> string set" where
  "representation_urls r = urls (rp_Segments r) \<union> urls (concat (rp_PeriodSegments r))"

definition selection_urls :: "Representation list \<Rightarrow> string set" where
  "selection_urls rs = \<Union> (representation_urls ` set rs)"

lemma urls_simps [simp]:
  "urls [] = {}" "urls (s # ss) = insert (sg_URL s) (urls ss)" "urls (xs @ ys) = urls xs \<union> urls ys"
  by (auto simp: urls_def)

lemma urls_concat: "urls (concat xss) = (\<Union>xs \<in> set xss. urls xs)"
  by (induction xss) auto

lemma urls_mono: "set xs \<subseteq> set ys \<Longrightarrow> urls xs \<subseteq> urls ys"
  by (auto simp: urls_def)

lemma selection_urls_simps [simp]:
  "selection_urls [] = {}" "selection_urls (r # rs) = representation_urls r \<union> selection_urls rs"
  by (auto simp: selection_urls_def)

lemma selection_urls_subset_iff: "selection_urls rs \<subseteq> U \<longleftrightarrow> (\<forall>r \<in> set rs. representation_urls r \<subseteq> U)"
  by (auto simp: selection_urls_def)

lemma expandOneSIDX_urls:
  assumes "expandOneSIDX env c w marker session = (w', session', Inr segs)"
  shows "urls segs \<subseteq> {sg_URL marker}"
proof -
  from assms obtain intervals ranges init where
    "init_segments marker intervals ranges = Inr init"
    "segs = init @ map (\<lambda>r. range_segment (sg_URL marker) (mr_Start r) (mr_Length r) False) ranges"
    by (auto simp: expandOneSIDX_def Let_def split: option.splits prod.splits sum.splits if_splits)
  then show ?thesis
    by (auto simp: init_segments_def urls_def range_segment_def Let_def split: option.splits if_splits)
qed

lemma expandSIDXSegmentsWithSession_urls:
  "expandSIDXSegmentsWithSession env c w segments session = (w', session', Inr result) \<Longrightarrow> urls result \<subseteq> urls segments"
proof (induction segments arbitrary: w session w' session' result)
  case (Cons s rest)
  from Cons.prems obtain w1 session1 expanded more where
    head: "(if sg_IndexRange s = [] then (w, session, Inr [s]) else expandOneSIDX env c w s session) = (w1, session1, Inr expanded)"
    and rest: "expandSIDXSegmentsWithSession env c w1 rest session1 = (w', session', Inr more)" "result = expanded @ more"
    by (auto split: prod.splits sum.splits simp del: if_split)
  have "urls expanded \<subseteq> {sg_URL s}"
    using head by (auto dest: expandOneSIDX_urls split: if_splits)
  with Cons.IH [OF rest(1)] rest(2) show ?case by auto
qed simp

lemma expandSIDXSegments_urls: "expandSIDXSegments env c w segments = (w', Inr result) \<Longrightarrow> urls result \<subseteq> urls segments"
  by (auto simp: expandSIDXSegments_def split: prod.splits dest: expandSIDXSegmentsWithSession_urls)

lemma expand_periods_shape:
  "expand_periods env c w periods = (w', Inr periods') \<Longrightarrow>
     length periods' = length periods \<and> urls (concat periods') \<subseteq> urls (concat periods)"
proof (induction periods arbitrary: w w' periods')
  case (Cons segments rest)
  from Cons.prems obtain w1 expanded more where
    run: "expandSIDXSegments env c w segments = (w1, Inr expanded)" "expand_periods env c w1 rest = (w', Inr more)"
      "periods' = expanded # more"
    by (auto split: prod.splits sum.splits)
  from expandSIDXSegments_urls [OF run(1)] Cons.IH [OF run(2)] run(3) show ?case by auto
qed simp

text \<open>What a step may change of a representation: its segments only.\<close>

definition erase :: "Representation \<Rightarrow> Representation" where
  "erase r = r\<lparr>rp_Segments := [], rp_PeriodSegments := []\<rparr>"

definition same_track :: "Representation \<Rightarrow> Representation \<Rightarrow> bool" where
  "same_track r r' \<longleftrightarrow> erase r' = erase r"

lemma same_track_refl [simp]: "same_track r r"
  by (simp add: same_track_def)

lemma same_track_update [simp]:
  "same_track r (r\<lparr>rp_Segments := ss\<rparr>)" "same_track r (r\<lparr>rp_PeriodSegments := ps, rp_Segments := ss\<rparr>)"
  by (simp_all add: same_track_def erase_def)

lemma erase_fields: "trackSuffix (erase r) = trackSuffix r" "representationKey (erase r) = representationKey r"
  by (cases r; simp add: erase_def trackSuffix_def representationKind_def representationKey_def)+

lemma same_track_fields:
  assumes "same_track r r'"
  shows "trackSuffix r' = trackSuffix r" "representationKey r' = representationKey r"
  using assms unfolding same_track_def by (metis erase_fields)+

lemma same_tracks_suffixes: "list_all2 same_track rs rs' \<Longrightarrow> map trackSuffix rs' = map trackSuffix rs"
  by (induction rule: list_all2_induct) (simp_all add: same_track_fields)

definition shape :: "Representation \<Rightarrow> bool" where
  "shape r \<longleftrightarrow> (rp_PeriodSegments r \<noteq> [] \<longrightarrow> rp_Segments r = concat (rp_PeriodSegments r))"

lemma expand_representation_result:
  assumes "expand_representation env c w r = (w', Inr r')"
  shows "same_track r r' \<and> shape r' \<and> representation_urls r' \<subseteq> representation_urls r"
proof (cases "rp_PeriodSegments r = []")
  case True
  with assms obtain expanded where e: "expandSIDXSegments env c w (rp_Segments r) = (w', Inr expanded)" "r' = r\<lparr>rp_Segments := expanded\<rparr>"
    by (auto simp: expand_representation_def split: prod.splits sum.splits)
  from expandSIDXSegments_urls [OF e(1)] e(2) True show ?thesis
    by (auto simp: shape_def representation_urls_def)
next
  case False
  with assms obtain periods where e: "expand_periods env c w (rp_PeriodSegments r) = (w', Inr periods)"
      "r' = r\<lparr>rp_PeriodSegments := periods, rp_Segments := concat periods\<rparr>"
    by (auto simp: expand_representation_def split: prod.splits sum.splits)
  from expand_periods_shape [OF e(1)] e(2) show ?thesis
    by (auto simp: shape_def representation_urls_def)
qed

lemma expand_selected_result:
  "expand_selected env c w rs = (w', Inr rs') \<Longrightarrow>
     list_all2 same_track rs rs' \<and> list_all shape rs' \<and> selection_urls rs' \<subseteq> selection_urls rs"
proof (induction rs arbitrary: w w' rs')
  case (Cons r rs)
  from Cons.prems obtain w1 r1 more where
    run: "expand_representation env c w r = (w1, Inr r1)" "expand_selected env c w1 rs = (w', Inr more)" "rs' = r1 # more"
    by (auto split: prod.splits sum.splits)
  from expand_representation_result [OF run(1)] Cons.IH [OF run(2)] run(3) show ?case by auto
qed simp

section \<open>Selections\<close>

lemma note_best_from: "snd ` set (note_best r best) \<subseteq> insert r (snd ` set best)"
  by (auto simp: note_best_def split: option.splits if_splits)

lemma fold_note_best_from: "snd ` set (fold note_best rs best) \<subseteq> set rs \<union> snd ` set best"
proof (induction rs arbitrary: best)
  case (Cons r rs)
  from Cons [of "note_best r best"] note_best_from [of r best] show ?case by auto
qed simp

lemma selectBest_result:
  "set (selectBestRepresentations (sort_key f) rs) \<subseteq> set rs" "distinct (map trackSuffix (selectBestRepresentations (sort_key f) rs))"
proof -
  define best where "best = fold note_best rs []"
  have ok: "best_ok best" unfolding best_def by (rule fold_note_best_ok) (simp add: best_ok_def)
  show "set (selectBestRepresentations (sort_key f) rs) \<subseteq> set rs"
    using fold_note_best_from [of rs "[]"] by (auto simp: selectBestRepresentations_def)
  have "map trackSuffix (map snd best) = map fst best" using ok by (auto simp: best_ok_def)
  with ok have "distinct (map trackSuffix (map snd best))" unfolding best_ok_def by metis
  moreover have "mset (map trackSuffix (sort_key trackSuffix (map snd (sort_key f best)))) = mset (map trackSuffix (map snd best))"
    by (simp add: image_mset.compositionality comp_def)
  ultimately show "distinct (map trackSuffix (selectBestRepresentations (sort_key f) rs))"
    unfolding selectBestRepresentations_def best_def by (metis mset_eq_imp_distinct_iff)
qed

lemma period_formats_member:
  assumes "(s, r) \<in> set (period_formats kind period)"
  shows "r \<in> set period" "representationKind r = kind"
proof -
  have "(s, r) \<in> set (fold (note_format kind) rs formats) \<Longrightarrow>
      (s, r) \<in> set formats \<or> r \<in> set rs \<and> representationKind r = kind" for rs formats
  proof (induction rs arbitrary: formats)
    case (Cons a rs)
    then have "(s, r) \<in> set (note_format kind a formats) \<or> r \<in> set rs \<and> representationKind r = kind" by simp
    then show ?case by (auto simp: note_format_def split: if_splits)
  qed simp
  from this [of period "[]"] assms show "r \<in> set period" "representationKind r = kind"
    by (simp_all add: period_formats_def)
qed

lemma best_signature_common:
  assumes "best_signature later sigs = Some s"
  shows "s \<in> set sigs" "\<forall>formats \<in> set later. map_of formats s \<noteq> None"
proof -
  let ?step = "\<lambda>s best. if list_all (\<lambda>formats. map_of formats s \<noteq> None) later \<and>
    (case best of None \<Rightarrow> True | Some b \<Rightarrow> betterSignature s b) then Some s else best"
  have "fold ?step xs best = Some s \<Longrightarrow> best = Some s \<or> s \<in> set xs \<and> (\<forall>formats \<in> set later. map_of formats s \<noteq> None)" for xs best
  proof (induction xs arbitrary: best)
    case (Cons x xs)
    then have "?step x best = Some s \<or> s \<in> set xs \<and> (\<forall>formats \<in> set later. map_of formats s \<noteq> None)" by simp
    then show ?case by (auto simp: list_all_iff split: if_splits)
  qed simp
  from this [of sigs None] assms show "s \<in> set sigs" "\<forall>formats \<in> set later. map_of formats s \<noteq> None"
    by (simp_all add: best_signature_def)
qed

lemma combine_periods_result:
  "combine_periods combined rs = Inr r \<Longrightarrow>
     trackSuffix r = trackSuffix combined \<and> representation_urls r \<subseteq> representation_urls combined \<union> selection_urls rs"
proof (induction rs arbitrary: combined)
  case (Cons a rs)
  let ?next = "combined\<lparr>rp_PeriodSegments := rp_PeriodSegments combined @ [rp_Segments a],
    rp_PeriodIDs := rp_PeriodIDs combined @ [rp_PeriodID a],
    rp_PeriodRepresentationIDs := rp_PeriodRepresentationIDs combined @ [rp_ID a],
    rp_PeriodAddressings := rp_PeriodAddressings combined @ [rp_Addressing a],
    rp_Segments := rp_Segments combined @ rp_Segments a\<rparr>"
  have "combine_periods ?next rs = Inr r" using Cons.prems by (simp split: if_splits)
  moreover have "trackSuffix ?next = trackSuffix combined"
    by (cases combined) (simp add: trackSuffix_def representationKind_def)
  moreover have "representation_urls ?next \<subseteq> representation_urls combined \<union> representation_urls a"
    by (auto simp: representation_urls_def)
  ultimately show ?case using Cons.IH by fastforce
qed simp

lemma combine_kind_result:
  assumes "combine_kind (sort_key f) periods kind = Inr r" and "periods \<noteq> []"
  shows "trackSuffix r = kind" "representation_urls r \<subseteq> selection_urls (concat periods)"
proof -
  define formats where "formats = map (period_formats kind) periods"
  have nonempty: "formats \<noteq> []" using assms(2) by (simp add: formats_def)
  from assms(1) obtain s where s: "best_signature (tl formats) (sort_key f (map fst (hd formats))) = Some s"
    by (auto simp: combine_kind_def formats_def Let_def split: option.splits)
  define chosen where "chosen = map (\<lambda>g. the (map_of g s)) formats"
  define start where "start = (hd chosen)\<lparr>rp_Segments := [], rp_PeriodSegments := [], rp_PeriodIDs := [],
    rp_PeriodRepresentationIDs := [], rp_PeriodAddressings := []\<rparr>"
  from assms(1) s have combined: "combine_periods start chosen = Inr r"
    by (simp add: combine_kind_def formats_def [symmetric] chosen_def [symmetric] start_def [symmetric] Let_def)
  have "map_of (hd formats) s \<noteq> None"
    using best_signature_common(1) [OF s] by (auto simp: map_of_eq_None_iff)
  with best_signature_common(2) [OF s] nonempty have present: "\<forall>g \<in> set formats. map_of g s \<noteq> None"
    by (cases formats) auto
  have member: "the (map_of (period_formats kind p) s) \<in> set p \<and> representationKind (the (map_of (period_formats kind p) s)) = kind"
    if "p \<in> set periods" for p
    using present that period_formats_member [of s] by (fastforce simp: formats_def dest: map_of_SomeD)
  have "set chosen \<subseteq> set (concat periods)" using member by (auto simp: chosen_def formats_def)
  then have "selection_urls chosen \<subseteq> selection_urls (concat periods)" by (auto simp: selection_urls_def)
  moreover have "representation_urls start = {}" by (simp add: start_def representation_urls_def)
  ultimately show "representation_urls r \<subseteq> selection_urls (concat periods)"
    using combine_periods_result [OF combined] by auto
  have "representationKind (hd chosen) = kind"
    using member [of "hd periods"] assms(2) by (simp add: chosen_def formats_def hd_map)
  moreover have "trackSuffix start = representationKind (hd chosen)"
    by (cases "hd chosen") (simp add: start_def trackSuffix_def representationKind_def)
  ultimately show "trackSuffix r = kind" using combine_periods_result [OF combined] by simp
qed

lemma selectRepresentations_result:
  assumes "selectRepresentations (sort_key f) (sort_key g) mpd = Inr rs"
  shows "selection_urls rs \<subseteq> selection_urls (mpd_Representations mpd)" "distinct (map trackSuffix rs)"
proof -
  let ?goal = "selection_urls rs \<subseteq> selection_urls (mpd_Representations mpd) \<and> distinct (map trackSuffix rs)"
  have ?goal
  proof (cases "mpd_PeriodCount mpd \<le> 1")
    case True
    with assms have "rs = selectBestRepresentations (sort_key f) (mpd_Representations mpd)"
      by (simp add: selectRepresentations_def)
    with selectBest_result [of f "mpd_Representations mpd"] show ?thesis by (auto simp: selection_urls_def)
  next
    case False
    define periods where "periods = map (\<lambda>i. filter (\<lambda>r. rp_PeriodIndex r = int i) (mpd_Representations mpd)) [0..<nat (mpd_PeriodCount mpd)]"
    define kinds where "kinds = sort (remdups (map representationKind (concat periods)))"
    from assms False have "all_results (map (combine_kind (sort_key g) periods) kinds) = Inr rs"
      by (auto simp: selectRepresentations_def periods_def [symmetric] kinds_def [symmetric] Let_def split: option.splits sum.splits if_splits)
    then have each: "list_all2 (\<lambda>k r. combine_kind (sort_key g) periods k = Inr r) kinds rs" by (rule all_results_map)
    have nonempty: "periods \<noteq> []" using False by (simp add: periods_def)
    from each have "map trackSuffix rs = kinds"
      by (induction rule: list_all2_induct) (simp_all add: combine_kind_result(1) [OF _ nonempty])
    moreover from each have "selection_urls rs \<subseteq> selection_urls (concat periods)"
      by (induction rule: list_all2_induct) (simp_all add: combine_kind_result(2) [OF _ nonempty])
    moreover have sub: "set (concat periods) \<subseteq> set (mpd_Representations mpd)" by (auto simp: periods_def)
    moreover from sub have "selection_urls (concat periods) \<subseteq> selection_urls (mpd_Representations mpd)"
      unfolding selection_urls_def by blast
    moreover have "distinct kinds" by (simp add: kinds_def)
    ultimately show ?thesis by auto
  qed
  then show "selection_urls rs \<subseteq> selection_urls (mpd_Representations mpd)" "distinct (map trackSuffix rs)" by auto
qed

lemma select_step_result:
  assumes "select_step env w mpd = (w', Inr rs)"
  shows "selection_urls rs \<subseteq> selection_urls (mpd_Representations mpd)" "distinct (map trackSuffix rs)"
  using assms by (auto simp: select_step_def split: prod.splits dest: selectRepresentations_result)

section \<open>Merged snapshots\<close>

lemma merge_new_subset: "set (merge_new seen xs) \<subseteq> set xs"
  by (induction seen xs rule: merge_new.induct) auto

lemma mergeSegments_urls: "urls (mergeSegments xs ys) \<subseteq> urls xs \<union> urls ys"
  using urls_mono [OF merge_new_subset] by (auto simp: mergeSegments_def)

lemma mergeDynamicMultiPeriodSegments_urls:
  assumes "mergeDynamicMultiPeriodSegments existing updated = Some m"
  shows "urls m \<subseteq> urls existing \<union> urls updated"
proof -
  have "set m \<subseteq> set existing \<union> set updated"
    using assms by (auto simp: mergeDynamicMultiPeriodSegments_def split: if_splits option.splits
        dest!: append_unseen_Some dest: in_set_dropD)
  then show ?thesis by (auto simp: urls_def)
qed

lemma merge_periods_urls:
  assumes "merge_periods target updated index n merged = Inr periods"
    and "index + n \<le> length (rp_PeriodSegments target)" "index + n \<le> length (rp_PeriodSegments updated)"
  shows "urls (concat periods) \<subseteq> urls (concat merged) \<union> urls (concat (rp_PeriodSegments target)) \<union> urls (concat (rp_PeriodSegments updated))"
  using assms
proof (induction target updated index n merged rule: merge_periods.induct)
  case (2 target updated index n merged)
  from 2(2) obtain m where m: "mergeDynamicMultiPeriodSegments (rp_PeriodSegments target ! index) (rp_PeriodSegments updated ! index) = Some m"
      "merge_periods target updated (index + 1) n (merged @ [m]) = Inr periods"
    by (auto split: if_splits option.splits)
  have "rp_PeriodSegments target ! index \<in> set (rp_PeriodSegments target)" "rp_PeriodSegments updated ! index \<in> set (rp_PeriodSegments updated)"
    using 2(3,4) by simp_all
  then have "urls m \<subseteq> urls (concat (rp_PeriodSegments target)) \<union> urls (concat (rp_PeriodSegments updated))"
    using mergeDynamicMultiPeriodSegments_urls [OF m(1)] unfolding urls_concat by blast
  moreover have "urls (concat periods) \<subseteq> urls (concat (merged @ [m])) \<union> urls (concat (rp_PeriodSegments target)) \<union>
      urls (concat (rp_PeriodSegments updated))"
    using 2 m by (auto split: if_splits)
  ultimately show ?case by auto
qed auto

lemma mergeDynamicMultiPeriodRepresentation_result:
  assumes "mergeDynamicMultiPeriodRepresentation target updated = Inr r"
  shows "same_track target r \<and> shape r \<and> representation_urls r \<subseteq> representation_urls target \<union> representation_urls updated"
proof -
  from assms obtain periods where p: "merge_periods target updated 0 (length (rp_PeriodSegments target)) [] = Inr periods"
      "length (rp_PeriodSegments target) = length (rp_PeriodSegments updated)"
      "r = target\<lparr>rp_PeriodSegments := periods, rp_Segments := concat periods\<rparr>"
    by (auto simp: mergeDynamicMultiPeriodRepresentation_def split: if_splits sum.splits)
  from merge_periods_urls [OF p(1)] p(2,3) show ?thesis
    by (auto simp: shape_def representation_urls_def)
qed

lemma target_index_less: "target_index selected key = Some i \<Longrightarrow> i < length selected"
  by (auto simp: target_index_def find_Some_iff rev_nth)

lemma list_all2_update:
  assumes "i < length xs" and "\<And>x. P x x" and "P (xs ! i) y"
  shows "list_all2 P xs (xs[i := y])"
  using assms by (auto simp: list_all2_conv_all_nth nth_list_update)

lemma selection_urls_update: "selection_urls (xs[i := r]) \<subseteq> selection_urls xs \<union> representation_urls r"
  using set_update_subset_insert [of xs i r] by (auto simp: selection_urls_def)

lemma merge_update_result:
  assumes "merge_update selected r = Inr selected'"
  shows "list_all2 same_track selected selected' \<and> selection_urls selected' \<subseteq> selection_urls selected \<union> representation_urls r \<and>
    (list_all shape selected \<longrightarrow> list_all shape selected')"
proof (cases "target_index selected (representationKey r)")
  case None
  with assms show ?thesis by (simp add: merge_update_def list_all2_refl)
next
  case (Some i)
  let ?t = "selected ! i"
  have i: "i < length selected" using Some by (rule target_index_less)
  have "\<exists>m. selected' = selected[i := m] \<and> same_track ?t m \<and> shape m \<and>
      representation_urls m \<subseteq> representation_urls ?t \<union> representation_urls r"
  proof (cases "rp_PeriodSegments ?t = []")
    case True
    with assms Some have "selected' = selected[i := ?t\<lparr>rp_Segments := mergeSegments (rp_Segments ?t) (rp_Segments r)\<rparr>]"
      by (simp add: merge_update_def Let_def)
    with True mergeSegments_urls [of "rp_Segments ?t" "rp_Segments r"] show ?thesis
      by (intro exI [of _ "?t\<lparr>rp_Segments := mergeSegments (rp_Segments ?t) (rp_Segments r)\<rparr>"])
         (auto simp: shape_def representation_urls_def)
  next
    case False
    with assms Some obtain m where "mergeDynamicMultiPeriodRepresentation ?t r = Inr m" "selected' = selected[i := m]"
      by (auto simp: merge_update_def Let_def split: sum.splits)
    with mergeDynamicMultiPeriodRepresentation_result show ?thesis by blast
  qed
  then obtain m where m: "selected' = selected[i := m]" "same_track ?t m" "shape m"
      "representation_urls m \<subseteq> representation_urls ?t \<union> representation_urls r" by blast
  have "representation_urls ?t \<subseteq> selection_urls selected"
    using i nth_mem [OF i] unfolding selection_urls_def by blast
  with m(1,4) selection_urls_update [of selected i m] have "selection_urls selected' \<subseteq> selection_urls selected \<union> representation_urls r"
    by blast
  moreover have "list_all2 same_track selected selected'"
    unfolding m(1) using i m(2) by (intro list_all2_update) simp_all
  moreover have "list_all shape selected \<longrightarrow> list_all shape selected'"
    using m(1,3) set_update_subset_insert [of selected i m] by (auto simp: list_all_iff)
  ultimately show ?thesis by blast
qed

lemma same_tracks_trans: "list_all2 same_track xs ys \<Longrightarrow> list_all2 same_track ys zs \<Longrightarrow> list_all2 same_track xs zs"
  by (rule list_all2_trans [of same_track same_track same_track]) (simp_all add: same_track_def)

lemma merge_updates_result:
  "merge_updates selected rs = Inr selected' \<Longrightarrow>
     list_all2 same_track selected selected' \<and> selection_urls selected' \<subseteq> selection_urls selected \<union> selection_urls rs \<and>
     (list_all shape selected \<longrightarrow> list_all shape selected')"
proof (induction rs arbitrary: selected)
  case Nil
  then show ?case by (simp add: list_all2_refl)
next
  case (Cons r rs)
  from Cons.prems obtain next_selected where run: "merge_update selected r = Inr next_selected" "merge_updates next_selected rs = Inr selected'"
    by (auto split: sum.splits)
  note step = merge_update_result [OF run(1)] and rest = Cons.IH [OF run(2)]
  from step rest have "list_all2 same_track selected selected'" by (blast intro: same_tracks_trans)
  moreover from step rest have "selection_urls selected' \<subseteq> selection_urls selected \<union> selection_urls (r # rs)" by auto
  moreover from step rest have "list_all shape selected \<longrightarrow> list_all shape selected'" by blast
  ultimately show ?case by blast
qed

text \<open>
  A later snapshot of a single period whose representation has changed to a segment index: the marker enters the plan as it is, since only the
  first snapshot is expanded.
\<close>

lemma refreshed_marker_is_not_expanded:
  assumes "target_index selected (representationKey r) = Some i" "rp_PeriodSegments (selected ! i) = []" "rp_Segments r = [marker]"
    and "segmentKey marker \<notin> segmentKey ` set (rp_Segments (selected ! i))"
  shows "merge_update selected r =
    Inr (selected[i := (selected ! i)\<lparr>rp_Segments := rp_Segments (selected ! i) @ [marker]\<rparr>])"
  using assms by (simp add: merge_update_def mergeSegments_def Let_def)

lemma add_leaves_urls: "add_leaves a xs = (a', e) \<Longrightarrow> urls (sa_segments a') \<subseteq> urls (sa_segments a) \<union> urls xs"
proof (induction a xs rule: add_leaves.induct)
  case (2 a segment rest)
  then show ?case by (fastforce simp: Let_def split: if_splits)
qed simp

lemma mergeMediaWindow_urls: "mergeMediaWindow a xs = (a', e) \<Longrightarrow> urls (sa_segments a') \<subseteq> urls (sa_segments a) \<union> urls xs"
proof -
  assume m: "mergeMediaWindow a xs = (a', e)"
  have "urls (drop n xs) \<subseteq> urls xs" for n by (rule urls_mono) (rule set_drop_subset)
  with m show ?thesis
    by (fastforce simp: mergeMediaWindow_def split: option.splits sum.splits prod.splits dest: add_leaves_urls)
qed

lemma merge_urls:
  assumes "merge a expanded = (a', e)"
  shows "urls (sa_segments a') \<subseteq> urls (sa_segments a) \<union> urls expanded"
proof -
  let ?media = "filter (\<lambda>s. \<not> sg_Initialize s) expanded"
  have media: "urls ?media \<subseteq> urls expanded" and inits: "urls (filter sg_Initialize expanded) \<subseteq> urls expanded"
    by (rule urls_mono, simp)+
  consider "a' = a" | "mergeMediaWindow a ?media = (a', e)"
    | init where "filter sg_Initialize expanded = [init]"
        "mergeMediaWindow (a\<lparr>sa_initKey := segmentKey init, sa_segments := init # sa_segments a\<rparr>) ?media = (a', e)"
    using assms by (auto simp: merge_def Let_def split: list.splits if_splits)
  then show ?thesis
  proof cases
    case 2
    from mergeMediaWindow_urls [OF this] media show ?thesis by blast
  next
    case (3 init)
    from mergeMediaWindow_urls [OF 3(2)] media inits 3(1) show ?thesis by auto
  qed auto
qed

section \<open>Accepted manifests\<close>

definition entries_within :: "string set \<Rightarrow> poll_entry list \<Rightarrow> bool" where
  "entries_within U entries \<longleftrightarrow> (\<forall>e \<in> set entries. urls (sa_segments (en_accumulator e)) \<subseteq> U)"

text \<open>
  The contract of a loader: the segments of a manifest it returns have URLs of a given set. What polling makes of later
  manifests then stays within the set.
\<close>

locale accepting_loader =
  fixes load_mpd :: "'w \<Rightarrow> string \<Rightarrow> 'w \<times> (dash_error + MPD)"
    and U :: "string set"
  assumes load_accepted: "load_mpd w url = (w', Inr mpd) \<Longrightarrow> selection_urls (mpd_Representations mpd) \<subseteq> U"
begin

lemma poll_entries_within: "poll_entries c present rs = Inr entries \<Longrightarrow> entries_within U entries"
proof (induction rs arbitrary: present entries)
  case (Cons r rs)
  then show ?case by (fastforce simp: entries_within_def newSegmentAccumulator_def split: sum.splits if_splits)
qed (simp add: entries_within_def)

lemma process_entries_within:
  "process_entries env c w rs entries = (w', Inr entries') \<Longrightarrow> selection_urls rs \<subseteq> U \<Longrightarrow> entries_within U entries \<Longrightarrow>
     entries_within U entries'"
proof (induction entries arbitrary: w w' entries')
  case (Cons e entries)
  from Cons.prems(1) obtain r w0 w1 session expanded a more where
    step: "matchRepresentation rs (en_profile e) = Inr r"
      "expandSIDXSegmentsWithSession (pl_index env) c w0 (rp_Segments r) (Some (en_session e)) = (w1, session, Inr expanded)"
      "merge (en_accumulator e) expanded = (a, None)" "process_entries env c w1 rs entries = (w', Inr more)"
      "entries' = e\<lparr>en_accumulator := a, en_session := the session\<rparr> # more"
    by (auto split: sum.splits option.splits prod.splits)
  have "filter (\<lambda>r. representationKey r = pf_key (en_profile e)) rs = [r]"
    using step(1) by (auto simp: matchRepresentation_def split: list.splits)
  then have "r \<in> set rs" by (metis filter_is_subset list.set_intros(1) subsetD)
  then have "urls (rp_Segments r) \<subseteq> U"
    using Cons.prems(2) by (auto simp: selection_urls_subset_iff representation_urls_def)
  with expandSIDXSegmentsWithSession_urls [OF step(2)] merge_urls [OF step(3)] Cons.prems(3)
  have "urls (sa_segments a) \<subseteq> U" by (auto simp: entries_within_def)
  with Cons.IH [OF step(4) Cons.prems(2)] Cons.prems(3) step(5) show ?case by (simp add: entries_within_def)
qed simp

lemma processSnapshot_within:
  "processSnapshot env c w rs entries = (w', Inr entries') \<Longrightarrow> selection_urls rs \<subseteq> U \<Longrightarrow> entries_within U entries \<Longrightarrow>
     entries_within U entries'"
  by (simp add: processSnapshot_def split: prod.splits)
     (erule process_entries_within, assumption, simp add: entries_within_def)

lemma poll_loop_within:
  assumes "pl_load env = load_mpd"
  shows "poll_loop env c url n live interval w entries = (w', Inr entries') \<Longrightarrow> entries_within U entries \<Longrightarrow> entries_within U entries'"
proof (induction n arbitrary: live interval w entries)
  case (Suc n)
  show ?case
  proof (cases live)
    case True
    with Suc.prems(1) obtain w1 w2 w3 mpd next_entries live' interval' where
      run: "load_mpd w1 url = (w2, Inr mpd)"
        "processSnapshot env c w2 (mpd_Representations mpd) entries = (w3, Inr next_entries)"
        "poll_loop env c url n live' interval' w3 next_entries = (w', Inr entries')"
      by (auto simp: assms split: prod.splits option.splits sum.splits if_splits)
    from processSnapshot_within [OF run(2) load_accepted [OF run(1)] Suc.prems(2)] Suc.IH [OF run(3)]
    show ?thesis by blast
  next
    case False
    with Suc.prems show ?thesis by simp
  qed
qed simp

end

lemma first_rejected_None: "first_rejected c segments = None \<longleftrightarrow> (\<forall>s \<in> set segments. validateURL c (sg_URL s) = None)"
  by (auto simp: first_rejected_def find_None_iff split: option.splits dest: find_Some_iff [THEN iffD1])

definition accepted :: "DashConfig \<Rightarrow> string set" where
  "accepted c = {u. validateURL c u = None}"

lemma load_result:
  assumes "load env c w url = (w', Inr mpd)"
  shows "selection_urls (mpd_Representations mpd) \<subseteq> accepted c"
proof -
  from assms have "validateMPDURLs c mpd = None"
    by (auto simp: load_def load_checked_def split: option.splits prod.splits sum.splits)
  then show ?thesis
    by (auto simp: validateMPDURLs_def first_rejected_None accepted_def selection_urls_def representation_urls_def urls_def)
qed

interpretation loads: accepting_loader "load env c" "accepted c" for env c
  by unfold_locales (rule load_result)

section \<open>The plan of a download\<close>

lemma polled_result:
  assumes "pollDynamicSIDX (poll_env_of env c) c w manifestURL mpd selected = (w', Inr selected')" and "selection_urls selected \<subseteq> accepted c"
  shows "list_all2 same_track selected selected' \<and> selection_urls selected' \<subseteq> accepted c \<and>
    list_all (\<lambda>r. int (length (rp_Segments r)) \<le> dc_MaxSegments c + (int (length (rp_Segments r)) - int (mediaSegmentCount (rp_Segments r))) \<and>
                  int (length (rp_Segments r)) \<le> fragmentHardSegmentCap) selected'"
proof -
  let ?env = "poll_env_of env c"
  let ?fits = "\<lambda>r. int (length (rp_Segments r)) \<le> dc_MaxSegments c + (int (length (rp_Segments r)) - int (mediaSegmentCount (rp_Segments r))) \<and>
    int (length (rp_Segments r)) \<le> fragmentHardSegmentCap"
  obtain first w1 second n live interval final where run: "poll_entries c {} selected = Inr first"
      "processSnapshot ?env c w selected first = (w1, Inr second)" "poll_loop ?env c manifestURL n live interval w1 second = (w', Inr final)"
      "list_all2 (\<lambda>r r'. planned c final r = Inr r') selected selected'"
    using assms(1) by (rule pollDynamicSIDX_run)
  have eq: "pl_load ?env = load (dn_load env) c" by (simp add: poll_env_of_def)
  have second: "entries_within (accepted c) second"
    by (rule loads.processSnapshot_within [OF run(2) assms(2) loads.poll_entries_within [OF run(1)]])
  have within: "entries_within (accepted c) final"
    by (rule loads.poll_loop_within [OF eq run(3) second])
  have ok: "list_all poll_entry_ok final"
    by (rule poll_loop_ok [OF run(3) processSnapshot_ok [OF run(2) poll_entries_ok [OF run(1)]]])
  have "same_track r r' \<and> representation_urls r' \<subseteq> representation_urls r \<union> accepted c \<and> ?fits r'" if p: "planned c final r = Inr r'" for r r'
  proof -
    from p obtain e where e: "e \<in> set final" "r' = r\<lparr>rp_Segments := sa_segments (en_accumulator e)\<rparr>"
      by (auto simp: planned_def Let_def find_Some_iff split: option.splits intro: nth_mem that)
    then have "representation_urls r' \<subseteq> representation_urls r \<union> accepted c"
      using within by (auto simp: entries_within_def representation_urls_def)
    moreover obtain init leaves where shape: "r' = r\<lparr>rp_Segments := init @ leaves\<rparr>" "list_all sg_Initialize init"
        "list_all (\<lambda>s. \<not> sg_Initialize s) leaves" "int (length leaves) \<le> dc_MaxSegments c"
        "int (length (init @ leaves)) \<le> fragmentHardSegmentCap"
      using planned_ok [OF p ok] by auto
    have "filter (\<lambda>s. \<not> sg_Initialize s) (init @ leaves) = leaves"
      using shape(2,3) by (auto simp: list_all_iff filter_empty_conv filter_id_conv)
    then have "?fits r'" using shape(1,4,5) by (simp add: mediaSegmentCount_def)
    ultimately show ?thesis using e(2) by simp
  qed
  with run(4) assms(2) show ?thesis
    by (induction rule: list_all2_induct) auto
qed

lemma refresh_loop_result:
  "refresh_loop env c manifestURL mpd n interval w selected = (w', Inr selected') \<Longrightarrow> selection_urls selected \<subseteq> accepted c \<Longrightarrow>
     list_all shape selected \<Longrightarrow>
     list_all2 same_track selected selected' \<and> selection_urls selected' \<subseteq> accepted c \<and> list_all shape selected'"
proof (induction n arbitrary: interval w selected)
  case 0
  then show ?case by (simp add: list_all2_refl)
next
  case (Suc n)
  from Suc.prems(1) obtain w1 w2 w3 updated updatedSelected merged where
    step: "load (dn_load env) c w1 manifestURL = (w2, Inr updated)" "select_step env w2 updated = (w3, Inr updatedSelected)"
      "merge_snapshot mpd updated updatedSelected selected = Inr merged"
    and rest: "(w3, Inr merged) = (w', Inr selected') \<or>
      (\<exists>interval'. refresh_loop env c manifestURL mpd n interval' w3 merged = (w', Inr selected'))"
    by (fastforce split: prod.splits option.splits sum.splits if_splits)
  from step(3) have "merge_updates selected updatedSelected = Inr merged"
    by (auto simp: merge_snapshot_def split: option.splits sum.splits if_splits)
  note m = merge_updates_result [OF this]
  have "selection_urls merged \<subseteq> accepted c"
    using m select_step_result(1) [OF step(2)] loads.load_accepted [OF step(1)] Suc.prems(2) by blast
  with rest Suc.IH m Suc.prems(3) show ?case by (blast intro: same_tracks_trans)
qed

lemma refresh_selected_result:
  assumes "refresh_selected env c manifestURL mpd w selected = (w', Inr selected')" "selection_urls selected \<subseteq> accepted c"
    "list_all shape selected"
  shows "list_all2 same_track selected selected' \<and> selection_urls selected' \<subseteq> accepted c \<and> list_all shape selected'"
  using assms by (auto simp: refresh_selected_def list_all2_refl split: if_splits sum.splits dest: refresh_loop_result)

text \<open>What holds of the tracks when the first byte is written.\<close>

definition ready :: "DashConfig \<Rightarrow> bool \<Rightarrow> bool \<Rightarrow> Representation list \<Rightarrow> bool" where
  "ready c multi dynamicSIDX selected \<longleftrightarrow>
     distinct (map trackSuffix selected) \<and> selection_urls selected \<subseteq> accepted c \<and>
     list_all (\<lambda>r. if dynamicSIDX then \<not> multi \<and> int (length (rp_Segments r)) \<le> job_limit c True (rp_Segments r)
                   else shape r \<and> int (length (rp_Segments r)) \<le> dc_MaxSegments c) selected"

lemma check_budgets_None: "check_budgets c dynamicSIDX rs = None \<longleftrightarrow> (\<forall>r \<in> set rs. check_budget c dynamicSIDX r = None)"
  by (auto simp: check_budgets_def find_None_iff split: option.splits dest: find_Some_iff [THEN iffD1])

lemma plan_segments_ready:
  assumes plan: "plan_segments env c manifestURL mpd w selected = (w', Inr selected')"
    and dynamicSIDX: "dynamicSIDX = (mpd_Dynamic mpd \<and> hasSIDXMarkers selected)"
    and budgets: "check_budgets c dynamicSIDX selected' = None"
    and start: "selection_urls selected \<subseteq> accepted c" "distinct (map trackSuffix selected)" "dc_MaxSegments c \<noteq> 0"
  shows "ready c (mpd_PeriodCount mpd > 1) dynamicSIDX selected'"
proof (cases dynamicSIDX)
  case True
  with plan dynamicSIDX have "\<not> mpd_PeriodCount mpd > 1"
    and polled: "pollDynamicSIDX (poll_env_of env c) c w manifestURL mpd selected = (w', Inr selected')"
    by (auto simp: plan_segments_def split: if_splits option.splits)
  moreover have "0 < dc_MaxSegments c" if "r \<in> set selected'" for r
  proof -
    have "validateDynamicSIDXOutputBudget (rp_Segments r) (dc_MaxSegments c) = None"
      using that budgets True by (simp add: check_budgets_None check_budget_def)
    then have "0 \<le> dc_MaxSegments c"
      by (auto simp: validateDynamicSIDXOutputBudget_def validateDynamicSIDXMaxSegmentsConfigured_def split: if_splits)
    with start(3) show ?thesis by simp
  qed
  ultimately show ?thesis
    using polled_result [OF polled start(1)] start(2) True same_tracks_suffixes
    by (auto simp: ready_def list_all_iff job_limit_def Let_def)
next
  case False
  with plan dynamicSIDX obtain w1 expanded where
    run: "expand_selected (ld_index (dn_load env)) c w selected = (w1, Inr expanded)"
      "refresh_selected env c manifestURL mpd w1 expanded = (w', Inr selected')"
    by (auto simp: plan_segments_def split: if_splits prod.splits sum.splits)
  note e = expand_selected_result [OF run(1)]
  have "selection_urls expanded \<subseteq> accepted c" using e start(1) by blast
  with refresh_selected_result [OF run(2)] e
  have r: "list_all2 same_track expanded selected'" "selection_urls selected' \<subseteq> accepted c" "list_all shape selected'"
    by blast+
  have "list_all (\<lambda>r. int (length (rp_Segments r)) \<le> dc_MaxSegments c) selected'"
    using budgets False
    by (auto simp: check_budgets_None check_budget_def list_all_iff split: if_splits)
  with r e start(2) False same_tracks_suffixes show ?thesis by (auto simp: ready_def list_all_iff)
qed

lemma plan_download_ready:
  assumes "plan_download env c options w manifestURL = (w', Inr (mpd, selected, dynamicSIDX))" and "dc_MaxSegments c \<noteq> 0"
  shows "ready c (mpd_PeriodCount mpd > 1) dynamicSIDX selected"
proof -
  from assms(1) obtain w1 w2 initial where run: "load (dn_load env) c w manifestURL = (w1, Inr mpd)" "select_step env w1 mpd = (w2, Inr initial)"
      "plan_segments env c manifestURL mpd w2 initial = (w', Inr selected)" "dynamicSIDX = (mpd_Dynamic mpd \<and> hasSIDXMarkers initial)"
      "check_budgets c dynamicSIDX selected = None"
    by (auto simp: plan_download_def plan_selected_def Let_def split: if_splits prod.splits sum.splits option.splits)
  have "selection_urls initial \<subseteq> accepted c"
    using select_step_result(1) [OF run(2)] loads.load_accepted [OF run(1)] by blast
  from plan_segments_ready [OF run(3,4,5) this select_step_result(2) [OF run(2)] assms(2)] show ?thesis .
qed

end
