(* ===== verification/DashOutput.thy ===== *)
theory DashOutput
  imports DashPlan
begin

text \<open>
  What a download does with its plan: the jobs given to the fragment engine, the destinations of tracks and periods, and the files that remain
  after a failure.
\<close>

section \<open>What the fragment engine is given\<close>

definition job_ok :: "DashConfig \<Rightarrow> fragment_job \<Rightarrow> bool" where
  "job_ok c job \<longleftrightarrow>
     (\<forall>s \<in> set (fj_Segments job). validateURL c (fs_URL s) = None) \<and> int (length (fj_Segments job)) \<le> fj_MaxSegments job"

lemma job_of_ok:
  assumes "urls plan \<subseteq> accepted c" and "int (length plan) \<le> job_limit c dynamicSIDX plan"
  shows "job_ok c (job_of c options plan root destination overwrite dynamicSIDX r periodIndex checkpointable)"
proof -
  have "\<forall>s \<in> set plan. validateURL c (sg_URL s) = None" using assms(1) by (auto simp: urls_def accepted_def)
  with assms(2) show ?thesis
    by (auto simp: job_ok_def job_of_def fragment_of_def in_set_enumerate_eq)
qed

text \<open>Two engines that agree on the jobs that are in order.\<close>

definition agree :: "DashConfig \<Rightarrow> 'w fragment_env \<Rightarrow> 'w fragment_env \<Rightarrow> bool" where
  "agree c fx fy \<longleftrightarrow> fx_remove fx = fx_remove fy \<and> (\<forall>w job. job_ok c job \<longrightarrow> fx_download fx w job = fx_download fy w job)"

lemma downloadSegments_agree:
  assumes "agree c fx fy" "urls plan \<subseteq> accepted c" "int (length plan) \<le> job_limit c dynamicSIDX plan"
  shows "downloadSegments fx c options w plan root destination overwrite dynamicSIDX r periodIndex checkpointable =
    downloadSegments fy c options w plan root destination overwrite dynamicSIDX r periodIndex checkpointable"
  using assms job_of_ok [OF assms(2,3)] by (simp add: downloadSegments_def agree_def)

lemma download_periods_agree:
  assumes "agree c fx fy"
  shows "list_all (\<lambda>ss. urls ss \<subseteq> accepted c \<and> int (length ss) \<le> dc_MaxSegments c) periods \<Longrightarrow>
    download_periods fx c options p r i w finished periods = download_periods fy c options p r i w finished periods"
proof (induction periods arbitrary: i w finished)
  case (Cons ss periods)
  have "downloadSegments fx c options w ss (op_OutputRoot p) d (op_Overwrite p) False r (int i) False =
      downloadSegments fy c options w ss (op_OutputRoot p) d (op_Overwrite p) False r (int i) False" for d
    by (rule downloadSegments_agree [OF assms]) (use Cons.prems in \<open>simp_all add: job_limit_def\<close>)
  with Cons show ?case by (auto split: prod.splits sum.splits)
qed simp

lemma period_lengths:
  assumes "shape r" "ss \<in> set (rp_PeriodSegments r)" "int (length (rp_Segments r)) \<le> m"
  shows "int (length ss) \<le> m"
proof -
  have "rp_Segments r = concat (rp_PeriodSegments r)" using assms(1,2) by (auto simp: shape_def)
  moreover have "length ss \<le> length (concat (rp_PeriodSegments r))"
    using member_le_sum_list [of "length ss" "map length (rp_PeriodSegments r)"] assms(2) by (simp add: length_concat)
  ultimately show ?thesis using assms(3) by simp
qed

lemma download_tracks_agree:
  assumes "agree c fx fy"
  shows "ready c (op_MultiPeriod p) (op_DynamicSIDX p) rs \<Longrightarrow>
    download_tracks fx c options p w tracks rs = download_tracks fy c options p w tracks rs"
proof (induction rs arbitrary: w tracks)
  case (Cons r rs)
  have rest: "ready c (op_MultiPeriod p) (op_DynamicSIDX p) rs" using Cons.prems by (auto simp: ready_def)
  have urls: "urls (rp_Segments r) \<subseteq> accepted c" "urls (concat (rp_PeriodSegments r)) \<subseteq> accepted c"
    using Cons.prems by (auto simp: ready_def representation_urls_def)
  have remove: "removePeriodDownloads fx = removePeriodDownloads fy"
    using assms by (intro ext) (simp add: removePeriodDownloads_def agree_def)
  show ?case
  proof (cases "op_MultiPeriod p")
    case True
    then have limits: "shape r" "int (length (rp_Segments r)) \<le> dc_MaxSegments c"
      using Cons.prems by (auto simp: ready_def split: if_splits)
    have "download_periods fx c options p r 0 w [] (rp_PeriodSegments r) = download_periods fy c options p r 0 w [] (rp_PeriodSegments r)"
      using urls(2) period_lengths [OF limits(1) _ limits(2)]
      by (intro download_periods_agree [OF assms]) (auto simp: list_all_iff urls_concat)
    with True Cons.IH [OF rest] remove show ?thesis
      by (auto split: prod.splits option.splits)
  next
    case False
    have "int (length (rp_Segments r)) \<le> job_limit c (op_DynamicSIDX p) (rp_Segments r)"
      using Cons.prems by (auto simp: ready_def job_limit_def split: if_splits)
    from downloadSegments_agree [OF assms urls(1) this] False Cons.IH [OF rest] show ?thesis
      by (auto split: prod.splits sum.splits)
  qed
qed simp

text \<open>The plan is made without the engine.\<close>

lemma engine_fields:
  "dn_load (env\<lparr>dn_fragment := fx\<rparr>) = dn_load env" "dn_ranks (env\<lparr>dn_fragment := fx\<rparr>) = dn_ranks env"
  "dn_signature_ranks (env\<lparr>dn_fragment := fx\<rparr>) = dn_signature_ranks env" "dn_lstat (env\<lparr>dn_fragment := fx\<rparr>) = dn_lstat env"
  by simp_all

lemma refresh_loop_engine:
  "refresh_loop (env\<lparr>dn_fragment := fx\<rparr>) c manifestURL mpd n interval w selected = refresh_loop env c manifestURL mpd n interval w selected"
proof (induction n arbitrary: interval w selected)
  case (Suc n)
  show ?case unfolding refresh_loop.simps Suc.IH select_step_def engine_fields ..
qed simp

lemma plan_download_engine: "plan_download (env\<lparr>dn_fragment := fx\<rparr>) c options w manifestURL = plan_download env c options w manifestURL"
  unfolding plan_download_def plan_selected_def plan_segments_def refresh_selected_def refresh_loop_engine select_step_def poll_env_of_def
    engine_fields ..

section \<open>Files\<close>

text \<open>A ghost log of what the fragment engine was asked and answered, and of what was removed.\<close>

datatype file_event = Fetched fragment_job "nat + fragment_result" | Removed string

definition traced :: "'w fragment_env \<Rightarrow> ('w \<times> file_event list) fragment_env" where
  "traced fx =
     \<lparr>fx_download = (\<lambda>(w, log) job. case fx_download fx w job of (w, r) \<Rightarrow> ((w, log @ [Fetched job r]), r)),
      fx_remove = (\<lambda>(w, log) path. (fx_remove fx w path, log @ [Removed path]))\<rparr>"

fun written :: "file_event list \<Rightarrow> string list" where
  "written [] = []"
| "written (Fetched job (Inr d) # events) = fr_Path d # written events"
| "written (_ # events) = written events"

fun removed :: "file_event list \<Rightarrow> string list" where
  "removed [] = []"
| "removed (Removed path # events) = path # removed events"
| "removed (_ # events) = removed events"

fun destinations :: "file_event list \<Rightarrow> string list" where
  "destinations [] = []"
| "destinations (Fetched job _ # events) = fj_Destination job # destinations events"
| "destinations (_ # events) = destinations events"

lemma log_append [simp]:
  "written (xs @ ys) = written xs @ written ys" "removed (xs @ ys) = removed xs @ removed ys"
  "destinations (xs @ ys) = destinations xs @ destinations ys"
  by (induction xs rule: written.induct; simp)+

lemma log_removals [simp]: "written (map Removed ps) = []" "removed (map Removed ps) = ps" "destinations (map Removed ps) = []"
  by (induction ps) simp_all

lemma downloadSegments_traced:
  assumes "downloadSegments (traced fx) c options (w, log) plan root destination overwrite dynamicSIDX r i checkpointable = ((w', log'), res)"
  shows "\<exists>job x. log' = log @ [Fetched job x] \<and> fj_Destination job = destination \<and>
    res = (case x of Inl e \<Rightarrow> Inl (DashFragment e) | Inr d \<Rightarrow> Inr d)"
proof -
  let ?job = "job_of c options plan root destination overwrite dynamicSIDX r i checkpointable"
  obtain w1 x where "fx_download fx w ?job = (w1, x)" by fastforce
  with assms have "log' = log @ [Fetched ?job x] \<and> res = (case x of Inl e \<Rightarrow> Inl (DashFragment e) | Inr d \<Rightarrow> Inr d)"
    by (cases x) (simp_all add: downloadSegments_def traced_def)
  moreover have "fj_Destination ?job = destination" by (simp add: job_of_def)
  ultimately show ?thesis by blast
qed

text \<open>A piece of log without removals, with the given files written and the given destinations asked for.\<close>

definition fetches :: "file_event list \<Rightarrow> fragment_result list \<Rightarrow> string list \<Rightarrow> bool" where
  "fetches events ds asked \<longleftrightarrow> removed events = [] \<and> written events = map fr_Path ds \<and> destinations events = asked"

lemma fetches_append: "fetches xs ds asked \<Longrightarrow> fetches ys es asked' \<Longrightarrow> fetches (xs @ ys) (ds @ es) (asked @ asked')"
  by (simp add: fetches_def)

lemma download_periods_traced:
  "download_periods (traced fx) c options p r i (w, log) finished periods = ((w', log'), finished', err) \<Longrightarrow>
     \<exists>events ds n. log' = log @ events \<and> finished' = finished @ ds \<and>
       fetches events ds (map (period_destination (op_Destination p) r) [i..<i + n]) \<and>
       n \<le> length periods \<and> (err = None \<longrightarrow> n = length periods)"
proof (induction periods arbitrary: i w log finished)
  case Nil
  then show ?case by (intro exI [of _ "[]"] exI [of _ 0]) (simp add: fetches_def)
next
  case (Cons ss periods)
  let ?destination = "period_destination (op_Destination p) r i"
  obtain w1 log1 res where d: "downloadSegments (traced fx) c options (w, log) ss (op_OutputRoot p) ?destination (op_Overwrite p) False r (int i)
      False = ((w1, log1), res)"
    by (metis surj_pair)
  from downloadSegments_traced [OF d] obtain job x where job: "log1 = log @ [Fetched job x]" "fj_Destination job = ?destination"
      "res = (case x of Inl e \<Rightarrow> Inl (DashFragment e) | Inr d \<Rightarrow> Inr d)" by blast
  show ?case
  proof (cases x)
    case (Inl e)
    with Cons.prems d job show ?thesis
      by (intro exI [of _ "[Fetched job x]"] exI [of _ "[]"] exI [of _ 1]) (auto simp: fetches_def)
  next
    case (Inr a)
    with Cons.prems d job have rest: "download_periods (traced fx) c options p r (i + 1) (w1, log1) (finished @ [a]) periods = ((w', log'), finished', err)"
      by simp
    from Cons.IH [OF this] obtain events ds n where e: "log' = log1 @ events" "finished' = (finished @ [a]) @ ds"
        "fetches events ds (map (period_destination (op_Destination p) r) [i + 1..<i + 1 + n])" "n \<le> length periods"
        "err = None \<longrightarrow> n = length periods" by blast
    have "[i..<i + Suc n] = i # [i + 1..<i + 1 + n]" by (simp add: upt_conv_Cons)
    moreover have "fetches [Fetched job x] [a] [?destination]" using Inr job(2) by (simp add: fetches_def)
    ultimately have "fetches ([Fetched job x] @ events) ([a] @ ds) (map (period_destination (op_Destination p) r) [i..<i + Suc n])"
      using fetches_append [OF _ e(3)] by fastforce
    with e job(1) show ?thesis
      by (intro exI [of _ "[Fetched job x] @ events"] exI [of _ "[a] @ ds"] exI [of _ "Suc n"]) simp
  qed
qed

lemma removePeriodDownloads_traced: "\<exists>w'. removePeriodDownloads (traced fx) ds (w, log) = (w', log @ map Removed (map fr_Path ds))"
proof (induction ds arbitrary: w log)
  case (Cons d ds)
  from Cons [of "fx_remove fx w (fr_Path d)" "log @ [Removed (fr_Path d)]"] show ?case
    by (simp add: removePeriodDownloads_def traced_def)
qed (simp add: removePeriodDownloads_def)

definition track_downloads :: "TrackResult list \<Rightarrow> fragment_result list" where
  "track_downloads tracks = concat (map tr_PeriodDownloads tracks)"

lemma track_downloads_simps [simp]:
  "track_downloads [] = []" "track_downloads (tracks @ [t]) = track_downloads tracks @ tr_PeriodDownloads t"
  by (simp_all add: track_downloads_def)

lemma remove_tracks_traced:
  "\<exists>w'. fold (\<lambda>t. removePeriodDownloads (traced fx) (tr_PeriodDownloads t)) tracks (w, log) =
     (w', log @ map Removed (map fr_Path (track_downloads tracks)))"
proof (induction tracks arbitrary: w log)
  case (Cons t tracks)
  obtain w1 where "removePeriodDownloads (traced fx) (tr_PeriodDownloads t) (w, log) = (w1, log @ map Removed (map fr_Path (tr_PeriodDownloads t)))"
    using removePeriodDownloads_traced [of fx "tr_PeriodDownloads t" w log] by blast
  with Cons [of w1 "log @ map Removed (map fr_Path (tr_PeriodDownloads t))"] show ?case
    by (simp add: track_downloads_def)
qed simp

lemma cleanup_traced:
  "\<exists>w'. fold (\<lambda>t. removePeriodDownloads (traced fx) (tr_PeriodDownloads t)) tracks (removePeriodDownloads (traced fx) finished (w, log)) =
     (w', log @ map Removed (map fr_Path (finished @ track_downloads tracks)))"
proof -
  obtain w1 where "removePeriodDownloads (traced fx) finished (w, log) = (w1, log @ map Removed (map fr_Path finished))"
    using removePeriodDownloads_traced [of fx finished w log] by blast
  with remove_tracks_traced [of fx tracks w1 "log @ map Removed (map fr_Path finished)"] show ?thesis by simp
qed

text \<open>The destinations of a plan, in the order in which they are asked for.\<close>

definition track_destinations :: "output_plan \<Rightarrow> Representation \<Rightarrow> string list" where
  "track_destinations p r =
     (if op_MultiPeriod p then map (period_destination (op_Destination p) r) [0..<length (rp_PeriodSegments r)] else [track_destination p r])"

lemma take_destinations: "n \<le> length (rp_PeriodSegments r) \<Longrightarrow> op_MultiPeriod p \<Longrightarrow>
    map (period_destination (op_Destination p) r) [0..<n] = take n (track_destinations p r)"
  by (simp add: track_destinations_def take_map take_upt)

lemma download_tracks_destinations:
  "download_tracks (traced fx) c options p (w, log) tracks rs = ((w', log'), res) \<Longrightarrow>
     \<exists>asked. destinations log' = destinations log @ asked \<and> prefix asked (concat (map (track_destinations p) rs))"
proof (induction rs arbitrary: w log tracks)
  case (Cons r rs)
  show ?case
  proof (cases "op_MultiPeriod p")
    case True
    obtain w1 log1 finished err where d: "download_periods (traced fx) c options p r 0 (w, log) [] (rp_PeriodSegments r) = ((w1, log1), finished, err)"
      by (metis surj_pair)
    obtain events ds n where e: "log1 = log @ events" "fetches events ds (map (period_destination (op_Destination p) r) [0..<n])"
        "n \<le> length (rp_PeriodSegments r)" "err = None \<longrightarrow> n = length (rp_PeriodSegments r)"
      using download_periods_traced [OF d] by auto
    have asked: "destinations log1 = destinations log @ take n (track_destinations p r)"
      using e take_destinations [OF e(3) True] by (simp add: fetches_def)
    show ?thesis
    proof (cases err)
      case None
      with True d Cons.prems have rest: "download_tracks (traced fx) c options p (w1, log1)
          (tracks @ [\<lparr>tr_Representation = r, tr_Download = zero_result, tr_PeriodDownloads = finished\<rparr>]) rs = ((w', log'), res)"
        by simp
      from None e(4) True have "take n (track_destinations p r) = track_destinations p r" by (simp add: track_destinations_def)
      with Cons.IH [OF rest] asked show ?thesis by (auto intro: exI [of _ "track_destinations p r @ _"])
    next
      case (Some e)
      from True d Some Cons.prems cleanup_traced [of fx tracks finished w1 log1]
      have "log' = log1 @ map Removed (map fr_Path (finished @ track_downloads tracks))" by (elim exE) simp
      then have "destinations log' = destinations log1" by (simp only: log_append log_removals append_Nil2)
      with asked show ?thesis by (auto intro!: exI [of _ "take n (track_destinations p r)"] prefix_prefix take_is_prefix)
    qed
  next
    case False
    let ?checkpointable = "\<not> op_Dynamic p \<and> \<not> op_DynamicSIDX p \<and> op_Single p \<and> \<not> op_MultiPeriod p"
    obtain w1 log1 x where d: "downloadSegments (traced fx) c options (w, log) (rp_Segments r) (op_OutputRoot p) (track_destination p r)
        (op_Overwrite p) (op_DynamicSIDX p) r (rp_PeriodIndex r) ?checkpointable = ((w1, log1), x)"
      by (metis surj_pair)
    have asked: "destinations log1 = destinations log @ track_destinations p r"
      using downloadSegments_traced [OF d] False by (auto simp: track_destinations_def)
    show ?thesis
    proof (cases x)
      case (Inl e)
      with False d Cons.prems have "log' = log1" by simp
      with asked show ?thesis by auto
    next
      case (Inr a)
      with False d Cons.prems have "download_tracks (traced fx) c options p (w1, log1)
          (tracks @ [\<lparr>tr_Representation = r, tr_Download = a, tr_PeriodDownloads = []\<rparr>]) rs = ((w', log'), res)"
        by simp
      from Cons.IH [OF this] asked show ?thesis by (auto intro: exI [of _ "track_destinations p r @ _"])
    qed
  qed
qed simp

text \<open>Each step of a download over several periods.\<close>

lemma download_tracks_files:
  "download_tracks (traced fx) c options p (w, log) tracks rs = ((w', log'), res) \<Longrightarrow> op_MultiPeriod p \<Longrightarrow>
     removed log = [] \<Longrightarrow> written log = map fr_Path (track_downloads tracks) \<Longrightarrow>
     (case res of
        Inl e \<Rightarrow> \<exists>events paths. log' = events @ map Removed paths \<and> removed events = [] \<and> mset paths = mset (written events)
      | Inr tracks' \<Rightarrow> removed log' = [] \<and> written log' = map fr_Path (track_downloads tracks'))"
proof (induction rs arbitrary: w log tracks)
  case (Cons r rs)
  obtain w1 log1 finished err where d: "download_periods (traced fx) c options p r 0 (w, log) [] (rp_PeriodSegments r) = ((w1, log1), finished, err)"
    by (metis surj_pair)
  obtain events asked where e: "log1 = log @ events" "fetches events finished asked"
    using download_periods_traced [OF d] by auto
  have log1: "removed log1 = []" "written log1 = map fr_Path (track_downloads tracks @ finished)"
    using e Cons.prems(3,4) by (simp_all add: fetches_def)
  show ?case
  proof (cases err)
    case None
    with d Cons.prems(1,2) have "download_tracks (traced fx) c options p (w1, log1)
        (tracks @ [\<lparr>tr_Representation = r, tr_Download = zero_result, tr_PeriodDownloads = finished\<rparr>]) rs = ((w', log'), res)"
      by simp
    from Cons.IH [OF this Cons.prems(2) log1(1)] log1(2) show ?thesis by simp
  next
    case (Some failure)
    from d Some Cons.prems(1,2) cleanup_traced [of fx tracks finished w1 log1]
    have "log' = log1 @ map Removed (map fr_Path (finished @ track_downloads tracks))" "res = Inl failure" by (elim exE, simp)+
    with log1 show ?thesis
      by (auto intro!: exI [of _ log1] exI [of _ "map fr_Path (finished @ track_downloads tracks)"])
  qed
qed auto

lemma track_suffix_length: "length (trackSuffix r) = 5"
  by (auto simp: trackSuffix_def representationKind_def Let_def)

lemma padded_inject:
  assumes "replicate m (CHR ''0'') @ Itoa (int i) = replicate n (CHR ''0'') @ Itoa (int j)"
  shows "i = j"
proof -
  have "decimal (Itoa (int i)) = decimal (Itoa (int j))" using arg_cong [OF assms, of decimal] by (simp add: decimal_zeros)
  then show ?thesis by (simp add: Itoa_def decimal_digits)
qed

lemma period_destination_inject:
  assumes "period_destination d r i = period_destination d r' j"
  shows "trackSuffix r = trackSuffix r'" "i = j"
proof -
  define tail where "tail = (\<lambda>i. ''.period-'' @ replicate (4 - length (Itoa (int i))) (CHR ''0'') @ Itoa (int i))"
  have "trackSuffix r @ tail i = trackSuffix r' @ tail j"
    using assms unfolding period_destination_def Let_def tail_def by simp
  moreover have "length (trackSuffix r) = length (trackSuffix r')" by (simp only: track_suffix_length)
  ultimately have both: "trackSuffix r = trackSuffix r' \<and> tail i = tail j" by (metis append_eq_append_conv)
  then show "trackSuffix r = trackSuffix r'" ..
  from both have "tail i = tail j" ..
  then have "replicate (4 - length (Itoa (int i))) (CHR ''0'') @ Itoa (int i) = replicate (4 - length (Itoa (int j))) (CHR ''0'') @ Itoa (int j)"
    unfolding tail_def same_append_eq .
  then show "i = j" by (rule padded_inject)
qed

lemma distinct_destinations:
  assumes "distinct (map trackSuffix rs)" and "op_Single p \<longleftrightarrow> length rs \<le> 1"
  shows "distinct (concat (map (track_destinations p) rs))"
proof (cases "op_MultiPeriod p")
  case True
  have "distinct (map (period_destination d r) [0..<n])" for d r n
    unfolding distinct_map by (intro conjI distinct_upt inj_onI) (rule period_destination_inject)
  with assms(1) True show ?thesis
    by (induction rs) (auto simp: track_destinations_def dest: period_destination_inject(1))
next
  case False
  then have "concat (map (track_destinations p) rs) = map (track_destination p) rs"
    by (induction rs) (simp_all add: track_destinations_def)
  moreover have "distinct (map (track_destination p) rs)"
  proof (cases "op_Single p")
    case True
    with assms(2) show ?thesis by (cases rs) auto
  next
    case False
    then have "map (track_destination p) rs = map (\<lambda>s. op_Destination p @ ''.'' @ s) (map trackSuffix rs)"
      by (simp add: track_destination_def)
    then show ?thesis using assms(1) by (simp only: distinct_map inj_on_def append_same_eq same_append_eq) blast
  qed
  ultimately show ?thesis by simp
qed

section \<open>Properties\<close>

lemma normalized_limit: "dc_MaxSegments (normalize_config c) \<noteq> 0"
  by (simp add: normalize_config_def defaultMaxDownloadSegments_def Let_def)

text \<open>
  C37. Only accepted resources are downloaded. Whatever manifests, redirects of plans, index bytes and map orders a download meets,
  static or dynamic, the fragment engine is never called with a job that has a URL the URL policy rejects or more segments than the job's own
  limit: an engine that answers such jobs in any other way makes no difference to the download.
\<close>

theorem engine_gets_only_accepted_jobs:
  assumes "fx_remove fx = fx_remove (dn_fragment env)"
    and "\<And>w job. job_ok (normalize_config c) job \<Longrightarrow> fx_download fx w job = fx_download (dn_fragment env) w job"
  shows "dash_Download (env\<lparr>dn_fragment := fx\<rparr>) (normalize_config c) options w manifestURL outputRoot destination overwrite =
    dash_Download env (normalize_config c) options w manifestURL outputRoot destination overwrite"
proof -
  let ?c = "normalize_config c"
  have same: "plan_download (env\<lparr>dn_fragment := fx\<rparr>) ?c options w manifestURL = plan_download env ?c options w manifestURL" for w
    by (rule plan_download_engine)
  have agree: "agree ?c fx (dn_fragment env)" using assms by (simp add: agree_def)
  have tracks: "download_tracks fx ?c options (output_plan_of outputRoot destination overwrite mpd selected dynamicSIDX) w2 [] selected =
      download_tracks (dn_fragment env) ?c options (output_plan_of outputRoot destination overwrite mpd selected dynamicSIDX) w2 [] selected"
    if "plan_download env ?c options w manifestURL = (w1, Inr (mpd, selected, dynamicSIDX))" for w1 w2 mpd selected dynamicSIDX
    using plan_download_ready [OF that normalized_limit]
    by (intro download_tracks_agree [OF agree]) (simp add: output_plan_of_def)
  show ?thesis
    using tracks by (auto simp: dash_Download_def same check_destination_def Let_def split: prod.splits sum.splits option.splits)
qed

text \<open>
  C38. A download over several periods leaves all of its files or none. When a period fails, every file that an earlier period of any
  track has produced is removed, after the last request and exactly once, and nothing else is removed; when none fails,
  nothing is removed and the files are those of the result.
\<close>

theorem failed_periods_leave_no_files:
  assumes "download_tracks (traced fx) c options p (w, []) [] selected = ((w', log), res)" and "op_MultiPeriod p"
  shows "case res of
      Inl e \<Rightarrow> \<exists>events paths. log = events @ map Removed paths \<and> removed events = [] \<and> mset paths = mset (written events)
    | Inr tracks \<Rightarrow> removed log = [] \<and> written log = map fr_Path (track_downloads tracks)"
  by (rule download_tracks_files [OF assms]) simp_all

text \<open>
  C39. No two jobs of a download write to the same destination: not the tracks of one presentation, not its periods, whatever
  manifests lead to the plan and whichever job fails.
\<close>

theorem jobs_have_their_own_destinations:
  assumes "plan_download env (normalize_config c) options w manifestURL = (w1, Inr (mpd, selected, dynamicSIDX))"
    and "download_tracks (traced fx) (normalize_config c) options (output_plan_of outputRoot destination overwrite mpd selected dynamicSIDX)
      (w2, []) [] selected = ((w3, log), res)"
  shows "distinct (destinations log)"
proof -
  let ?p = "output_plan_of outputRoot destination overwrite mpd selected dynamicSIDX"
  obtain asked where "destinations log = asked" "prefix asked (concat (map (track_destinations ?p) selected))"
    using download_tracks_destinations [OF assms(2)] by auto
  moreover have "distinct (concat (map (track_destinations ?p) selected))"
    using plan_download_ready [OF assms(1) normalized_limit] by (intro distinct_destinations) (auto simp: ready_def output_plan_of_def)
  ultimately show ?thesis by (auto simp: prefix_def)
qed

text \<open>A static presentation with a video and an audio track, each one file, and a URL policy that accepts one host only.\<close>

definition single_file :: "string \<Rightarrow> representationXML" where
  "single_file name =
     \<lparr>rx_ID = name, rx_Bandwidth = 1, rx_Width = 0, rx_Height = 0, rx_MimeType = [], rx_Codecs = [], rx_Language = [], rx_FrameRate = [],
      rx_AudioRate = [], rx_BaseURL = name, rx_SegmentTemplate = None, rx_SegmentList = None, rx_SegmentBase = None\<rparr>"

definition single_set :: "string \<Rightarrow> string \<Rightarrow> adaptationSetXML" where
  "single_set kind name =
     \<lparr>ax_ID = kind, ax_ContentType = kind, ax_MimeType = [], ax_Codecs = [], ax_Language = [], ax_FrameRate = [], ax_AudioRate = [],
      ax_BaseURL = [], ax_SegmentTemplate = None, ax_SegmentList = None, ax_SegmentBase = None, ax_Representations = [single_file name]\<rparr>"

definition two_tracks :: mpdXML where
  "two_tracks =
     \<lparr>mx_Type = ''static'', mx_MinimumUpdatePeriod = [], mx_MediaPresentationTime = [], mx_AvailabilityStartTime = [], mx_PublishTime = [],
      mx_BaseURL = [], mx_Periods = [\<lparr>px_ID = ''p'', px_Start = [], px_Duration = [], px_BaseURL = [], px_SegmentTemplate = None,
        px_SegmentList = None, px_SegmentBase = None, px_AdaptationSets = [single_set ''video'' ''v'', single_set ''audio'' ''a'']\<rparr>]\<rparr>"

definition host_policy :: "string \<Rightarrow> net_failure option" where
  "host_policy u = (if HasPrefix u ''h/'' then None else Some \<lparr>nf_status = None, nf_terminated = False, nf_transient = False\<rparr>)"

definition sample_engine :: "unit fragment_env" where
  "sample_engine =
     \<lparr>fx_download = (\<lambda>w job. (w, if length (fj_Segments job) = 1
        then Inr \<lparr>fr_Path = fj_Destination job, fr_Bytes = 1, fr_Downloaded = 1, fr_Reused = 0\<rparr> else Inl 0)),
      fx_remove = (\<lambda>w path. w)\<rparr>"

definition sample_download_env :: "(unit, string) download_env" where
  "sample_download_env =
     \<lparr>dn_load = \<lparr>ld_index = sample_index_env, ld_page = (\<lambda>w u. (w, Inr [])), ld_lib = plain_lib, ld_decode = (\<lambda>u body. Some (''h/'', two_tracks))\<rparr>,
      dn_ranks = (\<lambda>w. (w, \<lambda>k. 0)), dn_signature_ranks = (\<lambda>w. (w, \<lambda>s. 0)), dn_lstat = (\<lambda>w path. (w, Some False)),
      dn_fragment = sample_engine\<rparr>"

definition policy_config :: DashConfig where
  "policy_config = sample_dash_config\<lparr>dc_URLValidator := Some host_policy\<rparr>"

definition sample_options :: DashOptions where
  "sample_options =
     \<lparr>do_DynamicMPDPolicy = DynamicMPDPolicyDefaultAllow, do_FragmentConcurrency = 0, do_PerHostConcurrency = 0, do_MaxSegmentSize = 0,
      do_Checkpoint = None, do_RequireStaticSingleRepresentation = False, do_EquivalenceProof = None, do_RepresentationIdentity = []\<rparr>"

definition two_tracks_mpd :: MPD where
  "two_tracks_mpd = (case mpd_Parse plain_lib ''h/'' two_tracks of Some (Inr mpd) \<Rightarrow> mpd | _ \<Rightarrow> sample_mpd)"

lemma two_tracks_parsed: "mpd_Parse plain_lib ''h/'' two_tracks = Some (Inr two_tracks_mpd)"
proof -
  have "(case mpd_Parse plain_lib ''h/'' two_tracks of Some (Inr mpd) \<Rightarrow> True | _ \<Rightarrow> False)" by code_simp
  then show ?thesis by (auto simp: two_tracks_mpd_def split: option.splits sum.splits)
qed

lemma two_tracks_loaded: "load (dn_load sample_download_env) (normalize_config policy_config) () ''h/m'' = ((), Inr two_tracks_mpd)"
proof -
  have "validateURL (normalize_config policy_config) ''h/m'' = None" "validateMPDURLs (normalize_config policy_config) two_tracks_mpd = None"
    by code_simp+
  then show ?thesis
    by (simp add: load_def load_checked_def sample_download_env_def two_tracks_parsed retry_def retrySettings_def policy_config_def
        sample_dash_config_def normalize_config_def defaultDASHAttempts_def maxDASHAttempts_def maxDASHRetryDelay_def eval_nat_numeral
        fetchMPDAttempt_def bounded_body_def sample_index_env_def)
qed

lemma two_tracks_planned:
  obtains selected where "plan_download sample_download_env (normalize_config policy_config) sample_options () ''h/m'' =
      ((), Inr (two_tracks_mpd, selected, False))" "map trackSuffix selected = [''audio'', ''video'']"
    "map (map sg_URL \<circ> rp_Segments) selected = [[''h/a''], [''h/v'']]"
proof -
  let ?c = "normalize_config policy_config"
  have "(case plan_selected sample_download_env ?c sample_options ''h/m'' two_tracks_mpd () of
      (w, Inr (selected, dynamicSIDX)) \<Rightarrow> \<not> dynamicSIDX \<and> map trackSuffix selected = [''audio'', ''video''] \<and>
        map (map sg_URL \<circ> rp_Segments) selected = [[''h/a''], [''h/v'']]
    | _ \<Rightarrow> False)"
    by code_simp
  then obtain selected where "plan_selected sample_download_env ?c sample_options ''h/m'' two_tracks_mpd () = ((), Inr (selected, False))"
      "map trackSuffix selected = [''audio'', ''video'']" "map (map sg_URL \<circ> rp_Segments) selected = [[''h/a''], [''h/v'']]"
    by (auto split: prod.splits sum.splits)
  moreover have "\<not> dc_DynamicPolls ?c > maxDASHPolls" "\<not> dc_PollInterval ?c > maxDASHPollInterval" by code_simp+
  ultimately show ?thesis
    by (intro that [of selected]) (simp_all add: plan_download_def two_tracks_loaded sample_options_def validateDynamicMPDPolicy_def)
qed

lemma two_tracks_downloaded:
  assumes "map trackSuffix selected = [''audio'', ''video'']" "map (map sg_URL \<circ> rp_Segments) selected = [[''h/a''], [''h/v'']]"
  shows "\<exists>log tracks. download_tracks (traced sample_engine) c options (output_plan_of [] ''d'' False two_tracks_mpd selected False) ((), []) []
      selected = (((), log), Inr tracks) \<and> destinations log = [''d.audio'', ''d.video'']"
    "\<exists>tracks. download_tracks sample_engine c options (output_plan_of [] ''d'' False two_tracks_mpd selected False) () [] selected =
      ((), Inr tracks) \<and> map (fr_Path \<circ> tr_Download) tracks = [''d.audio'', ''d.video'']"
proof -
  obtain a v where s: "selected = [a, v]" "trackSuffix a = ''audio''" "trackSuffix v = ''video''"
      "length (rp_Segments a) = 1" "length (rp_Segments v) = 1"
    using assms by (auto simp: map_eq_Cons_conv)
  have "mpd_PeriodCount two_tracks_mpd = 1" by code_simp
  with s show "\<exists>log tracks. download_tracks (traced sample_engine) c options (output_plan_of [] ''d'' False two_tracks_mpd selected False)
      ((), []) [] selected = (((), log), Inr tracks) \<and> destinations log = [''d.audio'', ''d.video'']"
    "\<exists>tracks. download_tracks sample_engine c options (output_plan_of [] ''d'' False two_tracks_mpd selected False) () [] selected =
      ((), Inr tracks) \<and> map (fr_Path \<circ> tr_Download) tracks = [''d.audio'', ''d.video'']"
    by (simp_all add: output_plan_of_def downloadSegments_def traced_def sample_engine_def job_of_def track_destination_def)
qed

text \<open>An engine that refuses what is not in order.\<close>

definition guarded :: "DashConfig \<Rightarrow> 'w fragment_env \<Rightarrow> 'w fragment_env" where
  "guarded c fx = fx\<lparr>fx_download := (\<lambda>w job. if job_ok c job then fx_download fx w job else (w, Inl 1))\<rparr>"

theorem engine_gets_only_accepted_jobs_witness:
  "\<exists>result. dash_Download sample_download_env (normalize_config policy_config) sample_options () ''h/m'' [] ''d'' False = ((), Inr result) \<and>
     map (fr_Path \<circ> tr_Download) (dr_Tracks result) = [''d.audio'', ''d.video''] \<and>
     dash_Download (sample_download_env\<lparr>dn_fragment := guarded (normalize_config policy_config) sample_engine\<rparr>) (normalize_config policy_config)
       sample_options () ''h/m'' [] ''d'' False = ((), Inr result)"
proof -
  let ?c = "normalize_config policy_config"
  obtain selected where plan: "plan_download sample_download_env ?c sample_options () ''h/m'' = ((), Inr (two_tracks_mpd, selected, False))"
      "map trackSuffix selected = [''audio'', ''video'']" "map (map sg_URL \<circ> rp_Segments) selected = [[''h/a''], [''h/v'']]"
    by (rule two_tracks_planned)
  have "mpd_PeriodCount two_tracks_mpd = 1" by code_simp
  then have free: "check_destination sample_download_env () (output_plan_of [] ''d'' False two_tracks_mpd selected False) = ((), None)"
    by (simp add: check_destination_def output_plan_of_def)
  obtain tracks where tracks: "download_tracks sample_engine ?c sample_options (output_plan_of [] ''d'' False two_tracks_mpd selected False) ()
      [] selected = ((), Inr tracks)" "map (fr_Path \<circ> tr_Download) tracks = [''d.audio'', ''d.video'']"
    using two_tracks_downloaded(2) [OF plan(2,3), of "normalize_config policy_config" sample_options] by (elim exE conjE) (rule that)
  define result where "result = \<lparr>dr_Tracks = tracks, dr_MergeRequired = (length selected > 1),
    dr_MultiPeriod = op_MultiPeriod (output_plan_of [] ''d'' False two_tracks_mpd selected False)\<rparr>"
  have engine: "dn_fragment sample_download_env = sample_engine" by (simp add: sample_download_env_def)
  have "dash_Download sample_download_env ?c sample_options () ''h/m'' [] ''d'' False = ((), Inr result)"
    by (simp add: dash_Download_def plan(1) free engine tracks(1) result_def)
  moreover have "map (fr_Path \<circ> tr_Download) (dr_Tracks result) = [''d.audio'', ''d.video'']"
    using tracks(2) by (simp add: result_def)
  moreover have "dash_Download (sample_download_env\<lparr>dn_fragment := guarded ?c sample_engine\<rparr>) ?c sample_options () ''h/m'' [] ''d'' False =
      dash_Download sample_download_env ?c sample_options () ''h/m'' [] ''d'' False"
    by (rule engine_gets_only_accepted_jobs) (simp_all add: guarded_def sample_download_env_def)
  ultimately show ?thesis by metis
qed

definition two_periods :: Representation where
  "two_periods = (sample_representation ''video'' 1)\<lparr>rp_PeriodSegments := [[sample_marker], [sample_marker, sample_marker]]\<rparr>"

definition two_periods_plan :: output_plan where
  "two_periods_plan =
     \<lparr>op_OutputRoot = [], op_Destination = ''d'', op_Overwrite = False, op_Dynamic = False, op_DynamicSIDX = False, op_MultiPeriod = True,
      op_Single = True\<rparr>"

lemma two_periods_failed:
  "\<exists>log. download_tracks (traced sample_engine) sample_dash_config sample_options two_periods_plan ((), []) [] [two_periods] =
     (((), log), Inl (DashFragment 0)) \<and> written log = [''d.video.period-0000'']"
proof -
  have "period_destination ''d'' two_periods 0 = ''d.video.period-0000''" by code_simp
  then show ?thesis
    by (simp add: two_periods_def two_periods_plan_def downloadSegments_def traced_def sample_engine_def job_of_def removePeriodDownloads_def)
qed

theorem failed_periods_leave_no_files_witness:
  "\<exists>log events paths. download_tracks (traced sample_engine) sample_dash_config sample_options two_periods_plan ((), []) [] [two_periods] =
     (((), log), Inl (DashFragment 0)) \<and> log = events @ map Removed paths \<and> removed events = [] \<and> mset paths = mset (written events) \<and>
     written log = [''d.video.period-0000'']"
proof -
  obtain log where log: "download_tracks (traced sample_engine) sample_dash_config sample_options two_periods_plan ((), []) [] [two_periods] =
      (((), log), Inl (DashFragment 0))" "written log = [''d.video.period-0000'']"
    using two_periods_failed by (elim exE conjE) (rule that)
  have "op_MultiPeriod two_periods_plan" by (simp add: two_periods_plan_def)
  from failed_periods_leave_no_files [OF log(1) this] obtain events paths where
    "log = events @ map Removed paths" "removed events = []" "mset paths = mset (written events)" by fastforce
  with log show ?thesis by (intro exI [of _ log] exI [of _ events] exI [of _ paths]) simp
qed

theorem jobs_have_their_own_destinations_witness:
  "\<exists>selected log tracks. download_tracks (traced sample_engine) (normalize_config policy_config) sample_options
      (output_plan_of [] ''d'' False two_tracks_mpd selected False) ((), []) [] selected = (((), log), Inr tracks) \<and>
      destinations log = [''d.audio'', ''d.video''] \<and> distinct (destinations log)"
proof -
  obtain selected where plan: "plan_download sample_download_env (normalize_config policy_config) sample_options () ''h/m'' =
      ((), Inr (two_tracks_mpd, selected, False))"
      "map trackSuffix selected = [''audio'', ''video'']" "map (map sg_URL \<circ> rp_Segments) selected = [[''h/a''], [''h/v'']]"
    by (rule two_tracks_planned)
  obtain log tracks where run: "download_tracks (traced sample_engine) (normalize_config policy_config) sample_options
      (output_plan_of [] ''d'' False two_tracks_mpd selected False) ((), []) [] selected = (((), log), Inr tracks)"
      "destinations log = [''d.audio'', ''d.video'']"
    using two_tracks_downloaded(1) [OF plan(2,3), of "normalize_config policy_config" sample_options] by (elim exE conjE) (rule that)
  with jobs_have_their_own_destinations [OF plan(1) run(1)] show ?thesis
    by (intro exI [of _ selected] exI [of _ log] exI [of _ tracks]) simp
qed

end
