(* ===== verification/FragmentPlan.thy ===== *)
theory FragmentPlan
  imports DashDownload
begin

text \<open>
  Plans, scales and resume boundaries of the fragment engine (\<open>internal/fragment/checkpoint_authority.go\<close>, \<open>manifest.go\<close> and \<open>engine.go\<close>): what a
  plan and a ledger must look like, the hash of a plan, and the digest that binds a committed prefix. The JSON texts that are hashed are written out;
  \<open>encoding/json\<close> is modelled for the values that occur: numbers, booleans, and valid text without control characters.
\<close>

section \<open>Errors and limits\<close>

text \<open>
  The sentinels of \<open>engine.go\<close>, and from \<open>FragIO\<close> on the other errors: a failed system call, errors that carry only text, a failed transport, a write that did not settle, a
  failed event sink, and a context that is done.
\<close>

datatype fragment_error =
    FragNoSegments | FragTooManySegments | FragInvalidRange | FragUnsafeDestination | FragInvalidCheckpoint | FragReconciliation
  | FragCallback | FragTooMuchConcurrency | FragTooManyAttempts | FragSegmentTooLarge | FragInvalidEncryption | FragCleanup
  | FragIO | FragLegacyChanged | FragDestinationExists | FragInvalidURL | FragTransport | FragStatus | FragRangeLength | FragUnsettled | FragEvent | FragCancelled
  | FragShortOutput

definition maxFragmentSegments :: nat where "maxFragmentSegments = 10000"
definition maxResumeIdentityBytes :: nat where "maxResumeIdentityBytes = 512"
definition fragmentCheckpointVersion :: int where "fragmentCheckpointVersion = 1"

section \<open>Scales and plans\<close>

definition RecognizedScaleKind :: "string \<Rightarrow> bool" where
  "RecognizedScaleKind kind \<longleftrightarrow> kind = ''provider-immutable'' \<or> kind = ''content-identity'' \<or> kind = []"

definition canonicalSHA256 :: "string \<Rightarrow> bool" where
  "canonicalSHA256 s = (if length s \<noteq> 64 \<or> s \<noteq> ToLower s then False else hex_DecodeString s \<noteq> None)"

text \<open>Only whether it fails is asked of \<open>validateScale\<close>.\<close>

definition validateScale :: "Scale \<Rightarrow> bool" where
  "validateScale scale =
     (if \<not> RecognizedScaleKind (sc_Kind scale) then False
      else if \<not> canonicalSHA256 (sc_Key scale) then False
      else if \<not> canonicalSHA256 (sc_Scope scale) then False
      else if sc_Kind scale = [] then sc_Value scale = []
      else canonicalSHA256 (sc_Value scale))"

definition validateResumeIdentity :: "string \<Rightarrow> fragment_error option" where
  "validateResumeIdentity identity =
     (if identity = [] \<or> length identity > maxResumeIdentityBytes \<or> \<not> valid_string identity \<or> has_control identity
      then Some FragInvalidCheckpoint else None)"

definition check_segment :: "fragment_segment \<Rightarrow> fragment_error option" where
  "check_segment s =
     (if fs_RangeStart s < 0 \<or> fs_RangeLength s < 0 \<or> (fs_RangeLength s = 0 \<and> fs_RangeStart s \<noteq> 0) \<or>
         (fs_RangeLength s > 0 \<and> fs_RangeStart s > MaxInt64 - (fs_RangeLength s - 1)) then Some FragInvalidRange
      else (case fs_Scale s of
              Some scale \<Rightarrow> if validateScale scale then None else Some FragInvalidCheckpoint
            | None \<Rightarrow> None))"

definition validateFiniteFragmentPlan :: "fragment_segment list \<Rightarrow> fragment_error option" where
  "validateFiniteFragmentPlan segments =
     (if segments = [] then Some FragNoSegments
      else if length segments > maxFragmentSegments then Some FragTooManySegments
      else (case List.find (\<lambda>s. check_segment s \<noteq> None) segments of None \<Rightarrow> None | Some s \<Rightarrow> check_segment s))"

section \<open>JSON\<close>

text \<open>
  The text of a string: quotes and backslashes are escaped, and so are \<open><\<close>, \<open>>\<close>, \<open>&\<close> and the runes U+2028 and U+2029, which are three bytes each.
\<close>

definition json_char :: "char \<Rightarrow> string" where
  "json_char c =
     (if c = CHR 0x22 \<or> c = CHR 0x5C then [CHR 0x5C, c]
      else if c = CHR ''<'' then CHR 0x5C # ''u003c''
      else if c = CHR ''>'' then CHR 0x5C # ''u003e''
      else if c = CHR ''&'' then CHR 0x5C # ''u0026''
      else [c])"

fun json_escape :: "string \<Rightarrow> string" where
  "json_escape [] = []"
| "json_escape (c # s) =
     (if c = CHR 0xE2 \<and> take 2 s = [CHR 0x80, CHR 0xA8] then CHR 0x5C # ''u2028'' @ json_escape (drop 2 s)
      else if c = CHR 0xE2 \<and> take 2 s = [CHR 0x80, CHR 0xA9] then CHR 0x5C # ''u2029'' @ json_escape (drop 2 s)
      else json_char c @ json_escape s)"

definition json_string :: "string \<Rightarrow> string" where
  "json_string s = CHR 0x22 # json_escape s @ [CHR 0x22]"

text \<open>The name of a member, quoted and with its colon.\<close>

definition json_name :: "string \<Rightarrow> string" where
  "json_name name = CHR 0x22 # name @ [CHR 0x22, CHR '':'']"

definition json_array :: "string list \<Rightarrow> string" where
  "json_array texts = ''['' @ Join texts '','' @ '']''"

section \<open>The hash of a plan\<close>

definition plan_segment_text :: "fragment_segment \<Rightarrow> string" where
  "plan_segment_text s =
     (let key = (case fs_Scale s of Some scale \<Rightarrow> sc_Key scale | None \<Rightarrow> [])
      in ''{'' @ json_name ''range_start'' @ Itoa (fs_RangeStart s) @ '','' @ json_name ''range_length'' @ Itoa (fs_RangeLength s) @ '','' @
         json_name ''encrypted'' @ show_bool (fs_AES128 s \<noteq> None) @
         (if key = [] then [] else '','' @ json_name ''key'' @ json_string key) @ ''}'')"

definition checkpointPlanHash :: "fragment_segment list \<Rightarrow> string" where
  "checkpointPlanHash segments = text_digest (json_array (map plan_segment_text segments))"

section \<open>Ledger states\<close>

record artifact =
  ar_Bytes :: i64
  ar_SHA256 :: string
  ar_Key :: string
  ar_ProofKind :: string
  ar_ProofValue :: string
  ar_ProofScope :: string

record manifestState =
  ms_Version :: int
  ms_ResumeIdentity :: string
  ms_PlanHash :: string
  ms_Hash :: string
  ms_Artifacts :: "(int, artifact) fmap"

record manifestExpectation =
  me_durable :: bool
  me_overwrite :: bool
  me_resumeIdentity :: string
  me_planHash :: string
  me_legacyHash :: string
  me_segmentCount :: nat

definition initialManifestState :: "manifestExpectation \<Rightarrow> manifestState" where
  "initialManifestState e =
     (if me_durable e
      then \<lparr>ms_Version = fragmentCheckpointVersion, ms_ResumeIdentity = me_resumeIdentity e, ms_PlanHash = me_planHash e, ms_Hash = [], ms_Artifacts = fmempty\<rparr>
      else \<lparr>ms_Version = 0, ms_ResumeIdentity = [], ms_PlanHash = [], ms_Hash = me_legacyHash e, ms_Artifacts = fmempty\<rparr>)"

definition artifact_scale :: "artifact \<Rightarrow> Scale" where
  "artifact_scale a = \<lparr>sc_Key = ar_Key a, sc_Kind = ar_ProofKind a, sc_Value = ar_ProofValue a, sc_Scope = ar_ProofScope a\<rparr>"

definition safeArtifactProof :: "artifact \<Rightarrow> bool" where
  "safeArtifactProof a =
     (if ar_Key a = [] \<and> ar_ProofKind a = [] \<and> ar_ProofValue a = [] \<and> ar_ProofScope a = [] then True else validateScale (artifact_scale a))"

definition artifact_ok :: "manifestExpectation \<Rightarrow> int \<Rightarrow> artifact \<Rightarrow> bool" where
  "artifact_ok e index a \<longleftrightarrow>
     \<not> (index < 0 \<or> index \<ge> int (me_segmentCount e) \<or> ar_Bytes a \<le> 0 \<or> length (ar_SHA256 a) \<noteq> 64) \<and>
     hex_DecodeString (ar_SHA256 a) \<noteq> None \<and> (me_durable e \<longrightarrow> safeArtifactProof a)"

text \<open>Every artifact that is not in order has the same sentinel, so that the order in which the map is visited does not show.\<close>

definition validateManifestState :: "manifestState \<Rightarrow> manifestExpectation \<Rightarrow> fragment_error option" where
  "validateManifestState state e =
     (if fcard (fmdom (ms_Artifacts state)) > maxFragmentSegments then Some FragInvalidCheckpoint
      else if \<not> fmpred (artifact_ok e) (ms_Artifacts state) then Some FragInvalidCheckpoint
      else if me_durable e then
        (if ms_Version state \<noteq> fragmentCheckpointVersion \<or> ms_Hash state \<noteq> [] \<or> ms_ResumeIdentity state = [] \<or> ms_PlanHash state = []
         then Some FragInvalidCheckpoint
         else if ms_ResumeIdentity state \<noteq> me_resumeIdentity e then Some FragReconciliation
         else if ms_PlanHash state \<noteq> me_planHash e then Some FragReconciliation
         else None)
      else if ms_Hash state \<noteq> me_legacyHash e \<or> ms_Version state \<noteq> 0 \<or> ms_ResumeIdentity state \<noteq> [] \<or> ms_PlanHash state \<noteq> []
        then Some FragLegacyChanged
      else None)"

section \<open>Boundaries\<close>

text \<open>\<open>CommitSnapshot\<close> has the same fields and is converted to it.\<close>

record ResumeBoundary =
  rb_ResumeIdentity :: string
  rb_PlanHash :: string
  rb_Sequence :: nat
  rb_Digest :: string
  rb_CommittedBytes :: i64

definition boundary_Validate :: "ResumeBoundary \<Rightarrow> fragment_error option" where
  "boundary_Validate b =
     (case validateResumeIdentity (rb_ResumeIdentity b) of
        Some e \<Rightarrow> Some e
      | None \<Rightarrow>
          if \<not> canonicalSHA256 (rb_PlanHash b) \<or> \<not> canonicalSHA256 (rb_Digest b) then Some FragInvalidCheckpoint
          else if rb_Sequence b > maxFragmentSegments \<or> rb_CommittedBytes b < 0 \<or> (rb_Sequence b = 0 \<and> rb_CommittedBytes b \<noteq> 0) \<or>
                  (rb_Sequence b > 0 \<and> rb_CommittedBytes b = 0) then Some FragInvalidCheckpoint
          else None)"

definition artifact_text :: "nat \<times> artifact \<Rightarrow> string" where
  "artifact_text = (\<lambda>(index, a).
     ''{'' @ json_name ''index'' @ Itoa (int index) @ '','' @ json_name ''bytes'' @ Itoa (ar_Bytes a) @ '','' @
     json_name ''sha256'' @ json_string (ar_SHA256 a) @ ''}'')"

text \<open>The text of \<open>canonicalPrefix\<close>.\<close>

definition prefix_text :: "string \<Rightarrow> string \<Rightarrow> artifact list \<Rightarrow> string" where
  "prefix_text identity planHash artifacts =
     ''{'' @ json_name ''version'' @ Itoa fragmentCheckpointVersion @ '','' @ json_name ''resume_identity'' @ json_string identity @ '','' @
     json_name ''plan_hash'' @ json_string planHash @ '','' @ json_name ''sequence'' @ Itoa (int (length artifacts)) @ '','' @
     json_name ''artifacts'' @ json_array (map artifact_text (enumerate 0 artifacts)) @ ''}''"

text \<open>The loop over the prefix: the artifacts from \<open>index\<close> on, \<open>n\<close> of them, and their bytes added to \<open>committedBytes\<close>.\<close>

fun prefix_artifacts :: "(int, artifact) fmap \<Rightarrow> nat \<Rightarrow> nat \<Rightarrow> i64 \<Rightarrow> fragment_error + artifact list \<times> i64" where
  "prefix_artifacts artifacts index 0 committedBytes = Inr ([], committedBytes)"
| "prefix_artifacts artifacts index (Suc n) committedBytes =
     (case fmlookup artifacts (int index) of
        None \<Rightarrow> Inl FragReconciliation
      | Some a \<Rightarrow>
          if ar_Bytes a \<le> 0 \<or> \<not> canonicalSHA256 (ar_SHA256 a) then Inl FragReconciliation
          else if ar_Bytes a > MaxInt64 - committedBytes then Inl FragInvalidCheckpoint
          else (case prefix_artifacts artifacts (index + 1) n (committedBytes + ar_Bytes a) of
                  Inl e \<Rightarrow> Inl e
                | Inr (rest, sumBytes) \<Rightarrow> Inr (a # rest, sumBytes)))"

definition snapshotForPrefix :: "manifestState \<Rightarrow> nat \<Rightarrow> fragment_error + ResumeBoundary" where
  "snapshotForPrefix state sequence =
     (if sequence > maxFragmentSegments \<or> (sequence > fcard (fmdom (ms_Artifacts state)) \<and> sequence > 0) then Inl FragInvalidCheckpoint
      else (case prefix_artifacts (ms_Artifacts state) 0 sequence 0 of
              Inl e \<Rightarrow> Inl e
            | Inr (artifacts, committedBytes) \<Rightarrow>
                let snapshot = \<lparr>rb_ResumeIdentity = ms_ResumeIdentity state, rb_PlanHash = ms_PlanHash state, rb_Sequence = sequence,
                                rb_Digest = text_digest (prefix_text (ms_ResumeIdentity state) (ms_PlanHash state) artifacts),
                                rb_CommittedBytes = committedBytes\<rparr>
                in (case boundary_Validate snapshot of Some e \<Rightarrow> Inl e | None \<Rightarrow> Inr snapshot)))"

definition InitialResumeBoundary :: "string \<Rightarrow> fragment_segment list \<Rightarrow> fragment_error + ResumeBoundary" where
  "InitialResumeBoundary resumeIdentity segments =
     (case validateResumeIdentity resumeIdentity of
        Some e \<Rightarrow> Inl e
      | None \<Rightarrow>
          (case validateFiniteFragmentPlan segments of
             Some e \<Rightarrow> Inl FragInvalidCheckpoint
           | None \<Rightarrow>
               snapshotForPrefix \<lparr>ms_Version = fragmentCheckpointVersion, ms_ResumeIdentity = resumeIdentity, ms_PlanHash = checkpointPlanHash segments,
                                  ms_Hash = [], ms_Artifacts = fmempty\<rparr> 0))"

text \<open>The length of the contiguous prefix, from \<open>sequence\<close> on with \<open>n\<close> steps left.\<close>

fun contiguous_loop :: "(int, artifact) fmap \<Rightarrow> nat \<Rightarrow> nat \<Rightarrow> nat" where
  "contiguous_loop artifacts 0 sequence = sequence"
| "contiguous_loop artifacts (Suc n) sequence =
     (if fmlookup artifacts (int sequence) = None then sequence else contiguous_loop artifacts n (sequence + 1))"

definition contiguousSequence :: "manifestState \<Rightarrow> nat" where
  "contiguousSequence state = contiguous_loop (ms_Artifacts state) maxFragmentSegments 0"

section \<open>Digests are canonical\<close>

lemma hex_digit_lower: "n < 16 \<Longrightarrow> ascii [hex_digit n] \<and> lower_byte (hex_digit n) = hex_digit n"
  by (simp add: hex_digit_def ascii_def lower_byte_def)

lemma hex_text: "ascii (hex_EncodeToString bs) \<and> map lower_byte (hex_EncodeToString bs) = hex_EncodeToString bs"
proof (induction bs)
  case (Cons b bs)
  have "unat b div 16 < 16" "unat b mod 16 < 16"
    using unsigned_less [of b, where 'a = nat] by (simp_all add: less_mult_imp_div_less)
  with hex_digit_lower Cons show ?case by (auto simp: hex_EncodeToString_def ascii_def)
qed (simp add: hex_EncodeToString_def ascii_def)

lemma hex_canonical: "length bs = 32 \<Longrightarrow> canonicalSHA256 (hex_EncodeToString bs)"
  using hex_text [of bs] by (simp add: canonicalSHA256_def ToLower_ascii)

lemma text_digest_canonical [simp]: "canonicalSHA256 (text_digest t)"
  by (simp add: text_digest_def hex_canonical)

lemma proof_digest_canonical: "canonicalDASHProofDigest s = canonicalSHA256 s"
  by (simp add: canonicalDASHProofDigest_def canonicalSHA256_def)

lemma staticScale_valid: "validateScale (staticScale equivalenceProof i)"
proof (cases "\<not> fi_CanonicalComplete i \<or> \<not> dashCanonicalFieldsSafe i")
  case True
  then show ?thesis by (simp add: staticScale_def validateScale_def dashSafeRestartScale_def RecognizedScaleKind_def)
next
  case False
  define scale where "scale = \<lparr>sc_Key = text_digest (dashFragmentCanonical i), sc_Kind = [], sc_Value = [],
    sc_Scope = text_digest (dashRepresentationCanonical i)\<rparr>"
  have plain: "validateScale scale" by (simp add: scale_def validateScale_def RecognizedScaleKind_def)
  have proved: "validateScale (scale\<lparr>sc_Kind := sc_Kind p, sc_Value := sc_Value p, sc_Scope := sc_Scope p\<rparr>)" if "validDASHProof p" for p
    using that by (auto simp: scale_def validDASHProof_def validateScale_def RecognizedScaleKind_def proof_digest_canonical split: if_splits)
  from False have "staticScale equivalenceProof i = (case equivalenceProof of None \<Rightarrow> scale | Some callback \<Rightarrow>
      (case callback i of None \<Rightarrow> scale
       | Some p \<Rightarrow> if validDASHProof p then scale\<lparr>sc_Kind := sc_Kind p, sc_Value := sc_Value p, sc_Scope := sc_Scope p\<rparr> else scale))"
    by (simp only: staticScale_def scale_def [symmetric] Let_def if_False)
  with plain proved show ?thesis by (simp split: option.split)
qed

lemma staticScale_unproved: "sc_Kind (staticScale None i) = []"
  by (simp add: staticScale_def dashSafeRestartScale_def Let_def)

section \<open>JSON texts can be read back\<close>

definition escapes :: "(string \<times> string) list" where
  "escapes = [(''003c'', ''<''), (''003e'', ''>''), (''0026'', ''&''), (''2028'', [CHR 0xE2, CHR 0x80, CHR 0xA8]), (''2029'', [CHR 0xE2, CHR 0x80, CHR 0xA9])]"

fun json_read :: "string \<Rightarrow> string \<times> string" where
  "json_read [] = ([], [])"
| "json_read (c # t) =
     (if c = CHR 0x22 then ([], t)
      else if c \<noteq> CHR 0x5C then apfst (Cons c) (json_read t)
      else if take 1 t = ''u'' then apfst ((@) (the (map_of escapes (take 4 (drop 1 t))))) (json_read (drop 5 t))
      else apfst ((@) (take 1 t)) (json_read (drop 1 t)))"

lemma json_read_char: "json_read (json_char c @ t) = apfst (Cons c) (json_read t)"
  by (simp add: json_char_def escapes_def apfst_def map_prod_def split: prod.splits)

lemma take2: "take 2 s = [a, b] \<Longrightarrow> s = a # b # drop 2 s"
  by (cases s; cases "tl s") auto

lemma json_read_escape: "json_read (json_escape s @ CHR 0x22 # t) = (s, t)"
proof (induction s rule: json_escape.induct)
  case (2 c s)
  consider (a) "c = CHR 0xE2" "take 2 s = [CHR 0x80, CHR 0xA8]" | (b) "c = CHR 0xE2" "take 2 s = [CHR 0x80, CHR 0xA9]"
    | (plain) "\<not> (c = CHR 0xE2 \<and> take 2 s = [CHR 0x80, CHR 0xA8])" "\<not> (c = CHR 0xE2 \<and> take 2 s = [CHR 0x80, CHR 0xA9])" by blast
  then show ?case
  proof cases
    case a
    from take2 [OF a(2)] have "[CHR 0xE2, CHR 0x80, CHR 0xA8] @ drop 2 s = c # s" using a(1) by simp
    with a 2 show ?thesis by (simp add: escapes_def)
  next
    case b
    from take2 [OF b(2)] have "[CHR 0xE2, CHR 0x80, CHR 0xA9] @ drop 2 s = c # s" using b(1) by simp
    with b 2 show ?thesis by (simp add: escapes_def)
  next
    case plain
    with 2 show ?thesis by (auto simp: json_read_char)
  qed
qed simp

lemma json_string_inject:
  assumes "json_string s @ t = json_string s' @ t'"
  shows "s = s'" "t = t'"
proof -
  have "json_escape s @ CHR 0x22 # t = json_escape s' @ CHR 0x22 # t'" using assms by (simp only: json_string_def append.simps append.assoc list.inject)
  from arg_cong [OF this, of json_read] have "(s, t) = (s', t')" unfolding json_read_escape .
  then show "s = s'" "t = t'" by simp_all
qed

lemma Itoa_no_comma: "CHR '','' \<notin> set (Itoa n)"
  using Itoa_plain [of "CHR '',''" n] by auto

lemma artifact_text_inject:
  assumes "artifact_text (i, a) @ r = artifact_text (i, b) @ r'"
  shows "ar_Bytes a = ar_Bytes b" "ar_SHA256 a = ar_SHA256 b" "r = r'"
proof -
  define tail where "tail = (\<lambda>(x :: artifact) t. json_name ''sha256'' @ json_string (ar_SHA256 x) @ ''}'' @ t)"
  have "Itoa (ar_Bytes a) @ '','' @ tail a r = Itoa (ar_Bytes b) @ '','' @ tail b r'"
    using assms unfolding artifact_text_def tail_def prod.case append.assoc same_append_eq .
  from first_stop [OF this, of "CHR '',''"] Itoa_no_comma have bytes: "Itoa (ar_Bytes a) = Itoa (ar_Bytes b)" and tails: "tail a r = tail b r'"
    by simp_all
  from bytes show "ar_Bytes a = ar_Bytes b" by (simp only: Itoa_inject)
  from tails have rest: "json_string (ar_SHA256 a) @ ''}'' @ r = json_string (ar_SHA256 b) @ ''}'' @ r'"
    unfolding tail_def same_append_eq .
  from json_string_inject [OF rest] show "ar_SHA256 a = ar_SHA256 b" "r = r'" by simp_all
qed

definition content_of :: "artifact \<Rightarrow> i64 \<times> string" where
  "content_of a = (ar_Bytes a, ar_SHA256 a)"

lemma artifact_texts_inject:
  "length xs = length ys \<Longrightarrow>
     Join (map artifact_text (enumerate i xs)) '','' @ r = Join (map artifact_text (enumerate i ys)) '','' @ r' \<Longrightarrow>
     map content_of xs = map content_of ys"
proof (induction xs ys arbitrary: i rule: list_induct2)
  case (Cons x xs y ys)
  show ?case
  proof (cases xs)
    case Nil
    with Cons have "artifact_text (i, x) @ r = artifact_text (i, y) @ r'" by simp
    from artifact_text_inject [OF this] Nil Cons(1) show ?thesis by (simp add: content_of_def)
  next
    case (Cons x' xs')
    note xs = Cons
    obtain y' ys' where ys: "ys = y' # ys'" using Cons.hyps xs by (cases ys) auto
    let ?t = "Join (map artifact_text (enumerate (Suc i) xs)) '','' @ r" and ?t' = "Join (map artifact_text (enumerate (Suc i) ys)) '','' @ r'"
    have "artifact_text (i, x) @ '','' @ ?t = artifact_text (i, y) @ '','' @ ?t'"
      using Cons.prems unfolding xs ys by simp
    from artifact_text_inject [OF this] have "content_of x = content_of y" "?t = ?t'" by (simp_all add: content_of_def)
    with Cons.IH [of "Suc i"] show ?thesis by simp
  qed
qed simp

text \<open>The digest of a prefix determines sizes and digests of its fragments, up to a collision of SHA-256.\<close>

lemma prefix_digest_inject:
  assumes "text_digest (prefix_text identity planHash xs) = text_digest (prefix_text identity planHash ys)" and "length xs = length ys"
    and "map content_of xs \<noteq> map content_of ys"
  shows "prefix_text identity planHash xs \<noteq> prefix_text identity planHash ys"
    "Sum256 (bytes_of (prefix_text identity planHash xs)) = Sum256 (bytes_of (prefix_text identity planHash ys))"
proof -
  show "Sum256 (bytes_of (prefix_text identity planHash xs)) = Sum256 (bytes_of (prefix_text identity planHash ys))"
    using hex_EncodeToString_inject assms(1) by (simp add: text_digest_def)
  show "prefix_text identity planHash xs \<noteq> prefix_text identity planHash ys"
  proof
    assume "prefix_text identity planHash xs = prefix_text identity planHash ys"
    then have "Join (map artifact_text (enumerate 0 xs)) '','' @ '']'' @ ''}'' = Join (map artifact_text (enumerate 0 ys)) '','' @ '']'' @ ''}''"
      unfolding prefix_text_def json_array_def assms(2) append.assoc same_append_eq .
    from artifact_texts_inject [OF assms(2) this] assms(3) show False by blast
  qed
qed

section \<open>Prefixes\<close>

lemma prefix_artifacts_result:
  "prefix_artifacts artifacts index n committed = Inr (as, all_bytes) \<Longrightarrow>
     length as = n \<and> (\<forall>j < n. fmlookup artifacts (int (index + j)) = Some (as ! j)) \<and> list_all (\<lambda>a. ar_Bytes a > 0) as"
proof (induction n arbitrary: index committed as)
  case (Suc n)
  from Suc.prems obtain a rest where step: "fmlookup artifacts (int index) = Some a" "ar_Bytes a > 0" "as = a # rest"
      "prefix_artifacts artifacts (index + 1) n (committed + ar_Bytes a) = Inr (rest, all_bytes)"
    by (auto split: option.splits if_splits sum.splits prod.splits)
  from Suc.IH [OF step(4)] step(1-3) show ?case
    by (auto simp: nth_Cons add.left_commute split: nat.split)
qed simp

lemma snapshotForPrefix_result:
  assumes "snapshotForPrefix state n = Inr b"
  obtains as where "length as = n" "\<forall>j < n. fmlookup (ms_Artifacts state) (int j) = Some (as ! j)"
    "rb_Sequence b = n" "rb_ResumeIdentity b = ms_ResumeIdentity state" "rb_PlanHash b = ms_PlanHash state"
    "rb_Digest b = text_digest (prefix_text (ms_ResumeIdentity state) (ms_PlanHash state) as)" "n \<le> maxFragmentSegments"
proof -
  from assms obtain as all_bytes where "prefix_artifacts (ms_Artifacts state) 0 n 0 = Inr (as, all_bytes)" "n \<le> maxFragmentSegments"
      "b = \<lparr>rb_ResumeIdentity = ms_ResumeIdentity state, rb_PlanHash = ms_PlanHash state, rb_Sequence = n,
            rb_Digest = text_digest (prefix_text (ms_ResumeIdentity state) (ms_PlanHash state) as), rb_CommittedBytes = all_bytes\<rparr>"
    by (auto simp: snapshotForPrefix_def Let_def split: if_splits sum.splits prod.splits option.splits)
  with prefix_artifacts_result that show ?thesis by fastforce
qed

lemma contiguous_loop_bounds: "sequence \<le> contiguous_loop artifacts n sequence" "contiguous_loop artifacts n sequence \<le> sequence + n"
  by (induction artifacts n sequence rule: contiguous_loop.induct) auto

lemma contiguous_loop_present: "sequence \<le> j \<Longrightarrow> j < contiguous_loop artifacts n sequence \<Longrightarrow> fmlookup artifacts (int j) \<noteq> None"
proof (induction artifacts n sequence rule: contiguous_loop.induct)
  case (2 artifacts n sequence)
  then show ?case by (cases "j = sequence") (auto split: if_splits)
qed simp

lemma contiguous_loop_mono:
  assumes "fmdom m |\<subseteq>| fmdom m'"
  shows "contiguous_loop m n sequence \<le> contiguous_loop m' n sequence"
proof (induction n arbitrary: sequence)
  case (Suc n)
  have "fmlookup m (int sequence) \<noteq> None \<Longrightarrow> fmlookup m' (int sequence) \<noteq> None"
    using assms by (metis fmdom_notD fmdom_notI fsubsetD)
  with Suc [of "sequence + 1"] contiguous_loop_bounds(1) [of "Suc sequence" m' n] show ?case by auto
qed simp

lemma contiguousSequence_mono: "fmdom (ms_Artifacts s) |\<subseteq>| fmdom (ms_Artifacts s') \<Longrightarrow> contiguousSequence s \<le> contiguousSequence s'"
  by (simp add: contiguousSequence_def contiguous_loop_mono)

end
