(* ===== verification/FragmentLedger.thy ===== *)
theory FragmentLedger
  imports FragmentPlan
begin

text \<open>
  The ledger of the fragment engine (\<open>internal/fragment/manifest.go\<close> and \<open>checkpoint_authority.go\<close>): opening a work directory, recording fragments with
  the commit callback, deciding what may be reused, and reconciling the directory with the boundary of a caller. The work directory is part of the state; every
  system call may fail, and an atomic write may end in any of the ways \<open>atomicfile\<close> reports. The temporary files of a write are not modelled.
\<close>

section \<open>The work directory\<close>

text \<open>A symbolic link or special file, with what reading through it gives, or a regular file.\<close>

datatype dir_entry = Irregular "byte list option" | Regular "byte list"

datatype dir_kind = DirMissing | DirOther | DirReal

record workspace =
  wk_kind :: dir_kind
  wk_entries :: "(string \<times> dir_entry) list"
  wk_destination :: bool

datatype write_outcome = Settled | NotWritten | Committed | Indeterminate bool

text \<open>
  The world: \<open>dk_call\<close> says whether the next system call fails, \<open>dk_write\<close> how the next atomic write ends, \<open>dk_protect\<close> whether the directory can be created or is
  owned by the user alone. \<open>dk_encode\<close> and \<open>dk_decode\<close> are the JSON text of a ledger; \<open>dk_commit\<close> is the callback, if there is one, and whether it failed.
\<close>

record 'w disk_env =
  dk_call :: "'w \<Rightarrow> 'w \<times> bool"
  dk_write :: "'w \<Rightarrow> 'w \<times> write_outcome"
  dk_protect :: "'w \<Rightarrow> 'w \<times> fragment_error option"
  dk_encode :: "manifestState \<Rightarrow> byte list"
  dk_decode :: "byte list \<Rightarrow> manifestState option"
  dk_commit :: "('w \<Rightarrow> ResumeBoundary \<Rightarrow> 'w \<times> bool) option"

definition maxManifestBytes :: nat where "maxManifestBytes = 4194304"

definition ledger_name :: string where "ledger_name = ''state.json''"
definition reconciliationMarker :: string where "reconciliationMarker = ''reconcile.json''"
definition publicationMarker :: string where "publicationMarker = ''publication.json''"
definition finalPublicationEvidence :: string where "finalPublicationEvidence = ''assembled.part''"

definition fragment_name :: "int \<Rightarrow> string" where
  "fragment_name index = (let number = Itoa index in replicate (8 - length number) (CHR ''0'') @ number @ ''.frag'')"

definition fragmentIndexFromName :: "string \<Rightarrow> int option" where
  "fragmentIndexFromName name =
     (if length name \<noteq> 13 \<or> \<not> HasSuffix name ''.frag'' then None
      else (case ParseInt (take 8 name) of None \<Rightarrow> None | Some index \<Rightarrow> if index \<ge> 0 then Some index else None))"

definition put_file :: "string \<Rightarrow> byte list \<Rightarrow> workspace \<Rightarrow> workspace" where
  "put_file name content k = k\<lparr>wk_entries := AList.update name (Regular content) (wk_entries k)\<rparr>"

definition drop_file :: "string \<Rightarrow> workspace \<Rightarrow> workspace" where
  "drop_file name k = k\<lparr>wk_entries := filter (\<lambda>(n, _). n \<noteq> name) (wk_entries k)\<rparr>"

definition atomic_write :: "'w disk_env \<Rightarrow> string \<Rightarrow> byte list \<Rightarrow> 'w \<Rightarrow> workspace \<Rightarrow> 'w \<times> workspace \<times> write_outcome" where
  "atomic_write env name content w k =
     (case dk_write env w of
        (w, outcome) \<Rightarrow>
          (w, (case outcome of Settled \<Rightarrow> put_file name content k | Committed \<Rightarrow> put_file name content k
               | Indeterminate True \<Rightarrow> put_file name content k | _ \<Rightarrow> k), outcome))"

text \<open>A ledger whose text is too long is not written.\<close>

definition writeManifestState :: "'w disk_env \<Rightarrow> manifestState \<Rightarrow> 'w \<Rightarrow> workspace \<Rightarrow> 'w \<times> workspace \<times> write_outcome" where
  "writeManifestState env state w k =
     (if length (dk_encode env state) > maxManifestBytes then (w, k, NotWritten) else atomic_write env ledger_name (dk_encode env state) w k)"

text \<open>The marker holds a version and a reason; its own outcome is only reported. Its text stands for itself.\<close>

definition writeReconciliationMarker :: "'w disk_env \<Rightarrow> 'w \<Rightarrow> workspace \<Rightarrow> 'w \<times> workspace" where
  "writeReconciliationMarker env w k = (case atomic_write env reconciliationMarker [] w k of (w, k, _) \<Rightarrow> (w, k))"

definition unsettled :: "write_outcome \<Rightarrow> bool" where
  "unsettled outcome = (case outcome of Committed \<Rightarrow> True | Indeterminate _ \<Rightarrow> True | _ \<Rightarrow> False)"

definition remove_file :: "'w disk_env \<Rightarrow> string \<Rightarrow> 'w \<Rightarrow> workspace \<Rightarrow> 'w \<times> workspace \<times> bool" where
  "remove_file env name w k = (case dk_call env w of (w, failed) \<Rightarrow> if failed then (w, k, True) else (w, drop_file name k, False))"

fun remove_files :: "'w disk_env \<Rightarrow> string list \<Rightarrow> 'w \<Rightarrow> workspace \<Rightarrow> 'w \<times> workspace \<times> bool" where
  "remove_files env [] w k = (w, k, False)"
| "remove_files env (name # names) w k =
     (case remove_file env name w k of
        (w, k, True) \<Rightarrow> (w, k, True)
      | (w, k, False) \<Rightarrow> remove_files env names w k)"

section \<open>Evidence\<close>

text \<open>\<open>artifactMatches\<close> with an error or without: every caller treats both alike.\<close>

definition artifactMatches :: "'w disk_env \<Rightarrow> artifact \<Rightarrow> string \<Rightarrow> 'w \<Rightarrow> workspace \<Rightarrow> 'w \<times> bool" where
  "artifactMatches env a name w k =
     (case dk_call env w of
        (w, failed) \<Rightarrow>
          (w, \<not> failed \<and>
              (case map_of (wk_entries k) name of
                 Some (Regular content) \<Rightarrow> int (length content) = ar_Bytes a \<and> hex_EncodeToString (Sum256 content) = ar_SHA256 a
               | _ \<Rightarrow> False)))"

definition is_marker :: "string \<Rightarrow> bool" where
  "is_marker name \<longleftrightarrow>
     name = reconciliationMarker \<or> name = publicationMarker \<or> name = finalPublicationEvidence \<or> HasPrefix name ''.atomic-''"

definition entry_info :: "'w disk_env \<Rightarrow> dir_entry \<Rightarrow> 'w \<Rightarrow> 'w \<times> fragment_error option" where
  "entry_info env entry w =
     (case dk_call env w of
        (w, failed) \<Rightarrow> (w, if failed then Some FragIO else (case entry of Irregular _ \<Rightarrow> Some FragInvalidCheckpoint | Regular _ \<Rightarrow> None)))"

fun inspect_entries :: "'w disk_env \<Rightarrow> nat \<Rightarrow> 'w \<Rightarrow> (string \<times> dir_entry) list \<Rightarrow> 'w \<times> fragment_error option" where
  "inspect_entries env segmentCount w [] = (w, None)"
| "inspect_entries env segmentCount w ((name, entry) # rest) =
     (if is_marker name then (w, Some FragReconciliation)
      else if name = ledger_name then inspect_entries env segmentCount w rest
      else (case fragmentIndexFromName name of
              None \<Rightarrow> (w, Some FragReconciliation)
            | Some index \<Rightarrow>
                if index \<ge> int segmentCount then (w, Some FragReconciliation)
                else (case entry_info env entry w of
                        (w, Some e) \<Rightarrow> (w, Some e)
                      | (w, None) \<Rightarrow> inspect_entries env segmentCount w rest)))"

definition inspectRetainedEvidence :: "'w disk_env \<Rightarrow> nat \<Rightarrow> 'w \<Rightarrow> workspace \<Rightarrow> 'w \<times> fragment_error option" where
  "inspectRetainedEvidence env segmentCount w k =
     (case dk_call env w of
        (w, failed) \<Rightarrow> if failed then (w, Some FragIO) else inspect_entries env segmentCount w (wk_entries k))"

text \<open>\<open>ensureWorkDirectory\<close> and \<open>ensureProtectedCheckpointDirectory\<close>: whether the directory was created.\<close>

definition ensureWorkDirectory ::
    "'w disk_env \<Rightarrow> manifestExpectation \<Rightarrow> 'w \<Rightarrow> workspace \<Rightarrow> 'w \<times> workspace \<times> (fragment_error + bool)" where
  "ensureWorkDirectory env e w k =
     (case dk_protect env w of
        (w, Some err) \<Rightarrow> (w, k, Inl err)
      | (w, None) \<Rightarrow>
          (case wk_kind k of
             DirMissing \<Rightarrow> (w, k\<lparr>wk_kind := DirReal, wk_entries := []\<rparr>, Inr True)
           | DirOther \<Rightarrow> (w, k, Inl (if me_durable e then FragInvalidCheckpoint else FragUnsafeDestination))
           | DirReal \<Rightarrow> (w, k, Inr False)))"

definition readManifestState :: "'w disk_env \<Rightarrow> byte list \<Rightarrow> 'w \<Rightarrow> 'w \<times> manifestState option" where
  "readManifestState env content w =
     (case dk_call env w of
        (w, failed) \<Rightarrow> (w, if failed \<or> length content > maxManifestBytes then None else dk_decode env content))"

text \<open>The artifacts in the order of a map iteration; the first that does not match decides.\<close>

fun all_match :: "'w disk_env \<Rightarrow> (int \<times> artifact) list \<Rightarrow> 'w \<Rightarrow> workspace \<Rightarrow> 'w \<times> bool" where
  "all_match env [] w k = (w, True)"
| "all_match env ((index, a) # rest) w k =
     (case artifactMatches env a (fragment_name index) w k of
        (w, False) \<Rightarrow> (w, False)
      | (w, True) \<Rightarrow> all_match env rest w k)"

section \<open>The manifest\<close>

record artifactManifest =
  am_state :: manifestState
  am_durable :: bool
  am_poisoned :: bool
  am_notifiedSequence :: nat
  am_callerSequence :: nat
  am_callbackErr :: bool

definition new_manifest :: "bool \<Rightarrow> manifestState \<Rightarrow> artifactManifest" where
  "new_manifest durable state =
     \<lparr>am_state = state, am_durable = durable, am_poisoned = False, am_notifiedSequence = 0, am_callerSequence = 0, am_callbackErr = False\<rparr>"

definition equivalenceRestartRequired :: "artifactManifest \<Rightarrow> fragment_segment list \<Rightarrow> bool" where
  "equivalenceRestartRequired m segments =
     (if \<not> am_durable m \<or> segments = [] then False
      else if \<not> list_ex (\<lambda>s. fs_Scale s \<noteq> None) segments then False
      else \<not> fmpred (\<lambda>index a. \<not> (index < 0 \<or> index \<ge> int (length segments)) \<and>
               (case fs_Scale (segments ! nat index) of
                  None \<Rightarrow> False
                | Some scale \<Rightarrow> \<not> (sc_Kind scale = [] \<or> ar_Key a \<noteq> sc_Key scale \<or> ar_ProofKind a \<noteq> sc_Kind scale \<or>
                                ar_ProofValue a \<noteq> sc_Value scale \<or> ar_ProofScope a \<noteq> sc_Scope scale))) (ms_Artifacts (am_state m)))"

definition reusableScaled ::
    "'w disk_env \<Rightarrow> artifactManifest \<Rightarrow> nat \<Rightarrow> Scale option \<Rightarrow> 'w \<Rightarrow> workspace \<Rightarrow> 'w \<times> (fragment_error + bool)" where
  "reusableScaled env m index scale w k =
     (if am_callbackErr m then (w, Inl FragCallback)
      else if am_poisoned m then (w, Inl FragReconciliation)
      else (case fmlookup (ms_Artifacts (am_state m)) (int index) of
              None \<Rightarrow> (w, Inr False)
            | Some known \<Rightarrow>
                if am_durable m \<and> (case scale of None \<Rightarrow> False | Some s \<Rightarrow> sc_Kind s \<noteq> [] \<and>
                     (ar_ProofKind known \<noteq> sc_Kind s \<or> ar_ProofValue known \<noteq> sc_Value s \<or> ar_ProofScope known \<noteq> sc_Scope s))
                then (w, Inr False)
                else (case artifactMatches env known (fragment_name (int index)) w k of
                        (w, True) \<Rightarrow> (w, Inr True)
                      | (w, False) \<Rightarrow> (w, if am_durable m then Inl FragReconciliation else Inr False))))"

text \<open>\<open>digestFile\<close> follows links.\<close>

definition digestFile :: "'w disk_env \<Rightarrow> string \<Rightarrow> 'w \<Rightarrow> workspace \<Rightarrow> 'w \<times> (i64 \<times> string) option" where
  "digestFile env name w k =
     (case dk_call env w of
        (w, failed) \<Rightarrow>
          (w, if failed then None
              else (case map_of (wk_entries k) name of
                      Some (Regular content) \<Rightarrow> Some (int (length content), hex_EncodeToString (Sum256 content))
                    | Some (Irregular (Some content)) \<Rightarrow> Some (int (length content), hex_EncodeToString (Sum256 content))
                    | _ \<Rightarrow> None)))"

definition recorded :: "i64 \<Rightarrow> string \<Rightarrow> Scale option \<Rightarrow> artifact" where
  "recorded bytes digest scale =
     (case scale of
        None \<Rightarrow> \<lparr>ar_Bytes = bytes, ar_SHA256 = digest, ar_Key = [], ar_ProofKind = [], ar_ProofValue = [], ar_ProofScope = []\<rparr>
      | Some s \<Rightarrow> \<lparr>ar_Bytes = bytes, ar_SHA256 = digest, ar_Key = sc_Key s, ar_ProofKind = sc_Kind s, ar_ProofValue = sc_Value s,
                  ar_ProofScope = sc_Scope s\<rparr>)"

text \<open>The snapshot to report once the candidate is written, if its prefix has grown.\<close>

definition next_snapshot :: "artifactManifest \<Rightarrow> manifestState \<Rightarrow> fragment_error + ResumeBoundary option" where
  "next_snapshot m candidate =
     (if \<not> am_durable m then Inr None
      else let sequence = contiguousSequence candidate
      in if sequence < am_notifiedSequence m then Inl FragReconciliation
         else if sequence > am_notifiedSequence m then
           (if sequence \<le> am_callerSequence m then Inl FragReconciliation
            else (case snapshotForPrefix candidate sequence of Inl e \<Rightarrow> Inl e | Inr snapshot \<Rightarrow> Inr (Some snapshot)))
         else Inr None)"

definition notify :: "'w disk_env \<Rightarrow> ResumeBoundary option \<Rightarrow> 'w \<Rightarrow> artifactManifest \<Rightarrow> 'w \<times> artifactManifest \<times> fragment_error option" where
  "notify env snapshot w m =
     (case snapshot of
        None \<Rightarrow> (w, m, None)
      | Some s \<Rightarrow>
          (case dk_commit env of
             None \<Rightarrow> (w, m\<lparr>am_notifiedSequence := rb_Sequence s\<rparr>, None)
           | Some callback \<Rightarrow>
               (case callback w s of
                  (w, True) \<Rightarrow> (w, m\<lparr>am_callbackErr := True\<rparr>, Some FragCallback)
                | (w, False) \<Rightarrow> (w, m\<lparr>am_notifiedSequence := rb_Sequence s\<rparr>, None))))"

definition commit_candidate ::
    "'w disk_env \<Rightarrow> artifactManifest \<Rightarrow> manifestState \<Rightarrow> 'w \<Rightarrow> workspace \<Rightarrow> 'w \<times> workspace \<times> artifactManifest \<times> fragment_error option" where
  "commit_candidate env m candidate w k =
     (case next_snapshot m candidate of
        Inl e \<Rightarrow> (w, k, m, Some e)
      | Inr snapshot \<Rightarrow>
          (case writeManifestState env candidate w k of
             (w, k, Settled) \<Rightarrow>
               (case notify env snapshot w (m\<lparr>am_state := candidate\<rparr>) of (w, m, e) \<Rightarrow> (w, k, m, e))
           | (w, k, outcome) \<Rightarrow>
               if am_durable m \<and> unsettled outcome then
                 (case writeReconciliationMarker env w k of
                    (w, k) \<Rightarrow> (w, k, (if outcome = Committed then m\<lparr>am_state := candidate\<rparr> else m)\<lparr>am_poisoned := True\<rparr>, Some FragReconciliation))
               else (w, k, m, Some FragIO)))"

definition RecordScaled ::
    "'w disk_env \<Rightarrow> artifactManifest \<Rightarrow> nat \<Rightarrow> Scale option \<Rightarrow> 'w \<Rightarrow> workspace \<Rightarrow> 'w \<times> workspace \<times> artifactManifest \<times> fragment_error option" where
  "RecordScaled env m index scale w k =
     (case digestFile env (fragment_name (int index)) w k of
        (w, None) \<Rightarrow> (w, k, m, Some FragIO)
      | (w, Some (bytes, digest)) \<Rightarrow>
          if am_callbackErr m then (w, k, m, Some FragCallback)
          else if am_poisoned m then (w, k, m, Some FragReconciliation)
          else let state = am_state m;
                   candidate = state\<lparr>ms_Artifacts := fmupd (int index) (recorded bytes digest scale) (ms_Artifacts state)\<rparr>
               in commit_candidate env m candidate w k)"

definition configureCallback :: "artifactManifest \<Rightarrow> ResumeBoundary option \<Rightarrow> artifactManifest \<times> fragment_error option" where
  "configureCallback m authority =
     (let m = m\<lparr>am_notifiedSequence := contiguousSequence (am_state m)\<rparr>
      in case authority of
           None \<Rightarrow> (m, None)
         | Some b \<Rightarrow>
             let m = m\<lparr>am_callerSequence := rb_Sequence b, am_notifiedSequence := rb_Sequence b\<rparr>
             in if contiguousSequence (am_state m) < am_callerSequence m then (m, Some FragReconciliation) else (m, None))"

section \<open>Opening\<close>

definition create_ledger ::
    "'w disk_env \<Rightarrow> manifestExpectation \<Rightarrow> 'w \<Rightarrow> workspace \<Rightarrow> 'w \<times> workspace \<times> (fragment_error + artifactManifest)" where
  "create_ledger env e w k =
     (let state = initialManifestState e
      in case writeManifestState env state w k of
           (w, k, Settled) \<Rightarrow> (w, k, Inr (new_manifest (me_durable e) state))
         | (w, k, outcome) \<Rightarrow>
             if me_durable e \<and> unsettled outcome then
               (case writeReconciliationMarker env w k of (w, k) \<Rightarrow> (w, k, Inl FragReconciliation))
             else (w, k, Inl FragIO))"

text \<open>\<open>resetLegacyManifest\<close>: \<open>os.RemoveAll\<close> may fail; the new directory is then empty.\<close>

definition resetLegacyManifest ::
    "'w disk_env \<Rightarrow> manifestExpectation \<Rightarrow> 'w \<Rightarrow> workspace \<Rightarrow> 'w \<times> workspace \<times> (fragment_error + artifactManifest)" where
  "resetLegacyManifest env e w k =
     (case dk_call env w of
        (w, True) \<Rightarrow> (w, k, Inl FragIO)
      | (w, False) \<Rightarrow> create_ledger env (e\<lparr>me_durable := False\<rparr>) w (k\<lparr>wk_entries := []\<rparr>))"

definition missing_ledger ::
    "'w disk_env \<Rightarrow> manifestExpectation \<Rightarrow> bool \<Rightarrow> 'w \<Rightarrow> workspace \<Rightarrow> 'w \<times> workspace \<times> (fragment_error + artifactManifest)" where
  "missing_ledger env e created w k =
     (if me_durable e then
        (case dk_call env w of
           (w, True) \<Rightarrow> (w, k, Inl FragIO)
         | (w, False) \<Rightarrow>
             if wk_entries k \<noteq> [] then (w, k, Inl FragReconciliation)
             else if \<not> created \<and> me_overwrite e then
               (case dk_call env w of
                  (w, True) \<Rightarrow> (w, k, Inl FragIO)
                | (w, False) \<Rightarrow> if wk_destination k then (w, k, Inl FragReconciliation) else create_ledger env e w k)
             else create_ledger env e w k)
      else create_ledger env e w k)"

text \<open>The order in which the artifacts are visited is an argument.\<close>

definition existing_ledger ::
    "'w disk_env \<Rightarrow> manifestExpectation \<Rightarrow> ((int \<times> artifact) list \<Rightarrow> (int \<times> artifact) list) \<Rightarrow> byte list \<Rightarrow> 'w \<Rightarrow> workspace \<Rightarrow>
      'w \<times> workspace \<times> (fragment_error + artifactManifest)" where
  "existing_ledger env e order content w k =
     (case readManifestState env content w of
        (w, None) \<Rightarrow> if me_durable e then (w, k, Inl FragInvalidCheckpoint) else resetLegacyManifest env e w k
      | (w, Some state) \<Rightarrow>
          (case validateManifestState state e of
             Some err \<Rightarrow> if me_durable e then (w, k, Inl err) else resetLegacyManifest env e w k
           | None \<Rightarrow>
               if me_durable e then
                 (case all_match env (order (sorted_list_of_fmap (ms_Artifacts state))) w k of
                    (w, False) \<Rightarrow> (w, k, Inl FragReconciliation)
                  | (w, True) \<Rightarrow> (w, k, Inr (new_manifest True state)))
               else (w, k, Inr (new_manifest False state))))"

definition openArtifactManifest ::
    "'w disk_env \<Rightarrow> manifestExpectation \<Rightarrow> ((int \<times> artifact) list \<Rightarrow> (int \<times> artifact) list) \<Rightarrow> 'w \<Rightarrow> workspace \<Rightarrow>
      'w \<times> workspace \<times> (fragment_error + artifactManifest)" where
  "openArtifactManifest env e order w k =
     (case ensureWorkDirectory env e w k of
        (w, k, Inl err) \<Rightarrow> (w, k, Inl err)
      | (w, k, Inr created) \<Rightarrow>
          (case (if me_durable e then inspectRetainedEvidence env (me_segmentCount e) w k else (w, None)) of
             (w, Some err) \<Rightarrow> (w, k, Inl err)
           | (w, None) \<Rightarrow>
               (case dk_call env w of
                  (w, True) \<Rightarrow> (w, k, Inl FragIO)
                | (w, False) \<Rightarrow>
                    (case map_of (wk_entries k) ledger_name of
                       None \<Rightarrow> missing_ledger env e created w k
                     | Some (Irregular _) \<Rightarrow> (w, k, Inl (if me_durable e then FragInvalidCheckpoint else FragUnsafeDestination))
                     | Some (Regular content) \<Rightarrow> existing_ledger env e order content w k))))"

section \<open>Reconciliation\<close>

fun classify_entries ::
    "'w disk_env \<Rightarrow> nat \<Rightarrow> 'w \<Rightarrow> (string \<times> dir_entry) list \<Rightarrow> 'w \<times> (fragment_error + string list \<times> bool)" where
  "classify_entries env segmentCount w [] = (w, Inr ([], False))"
| "classify_entries env segmentCount w ((name, entry) # rest) =
     (if is_marker name then (w, Inl FragReconciliation)
      else if name \<noteq> ledger_name \<and> (case fragmentIndexFromName name of None \<Rightarrow> True | Some index \<Rightarrow> index \<ge> int segmentCount)
        then (w, Inl FragReconciliation)
      else (case entry_info env entry w of
              (w, Some e) \<Rightarrow> (w, Inl e)
            | (w, None) \<Rightarrow>
                (case classify_entries env segmentCount w rest of
                   (w, Inl e) \<Rightarrow> (w, Inl e)
                 | (w, Inr (ordinary, ledger)) \<Rightarrow>
                     (w, Inr (if name = ledger_name then (ordinary, True) else (name # ordinary, ledger))))))"

text \<open>\<open>syncCheckpointDirectory\<close> after removals; a failure of any kind needs reconciliation.\<close>

definition remove_and_sync :: "'w disk_env \<Rightarrow> string list \<Rightarrow> 'w \<Rightarrow> workspace \<Rightarrow> 'w \<times> workspace \<times> fragment_error option" where
  "remove_and_sync env names w k =
     (if names = [] then (w, k, None)
      else (case remove_files env names w k of
              (w, k, True) \<Rightarrow> (w, k, Some FragReconciliation)
            | (w, k, False) \<Rightarrow> (case dk_call env w of (w, failed) \<Rightarrow> (w, k, if failed then Some FragReconciliation else None))))"

definition reset_entries :: "'w disk_env \<Rightarrow> manifestExpectation \<Rightarrow> 'w \<Rightarrow> workspace \<Rightarrow> 'w \<times> workspace \<times> fragment_error option" where
  "reset_entries env e w k =
     (case dk_call env w of
        (w, True) \<Rightarrow> (w, k, Some FragIO)
      | (w, False) \<Rightarrow>
          (case classify_entries env (me_segmentCount e) w (wk_entries k) of
             (w, Inl err) \<Rightarrow> (w, k, Some err)
           | (w, Inr (ordinary, ledger)) \<Rightarrow>
               (case remove_and_sync env (sort ordinary) w k of
                  (w, k, Some err) \<Rightarrow> (w, k, Some err)
                | (w, k, None) \<Rightarrow> if ledger then remove_and_sync env [ledger_name] w k else (w, k, None))))"

definition resetCheckpointWorkspace ::
    "'w disk_env \<Rightarrow> manifestExpectation \<Rightarrow> 'w \<Rightarrow> workspace \<Rightarrow> 'w \<times> workspace \<times> fragment_error option" where
  "resetCheckpointWorkspace env e w k =
     (case dk_call env w of
        (w, True) \<Rightarrow> (w, k, Some FragIO)
      | (w, False) \<Rightarrow>
          if wk_destination k then (w, k, Some FragReconciliation)
          else (case dk_call env w of
                  (w, True) \<Rightarrow> (w, k, Some FragIO)
                | (w, False) \<Rightarrow>
                    (case wk_kind k of
                       DirMissing \<Rightarrow> (w, k, None)
                     | DirOther \<Rightarrow> (w, k, Some FragInvalidCheckpoint)
                     | DirReal \<Rightarrow>
                         (case dk_protect env w of
                            (w, Some err) \<Rightarrow> (w, k, Some err)
                          | (w, None) \<Rightarrow> reset_entries env e w k))))"

definition prefix_state :: "manifestState \<Rightarrow> nat \<Rightarrow> manifestState" where
  "prefix_state state sequence =
     state\<lparr>ms_Artifacts := fold (\<lambda>i m. fmupd (int i) (case fmlookup (ms_Artifacts state) (int i) of Some a \<Rightarrow> a | None \<Rightarrow> recorded 0 [] None) m)
       [0..<sequence] fmempty\<rparr>"

definition clampCheckpointWorkspace ::
    "'w disk_env \<Rightarrow> manifestState \<Rightarrow> nat \<Rightarrow> bool \<Rightarrow> 'w \<Rightarrow> workspace \<Rightarrow> 'w \<times> workspace \<times> fragment_error option" where
  "clampCheckpointWorkspace env state sequence coordinatorOwnsReset w k =
     (case dk_call env w of
        (w, True) \<Rightarrow> (w, k, Some FragIO)
      | (w, False) \<Rightarrow>
          let later = filter (\<lambda>name. case fragmentIndexFromName name of None \<Rightarrow> False | Some index \<Rightarrow> index \<ge> int sequence) (map fst (wk_entries k));
              localAhead = (later \<noteq> [] \<or> \<not> fmpred (\<lambda>index a. \<not> index \<ge> int sequence) (ms_Artifacts state))
          in if \<not> localAhead then (w, k, None)
             else if coordinatorOwnsReset then (w, k, Some FragReconciliation)
             else (case writeManifestState env (prefix_state state sequence) w k of
                     (w, k, Settled) \<Rightarrow> remove_and_sync env (sort later) w k
                   | (w, k, outcome) \<Rightarrow>
                       (case (if unsettled outcome then writeReconciliationMarker env w k else (w, k)) of
                          (w, k) \<Rightarrow> (w, k, Some FragReconciliation))))"

text \<open>The prefix that the caller claims, from \<open>index\<close> on with \<open>n\<close> artifacts left.\<close>

fun prefix_matches :: "'w disk_env \<Rightarrow> manifestState \<Rightarrow> nat \<Rightarrow> nat \<Rightarrow> 'w \<Rightarrow> workspace \<Rightarrow> 'w \<times> bool" where
  "prefix_matches env state index 0 w k = (w, True)"
| "prefix_matches env state index (Suc n) w k =
     (case fmlookup (ms_Artifacts state) (int index) of
        None \<Rightarrow> (w, False)
      | Some a \<Rightarrow>
          (case artifactMatches env a (fragment_name (int index)) w k of
             (w, False) \<Rightarrow> (w, False)
           | (w, True) \<Rightarrow> prefix_matches env state (index + 1) n w k))"

definition reconcile_ledger ::
    "'w disk_env \<Rightarrow> manifestExpectation \<Rightarrow> ResumeBoundary \<Rightarrow> bool \<Rightarrow> byte list \<Rightarrow> 'w \<Rightarrow> workspace \<Rightarrow> 'w \<times> workspace \<times> fragment_error option" where
  "reconcile_ledger env e authority coordinatorOwnsReset content w k =
     (case readManifestState env content w of
        (w, None) \<Rightarrow> (w, k, Some FragInvalidCheckpoint)
      | (w, Some state) \<Rightarrow>
          (case validateManifestState state e of
             Some err \<Rightarrow> (w, k, Some err)
           | None \<Rightarrow>
               (case prefix_matches env state 0 (rb_Sequence authority) w k of
                  (w, False) \<Rightarrow> (w, k, Some FragReconciliation)
                | (w, True) \<Rightarrow>
                    (case snapshotForPrefix state (rb_Sequence authority) of
                       Inl err \<Rightarrow> (w, k, Some err)
                     | Inr local \<Rightarrow>
                         if local \<noteq> authority then (w, k, Some FragReconciliation)
                         else clampCheckpointWorkspace env state (rb_Sequence authority) coordinatorOwnsReset w k))))"

definition reconcile_prefix ::
    "'w disk_env \<Rightarrow> manifestExpectation \<Rightarrow> ResumeBoundary \<Rightarrow> bool \<Rightarrow> 'w \<Rightarrow> workspace \<Rightarrow> 'w \<times> workspace \<times> fragment_error option" where
  "reconcile_prefix env e authority coordinatorOwnsReset w k =
     (case dk_call env w of
        (w, True) \<Rightarrow> (w, k, Some FragIO)
      | (w, False) \<Rightarrow>
          if wk_kind k = DirMissing then (w, k, Some FragReconciliation)
          else if wk_kind k = DirOther then (w, k, Some FragInvalidCheckpoint)
          else (case dk_protect env w of
                  (w, Some err) \<Rightarrow> (w, k, Some err)
                | (w, None) \<Rightarrow>
                    (case inspectRetainedEvidence env (me_segmentCount e) w k of
                       (w, Some err) \<Rightarrow> (w, k, Some err)
                     | (w, None) \<Rightarrow>
                         (case dk_call env w of
                            (w, True) \<Rightarrow> (w, k, Some FragIO)
                          | (w, False) \<Rightarrow>
                              (case map_of (wk_entries k) ledger_name of
                                 None \<Rightarrow> (w, k, Some FragReconciliation)
                               | Some (Irregular _) \<Rightarrow> (w, k, Some FragInvalidCheckpoint)
                               | Some (Regular content) \<Rightarrow> reconcile_ledger env e authority coordinatorOwnsReset content w k)))))"

text \<open>\<open>checkpointWorkspaceHasEvidence\<close>: a directory that cannot be read counts as evidence.\<close>

definition has_evidence :: "'w disk_env \<Rightarrow> 'w \<Rightarrow> workspace \<Rightarrow> 'w \<times> bool" where
  "has_evidence env w k =
     (case dk_call env w of
        (w, failed) \<Rightarrow> (w, if failed then True else wk_kind k \<noteq> DirMissing \<and> (wk_kind k = DirOther \<or> wk_entries k \<noteq> [])))"

definition reconcileResumeBoundary ::
    "'w disk_env \<Rightarrow> manifestExpectation \<Rightarrow> ResumeBoundary \<Rightarrow> bool \<Rightarrow> 'w \<Rightarrow> workspace \<Rightarrow> 'w \<times> workspace \<times> fragment_error option" where
  "reconcileResumeBoundary env e authority coordinatorOwnsReset w k =
     (case boundary_Validate authority of
        Some err \<Rightarrow> (w, k, Some err)
      | None \<Rightarrow>
          if rb_ResumeIdentity authority \<noteq> me_resumeIdentity e then (w, k, Some FragReconciliation)
          else if rb_PlanHash authority \<noteq> me_planHash e then (w, k, Some FragReconciliation)
          else if rb_Sequence authority > me_segmentCount e then (w, k, Some FragInvalidCheckpoint)
          else if rb_Sequence authority = 0 then
            (case snapshotForPrefix (initialManifestState e) 0 of
               Inl err \<Rightarrow> (w, k, Some err)
             | Inr empty_boundary \<Rightarrow>
                 if authority \<noteq> empty_boundary then (w, k, Some FragReconciliation)
                 else (case (if coordinatorOwnsReset then has_evidence env w k else (w, False)) of
                         (w, True) \<Rightarrow> (w, k, Some FragReconciliation)
                       | (w, False) \<Rightarrow> resetCheckpointWorkspace env e w k))
          else reconcile_prefix env e authority coordinatorOwnsReset w k)"

end
