(* ===== verification/LedgerRuns.thy ===== *)
theory LedgerRuns
  imports FragmentLedger
begin

text \<open>
  How the fragment engine uses its ledger (\<open>Download\<close> in \<open>internal/fragment/engine.go\<close>): the preparation of the ledger for a job, and what its workers do to it in
  any interleaving. Proved here: a callback is told only of prefixes that are on disk, in increasing order, and only fragments that the ledger lacks are fetched.
\<close>

section \<open>Preparing the ledger\<close>

text \<open>The hash of a plan without checkpoint covers URLs and keys; it is an argument.\<close>

definition manifestExpectationFor :: "string \<Rightarrow> fragment_job \<Rightarrow> manifestExpectation" where
  "manifestExpectationFor legacyHash job =
     (case fj_Checkpoint job of
        None \<Rightarrow> \<lparr>me_durable = False, me_overwrite = fj_Overwrite job, me_resumeIdentity = [], me_planHash = [], me_legacyHash = legacyHash,
                me_segmentCount = length (fj_Segments job)\<rparr>
      | Some checkpoint \<Rightarrow> \<lparr>me_durable = True, me_overwrite = fj_Overwrite job, me_resumeIdentity = fc_ResumeIdentity checkpoint,
                me_planHash = checkpointPlanHash (fj_Segments job), me_legacyHash = [], me_segmentCount = length (fj_Segments job)\<rparr>)"

text \<open>The boundary of the caller, and what is reconciled with it.\<close>

definition reconcile_job ::
    "'w disk_env \<Rightarrow> manifestExpectation \<Rightarrow> fragment_job \<Rightarrow> ResumeBoundary option \<Rightarrow> 'w \<Rightarrow> workspace \<Rightarrow> 'w \<times> workspace \<times> fragment_error option" where
  "reconcile_job env e job authority w k =
     (case fj_Checkpoint job of
        None \<Rightarrow> (w, k, None)
      | Some checkpoint \<Rightarrow>
          if authority = None \<and> \<not> fc_CoordinatorBoundary checkpoint then (w, k, None)
          else (case (case authority of Some b \<Rightarrow> Inr b | None \<Rightarrow> InitialResumeBoundary (fc_ResumeIdentity checkpoint) (fj_Segments job)) of
                  Inl err \<Rightarrow> (w, k, Some err)
                | Inr b \<Rightarrow> reconcileResumeBoundary env e b (fc_RequireCoordinatorReset checkpoint) w k))"

definition claims_prefix :: "fragment_job \<Rightarrow> ResumeBoundary option \<Rightarrow> bool" where
  "claims_prefix job authority =
     (case fj_Checkpoint job of
        None \<Rightarrow> False
      | Some checkpoint \<Rightarrow> fc_RequireCoordinatorReset checkpoint \<or> (case authority of None \<Rightarrow> False | Some b \<Rightarrow> rb_Sequence b \<noteq> 0))"

text \<open>A ledger whose fragments are not proved to be the same bytes is emptied and opened again.\<close>

definition restart_ledger ::
    "'w disk_env \<Rightarrow> ((int \<times> artifact) list \<Rightarrow> (int \<times> artifact) list) \<Rightarrow> manifestExpectation \<Rightarrow> fragment_job \<Rightarrow> ResumeBoundary option \<Rightarrow>
      artifactManifest \<Rightarrow> 'w \<Rightarrow> workspace \<Rightarrow> 'w \<times> workspace \<times> (fragment_error + artifactManifest)" where
  "restart_ledger env order e job authority m w k =
     (if \<not> equivalenceRestartRequired m (fj_Segments job) then (w, k, Inr m)
      else if claims_prefix job authority then (w, k, Inl FragReconciliation)
      else (case resetCheckpointWorkspace env e w k of
              (w, k, Some err) \<Rightarrow> (w, k, Inl err)
            | (w, k, None) \<Rightarrow> openArtifactManifest env e order w k))"

definition configure_job :: "fragment_job \<Rightarrow> ResumeBoundary option \<Rightarrow> artifactManifest \<Rightarrow> fragment_error + artifactManifest" where
  "configure_job job authority m =
     (case fj_Checkpoint job of
        None \<Rightarrow> Inr m
      | Some _ \<Rightarrow> (case configureCallback m authority of (m, Some err) \<Rightarrow> Inl err | (m, None) \<Rightarrow> Inr m))"

definition prepare_ledger ::
    "'w disk_env \<Rightarrow> ((int \<times> artifact) list \<Rightarrow> (int \<times> artifact) list) \<Rightarrow> string \<Rightarrow> fragment_job \<Rightarrow> ResumeBoundary option \<Rightarrow> 'w \<Rightarrow> workspace \<Rightarrow>
      'w \<times> workspace \<times> (fragment_error + artifactManifest)" where
  "prepare_ledger env order legacyHash job authority w k =
     (let e = manifestExpectationFor legacyHash job
      in case reconcile_job env e job authority w k of
           (w, k, Some err) \<Rightarrow> (w, k, Inl err)
         | (w, k, None) \<Rightarrow>
             (case dk_call env w of
                (w, True) \<Rightarrow> (w, k, Inl FragIO)
              | (w, False) \<Rightarrow>
                  (case openArtifactManifest env e order w k of
                     (w, k, Inl err) \<Rightarrow> (w, k, Inl err)
                   | (w, k, Inr m) \<Rightarrow>
                       (case restart_ledger env order e job authority m w k of
                          (w, k, Inl err) \<Rightarrow> (w, k, Inl err)
                        | (w, k, Inr m) \<Rightarrow> (w, k, configure_job job authority m)))))"

text \<open>The scale that a worker compares and records.\<close>

definition segment_scale :: "fragment_segment list \<Rightarrow> nat \<Rightarrow> Scale option" where
  "segment_scale segments index = (if index < length segments then fs_Scale (segments ! index) else None)"

section \<open>The text of a ledger\<close>

text \<open>What \<open>encoding/json\<close> promises: a value whose strings are valid UTF-8 is read back as it was.\<close>

definition artifact_strings :: "artifact \<Rightarrow> string list" where
  "artifact_strings a = [ar_SHA256 a, ar_Key a, ar_ProofKind a, ar_ProofValue a, ar_ProofScope a]"

definition text_state :: "manifestState \<Rightarrow> bool" where
  "text_state state \<longleftrightarrow> list_all valid_string [ms_ResumeIdentity state, ms_PlanHash state, ms_Hash state] \<and>
     fmpred (\<lambda>_ a. list_all valid_string (artifact_strings a)) (ms_Artifacts state)"

definition ledger_codec :: "'w disk_env \<Rightarrow> bool" where
  "ledger_codec env \<longleftrightarrow> (\<forall>state. text_state state \<longrightarrow> dk_decode env (dk_encode env state) = Some state)"

definition on_disk :: "'w disk_env \<Rightarrow> workspace \<Rightarrow> manifestState \<Rightarrow> bool" where
  "on_disk env k state \<longleftrightarrow>
     (\<exists>content. map_of (wk_entries k) ledger_name = Some (Regular content) \<and> length content \<le> maxManifestBytes \<and> dk_decode env content = Some state)"

lemma ascii_valid: "(\<And>c. c \<in> set s \<Longrightarrow> (of_char c :: nat) < 127) \<Longrightarrow> valid_string s"
  using ascii_byte by (auto simp: valid_string_def bytes_of_def list_all_iff intro!: utf8_Valid_ascii)

lemma from_hex_ascii: "from_hex c \<noteq> None \<Longrightarrow> (of_char c :: nat) < 127"
  by (auto simp: from_hex_def Let_def split: if_splits)

lemma hex_decoded_digits: "hex_DecodeString s \<noteq> None \<Longrightarrow> c \<in> set s \<Longrightarrow> from_hex c \<noteq> None"
proof (induction s arbitrary: c rule: hex_DecodeString.induct)
  case (3 a b s)
  then show ?case by (auto split: option.splits)
qed simp_all

lemma hex_valid: "hex_DecodeString s \<noteq> None \<Longrightarrow> valid_string s"
  using hex_decoded_digits from_hex_ascii by (metis ascii_valid)

lemma canonical_valid: "canonicalSHA256 s \<Longrightarrow> valid_string s"
  using hex_valid by (auto simp: canonicalSHA256_def split: if_splits)

lemma valid_nil [simp]: "valid_string []"
  by (rule ascii_valid) simp

lemma scale_strings:
  assumes "validateScale scale"
  shows "valid_string (sc_Key scale)" "valid_string (sc_Kind scale)" "valid_string (sc_Value scale)" "valid_string (sc_Scope scale)"
proof -
  have kinds: "valid_string ''provider-immutable''" "valid_string ''content-identity''" by code_simp+
  show "valid_string (sc_Key scale)" "valid_string (sc_Kind scale)" "valid_string (sc_Value scale)" "valid_string (sc_Scope scale)"
    using assms kinds canonical_valid by (auto simp: validateScale_def RecognizedScaleKind_def split: if_splits)
qed

lemma artifact_ok_text:
  assumes "artifact_ok e index a" and "me_durable e"
  shows "list_all valid_string (artifact_strings a)"
proof -
  from assms have sha: "valid_string (ar_SHA256 a)" and safe: "safeArtifactProof a" by (simp_all add: artifact_ok_def hex_valid)
  from safe have "list_all valid_string [ar_Key a, ar_ProofKind a, ar_ProofValue a, ar_ProofScope a]"
    using scale_strings [of "artifact_scale a"] by (auto simp: safeArtifactProof_def artifact_scale_def split: if_splits)
  with sha show ?thesis by (simp add: artifact_strings_def)
qed

lemma recorded_text:
  assumes "case scale of None \<Rightarrow> True | Some s \<Rightarrow> validateScale s"
  shows "list_all valid_string (artifact_strings (recorded bytes (hex_EncodeToString content) scale))"
proof -
  have "valid_string (hex_EncodeToString content)"
    by (rule hex_valid) simp
  with assms scale_strings show ?thesis by (auto simp: recorded_def artifact_strings_def split: option.splits)
qed

section \<open>Writes\<close>

lemma map_of_put_file: "map_of (wk_entries (put_file name content k)) = (map_of (wk_entries k))(name \<mapsto> Regular content)"
  by (simp add: put_file_def update_conv')

lemma fragment_name_other: "fragment_name i \<noteq> ledger_name"
proof -
  have "last (fragment_name i) = CHR ''g''" by (simp add: fragment_name_def Let_def)
  then show ?thesis by (auto simp: ledger_name_def)
qed

lemma on_disk_other: "name \<noteq> ledger_name \<Longrightarrow> on_disk env (put_file name content k) s = on_disk env k s"
  by (simp add: on_disk_def map_of_put_file)

lemma writeManifestState_cases:
  assumes "writeManifestState env state w k = (w', k', outcome)" and "ledger_codec env" and "text_state state"
  shows "k' = k \<and> outcome \<noteq> Settled \<and> outcome \<noteq> Committed \<or> on_disk env k' state \<and> outcome \<noteq> NotWritten"
proof -
  have "on_disk env (put_file ledger_name (dk_encode env state) k) state" if "length (dk_encode env state) \<le> maxManifestBytes"
    using assms(2,3) that by (simp add: on_disk_def map_of_put_file ledger_codec_def)
  with assms(1) show ?thesis
    by (auto simp: writeManifestState_def atomic_write_def split: if_splits prod.splits write_outcome.splits bool.splits)
qed

lemma writeReconciliationMarker_keeps:
  assumes "writeReconciliationMarker env w k = (w', k')"
  shows "on_disk env k' s = on_disk env k s"
proof -
  have "reconciliationMarker \<noteq> ledger_name" by (simp add: reconciliationMarker_def ledger_name_def)
  then show ?thesis
    using assms on_disk_other [of reconciliationMarker env "[]" k s]
    by (auto simp: writeReconciliationMarker_def atomic_write_def split: prod.splits write_outcome.splits bool.splits)
qed

lemma digestFile_digest: "digestFile env name w k = (w', Some (bytes, digest)) \<Longrightarrow> \<exists>content. digest = hex_EncodeToString (Sum256 content)"
  by (auto simp: digestFile_def split: prod.splits if_splits option.splits dir_entry.splits)

section \<open>Snapshots of a growing ledger\<close>

definition grown :: "manifestState \<Rightarrow> manifestState \<Rightarrow> bool" where
  "grown s s' \<longleftrightarrow> ms_ResumeIdentity s' = ms_ResumeIdentity s \<and> ms_PlanHash s' = ms_PlanHash s \<and>
     (\<forall>i a. fmlookup (ms_Artifacts s) i = Some a \<longrightarrow> fmlookup (ms_Artifacts s') i = Some a)"

lemma grown_refl [simp]: "grown s s"
  by (simp add: grown_def)

lemma grown_update: "fmlookup (ms_Artifacts s) i = None \<Longrightarrow> grown s (s\<lparr>ms_Artifacts := fmupd i a (ms_Artifacts s)\<rparr>)"
  by (auto simp: grown_def)

lemma prefix_artifacts_grown:
  "prefix_artifacts m index n committed = Inr r \<Longrightarrow> (\<forall>i a. fmlookup m i = Some a \<longrightarrow> fmlookup m' i = Some a) \<Longrightarrow>
     prefix_artifacts m' index n committed = Inr r"
proof (induction n arbitrary: index committed r)
  case (Suc n)
  from Suc.prems(1) obtain a where a: "fmlookup m (int index) = Some a" by (auto split: option.splits)
  with Suc.prems(2) have a': "fmlookup m' (int index) = Some a" by simp
  have "prefix_artifacts m' (index + 1) n c = Inr q" if "prefix_artifacts m (index + 1) n c = Inr q" for c q
    using Suc.IH [OF that Suc.prems(2)] .
  with Suc.prems(1) a a' show ?case by (auto split: if_splits sum.splits prod.splits)
qed simp

lemma snapshotForPrefix_grown:
  assumes "snapshotForPrefix s n = Inr b" and "grown s s'"
  shows "snapshotForPrefix s' n = Inr b"
proof -
  have "fmdom (ms_Artifacts s) |\<subseteq>| fmdom (ms_Artifacts s')" using assms(2) by (auto simp: grown_def fmlookup_dom_iff)
  then have "fcard (fmdom (ms_Artifacts s)) \<le> fcard (fmdom (ms_Artifacts s'))" by (rule fcard_mono)
  with assms prefix_artifacts_grown [of "ms_Artifacts s" 0 n 0 _ "ms_Artifacts s'"] show ?thesis
    by (auto simp: snapshotForPrefix_def grown_def Let_def split: if_splits sum.splits prod.splits option.splits)
qed

lemma next_snapshot_result:
  assumes "next_snapshot m candidate = Inr (Some s)"
  shows "snapshotForPrefix candidate (rb_Sequence s) = Inr s" "am_notifiedSequence m < rb_Sequence s" "am_callerSequence m < rb_Sequence s"
proof -
  have r: "am_notifiedSequence m < contiguousSequence candidate" "am_callerSequence m < contiguousSequence candidate"
      "snapshotForPrefix candidate (contiguousSequence candidate) = Inr s"
    using assms by (auto simp: next_snapshot_def Let_def split: if_splits sum.splits)
  moreover from r(3) have "rb_Sequence s = contiguousSequence candidate" by (auto elim: snapshotForPrefix_result)
  ultimately show "snapshotForPrefix candidate (rb_Sequence s) = Inr s" "am_notifiedSequence m < rb_Sequence s" "am_callerSequence m < rb_Sequence s"
    by simp_all
qed

section \<open>The callback is never ahead of the ledger\<close>

definition log_ok :: "nat \<Rightarrow> ResumeBoundary list \<Rightarrow> bool" where
  "log_ok caller log \<longleftrightarrow> sorted_wrt (<) (map rb_Sequence log) \<and> (\<forall>b \<in> set log. caller < rb_Sequence b)"

definition covers :: "manifestState \<Rightarrow> ResumeBoundary list \<Rightarrow> bool" where
  "covers state log \<longleftrightarrow> (\<forall>b \<in> set log. snapshotForPrefix state (rb_Sequence b) = Inr b)"

definition ledger_inv :: "'w disk_env \<Rightarrow> nat \<Rightarrow> ResumeBoundary list \<Rightarrow> workspace \<Rightarrow> artifactManifest \<Rightarrow> bool" where
  "ledger_inv env caller log k m \<longleftrightarrow>
     am_durable m \<and> am_callerSequence m = caller \<and> text_state (am_state m) \<and> log_ok caller log \<and>
     (am_callbackErr m \<or> (\<forall>b \<in> set log. rb_Sequence b \<le> am_notifiedSequence m)) \<and>
     (\<exists>state. on_disk env k state \<and> (am_poisoned m \<or> state = am_state m) \<and> covers state log)"

lemma ledger_inv_disk: "ledger_inv env caller log k m \<Longrightarrow> (\<And>s. on_disk env k' s = on_disk env k s) \<Longrightarrow> ledger_inv env caller log k' m"
proof -
  assume inv: "ledger_inv env caller log k m" and "\<And>s. on_disk env k' s = on_disk env k s"
  then have "on_disk env k' = on_disk env k" by blast
  with inv show ?thesis by (simp only: ledger_inv_def)
qed

lemma covers_grown: "covers s log \<Longrightarrow> grown s s' \<Longrightarrow> covers s' log"
  unfolding covers_def by (blast intro: snapshotForPrefix_grown)

text \<open>A write that did not settle leaves one of the two ledgers on disk, and nothing is written after it.\<close>

lemma ledger_inv_poisoned:
  assumes inv: "ledger_inv env caller log k m" "\<not> am_poisoned m"
    and candidate: "grown (am_state m) candidate" "text_state candidate" and disk: "k' = k \<or> on_disk env k' candidate"
    and m': "m' = (if committed then m\<lparr>am_state := candidate\<rparr> else m)\<lparr>am_poisoned := True\<rparr>"
  shows "ledger_inv env caller log k' m'"
proof -
  from inv have old: "on_disk env k (am_state m)" "covers (am_state m) log" by (auto simp: ledger_inv_def)
  from disk old covers_grown [OF old(2) candidate(1)] have "\<exists>state. on_disk env k' state \<and> covers state log" by blast
  with inv candidate(2) m' show ?thesis by (auto simp: ledger_inv_def)
qed

lemma segment_scale_valid:
  assumes "validateFiniteFragmentPlan segments = None"
  shows "case segment_scale segments index of None \<Rightarrow> True | Some s \<Rightarrow> validateScale s"
proof (cases "index < length segments")
  case True
  then have "segments ! index \<in> set segments" by simp
  with assms have "check_segment (segments ! index) = None"
    by (auto simp: validateFiniteFragmentPlan_def find_None_iff find_Some_iff split: if_splits option.splits)
  with True show ?thesis by (auto simp: segment_scale_def check_segment_def split: option.splits if_splits)
qed (simp add: segment_scale_def)

section \<open>A log of the callback\<close>

text \<open>A world that remembers the boundaries the callback was told; nothing but the callback adds to them.\<close>

locale commit_log =
  fixes env :: "'w disk_env" and log :: "'w \<Rightarrow> ResumeBoundary list"
  assumes call_log: "dk_call env w = (w', failed) \<Longrightarrow> log w' = log w"
    and write_log: "dk_write env w = (w', outcome) \<Longrightarrow> log w' = log w"
    and told: "\<exists>callback. dk_commit env = Some callback \<and> (\<forall>w s w' failed. callback w s = (w', failed) \<longrightarrow> log w' = log w @ [s])"
begin

lemma atomic_write_log: "atomic_write env name content w k = (w', k', outcome) \<Longrightarrow> log w' = log w"
  by (auto simp: atomic_write_def split: prod.splits dest: write_log)

lemma writeManifestState_log: "writeManifestState env state w k = (w', k', outcome) \<Longrightarrow> log w' = log w"
  by (auto simp: writeManifestState_def split: if_splits dest: atomic_write_log)

lemma writeReconciliationMarker_log: "writeReconciliationMarker env w k = (w', k') \<Longrightarrow> log w' = log w"
  by (auto simp: writeReconciliationMarker_def split: prod.splits dest: atomic_write_log)

lemma digestFile_log: "digestFile env name w k = (w', r) \<Longrightarrow> log w' = log w"
  by (auto simp: digestFile_def split: prod.splits dest: call_log)

lemma artifactMatches_log: "artifactMatches env a name w k = (w', r) \<Longrightarrow> log w' = log w"
  by (auto simp: artifactMatches_def split: prod.splits dest: call_log)

lemma reusableScaled_log: "reusableScaled env m index scale w k = (w', r) \<Longrightarrow> log w' = log w"
  by (auto simp: reusableScaled_def split: if_splits option.splits prod.splits bool.splits dest: artifactMatches_log)

lemma notify_logged:
  assumes "notify env snapshot w m = (w', m', e)"
  shows "snapshot = None \<and> log w' = log w \<and> m' = m \<or>
    (\<exists>s. snapshot = Some s \<and> log w' = log w @ [s] \<and> (m' = m\<lparr>am_callbackErr := True\<rparr> \<or> m' = m\<lparr>am_notifiedSequence := rb_Sequence s\<rparr>))"
proof (cases snapshot)
  case None
  with assms show ?thesis by (simp add: notify_def)
next
  case (Some s)
  from told obtain callback where c: "dk_commit env = Some callback" "\<forall>w s w' failed. callback w s = (w', failed) \<longrightarrow> log w' = log w @ [s]" by blast
  obtain w1 failed where "callback w s = (w1, failed)" by (metis prod.exhaust)
  with assms Some c show ?thesis by (cases failed) (auto simp: notify_def)
qed

text \<open>A candidate that is on disk extends what the callback knows.\<close>

lemma ledger_inv_settled:
  assumes inv: "ledger_inv env caller told_log k m" "\<not> am_poisoned m" "\<not> am_callbackErr m"
    and candidate: "next_snapshot m candidate = Inr snapshot" "grown (am_state m) candidate" "text_state candidate" "on_disk env k' candidate"
    and notify: "notify env snapshot w (m\<lparr>am_state := candidate\<rparr>) = (w', m', e)" and log: "log w = told_log"
  shows "ledger_inv env caller (log w') k' m'"
proof -
  from inv have old: "am_durable m" "am_callerSequence m = caller" "log_ok caller told_log" "\<forall>b \<in> set told_log. rb_Sequence b \<le> am_notifiedSequence m"
      "covers (am_state m) told_log"
    by (auto simp: ledger_inv_def)
  from covers_grown [OF old(5) candidate(2)] have covered: "covers candidate told_log" .
  from notify_logged [OF notify] log consider (same) "snapshot = None" "log w' = told_log" "m' = m\<lparr>am_state := candidate\<rparr>"
    | (new) s where "snapshot = Some s" "log w' = told_log @ [s]"
        "m' = m\<lparr>am_state := candidate, am_callbackErr := True\<rparr> \<or> m' = m\<lparr>am_state := candidate, am_notifiedSequence := rb_Sequence s\<rparr>"
    by auto
  then show ?thesis
  proof cases
    case same
    with old covered candidate(3,4) inv(2,3) show ?thesis by (auto simp: ledger_inv_def)
  next
    case new
    note s = next_snapshot_result [OF candidate(1) [unfolded new(1)]]
    have before: "rb_Sequence b < rb_Sequence s" if "b \<in> set told_log" for b
      using old(4) that s(2) by (meson le_less_trans)
    with old(2,3) s(3) have "log_ok caller (told_log @ [s])" by (auto simp: log_ok_def sorted_wrt_append)
    moreover have "covers candidate (told_log @ [s])" using covered s(1) by (auto simp: covers_def)
    moreover have "\<forall>b \<in> set (told_log @ [s]). rb_Sequence b \<le> rb_Sequence s" using before by (auto simp: less_imp_le)
    ultimately show ?thesis using new(2,3) old(1,2) candidate(3,4) by (auto simp: ledger_inv_def)
  qed
qed

lemma commit_candidate_inv:
  assumes inv: "ledger_inv env caller (log w) k m" "\<not> am_poisoned m" "\<not> am_callbackErr m" and codec: "ledger_codec env"
    and candidate: "grown (am_state m) candidate" "text_state candidate"
    and step: "commit_candidate env m candidate w k = (w', k', m', e)"
  shows "ledger_inv env caller (log w') k' m' \<and> (am_state m' = am_state m \<or> am_state m' = candidate)"
proof (cases "next_snapshot m candidate")
  case (Inl err)
  with step inv(1) show ?thesis by (simp add: commit_candidate_def)
next
  case (Inr snapshot)
  obtain w1 k1 outcome where wr: "writeManifestState env candidate w k = (w1, k1, outcome)" by (metis prod_cases3)
  from writeManifestState_log [OF wr] have logw: "log w1 = log w" .
  from writeManifestState_cases [OF wr _ candidate(2)] codec
  have cases: "k1 = k \<and> outcome \<noteq> Settled \<and> outcome \<noteq> Committed \<or> on_disk env k1 candidate \<and> outcome \<noteq> NotWritten" by simp
  from inv(1) have durable: "am_durable m" by (simp add: ledger_inv_def)
  consider (settled) "outcome = Settled" | (unsettled) "outcome \<noteq> Settled" "unsettled outcome" | (failed) "outcome = NotWritten"
    by (cases outcome) (auto simp: unsettled_def)
  then show ?thesis
  proof cases
    case settled
    obtain w2 m2 e2 where n: "notify env snapshot w1 (m\<lparr>am_state := candidate\<rparr>) = (w2, m2, e2)" by (metis prod_cases3)
    with step Inr wr settled have r: "w' = w2" "k' = k1" "m' = m2" by (simp_all add: commit_candidate_def)
    from settled cases have disk: "on_disk env k1 candidate" by simp
    from notify_logged [OF n] have "am_state m2 = candidate" by auto
    with ledger_inv_settled [OF inv Inr candidate disk n logw] r show ?thesis by simp
  next
    case unsettled
    obtain w2 k2 where mark: "writeReconciliationMarker env w1 k1 = (w2, k2)" by (metis prod.exhaust)
    have r: "w' = w2" "k' = k2" "m' = (if outcome = Committed then m\<lparr>am_state := candidate\<rparr> else m)\<lparr>am_poisoned := True\<rparr>"
      using step Inr wr unsettled durable mark by (auto simp: commit_candidate_def split: write_outcome.splits)
    have "ledger_inv env caller (log w) k1 m'"
      by (rule ledger_inv_poisoned [OF inv(1,2) candidate _ r(3)]) (use cases in auto)
    from ledger_inv_disk [OF this, of k2] writeReconciliationMarker_keeps [OF mark] have "ledger_inv env caller (log w) k2 m'" by simp
    with r writeReconciliationMarker_log [OF mark] logw show ?thesis by simp
  next
    case failed
    with step Inr wr have "w' = w1" "k' = k1" "m' = m" by (simp_all add: commit_candidate_def unsettled_def)
    with failed cases logw inv(1) show ?thesis by simp
  qed
qed

lemma RecordScaled_inv:
  assumes inv: "ledger_inv env caller (log w) k m" and codec: "ledger_codec env"
    and fresh: "fmlookup (ms_Artifacts (am_state m)) (int index) = None" and scale: "case scale of None \<Rightarrow> True | Some s \<Rightarrow> validateScale s"
    and step: "RecordScaled env m index scale w k = (w', k', m', e)"
  shows "ledger_inv env caller (log w') k' m' \<and>
    (\<forall>i. i \<noteq> int index \<longrightarrow> fmlookup (ms_Artifacts (am_state m')) i = fmlookup (ms_Artifacts (am_state m)) i)"
proof -
  obtain w1 r where d: "digestFile env (fragment_name (int index)) w k = (w1, r)" by (metis prod.exhaust)
  from digestFile_log [OF d] have logw: "log w1 = log w" .
  consider (skip) "w' = w1" "k' = k" "m' = m"
    | (commit) bytes digest where "r = Some (bytes, digest)" "\<not> am_poisoned m" "\<not> am_callbackErr m"
      "commit_candidate env m ((am_state m)\<lparr>ms_Artifacts := fmupd (int index) (recorded bytes digest scale) (ms_Artifacts (am_state m))\<rparr>) w1 k
        = (w', k', m', e)"
    using step d by (cases r) (auto simp: RecordScaled_def Let_def split: if_splits)
  then show ?thesis
  proof cases
    case skip
    with inv logw show ?thesis by simp
  next
    case commit
    let ?c = "(am_state m)\<lparr>ms_Artifacts := fmupd (int index) (recorded bytes digest scale) (ms_Artifacts (am_state m))\<rparr>"
    from inv have texts: "text_state (am_state m)" by (simp add: ledger_inv_def)
    from digestFile_digest [OF d [unfolded commit(1)]] obtain content where "digest = hex_EncodeToString (Sum256 content)" by blast
    with recorded_text [OF scale] texts have "text_state ?c" by (auto simp: text_state_def intro: fmpred_upd)
    moreover have "grown (am_state m) ?c" using fresh by (rule grown_update)
    ultimately show ?thesis
      using commit_candidate_inv [OF inv [folded logw] commit(2,3) codec _ _ commit(4)] by auto
  qed
qed

end

section \<open>Opening\<close>

definition expectation_text :: "manifestExpectation \<Rightarrow> bool" where
  "expectation_text e \<longleftrightarrow> me_durable e \<and> valid_string (me_resumeIdentity e) \<and> valid_string (me_planHash e)"

text \<open>A manifest that was opened is what its ledger says.\<close>

definition opened :: "'w disk_env \<Rightarrow> workspace \<Rightarrow> artifactManifest \<Rightarrow> bool" where
  "opened env k m \<longleftrightarrow> m = new_manifest True (am_state m) \<and> text_state (am_state m) \<and> on_disk env k (am_state m)"

lemma create_ledger_opened:
  assumes "create_ledger env e w k = (w', k', Inr m)" and "ledger_codec env" and "expectation_text e"
  shows "opened env k' m"
proof -
  have texts: "text_state (initialManifestState e)" using assms(3) by (simp add: text_state_def initialManifestState_def expectation_text_def)
  obtain w1 k1 outcome where wr: "writeManifestState env (initialManifestState e) w k = (w1, k1, outcome)" by (metis prod_cases3)
  have r: "k' = k1" "outcome = Settled" "m = new_manifest True (initialManifestState e)"
    using assms(1,3) wr by (auto simp: create_ledger_def Let_def expectation_text_def split: write_outcome.splits if_splits prod.splits)
  from writeManifestState_cases [OF wr assms(2) texts] r texts show ?thesis by (simp add: opened_def new_manifest_def)
qed

lemma validated_text:
  assumes "validateManifestState state e = None" and "expectation_text e"
  shows "text_state state"
proof -
  from assms have fields: "ms_ResumeIdentity state = me_resumeIdentity e" "ms_PlanHash state = me_planHash e" "ms_Hash state = []"
      and arts: "fmpred (artifact_ok e) (ms_Artifacts state)"
    by (auto simp: validateManifestState_def expectation_text_def split: if_splits)
  have "fmpred (\<lambda>_ a. list_all valid_string (artifact_strings a)) (ms_Artifacts state)"
    using arts artifact_ok_text [of e] assms(2) by (fastforce simp: expectation_text_def fmpred_iff)
  with fields assms(2) show ?thesis by (simp add: text_state_def expectation_text_def)
qed

lemma readManifestState_result: "readManifestState env content w = (w', Some state) \<Longrightarrow> length content \<le> maxManifestBytes \<and> dk_decode env content = Some state"
  by (auto simp: readManifestState_def split: prod.splits if_splits)

lemma existing_ledger_opened:
  assumes "existing_ledger env e order content w k = (w', k', Inr m)" and "expectation_text e" and "map_of (wk_entries k) ledger_name = Some (Regular content)"
  shows "opened env k' m"
proof -
  from assms(2) have durable: "me_durable e" by (simp add: expectation_text_def)
  obtain w1 r where read: "readManifestState env content w = (w1, r)" by (metis prod.exhaust)
  with assms(1) durable obtain state where state: "r = Some state" "validateManifestState state e = None" "m = new_manifest True state" "k' = k"
    by (auto simp: existing_ledger_def split: option.splits prod.splits bool.splits)
  from readManifestState_result [OF read [unfolded state(1)]] assms(3) have "on_disk env k state" by (simp add: on_disk_def)
  with state validated_text [OF state(2) assms(2)] show ?thesis by (simp add: opened_def new_manifest_def)
qed

lemma missing_ledger_created:
  assumes "missing_ledger env e created w k = (w', k', Inr m)"
  shows "\<exists>w. create_ledger env e w k = (w', k', Inr m)"
  using assms by (auto simp: missing_ledger_def split: if_splits prod.splits bool.splits)

lemma openArtifactManifest_opened:
  assumes open_: "openArtifactManifest env e order w k = (w', k', Inr m)" and "ledger_codec env" and "expectation_text e"
  shows "opened env k' m"
proof -
  obtain w1 k1 created where "ensureWorkDirectory env e w k = (w1, k1, Inr created)"
    using open_ by (auto simp: openArtifactManifest_def split: prod.splits sum.splits)
  with open_ obtain w2 where "missing_ledger env e created w2 k1 = (w', k', Inr m) \<and> map_of (wk_entries k1) ledger_name = None \<or>
      (\<exists>content. existing_ledger env e order content w2 k1 = (w', k', Inr m) \<and> map_of (wk_entries k1) ledger_name = Some (Regular content))"
    by (auto simp: openArtifactManifest_def split: prod.splits option.splits bool.splits dir_entry.splits)
  then show ?thesis
    by (elim disjE exE conjE) (auto dest: missing_ledger_created create_ledger_opened [OF _ assms(2,3)] existing_ledger_opened [OF _ assms(3)])
qed

lemma prepare_ledger_result:
  assumes "prepare_ledger env order legacyHash job authority w k = (w', k', Inr m)"
  obtains wi ki mi where "openArtifactManifest env (manifestExpectationFor legacyHash job) order wi ki = (w', k', Inr mi)"
      "configure_job job authority mi = Inr m" "\<not> equivalenceRestartRequired mi (fj_Segments job)"
    | w0 k0 w1 k1 m1 w2 k2 mi where "openArtifactManifest env (manifestExpectationFor legacyHash job) order w0 k0 = (w1, k1, Inr m1)"
      "\<not> claims_prefix job authority"
      "resetCheckpointWorkspace env (manifestExpectationFor legacyHash job) w1 k1 = (w2, k2, None)"
      "openArtifactManifest env (manifestExpectationFor legacyHash job) order w2 k2 = (w', k', Inr mi)" "configure_job job authority mi = Inr m"
  using assms unfolding prepare_ledger_def Let_def restart_ledger_def
  by (auto split: prod.splits option.splits bool.splits sum.splits if_splits)

section \<open>A reset directory\<close>

lemma drop_file_absent: "map_of (wk_entries k) n = None \<Longrightarrow> map_of (wk_entries (drop_file name k)) n = None"
  by (auto simp: drop_file_def map_of_eq_None_iff)

lemma remove_files_result:
  "remove_files env names w k = (w', k', False) \<Longrightarrow> (map_of (wk_entries k) n = None \<or> n \<in> set names) \<Longrightarrow> map_of (wk_entries k') n = None"
proof (induction names arbitrary: w k)
  case (Cons name names)
  have gone: "map_of (wk_entries (drop_file name k)) name = None" by (auto simp: drop_file_def map_of_eq_None_iff)
  from Cons.prems(1) obtain w1 where rest: "remove_files env names w1 (drop_file name k) = (w', k', False)"
    by (auto simp: remove_file_def split: prod.splits bool.splits if_splits)
  from Cons.prems(2) gone drop_file_absent [of k n name] have "map_of (wk_entries (drop_file name k)) n = None \<or> n \<in> set names" by auto
  with Cons.IH [OF rest] show ?case .
qed simp

lemma remove_and_sync_result:
  assumes "remove_and_sync env names w k = (w', k', None)" and "map_of (wk_entries k) n = None \<or> n \<in> set names"
  shows "map_of (wk_entries k') n = None"
  using assms by (auto simp: remove_and_sync_def split: if_splits prod.splits bool.splits dest: remove_files_result)

lemma classify_entries_ledger:
  "classify_entries env n w entries = (w', Inr (ordinary, ledger)) \<Longrightarrow> ledger \<longleftrightarrow> map_of entries ledger_name \<noteq> None"
proof (induction entries arbitrary: w ordinary ledger)
  case (Cons x entries)
  then show ?case by (cases x) (auto split: if_splits prod.splits option.splits sum.splits)
qed simp

lemma resetCheckpointWorkspace_empty:
  assumes "resetCheckpointWorkspace env e w k = (w', k', None)"
  shows "wk_kind k' = DirMissing \<or> map_of (wk_entries k') ledger_name = None"
proof -
  from assms consider "wk_kind k' = DirMissing" | w1 where "reset_entries env e w1 k = (w', k', None)"
    by (auto simp: resetCheckpointWorkspace_def split: prod.splits bool.splits if_splits dir_kind.splits option.splits)
  then show ?thesis
  proof cases
    case 2
    then obtain w2 w3 ordinary ledger w4 k4 where c: "classify_entries env (me_segmentCount e) w2 (wk_entries k) = (w3, Inr (ordinary, ledger))"
        and first: "remove_and_sync env (sort ordinary) w3 k = (w4, k4, None)"
        and second: "(if ledger then remove_and_sync env [ledger_name] w4 k4 else (w4, k4, None)) = (w', k', None)"
      by (auto simp: reset_entries_def split: prod.splits bool.splits sum.splits option.splits)
    show ?thesis
    proof (cases ledger)
      case True
      with second remove_and_sync_result [of env "[ledger_name]" w4 k4 w' k' ledger_name] show ?thesis by simp
    next
      case False
      with classify_entries_ledger [OF c] remove_and_sync_result [OF first, of ledger_name] second show ?thesis by auto
    qed
  qed simp
qed

lemma create_ledger_state: "create_ledger env e w k = (w', k', Inr m) \<Longrightarrow> am_state m = initialManifestState e"
  by (auto simp: create_ledger_def new_manifest_def Let_def split: write_outcome.splits if_splits prod.splits)

lemma open_after_reset:
  assumes "openArtifactManifest env e order w k = (w', k', Inr m)" and "wk_kind k = DirMissing \<or> map_of (wk_entries k) ledger_name = None"
  shows "am_state m = initialManifestState e"
proof -
  obtain w1 k1 created where en: "ensureWorkDirectory env e w k = (w1, k1, Inr created)"
    using assms(1) by (auto simp: openArtifactManifest_def split: prod.splits sum.splits)
  with assms(2) have "map_of (wk_entries k1) ledger_name = None"
    by (auto simp: ensureWorkDirectory_def split: prod.splits option.splits dir_kind.splits)
  with en assms(1) obtain w2 where "missing_ledger env e created w2 k1 = (w', k', Inr m)"
    by (auto simp: openArtifactManifest_def split: prod.splits option.splits bool.splits)
  then show ?thesis by (auto dest!: missing_ledger_created create_ledger_state)
qed

section \<open>A prepared ledger\<close>

lemma expectation_of_checkpoint:
  assumes "fj_Checkpoint job = Some checkpoint" and "validateResumeIdentity (fc_ResumeIdentity checkpoint) = None"
  shows "expectation_text (manifestExpectationFor legacyHash job)"
proof -
  have "valid_string (checkpointPlanHash (fj_Segments job))" by (simp add: checkpointPlanHash_def canonical_valid)
  with assms show ?thesis
    by (simp add: manifestExpectationFor_def expectation_text_def validateResumeIdentity_def split: if_splits)
qed

lemma configure_job_result:
  assumes "configure_job job authority m0 = Inr m" and "fj_Checkpoint job = Some checkpoint"
  shows "am_state m = am_state m0" "am_durable m = am_durable m0" "am_poisoned m = am_poisoned m0" "am_callbackErr m = am_callbackErr m0"
    "am_callerSequence m = (case authority of None \<Rightarrow> am_callerSequence m0 | Some b \<Rightarrow> rb_Sequence b)"
    "(case authority of None \<Rightarrow> 0 | Some b \<Rightarrow> rb_Sequence b) \<le> contiguousSequence (am_state m)"
  using assms by (auto simp: configure_job_def configureCallback_def Let_def split: option.splits if_splits prod.splits)

definition caller_sequence :: "ResumeBoundary option \<Rightarrow> nat" where
  "caller_sequence authority = (case authority of None \<Rightarrow> 0 | Some b \<Rightarrow> rb_Sequence b)"

lemma prepare_ledger_opened:
  assumes "prepare_ledger env order legacyHash job authority w k = (w', k', Inr m)" and "ledger_codec env"
    and "fj_Checkpoint job = Some checkpoint" and "validateResumeIdentity (fc_ResumeIdentity checkpoint) = None"
  shows "ledger_inv env (caller_sequence authority) [] k' m" "\<not> am_poisoned m" "\<not> am_callbackErr m"
    "\<not> equivalenceRestartRequired m (fj_Segments job)" "caller_sequence authority \<le> contiguousSequence (am_state m)"
proof -
  have texts: "expectation_text (manifestExpectationFor legacyHash job)" using assms(3,4) by (rule expectation_of_checkpoint)
  obtain m0 where m0: "opened env k' m0" "configure_job job authority m0 = Inr m" "\<not> equivalenceRestartRequired m0 (fj_Segments job)"
  proof (rule prepare_ledger_result [OF assms(1)])
    fix wi ki mi
    assume "openArtifactManifest env (manifestExpectationFor legacyHash job) order wi ki = (w', k', Inr mi)"
      "configure_job job authority mi = Inr m" "\<not> equivalenceRestartRequired mi (fj_Segments job)"
    with openArtifactManifest_opened [OF _ assms(2) texts] that show thesis by blast
  next
    fix w0 k0 w1 k1 m1 w2 k2 mi
    assume reset: "resetCheckpointWorkspace env (manifestExpectationFor legacyHash job) w1 k1 = (w2, k2, None)"
      and again: "openArtifactManifest env (manifestExpectationFor legacyHash job) order w2 k2 = (w', k', Inr mi)" "configure_job job authority mi = Inr m"
    from open_after_reset [OF again(1) resetCheckpointWorkspace_empty [OF reset]]
    have "ms_Artifacts (am_state mi) = fmempty" by (simp add: initialManifestState_def)
    then have "\<not> equivalenceRestartRequired mi (fj_Segments job)" by (simp add: equivalenceRestartRequired_def)
    with openArtifactManifest_opened [OF again(1) assms(2) texts] again(2) that show thesis by blast
  qed
  note c = configure_job_result [OF m0(2) assms(3)]
  from m0(1) have fields: "am_durable m0" "\<not> am_poisoned m0" "\<not> am_callbackErr m0" "am_callerSequence m0 = 0"
      "text_state (am_state m0)" "on_disk env k' (am_state m0)"
    by (simp_all add: opened_def) (metis artifactManifest.select_convs new_manifest_def)+
  from fields c show "ledger_inv env (caller_sequence authority) [] k' m"
    by (auto simp: ledger_inv_def log_ok_def covers_def caller_sequence_def split: option.splits)
  from c(6) show "caller_sequence authority \<le> contiguousSequence (am_state m)" by (simp add: caller_sequence_def)
  from fields c show "\<not> am_poisoned m" "\<not> am_callbackErr m" by simp_all
  from m0(3) show "\<not> equivalenceRestartRequired m (fj_Segments job)" unfolding equivalenceRestartRequired_def c(1,2) .
qed

lemma no_restart:
  assumes "\<not> equivalenceRestartRequired m segments" and "am_durable m" and "list_ex (\<lambda>s. fs_Scale s \<noteq> None) segments"
    and "fmlookup (ms_Artifacts (am_state m)) i = Some a"
  shows "0 \<le> i \<and> segment_scale segments (nat i) = Some (artifact_scale a) \<and> ar_ProofKind a \<noteq> []"
proof -
  let ?same = "\<lambda>i a. \<not> (i < 0 \<or> i \<ge> int (length segments)) \<and> (case fs_Scale (segments ! nat i) of None \<Rightarrow> False
    | Some scale \<Rightarrow> \<not> (sc_Kind scale = [] \<or> ar_Key a \<noteq> sc_Key scale \<or> ar_ProofKind a \<noteq> sc_Kind scale \<or> ar_ProofValue a \<noteq> sc_Value scale \<or>
        ar_ProofScope a \<noteq> sc_Scope scale))"
  from assms(3) have "segments \<noteq> []" by auto
  then have "fmpred ?same (ms_Artifacts (am_state m))"
    using assms(1-3) unfolding equivalenceRestartRequired_def by (simp only: if_False simp_thms)
  from fmpredD [OF this assms(4)] show ?thesis by (auto simp: segment_scale_def artifact_scale_def split: option.splits)
qed

end
