(* ===== verification/FragmentEngine.thy ===== *)
theory FragmentEngine
  imports LedgerRuns
begin

text \<open>
  The fragment engine (\<open>internal/fragment/engine.go\<close> and \<open>checkpoint_cleanup.go\<close>): the checks of a job, requests with retries and decryption, the workers of a download, the
  assembly and publication of the output, and the removal of the work directory. The workers run in any interleaving: a schedule says which worker takes its next step. The
  transport, contexts, timers, event sink, block cipher and the file system are an environment.
\<close>

section \<open>Jobs\<close>

definition maxFragmentConcurrency :: int where "maxFragmentConcurrency = 128"
definition maxFragmentSize :: int where "maxFragmentSize = 536870912"
definition maxRetryDelay :: i64 where "maxRetryDelay = 60000000000"

text \<open>What the file system says of the paths of a job: the two checks of paths, what is at the destination, and whether the work directory is a link.\<close>

datatype destination_kind = DestMissing | DestRegular | DestOther

record path_env =
  pe_checkpoint :: "fragment_error option"
  pe_destination :: "fragment_error option"
  pe_lstat :: "fragment_error + destination_kind"
  pe_symlink :: bool

record fragment_settings =
  st_concurrency :: int
  st_attempts :: int
  st_maxSize :: i64

definition check_paths :: "path_env \<Rightarrow> fragment_job \<Rightarrow> fragment_error option" where
  "check_paths paths job =
     (case (case fj_Checkpoint job of
              None \<Rightarrow> None
            | Some checkpoint \<Rightarrow> (case validateResumeIdentity (fc_ResumeIdentity checkpoint) of Some e \<Rightarrow> Some e | None \<Rightarrow> pe_checkpoint paths)) of
        Some e \<Rightarrow> Some e
      | None \<Rightarrow>
          (case pe_destination paths of
             Some e \<Rightarrow> Some e
           | None \<Rightarrow>
               (case pe_lstat paths of
                  Inl e \<Rightarrow> Some e
                | Inr DestMissing \<Rightarrow> None
                | Inr DestOther \<Rightarrow> Some FragUnsafeDestination
                | Inr DestRegular \<Rightarrow> if \<not> fj_Overwrite job then Some FragDestinationExists else None)))"

definition check_settings :: "fragment_job \<Rightarrow> fragment_error + fragment_settings" where
  "check_settings job =
     (let concurrency = (if fj_Concurrency job \<le> 0 then 4 else fj_Concurrency job);
          attempts = (if fj_Attempts job \<le> 0 then 3 else fj_Attempts job);
          maxSize = (if fj_MaxSegmentSize job \<le> 0 then 67108864 else fj_MaxSegmentSize job)
      in if concurrency > maxFragmentConcurrency then Inl FragTooMuchConcurrency
         else if fj_PerHostConcurrency job < 0 \<or> fj_PerHostConcurrency job > maxFragmentConcurrency then Inl FragTooMuchConcurrency
         else if attempts > 100 then Inl FragTooManyAttempts
         else if fj_MaxSegmentSize job < 0 then Inl FragSegmentTooLarge
         else if maxSize > maxFragmentSize then Inl FragSegmentTooLarge
         else if fj_RetryBaseDelay job < 0 \<or> fj_RetryMaxDelay job < 0 \<or> fj_RetryBaseDelay job > maxRetryDelay \<or> fj_RetryMaxDelay job > maxRetryDelay \<or>
                 (fj_RetryBaseDelay job > 0 \<and> fj_RetryMaxDelay job > 0 \<and> fj_RetryBaseDelay job > fj_RetryMaxDelay job) then Inl FragTooManyAttempts
         else Inr \<lparr>st_concurrency = concurrency, st_attempts = attempts, st_maxSize = maxSize\<rparr>)"

definition check_job :: "path_env \<Rightarrow> fragment_job \<Rightarrow> fragment_error + fragment_settings" where
  "check_job paths job =
     (let maxSegments = (if fj_MaxSegments job \<le> 0 then int maxFragmentSegments else fj_MaxSegments job)
      in if fj_Segments job = [] then Inl FragNoSegments
         else if fj_MaxSegments job < 0 then Inl FragTooManySegments
         else if maxSegments > int maxFragmentSegments then Inl FragTooManySegments
         else if int (length (fj_Segments job)) > maxSegments then Inl FragTooManySegments
         else (case validateFiniteFragmentPlan (fj_Segments job) of
                 Some e \<Rightarrow> Inl e
               | None \<Rightarrow>
                   (case check_paths paths job of
                      Some e \<Rightarrow> Inl e
                    | None \<Rightarrow>
                        (case check_settings job of
                           Inl e \<Rightarrow> Inl e
                         | Inr settings \<Rightarrow>
                             if pe_symlink paths then Inl (if fj_Checkpoint job \<noteq> None then FragInvalidCheckpoint else FragUnsafeDestination)
                             else Inr settings))))"

section \<open>Requests\<close>

datatype fragment_event = Starting nat | Retrying nat nat | Completed nat

text \<open>\<open>en_do\<close> gives a status and a body, or nothing if the transport fails; \<open>en_emit\<close>, \<open>en_cancelled\<close> and \<open>en_wait\<close> say whether the sink failed or the context is done,
  which a failed worker or the caller may have caused: when a worker takes notice is left to the environment. \<open>en_replace\<close> is how a replacement ends and \<open>en_encode\<close> the
  JSON text of a publication marker.
\<close>

record 'w engine_env =
  en_disk :: "'w disk_env"
  en_do :: "'w \<Rightarrow> string \<times> http_header \<Rightarrow> 'w \<times> (int \<times> body_stream) option"
  en_emit :: "'w \<Rightarrow> fragment_event \<Rightarrow> 'w \<times> bool"
  en_cancelled :: "'w \<Rightarrow> 'w \<times> bool"
  en_wait :: "'w \<Rightarrow> i64 \<Rightarrow> 'w \<times> bool"
  en_symlink :: "'w \<Rightarrow> string \<Rightarrow> 'w \<times> bool"
  en_replace :: "'w \<Rightarrow> 'w \<times> write_outcome"
  en_encode :: "int \<times> string \<Rightarrow> byte list"
  en_cbc :: "byte list \<Rightarrow> byte list \<Rightarrow> byte list \<Rightarrow> byte list"

definition decryptAES128 :: "(byte list \<Rightarrow> byte list \<Rightarrow> byte list \<Rightarrow> byte list) \<Rightarrow> byte list \<Rightarrow> byte list \<Rightarrow> byte list \<Rightarrow> fragment_error + byte list" where
  "decryptAES128 cbc key iv input =
     (if length key \<noteq> 16 \<or> length iv \<noteq> 16 \<or> input = [] \<or> length input mod 16 \<noteq> 0 then Inl FragInvalidEncryption
      else let output = cbc key iv input; padding = unat (last output)
      in if padding = 0 \<or> padding > 16 \<or> padding > length output then Inl FragInvalidEncryption
         else if \<not> list_all (\<lambda>b. unat b = padding) (drop (length output - padding) output) then Inl FragInvalidEncryption
         else Inr (take (length output - padding) output))"

text \<open>What is kept of a response; an error is retryable or final.\<close>

definition accept_body ::
    "(byte list \<Rightarrow> byte list \<Rightarrow> byte list \<Rightarrow> byte list) \<Rightarrow> i64 \<Rightarrow> fragment_segment \<Rightarrow> int \<Rightarrow> body_stream \<Rightarrow> fragment_error \<times> bool + byte list" where
  "accept_body cbc maxSize segment status body =
     (if status \<noteq> 200 \<and> status \<noteq> 206 then Inl (FragStatus, RetryableStatus status)
      else (case ReadAll_limited (nat (maxSize + 1)) body of
              (_, Some _) \<Rightarrow> Inl (FragTransport, True)
            | (bytes, None) \<Rightarrow>
                if int (length bytes) > maxSize then Inl (FragSegmentTooLarge, False)
                else if fs_RangeLength segment > 0 \<and> int (length bytes) \<noteq> fs_RangeLength segment then Inl (FragRangeLength, False)
                else (case fs_AES128 segment of
                        None \<Rightarrow> Inr bytes
                      | Some (key, iv) \<Rightarrow> (case decryptAES128 cbc key iv bytes of Inl e \<Rightarrow> Inl (e, False) | Inr content \<Rightarrow> Inr content))))"

definition fragment_request :: "(string \<times> string list) list \<Rightarrow> fragment_segment \<Rightarrow> string \<times> http_header" where
  "fragment_request headers segment =
     (fs_URL segment,
      fold (\<lambda>(key, values) h. fold (\<lambda>v h. header_Add h key v) values h) headers
        (if fs_RangeLength segment > 0
         then header_Set fmempty ''Range'' (''bytes='' @ Itoa (fs_RangeStart segment) @ ''-'' @
                Itoa (wrap64 (fs_RangeStart segment + fs_RangeLength segment - 1)))
         else fmempty))"

definition fetch ::
    "'w engine_env \<Rightarrow> (string \<times> string list) list \<Rightarrow> i64 \<Rightarrow> fragment_segment \<Rightarrow> string \<Rightarrow> 'w \<Rightarrow> workspace \<Rightarrow> 'w \<times> workspace \<times> (fragment_error \<times> bool) option" where
  "fetch env headers maxSize segment name w k =
     (case en_symlink env w name of
        (w, True) \<Rightarrow> (w, k, Some (FragUnsafeDestination, False))
      | (w, False) \<Rightarrow>
          (case en_symlink env w (name @ ''.tmp'') of
             (w, True) \<Rightarrow> (w, k, Some (FragUnsafeDestination, False))
           | (w, False) \<Rightarrow>
               if url_Parse (fs_URL segment) = None then (w, k, Some (FragInvalidURL, False))
               else (case en_do env w (fragment_request headers segment) of
                       (w, None) \<Rightarrow> (w, k, Some (FragTransport, True))
                     | (w, Some (status, body)) \<Rightarrow>
                         (case accept_body (en_cbc env) maxSize segment status body of
                            Inl e \<Rightarrow> (w, k, Some e)
                          | Inr content \<Rightarrow>
                              (case atomic_write (en_disk env) name content w k of
                                 (w, k, Settled) \<Rightarrow> (w, k, None)
                               | (w, k, outcome) \<Rightarrow> (w, k, Some (if unsettled outcome then FragUnsettled else FragIO, False)))))))"

fun retry_delay :: "i64 \<Rightarrow> nat \<Rightarrow> i64 \<Rightarrow> i64" where
  "retry_delay longest 0 base = base"
| "retry_delay longest (Suc n) base = (if base \<ge> longest \<or> base > longest div 2 then longest else retry_delay longest n (base * 2))"

definition fragmentRetryDelay :: "fragment_job \<Rightarrow> nat \<Rightarrow> i64" where
  "fragmentRetryDelay job attempt =
     retry_delay (if fj_RetryMaxDelay job \<le> 0 then 1000000000 else fj_RetryMaxDelay job) (attempt - 1)
       (if fj_RetryBaseDelay job \<le> 0 then 20000000 else fj_RetryBaseDelay job)"

text \<open>The loop of \<open>fetchWithRetry\<close>, with \<open>n\<close> attempts left after this one.\<close>

fun fetch_attempts ::
    "'w engine_env \<Rightarrow> fragment_job \<Rightarrow> i64 \<Rightarrow> fragment_segment \<Rightarrow> nat \<Rightarrow> nat \<Rightarrow> nat \<Rightarrow> 'w \<Rightarrow> workspace \<Rightarrow> 'w \<times> workspace \<times> fragment_error option" where
  "fetch_attempts env job maxSize segment index n attempt w k =
     (case fetch env (fj_Headers job) maxSize segment (fragment_name (int index)) w k of
        (w, k, None) \<Rightarrow> (w, k, None)
      | (w, k, Some (e, retryable)) \<Rightarrow>
          if fj_Checkpoint job \<noteq> None \<and> e = FragUnsettled then
            (case writeReconciliationMarker (en_disk env) w k of (w, k) \<Rightarrow> (w, k, Some FragReconciliation))
          else (case en_cancelled env w of
                  (w, True) \<Rightarrow> (w, k, Some FragCancelled)
                | (w, False) \<Rightarrow>
                    if \<not> retryable then (w, k, Some e)
                    else (case n of
                            0 \<Rightarrow> (w, k, Some e)
                          | Suc n \<Rightarrow>
                              (case en_emit env w (Retrying index (attempt + 1)) of
                                 (w, True) \<Rightarrow> (w, k, Some FragEvent)
                               | (w, False) \<Rightarrow>
                                   (case en_wait env w (fragmentRetryDelay job attempt) of
                                      (w, True) \<Rightarrow> (w, k, Some FragCancelled)
                                    | (w, False) \<Rightarrow> fetch_attempts env job maxSize segment index n (attempt + 1) w k)))))"

declare fetch_attempts.simps [simp del]

definition fetchWithRetry ::
    "'w engine_env \<Rightarrow> fragment_job \<Rightarrow> fragment_settings \<Rightarrow> nat \<Rightarrow> 'w \<Rightarrow> workspace \<Rightarrow> 'w \<times> workspace \<times> fragment_error option" where
  "fetchWithRetry env job settings index w k =
     fetch_attempts env job (st_maxSize settings) (fj_Segments job ! index) index (nat (st_attempts settings) - 1) 1 w k"

definition segmentHost :: "string \<Rightarrow> string option" where
  "segmentHost raw =
     (case url_Parse raw of
        None \<Rightarrow> None
      | Some u \<Rightarrow> if Hostname u = [] then None else Some (ToLower (Hostname u)))"

section \<open>Workers\<close>

text \<open>
  Where the work on a fragment is: taken from the channel, to be fetched, waiting for its host, being fetched, written, or finished with an error or none, and whether the
  fragment was reused.
\<close>

datatype worker = Idle | Taken | Missing | Queued string | Fetching string | Written | Finished "fragment_error option" bool

record 'w engine_state =
  es_world :: 'w
  es_disk :: workspace
  es_manifest :: artifactManifest
  es_workers :: "nat \<Rightarrow> worker"
  es_next :: nat
  es_hosts :: "string \<Rightarrow> nat"

definition is_active :: "worker \<Rightarrow> bool" where
  "is_active x = (case x of Idle \<Rightarrow> False | Finished _ _ \<Rightarrow> False | _ \<Rightarrow> True)"

definition active_workers :: "'w engine_state \<Rightarrow> nat" where
  "active_workers s = length (filter (\<lambda>i. is_active (es_workers s i)) [0..<es_next s])"

text \<open>The channel of indices has no buffer: the next index is handed over when one of the workers is free.\<close>

definition dispatch :: "fragment_job \<Rightarrow> fragment_settings \<Rightarrow> 'w engine_state \<Rightarrow> 'w engine_state" where
  "dispatch job settings s =
     (if es_next s < length (fj_Segments job) \<and> int (active_workers s) < st_concurrency settings
      then s\<lparr>es_workers := (es_workers s)(es_next s := Taken), es_next := es_next s + 1\<rparr> else s)"

definition put_worker :: "nat \<Rightarrow> worker \<Rightarrow> 'w \<Rightarrow> 'w engine_state \<Rightarrow> 'w engine_state" where
  "put_worker i x w s = s\<lparr>es_world := w, es_workers := (es_workers s)(i := x)\<rparr>"

definition look :: "'w engine_env \<Rightarrow> fragment_job \<Rightarrow> nat \<Rightarrow> 'w engine_state \<Rightarrow> 'w engine_state" where
  "look env job i s =
     (case reusableScaled (en_disk env) (es_manifest s) i (segment_scale (fj_Segments job) i) (es_world s) (es_disk s) of
        (w, Inl e) \<Rightarrow> put_worker i (Finished (Some e) False) w s
      | (w, Inr True) \<Rightarrow> put_worker i (Finished None True) w s
      | (w, Inr False) \<Rightarrow> put_worker i Missing w s)"

definition start :: "'w engine_env \<Rightarrow> fragment_job \<Rightarrow> nat \<Rightarrow> 'w engine_state \<Rightarrow> 'w engine_state" where
  "start env job i s =
     (case en_emit env (es_world s) (Starting i) of
        (w, True) \<Rightarrow> put_worker i (Finished (Some FragEvent) False) w s
      | (w, False) \<Rightarrow>
          (case segmentHost (fs_URL (fj_Segments job ! i)) of
             None \<Rightarrow> put_worker i (Finished (Some FragInvalidURL) False) w s
           | Some host \<Rightarrow> put_worker i (Queued host) w s))"

text \<open>\<open>hostLimiter.Acquire\<close>: a full semaphore keeps the worker waiting, unless the context is done.\<close>

definition acquire :: "'w engine_env \<Rightarrow> fragment_job \<Rightarrow> nat \<Rightarrow> string \<Rightarrow> 'w engine_state \<Rightarrow> 'w engine_state" where
  "acquire env job i host s =
     (if fj_PerHostConcurrency job \<le> 0 then put_worker i (Fetching host) (es_world s) s
      else (case en_cancelled env (es_world s) of
              (w, True) \<Rightarrow> put_worker i (Finished (Some FragCancelled) False) w s
            | (w, False) \<Rightarrow>
                if int (es_hosts s host) < fj_PerHostConcurrency job
                then (put_worker i (Fetching host) w s)\<lparr>es_hosts := (es_hosts s)(host := es_hosts s host + 1)\<rparr>
                else s\<lparr>es_world := w\<rparr>))"

definition release :: "fragment_job \<Rightarrow> string \<Rightarrow> 'w engine_state \<Rightarrow> 'w engine_state" where
  "release job host s = (if fj_PerHostConcurrency job \<le> 0 then s else s\<lparr>es_hosts := (es_hosts s)(host := es_hosts s host - 1)\<rparr>)"

definition run_fetch :: "'w engine_env \<Rightarrow> fragment_job \<Rightarrow> fragment_settings \<Rightarrow> nat \<Rightarrow> string \<Rightarrow> 'w engine_state \<Rightarrow> 'w engine_state" where
  "run_fetch env job settings i host s =
     (case fetchWithRetry env job settings i (es_world s) (es_disk s) of
        (w, k, e) \<Rightarrow>
          release job host (put_worker i (case e of Some err \<Rightarrow> Finished (Some err) False | None \<Rightarrow> Written) w (s\<lparr>es_disk := k\<rparr>)))"

definition record_fragment :: "'w engine_env \<Rightarrow> fragment_job \<Rightarrow> nat \<Rightarrow> 'w engine_state \<Rightarrow> 'w engine_state" where
  "record_fragment env job i s =
     (case RecordScaled (en_disk env) (es_manifest s) i (segment_scale (fj_Segments job) i) (es_world s) (es_disk s) of
        (w, k, m, Some err) \<Rightarrow> put_worker i (Finished (Some err) False) w (s\<lparr>es_disk := k, es_manifest := m\<rparr>)
      | (w, k, m, None) \<Rightarrow>
          (case en_emit env w (Completed i) of
             (w, failed) \<Rightarrow> put_worker i (Finished (if failed then Some FragEvent else None) False) w (s\<lparr>es_disk := k, es_manifest := m\<rparr>)))"

definition advance :: "'w engine_env \<Rightarrow> fragment_job \<Rightarrow> fragment_settings \<Rightarrow> nat \<Rightarrow> 'w engine_state \<Rightarrow> 'w engine_state" where
  "advance env job settings i s =
     (case es_workers s i of
        Idle \<Rightarrow> s
      | Taken \<Rightarrow> look env job i s
      | Missing \<Rightarrow> start env job i s
      | Queued host \<Rightarrow> acquire env job i host s
      | Fetching host \<Rightarrow> run_fetch env job settings i host s
      | Written \<Rightarrow> record_fragment env job i s
      | Finished _ _ \<Rightarrow> s)"

text \<open>A schedule: \<open>None\<close> hands over the next index, \<open>Some i\<close> lets the worker of fragment \<open>i\<close> take a step.\<close>

definition engine_step :: "'w engine_env \<Rightarrow> fragment_job \<Rightarrow> fragment_settings \<Rightarrow> nat option \<Rightarrow> 'w engine_state \<Rightarrow> 'w engine_state" where
  "engine_step env job settings event s = (case event of None \<Rightarrow> dispatch job settings s | Some i \<Rightarrow> advance env job settings i s)"

definition engine_run :: "'w engine_env \<Rightarrow> fragment_job \<Rightarrow> fragment_settings \<Rightarrow> nat option list \<Rightarrow> 'w engine_state \<Rightarrow> 'w engine_state" where
  "engine_run env job settings schedule s = fold (engine_step env job settings) schedule s"

definition engine_start :: "'w \<Rightarrow> workspace \<Rightarrow> artifactManifest \<Rightarrow> 'w engine_state" where
  "engine_start w k m = \<lparr>es_world = w, es_disk = k, es_manifest = m, es_workers = (\<lambda>_. Idle), es_next = 0, es_hosts = (\<lambda>_. 0)\<rparr>"

section \<open>Outcomes\<close>

text \<open>The cause of a failed callback is taken for none of the sentinels.\<close>

definition is_checkpoint_error :: "fragment_error \<Rightarrow> bool" where
  "is_checkpoint_error e \<longleftrightarrow> e = FragInvalidCheckpoint \<or> e = FragReconciliation"

definition outcome_errors :: "(nat \<Rightarrow> worker) \<Rightarrow> nat \<Rightarrow> fragment_error list" where
  "outcome_errors workers n = concat (map (\<lambda>i. case workers i of Finished (Some e) _ \<Rightarrow> [e] | _ \<Rightarrow> []) [0..<n])"

definition deterministicOutcomeError :: "fragment_error list \<Rightarrow> fragment_error option" where
  "deterministicOutcomeError errors =
     (case List.find is_checkpoint_error errors of
        Some e \<Rightarrow> Some e
      | None \<Rightarrow>
          (case List.find (\<lambda>e. \<not> is_checkpoint_error e \<and> e \<noteq> FragCancelled) errors of
             Some e \<Rightarrow> Some e
           | None \<Rightarrow> (case errors of [] \<Rightarrow> None | e # _ \<Rightarrow> Some e)))"

section \<open>Assembly\<close>

text \<open>What is read through a name: a link is followed.\<close>

definition file_content :: "dir_entry option \<Rightarrow> byte list option" where
  "file_content entry = (case entry of Some (Regular content) \<Rightarrow> Some content | Some (Irregular target) \<Rightarrow> target | None \<Rightarrow> None)"

text \<open>
  The fragments are appended to the temporary file one after the other. A copy is complete, or the context was done between two pieces, or a read or write failed; in
  the last two cases the temporary file is removed, and how much of the fragment it held is not told apart.
\<close>

definition copyFragment :: "'w engine_env \<Rightarrow> 'w \<Rightarrow> 'w \<times> fragment_error option" where
  "copyFragment env w =
     (case en_cancelled env w of
        (w, True) \<Rightarrow> (w, Some FragCancelled)
      | (w, False) \<Rightarrow> (case dk_call (en_disk env) w of (w, failed) \<Rightarrow> (w, if failed then Some FragIO else None)))"

fun copy_fragments :: "'w engine_env \<Rightarrow> nat list \<Rightarrow> byte list \<Rightarrow> 'w \<Rightarrow> workspace \<Rightarrow> 'w \<times> workspace \<times> (fragment_error + byte list)" where
  "copy_fragments env [] written w k = (w, k, Inr written)"
| "copy_fragments env (i # rest) written w k =
     (case en_cancelled env w of
        (w, True) \<Rightarrow> (w, k, Inl FragCancelled)
      | (w, False) \<Rightarrow>
          (case dk_call (en_disk env) w of
             (w, True) \<Rightarrow> (w, k, Inl FragIO)
           | (w, False) \<Rightarrow>
               (case file_content (map_of (wk_entries k) (fragment_name (int i))) of
                  None \<Rightarrow> (w, k, Inl FragIO)
                | Some content \<Rightarrow>
                    (case copyFragment env w of
                       (w, Some e) \<Rightarrow> (w, k, Inl e)
                     | (w, None) \<Rightarrow> copy_fragments env rest (written @ content) w (put_file finalPublicationEvidence (written @ content) k)))))"

text \<open>The deferred removal of the temporary file, whose own failure is ignored.\<close>

definition discard :: "'w engine_env \<Rightarrow> 'w \<Rightarrow> workspace \<Rightarrow> 'w \<times> workspace" where
  "discard env w k = (case remove_file (en_disk env) finalPublicationEvidence w k of (w, k, _) \<Rightarrow> (w, k))"

definition discarded :: "'w engine_env \<Rightarrow> fragment_error \<Rightarrow> 'w \<Rightarrow> workspace \<Rightarrow> 'w \<times> workspace \<times> byte list option \<times> (fragment_error + 'r)" where
  "discarded env e w k = (case discard env w k of (w, k) \<Rightarrow> (w, k, None, Inl e))"

text \<open>
  The two ways to publish: what is at the destination afterwards, if it was replaced, and the outcome. \<open>atomicfile.Replace\<close> renames the file over the destination;
  \<open>publishNoClobber\<close> links the file, which fails if the destination exists, and removes the old name.
\<close>

definition replaceAtomic :: "'w engine_env \<Rightarrow> byte list \<Rightarrow> 'w \<Rightarrow> workspace \<Rightarrow> 'w \<times> workspace \<times> byte list option \<times> write_outcome" where
  "replaceAtomic env content w k =
     (case en_replace env w of
        (w, outcome) \<Rightarrow>
          if outcome = Settled \<or> outcome = Committed \<or> outcome = Indeterminate True
          then (w, (drop_file finalPublicationEvidence k)\<lparr>wk_destination := True\<rparr>, Some content, outcome)
          else (w, k, None, outcome))"

definition publishNoClobber :: "'w engine_env \<Rightarrow> byte list \<Rightarrow> 'w \<Rightarrow> workspace \<Rightarrow> 'w \<times> workspace \<times> byte list option \<times> write_outcome" where
  "publishNoClobber env content w k =
     (case dk_call (en_disk env) w of
        (w, True) \<Rightarrow> (w, k, None, NotWritten)
      | (w, False) \<Rightarrow>
          (case dk_call (en_disk env) w of
             (w, failed) \<Rightarrow>
               if failed \<or> wk_destination k then (w, k, None, NotWritten)
               else let k = k\<lparr>wk_destination := True\<rparr>
               in (case dk_call (en_disk env) w of
                     (w, True) \<Rightarrow> (w, k, Some content, Committed)
                   | (w, False) \<Rightarrow>
                       (case remove_file (en_disk env) finalPublicationEvidence w k of
                          (w, k, True) \<Rightarrow> (w, k, Some content, Committed)
                        | (w, k, False) \<Rightarrow>
                            (case dk_call (en_disk env) w of
                               (w, failed) \<Rightarrow> (w, k, Some content, if failed then Committed else Settled))))))"

definition publish ::
    "'w engine_env \<Rightarrow> bool \<Rightarrow> bool \<Rightarrow> byte list \<Rightarrow> 'w \<Rightarrow> workspace \<Rightarrow> 'w \<times> workspace \<times> byte list option \<times> (fragment_error + byte list)" where
  "publish env overwrite durable content w k =
     (case (if overwrite then replaceAtomic env content w k else publishNoClobber env content w k) of
        (w, k, published, outcome) \<Rightarrow>
          if outcome = Settled then (w, k, published, Inr content)
          else if durable then
            (case (if unsettled outcome then writeReconciliationMarker (en_disk env) w k else (w, k)) of
               (w, k) \<Rightarrow> (w, k, published, Inl FragReconciliation))
          else (case discard env w k of (w, k) \<Rightarrow> (w, k, published, Inl FragIO)))"

definition mark_publication ::
    "'w engine_env \<Rightarrow> bool \<Rightarrow> byte list \<Rightarrow> 'w \<Rightarrow> workspace \<Rightarrow> 'w \<times> workspace \<times> byte list option \<times> (fragment_error + byte list)" where
  "mark_publication env overwrite content w k =
     (case digestFile (en_disk env) finalPublicationEvidence w k of
        (w, None) \<Rightarrow> discarded env FragIO w k
      | (w, Some (bytes, digest)) \<Rightarrow>
          if bytes \<noteq> int (length content) then discarded env FragShortOutput w k
          else (case atomic_write (en_disk env) publicationMarker (en_encode env (bytes, digest)) w k of
                  (w, k, Settled) \<Rightarrow> publish env overwrite True content w k
                | (w, k, outcome) \<Rightarrow>
                    if unsettled outcome then
                      (case writeReconciliationMarker (en_disk env) w k of (w, k) \<Rightarrow> (w, k, None, Inl FragReconciliation))
                    else discarded env FragIO w k))"

definition secure_output ::
    "'w engine_env \<Rightarrow> bool \<Rightarrow> bool \<Rightarrow> byte list \<Rightarrow> 'w \<Rightarrow> workspace \<Rightarrow> 'w \<times> workspace \<times> byte list option \<times> (fragment_error + byte list)" where
  "secure_output env overwrite durable content w k =
     (case (if durable then dk_call (en_disk env) w else (w, False)) of
        (w, True) \<Rightarrow> (w, k, None, Inl FragReconciliation)
      | (w, False) \<Rightarrow>
          (case en_cancelled env w of
             (w, True) \<Rightarrow> discarded env FragCancelled w k
           | (w, False) \<Rightarrow> if durable then mark_publication env overwrite content w k else publish env overwrite False content w k))"

definition fill_output ::
    "'w engine_env \<Rightarrow> nat \<Rightarrow> bool \<Rightarrow> bool \<Rightarrow> 'w \<Rightarrow> workspace \<Rightarrow> 'w \<times> workspace \<times> byte list option \<times> (fragment_error + byte list)" where
  "fill_output env n overwrite durable w k =
     (case dk_call (en_disk env) w of
        (w, True) \<Rightarrow> (w, k, None, Inl FragIO)
      | (w, False) \<Rightarrow>
          let k = put_file finalPublicationEvidence [] k
          in (case (if durable then dk_call (en_disk env) w else (w, False)) of
                (w, True) \<Rightarrow> discarded env FragReconciliation w k
              | (w, False) \<Rightarrow>
                  (case copy_fragments env [0..<n] [] w k of
                     (w, k, Inl e) \<Rightarrow> discarded env e w k
                   | (w, k, Inr content) \<Rightarrow>
                       (case dk_call (en_disk env) w of
                          (w, True) \<Rightarrow> discarded env FragIO w k
                        | (w, False) \<Rightarrow> secure_output env overwrite durable content w k))))"

definition assemble ::
    "'w engine_env \<Rightarrow> nat \<Rightarrow> bool \<Rightarrow> bool \<Rightarrow> 'w \<Rightarrow> workspace \<Rightarrow> 'w \<times> workspace \<times> byte list option \<times> (fragment_error + byte list)" where
  "assemble env n overwrite durable w k =
     (case dk_call (en_disk env) w of
        (w, True) \<Rightarrow> (w, k, None, Inl FragIO)
      | (w, False) \<Rightarrow>
          (case map_of (wk_entries k) finalPublicationEvidence of
             None \<Rightarrow> fill_output env n overwrite durable w k
           | Some entry \<Rightarrow>
               if durable then (w, k, None, Inl FragReconciliation)
               else (case entry of
                       Irregular _ \<Rightarrow> (w, k, None, Inl FragUnsafeDestination)
                     | Regular _ \<Rightarrow>
                         (case remove_file (en_disk env) finalPublicationEvidence w k of
                            (w, k, True) \<Rightarrow> (w, k, None, Inl FragIO)
                          | (w, k, False) \<Rightarrow> fill_output env n overwrite durable w k))))"

section \<open>Cleanup\<close>

fun cleanup_names :: "'w engine_env \<Rightarrow> 'w \<Rightarrow> (string \<times> dir_entry) list \<Rightarrow> 'w \<times> (fragment_error + string list)" where
  "cleanup_names env w [] = (w, Inr [])"
| "cleanup_names env w ((name, entry) # rest) =
     (if name = publicationMarker then cleanup_names env w rest
      else if name \<noteq> ledger_name \<and> fragmentIndexFromName name = None then (w, Inl FragReconciliation)
      else (case entry_info (en_disk env) entry w of
              (w, Some e) \<Rightarrow> (w, Inl e)
            | (w, None) \<Rightarrow> (case cleanup_names env w rest of (w, Inl e) \<Rightarrow> (w, Inl e) | (w, Inr names) \<Rightarrow> (w, Inr (name # names)))))"

text \<open>After the marker is gone the directory is synced and removed if that is possible.\<close>

definition remove_marker :: "'w engine_env \<Rightarrow> 'w \<Rightarrow> workspace \<Rightarrow> 'w \<times> workspace \<times> fragment_error option" where
  "remove_marker env w k =
     (case remove_file (en_disk env) publicationMarker w k of
        (w, k, True) \<Rightarrow> (w, k, Some FragIO)
      | (w, k, False) \<Rightarrow>
          (case dk_call (en_disk env) w of
             (w, _) \<Rightarrow>
               (case dk_call (en_disk env) w of
                  (w, failed) \<Rightarrow> (w, if failed \<or> wk_entries k \<noteq> [] then k else k\<lparr>wk_kind := DirMissing\<rparr>, None))))"

definition cleanupCommittedCheckpoint :: "'w engine_env \<Rightarrow> 'w \<Rightarrow> workspace \<Rightarrow> 'w \<times> workspace \<times> fragment_error option" where
  "cleanupCommittedCheckpoint env w k =
     (case dk_call (en_disk env) w of
        (w, True) \<Rightarrow> (w, k, Some FragIO)
      | (w, False) \<Rightarrow>
          (case map_of (wk_entries k) publicationMarker of
             None \<Rightarrow> (w, k, Some FragIO)
           | Some (Irregular _) \<Rightarrow> (w, k, Some FragInvalidCheckpoint)
           | Some (Regular _) \<Rightarrow>
               (case dk_call (en_disk env) w of
                  (w, True) \<Rightarrow> (w, k, Some FragIO)
                | (w, False) \<Rightarrow>
                    (case cleanup_names env w (wk_entries k) of
                       (w, Inl e) \<Rightarrow> (w, k, Some e)
                     | (w, Inr names) \<Rightarrow>
                         (case remove_files (en_disk env) (sort names) w k of
                            (w, k, True) \<Rightarrow> (w, k, Some FragIO)
                          | (w, k, False) \<Rightarrow>
                              (case dk_call (en_disk env) w of
                                 (w, True) \<Rightarrow> (w, k, Some FragIO)
                               | (w, False) \<Rightarrow> remove_marker env w k))))))"

section \<open>Downloads\<close>

definition fetched_count :: "'w engine_state \<Rightarrow> nat \<Rightarrow> bool \<Rightarrow> int" where
  "fetched_count s n reused = int (length (filter (\<lambda>i. es_workers s i = Finished None reused) [0..<n]))"

definition finish_cleanup ::
    "'w engine_env \<Rightarrow> fragment_job \<Rightarrow> 'w \<Rightarrow> workspace \<Rightarrow> fragment_result \<Rightarrow> 'w \<times> workspace \<times> (fragment_error + fragment_result)" where
  "finish_cleanup env job w k result =
     (if fj_Checkpoint job \<noteq> None then
        (case cleanupCommittedCheckpoint env w k of
           (w, k, Some _) \<Rightarrow> (w, k, Inl FragCleanup)
         | (w, k, None) \<Rightarrow> (w, k, Inr result))
      else (case dk_call (en_disk env) w of
              (w, True) \<Rightarrow> (w, k, Inl FragIO)
            | (w, False) \<Rightarrow> (w, k\<lparr>wk_kind := DirMissing, wk_entries := []\<rparr>, Inr result)))"

text \<open>After the workers: no result if the schedule has left work that nothing stopped.\<close>

definition finish_workers ::
    "'w engine_env \<Rightarrow> fragment_job \<Rightarrow> 'w engine_state \<Rightarrow> ('w \<times> workspace \<times> byte list option \<times> (fragment_error + fragment_result)) option" where
  "finish_workers env job s =
     (let n = length (fj_Segments job)
      in if active_workers s > 0 then None
         else (case deterministicOutcomeError (outcome_errors (es_workers s) n) of
                 Some e \<Rightarrow> Some (es_world s, es_disk s, None, Inl e)
               | None \<Rightarrow>
                   (case en_cancelled env (es_world s) of
                      (w, True) \<Rightarrow> Some (w, es_disk s, None, Inl FragCancelled)
                    | (w, False) \<Rightarrow>
                        if es_next s < n then None
                        else (case assemble env n (fj_Overwrite job) (fj_Checkpoint job \<noteq> None) w (es_disk s) of
                                (w, k, published, Inl e) \<Rightarrow> Some (w, k, published, Inl e)
                              | (w, k, published, Inr content) \<Rightarrow>
                                  (case finish_cleanup env job w k
                                      \<lparr>fr_Path = fj_Destination job, fr_Bytes = int (length content), fr_Downloaded = fetched_count s n False,
                                       fr_Reused = fetched_count s n True\<rparr> of
                                     (w, k, r) \<Rightarrow> Some (w, k, published, r))))))"

definition engine_Download ::
    "'w engine_env \<Rightarrow> path_env \<Rightarrow> ((int \<times> artifact) list \<Rightarrow> (int \<times> artifact) list) \<Rightarrow> string \<Rightarrow> fragment_job \<Rightarrow> ResumeBoundary option \<Rightarrow> nat option list \<Rightarrow>
      'w \<Rightarrow> workspace \<Rightarrow> ('w \<times> workspace \<times> byte list option \<times> (fragment_error + fragment_result)) option" where
  "engine_Download env paths order legacyHash job authority schedule w k =
     (case check_job paths job of
        Inl e \<Rightarrow> Some (w, k, None, Inl e)
      | Inr settings \<Rightarrow>
          (case prepare_ledger (en_disk env) order legacyHash job authority w k of
             (w, k, Inl e) \<Rightarrow> Some (w, k, None, Inl e)
           | (w, k, Inr m) \<Rightarrow> finish_workers env job (engine_run env job settings schedule (engine_start w k m))))"

section \<open>Names of fragments\<close>

lemma digits_length: "n < 10 ^ m \<Longrightarrow> 0 < m \<Longrightarrow> length (digits n) \<le> m"
proof (induction n arbitrary: m rule: digits.induct)
  case (1 n)
  show ?case
  proof (cases "n < 10")
    case True
    with 1 show ?thesis by (subst digits.simps) simp
  next
    case False
    with 1(2,3) obtain j where m: "m = Suc j" "0 < j" by (cases m; cases "m - 1") auto
    with 1(2) have "n div 10 < 10 ^ j" by (simp add: less_mult_imp_div_less mult.commute)
    from 1(1) [OF False this m(2)] m False show ?thesis by (subst digits.simps) simp
  qed
qed

lemma fragment_index_of_name:
  assumes "i < 100000000"
  shows "fragmentIndexFromName (fragment_name (int i)) = Some (int i)"
proof -
  let ?number = "replicate (8 - length (digits i)) (CHR ''0'') @ digits i"
  have len: "length ?number = 8" using digits_length [of i 8] assms by simp
  have name: "fragment_name (int i) = ?number @ ''.frag''" by (simp add: fragment_name_def Let_def Itoa_def)
  have isd: "isDigits ?number" using digits_isDigits [of i] by (auto simp: isDigits_def list_all_iff)
  then have "\<not> HasPrefix ?number ''-''" "\<not> HasPrefix ?number ''+''"
    by (cases ?number; auto simp: HasPrefix_def isDigits_def)+
  then have parsed: "ParseInt ?number = Some (int i)"
    using isd assms by (simp add: ParseInt_def decimal_zeros decimal_digits MaxInt64_def del: append_eq_conv_conj)
  have "HasSuffix (?number @ ''.frag'') ''.frag''" by (simp add: HasSuffix_def)
  with len parsed show ?thesis unfolding name by (simp add: fragmentIndexFromName_def)
qed

lemma fragment_index_of_ledger: "fragmentIndexFromName ledger_name = None"
  by code_simp

section \<open>Files of other fragments\<close>

lemma fragment_name_inject: "i < 100000000 \<Longrightarrow> j < 100000000 \<Longrightarrow> fragment_name (int i) = fragment_name (int j) \<Longrightarrow> i = j"
  by (metis fragment_index_of_name of_nat_eq_iff option.inject)

lemma fragment_name_special:
  "fragment_name i \<noteq> ledger_name" "fragment_name i \<noteq> reconciliationMarker" "fragment_name i \<noteq> finalPublicationEvidence" "fragment_name i \<noteq> publicationMarker"
proof -
  have "last (fragment_name i) = CHR ''g''" by (simp add: fragment_name_def Let_def)
  then have other: "fragment_name i \<noteq> s" if "last s \<noteq> CHR ''g''" for s using that by metis
  show "fragment_name i \<noteq> ledger_name" by (rule other) (simp add: ledger_name_def)
  show "fragment_name i \<noteq> reconciliationMarker" by (rule other) (simp add: reconciliationMarker_def)
  show "fragment_name i \<noteq> finalPublicationEvidence" by (rule other) (simp add: finalPublicationEvidence_def)
  show "fragment_name i \<noteq> publicationMarker" by (rule other) (simp add: publicationMarker_def)
qed

definition file_at :: "workspace \<Rightarrow> nat \<Rightarrow> dir_entry option" where
  "file_at k i = map_of (wk_entries k) (fragment_name (int i))"

lemma atomic_write_files:
  assumes "atomic_write env name content w k = (w', k', outcome)"
  shows "n \<noteq> name \<Longrightarrow> map_of (wk_entries k') n = map_of (wk_entries k) n"
    and "outcome = Settled \<Longrightarrow> map_of (wk_entries k') name = Some (Regular content)"
  using assms by (auto simp: atomic_write_def map_of_put_file split: prod.splits write_outcome.splits bool.splits)

lemma marker_files: "writeReconciliationMarker env w k = (w', k') \<Longrightarrow> file_at k' = file_at k"
  by (rule ext) (auto simp: writeReconciliationMarker_def file_at_def fragment_name_special split: prod.splits dest: atomic_write_files(1) [OF _ fragment_name_special(2)])

lemma manifest_files: "writeManifestState env state w k = (w', k', outcome) \<Longrightarrow> file_at k' = file_at k"
  by (rule ext) (auto simp: writeManifestState_def file_at_def split: if_splits dest: atomic_write_files(1) [OF _ fragment_name_special(1)])

text \<open>The bytes that are kept of an answer of the transport to the request for a segment.\<close>

definition answered :: "'w engine_env \<Rightarrow> (string \<times> string list) list \<Rightarrow> i64 \<Rightarrow> fragment_segment \<Rightarrow> byte list \<Rightarrow> bool" where
  "answered env headers maxSize segment content \<longleftrightarrow>
     (\<exists>w w' status body. en_do env w (fragment_request headers segment) = (w', Some (status, body)) \<and> accept_body (en_cbc env) maxSize segment status body = Inr content)"

lemma answeredI:
  "en_do env w (fragment_request headers segment) = (w', Some (status, body)) \<Longrightarrow> accept_body (en_cbc env) maxSize segment status body = Inr content \<Longrightarrow>
     answered env headers maxSize segment content"
  unfolding answered_def by blast

lemma fetch_files:
  assumes "fetch env headers maxSize segment name w k = (w', k', r)"
  shows "n \<noteq> name \<Longrightarrow> map_of (wk_entries k') n = map_of (wk_entries k) n"
    and "r = None \<Longrightarrow> \<exists>content. answered env headers maxSize segment content \<and> map_of (wk_entries k') name = Some (Regular content)"
  using assms
  by (auto simp: fetch_def split: prod.splits bool.splits if_splits option.splits sum.splits write_outcome.splits dest: atomic_write_files answeredI)

lemma fetch_attempts_files:
  assumes "fetch_attempts env job maxSize segment i n attempt w k = (w', k', r)" and "i < 100000000"
  shows "j < 100000000 \<Longrightarrow> j \<noteq> i \<Longrightarrow> file_at k' j = file_at k j"
    and "r = None \<Longrightarrow> \<exists>content. answered env (fj_Headers job) maxSize segment content \<and> file_at k' i = Some (Regular content)"
    and "on_disk (en_disk env) k' state = on_disk (en_disk env) k state"
proof -
  have "(\<forall>j. j < 100000000 \<longrightarrow> j \<noteq> i \<longrightarrow> file_at k' j = file_at k j) \<and>
      (r = None \<longrightarrow> (\<exists>content. answered env (fj_Headers job) maxSize segment content \<and> file_at k' i = Some (Regular content))) \<and>
      (\<forall>state. on_disk (en_disk env) k' state = on_disk (en_disk env) k state)"
    using assms(1)
  proof (induction n arbitrary: attempt w k rule: less_induct)
    case (less n)
    note unfold = fetch_attempts.simps [of env job maxSize segment i n attempt w k]
    obtain w1 k1 f where fetched: "fetch env (fj_Headers job) maxSize segment (fragment_name (int i)) w k = (w1, k1, f)" by (metis prod_cases3)
    have others: "file_at k1 j = file_at k j" if "j < 100000000" "j \<noteq> i" for j
      unfolding file_at_def using that fragment_name_inject assms(2) by (intro fetch_files(1) [OF fetched]) blast
    have ledger: "on_disk (en_disk env) k1 state = on_disk (en_disk env) k state" for state
      using fetch_files(1) [OF fetched, of ledger_name] fragment_name_special(1) [THEN not_sym] by (simp add: on_disk_def)
    show ?case
    proof (cases f)
      case None
      with less.prems [unfolded unfold] fetched others ledger fetch_files(2) [OF fetched None] show ?thesis by (simp add: file_at_def)
    next
      case (Some er)
      obtain e retryable where er: "er = (e, retryable)" by (cases er)
      consider (stop) "k' = k1" "r \<noteq> None" | (mark) w2 where "writeReconciliationMarker (en_disk env) w1 k1 = (w2, k')" "r \<noteq> None"
        | (again) n' attempt' w2 where "n' < n" "fetch_attempts env job maxSize segment i n' attempt' w2 k1 = (w', k', r)"
        using less.prems [unfolded unfold] fetched Some er by (auto split: if_splits prod.splits bool.splits nat.splits) (metis lessI)+
      then show ?thesis
      proof cases
        case stop
        with others ledger show ?thesis by auto
      next
        case mark
        with others ledger marker_files [OF mark(1)] writeReconciliationMarker_keeps [OF mark(1)] show ?thesis by auto
      next
        case again
        with less.IH [OF again(1,2)] others ledger show ?thesis by simp
      qed
    qed
  qed
  then show "j < 100000000 \<Longrightarrow> j \<noteq> i \<Longrightarrow> file_at k' j = file_at k j"
    and "r = None \<Longrightarrow> \<exists>content. answered env (fj_Headers job) maxSize segment content \<and> file_at k' i = Some (Regular content)"
    and "on_disk (en_disk env) k' state = on_disk (en_disk env) k state"
    by blast+
qed

lemma notify_state: "notify env snapshot w m = (w', m', e) \<Longrightarrow> am_state m' = am_state m"
  by (auto simp: notify_def split: option.splits prod.splits bool.splits)

lemma commit_candidate_frame:
  assumes "commit_candidate env m candidate w k = (w', k', m', e)"
  shows "file_at k' = file_at k" and "am_state m' = am_state m \<or> am_state m' = candidate"
  using assms
  by (auto simp: commit_candidate_def split: sum.splits prod.splits write_outcome.splits if_splits dest!: manifest_files marker_files notify_state)

lemma RecordScaled_frame:
  assumes "RecordScaled env m index scale w k = (w', k', m', e)"
  shows "file_at k' = file_at k"
    and "j \<noteq> index \<Longrightarrow> fmlookup (ms_Artifacts (am_state m')) (int j) = fmlookup (ms_Artifacts (am_state m)) (int j)"
proof -
  let ?c = "\<lambda>bytes digest. (am_state m)\<lparr>ms_Artifacts := fmupd (int index) (recorded bytes digest scale) (ms_Artifacts (am_state m))\<rparr>"
  from assms consider (skip) "k' = k" "m' = m" | (commit) bytes digest w1 where "commit_candidate env m (?c bytes digest) w1 k = (w', k', m', e)"
    by (auto simp: RecordScaled_def Let_def split: prod.splits option.splits if_splits)
  note cases = this
  from cases show "file_at k' = file_at k" by cases (auto dest: commit_candidate_frame(1))
  from cases show "fmlookup (ms_Artifacts (am_state m')) (int j) = fmlookup (ms_Artifacts (am_state m)) (int j)" if "j \<noteq> index"
    using that by cases (auto dest!: commit_candidate_frame(2))
qed

lemma reusableScaled_reused:
  assumes "reusableScaled env m i scale w k = (w', Inr True)"
  shows "\<exists>a content. fmlookup (ms_Artifacts (am_state m)) (int i) = Some a \<and> file_at k i = Some (Regular content) \<and> int (length content) = ar_Bytes a \<and>
    hex_EncodeToString (Sum256 content) = ar_SHA256 a"
  using assms
  by (auto simp: reusableScaled_def artifactMatches_def file_at_def split: if_splits option.splits prod.splits bool.splits dir_entry.splits)

section \<open>Every worker keeps what the others rely on\<close>

text \<open>The file of a fragment: fetched with an answer that was accepted, or as the ledger had it when the download began.\<close>

definition fetched_file :: "'w engine_env \<Rightarrow> fragment_job \<Rightarrow> fragment_settings \<Rightarrow> nat \<Rightarrow> byte list \<Rightarrow> bool" where
  "fetched_file env job settings i content \<longleftrightarrow> answered env (fj_Headers job) (st_maxSize settings) (fj_Segments job ! i) content"

definition reused_file :: "artifactManifest \<Rightarrow> nat \<Rightarrow> byte list \<Rightarrow> bool" where
  "reused_file m i content \<longleftrightarrow>
     (\<exists>a. fmlookup (ms_Artifacts (am_state m)) (int i) = Some a \<and> int (length content) = ar_Bytes a \<and> hex_EncodeToString (Sum256 content) = ar_SHA256 a)"

definition worker_ok :: "'w engine_env \<Rightarrow> fragment_job \<Rightarrow> fragment_settings \<Rightarrow> artifactManifest \<Rightarrow> 'w engine_state \<Rightarrow> nat \<Rightarrow> bool" where
  "worker_ok env job settings m s i =
     (case es_workers s i of
        Idle \<Rightarrow> fmlookup (ms_Artifacts (am_state (es_manifest s))) (int i) = fmlookup (ms_Artifacts (am_state m)) (int i)
      | Taken \<Rightarrow> fmlookup (ms_Artifacts (am_state (es_manifest s))) (int i) = fmlookup (ms_Artifacts (am_state m)) (int i)
      | Written \<Rightarrow> (\<exists>content. file_at (es_disk s) i = Some (Regular content) \<and> fetched_file env job settings i content)
      | Finished e reused \<Rightarrow>
          e \<noteq> None \<or> (\<exists>content. file_at (es_disk s) i = Some (Regular content) \<and>
             (if reused then reused_file m i content else fetched_file env job settings i content))
      | _ \<Rightarrow> True)"

definition others_kept :: "nat \<Rightarrow> 'w engine_state \<Rightarrow> 'w engine_state \<Rightarrow> bool" where
  "others_kept i s s' \<longleftrightarrow>
     es_next s' = es_next s \<and>
     (\<forall>j. j \<noteq> i \<longrightarrow> es_workers s' j = es_workers s j \<and>
        fmlookup (ms_Artifacts (am_state (es_manifest s'))) (int j) = fmlookup (ms_Artifacts (am_state (es_manifest s))) (int j) \<and>
        (j < 100000000 \<longrightarrow> file_at (es_disk s') j = file_at (es_disk s) j))"

lemma worker_ok_cong:
  assumes "es_workers s' j = es_workers s j" "file_at (es_disk s') j = file_at (es_disk s) j"
    "fmlookup (ms_Artifacts (am_state (es_manifest s'))) (int j) = fmlookup (ms_Artifacts (am_state (es_manifest s))) (int j)"
  shows "worker_ok env job settings m s' j = worker_ok env job settings m s j"
  unfolding worker_ok_def assms ..

lemma worker_ok_kept: "others_kept i s s' \<Longrightarrow> j \<noteq> i \<Longrightarrow> j < 100000000 \<Longrightarrow> worker_ok env job settings m s' j = worker_ok env job settings m s j"
  by (rule worker_ok_cong) (simp_all add: others_kept_def)

lemma put_worker_kept: "others_kept i s (put_worker i x w s)"
  by (simp add: others_kept_def put_worker_def)

lemma put_worker_simps [simp]:
  "es_workers (put_worker i x w s) = (es_workers s)(i := x)" "es_disk (put_worker i x w s) = es_disk s" "es_manifest (put_worker i x w s) = es_manifest s"
  "es_next (put_worker i x w s) = es_next s" "es_world (put_worker i x w s) = w" "es_hosts (put_worker i x w s) = es_hosts s"
  by (simp_all add: put_worker_def)

lemma look_ok:
  assumes "es_workers s i = Taken" and "worker_ok env job settings m s i"
  shows "others_kept i s (look env job i s) \<and> worker_ok env job settings m (look env job i s) i"
proof -
  obtain w r where r: "reusableScaled (en_disk env) (es_manifest s) i (segment_scale (fj_Segments job) i) (es_world s) (es_disk s) = (w, r)" by (metis prod.exhaust)
  show ?thesis
  proof (cases r)
    case (Inl e)
    with r show ?thesis by (simp add: look_def put_worker_kept) (simp add: worker_ok_def)
  next
    case (Inr reused)
    show ?thesis
    proof (cases reused)
      case True
      with r Inr have "reusableScaled (en_disk env) (es_manifest s) i (segment_scale (fj_Segments job) i) (es_world s) (es_disk s) = (w, Inr True)" by simp
      from reusableScaled_reused [OF this] assms r Inr True show ?thesis
        by (auto simp: look_def put_worker_kept worker_ok_def reused_file_def)
    next
      case False
      with r Inr show ?thesis by (simp add: look_def put_worker_kept) (simp add: worker_ok_def)
    qed
  qed
qed

lemma start_ok: "others_kept i s (start env job i s) \<and> worker_ok env job settings m (start env job i s) i"
  by (simp add: start_def put_worker_kept split: prod.split bool.split option.split) (simp add: worker_ok_def)

lemma acquire_ok:
  assumes "es_workers s i = Queued host"
  shows "others_kept i s (acquire env job i host s) \<and> worker_ok env job settings m (acquire env job i host s) i"
  using assms by (auto simp: acquire_def others_kept_def worker_ok_def split: prod.splits bool.splits)

lemma run_fetch_ok:
  assumes "i < 100000000"
  shows "others_kept i s (run_fetch env job settings i host s) \<and> worker_ok env job settings m (run_fetch env job settings i host s) i"
proof -
  obtain w k e where r: "fetchWithRetry env job settings i (es_world s) (es_disk s) = (w, k, e)" by (metis prod_cases3)
  note files = fetch_attempts_files [OF r [unfolded fetchWithRetry_def] assms]
  have "others_kept i s (run_fetch env job settings i host s)"
    using r files(1) by (simp add: run_fetch_def release_def others_kept_def)
  moreover have "worker_ok env job settings m (run_fetch env job settings i host s) i"
    using r files(2) by (auto simp: run_fetch_def release_def worker_ok_def fetched_file_def split: option.splits)
  ultimately show ?thesis ..
qed

lemma record_fragment_ok:
  assumes "es_workers s i = Written" and "worker_ok env job settings m s i"
  shows "others_kept i s (record_fragment env job i s) \<and> worker_ok env job settings m (record_fragment env job i s) i"
proof -
  obtain w k m' e where r: "RecordScaled (en_disk env) (es_manifest s) i (segment_scale (fj_Segments job) i) (es_world s) (es_disk s) = (w, k, m', e)"
    by (metis prod_cases4)
  note frame = RecordScaled_frame [OF r]
  show ?thesis
    using assms r frame by (auto simp: record_fragment_def others_kept_def worker_ok_def split: option.splits prod.splits)
qed

text \<open>The invariant of a download: indices are handed over in order, and every worker is in order.\<close>

definition engine_ok :: "'w engine_env \<Rightarrow> fragment_job \<Rightarrow> fragment_settings \<Rightarrow> artifactManifest \<Rightarrow> 'w engine_state \<Rightarrow> bool" where
  "engine_ok env job settings m s \<longleftrightarrow>
     es_next s \<le> length (fj_Segments job) \<and> (\<forall>i. es_workers s i = Idle \<longleftrightarrow> es_next s \<le> i) \<and> (\<forall>i < 100000000. worker_ok env job settings m s i)"

lemma advance_worker:
  assumes "engine_ok env job settings m s" and "i < 100000000"
  shows "others_kept i s (advance env job settings i s) \<and> worker_ok env job settings m (advance env job settings i s) i \<and>
    (es_workers (advance env job settings i s) i = Idle \<longleftrightarrow> es_workers s i = Idle)"
proof -
  from assms have ok: "worker_ok env job settings m s i" by (simp add: engine_ok_def)
  have alive: "es_workers s i \<noteq> Idle \<Longrightarrow> es_workers (advance env job settings i s) i \<noteq> Idle"
    by (auto simp: advance_def look_def start_def acquire_def run_fetch_def release_def record_fragment_def split: worker.splits prod.splits sum.splits bool.splits option.splits)
  have same: "others_kept i s s" by (simp add: others_kept_def)
  show ?thesis
    using ok alive same look_ok [of s i env job settings m] start_ok [of i s env job settings m] acquire_ok [of s i _ env job settings m]
      run_fetch_ok [OF assms(2), of s env job settings _ m] record_fragment_ok [of s i env job settings m]
    by (cases "es_workers s i") (simp_all add: advance_def)
qed

lemma engine_step_ok:
  assumes ok: "engine_ok env job settings m s" and size: "length (fj_Segments job) \<le> 100000000"
  shows "engine_ok env job settings m (engine_step env job settings event s)"
proof (cases event)
  case None
  let ?s = "s\<lparr>es_workers := (es_workers s)(es_next s := Taken), es_next := es_next s + 1\<rparr>"
  have "es_workers s (es_next s) = Idle" using ok by (simp add: engine_ok_def)
  then have "worker_ok env job settings m ?s i \<longleftrightarrow> worker_ok env job settings m s i" for i
    by (cases "i = es_next s") (simp add: worker_ok_def, rule worker_ok_cong, simp_all)
  moreover have "es_workers ?s i = Idle \<longleftrightarrow> es_next ?s \<le> i" for i using ok by (auto simp: engine_ok_def)
  ultimately have "engine_ok env job settings m ?s" if "es_next s < length (fj_Segments job)" using that ok by (simp add: engine_ok_def)
  with ok None show ?thesis by (simp add: engine_step_def dispatch_def)
next
  case (Some i)
  show ?thesis
  proof (cases "es_workers s i = Idle")
    case True
    with ok Some show ?thesis by (simp add: engine_step_def advance_def)
  next
    case False
    with ok size have i: "i < 100000000" by (auto simp: engine_ok_def not_le)
    from advance_worker [OF ok i] worker_ok_kept [of i s _ _ env job settings m] ok False Some show ?thesis
      by (auto simp: engine_step_def engine_ok_def others_kept_def) metis+
  qed
qed

lemma engine_run_ok:
  assumes "engine_ok env job settings m s" and "length (fj_Segments job) \<le> 100000000"
  shows "engine_ok env job settings m (engine_run env job settings schedule s)"
  using assms(1) unfolding engine_run_def by (induction schedule arbitrary: s) (simp_all add: engine_step_ok [OF _ assms(2)])

lemma engine_start_ok: "engine_ok env job settings m (engine_start w k m)"
  by (simp add: engine_ok_def engine_start_def worker_ok_def)

section \<open>The callback of a download\<close>

lemma scale_gate:
  assumes "\<not> equivalenceRestartRequired m segments" and "am_durable m" and "fmlookup (ms_Artifacts (am_state m)) (int i) = Some a"
  shows "\<not> (case segment_scale segments i of None \<Rightarrow> False | Some s \<Rightarrow> sc_Kind s \<noteq> [] \<and>
    (ar_ProofKind a \<noteq> sc_Kind s \<or> ar_ProofValue a \<noteq> sc_Value s \<or> ar_ProofScope a \<noteq> sc_Scope s))"
proof (cases "list_ex (\<lambda>s. fs_Scale s \<noteq> None) segments")
  case True
  from no_restart [OF assms(1,2) True assms(3)] show ?thesis by (simp add: artifact_scale_def)
next
  case False
  then have "segment_scale segments i = None" by (auto simp: segment_scale_def list_ex_iff)
  then show ?thesis by simp
qed

lemma fetched_only_if_missing:
  assumes "reusableScaled env m' i (segment_scale segments i) w k = (w', Inr False)" and "am_durable m'"
    and "\<not> equivalenceRestartRequired m segments" and "am_durable m"
    and "fmlookup (ms_Artifacts (am_state m')) (int i) = fmlookup (ms_Artifacts (am_state m)) (int i)"
  shows "fmlookup (ms_Artifacts (am_state m')) (int i) = None"
proof (rule ccontr)
  assume "fmlookup (ms_Artifacts (am_state m')) (int i) \<noteq> None"
  then obtain a where a: "fmlookup (ms_Artifacts (am_state m')) (int i) = Some a" by blast
  from scale_gate [OF assms(3,4), of i a] a assms(1,2,5) show False
    by (auto simp: reusableScaled_def split: if_splits prod.splits bool.splits)
qed

definition pending :: "worker \<Rightarrow> bool" where
  "pending x = (case x of Missing \<Rightarrow> True | Queued _ \<Rightarrow> True | Fetching _ \<Rightarrow> True | Written \<Rightarrow> True | _ \<Rightarrow> False)"

text \<open>Fragments that are being fetched are not in the ledger.\<close>

definition pending_missing :: "'w engine_state \<Rightarrow> bool" where
  "pending_missing s \<longleftrightarrow> (\<forall>i. pending (es_workers s i) \<longrightarrow> fmlookup (ms_Artifacts (am_state (es_manifest s))) (int i) = None)"

lemma pending_missing_kept:
  assumes "pending_missing s" and "others_kept i s s'"
    and "pending (es_workers s' i) \<Longrightarrow> fmlookup (ms_Artifacts (am_state (es_manifest s'))) (int i) = None"
  shows "pending_missing s'"
  unfolding pending_missing_def
proof (intro allI impI)
  fix j
  assume "pending (es_workers s' j)"
  with assms show "fmlookup (ms_Artifacts (am_state (es_manifest s'))) (int j) = None"
    by (cases "j = i") (auto simp: pending_missing_def others_kept_def)
qed

text \<open>A world that remembers what the callback was told, for all that a download does.\<close>

locale engine_log = commit_log "en_disk env" log for env :: "'w engine_env" and log :: "'w \<Rightarrow> ResumeBoundary list" +
  assumes do_log: "en_do env w request = (w', response) \<Longrightarrow> log w' = log w"
    and emit_log: "en_emit env w event = (w', failed) \<Longrightarrow> log w' = log w"
    and cancelled_log: "en_cancelled env w = (w', cancelled) \<Longrightarrow> log w' = log w"
    and wait_log: "en_wait env w delay = (w', cancelled) \<Longrightarrow> log w' = log w"
    and symlink_log: "en_symlink env w name = (w', link) \<Longrightarrow> log w' = log w"
begin

lemma request_log: "fetch env headers maxSize segment name w k = (w', k', r) \<Longrightarrow> log w' = log w"
  by (auto simp: fetch_def split: prod.splits bool.splits if_splits option.splits sum.splits write_outcome.splits
      dest!: symlink_log do_log atomic_write_log)

lemma fetch_attempts_log: "fetch_attempts env job maxSize segment i n attempt w k = (w', k', r) \<Longrightarrow> log w' = log w"
proof (induction n arbitrary: attempt w k rule: less_induct)
  case (less n)
  note unfold = fetch_attempts.simps [of env job maxSize segment i n attempt w k]
  obtain w1 k1 f where fetched: "fetch env (fj_Headers job) maxSize segment (fragment_name (int i)) w k = (w1, k1, f)" by (metis prod_cases3)
  consider "log w' = log w1" | n' attempt' w2 where "n' < n" "fetch_attempts env job maxSize segment i n' attempt' w2 k1 = (w', k', r)" "log w2 = log w1"
    using less.prems [unfolded unfold] fetched
    by (auto split: if_splits prod.splits bool.splits nat.splits option.splits dest!: cancelled_log emit_log wait_log writeReconciliationMarker_log) (metis lessI)+
  then show ?case using less.IH request_log [OF fetched] by cases auto
qed

text \<open>What a step of a worker keeps when the download is a checkpointed one.\<close>

definition engine_inv :: "nat \<Rightarrow> 'w engine_state \<Rightarrow> bool" where
  "engine_inv caller s \<longleftrightarrow> ledger_inv (en_disk env) caller (log (es_world s)) (es_disk s) (es_manifest s) \<and> pending_missing s"

lemma look_inv:
  assumes inv: "engine_inv caller s" "es_workers s i = Taken"
    and begin_: "\<not> equivalenceRestartRequired m (fj_Segments job)" "am_durable m"
    and same: "fmlookup (ms_Artifacts (am_state (es_manifest s))) (int i) = fmlookup (ms_Artifacts (am_state m)) (int i)"
  shows "engine_inv caller (look env job i s)"
proof -
  obtain w r where r: "reusableScaled (en_disk env) (es_manifest s) i (segment_scale (fj_Segments job) i) (es_world s) (es_disk s) = (w, r)" by (metis prod.exhaust)
  from inv have durable: "am_durable (es_manifest s)" by (simp add: engine_inv_def ledger_inv_def)
  have state: "\<exists>x. look env job i s = put_worker i x w s \<and> (x = Missing \<and> r = Inr False \<or> \<not> pending x)"
    using r by (auto simp: look_def pending_def split: sum.splits bool.splits)
  then obtain x where x: "look env job i s = put_worker i x w s" "x = Missing \<and> r = Inr False \<or> \<not> pending x" by blast
  have "pending_missing (put_worker i x w s)"
  proof (rule pending_missing_kept [OF _ put_worker_kept])
    show "pending_missing s" using inv by (simp add: engine_inv_def)
    show "fmlookup (ms_Artifacts (am_state (es_manifest (put_worker i x w s)))) (int i) = None" if "pending (es_workers (put_worker i x w s) i)"
      using that x(2) fetched_only_if_missing [OF _ durable begin_ same] r by auto
  qed
  with inv reusableScaled_log [OF r] x(1) show ?thesis by (simp add: engine_inv_def)
qed

lemma plain_inv:
  assumes "engine_inv caller s" and "pending (es_workers s i)" and "log w = log (es_world s)"
  shows "engine_inv caller (put_worker i x w s)"
  using assms pending_missing_kept [OF _ put_worker_kept, of s i x w] by (simp add: engine_inv_def pending_missing_def)

lemma hosts_inv: "engine_inv caller (s\<lparr>es_hosts := h\<rparr>) = engine_inv caller s"
  by (simp add: engine_inv_def pending_missing_def)

lemma start_inv: "engine_inv caller s \<Longrightarrow> es_workers s i = Missing \<Longrightarrow> engine_inv caller (start env job i s)"
  by (auto simp: start_def pending_def intro!: plain_inv split: prod.splits bool.splits option.splits dest: emit_log)

lemma acquire_inv:
  assumes "engine_inv caller s" and "es_workers s i = Queued host"
  shows "engine_inv caller (acquire env job i host s)"
proof -
  have p: "pending (es_workers s i)" using assms(2) by (simp add: pending_def)
  obtain w c where c: "en_cancelled env (es_world s) = (w, c)" by (metis prod.exhaust)
  note plain = plain_inv [OF assms(1) p]
  have "engine_inv caller (s\<lparr>es_world := w\<rparr>)" using assms(1) cancelled_log [OF c] by (simp add: engine_inv_def pending_missing_def)
  then show ?thesis using c plain cancelled_log [OF c] by (auto simp: acquire_def hosts_inv split: bool.splits)
qed

lemma run_fetch_inv:
  assumes "engine_inv caller s" and "es_workers s i = Fetching host" and "i < 100000000"
  shows "engine_inv caller (run_fetch env job settings i host s)"
proof -
  obtain w k e where r: "fetchWithRetry env job settings i (es_world s) (es_disk s) = (w, k, e)" by (metis prod_cases3)
  note attempts = r [unfolded fetchWithRetry_def]
  have kept: "on_disk (en_disk env) k state = on_disk (en_disk env) (es_disk s) state" for state by (rule fetch_attempts_files(3) [OF attempts assms(3)])
  have "ledger_inv (en_disk env) caller (log (es_world s)) (es_disk s) (es_manifest s)" using assms(1) by (simp add: engine_inv_def)
  from ledger_inv_disk [OF this kept] have "ledger_inv (en_disk env) caller (log (es_world s)) k (es_manifest s)" .
  then have "engine_inv caller (s\<lparr>es_disk := k\<rparr>)" using assms(1) by (simp add: engine_inv_def pending_missing_def)
  from plain_inv [OF this, of i w] assms(2) fetch_attempts_log [OF attempts]
  show ?thesis using r by (simp add: run_fetch_def release_def hosts_inv pending_def)
qed

lemma record_inv:
  assumes inv: "engine_inv caller s" "es_workers s i = Written" and codec: "ledger_codec (en_disk env)"
    and plan: "validateFiniteFragmentPlan (fj_Segments job) = None"
  shows "engine_inv caller (record_fragment env job i s)"
proof -
  obtain w k m e where r: "RecordScaled (en_disk env) (es_manifest s) i (segment_scale (fj_Segments job) i) (es_world s) (es_disk s) = (w, k, m, e)"
    by (metis prod_cases4)
  from inv have missing: "fmlookup (ms_Artifacts (am_state (es_manifest s))) (int i) = None" by (simp add: engine_inv_def pending_missing_def pending_def)
  have "ledger_inv (en_disk env) caller (log (es_world s)) (es_disk s) (es_manifest s)" using inv by (simp add: engine_inv_def)
  from RecordScaled_inv [OF this codec missing segment_scale_valid [OF plan] r]
  have ledger: "ledger_inv (en_disk env) caller (log w) k m" by simp
  obtain x w' where x: "record_fragment env job i s = put_worker i x w' (s\<lparr>es_disk := k, es_manifest := m\<rparr>)" "log w' = log w" "\<not> pending x"
  proof (cases e)
    case None
    obtain w' failed where "en_emit env w (Completed i) = (w', failed)" by (metis prod.exhaust)
    with r None that emit_log show thesis by (auto simp: record_fragment_def pending_def)
  next
    case (Some err)
    with r that show thesis by (auto simp: record_fragment_def pending_def)
  qed
  have "others_kept i s (put_worker i x w' (s\<lparr>es_disk := k, es_manifest := m\<rparr>))"
    using RecordScaled_frame [OF r] by (simp add: others_kept_def)
  from pending_missing_kept [OF _ this] inv(1) x(3) have "pending_missing (put_worker i x w' (s\<lparr>es_disk := k, es_manifest := m\<rparr>))"
    by (simp add: engine_inv_def)
  with ledger x show ?thesis by (simp add: engine_inv_def)
qed

lemma engine_run_inv:
  assumes codec: "ledger_codec (en_disk env)" and plan: "validateFiniteFragmentPlan (fj_Segments job) = None"
    and begin_: "\<not> equivalenceRestartRequired m (fj_Segments job)" "am_durable m"
  shows "engine_inv caller s \<Longrightarrow> engine_ok env job settings m s \<Longrightarrow> engine_inv caller (engine_run env job settings schedule s)"
proof (induction schedule arbitrary: s)
  case Nil
  then show ?case by (simp add: engine_run_def)
next
  case (Cons event schedule)
  from plan have size: "length (fj_Segments job) \<le> 100000000"
    by (auto simp: validateFiniteFragmentPlan_def maxFragmentSegments_def split: if_splits)
  have "engine_inv caller (engine_step env job settings event s)"
  proof (cases event)
    case None
    with Cons.prems show ?thesis by (auto simp: engine_step_def dispatch_def engine_inv_def pending_missing_def pending_def)
  next
    case (Some i)
    show ?thesis
    proof (cases "es_workers s i = Idle")
      case True
      with Cons.prems Some show ?thesis by (simp add: engine_step_def advance_def)
    next
      case False
      with Cons.prems size have i: "i < 100000000" by (auto simp: engine_ok_def not_le)
      with Cons.prems have "worker_ok env job settings m s i" by (simp add: engine_ok_def)
      then have "es_workers s i = Taken \<Longrightarrow> fmlookup (ms_Artifacts (am_state (es_manifest s))) (int i) = fmlookup (ms_Artifacts (am_state m)) (int i)"
        by (simp add: worker_ok_def)
      then have "engine_inv caller (advance env job settings i s)"
        using Cons.prems(1) look_inv [OF _ _ begin_] start_inv acquire_inv run_fetch_inv [OF _ _ i] record_inv [OF _ _ codec plan]
        by (cases "es_workers s i") (simp_all add: advance_def)
      with Some show ?thesis by (simp add: engine_step_def)
    qed
  qed
  with Cons.IH engine_step_ok [OF Cons.prems(2) size] show ?case by (simp add: engine_run_def)
qed

end

text \<open>The same world with a log.\<close>

definition logged_disk :: "'w disk_env \<Rightarrow> ('w \<times> ResumeBoundary list) disk_env" where
  "logged_disk env =
     \<lparr>dk_call = (\<lambda>(w, log). case dk_call env w of (w, failed) \<Rightarrow> ((w, log), failed)),
      dk_write = (\<lambda>(w, log). case dk_write env w of (w, outcome) \<Rightarrow> ((w, log), outcome)),
      dk_protect = (\<lambda>(w, log). case dk_protect env w of (w, e) \<Rightarrow> ((w, log), e)),
      dk_encode = dk_encode env, dk_decode = dk_decode env,
      dk_commit = Some (\<lambda>(w, log) s. case dk_commit env of None \<Rightarrow> ((w, log @ [s]), False)
        | Some callback \<Rightarrow> (case callback w s of (w, failed) \<Rightarrow> ((w, log @ [s]), failed)))\<rparr>"

definition logged_engine :: "'w engine_env \<Rightarrow> ('w \<times> ResumeBoundary list) engine_env" where
  "logged_engine env =
     \<lparr>en_disk = logged_disk (en_disk env),
      en_do = (\<lambda>(w, log) request. case en_do env w request of (w, response) \<Rightarrow> ((w, log), response)),
      en_emit = (\<lambda>(w, log) event. case en_emit env w event of (w, failed) \<Rightarrow> ((w, log), failed)),
      en_cancelled = (\<lambda>(w, log). case en_cancelled env w of (w, cancelled) \<Rightarrow> ((w, log), cancelled)),
      en_wait = (\<lambda>(w, log) delay. case en_wait env w delay of (w, cancelled) \<Rightarrow> ((w, log), cancelled)),
      en_symlink = (\<lambda>(w, log) name. case en_symlink env w name of (w, link) \<Rightarrow> ((w, log), link)),
      en_replace = (\<lambda>(w, log). case en_replace env w of (w, outcome) \<Rightarrow> ((w, log), outcome)),
      en_encode = en_encode env,
      en_cbc = en_cbc env\<rparr>"

lemma logged_simps [simp]:
  "dk_encode (logged_disk d) = dk_encode d" "dk_decode (logged_disk d) = dk_decode d" "ledger_codec (logged_disk d) = ledger_codec d"
  "on_disk (logged_disk d) k s = on_disk d k s" "en_disk (logged_engine env) = logged_disk (en_disk env)"
  by (simp_all add: logged_disk_def ledger_codec_def on_disk_def logged_engine_def)

interpretation logged_calls: commit_log "logged_disk env" snd for env :: "'w disk_env"
  by unfold_locales (auto simp: logged_disk_def split: prod.splits option.splits)

interpretation logged: engine_log "logged_engine env" snd for env :: "'w engine_env"
proof
  fix w request w' response
  assume "en_do (logged_engine env) w request = (w', response)"
  then show "snd w' = snd w" by (auto simp: logged_engine_def split: prod.splits)
qed (auto simp: logged_engine_def logged_disk_def split: prod.splits option.splits)

end
