(* ===== verification/LedgerSafety.thy ===== *)
theory LedgerSafety
  imports FragmentEngine
begin

text \<open>
  Properties of a checkpointed download and its ledger: what is fetched and reused, and a fragment that makes a ledger unusable. The first
  part has a text for ledgers and a small job, on which the properties are run.
\<close>

section \<open>A ledger text\<close>

text \<open>A simple text that keeps the law, for the concrete runs below: strings with a mark before each byte, numbers in unary.\<close>

definition put_text :: "string \<Rightarrow> byte list" where
  "put_text s = concat (map (\<lambda>c. [1, word_of_nat (of_char c)]) s) @ [0]"

fun get_text :: "byte list \<Rightarrow> string \<times> byte list" where
  "get_text (b # c # bs) = (if b = 0 then ([], c # bs) else apfst (Cons (char_of (unat c))) (get_text bs))"
| "get_text bs = ([], drop 1 bs)"

definition put_int :: "int \<Rightarrow> byte list" where
  "put_int n = (if n < 0 then 1 else 0) # replicate (nat \<bar>n\<bar>) 1 @ [0]"

definition get_int :: "byte list \<Rightarrow> int \<times> byte list" where
  "get_int bs = (let n = int (length (takeWhile (\<lambda>b. b = 1) (drop 1 bs))) in (if take 1 bs = [1] then - n else n, drop 1 (dropWhile (\<lambda>b. b = 1) (drop 1 bs))))"

fun put_texts :: "string list \<Rightarrow> byte list" where
  "put_texts [] = []"
| "put_texts (s # ss) = put_text s @ put_texts ss"

fun get_texts :: "nat \<Rightarrow> byte list \<Rightarrow> string list \<times> byte list" where
  "get_texts 0 bs = ([], bs)"
| "get_texts (Suc n) bs = (case get_text bs of (s, bs) \<Rightarrow> apfst (Cons s) (get_texts n bs))"

fun put_entries :: "(int \<times> artifact) list \<Rightarrow> byte list" where
  "put_entries [] = [0]"
| "put_entries ((i, a) # rest) = 1 # put_int i @ put_int (ar_Bytes a) @ put_texts (artifact_strings a) @ put_entries rest"

fun get_entries :: "nat \<Rightarrow> byte list \<Rightarrow> (int \<times> artifact) list" where
  "get_entries 0 bs = []"
| "get_entries (Suc n) bs =
     (if take 1 bs = [0] then []
      else case get_int (drop 1 bs) of (i, bs) \<Rightarrow> case get_int bs of (bytes, bs) \<Rightarrow> case get_texts 5 bs of (ss, bs) \<Rightarrow>
        (i, \<lparr>ar_Bytes = bytes, ar_SHA256 = ss ! 0, ar_Key = ss ! 1, ar_ProofKind = ss ! 2, ar_ProofValue = ss ! 3, ar_ProofScope = ss ! 4\<rparr>) # get_entries n bs)"

definition put_ledger :: "manifestState \<Rightarrow> byte list" where
  "put_ledger s = put_int (ms_Version s) @ put_texts [ms_ResumeIdentity s, ms_PlanHash s, ms_Hash s] @ put_entries (sorted_list_of_fmap (ms_Artifacts s))"

definition get_ledger :: "byte list \<Rightarrow> manifestState" where
  "get_ledger bs =
     (case get_int bs of (version, bs) \<Rightarrow> case get_texts 3 bs of (ss, bs) \<Rightarrow>
        \<lparr>ms_Version = version, ms_ResumeIdentity = ss ! 0, ms_PlanHash = ss ! 1, ms_Hash = ss ! 2, ms_Artifacts = fmap_of_list (get_entries (length bs) bs)\<rparr>)"

lemma get_put_text: "get_text (put_text s @ bs) = (s, bs)"
proof (induction s)
  case Nil
  then show ?case by (cases bs) (simp_all add: put_text_def)
next
  case (Cons c s)
  have "char_of (unat (word_of_nat (of_char c) :: byte)) = c" using nat_of_char_less_256 [of c] by (simp add: unat_of_nat)
  with Cons show ?case by (simp add: put_text_def)
qed

lemma get_put_int: "get_int (put_int n @ bs) = (n, bs)"
proof -
  have "takeWhile (\<lambda>b. b = 1) (replicate j 1 @ 0 # bs) = replicate j 1 \<and> dropWhile (\<lambda>b. b = 1) (replicate j 1 @ 0 # bs) = 0 # bs" for j
    by (induction j) simp_all
  then show ?thesis by (simp add: get_int_def put_int_def Let_def)
qed

lemma get_put_texts: "n = length ss \<Longrightarrow> get_texts n (put_texts ss @ bs) = (ss, bs)"
  by (induction ss arbitrary: n) (simp_all add: get_put_text)

lemma get_put_entries: "length entries < n \<Longrightarrow> get_entries n (put_entries entries) = entries"
proof (induction entries arbitrary: n)
  case Nil
  then show ?case by (cases n) simp_all
next
  case (Cons x entries)
  obtain i a where "x = (i, a)" by (cases x)
  moreover have "get_texts 5 (put_texts (artifact_strings a) @ bs) = (artifact_strings a, bs)" for bs
    by (rule get_put_texts) (simp add: artifact_strings_def)
  ultimately show ?case using Cons by (cases n) (simp_all add: get_put_int, simp add: artifact_strings_def)
qed

lemma length_put_entries: "length entries < length (put_entries entries)"
  by (induction entries rule: put_entries.induct) simp_all

lemma get_put_ledger: "get_ledger (put_ledger s) = s"
proof -
  have "fmap_of_list (sorted_list_of_fmap m) = m" for m :: "(int, artifact) fmap"
    by (rule fmap_ext) (simp add: fmlookup_of_list)
  then show ?thesis
    using get_put_texts [of 3 "[ms_ResumeIdentity s, ms_PlanHash s, ms_Hash s]"]
    by (simp add: get_ledger_def put_ledger_def get_put_int get_put_entries length_put_entries)
qed

section \<open>Concrete runs\<close>

definition calm_disk :: "('w \<Rightarrow> ResumeBoundary \<Rightarrow> 'w \<times> bool) option \<Rightarrow> 'w disk_env" where
  "calm_disk callback = \<lparr>dk_call = (\<lambda>w. (w, False)), dk_write = (\<lambda>w. (w, Settled)), dk_protect = (\<lambda>w. (w, None)), dk_encode = put_ledger,
     dk_decode = (\<lambda>bs. Some (get_ledger bs)), dk_commit = callback\<rparr>"

lemma calm_disk_simps [simp]:
  "dk_call (calm_disk c) w = (w, False)" "dk_write (calm_disk c) w = (w, Settled)" "dk_protect (calm_disk c) w = (w, None)" "dk_encode (calm_disk c) = put_ledger"
  "dk_decode (calm_disk c) bs = Some (get_ledger bs)" "dk_commit (calm_disk c) = c"
  by (simp_all add: calm_disk_def)

abbreviation good_disk :: "unit disk_env" where
  "good_disk \<equiv> calm_disk None"

lemma good_codec: "ledger_codec good_disk"
  by (simp add: ledger_codec_def get_put_ledger)

definition example_scale :: Scale where
  "example_scale = \<lparr>sc_Key = text_digest [], sc_Kind = ''provider-immutable'', sc_Value = text_digest [], sc_Scope = text_digest []\<rparr>"

definition example_checkpoint :: fragment_checkpoint where
  "example_checkpoint = \<lparr>fc_Directory = [], fc_ResumeIdentity = ''a'', fc_RequireCoordinatorReset = False, fc_CoordinatorBoundary = False\<rparr>"

definition example_job :: fragment_job where
  "example_job =
     \<lparr>fj_Segments = [\<lparr>fs_URL = ''https://h/u'', fs_RangeStart = 0, fs_RangeLength = 0, fs_AES128 = None, fs_Scale = Some example_scale\<rparr>], fj_Headers = [], fj_OutputRoot = [],
      fj_Destination = [], fj_Concurrency = 1, fj_Attempts = 1, fj_MaxSegmentSize = 0, fj_MaxSegments = 0, fj_PerHostConcurrency = 1, fj_RetryBaseDelay = 0,
      fj_RetryMaxDelay = 0, fj_Overwrite = False,
      fj_Checkpoint = Some example_checkpoint\<rparr>"

definition example_expectation :: manifestExpectation where
  "example_expectation = manifestExpectationFor [] example_job"

definition example_state :: manifestState where
  "example_state = (initialManifestState example_expectation)\<lparr>ms_Artifacts := fmupd 0 (recorded 1 (hex_EncodeToString (Sum256 [7])) (Some example_scale)) fmempty\<rparr>"

definition first_dir :: workspace where
  "first_dir = \<lparr>wk_kind = DirMissing, wk_entries = [], wk_destination = False\<rparr>"

definition later_dir :: workspace where
  "later_dir = \<lparr>wk_kind = DirReal, wk_entries = [(''00000000.frag'', Regular [7]), (ledger_name, Regular (put_ledger example_state))], wk_destination = False\<rparr>"

lemma example_scale_valid: "validateScale example_scale"
  by (simp add: example_scale_def validateScale_def RecognizedScaleKind_def)

lemma example_job_valid: "validateFiniteFragmentPlan (fj_Segments example_job) = None" "validateResumeIdentity ''a'' = None"
  "fj_Checkpoint example_job = Some example_checkpoint" "fc_ResumeIdentity example_checkpoint = ''a''"
proof -
  show "validateFiniteFragmentPlan (fj_Segments example_job) = None"
    by (simp add: validateFiniteFragmentPlan_def example_job_def maxFragmentSegments_def check_segment_def example_scale_valid)
  show "validateResumeIdentity ''a'' = None" by code_simp
  show "fj_Checkpoint example_job = Some example_checkpoint" "fc_ResumeIdentity example_checkpoint = ''a''"
    by (simp_all add: example_job_def example_checkpoint_def)
qed

lemma length_put_text: "length (put_text s) = 2 * length s + 1"
  by (induction s) (simp_all add: put_text_def)

lemma length_text_digest [simp]: "length (text_digest t) = 64"
  by (simp add: text_digest_def)

lemma sorted_single: "sorted_list_of_fmap fmempty = []" "sorted_list_of_fmap (fmupd i a fmempty) = [(i, a)]"
  by (simp_all add: sorted_list_of_fmap_def sorted_list_of_fset.rep_eq)

lemma example_expectation_simps:
  "example_expectation = \<lparr>me_durable = True, me_overwrite = False, me_resumeIdentity = ''a'', me_planHash = checkpointPlanHash (fj_Segments example_job),
     me_legacyHash = [], me_segmentCount = 1\<rparr>"
  by (simp add: example_expectation_def manifestExpectationFor_def example_job_def example_checkpoint_def)

lemma example_ledger_length: "length (put_ledger example_state) \<le> maxManifestBytes"
  by (simp add: put_ledger_def example_state_def initialManifestState_def example_expectation_simps put_int_def length_put_text sorted_single recorded_def
      artifact_strings_def example_scale_def maxManifestBytes_def checkpointPlanHash_def fragmentCheckpointVersion_def)

lemma fragment_name_0: "fragment_name 0 = ''00000000.frag''"
  by code_simp

definition first_manifest :: "fragment_job \<Rightarrow> artifactManifest" where
  "first_manifest job = new_manifest True (initialManifestState (manifestExpectationFor [] job))"

definition started_dir :: "fragment_job \<Rightarrow> workspace" where
  "started_dir job = put_file ledger_name (put_ledger (initialManifestState (manifestExpectationFor [] job))) (first_dir\<lparr>wk_kind := DirReal\<rparr>)"

lemma contiguous_first: "contiguousSequence (initialManifestState e) = 0"
  using contiguous_loop.simps(2) [of fmempty 9999 0]
  by (simp add: contiguousSequence_def maxFragmentSegments_def initialManifestState_def)

lemma contiguous_one: "contiguousSequence (s\<lparr>ms_Artifacts := fmupd 0 a fmempty\<rparr>) = 1"
  using contiguous_loop.simps(2) [of "fmupd 0 a fmempty" 9999 0] contiguous_loop.simps(2) [of "fmupd 0 a fmempty" 9998 1]
  by (simp add: contiguousSequence_def maxFragmentSegments_def)

text \<open>A job without prior work starts with an empty ledger.\<close>

lemma first_prepare:
  assumes "fj_Checkpoint job = Some checkpoint" and "fc_ResumeIdentity checkpoint = ''a''" and "\<not> fc_CoordinatorBoundary checkpoint"
  shows "prepare_ledger good_disk (\<lambda>x. x) [] job None () first_dir = ((), started_dir job, Inr (first_manifest job))"
proof -
  define e where "e = manifestExpectationFor [] job"
  have fields: "me_durable e" "me_resumeIdentity e = ''a''" "me_planHash e = checkpointPlanHash (fj_Segments job)"
    using assms(1,2) by (simp_all add: e_def manifestExpectationFor_def)
  have r: "reconcile_job good_disk e job None () first_dir = ((), first_dir, None)"
    using assms by (simp add: reconcile_job_def)
  have "length (put_ledger (initialManifestState e)) \<le> maxManifestBytes"
    by (simp add: put_ledger_def initialManifestState_def fields put_int_def length_put_text sorted_single maxManifestBytes_def checkpointPlanHash_def
        fragmentCheckpointVersion_def)
  then have c: "create_ledger good_disk e () (first_dir\<lparr>wk_kind := DirReal\<rparr>) = ((), started_dir job, Inr (first_manifest job))"
    by (simp add: create_ledger_def writeManifestState_def atomic_write_def Let_def first_manifest_def started_dir_def fields e_def [symmetric])
  have o: "openArtifactManifest good_disk e (\<lambda>x. x) () first_dir = create_ledger good_disk e () (first_dir\<lparr>wk_kind := DirReal\<rparr>)"
    by (simp add: openArtifactManifest_def ensureWorkDirectory_def first_dir_def inspectRetainedEvidence_def missing_ledger_def fields)
  have n: "\<not> equivalenceRestartRequired (first_manifest job) (fj_Segments job)"
    by (simp add: equivalenceRestartRequired_def first_manifest_def new_manifest_def initialManifestState_def)
  have f: "configure_job job None (first_manifest job) = Inr (first_manifest job)"
    using assms(1) by (simp add: configure_job_def configureCallback_def first_manifest_def new_manifest_def contiguous_first)
  show ?thesis by (simp add: prepare_ledger_def e_def [symmetric] r o c restart_ledger_def n f)
qed

lemma example_first: "prepare_ledger good_disk (\<lambda>x. x) [] example_job None () first_dir = ((), started_dir example_job, Inr (first_manifest example_job))"
  by (rule first_prepare [of _ example_checkpoint]) (simp_all add: example_job_def example_checkpoint_def)

definition example_boundary :: ResumeBoundary where
  "example_boundary =
     \<lparr>rb_ResumeIdentity = ''a'', rb_PlanHash = checkpointPlanHash (fj_Segments example_job), rb_Sequence = 1,
      rb_Digest = text_digest (prefix_text ''a'' (checkpointPlanHash (fj_Segments example_job)) [recorded 1 (hex_EncodeToString (Sum256 [7])) (Some example_scale)]),
      rb_CommittedBytes = 1\<rparr>"

lemma example_boundary_valid: "boundary_Validate example_boundary = None"
  by (simp add: boundary_Validate_def example_boundary_def example_job_valid checkpointPlanHash_def maxFragmentSegments_def)

lemma example_snapshot: "snapshotForPrefix example_state 1 = Inr example_boundary"
proof -
  have "canonicalSHA256 (hex_EncodeToString (Sum256 [7]))" by (simp add: hex_canonical)
  then have "prefix_artifacts (ms_Artifacts example_state) 0 1 0 = Inr ([recorded 1 (hex_EncodeToString (Sum256 [7])) (Some example_scale)], 1)"
    by (simp add: example_state_def recorded_def MaxInt64_def)
  moreover have "ms_ResumeIdentity example_state = ''a''" "ms_PlanHash example_state = checkpointPlanHash (fj_Segments example_job)"
    by (simp_all add: example_state_def initialManifestState_def example_expectation_simps)
  ultimately show ?thesis
    using example_boundary_valid by (simp add: snapshotForPrefix_def Let_def example_boundary_def example_state_def maxFragmentSegments_def)
qed

definition later_manifest :: artifactManifest where
  "later_manifest = (new_manifest True example_state)\<lparr>am_notifiedSequence := 1\<rparr>"

lemma artifact_scale_recorded [simp]: "artifact_scale (recorded bytes digest (Some scale)) = scale"
  by (simp add: artifact_scale_def recorded_def)

lemma example_state_valid: "validateManifestState example_state example_expectation = None"
proof -
  have "artifact_ok example_expectation 0 (recorded 1 (hex_EncodeToString (Sum256 [7])) (Some example_scale))"
    using example_scale_valid by (simp add: artifact_ok_def example_expectation_simps safeArtifactProof_def) (simp add: recorded_def)
  moreover have "checkpointPlanHash segments \<noteq> []" for segments
    using length_text_digest by (metis checkpointPlanHash_def list.size(3) zero_neq_numeral)
  ultimately show ?thesis
    by (simp add: fmpred_upd fcard_finsert_if fcard_fempty validateManifestState_def example_state_def initialManifestState_def example_expectation_simps maxFragmentSegments_def)
qed

lemma example_names: "fragmentIndexFromName ''00000000.frag'' = Some 0" "\<not> is_marker ''00000000.frag''" "\<not> is_marker ledger_name" "''00000000.frag'' \<noteq> ledger_name"
  by code_simp+

lemma example_inspected: "inspectRetainedEvidence good_disk (me_segmentCount example_expectation) () later_dir = ((), None)"
  by (simp add: inspectRetainedEvidence_def later_dir_def example_names entry_info_def example_expectation_simps)

lemma example_later: "prepare_ledger good_disk (\<lambda>x. x) [] example_job None () later_dir = ((), later_dir, Inr later_manifest)"
proof -
  have r: "reconcile_job good_disk example_expectation example_job None () later_dir = ((), later_dir, None)"
    by (simp add: reconcile_job_def example_job_def example_checkpoint_def)
  have l: "existing_ledger good_disk example_expectation (\<lambda>x. x) (put_ledger example_state) () later_dir = ((), later_dir, Inr (new_manifest True example_state))"
  proof -
    have "artifactMatches good_disk (recorded 1 (hex_EncodeToString (Sum256 [7])) (Some example_scale)) ''00000000.frag'' () later_dir = ((), True)"
      by (simp add: artifactMatches_def later_dir_def recorded_def)
    moreover have "sorted_list_of_fmap (ms_Artifacts example_state) = [(0, recorded 1 (hex_EncodeToString (Sum256 [7])) (Some example_scale))]"
      by (simp add: example_state_def sorted_single)
    ultimately have "all_match good_disk (sorted_list_of_fmap (ms_Artifacts example_state)) () later_dir = ((), True)" by (simp add: fragment_name_0)
    moreover have "readManifestState good_disk (put_ledger example_state) () = ((), Some example_state)"
      using example_ledger_length by (simp add: readManifestState_def get_put_ledger)
    moreover have "me_durable example_expectation" by (simp add: example_expectation_simps)
    ultimately show ?thesis by (simp add: existing_ledger_def example_state_valid)
  qed
  have o: "openArtifactManifest good_disk example_expectation (\<lambda>x. x) () later_dir = ((), later_dir, Inr (new_manifest True example_state))"
  proof -
    have "ensureWorkDirectory good_disk example_expectation () later_dir = ((), later_dir, Inr False)" by (simp add: ensureWorkDirectory_def later_dir_def)
    moreover have "map_of (wk_entries later_dir) ledger_name = Some (Regular (put_ledger example_state))" using example_names(4) by (simp add: later_dir_def)
    moreover have "me_durable example_expectation" by (simp add: example_expectation_simps)
    ultimately show ?thesis by (simp add: openArtifactManifest_def example_inspected l)
  qed
  have e: "\<not> equivalenceRestartRequired (new_manifest True example_state) (fj_Segments example_job)"
    by (auto simp: equivalenceRestartRequired_def new_manifest_def example_state_def example_job_def recorded_def fmpred_iff example_scale_def split: if_splits)
  have f: "configure_job example_job None (new_manifest True example_state) = Inr later_manifest"
    using contiguous_one [where s = "initialManifestState example_expectation"]
    by (simp add: configure_job_def configureCallback_def example_job_def later_manifest_def new_manifest_def example_state_def)
  show ?thesis by (simp add: prepare_ledger_def example_expectation_def [symmetric] r o restart_ledger_def e f)
qed

lemma example_reuse: "reusableScaled good_disk later_manifest 0 (segment_scale (fj_Segments example_job) 0) () later_dir = ((), Inr True)"
proof -
  have "artifactMatches good_disk (recorded 1 (hex_EncodeToString (Sum256 [7])) (Some example_scale)) ''00000000.frag'' () later_dir = ((), True)"
    by (simp add: artifactMatches_def later_dir_def recorded_def)
  then show ?thesis
    by (simp add: reusableScaled_def later_manifest_def new_manifest_def example_state_def segment_scale_def example_job_def fragment_name_0 recorded_def)
qed

section \<open>Properties\<close>



text \<open>
  C16. A fragment without bytes can be recorded, when an earlier one is still missing, and is then in the ledger on disk; from then on every attempt to open that
  ledger fails, since an artifact must have a positive size. The work directory of the download is lost for good.
\<close>

theorem empty_fragment_makes_the_ledger_unusable:
  assumes "ledger_codec env" and "text_state (am_state m)" and "case scale of None \<Rightarrow> True | Some s \<Rightarrow> validateScale s" and "wk_kind k = DirReal"
    and "map_of (wk_entries k) (fragment_name (int index)) = Some (Regular [])"
    and "RecordScaled env m index scale w k = (w', k', m', None)" and "me_durable e"
  shows "\<exists>err. snd (snd (openArtifactManifest env e order w2 k')) = Inl err"
proof -
  let ?a = "recorded 0 (hex_EncodeToString (Sum256 [])) scale"
  let ?c = "(am_state m)\<lparr>ms_Artifacts := fmupd (int index) ?a (ms_Artifacts (am_state m))\<rparr>"
  from assms(5,6) obtain w1 where "commit_candidate env m ?c w1 k = (w', k', m', None)"
    by (auto simp: RecordScaled_def digestFile_def Let_def split: prod.splits if_splits)
  then obtain w0 w3 where wr: "writeManifestState env ?c w0 k = (w3, k', Settled)"
    by (auto simp: commit_candidate_def split: sum.splits prod.splits write_outcome.splits if_splits)
  have "text_state ?c" using recorded_text [OF assms(3)] assms(2) by (auto simp: text_state_def intro: fmpred_upd)
  from writeManifestState_cases [OF wr assms(1) this] have disk: "on_disk env k' ?c" by simp
  have kind: "wk_kind k' = DirReal"
    using wr assms(4) by (auto simp: writeManifestState_def atomic_write_def put_file_def split: if_splits prod.splits write_outcome.splits bool.splits)
  have bad: "\<not> artifact_ok e (int index) ?a" by (simp add: artifact_ok_def recorded_def split: option.split)
  have "\<not> fmpred (artifact_ok e) (ms_Artifacts ?c)"
  proof
    assume "fmpred (artifact_ok e) (ms_Artifacts ?c)"
    then have "artifact_ok e (int index) ?a" by (rule fmpredD) simp
    with bad show False ..
  qed
  then have "validateManifestState ?c e = Some FragInvalidCheckpoint" by (simp add: validateManifestState_def)
  with disk kind assms(7) show ?thesis
    by (auto simp: openArtifactManifest_def ensureWorkDirectory_def existing_ledger_def readManifestState_def on_disk_def
        split: prod.splits option.splits bool.splits)
qed

theorem empty_fragment_makes_the_ledger_unusable_witness:
  "\<exists>w' k' m' err. RecordScaled good_disk (first_manifest example_job) 1 None () (put_file ''00000001.frag'' [] (first_dir\<lparr>wk_kind := DirReal\<rparr>)) = (w', k', m', None) \<and>
     snd (snd (openArtifactManifest good_disk (example_expectation\<lparr>me_segmentCount := 2\<rparr>) (\<lambda>x. x) () k')) = Inl err"
proof -
  let ?k = "put_file ''00000001.frag'' [] (first_dir\<lparr>wk_kind := DirReal\<rparr>)"
  let ?c = "(am_state (first_manifest example_job))\<lparr>ms_Artifacts := fmupd 1 (recorded 0 (hex_EncodeToString (Sum256 [])) None) (ms_Artifacts (am_state (first_manifest example_job)))\<rparr>"
  have name: "fragment_name 1 = ''00000001.frag''" by code_simp
  have fields: "\<not> am_callbackErr (first_manifest example_job)" "\<not> am_poisoned (first_manifest example_job)" "am_durable (first_manifest example_job)" "am_notifiedSequence (first_manifest example_job) = 0"
      "ms_Artifacts (am_state (first_manifest example_job)) = fmempty" "text_state (am_state (first_manifest example_job))"
    using example_job_valid(2)
    by (simp_all add: first_manifest_def example_expectation_def [symmetric] new_manifest_def initialManifestState_def text_state_def example_expectation_simps checkpointPlanHash_def canonical_valid
        validateResumeIdentity_def split: if_splits)
  have "contiguousSequence ?c = 0"
    using contiguous_loop.simps(2) [of "fmupd 1 (recorded 0 (hex_EncodeToString (Sum256 [])) None) fmempty" 9999 0]
    by (simp add: contiguousSequence_def maxFragmentSegments_def fields)
  then have "next_snapshot (first_manifest example_job) ?c = Inr None" by (simp add: next_snapshot_def fields)
  moreover have "length (put_ledger ?c) \<le> maxManifestBytes"
    by (simp add: put_ledger_def first_manifest_def example_expectation_def [symmetric] new_manifest_def initialManifestState_def example_expectation_simps put_int_def length_put_text sorted_single
        recorded_def artifact_strings_def maxManifestBytes_def checkpointPlanHash_def fragmentCheckpointVersion_def)
  ultimately have "\<exists>w' k' m'. commit_candidate good_disk (first_manifest example_job) ?c () ?k = (w', k', m', None)"
    by (simp add: commit_candidate_def writeManifestState_def atomic_write_def notify_def)
  then obtain w' k' m' where c: "commit_candidate good_disk (first_manifest example_job) ?c () ?k = (w', k', m', None)" by blast
  have r: "RecordScaled good_disk (first_manifest example_job) 1 None () ?k = (w', k', m', None)"
    using c fields by (simp add: RecordScaled_def digestFile_def name map_of_put_file Let_def)
  have "\<exists>err. snd (snd (openArtifactManifest good_disk (example_expectation\<lparr>me_segmentCount := 2\<rparr>) (\<lambda>x. x) () k')) = Inl err"
    by (rule empty_fragment_makes_the_ledger_unusable [OF good_codec fields(6) _ _ _ r])
      (simp_all add: name map_of_put_file example_expectation_simps, simp add: put_file_def)
  with r show ?thesis by blast
qed

end
