(* ===== verification/LedgerResume.thy ===== *)
theory LedgerResume
  imports LedgerSafety
begin

text \<open>
  Resuming a checkpointed download: the boundary of a caller is compared with the ledger and the files, and the work directory is cut back to it
  (\<open>reconcileResumeBoundary\<close> in \<open>internal/fragment/checkpoint_authority.go\<close>); and what this means for the jobs of the DASH downloader.
\<close>

section \<open>The prefix is what was committed\<close>

lemma prefix_matches_result:
  "prefix_matches env state index n w k = (w', True) \<Longrightarrow> index \<le> j \<Longrightarrow> j < index + n \<Longrightarrow>
     \<exists>a content. fmlookup (ms_Artifacts state) (int j) = Some a \<and> map_of (wk_entries k) (fragment_name (int j)) = Some (Regular content) \<and>
       int (length content) = ar_Bytes a \<and> hex_EncodeToString (Sum256 content) = ar_SHA256 a"
proof (induction n arbitrary: index w)
  case (Suc n)
  from Suc.prems(1) obtain a w1 where a: "fmlookup (ms_Artifacts state) (int index) = Some a"
      "artifactMatches env a (fragment_name (int index)) w k = (w1, True)" "prefix_matches env state (index + 1) n w1 k = (w', True)"
    by (auto split: option.splits prod.splits bool.splits)
  show ?case
  proof (cases "j = index")
    case True
    with a show ?thesis by (auto simp: artifactMatches_def split: prod.splits option.splits dir_entry.splits)
  next
    case False
    with Suc.IH [OF a(3)] Suc.prems(2,3) show ?thesis by simp
  qed
qed simp

lemma remove_files_other:
  "remove_files env names w k = (w', k', failed) \<Longrightarrow> n \<notin> set names \<Longrightarrow> map_of (wk_entries k') n = map_of (wk_entries k) n"
proof (induction names arbitrary: w k)
  case (Cons name names)
  have "map_of (filter (\<lambda>(m, _). m \<noteq> name) xs) n = map_of xs n" for xs :: "(string \<times> dir_entry) list"
    using Cons.prems(2) by (induction xs) auto
  then have same: "map_of (wk_entries (drop_file name k)) n = map_of (wk_entries k) n" by (simp add: drop_file_def)
  from Cons.prems(1) consider "k' = k" | w1 where "remove_files env names w1 (drop_file name k) = (w', k', failed)"
    by (auto simp: remove_file_def split: prod.splits bool.splits if_splits)
  then show ?case using Cons.IH Cons.prems(2) same by cases auto
qed simp

lemma remove_and_sync_other:
  "remove_and_sync env names w k = (w', k', None) \<Longrightarrow> n \<notin> set names \<Longrightarrow> map_of (wk_entries k') n = map_of (wk_entries k) n"
  by (auto simp: remove_and_sync_def split: if_splits prod.splits bool.splits dest: remove_files_other)

lemma prefix_state_lookup:
  "fmlookup (ms_Artifacts (prefix_state state n)) i =
     (if 0 \<le> i \<and> i < int n then Some (case fmlookup (ms_Artifacts state) i of Some a \<Rightarrow> a | None \<Rightarrow> recorded 0 [] None) else None)"
proof -
  define f where "f = (\<lambda>j. case fmlookup (ms_Artifacts state) (int j) of Some a \<Rightarrow> a | None \<Rightarrow> recorded 0 [] None)"
  have "fmlookup (fold (\<lambda>j. fmupd (int j) (f j)) [0..<n] fmempty) i = (if 0 \<le> i \<and> i < int n then Some (f (nat i)) else None)"
    by (induction n) auto
  then show ?thesis by (simp add: prefix_state_def f_def)
qed

lemma writeManifestState_other:
  "writeManifestState env state w k = (w', k', outcome) \<Longrightarrow> n \<noteq> ledger_name \<Longrightarrow> map_of (wk_entries k') n = map_of (wk_entries k) n"
  by (auto simp: writeManifestState_def atomic_write_def map_of_put_file split: if_splits prod.splits write_outcome.splits bool.splits)

definition prefix_of :: "manifestState \<Rightarrow> nat \<Rightarrow> string" where
  "prefix_of state n = prefix_text (ms_ResumeIdentity state) (ms_PlanHash state) (map (\<lambda>j. the (fmlookup (ms_Artifacts state) (int j))) [0..<n])"

text \<open>Two particular texts with one digest.\<close>

definition hash_collision :: "string \<Rightarrow> string \<Rightarrow> bool" where
  "hash_collision s t \<longleftrightarrow> s \<noteq> t \<and> Sum256 (bytes_of s) = Sum256 (bytes_of t)"

lemma same_snapshot:
  assumes "snapshotForPrefix s n = Inr b" and "snapshotForPrefix t n = Inr b" and "\<not> hash_collision (prefix_of s n) (prefix_of t n)" and "j < n"
  obtains a a' where "fmlookup (ms_Artifacts s) (int j) = Some a" "fmlookup (ms_Artifacts t) (int j) = Some a'" "content_of a = content_of a'"
proof -
  obtain xs where xs: "length xs = n" "\<forall>j < n. fmlookup (ms_Artifacts s) (int j) = Some (xs ! j)" "rb_ResumeIdentity b = ms_ResumeIdentity s"
      "rb_PlanHash b = ms_PlanHash s" "rb_Digest b = text_digest (prefix_text (ms_ResumeIdentity s) (ms_PlanHash s) xs)"
    using assms(1) by (elim snapshotForPrefix_result)
  obtain ys where ys: "length ys = n" "\<forall>j < n. fmlookup (ms_Artifacts t) (int j) = Some (ys ! j)" "rb_ResumeIdentity b = ms_ResumeIdentity t"
      "rb_PlanHash b = ms_PlanHash t" "rb_Digest b = text_digest (prefix_text (ms_ResumeIdentity t) (ms_PlanHash t) ys)"
    using assms(2) by (elim snapshotForPrefix_result)
  have "map (\<lambda>j. the (fmlookup (ms_Artifacts s) (int j))) [0..<n] = xs" "map (\<lambda>j. the (fmlookup (ms_Artifacts t) (int j))) [0..<n] = ys"
    using xs(1,2) ys(1,2) by (auto intro: nth_equalityI)
  then have texts: "prefix_of s n = prefix_text (ms_ResumeIdentity s) (ms_PlanHash s) xs" "prefix_of t n = prefix_text (ms_ResumeIdentity s) (ms_PlanHash s) ys"
    using xs(3,4) ys(3,4) by (simp_all add: prefix_of_def)
  have digests: "text_digest (prefix_text (ms_ResumeIdentity s) (ms_PlanHash s) xs) = text_digest (prefix_text (ms_ResumeIdentity s) (ms_PlanHash s) ys)"
    using xs(3,4,5) ys(3,4,5) by simp
  have "map content_of xs = map content_of ys"
  proof (rule ccontr)
    assume "map content_of xs \<noteq> map content_of ys"
    from prefix_digest_inject [OF digests _ this] xs(1) ys(1) texts assms(3) show False by (simp add: hash_collision_def)
  qed
  then have "content_of (xs ! j) = content_of (ys ! j)" using assms(4) xs(1) ys(1) by (metis nth_map)
  with xs(2) ys(2) assms(4) that show thesis by blast
qed

section \<open>What is left of the directory\<close>

text \<open>Files and ledger are a prefix of a ledger that was committed, and nothing else.\<close>

definition holds_prefix :: "'w disk_env \<Rightarrow> workspace \<Rightarrow> manifestState \<Rightarrow> nat \<Rightarrow> bool" where
  "holds_prefix env k committed n \<longleftrightarrow>
     (\<forall>j < n. \<exists>a content. fmlookup (ms_Artifacts committed) (int j) = Some a \<and> map_of (wk_entries k) (fragment_name (int j)) = Some (Regular content) \<and>
        int (length content) = ar_Bytes a \<and> hex_EncodeToString (Sum256 content) = ar_SHA256 a) \<and>
     (\<exists>state. on_disk env k state \<and> fmdom' (ms_Artifacts state) = int ` {0..<n}) \<and>
     (\<forall>i \<ge> n. i < 100000000 \<longrightarrow> map_of (wk_entries k) (fragment_name (int i)) = None)"

lemma prefix_state_text:
  assumes "text_state state" and "\<forall>j < n. fmlookup (ms_Artifacts state) (int j) \<noteq> None"
  shows "text_state (prefix_state state n)"
proof -
  have "fmlookup (ms_Artifacts state) i = Some a" if "fmlookup (ms_Artifacts (prefix_state state n)) i = Some a" for i a
  proof -
    from that have "0 \<le> i" "i < int n" by (simp_all add: prefix_state_lookup split: if_splits)
    with assms(2) obtain a' where "fmlookup (ms_Artifacts state) i = Some a'" by (metis not_None_eq nat_0_le nat_less_iff)
    with that show ?thesis by (simp add: prefix_state_lookup split: if_splits)
  qed
  with assms(1) show ?thesis by (auto simp: text_state_def fmpred_iff prefix_state_def)
qed

definition clamped :: "'w disk_env \<Rightarrow> workspace \<Rightarrow> workspace \<Rightarrow> nat \<Rightarrow> bool" where
  "clamped env k k' n \<longleftrightarrow>
     (\<exists>state. on_disk env k' state \<and> fmdom' (ms_Artifacts state) = int ` {0..<n}) \<and>
     (\<forall>i < 100000000. map_of (wk_entries k') (fragment_name (int i)) = (if i < n then map_of (wk_entries k) (fragment_name (int i)) else None))"

lemma prefix_dom:
  assumes "\<And>i. fmlookup m i \<noteq> None \<longleftrightarrow> 0 \<le> i \<and> i < int n"
  shows "fmdom' m = int ` {0..<n}"
proof -
  have "fmdom' m = {0..<int n}" using assms by (auto simp: fmlookup_dom'_iff)
  then show ?thesis by (simp add: image_int_atLeastLessThan)
qed

lemma clamp_result:
  assumes clamp: "clampCheckpointWorkspace env state n coordinatorOwnsReset w k = (w', k', None)" and codec: "ledger_codec env"
    and state: "text_state state" "on_disk env k state" "\<forall>j < n. fmlookup (ms_Artifacts state) (int j) \<noteq> None"
      "\<And>i. fmlookup (ms_Artifacts state) i \<noteq> None \<Longrightarrow> 0 \<le> i"
  shows "clamped env k k' n"
proof -
  define later where "later = filter (\<lambda>name. case fragmentIndexFromName name of None \<Rightarrow> False | Some index \<Rightarrow> index \<ge> int n) (map fst (wk_entries k))"
  define ahead where "ahead \<longleftrightarrow> later \<noteq> [] \<or> \<not> fmpred (\<lambda>index a. \<not> index \<ge> int n) (ms_Artifacts state)"
  have mine: "fragment_name (int i) \<in> set later \<longleftrightarrow> n \<le> i \<and> map_of (wk_entries k) (fragment_name (int i)) \<noteq> None" if "i < 100000000" for i
    using fragment_index_of_name [OF that] by (auto simp: later_def map_of_eq_None_iff)
  show ?thesis
  proof (cases ahead)
    case False
    with clamp have same: "k' = k" by (auto simp: clampCheckpointWorkspace_def Let_def ahead_def later_def split: prod.splits bool.splits if_splits)
    from False have none: "later = []" and "fmpred (\<lambda>index a. \<not> index \<ge> int n) (ms_Artifacts state)" by (simp_all add: ahead_def)
    then have below: "i < int n" if "fmlookup (ms_Artifacts state) i \<noteq> None" for i
      using that by (meson fmpred_iff linorder_not_le not_None_eq)
    have "fmdom' (ms_Artifacts state) = int ` {0..<n}"
    proof (rule prefix_dom)
      fix i
      have "fmlookup (ms_Artifacts state) i \<noteq> None" if "0 \<le> i" "i < int n"
        using state(3) [rule_format, of "nat i"] that by simp
      then show "fmlookup (ms_Artifacts state) i \<noteq> None \<longleftrightarrow> 0 \<le> i \<and> i < int n" using below [of i] state(4) [of i] by blast
    qed
    with state(2) mine none show ?thesis unfolding clamped_def same by auto
  next
    case True
    with clamp obtain w1 w2 k1 where wr: "writeManifestState env (prefix_state state n) w1 k = (w2, k1, Settled)"
        and rm: "remove_and_sync env (sort later) w2 k1 = (w', k', None)"
      by (auto simp: clampCheckpointWorkspace_def Let_def ahead_def later_def split: prod.splits bool.splits if_splits write_outcome.splits)
    have "ledger_name \<notin> set (sort later)" using fragment_index_of_ledger by (simp add: later_def)
    from remove_and_sync_other [OF rm this] writeManifestState_cases [OF wr codec prefix_state_text [OF state(1,3)]]
    have disk: "on_disk env k' (prefix_state state n)" by (simp add: on_disk_def)
    have cut: "fmdom' (ms_Artifacts (prefix_state state n)) = int ` {0..<n}"
      by (rule prefix_dom) (simp add: prefix_state_lookup)
    have "map_of (wk_entries k') (fragment_name (int i)) = (if i < n then map_of (wk_entries k) (fragment_name (int i)) else None)" if "i < 100000000" for i
    proof (cases "fragment_name (int i) \<in> set later")
      case True
      with remove_and_sync_result [OF rm, of "fragment_name (int i)"] mine [OF that] show ?thesis by simp
    next
      case False
      with remove_and_sync_other [OF rm, of "fragment_name (int i)"] writeManifestState_other [OF wr fragment_name_other, of "int i"]
      have "map_of (wk_entries k') (fragment_name (int i)) = map_of (wk_entries k) (fragment_name (int i))" by simp
      with False mine [OF that] show ?thesis by (cases "i < n") auto
    qed
    with disk cut show ?thesis unfolding clamped_def by blast
  qed
qed

lemma validated_indices:
  assumes "validateManifestState state e = None" and "fmlookup (ms_Artifacts state) i \<noteq> None"
  shows "0 \<le> i"
proof -
  from assms(1) have ok: "fmpred (artifact_ok e) (ms_Artifacts state)" by (auto simp: validateManifestState_def split: if_splits)
  from assms(2) obtain a where "fmlookup (ms_Artifacts state) i = Some a" by blast
  from fmpredD [OF ok this] show ?thesis by (simp add: artifact_ok_def)
qed

lemma reconcile_prefix_result:
  assumes "reconcile_prefix env e b coordinatorOwnsReset w k = (w', k', None)" and "expectation_text e" and "ledger_codec env"
  obtains local w1 w2 where "on_disk env k local" "prefix_matches env local 0 (rb_Sequence b) w1 k = (w2, True)"
    "snapshotForPrefix local (rb_Sequence b) = Inr b" "clamped env k k' (rb_Sequence b)"
proof -
  from assms(1) obtain content w0 where entry: "map_of (wk_entries k) ledger_name = Some (Regular content)"
      and ledger: "reconcile_ledger env e b coordinatorOwnsReset content w0 k = (w', k', None)"
    by (auto simp: reconcile_prefix_def split: prod.splits bool.splits if_splits option.splits dir_entry.splits)
  then obtain local w3 w1 w2 where read: "readManifestState env content w0 = (w3, Some local)" and valid: "validateManifestState local e = None"
      and matches: "prefix_matches env local 0 (rb_Sequence b) w1 k = (w2, True)" and snapshot: "snapshotForPrefix local (rb_Sequence b) = Inr b"
      and clamp: "clampCheckpointWorkspace env local (rb_Sequence b) coordinatorOwnsReset w2 k = (w', k', None)"
    by (auto simp: reconcile_ledger_def split: prod.splits bool.splits if_splits option.splits sum.splits)
  from readManifestState_result [OF read] entry have disk: "on_disk env k local" by (simp add: on_disk_def)
  have present: "\<forall>j < rb_Sequence b. fmlookup (ms_Artifacts local) (int j) \<noteq> None"
    using snapshot by (elim snapshotForPrefix_result) simp
  from clamp_result [OF clamp assms(3) validated_text [OF valid assms(2)] disk present] validated_indices [OF valid]
  have "clamped env k k' (rb_Sequence b)" by blast
  with disk matches snapshot that show thesis by blast
qed

lemma reconcileResumeBoundary_prefix:
  "reconcileResumeBoundary env e b coordinatorOwnsReset w k = (w', k', None) \<Longrightarrow> 0 < rb_Sequence b \<Longrightarrow>
     reconcile_prefix env e b coordinatorOwnsReset w k = (w', k', None)"
  by (auto simp: reconcileResumeBoundary_def split: option.splits if_splits)

section \<open>Properties\<close>


lemma example_reconciled: "reconcileResumeBoundary good_disk example_expectation example_boundary False () later_dir = ((), later_dir, None)"
proof -
  have matches: "prefix_matches good_disk example_state 0 1 () later_dir = ((), True)"
    by (simp add: artifactMatches_def later_dir_def recorded_def example_state_def fragment_name_0)
  have "fmpred (\<lambda>index a. \<not> 1 \<le> index) (ms_Artifacts example_state)" by (auto simp: example_state_def fmpred_iff split: if_splits)
  then have clamp: "clampCheckpointWorkspace good_disk example_state 1 False () later_dir = ((), later_dir, None)"
    by (simp add: clampCheckpointWorkspace_def later_dir_def example_names fragment_index_of_ledger)
  have "readManifestState good_disk (put_ledger example_state) () = ((), Some example_state)"
    using example_ledger_length by (simp add: readManifestState_def get_put_ledger)
  with matches clamp example_snapshot example_state_valid
  have ledger: "reconcile_ledger good_disk example_expectation example_boundary False (put_ledger example_state) () later_dir = ((), later_dir, None)"
    by (simp add: reconcile_ledger_def example_boundary_def)
  have "map_of (wk_entries later_dir) ledger_name = Some (Regular (put_ledger example_state))" "wk_kind later_dir = DirReal"
    using example_names(4) by (simp_all add: later_dir_def)
  with example_inspected ledger
  have "reconcile_prefix good_disk example_expectation example_boundary False () later_dir = ((), later_dir, None)"
    by (simp add: reconcile_prefix_def)
  then show ?thesis
    using example_boundary_valid by (simp add: reconcileResumeBoundary_def) (simp add: example_boundary_def example_expectation_simps)
qed


lemma dash_job_scales:
  assumes "do_Checkpoint options = Some checkpoint" and "do_EquivalenceProof options = None"
    and "segment_scale (fj_Segments (job_of c options plan outputRoot destination overwrite dynamicSIDX r periodIndex True)) index = Some scale"
  shows "sc_Kind scale = []"
  using assms by (auto simp: segment_scale_def job_of_def fragment_of_def staticScale_unproved nth_enumerate_eq split: if_splits prod.splits)


definition checkpoint_options :: DashOptions where
  "checkpoint_options =
     \<lparr>do_DynamicMPDPolicy = DynamicMPDPolicyDefaultAllow, do_FragmentConcurrency = 0, do_PerHostConcurrency = 0, do_MaxSegmentSize = 0,
      do_Checkpoint = Some example_checkpoint, do_RequireStaticSingleRepresentation = True, do_EquivalenceProof = None, do_RepresentationIdentity = ''r''\<rparr>"


end
