(* ===== verification/FragmentOutput.thy ===== *)
theory FragmentOutput
  imports LedgerSafety
begin

text \<open>
  Properties of whole fragment downloads (\<open>Engine.Download\<close> in \<open>internal/fragment/engine.go\<close>), whatever the interleaving of the workers: the published file is the fragments in
  their order, the limits on concurrent work hold, and the callback is never ahead of the ledger on disk.
\<close>

section \<open>Assembly\<close>

lemma copy_fragments_content:
  "copy_fragments env is written w k = (w', k', Inr content) \<Longrightarrow> (\<forall>i \<in> set is. file_at k i = Some (Regular (c i))) \<Longrightarrow>
     content = written @ concat (map c is)"
proof (induction "is" arbitrary: written w k)
  case (Cons i rest)
  have kept: "file_at (put_file finalPublicationEvidence bytes k) j = file_at k j" for bytes j
    by (simp add: file_at_def map_of_put_file fragment_name_special)
  from Cons.prems obtain w1 where "copy_fragments env rest (written @ c i) w1 (put_file finalPublicationEvidence (written @ c i) k) = (w', k', Inr content)"
    by (auto simp: file_at_def file_content_def copyFragment_def split: prod.splits bool.splits option.splits)
  from Cons.IH [OF this] Cons.prems(2) show ?case by (simp add: kept)
qed simp

lemma discarded_fails: "discarded env e w k = (w', k', published, Inr x) \<longleftrightarrow> False"
  by (simp add: discarded_def split: prod.splits)

lemma publish_content: "publish env overwrite durable content w k = (w', k', published, Inr x) \<Longrightarrow> published = Some content \<and> x = content"
  by (auto simp: publish_def replaceAtomic_def publishNoClobber_def Let_def split: prod.splits bool.splits if_splits)

lemma fill_output_content:
  assumes "fill_output env n overwrite durable w k = (w', k', published, Inr content)" and "\<forall>i < n. file_at k i = Some (Regular (c i))"
  shows "published = Some content \<and> content = concat (map c [0..<n])"
proof -
  have secured: "published = Some bytes \<and> content = bytes"
    if "secure_output env overwrite durable bytes w1 k1 = (w', k', published, Inr content)" for bytes w1 k1
    using that
    by (auto simp: secure_output_def mark_publication_def discarded_fails split: prod.splits bool.splits if_splits option.splits write_outcome.splits dest: publish_content)
  from assms(1) obtain bytes w1 k1 w2 w3 where copied: "copy_fragments env [0..<n] [] w1 (put_file finalPublicationEvidence [] k) = (w2, k1, Inr bytes)"
      and secure: "secure_output env overwrite durable bytes w3 k1 = (w', k', published, Inr content)"
    by (auto simp: fill_output_def Let_def discarded_fails split: prod.splits bool.splits sum.splits if_splits)
  from secured [OF secure] have "published = Some bytes" "content = bytes" by blast+
  moreover have "\<forall>i \<in> set [0..<n]. file_at (put_file finalPublicationEvidence [] k) i = Some (Regular (c i))"
    using assms(2) by (simp add: file_at_def map_of_put_file fragment_name_special)
  from copy_fragments_content [OF copied this] have "bytes = concat (map c [0..<n])" by simp
  ultimately show ?thesis by simp
qed

lemma assemble_content:
  assumes "assemble env n overwrite durable w k = (w', k', published, Inr content)" and "\<forall>i < n. file_at k i = Some (Regular (c i))"
  shows "published = Some content \<and> content = concat (map c [0..<n])"
proof -
  have dropped: "file_at (drop_file finalPublicationEvidence k) i = file_at k i" for i
  proof -
    have "map_of (filter (\<lambda>(n, _). n \<noteq> finalPublicationEvidence) xs) (fragment_name (int i)) = map_of xs (fragment_name (int i))" for xs :: "(string \<times> dir_entry) list"
      using fragment_name_special(3) [of "int i"] by (induction xs) auto
    then show ?thesis by (simp add: file_at_def drop_file_def)
  qed
  from assms(1) obtain w1 k1 where "fill_output env n overwrite durable w1 k1 = (w', k', published, Inr content)" "k1 = k \<or> k1 = drop_file finalPublicationEvidence k"
    by (auto simp: assemble_def remove_file_def split: prod.splits bool.splits if_splits option.splits dir_entry.splits)
  with assms(2) dropped fill_output_content [of env n overwrite durable w1 k1 w' k' published content c] show ?thesis by auto
qed

section \<open>Outcomes\<close>

lemma no_outcome_error: "deterministicOutcomeError errors = None \<longleftrightarrow> errors = []"
  by (cases errors) (auto simp: deterministicOutcomeError_def split: option.splits)

lemma no_outcome_errors: "outcome_errors workers n = [] \<Longrightarrow> i < n \<Longrightarrow> workers i = Finished e reused \<Longrightarrow> e = None"
  by (cases e) (force simp: outcome_errors_def)+

lemma all_finished:
  assumes "engine_ok env job settings m s" and "\<not> active_workers s > 0" and "\<not> es_next s < length (fj_Segments job)"
    and "deterministicOutcomeError (outcome_errors (es_workers s) (length (fj_Segments job))) = None" and i: "i < length (fj_Segments job)"
  obtains reused where "es_workers s i = Finished None reused"
proof -
  from assms(1,3) have next_: "es_next s = length (fj_Segments job)" by (simp add: engine_ok_def)
  with assms(2) i have "\<not> is_active (es_workers s i)" by (auto simp: active_workers_def filter_empty_conv)
  moreover have "es_workers s i \<noteq> Idle" using assms(1) next_ i by (simp add: engine_ok_def)
  ultimately obtain e reused where e: "es_workers s i = Finished e reused" by (cases "es_workers s i") (auto simp: is_active_def)
  from no_outcome_errors [of "es_workers s", OF _ i e] assms(4) have "e = None" by (simp add: no_outcome_error)
  with e that show thesis by blast
qed

lemma counted:
  assumes "\<And>i. i < n \<Longrightarrow> \<exists>reused. es_workers s i = Finished None reused"
  shows "fetched_count s n False + fetched_count s n True = int n"
proof -
  have "length (filter (\<lambda>i. es_workers s i = Finished None True) [0..<n]) + length (filter (\<lambda>i. \<not> es_workers s i = Finished None True) [0..<n]) = n"
    using sum_length_filter_compl [of "\<lambda>i. es_workers s i = Finished None True" "[0..<n]"] by simp
  moreover have "filter (\<lambda>i. \<not> es_workers s i = Finished None True) [0..<n] = filter (\<lambda>i. es_workers s i = Finished None False) [0..<n]"
    using assms by (intro filter_cong refl) (force split: bool.splits)
  ultimately show ?thesis by (simp add: fetched_count_def)
qed

lemma check_job_plan: "check_job paths job = Inr settings \<Longrightarrow> validateFiniteFragmentPlan (fj_Segments job) = None \<and> check_settings job = Inr settings \<and> check_paths paths job = None"
  by (auto simp: check_job_def Let_def split: if_splits option.splits sum.splits)

lemma plan_size: "validateFiniteFragmentPlan segments = None \<Longrightarrow> length segments \<le> 100000000"
  by (auto simp: validateFiniteFragmentPlan_def maxFragmentSegments_def split: if_splits)

section \<open>Limits\<close>

definition fetching :: "'w engine_state \<Rightarrow> string \<Rightarrow> nat set" where
  "fetching s host = {i. es_workers s i = Fetching host}"

definition limits_ok :: "fragment_job \<Rightarrow> fragment_settings \<Rightarrow> 'w engine_state \<Rightarrow> bool" where
  "limits_ok job settings s \<longleftrightarrow>
     int (active_workers s) \<le> st_concurrency settings \<and>
     (0 < fj_PerHostConcurrency job \<longrightarrow> (\<forall>host. es_hosts s host = card (fetching s host) \<and> int (card (fetching s host)) \<le> fj_PerHostConcurrency job))"

lemma finite_fetching: "engine_ok env job settings m s \<Longrightarrow> finite (fetching s host)"
proof -
  assume "engine_ok env job settings m s"
  then have "es_workers s i = Idle" if "es_next s \<le> i" for i using that by (simp add: engine_ok_def)
  then have "fetching s host \<subseteq> {..<es_next s}" by (force simp: fetching_def not_less [symmetric])
  then show ?thesis by (rule finite_subset) simp
qed

lemma active_workers_kept:
  assumes "others_kept i s s'" and "is_active (es_workers s' i) \<Longrightarrow> is_active (es_workers s i)"
  shows "active_workers s' \<le> active_workers s"
proof -
  have "is_active (es_workers s' j) \<Longrightarrow> is_active (es_workers s j)" for j
    using assms by (cases "j = i") (simp_all add: others_kept_def)
  then have "length (filter (\<lambda>j. is_active (es_workers s' j)) xs) \<le> length (filter (\<lambda>j. is_active (es_workers s j)) xs)" for xs
    by (induction xs) auto
  with assms(1) show ?thesis by (simp add: active_workers_def others_kept_def)
qed

lemma fetching_kept:
  assumes "others_kept i s s'"
  shows "fetching s' host = (if es_workers s' i = Fetching host then insert i (fetching s host) else fetching s host - {i})"
proof -
  have "es_workers s' j = es_workers s j" if "j \<noteq> i" for j using assms that by (simp add: others_kept_def)
  then have "j \<in> fetching s' host \<longleftrightarrow> j \<in> (if es_workers s' i = Fetching host then insert i (fetching s host) else fetching s host - {i})" for j
    by (cases "j = i") (simp_all add: fetching_def)
  then show ?thesis by blast
qed

lemma advance_hosts:
  assumes "0 < fj_PerHostConcurrency job"
  shows "es_hosts (advance env job settings i s) host =
    (if es_workers s i = Fetching host then es_hosts s host - 1
     else if es_workers s i = Queued host \<and> es_workers (advance env job settings i s) i = Fetching host then es_hosts s host + 1 else es_hosts s host)"
    and "es_workers (advance env job settings i s) i = Fetching host \<Longrightarrow> es_workers s i = Queued host \<and> int (es_hosts s host) < fj_PerHostConcurrency job"
  using assms
  by (auto simp: advance_def look_def start_def acquire_def run_fetch_def release_def record_fragment_def is_active_def
      split: worker.splits prod.splits sum.splits bool.splits option.splits if_splits)

lemma advance_active: "is_active (es_workers (advance env job settings i s) i) \<Longrightarrow> is_active (es_workers s i)"
  by (cases "es_workers s i") (simp_all add: advance_def is_active_def)

lemma finish_workers_result:
  assumes "finish_workers env job s = Some (w', k', published, Inr result)"
  obtains w2 w3 k3 content where "\<not> active_workers s > 0" "deterministicOutcomeError (outcome_errors (es_workers s) (length (fj_Segments job))) = None"
    "\<not> es_next s < length (fj_Segments job)"
    "assemble env (length (fj_Segments job)) (fj_Overwrite job) (fj_Checkpoint job \<noteq> None) w2 (es_disk s) = (w3, k3, published, Inr content)"
    "result = \<lparr>fr_Path = fj_Destination job, fr_Bytes = int (length content), fr_Downloaded = fetched_count s (length (fj_Segments job)) False,
       fr_Reused = fetched_count s (length (fj_Segments job)) True\<rparr>"
proof -
  have cleaned: "x = result" if "finish_cleanup env job w1 k1 x = (w', k', Inr result)" for w1 k1 x
    using that by (auto simp: finish_cleanup_def split: prod.splits option.splits bool.splits if_splits)
  show thesis
    using assms unfolding finish_workers_def Let_def
    by (auto split: if_splits option.splits prod.splits bool.splits sum.splits dest!: cleaned intro!: that)
qed

lemma engine_step_limits:
  assumes ok: "engine_ok env job settings m s" and limits: "limits_ok job settings s" and size: "length (fj_Segments job) \<le> 100000000"
  shows "limits_ok job settings (engine_step env job settings event s)"
proof (cases event)
  case None
  let ?s = "s\<lparr>es_workers := (es_workers s)(es_next s := Taken), es_next := es_next s + 1\<rparr>"
  have "es_workers s (es_next s) = Idle" using ok by (simp add: engine_ok_def)
  then have "fetching ?s host = fetching s host" for host by (auto simp: fetching_def)
  moreover have "filter (\<lambda>i. is_active (es_workers ?s i)) [0..<es_next s] = filter (\<lambda>i. is_active (es_workers s i)) [0..<es_next s]"
    by (intro filter_cong) auto
  then have "active_workers ?s = active_workers s + 1" by (simp add: active_workers_def is_active_def)
  ultimately have "limits_ok job settings ?s" if "int (active_workers s) < st_concurrency settings"
    using limits that by (auto simp: limits_ok_def)
  with limits None show ?thesis by (simp add: engine_step_def dispatch_def)
next
  case (Some i)
  let ?s = "advance env job settings i s"
  show ?thesis
  proof (cases "es_workers s i = Idle")
    case True
    with limits Some show ?thesis by (simp add: engine_step_def advance_def)
  next
    case False
    with ok size have "i < 100000000" by (auto simp: engine_ok_def not_le)
    with advance_worker [OF ok] have kept: "others_kept i s ?s" by blast
    have active: "is_active (es_workers ?s i) \<Longrightarrow> is_active (es_workers s i)" using False advance_active by blast
    have "es_hosts ?s host = card (fetching ?s host) \<and> int (card (fetching ?s host)) \<le> fj_PerHostConcurrency job"
      if per: "0 < fj_PerHostConcurrency job" for host
    proof -
      from limits per have old: "es_hosts s host = card (fetching s host)" "int (card (fetching s host)) \<le> fj_PerHostConcurrency job" by (simp_all add: limits_ok_def)
      note moved = advance_hosts(1) [OF per, of env settings i s host] and room = advance_hosts(2) [OF per, of env settings i s host]
      have "i \<in> fetching s host \<longleftrightarrow> es_workers s i = Fetching host" by (simp add: fetching_def)
      with old room moved fetching_kept [OF kept, of host] finite_fetching [OF ok, of host] show ?thesis
        by (cases "es_workers ?s i = Fetching host"; cases "es_workers s i = Fetching host") auto
    qed
    with active_workers_kept [OF kept active] limits Some show ?thesis by (simp add: limits_ok_def engine_step_def)
  qed
qed

lemma engine_run_limits:
  assumes "length (fj_Segments job) \<le> 100000000"
  shows "engine_ok env job settings m s \<Longrightarrow> limits_ok job settings s \<Longrightarrow> limits_ok job settings (engine_run env job settings schedule s)"
  unfolding engine_run_def
proof (induction schedule arbitrary: s)
  case (Cons event schedule)
  from Cons.IH [OF engine_step_ok [OF Cons.prems(1) assms] engine_step_limits [OF Cons.prems assms]] show ?case by simp
qed simp

section \<open>A run\<close>

definition example_body :: body_stream where
  "example_body = \<lparr>bs_bytes = [7], bs_failure = None, bs_joined = False\<rparr>"

text \<open>Every answer is the same byte, and nothing fails.\<close>

definition calm_engine :: "('w \<Rightarrow> ResumeBoundary \<Rightarrow> 'w \<times> bool) option \<Rightarrow> 'w engine_env" where
  "calm_engine callback =
     \<lparr>en_disk = calm_disk callback, en_do = (\<lambda>w _. (w, Some (200, example_body))), en_emit = (\<lambda>w _. (w, False)), en_cancelled = (\<lambda>w. (w, False)),
      en_wait = (\<lambda>w _. (w, False)), en_symlink = (\<lambda>w _. (w, False)), en_replace = (\<lambda>w. (w, Settled)), en_encode = (\<lambda>_. []), en_cbc = (\<lambda>_ _ input. input)\<rparr>"

lemma calm_engine_simps [simp]:
  "en_disk (calm_engine c) = calm_disk c" "en_do (calm_engine c) w r = (w, Some (200, example_body))" "en_emit (calm_engine c) w e = (w, False)"
  "en_cancelled (calm_engine c) w = (w, False)" "en_wait (calm_engine c) w d = (w, False)" "en_symlink (calm_engine c) w name = (w, False)"
  "en_replace (calm_engine c) w = (w, Settled)" "en_encode (calm_engine c) x = []"
  by (simp_all add: calm_engine_def)

abbreviation good_engine :: "unit engine_env" where
  "good_engine \<equiv> calm_engine None"

abbreviation (input) keep_log :: "unit \<times> ResumeBoundary list \<Rightarrow> ResumeBoundary \<Rightarrow> (unit \<times> ResumeBoundary list) \<times> bool" where
  "keep_log \<equiv> \<lambda>(w, log) b. ((w, log @ [b]), False)"

lemma logged_good: "logged_engine good_engine = calm_engine (Some keep_log)"
  by (simp add: logged_engine_def logged_disk_def calm_engine_def calm_disk_def fun_eq_iff)

definition example_paths :: path_env where
  "example_paths = \<lparr>pe_checkpoint = None, pe_destination = None, pe_lstat = Inr DestMissing, pe_symlink = False\<rparr>"

definition example_settings :: fragment_settings where
  "example_settings = \<lparr>st_concurrency = 1, st_attempts = 1, st_maxSize = 67108864\<rparr>"

lemma example_checked: "check_job example_paths example_job = Inr example_settings"
  using example_job_valid
  by (simp add: check_job_def check_paths_def check_settings_def example_paths_def example_settings_def Let_def maxFragmentSegments_def maxFragmentConcurrency_def
      maxFragmentSize_def maxRetryDelay_def) (simp add: example_job_def)

lemma example_host: "segmentHost ''https://h/u'' = Some ''h''" "url_Parse ''https://h/u'' \<noteq> None"
  by code_simp+

definition fetched_dir :: workspace where
  "fetched_dir = put_file ''00000000.frag'' [7] (started_dir example_job)"

definition committed_dir :: workspace where
  "committed_dir = put_file ledger_name (put_ledger example_state) fetched_dir"

lemma example_fetch:
  "fetchWithRetry (calm_engine c) example_job example_settings 0 w (started_dir example_job) = (w, fetched_dir, None)"
proof -
  have a: "accept_body cbc 67108864 (fj_Segments example_job ! 0) 200 example_body = Inr [7]" for cbc
    by (simp add: accept_body_def ReadAll_limited_def example_body_def) (simp add: example_job_def)
  have u: "fs_URL (fj_Segments example_job ! 0) = ''https://h/u''" by (simp add: example_job_def)
  have "atomic_write (calm_disk c) ''00000000.frag'' [7] w (started_dir example_job) = (w, fetched_dir, Settled)"
    by (simp add: atomic_write_def fetched_dir_def)
  with a example_host(2) have "fetch (calm_engine c) (fj_Headers example_job) 67108864 (fj_Segments example_job ! 0) ''00000000.frag'' w (started_dir example_job) = (w, fetched_dir, None)"
    by (simp add: fetch_def u)
  then show ?thesis by (simp add: fetchWithRetry_def example_settings_def fetch_attempts.simps fragment_name_0)
qed

lemma example_record:
  assumes "notify (calm_disk c) (Some example_boundary) w ((first_manifest example_job)\<lparr>am_state := example_state\<rparr>) = (w', m', None)"
  shows "RecordScaled (calm_disk c) (first_manifest example_job) 0 (segment_scale (fj_Segments example_job) 0) w fetched_dir = (w', committed_dir, m', None)"
proof -
  have scale: "segment_scale (fj_Segments example_job) 0 = Some example_scale" by (simp add: segment_scale_def example_job_def)
  have d: "digestFile (calm_disk c) ''00000000.frag'' w fetched_dir = (w, Some (1, hex_EncodeToString (Sum256 [7])))"
    by (simp add: digestFile_def fetched_dir_def map_of_put_file)
  have fields: "\<not> am_callbackErr (first_manifest example_job)" "\<not> am_poisoned (first_manifest example_job)"
      "(am_state (first_manifest example_job))\<lparr>ms_Artifacts := fmupd 0 (recorded 1 (hex_EncodeToString (Sum256 [7])) (Some example_scale)) (ms_Artifacts (am_state (first_manifest example_job)))\<rparr>
        = example_state"
    by (simp_all add: first_manifest_def example_expectation_def [symmetric] new_manifest_def example_state_def) (simp add: initialManifestState_def)
  have "next_snapshot (first_manifest example_job) example_state = Inr (Some example_boundary)"
    using example_snapshot contiguous_one [where s = "initialManifestState example_expectation"]
    by (simp add: next_snapshot_def first_manifest_def example_expectation_def [symmetric] new_manifest_def example_state_def Let_def)
  with example_ledger_length assms have "commit_candidate (calm_disk c) (first_manifest example_job) example_state w fetched_dir = (w', committed_dir, m', None)"
    by (simp add: commit_candidate_def writeManifestState_def atomic_write_def committed_dir_def)
  with d fields show ?thesis by (simp add: RecordScaled_def fragment_name_0 Let_def scale)
qed

definition example_schedule :: "nat option list" where
  "example_schedule = [None, Some 0, Some 0, Some 0, Some 0, Some 0]"

lemma example_fetching:
  "engine_run (calm_engine c) example_job example_settings [None, Some 0, Some 0, Some 0] (engine_start w (started_dir example_job) (first_manifest example_job)) =
     \<lparr>es_world = w, es_disk = started_dir example_job, es_manifest = first_manifest example_job, es_workers = (\<lambda>_. Idle)(0 := Fetching ''h''), es_next = 1,
      es_hosts = (\<lambda>_. 0)(''h'' := 1)\<rparr>"
proof -
  have "fmlookup (ms_Artifacts (am_state (first_manifest example_job))) 0 = None" "\<not> am_poisoned (first_manifest example_job)" "\<not> am_callbackErr (first_manifest example_job)"
    by (simp_all add: first_manifest_def new_manifest_def initialManifestState_def)
  moreover have "fs_URL (fj_Segments example_job ! 0) = ''https://h/u''" "length (fj_Segments example_job) = 1" "fj_PerHostConcurrency example_job = 1"
    "st_concurrency example_settings = 1"
    by (simp_all add: example_job_def example_settings_def)
  ultimately show ?thesis
    by (simp add: engine_run_def engine_step_def engine_start_def dispatch_def active_workers_def advance_def look_def reusableScaled_def put_worker_def start_def
        example_host acquire_def)
qed

lemma engine_run_append: "engine_run env job settings (xs @ ys) s = engine_run env job settings ys (engine_run env job settings xs s)"
  by (simp add: engine_run_def)

lemma example_engine_run:
  assumes "notify (calm_disk c) (Some example_boundary) w ((first_manifest example_job)\<lparr>am_state := example_state\<rparr>) = (w', m', None)"
  shows "engine_run (calm_engine c) example_job example_settings example_schedule (engine_start w (started_dir example_job) (first_manifest example_job)) =
     \<lparr>es_world = w', es_disk = committed_dir, es_manifest = m', es_workers = (\<lambda>_. Idle)(0 := Finished None False), es_next = 1, es_hosts = (\<lambda>_. 0)\<rparr>"
proof -
  have split: "example_schedule = [None, Some 0, Some 0, Some 0] @ [Some 0, Some 0]" by (simp add: example_schedule_def)
  have "fj_PerHostConcurrency example_job = 1" by (simp add: example_job_def)
  then show ?thesis
    using example_record [OF assms]
    unfolding split engine_run_append example_fetching
    by (simp add: engine_run_def engine_step_def advance_def run_fetch_def example_fetch put_worker_def release_def record_fragment_def fun_eq_iff)
qed

lemma committed_entries: "wk_entries committed_dir = [(ledger_name, Regular (put_ledger example_state)), (''00000000.frag'', Regular [7])]" "\<not> wk_destination committed_dir"
  using example_names(4)
  by (simp_all add: committed_dir_def fetched_dir_def started_dir_def first_dir_def put_file_def)

lemma special_names:
  "finalPublicationEvidence \<noteq> ledger_name" "finalPublicationEvidence \<noteq> publicationMarker" "publicationMarker \<noteq> ledger_name"
  "finalPublicationEvidence \<noteq> ''00000000.frag''" "publicationMarker \<noteq> ''00000000.frag''" "''00000000.frag'' < ledger_name"
  by code_simp+

lemmas example_file_names = special_names special_names(1-5) [symmetric] example_names example_names(4) [symmetric]

definition published_dir :: workspace where
  "published_dir = (put_file publicationMarker [] committed_dir)\<lparr>wk_destination := True\<rparr>"

lemma example_assemble: "assemble good_engine 1 False True w committed_dir = (w, published_dir, Some [7], Inr [7])"
proof -
  have copied: "copy_fragments good_engine [0..<1] [] w (put_file finalPublicationEvidence [] committed_dir)
      = (w, put_file finalPublicationEvidence [7] (put_file finalPublicationEvidence [] committed_dir), Inr [7])" for w
    by (simp add: map_of_put_file committed_entries example_file_names file_content_def copyFragment_def fragment_name_0)
  have twice: "put_file finalPublicationEvidence [7] (put_file finalPublicationEvidence [] committed_dir) = put_file finalPublicationEvidence [7] committed_dir"
    by (simp add: put_file_def committed_entries example_file_names)
  have "publish good_engine False True [7] w (put_file publicationMarker [] (put_file finalPublicationEvidence [7] committed_dir)) = (w, published_dir, Some [7], Inr [7])" for w
    by (simp add: publish_def publishNoClobber_def remove_file_def put_file_def drop_file_def committed_entries example_file_names published_dir_def)
  then have "secure_output good_engine False True [7] w (put_file finalPublicationEvidence [7] committed_dir) = (w, published_dir, Some [7], Inr [7])" for w
    by (simp add: secure_output_def mark_publication_def digestFile_def map_of_put_file atomic_write_def)
  then have "fill_output good_engine 1 False True w committed_dir = (w, published_dir, Some [7], Inr [7])" for w
    using copied by (simp add: fill_output_def Let_def twice)
  then show ?thesis by (simp add: assemble_def committed_entries example_file_names)
qed

lemma example_cleanup: "\<exists>k'. cleanupCommittedCheckpoint good_engine w published_dir = (w, k', None)"
proof -
  have entries: "wk_entries published_dir = [(ledger_name, Regular (put_ledger example_state)), (''00000000.frag'', Regular [7]), (publicationMarker, Regular [])]"
    by (simp add: published_dir_def put_file_def committed_entries example_file_names)
  have "cleanup_names good_engine w (wk_entries published_dir) = (w, Inr [ledger_name, ''00000000.frag''])" for w
    by (simp add: entries example_file_names entry_info_def)
  then show ?thesis
    by (simp add: cleanupCommittedCheckpoint_def entries example_file_names remove_file_def remove_marker_def del: cleanup_names.simps)
qed

lemma example_download:
  "\<exists>k'. engine_Download good_engine example_paths (\<lambda>x. x) [] example_job None example_schedule () first_dir =
     Some ((), k', Some [7], Inr \<lparr>fr_Path = [], fr_Bytes = 1, fr_Downloaded = 1, fr_Reused = 0\<rparr>)"
proof -
  obtain m' where n: "notify (calm_disk None) (Some example_boundary) () ((first_manifest example_job)\<lparr>am_state := example_state\<rparr>) = ((), m', None)"
    by (simp add: notify_def)
  obtain k' where c: "cleanupCommittedCheckpoint good_engine () published_dir = ((), k', None)" using example_cleanup by blast
  have job: "length (fj_Segments example_job) = 1" "\<not> fj_Overwrite example_job" "fj_Destination example_job = []" by (simp_all add: example_job_def)
  have "engine_Download good_engine example_paths (\<lambda>x. x) [] example_job None example_schedule () first_dir =
     Some ((), k', Some [7], Inr \<lparr>fr_Path = [], fr_Bytes = 1, fr_Downloaded = 1, fr_Reused = 0\<rparr>)"
    using example_assemble c
    by (simp add: engine_Download_def example_checked example_first example_engine_run [OF n] finish_workers_def Let_def job active_workers_def is_active_def
        outcome_errors_def deterministicOutcomeError_def finish_cleanup_def example_job_valid fetched_count_def)
  then show ?thesis by blast
qed

lemma example_told:
  "\<exists>m'. engine_run (logged_engine good_engine) example_job example_settings example_schedule (engine_start ((), []) (started_dir example_job) (first_manifest example_job)) =
     \<lparr>es_world = ((), [example_boundary]), es_disk = committed_dir, es_manifest = m', es_workers = (\<lambda>_. Idle)(0 := Finished None False), es_next = 1, es_hosts = (\<lambda>_. 0)\<rparr>"
proof -
  obtain m' where "notify (calm_disk (Some keep_log)) (Some example_boundary) ((), []) ((first_manifest example_job)\<lparr>am_state := example_state\<rparr>)
      = (((), [example_boundary]), m', None)"
    by (simp add: notify_def)
  from example_engine_run [OF this] show ?thesis unfolding logged_good by blast
qed

section \<open>Properties\<close>



text \<open>
  C12. At every moment of every schedule at most as many fragments are being worked on as the job allows, which is at most 128, and if the job limits the fetches from one host, at
  most that many fetches from one host are under way.
\<close>

theorem concurrency_is_bounded:
  assumes "check_job paths job = Inr settings"
  shows "int (active_workers (engine_run env job settings schedule (engine_start w k m))) \<le> st_concurrency settings \<and> st_concurrency settings \<le> 128 \<and>
    (0 < fj_PerHostConcurrency job \<longrightarrow>
       int (card (fetching (engine_run env job settings schedule (engine_start w k m)) host)) \<le> fj_PerHostConcurrency job)"
proof -
  from check_job_plan [OF assms] have plan: "validateFiniteFragmentPlan (fj_Segments job) = None" and settings: "check_settings job = Inr settings" by simp_all
  from settings have bounds: "0 < st_concurrency settings" "st_concurrency settings \<le> 128"
    by (auto simp: check_settings_def Let_def maxFragmentConcurrency_def split: if_splits)
  then have "limits_ok job settings (engine_start w k m)" by (auto simp: limits_ok_def engine_start_def active_workers_def fetching_def)
  from engine_run_limits [OF plan_size [OF plan] engine_start_ok this] bounds show ?thesis by (simp add: limits_ok_def)
qed

theorem concurrency_is_bounded_witness:
  "let s = engine_run good_engine example_job example_settings [None, Some 0, Some 0, Some 0] (engine_start () (started_dir example_job) (first_manifest example_job))
   in active_workers s = 1 \<and> fetching s ''h'' = {0} \<and> int (card (fetching s ''h'')) \<le> fj_PerHostConcurrency example_job"
proof -
  have "0 < fj_PerHostConcurrency example_job" by (simp add: example_job_def)
  with concurrency_is_bounded [OF example_checked, of good_engine "[None, Some 0, Some 0, Some 0]" "()" "started_dir example_job" "first_manifest example_job" "''h''"]
  show ?thesis unfolding example_fetching by (auto simp: Let_def active_workers_def is_active_def fetching_def)
qed

text \<open>
  C11. Every boundary that the callback of a checkpointed download receives is the snapshot of a prefix of the ledger on disk, at the time and ever after,
  however the workers interleave and however writes end; the sequences increase strictly and exceed that of the caller. A process that stops
  anywhere therefore leaves a ledger that agrees with all it has reported.
\<close>

theorem callback_is_never_ahead_of_the_ledger:
  assumes "check_job paths job = Inr settings" and "fj_Checkpoint job = Some checkpoint" and "ledger_codec (en_disk env)"
    and "prepare_ledger (en_disk env) order legacyHash job authority w k = (w1, k1, Inr m)"
    and "s = engine_run (logged_engine env) job settings schedule (engine_start (w1, []) k1 m)"
  shows "(\<exists>state. on_disk (en_disk env) (es_disk s) state \<and> (\<forall>b \<in> set (snd (es_world s)). snapshotForPrefix state (rb_Sequence b) = Inr b)) \<and>
    sorted_wrt (<) (map rb_Sequence (snd (es_world s))) \<and> (\<forall>b \<in> set (snd (es_world s)). caller_sequence authority < rb_Sequence b)"
proof -
  from check_job_plan [OF assms(1)] have plan: "validateFiniteFragmentPlan (fj_Segments job) = None" and paths: "check_paths paths job = None" by simp_all
  from paths assms(2) have "validateResumeIdentity (fc_ResumeIdentity checkpoint) = None" by (auto simp: check_paths_def split: option.splits)
  note prepared = prepare_ledger_opened [OF assms(4,3,2) this]
  then have durable: "am_durable m" by (simp add: ledger_inv_def)
  have "logged.engine_inv env (caller_sequence authority) (engine_start (w1, []) k1 m)"
    using prepared(1) by (simp add: logged.engine_inv_def engine_start_def pending_missing_def pending_def ledger_inv_def)
  from logged.engine_run_inv [OF _ plan prepared(4) durable this engine_start_ok] assms(3,5)
  have "logged.engine_inv env (caller_sequence authority) s" by simp
  then show ?thesis by (auto simp: logged.engine_inv_def ledger_inv_def covers_def log_ok_def)
qed

theorem callback_is_never_ahead_of_the_ledger_witness:
  "\<exists>state. let s = engine_run (logged_engine good_engine) example_job example_settings example_schedule (engine_start ((), []) (started_dir example_job) (first_manifest example_job))
   in snd (es_world s) = [example_boundary] \<and> on_disk good_disk (es_disk s) state \<and> snapshotForPrefix state 1 = Inr example_boundary"
proof -
  from example_first have prepared: "prepare_ledger (en_disk good_engine) (\<lambda>x. x) [] example_job None () first_dir = ((), started_dir example_job, Inr (first_manifest example_job))" by simp
  from good_codec have codec: "ledger_codec (en_disk good_engine)" by simp
  from example_told obtain m' where run: "engine_run (logged_engine good_engine) example_job example_settings example_schedule
      (engine_start ((), []) (started_dir example_job) (first_manifest example_job)) =
     \<lparr>es_world = ((), [example_boundary]), es_disk = committed_dir, es_manifest = m', es_workers = (\<lambda>_. Idle)(0 := Finished None False), es_next = 1, es_hosts = (\<lambda>_. 0)\<rparr>" by blast
  from callback_is_never_ahead_of_the_ledger [OF example_checked example_job_valid(3) codec prepared refl, of example_schedule]
  have "\<exists>state. on_disk good_disk committed_dir state \<and> snapshotForPrefix state (rb_Sequence example_boundary) = Inr example_boundary" unfolding run by simp
  moreover have "rb_Sequence example_boundary = 1" by (simp add: example_boundary_def)
  ultimately show ?thesis unfolding run by simp
qed

end
