(* ===== verification/Spec2Isabelle.thy ===== *)
theory Spec2Isabelle
  imports Downloader Arbiter DashOutput LedgerResume FragmentOutput
begin

text \<open>
  Verification of the core of \<open>ytdlp-go\<close>: the SABR engine (the package \<open>src/internal/protocol/youtubeump\<close>), the
  DASH downloader (\<open>src/internal/protocol/dash\<close>), the fragment engine (\<open>src/internal/fragment\<close>) and the publication arbiter of a worker run
  (\<open>src/engine/publication_arbiter.go\<close>).

  \<^bold>\<open>The SABR engine\<close> downloads one finite media track. In rounds it posts a protobuf request to a
  \<open>googlevideo.com\<close> endpoint and reads a response in the UMP framing: a stream of typed parts. Media parts (header, media,
  end) carry an initialisation segment and numbered media segments, which the assembler appends to a partial file; control
  parts carry the wait before the next request, a playback cookie, contexts to echo, a redirect, the end of the track, an error or a
  request to reload the player. What a response controls is committed only when the whole response was accepted. After every
  committed segment a checkpoint is saved, from which a later download of the same identity resumes. Errors of the
  server, reloads, redirects, retries and rounds have budgets.

  \<^bold>\<open>The DASH downloader\<close> parses a manifest into representations with their segments (the intervals of periods are
  inferred, templates and timelines are expanded). It plans a download from it: it selects one representation per kind of track (across all
  periods), and where a representation is addressed by a segment index it fetches the index, which may refer to further
  indexes, and expands it to byte ranges of media. A live manifest is polled; every snapshot is expanded again and
  merged with what earlier snapshots gave. Bytes, boxes, leaves, depth, retries and snapshots are bounded. The planned segments of every track, or of
  every period of a track, are one job of the fragment engine.

  \<^bold>\<open>The fragment engine\<close> fetches the segments of a job with several workers into a work directory, with retries, limits for each host and decryption, and then
  assembles them to the output, publishes it and removes the directory. With a checkpoint the directory has a ledger of the fragments that
  were committed, with sizes, digests and proofs; each time the contiguous prefix of recorded fragments grows, a callback is told a boundary that binds this prefix by a digest. A
  later download compares the boundary of its caller with ledger and files, cuts the directory back to it, and reuses what is proved to be the same bytes.

  \<^bold>\<open>The publication arbiter\<close> decides between cancelling a run and publishing its output: each takes a reservation, and at most
  one of them wins.

  \<^bold>\<open>The theories of the SABR engine\<close>, in the order of the code they model; file names are those of the package.

  \<^item> \<open>Prelude\<close>: machine integers, byte strings, the error sentinels and signals of \<open>errors.go\<close> as one datatype, results as sums,
    shared lemmas. \<open>GoStrings\<close> and \<open>GoUrl\<close>: what the package uses of Go's \<open>strings\<close> and \<open>net/url\<close>.
  \<^item> \<open>Bounds\<close> (\<open>bounds.go\<close>, \<open>parts.go\<close>), \<open>Integers\<close> (\<open>integers.go\<close> and the arithmetic of \<open>proto.go\<close>), \<open>Varint\<close> (\<open>varint.go\<close>):
    limits, checked conversions, exact tick-to-millisecond arithmetic on 128 bits, framing integers.
  \<^item> \<open>Wire\<close> (\<open>wire.go\<close>): protobuf varints and the field cursor with its sticky error. \<open>WireFields\<close>: a message as a list of
    fields; the locale \<open>wire_message\<close> says when a parser is a fold over the fields and gives its round-trip lemma once.
  \<^item> \<open>Proto\<close> (\<open>proto.go\<close>, \<open>validate.go\<close>), \<open>Directives\<close> (\<open>directives.go\<close> and the parsers of \<open>control.go\<close>), \<open>Playback\<close> (the playback
    request of \<open>proto.go\<close> and its decoders): every message, as interpretations of \<open>wire_message\<close>.
  \<^item> \<open>UmpReader\<close> (\<open>reader.go\<close>): the incremental reader over an arbitrary \<open>io.Reader\<close>. \<open>UmpFrames\<close>: the framing format as a
    specification, and the locale \<open>byte_source\<close> for readers that deliver some content in pieces.
  \<^item> \<open>Request\<close> (\<open>request.go\<close>, \<open>headers.go\<close>, the redirect tracker of \<open>context_state.go\<close>): endpoint policy, request, caller headers,
    redirect chains. \<open>ContextState\<close> (\<open>context_state.go\<close>): the bounded store of contexts.
  \<^item> \<open>Sha256\<close>, \<open>Digest\<close>: the hash and the digests of \<open>checkpoint.go\<close>.
  \<^item> \<open>Assembler\<close> (\<open>assembler.go\<close>): the record \<open>trackAssembler\<close> and its methods, on a world with a file. \<open>TrackLog\<close>: what the file
    must contain (\<open>assembled\<close>), the locale \<open>track_world\<close> for the contract of file and commit callback, runs of the assembler.
  \<^item> \<open>Control\<close> (\<open>control.go\<close>, \<open>consumeStreamState\<close> of \<open>downloader.go\<close>): the parts of one response and their commit; the locale
    \<open>quiet_world\<close> for worlds whose own errors are not recoverable.
  \<^item> \<open>Recovery\<close> (\<open>retry.go\<close>, \<open>recovery.go\<close>, \<open>Config\<close>): delays, failures, refreshed material.
  \<^item> \<open>Checkpoint\<close> (\<open>checkpoint.go\<close>): identity, validation, snapshot, restoration, verification of the partial file. \<open>CrashSafety\<close>: the
    assembler whose commit callback saves checkpoints.
  \<^item> \<open>Transport\<close> (\<open>postOnce\<close>, \<open>postRound\<close>, \<open>validateResponseContentType\<close> on a model of \<open>mime.ParseMediaType\<close>): one round on an
    environment \<open>net_env\<close>; the locale \<open>recorded\<close> for networks that remember what was sent, and \<open>logged\<close>, which makes one of
    every environment.
  \<^item> \<open>Downloader\<close> (\<open>downloader.go\<close>): \<open>Download\<close> from the configuration to the synced file.

  \<^bold>\<open>The theories of the DASH downloader and the arbiter.\<close>

  \<^item> \<open>Sidx\<close> (\<open>sidx.go\<close>): the binary segment index box, its parser and the byte ranges of its references.
  \<^item> \<open>IndexFetch\<close> (\<open>fetchIndexRange\<close>, \<open>retry\<close>, \<open>validContentRange\<close> of \<open>downloader.go\<close>): one range of an index, with retries and byte budget, on an
    environment \<open>index_env\<close> of transport, context, timer and URL policy.
  \<^item> \<open>IndexExpansion\<close> (\<open>expandSIDXSegments\<close>, \<open>expandSIDXReferences\<close> and the session state of \<open>dynamic_sidx.go\<close>): the recursive
    expansion; the locale \<open>index_log\<close> for environments that record the requests made of them, interpreted on the model's own.
  \<^item> \<open>LiveWindow\<close> (\<open>mergeSegments\<close>, \<open>alignLiveWindow\<close>, \<open>segmentAccumulator\<close>): segment identity and the merging of snapshots.
  \<^item> \<open>DashSelect\<close> (\<open>selectRepresentations\<close>, \<open>betterSignature\<close>, \<open>mergeDynamicMultiPeriodRepresentation\<close>): the selected representations.
  \<^item> \<open>DashPolling\<close> (\<open>pollDynamicSIDX\<close> of \<open>dynamic_sidx.go\<close>): the polling of a live manifest.
  \<^item> \<open>PeriodTiming\<close> (\<open>resolvePeriodTimings\<close>, \<open>parseISODuration\<close> of \<open>mpd.go\<close>): the intervals of periods. \<open>DashTemplate\<close> (\<open>templateSegments\<close>,
    \<open>templateURL\<close>, \<open>listSegments\<close>, \<open>baseSegments\<close>, the merging of elements): segments; the URL library and floating-point arithmetic are the
    record \<open>dash_lib\<close>. \<open>DashManifest\<close> (\<open>Parse\<close>, the resume structures): from the decoded document to representations.
  \<^item> \<open>DashResume\<close> (\<open>staticScale\<close>, \<open>dashCanonicalFieldsSafe\<close>, \<open>dashFragmentCanonical\<close> of \<open>downloader.go\<close>): the identity under which a fragment is resumed.
  \<^item> \<open>DashDownload\<close> (\<open>load\<close>, \<open>Download\<close>, \<open>downloadSegments\<close> of \<open>downloader.go\<close>): from the URL of a manifest to the jobs of all tracks; the fragment engine, \<open>os\<close>
    and the decoding of XML are an environment. \<open>DashPlan\<close>: what holds of the plan, with the locale \<open>accepting_loader\<close> for the contract of \<open>load\<close>, interpreted on the
    model's. \<open>DashOutput\<close>: jobs, destinations and files.
  \<^item> \<open>FragmentPlan\<close> (\<open>checkpoint_authority.go\<close>, \<open>engine.go\<close>, \<open>manifest.go\<close> of \<open>internal/fragment\<close>): plans, scales, boundaries and their digests. \<open>FragmentLedger\<close>
    (\<open>manifest.go\<close>, \<open>checkpoint_authority.go\<close>): every operation of the ledger on a work directory, with system calls and atomic writes that fail in any way. \<open>LedgerRuns\<close>: the
    preparation of a job, the invariant of ledger and directory, and the locale \<open>commit_log\<close> of a world that remembers what the callback was told.
  \<^item> \<open>FragmentEngine\<close> (\<open>engine.go\<close>, \<open>checkpoint_cleanup.go\<close>, \<open>publish_no_clobber_unix.go\<close>): the checks of a job, requests, workers, assembly, publication and cleanup. The workers are
    a function from fragments to where the work on them is; a schedule, any list of steps, says who goes on. What one worker keeps of the files and records of the
    others is an invariant; the locale \<open>engine_log\<close> extends \<open>commit_log\<close> to all a download does and is interpreted on the engine with a log. The transport, contexts, timers, events,
    AES and the file system are an environment that may answer differently at each call. \<open>LedgerSafety\<close>, \<open>LedgerResume\<close>, \<open>FragmentOutput\<close>: the properties.
  \<^item> \<open>Arbiter\<close>: the arbiter with its reservations, as operations and as a step relation over any interleaving of them.

  \<^bold>\<open>How code became definitions.\<close> Structs are records, with the prefix of the type in the field names; methods that
  mutate return the new record, also together with an error, because the code changes the receiver before it fails. \<open>uint32\<close> and \<open>uint64\<close> are
  words; signed integers are integers with the wrap-around (\<open>wrap64\<close>) or the range check written out where the
  code can leave the range. Loops over input are recursive functions with a termination proof: the reader and the
  consumer end because parts are counted, the rounds because every repeated round uses up one of the recoveries
  (\<open>budget_left\<close>). The only fuel is in the parameter loop of \<open>mime.ParseMediaType\<close>, where the length of the header bounds
  the turns. The expansion of an index ends because its depth is at most 8, retries and polls are counted by the
  configuration. The expansion of a timeline can run forever and is a \<open>partial_function\<close> with \<open>None\<close> for that case; that it ends is proved where it does. A map of Go has no order of iteration: where the code ranges over one, the model takes the order as an argument. The transport, the context, the clock, the event sink, the callbacks of \<open>Config\<close>, the file and the saving of the
  state file are parameters; the file is also given concretely (\<open>os_file\<close>), with writes and syncs that may fail at any point.

  \<^bold>\<open>What is proved.\<close> A successful download is the whole track, whatever server, network and disk do; every way to end a
  download leaves files from which the next one resumes; the requests are bounded in number, go to trusted hosts and carry no
  credentials (\<open>Downloader\<close>). The track file is always a log of whole segments (\<open>TrackLog\<close>, \<open>Control\<close>), checkpoints restore exactly what was
  committed and are never ahead of the file (\<open>CrashSafety\<close>). The reader refines the framing format independently of
  how the transport cuts the stream (\<open>UmpFrames\<close>); encoders and decoders are inverse (\<open>Varint\<close>, \<open>Wire\<close>, \<open>Proto\<close>, \<open>Playback\<close>, \<open>Digest\<close>); directives are
  bounded and validated (\<open>Directives\<close>, \<open>ContextState\<close>, \<open>Request\<close>). An index is parsed back from its encoding and its ranges are
  contiguous (\<open>Sidx\<close>); an expanded index has disjoint ranges that touch no index bytes, and a hostile server cannot make the expansion
  transfer or request more than its budgets (\<open>IndexExpansion\<close>); a live plan has no gap, overlap or repetition and only grows
  (\<open>LiveWindow\<close>, \<open>DashPolling\<close>); the selection does not depend on the order of maps, and merging periods only appends (\<open>DashSelect\<close>).
  Consistent period attributes resolve to their timeline (\<open>PeriodTiming\<close>), a segment timeline expands to exactly its times (\<open>DashTemplate\<close>), a parsed
  manifest has index markers exactly where the polling expects them (\<open>DashManifest\<close>), and a key of the resume ledger identifies its fragment and contains no
  text of a URL (\<open>DashResume\<close>). A download, static or dynamic, gives the fragment engine only URLs that the policy accepts and only as many segments as the job allows, its jobs
  have different destinations, and a failed period leaves no files (\<open>DashOutput\<close>). A fragment download
  that succeeds has published the fragments in their order, its limits on concurrent work hold at every moment, and the commit callback of a checkpointed download is told only of
  prefixes that are on disk (\<open>FragmentOutput\<close>); fragments are fetched only when the ledger lacks them (\<open>LedgerSafety\<close>), a caller that comes back with a boundary finds exactly
  that prefix, and a DASH download without proofs starts over (\<open>LedgerResume\<close>). Cancellation and publication never both win, however their steps interleave (\<open>Arbiter\<close>). Some properties show behaviour the code cannot intend: an
  announced segment that blocks checkpoints, a recovery that trips over an open segment, a host name with U+0130, a
  repetition count that bypasses the limit on segments, an escape that is always refused, representations that are never resumed,
  an index marker that is not expanded, an empty fragment that makes a ledger unusable.

  \<^bold>\<open>Not modelled.\<close> Paths, directories and the publication of the file (\<open>output.go\<close>, \<open>finalize_*.go\<close>), the JSON text of checkpoints and the completion
  marker: system calls and \<open>encoding/json\<close>. Redaction: it changes messages only. Of DASH: the
  decoding of XML. Of the fragment engine: the checks of paths against the output root, the
  messages of events, and the variants for Windows; a fetch with its retries is one step of its worker, so that others go on before or after it. The rest of the repository, extractors,
  other protocols, format selection, post-processing, command line: listed in the manifest with the reason for each part.
\<close>

end
